(* ===== verification/Utf8.thy ===== *)
theory Utf8
  imports Prelude
begin

text \<open>
  The part of Rust's string library that the protocol code relies on:
  \<open>utf8_step\<close> reads one code point and says whether the bytes at the front are a well
  formed UTF-8 sequence and how many bytes it (or the maximal invalid prefix) takes;
  \<open>valid_utf8\<close> is \<open>str::from_utf8(..).is_ok()\<close>; \<open>from_utf8_lossy\<close> is
  \<open>String::from_utf8_lossy\<close>, which puts U+FFFD in place of every maximal invalid prefix.
\<close>

definition is_cont :: "byte \<Rightarrow> bool" where
  "is_cont b \<longleftrightarrow> 0x80 \<le> b \<and> b \<le> 0xBF"

text \<open>Reading past the end gives 0, which is no continuation byte.\<close>

definition safe_get :: "bytes \<Rightarrow> nat \<Rightarrow> byte" where
  "safe_get bs i = (if i < length bs then bs ! i else 0)"

definition utf8_width :: "byte \<Rightarrow> nat" where
  "utf8_width b =
     (if b < 0x80 then 1
      else if 0xC2 \<le> b \<and> b \<le> 0xDF then 2
      else if 0xE0 \<le> b \<and> b \<le> 0xEF then 3
      else if 0xF0 \<le> b \<and> b \<le> 0xF4 then 4
      else 0)"

definition ok_second3 :: "byte \<Rightarrow> byte \<Rightarrow> bool" where
  "ok_second3 b c \<longleftrightarrow>
     (b = 0xE0 \<and> 0xA0 \<le> c \<and> c \<le> 0xBF)
     \<or> (0xE1 \<le> b \<and> b \<le> 0xEC \<and> is_cont c)
     \<or> (b = 0xED \<and> 0x80 \<le> c \<and> c \<le> 0x9F)
     \<or> (0xEE \<le> b \<and> b \<le> 0xEF \<and> is_cont c)"

definition ok_second4 :: "byte \<Rightarrow> byte \<Rightarrow> bool" where
  "ok_second4 b c \<longleftrightarrow>
     (b = 0xF0 \<and> 0x90 \<le> c \<and> c \<le> 0xBF)
     \<or> (0xF1 \<le> b \<and> b \<le> 0xF3 \<and> is_cont c)
     \<or> (b = 0xF4 \<and> 0x80 \<le> c \<and> c \<le> 0x8F)"

definition utf8_step :: "bytes \<Rightarrow> bool \<times> nat" where
  "utf8_step bs =
     (let b = safe_get bs 0; w = utf8_width b in
      if w = 1 then (True, 1)
      else if w = 2 then
        (if is_cont (safe_get bs 1) then (True, 2) else (False, 1))
      else if w = 3 then
        (if \<not> ok_second3 b (safe_get bs 1) then (False, 1)
         else if \<not> is_cont (safe_get bs 2) then (False, 2)
         else (True, 3))
      else if w = 4 then
        (if \<not> ok_second4 b (safe_get bs 1) then (False, 1)
         else if \<not> is_cont (safe_get bs 2) then (False, 2)
         else if \<not> is_cont (safe_get bs 3) then (False, 3)
         else (True, 4))
      else (False, 1))"

lemma utf8_step_pos: "0 < snd (utf8_step bs)"
  by (simp add: utf8_step_def Let_def)

lemma utf8_step_bound: "snd (utf8_step bs) \<le> 4"
  by (simp add: utf8_step_def Let_def)

lemma not_cont_0 [simp]: "\<not> is_cont 0" "\<not> ok_second3 b 0" "\<not> ok_second4 b 0"
  by (simp_all add: is_cont_def ok_second3_def ok_second4_def)

lemma is_cont_in_range: "is_cont (safe_get bs i) \<Longrightarrow> i < length bs"
  by (auto simp: safe_get_def split: if_splits)

lemma ok_second_in_range:
  "ok_second3 b (safe_get bs i) \<Longrightarrow> i < length bs"
  "ok_second4 b (safe_get bs i) \<Longrightarrow> i < length bs"
  by (auto simp: safe_get_def split: if_splits)

lemma utf8_step_length: "bs \<noteq> [] \<Longrightarrow> snd (utf8_step bs) \<le> length bs"
  using is_cont_in_range [of bs 1] is_cont_in_range [of bs 2] is_cont_in_range [of bs 3]
    ok_second_in_range [of "safe_get bs 0" bs 1]
  by (auto simp: utf8_step_def Let_def Suc_le_eq)

lemma safe_get_take: "i < n \<Longrightarrow> n \<le> length bs \<Longrightarrow> safe_get (take n bs @ ys) i = safe_get bs i"
  by (simp add: safe_get_def nth_append)

text \<open>A well formed code point stays one, whatever follows it.\<close>

lemma utf8_step_take:
  assumes "utf8_step bs = (True, n)" and "bs \<noteq> []"
  shows "utf8_step (take n bs @ ys) = (True, n)"
proof -
  have n: "n \<le> length bs" "0 < n"
    using utf8_step_length [OF assms(2)] utf8_step_pos [of bs] assms(1) by simp_all
  have get: "safe_get (take n bs @ ys) i = safe_get bs i" if "i < n" for i
    using that n by (simp add: safe_get_take)
  show ?thesis
    using assms(1) n get [of 0] get [of 1] get [of 2] get [of 3]
    by (auto simp: utf8_step_def Let_def split: if_splits)
qed

function valid_utf8 :: "bytes \<Rightarrow> bool" where
  "valid_utf8 bs =
     (if bs = [] then True
      else if fst (utf8_step bs) then valid_utf8 (drop (snd (utf8_step bs)) bs)
      else False)"
  by pat_completeness auto
termination
  by (relation "measure length") (auto simp: utf8_step_pos intro!: diff_less)

function from_utf8_lossy :: "bytes \<Rightarrow> bytes" where
  "from_utf8_lossy bs =
     (if bs = [] then []
      else let (ok, n) = utf8_step bs in
        (if ok then take n bs else [0xEF, 0xBF, 0xBD]) @ from_utf8_lossy (drop n bs))"
  by pat_completeness auto
termination
proof (relation "measure length")
  fix bs p ok n
  assume "bs \<noteq> []" and p: "p = utf8_step bs" "(ok, n) = p"
  then have "0 < n" using utf8_step_pos [of bs] by (metis snd_conv)
  with \<open>bs \<noteq> []\<close> show "(drop n bs, bs) \<in> measure length" by simp
qed simp

declare valid_utf8.simps [simp del] from_utf8_lossy.simps [simp del]

lemma valid_utf8_Nil [simp]: "valid_utf8 []"
  by (subst valid_utf8.simps) simp

lemma from_utf8_lossy_Nil [simp]: "from_utf8_lossy [] = []"
  by (subst from_utf8_lossy.simps) simp

lemma valid_utf8_step:
  assumes "utf8_step bs = (True, n)" and "bs \<noteq> []"
  shows "valid_utf8 (take n bs @ ys) \<longleftrightarrow> valid_utf8 ys"
proof -
  have n: "n \<le> length bs" "0 < n"
    using utf8_step_length [OF assms(2)] utf8_step_pos [of bs] assms(1) by simp_all
  then have "take n bs @ ys \<noteq> []" using assms(2) by auto
  then show ?thesis
    using n by (simp add: valid_utf8.simps [of "take n bs @ ys"] utf8_step_take [OF assms])
qed

lemma utf8_step_replacement: "utf8_step (0xEF # 0xBF # 0xBD # ys) = (True, 3)"
  by (simp add: utf8_step_def safe_get_def utf8_width_def ok_second3_def is_cont_def)

lemma valid_utf8_replacement: "valid_utf8 (0xEF # 0xBF # 0xBD # ys) \<longleftrightarrow> valid_utf8 ys"
  by (simp add: valid_utf8.simps [of "0xEF # 0xBF # 0xBD # ys"] utf8_step_replacement)

lemma from_utf8_lossy_valid: "valid_utf8 (from_utf8_lossy bs)"
proof (induction bs rule: from_utf8_lossy.induct)
  case (1 bs)
  obtain ok n where st: "utf8_step bs = (ok, n)" by (cases "utf8_step bs")
  show ?case
  proof (cases "bs = []")
    case False
    with "1.IH" [OF False st [symmetric] refl] st show ?thesis
      by (auto simp: from_utf8_lossy.simps [of bs] valid_utf8_step valid_utf8_replacement)
  qed simp
qed

lemma from_utf8_lossy_id [simp]: "valid_utf8 bs \<Longrightarrow> from_utf8_lossy bs = bs"
proof (induction bs rule: valid_utf8.induct)
  case (1 bs)
  show ?case
  proof (cases "bs = []")
    case False
    with "1.prems" have "fst (utf8_step bs)" "valid_utf8 (drop (snd (utf8_step bs)) bs)"
      by (simp_all add: valid_utf8.simps [of bs] split: if_splits)
    with "1.IH" False show ?thesis
      by (simp add: from_utf8_lossy.simps [of bs] split_beta)
  qed simp
qed

lemma valid_utf8_append: "valid_utf8 xs \<Longrightarrow> valid_utf8 (xs @ ys) \<longleftrightarrow> valid_utf8 ys"
proof (induction xs rule: valid_utf8.induct)
  case (1 xs)
  show ?case
  proof (cases "xs = []")
    case False
    let ?n = "snd (utf8_step xs)"
    have step: "utf8_step xs = (True, ?n)" and rest: "valid_utf8 (drop ?n xs)"
      and ok: "fst (utf8_step xs)"
      using "1.prems" False by (simp_all add: valid_utf8.simps [of xs] prod_eq_iff split: if_splits)
    have "valid_utf8 (xs @ ys) \<longleftrightarrow> valid_utf8 (take ?n xs @ (drop ?n xs @ ys))"
      by (simp flip: append_assoc)
    also have "\<dots> \<longleftrightarrow> valid_utf8 (drop ?n xs @ ys)"
      by (rule valid_utf8_step [OF step False])
    also have "\<dots> \<longleftrightarrow> valid_utf8 ys"
      using "1.IH" [OF False ok rest] .
    finally show ?thesis .
  qed simp
qed

lemma valid_utf8_ascii: "\<forall>b \<in> set bs. b < 0x80 \<Longrightarrow> valid_utf8 bs"
proof (induction bs)
  case (Cons b bs)
  then have "utf8_step (b # bs) = (True, 1)"
    by (simp add: utf8_step_def utf8_width_def safe_get_def)
  with Cons show ?case by (simp add: valid_utf8.simps [of "b # bs"])
qed simp

end
