(* ===== verification/Sftp_Ser.thy ===== *)
theory Sftp_Ser
  imports Utf8
begin

text \<open>
  The serializer of the SFTP crate (\<open>crates/russh-sftp/src/ser.rs\<close>) and its error type
  (\<open>error.rs\<close>). A Rust value that is serialized through serde is the sequence of calls its
  \<open>Serialize\<close> instance makes on the serializer; \<open>ser_value\<close> has one constructor per method
  of the \<open>serde::Serializer\<close> trait and \<open>serialize\<close> is what the crate's implementation of that
  method does to the output buffer.
\<close>

section \<open>Errors\<close>

text \<open>
  Message texts that the crate writes itself are literal; the texts that other crates print
  (serde's own diagnostics, the \<open>Display\<close> instance of \<open>bytes::TryGetError\<close>) stay symbolic.
\<close>

datatype err_text =
    Text string
  | TryGetDisplay (requested: nat) (available: nat)
  | SerdeInvalidLength nat
  | SerdeInvalidValue nat

datatype sftp_error =
    IO err_text
  | UnexpectedEof
  | BadMessage err_text
  | ClientError err_text
  | UnexpectedBehavior err_text

datatype io_error_kind = IoUnexpectedEof | IoOther | IoKind string

text \<open>\<open>From<io::Error> for Error\<close>: the kind and the message of the wrapped error.\<close>

fun error_of_io :: "io_error_kind \<Rightarrow> string \<Rightarrow> sftp_error" where
  "error_of_io IoUnexpectedEof msg = UnexpectedEof"
| "error_of_io IoOther msg = (if msg = ''EOF'' then UnexpectedEof else IO (Text ''other error''))"
| "error_of_io (IoKind k) msg = IO (Text k)"

text \<open>\<open>From<TryGetError> for Error\<close>.\<close>

definition error_of_try_get :: "nat \<Rightarrow> nat \<Rightarrow> sftp_error" where
  "error_of_try_get req avail =
     BadMessage (Text (''only '' @ show_nat avail @ '' bytes remaining, but '' @ show_nat req
       @ '' requested''))"

section \<open>The serializer\<close>

datatype ser_value =
    SBool bool
  | SI8 "8 word" | SI16 "16 word" | SI32 "32 word" | SI64 "64 word"
  | SU8 byte | SU16 u16 | SU32 u32 | SU64 u64
  | SF32 | SF64 | SChar nat
  | SStr rstring
  | SByteSlice bytes
  | SNone | SSome ser_value
  | SUnit | SUnitStruct
  | SUnitVariant u32
  | SNewtypeStruct ser_value
  | SNewtypeVariant u32 ser_value
  | SSeq "nat option" "ser_value list"
  | STuple "ser_value list"
  | STupleStruct "ser_value list"
  | STupleVariant u32 "ser_value list"
  | SMap "nat option" "(ser_value \<times> ser_value) list"
  | SStruct "ser_value list"
  | SStructVariant u32 "ser_value list"

definition unsupported :: "string \<Rightarrow> sftp_error" where
  "unsupported what = BadMessage (Text (what @ '' not supported''))"

definition put_u8 :: "byte \<Rightarrow> bytes \<Rightarrow> bytes" where
  "put_u8 v out = out @ [v]"

definition put_u32 :: "u32 \<Rightarrow> bytes \<Rightarrow> bytes" where
  "put_u32 v out = out @ be32 v"

definition put_u64 :: "u64 \<Rightarrow> bytes \<Rightarrow> bytes" where
  "put_u64 v out = out @ be64 v"

definition put_slice :: "bytes \<Rightarrow> bytes \<Rightarrow> bytes" where
  "put_slice bs out = out @ bs"

lemmas put_defs = put_u8_def put_u32_def put_u64_def put_slice_def

definition serialize_str :: "rstring \<Rightarrow> bytes \<Rightarrow> bytes" where
  "serialize_str v out = put_slice v (put_u32 (word_of_nat (length v)) out)"

definition serialize_seq_len :: "nat option \<Rightarrow> bytes \<Rightarrow> bytes" where
  "serialize_seq_len len out =
     (case len of Some n \<Rightarrow> put_u32 (word_of_nat n) out | None \<Rightarrow> out)"

function (sequential) serialize :: "ser_value \<Rightarrow> bytes \<Rightarrow> sftp_error + bytes"
  and serialize_elements :: "ser_value list \<Rightarrow> bytes \<Rightarrow> sftp_error + bytes"
  and serialize_entries :: "(ser_value \<times> ser_value) list \<Rightarrow> bytes \<Rightarrow> sftp_error + bytes" where
  "serialize (SBool v) out = Inl (unsupported ''bool'')"
| "serialize (SI8 v) out = Inl (unsupported ''i8'')"
| "serialize (SI16 v) out = Inl (unsupported ''i16'')"
| "serialize (SI32 v) out = Inl (unsupported ''i32'')"
| "serialize (SI64 v) out = Inl (unsupported ''i64'')"
| "serialize (SU8 v) out = Inr (put_u8 v out)"
| "serialize (SU16 v) out = Inl (unsupported ''u16'')"
| "serialize (SU32 v) out = Inr (put_u32 v out)"
| "serialize (SU64 v) out = Inr (put_u64 v out)"
| "serialize SF32 out = Inl (unsupported ''f32'')"
| "serialize SF64 out = Inl (unsupported ''f64'')"
| "serialize (SChar c) out = Inl (unsupported ''char'')"
| "serialize (SStr v) out = Inr (serialize_str v out)"
| "serialize (SByteSlice v) out = Inl (unsupported ''bytes'')"
| "serialize SNone out = Inr out"
| "serialize (SSome v) out = serialize v out"
| "serialize SUnit out = Inl (unsupported ''unit'')"
| "serialize SUnitStruct out = Inl (unsupported ''unit struct'')"
| "serialize (SUnitVariant i) out = Inr (put_u32 i out)"
| "serialize (SNewtypeStruct v) out = serialize v out"
| "serialize (SNewtypeVariant i v) out = serialize v out"
| "serialize (SSeq len vs) out = serialize_elements vs (serialize_seq_len len out)"
| "serialize (STuple vs) out = serialize_elements vs out"
| "serialize (STupleStruct vs) out = serialize_elements vs out"
| "serialize (STupleVariant i vs) out = serialize_elements vs out"
| "serialize (SMap len kvs) out = serialize_entries kvs out"
| "serialize (SStruct vs) out = serialize_elements vs out"
| "serialize (SStructVariant i vs) out = Inl (unsupported ''struct variant'')"
| "serialize_elements [] out = Inr out"
| "serialize_elements (v # vs) out =
     result_bind (serialize v out) (serialize_elements vs)"
| "serialize_entries [] out = Inr out"
| "serialize_entries ((k, v) # kvs) out =
     result_bind (serialize k out) (\<lambda>out1.
     result_bind (serialize v out1) (serialize_entries kvs))"
  by pat_completeness auto
termination
  by (relation "measure (case_sum (\<lambda>(v, _). size v)
        (case_sum (\<lambda>(vs, _). size_list size vs)
          (\<lambda>(kvs, _). size_list (size_prod size size) kvs)))") simp_all

definition to_bytes :: "ser_value \<Rightarrow> sftp_error + bytes" where
  "to_bytes v = serialize v []"

text \<open>\<open>data_serialize\<close>: the bytes of a vector one by one, without a length in front.\<close>

definition data_serialize :: "bytes \<Rightarrow> ser_value" where
  "data_serialize data = SSeq None (map SU8 data)"

section \<open>The serializer only appends\<close>

text \<open>
  Whether a value serializes and which bytes it takes do not depend on what the buffer holds:
  \<open>serialize v out\<close> is \<open>serialize v []\<close> appended to \<open>out\<close>.
\<close>

definition append_result :: "bytes \<Rightarrow> sftp_error + bytes \<Rightarrow> sftp_error + bytes" where
  "append_result out r = (case r of Inl e \<Rightarrow> Inl e | Inr bs \<Rightarrow> Inr (out @ bs))"

lemma append_result_simps [simp]:
  "append_result out (Inl e) = Inl e" "append_result out (Inr bs) = Inr (out @ bs)"
  "append_result [] r = r"
  by (simp_all add: append_result_def split: sum.split)

lemma append_result_append: "append_result (a @ b) r = append_result a (append_result b r)"
  by (cases r) simp_all

lemma serialize_seq_len_append:
  "serialize_seq_len len (out @ bs) = out @ serialize_seq_len len bs"
  by (simp add: serialize_seq_len_def put_defs split: option.split)

lemma serialize_appends:
  "serialize v (out @ bs) = append_result out (serialize v bs)"
  "serialize_elements vs (out @ bs) = append_result out (serialize_elements vs bs)"
  "serialize_entries kvs (out @ bs) = append_result out (serialize_entries kvs bs)"
  by (induction v bs and vs bs and kvs bs arbitrary: out and out and out
      rule: serialize_serialize_elements_serialize_entries.induct)
    (auto simp: put_defs serialize_str_def serialize_seq_len_append result_bind_def split: sum.splits)

lemma serialize_to_bytes: "serialize v out = append_result out (to_bytes v)"
  using serialize_appends(1) [of v out "[]"] by (simp add: to_bytes_def)

lemma serialize_elements_to_bytes:
  "serialize_elements vs out = append_result out (serialize_elements vs [])"
  using serialize_appends(2) [of vs out "[]"] by simp

lemma serialize_elements_bytes:
  "list_all2 (\<lambda>v bs. to_bytes v = Inr bs) vs bss \<Longrightarrow>
   serialize_elements vs out = Inr (out @ concat bss)"
proof (induction vs bss arbitrary: out rule: list_all2_induct)
  case (Cons v vs bs bss)
  then show ?case
    by (simp add: serialize_to_bytes [of v out])
qed simp

lemma serialize_entries_bytes:
  "list_all2 (\<lambda>(k, v) (kb, vb). to_bytes k = Inr kb \<and> to_bytes v = Inr vb) kvs bss \<Longrightarrow>
   serialize_entries kvs out = Inr (out @ concat (map (\<lambda>(kb, vb). kb @ vb) bss))"
proof (induction kvs bss arbitrary: out rule: list_all2_induct)
  case (Cons kv kvs bs bss)
  obtain k v kb vb where eq: "kv = (k, v)" "bs = (kb, vb)" by (cases kv, cases bs)
  with Cons.hyps have "serialize k out = Inr (out @ kb)"
    and "serialize v (out @ kb) = Inr (out @ kb @ vb)"
    by (simp_all add: serialize_to_bytes [of k out] serialize_to_bytes [of v "out @ kb"])
  with Cons.IH [of "out @ kb @ vb"] show ?case by (simp add: eq)
qed simp

section \<open>Wire form of the supported values\<close>

definition wire_string :: "rstring \<Rightarrow> bytes" where
  "wire_string s = be32 (word_of_nat (length s)) @ s"

lemma to_bytes_prim [simp]:
  "to_bytes (SU8 b) = Inr [b]"
  "to_bytes (SU32 v) = Inr (be32 v)"
  "to_bytes (SU64 w) = Inr (be64 w)"
  "to_bytes (SStr s) = Inr (wire_string s)"
  "to_bytes (SUnitVariant i) = Inr (be32 i)"
  "to_bytes (SNewtypeStruct x) = to_bytes x"
  by (simp_all add: to_bytes_def put_defs serialize_str_def wire_string_def)

lemma to_bytes_SStruct:
  "list_all2 (\<lambda>v bs. to_bytes v = Inr bs) vs bss \<Longrightarrow> to_bytes (SStruct vs) = Inr (concat bss)"
  by (simp add: to_bytes_def serialize_elements_bytes)

lemma to_bytes_SSeq:
  "list_all2 (\<lambda>v bs. to_bytes v = Inr bs) vs bss \<Longrightarrow>
   to_bytes (SSeq (Some n) vs) = Inr (be32 (word_of_nat n) @ concat bss)"
  by (simp add: to_bytes_def serialize_elements_bytes serialize_seq_len_def put_defs)

lemma to_bytes_SMap:
  "list_all2 (\<lambda>(k, v) (kb, vb). to_bytes k = Inr kb \<and> to_bytes v = Inr vb) kvs bss \<Longrightarrow>
   to_bytes (SMap n kvs) = Inr (concat (map (\<lambda>(kb, vb). kb @ vb) bss))"
  by (simp add: to_bytes_def serialize_entries_bytes)

lemma to_bytes_data_serialize: "to_bytes (data_serialize data) = Inr data"
proof -
  have "list_all2 (\<lambda>v bs. to_bytes v = Inr bs) (map SU8 data) (map (\<lambda>b. [b]) data)"
    by (rule list_all2_mapI) simp
  moreover have "concat (map (\<lambda>b. [b]) data) = data" by (induction data) auto
  ultimately show ?thesis
    by (simp add: data_serialize_def to_bytes_def serialize_elements_bytes serialize_seq_len_def)
qed

end
