(* ===== verification/Sftp_De.thy ===== *)
theory Sftp_De
  imports Sftp_Ser "HOL-Library.AList"
begin

text \<open>
  The deserializer of the SFTP crate (\<open>crates/russh-sftp/src/de.rs\<close>) with the two buffer
  readers of \<open>buf.rs\<close>. A deserializer of type \<open>'a de\<close> reads a value off the front of the
  input and returns the value and the rest of the input, or the error the crate raises. The
  sequence and map accessors keep the crate's shape: a counted \<open>SeqDeserializer\<close> for tuples,
  structs, vectors and \<open>deserialize_any\<close>, and a \<open>MapDeserializer\<close> that stops at the end of
  the input. The locale \<open>codec\<close> at the end is the contract between a wire form and its
  reader; every field type of the protocol is an interpretation of it.
\<close>

type_synonym 'a de = "bytes \<Rightarrow> sftp_error + 'a \<times> bytes"

section \<open>Reading from the buffer\<close>

text \<open>The integer readers of the buffer: the value, or the number of bytes that are left.\<close>

definition try_get_uint :: "nat \<Rightarrow> bytes \<Rightarrow> nat + nat \<times> bytes" where
  "try_get_uint n input =
     (if length input < n then Inl (length input)
      else Inr (be_decode (take n input), drop n input))"

definition de_uint :: "nat \<Rightarrow> bytes \<Rightarrow> sftp_error + nat \<times> bytes" where
  "de_uint n input =
     (case try_get_uint n input of
        Inl avail \<Rightarrow> Inl (error_of_try_get n avail)
      | Inr r \<Rightarrow> Inr r)"

definition de_u8 :: "byte de" where
  "de_u8 input = result_bind (de_uint 1 input) (\<lambda>(v, rest). Inr (word_of_nat v, rest))"

definition de_u32 :: "u32 de" where
  "de_u32 input = result_bind (de_uint 4 input) (\<lambda>(v, rest). Inr (word_of_nat v, rest))"

definition de_u64 :: "u64 de" where
  "de_u64 input = result_bind (de_uint 8 input) (\<lambda>(v, rest). Inr (word_of_nat v, rest))"

definition try_get_bytes :: "bytes de" where
  "try_get_bytes input =
     (case try_get_uint 4 input of
        Inl avail \<Rightarrow> Inl (UnexpectedBehavior (TryGetDisplay 4 avail))
      | Inr (len, rest) \<Rightarrow>
          if length rest < len then Inl (BadMessage (Text ''no remaining for vec''))
          else Inr (take len rest, drop len rest))"

definition try_get_string :: "rstring de" where
  "try_get_string input =
     result_bind (try_get_bytes input) (\<lambda>(bs, rest). Inr (from_utf8_lossy bs, rest))"

section \<open>Methods that the format does not support\<close>

datatype de_method =
    DeBool | DeI8 | DeI16 | DeI32 | DeI64 | DeU16 | DeF32 | DeF64 | DeChar
  | DeOption | DeIdentifier | DeIgnoredAny

fun de_unsupported :: "de_method \<Rightarrow> sftp_error" where
  "de_unsupported DeBool = unsupported ''bool''"
| "de_unsupported DeI8 = unsupported ''i8''"
| "de_unsupported DeI16 = unsupported ''i16''"
| "de_unsupported DeI32 = unsupported ''i32''"
| "de_unsupported DeI64 = unsupported ''i64''"
| "de_unsupported DeU16 = unsupported ''u16''"
| "de_unsupported DeF32 = unsupported ''f32''"
| "de_unsupported DeF64 = unsupported ''f64''"
| "de_unsupported DeChar = unsupported ''char''"
| "de_unsupported DeOption = unsupported ''option''"
| "de_unsupported DeIdentifier = unsupported ''identifier''"
| "de_unsupported DeIgnoredAny = unsupported ''ignored any''"

section \<open>Sequences\<close>

text \<open>\<open>SeqDeserializer\<close>: how many elements may still be read, and the input.\<close>

type_synonym seq_de = "nat option \<times> bytes"

definition next_element :: "'a de \<Rightarrow> seq_de \<Rightarrow> sftp_error + 'a option \<times> seq_de" where
  "next_element p s =
     (let (len, input) = s in
      if len = Some 0 then Inr (None, s)
      else
        let len' = map_option (\<lambda>n. n - 1) len in
        result_bind (p input) (\<lambda>(v, rest). Inr (Some v, (len', rest))))"

definition deserialize_tuple :: "nat \<Rightarrow> bytes \<Rightarrow> seq_de" where
  "deserialize_tuple n input = (Some n, input)"

definition deserialize_any :: "bytes \<Rightarrow> seq_de" where
  "deserialize_any input = (Some (length input), input)"

text \<open>The visitor of a derived struct reads its fields in order; running short is an error.\<close>

definition seq_field :: "nat \<Rightarrow> 'a de \<Rightarrow> seq_de \<Rightarrow> sftp_error + 'a \<times> seq_de" where
  "seq_field i p s =
     result_bind (next_element p s) (\<lambda>(x, s').
       case x of None \<Rightarrow> Inl (BadMessage (SerdeInvalidLength i)) | Some v \<Rightarrow> Inr (v, s'))"

definition de_struct2 :: "('a \<Rightarrow> 'b \<Rightarrow> 'r) \<Rightarrow> 'a de \<Rightarrow> 'b de \<Rightarrow> 'r de" where
  "de_struct2 C p1 p2 input =
     result_bind (seq_field 0 p1 (deserialize_tuple 2 input)) (\<lambda>(x1, s).
     result_bind (seq_field 1 p2 s) (\<lambda>(x2, s). Inr (C x1 x2, snd s)))"

definition de_struct3 ::
  "('a \<Rightarrow> 'b \<Rightarrow> 'c \<Rightarrow> 'r) \<Rightarrow> 'a de \<Rightarrow> 'b de \<Rightarrow> 'c de \<Rightarrow> 'r de" where
  "de_struct3 C p1 p2 p3 input =
     result_bind (seq_field 0 p1 (deserialize_tuple 3 input)) (\<lambda>(x1, s).
     result_bind (seq_field 1 p2 s) (\<lambda>(x2, s).
     result_bind (seq_field 2 p3 s) (\<lambda>(x3, s). Inr (C x1 x2 x3, snd s))))"

definition de_struct4 ::
  "('a \<Rightarrow> 'b \<Rightarrow> 'c \<Rightarrow> 'd \<Rightarrow> 'r) \<Rightarrow> 'a de \<Rightarrow> 'b de \<Rightarrow> 'c de \<Rightarrow> 'd de \<Rightarrow> 'r de" where
  "de_struct4 C p1 p2 p3 p4 input =
     result_bind (seq_field 0 p1 (deserialize_tuple 4 input)) (\<lambda>(x1, s).
     result_bind (seq_field 1 p2 s) (\<lambda>(x2, s).
     result_bind (seq_field 2 p3 s) (\<lambda>(x3, s).
     result_bind (seq_field 3 p4 s) (\<lambda>(x4, s). Inr (C x1 x2 x3 x4, snd s)))))"

text \<open>
  The visitor of a vector: \<open>while let Some(x) = seq.next_element()?\<close> on a sequence of at most
  \<open>n\<close> elements. The lemma \<open>visit_vec_loop\<close> is that loop's unfolding.
\<close>

fun visit_vec :: "'a de \<Rightarrow> nat \<Rightarrow> bytes \<Rightarrow> sftp_error + 'a list \<times> bytes" where
  "visit_vec p 0 input = Inr ([], input)"
| "visit_vec p (Suc n) input =
     result_bind (p input) (\<lambda>(x, rest).
     result_bind (visit_vec p n rest) (\<lambda>(xs, rest'). Inr (x # xs, rest')))"

lemma visit_vec_loop:
  "visit_vec p n input =
     result_bind (next_element p (Some n, input)) (\<lambda>(x, s).
       case x of
         None \<Rightarrow> Inr ([], snd s)
       | Some v \<Rightarrow> result_bind (visit_vec p (the (fst s)) (snd s)) (\<lambda>(xs, rest). Inr (v # xs, rest)))"
  by (cases n; cases "p input") (auto simp: next_element_def split_beta)

text \<open>\<open>deserialize_seq\<close>: the element count is a 32-bit integer in front of the elements.\<close>

definition de_vec :: "'a de \<Rightarrow> 'a list de" where
  "de_vec p input =
     result_bind (de_u32 input) (\<lambda>(len, rest). visit_vec p (unat len) rest)"

text \<open>\<open>data_deserialize\<close>: bytes up to the end of the input.\<close>

definition data_deserialize :: "bytes de" where
  "data_deserialize input =
     (case deserialize_any input of (len, inp) \<Rightarrow> visit_vec de_u8 (the len) inp)"

section \<open>Maps\<close>

text \<open>
  A \<open>HashMap<String, String>\<close> is an association list with distinct keys, in one of the orders
  in which the map may be iterated; inserting replaces the value of a key that is present.
\<close>

type_synonym hashmap = "(rstring \<times> rstring) list"

definition next_key :: "'k de \<Rightarrow> bytes \<Rightarrow> sftp_error + 'k option \<times> bytes" where
  "next_key p input =
     (if input = [] then Inr (None, input)
      else result_bind (p input) (\<lambda>(k, rest). Inr (Some k, rest)))"

lemma de_uint_length:
  "de_uint n input = Inr (v, rest) \<Longrightarrow> length rest + n = length input"
  by (auto simp: de_uint_def try_get_uint_def split: if_splits)

lemma try_get_bytes_length:
  "try_get_bytes input = Inr (bs, rest) \<Longrightarrow> length rest + 4 + length bs = length input"
  by (auto simp: try_get_bytes_def try_get_uint_def split: if_splits)

lemma try_get_string_length:
  "try_get_string input = Inr (s, rest) \<Longrightarrow> length rest + 4 \<le> length input"
  by (auto simp: try_get_string_def result_bind_eq_Inr dest: try_get_bytes_length)

lemma next_key_string_length:
  "next_key try_get_string input = Inr (Some k, rest) \<Longrightarrow> length rest + 4 \<le> length input"
  by (auto simp: next_key_def result_bind_eq_Inr split: if_splits dest: try_get_string_length)

text \<open>The \<open>HashMap\<close> visitor: \<open>while let Some((k, v)) = map.next_entry()? { insert(k, v) }\<close>.\<close>

function visit_map :: "hashmap \<Rightarrow> bytes \<Rightarrow> sftp_error + hashmap \<times> bytes" where
  "visit_map acc input =
     (case next_key try_get_string input of
        Inl e \<Rightarrow> Inl e
      | Inr (None, rest) \<Rightarrow> Inr (acc, rest)
      | Inr (Some k, rest) \<Rightarrow>
          (case try_get_string rest of
             Inl e \<Rightarrow> Inl e
           | Inr (v, rest') \<Rightarrow> visit_map (AList.update k v acc) rest'))"
  by pat_completeness auto
termination
proof (relation "measure (\<lambda>(acc, input). length input)", goal_cases)
  case 1
  then show ?case by simp
next
  case (2 acc input x2 a b x2a x2b a' b')
  then have "next_key try_get_string input = Inr (Some x2a, b)"
    and "try_get_string b = Inr (a', b')" by auto
  then have "length b + 4 \<le> length input" "length b' + 4 \<le> length b"
    by (blast dest: next_key_string_length try_get_string_length)+
  then show ?case by simp
qed

declare visit_map.simps [simp del]

definition de_map :: "hashmap de" where
  "de_map input = visit_map [] input"

section \<open>Enums\<close>

text \<open>
  \<open>variant_seed\<close> reads a 32-bit index; the derived visitor accepts the indices of the
  declared variants.
\<close>

definition de_enum :: "'a list \<Rightarrow> 'a de" where
  "de_enum variants input =
     result_bind (de_u32 input) (\<lambda>(i, rest).
       if unat i < length variants then Inr (variants ! unat i, rest)
       else Inl (BadMessage (SerdeInvalidValue (unat i))))"

section \<open>Evaluation on a wire form\<close>

lemma next_element_Suc [simp]:
  "next_element p (Some (Suc n), input) =
     result_bind (p input) (\<lambda>(v, rest). Inr (Some v, (Some n, rest)))"
  by (simp add: next_element_def)

lemma next_element_0 [simp]: "next_element p (Some 0, input) = Inr (None, (Some 0, input))"
  by (simp add: next_element_def)

lemma seq_field_Suc [simp]:
  "seq_field i p (Some (Suc n), input) =
     result_bind (p input) (\<lambda>(v, rest). Inr (v, (Some n, rest)))"
  by (cases "p input") (auto simp: seq_field_def)

lemma de_struct2_eq:
  "de_struct2 C p1 p2 input =
     result_bind (p1 input) (\<lambda>(x1, r1). result_bind (p2 r1) (\<lambda>(x2, r2). Inr (C x1 x2, r2)))"
  unfolding de_struct2_def deserialize_tuple_def numeral_2_eq_2
  by (simp add: result_bind_assoc case_prod_unfold)

lemma de_struct3_eq:
  "de_struct3 C p1 p2 p3 input =
     result_bind (p1 input) (\<lambda>(x1, r1). result_bind (p2 r1) (\<lambda>(x2, r2).
     result_bind (p3 r2) (\<lambda>(x3, r3). Inr (C x1 x2 x3, r3))))"
  unfolding de_struct3_def deserialize_tuple_def numeral_3_eq_3
  by (simp add: result_bind_assoc case_prod_unfold)

lemma de_struct4_eq:
  "de_struct4 C p1 p2 p3 p4 input =
     result_bind (p1 input) (\<lambda>(x1, r1). result_bind (p2 r1) (\<lambda>(x2, r2).
     result_bind (p3 r2) (\<lambda>(x3, r3). result_bind (p4 r3) (\<lambda>(x4, r4).
     Inr (C x1 x2 x3 x4, r4)))))"
proof -
  have four: "(4::nat) = Suc (Suc (Suc (Suc 0)))" by simp
  show ?thesis
    unfolding de_struct4_def deserialize_tuple_def four
    by (simp add: result_bind_assoc case_prod_unfold)
qed

lemmas de_struct_eqs = de_struct2_eq de_struct3_eq de_struct4_eq

section \<open>The codec contract\<close>

text \<open>
  \<open>enc\<close> is the wire form of a value, \<open>dec\<close> its reader, \<open>ok\<close> the values the wire can carry and
  \<open>canon\<close> what comes back: reading the wire form of \<open>x\<close> off the front of any input yields
  \<open>canon x\<close> and leaves exactly what followed.
\<close>

locale codec =
  fixes enc :: "'a \<Rightarrow> bytes" and dec :: "bytes \<Rightarrow> sftp_error + 'a \<times> bytes"
    and canon :: "'a \<Rightarrow> 'a" and ok :: "'a \<Rightarrow> bool"
  assumes roundtrip: "ok x \<Longrightarrow> dec (enc x @ rest) = Inr (canon x, rest)"
begin

lemma roundtrip_end: "ok x \<Longrightarrow> dec (enc x) = Inr (canon x, [])"
  using roundtrip [of x "[]"] by simp

text \<open>No wire form of a value is a proper prefix of another's.\<close>

lemma prefix_free:
  assumes "ok x" and "ok y" and "enc x @ r = enc y @ s"
  shows "canon x = canon y \<and> r = s"
proof -
  have "dec (enc y @ s) = Inr (canon x, r)"
    using roundtrip [OF assms(1), of r] assms(3) by simp
  then show ?thesis using roundtrip [OF assms(2), of s] by simp
qed

lemma enc_inject: "ok x \<Longrightarrow> ok y \<Longrightarrow> enc x = enc y \<Longrightarrow> canon x = canon y"
  using prefix_free [of x y "[]" "[]"] by simp

lemma visit_vec_roundtrip:
  "(\<And>x. x \<in> set xs \<Longrightarrow> ok x) \<Longrightarrow>
   visit_vec dec (length xs) (concat (map enc xs) @ rest) = Inr (map canon xs, rest)"
  by (induction xs) (simp_all add: roundtrip)

end

text \<open>A codec whose reader returns the very value that was written.\<close>

locale exact_codec = codec enc dec "\<lambda>x. x" ok
  for enc :: "'a \<Rightarrow> bytes" and dec :: "bytes \<Rightarrow> sftp_error + 'a \<times> bytes" and ok :: "'a \<Rightarrow> bool"
begin

lemma enc_eq_iff: "ok x \<Longrightarrow> ok y \<Longrightarrow> enc x @ r = enc y @ s \<longleftrightarrow> x = y \<and> r = s"
  using prefix_free [of x y r s] by auto

end

lemma de_uint_append: "length bs = n \<Longrightarrow> de_uint n (bs @ rest) = Inr (be_decode bs, rest)"
  by (simp add: de_uint_def try_get_uint_def)

interpretation u8: exact_codec "\<lambda>b. [b]" de_u8 "\<lambda>_. True"
proof unfold_locales
  fix b :: byte and rest :: bytes
  show "de_u8 ([b] @ rest) = Inr (b, rest)"
    by (simp add: de_u8_def de_uint_append [of "[b]", simplified] be_decode_def)
qed

interpretation u32: exact_codec be32 de_u32 "\<lambda>_. True"
  by unfold_locales (simp add: de_u32_def de_uint_append)

interpretation u64: exact_codec be64 de_u64 "\<lambda>_. True"
  by unfold_locales (simp add: de_u64_def de_uint_append)

text \<open>The strings and byte vectors the wire can carry: a length that fits the 32-bit prefix.\<close>

definition wire_vec_ok :: "'a list \<Rightarrow> bool" where
  "wire_vec_ok xs \<longleftrightarrow> length xs < 2 ^ 32"

definition wire_string_ok :: "rstring \<Rightarrow> bool" where
  "wire_string_ok s \<longleftrightarrow> length s < 2 ^ 32 \<and> valid_utf8 s"

lemma try_get_bytes_wire:
  "length s < 2 ^ 32 \<Longrightarrow> try_get_bytes (wire_string s @ rest) = Inr (s, rest)"
  by (simp add: try_get_bytes_def try_get_uint_def wire_string_def unat_of_nat32)

interpretation str: exact_codec wire_string try_get_string wire_string_ok
  by unfold_locales (simp add: try_get_string_def try_get_bytes_wire wire_string_ok_def)

lemma visit_vec_u8: "visit_vec de_u8 (length bs) (bs @ rest) = Inr (bs, rest)"
  using u8.visit_vec_roundtrip [of bs rest] by simp

interpretation data: exact_codec "\<lambda>bs. be32 (word_of_nat (length bs)) @ bs" "de_vec de_u8" wire_vec_ok
  by unfold_locales
    (simp add: de_vec_def u32.roundtrip unat_of_nat32 wire_vec_ok_def visit_vec_u8)

text \<open>Every string that the deserializer returns is well formed UTF-8.\<close>

lemma try_get_string_valid: "try_get_string input = Inr (s, rest) \<Longrightarrow> valid_utf8 s"
  by (auto simp: try_get_string_def result_bind_eq_Inr from_utf8_lossy_valid)

lemma data_deserialize_eq: "data_deserialize input = Inr (input, [])"
  using visit_vec_u8 [of input "[]"] by (simp add: data_deserialize_def deserialize_any_def)

section \<open>Maps on the wire\<close>

definition wire_map :: "hashmap \<Rightarrow> bytes" where
  "wire_map m = concat (map (\<lambda>(k, v). wire_string k @ wire_string v) m)"

definition wire_map_ok :: "hashmap \<Rightarrow> bool" where
  "wire_map_ok m \<longleftrightarrow>
     distinct (map fst m) \<and> (\<forall>(k, v) \<in> set m. wire_string_ok k \<and> wire_string_ok v)"

lemma wire_string_not_Nil [simp]: "wire_string s \<noteq> []"
  by (simp add: wire_string_def)

lemma update_fresh: "k \<notin> set (map fst m) \<Longrightarrow> AList.update k v m = m @ [(k, v)]"
  by (induction m) auto

lemma visit_map_wire:
  "wire_map_ok m \<Longrightarrow> set (map fst acc) \<inter> set (map fst m) = {} \<Longrightarrow>
   visit_map acc (wire_map m) = Inr (acc @ m, [])"
proof (induction m arbitrary: acc)
  case Nil
  then show ?case by (simp add: wire_map_def next_key_def visit_map.simps [of acc "[]"])
next
  case (Cons kv m)
  obtain k v where kv: "kv = (k, v)" by (cases kv)
  let ?r = "wire_string v @ wire_map m"
  have ok: "wire_string_ok k" "wire_string_ok v" "wire_map_ok m" "k \<notin> set (map fst m)"
    using Cons.prems(1) by (auto simp: kv wire_map_ok_def)
  have w: "wire_map (kv # m) = wire_string k @ ?r" by (simp add: wire_map_def kv)
  have "next_key try_get_string (wire_string k @ ?r) = Inr (Some k, ?r)"
    using str.roundtrip [OF ok(1), of ?r] by (simp add: next_key_def)
  moreover have "try_get_string ?r = Inr (v, wire_map m)"
    by (rule str.roundtrip [OF ok(2)])
  ultimately have "visit_map acc (wire_map (kv # m))
      = visit_map (AList.update k v acc) (wire_map m)"
    by (simp add: w visit_map.simps [of acc "wire_string k @ ?r"])
  also have "\<dots> = visit_map (acc @ [(k, v)]) (wire_map m)"
    using Cons.prems(2) by (simp add: kv update_fresh)
  also have "\<dots> = Inr ((acc @ [(k, v)]) @ m, [])"
    using Cons.prems(2) ok by (intro Cons.IH) (auto simp: kv)
  finally show ?case by (simp add: kv)
qed

lemma de_map_wire: "wire_map_ok m \<Longrightarrow> de_map (wire_map m) = Inr (m, [])"
  by (simp add: de_map_def visit_map_wire)

text \<open>Whatever the peer sends, the map that is read has no key twice.\<close>

lemma visit_map_distinct:
  "visit_map acc input = Inr (m, rest) \<Longrightarrow> distinct (map fst acc) \<Longrightarrow> distinct (map fst m)"
proof (induction acc input rule: visit_map.induct)
  case (1 acc input)
  note eq = "1.prems"(1) [unfolded visit_map.simps [of acc input]]
  show ?case
  proof (cases "\<exists>k r v r'. next_key try_get_string input = Inr (Some k, r)
      \<and> try_get_string r = Inr (v, r')")
    case True
    then obtain k r v r' where "next_key try_get_string input = Inr (Some k, r)"
      and "try_get_string r = Inr (v, r')" by blast
    with eq "1.prems"(2) "1.IH" show ?thesis by (simp add: distinct_update)
  next
    case False
    with eq "1.prems"(2) show ?thesis by (auto split: sum.splits option.splits)
  qed
qed

end
