(* ===== verification/File_Attrs.thy ===== *)
theory File_Attrs
  imports Sftp_De
begin

text \<open>
  File attributes of the SFTP protocol (\<open>crates/russh-sftp/src/protocol/file_attrs.rs\<close> and
  the open flags of \<open>open.rs\<close>): the flag words, file types and permissions, the record of
  optional attributes with its hand-written \<open>Serialize\<close> and \<open>Deserialize\<close> instances, and the
  conversion from local metadata. The codec at the end shows what survives the wire.
\<close>

section \<open>Flag words\<close>

text \<open>The operations that \<open>bitflags!\<close> generates on the underlying 32-bit word.\<close>

definition from_bits_truncate :: "u32 \<Rightarrow> u32 \<Rightarrow> u32" where
  "from_bits_truncate all b = b AND all"

definition contains :: "u32 \<Rightarrow> u32 \<Rightarrow> bool" where
  "contains w f \<longleftrightarrow> w AND f = f"

definition ATTR_SIZE :: u32 where "ATTR_SIZE = 0x00000001"
definition ATTR_UIDGID :: u32 where "ATTR_UIDGID = 0x00000002"
definition ATTR_PERMISSIONS :: u32 where "ATTR_PERMISSIONS = 0x00000004"
definition ATTR_ACMODTIME :: u32 where "ATTR_ACMODTIME = 0x00000008"
definition ATTR_EXTENDED :: u32 where "ATTR_EXTENDED = 0x80000000"

definition attr_all :: u32 where
  "attr_all = ATTR_SIZE OR ATTR_UIDGID OR ATTR_PERMISSIONS OR ATTR_ACMODTIME OR ATTR_EXTENDED"

lemmas attr_bits = ATTR_SIZE_def ATTR_UIDGID_def ATTR_PERMISSIONS_def ATTR_ACMODTIME_def
  ATTR_EXTENDED_def

definition MODE_FIFO :: u32 where "MODE_FIFO = 0x1000"
definition MODE_CHR :: u32 where "MODE_CHR = 0x2000"
definition MODE_DIR :: u32 where "MODE_DIR = 0x4000"
definition MODE_NAM :: u32 where "MODE_NAM = 0x5000"
definition MODE_BLK :: u32 where "MODE_BLK = 0x6000"
definition MODE_REG :: u32 where "MODE_REG = 0x8000"
definition MODE_LNK :: u32 where "MODE_LNK = 0xA000"
definition MODE_SOCK :: u32 where "MODE_SOCK = 0xC000"

definition mode_all :: u32 where
  "mode_all = MODE_FIFO OR MODE_CHR OR MODE_DIR OR MODE_NAM OR MODE_BLK OR MODE_REG OR MODE_LNK
     OR MODE_SOCK"

lemmas mode_bits = MODE_FIFO_def MODE_CHR_def MODE_DIR_def MODE_NAM_def MODE_BLK_def MODE_REG_def
  MODE_LNK_def MODE_SOCK_def

lemma mode_all_eq: "mode_all = 0xF000"
  by (simp add: mode_all_def mode_bits)

lemma attr_all_eq: "attr_all = 0x8000000F"
  by (simp add: attr_all_def attr_bits)

definition perm_all :: u32 where
  "perm_all = 0x1FF"

section \<open>File types\<close>

datatype file_type = Dir | File | Symlink | Other

definition is_dir_type :: "file_type \<Rightarrow> bool" where "is_dir_type t \<longleftrightarrow> t = Dir"
definition is_file_type :: "file_type \<Rightarrow> bool" where "is_file_type t \<longleftrightarrow> t = File"
definition is_symlink_type :: "file_type \<Rightarrow> bool" where "is_symlink_type t \<longleftrightarrow> t = Symlink"
definition is_other_type :: "file_type \<Rightarrow> bool" where "is_other_type t \<longleftrightarrow> t = Other"

definition type_of_mode :: "u32 \<Rightarrow> file_type" where
  "type_of_mode mode =
     (if mode = MODE_DIR then Dir
      else if mode = MODE_LNK then Symlink
      else if mode = MODE_REG then File
      else Other)"

definition type_of_bits :: "u32 \<Rightarrow> file_type" where
  "type_of_bits b = type_of_mode (from_bits_truncate mode_all b)"

section \<open>Permissions\<close>

record file_permissions =
  other_exec :: bool
  other_read :: bool
  other_write :: bool
  group_exec :: bool
  group_read :: bool
  group_write :: bool
  owner_exec :: bool
  owner_read :: bool
  owner_write :: bool

definition is_readonly :: "file_permissions \<Rightarrow> bool" where
  "is_readonly p \<longleftrightarrow> \<not> other_write p \<and> \<not> group_write p \<and> \<not> owner_write p"

definition set_readonly :: "bool \<Rightarrow> file_permissions \<Rightarrow> file_permissions" where
  "set_readonly readonly p =
     (let q = p\<lparr>other_exec := \<not> readonly, other_write := \<not> readonly,
                group_exec := \<not> readonly, group_write := \<not> readonly,
                owner_exec := \<not> readonly, owner_write := \<not> readonly\<rparr>
      in if readonly then q\<lparr>other_read := True, group_read := True, owner_read := True\<rparr> else q)"

definition perm_char :: "bool \<Rightarrow> string \<Rightarrow> string" where
  "perm_char b s = (if b then s else ''-'')"

definition show_permissions :: "file_permissions \<Rightarrow> string" where
  "show_permissions p =
     perm_char (owner_read p) ''r'' @ perm_char (owner_write p) ''w'' @
     perm_char (owner_exec p) ''x'' @ perm_char (group_read p) ''r'' @
     perm_char (group_write p) ''w'' @ perm_char (group_exec p) ''x'' @
     perm_char (other_read p) ''r'' @ perm_char (other_write p) ''w'' @
     perm_char (other_exec p) ''x''"

definition permissions_of_flags :: "u32 \<Rightarrow> file_permissions" where
  "permissions_of_flags f =
     \<lparr>other_exec = contains f 0x1, other_read = contains f 0x4, other_write = contains f 0x2,
      group_exec = contains f 0x8, group_read = contains f 0x20, group_write = contains f 0x10,
      owner_exec = contains f 0x40, owner_read = contains f 0x100, owner_write = contains f 0x80\<rparr>"

definition permissions_of_bits :: "u32 \<Rightarrow> file_permissions" where
  "permissions_of_bits b = permissions_of_flags (from_bits_truncate perm_all b)"

lemma set_readonly_readonly: "is_readonly (set_readonly r p) \<longleftrightarrow> r"
  by (cases r) (simp_all add: is_readonly_def set_readonly_def Let_def)

lemma length_show_permissions: "length (show_permissions p) = 9"
  by (simp add: show_permissions_def perm_char_def)

lemma perm_char_append:
  "c \<noteq> CHR ''-'' \<Longrightarrow>
   perm_char b [c] @ xs = perm_char b' [c] @ ys \<longleftrightarrow> b = b' \<and> xs = ys"
  by (auto simp: perm_char_def)

lemma perm_char_eq: "c \<noteq> CHR ''-'' \<Longrightarrow> perm_char b [c] = perm_char b' [c] \<longleftrightarrow> b = b'"
  by (auto simp: perm_char_def)

lemma show_permissions_inject: "show_permissions p = show_permissions q \<longleftrightarrow> p = q"
proof
  assume "show_permissions p = show_permissions q"
  then show "p = q"
    unfolding show_permissions_def
    by (cases p; cases q) (simp add: perm_char_append perm_char_eq)
qed simp

section \<open>The attribute record\<close>

record file_attributes =
  fa_size :: "u64 option"
  fa_uid :: "u32 option"
  fa_user :: "rstring option"
  fa_gid :: "u32 option"
  fa_group :: "rstring option"
  fa_permissions :: "u32 option"
  fa_atime :: "u32 option"
  fa_mtime :: "u32 option"

text \<open>\<open>is_dir\<close>, \<open>is_regular\<close>, \<open>is_symlink\<close>, \<dots> are one macro over the mode flag.\<close>

definition has_mode :: "u32 \<Rightarrow> file_attributes \<Rightarrow> bool" where
  "has_mode flag a =
     (case fa_permissions a of
        None \<Rightarrow> False
      | Some b \<Rightarrow> contains (from_bits_truncate mode_all b) flag)"

definition set_type :: "u32 \<Rightarrow> file_attributes \<Rightarrow> file_attributes" where
  "set_type mode a = a\<lparr>fa_permissions := Some (unwrap_or (fa_permissions a) 0 OR mode)\<rparr>"

definition remove_type :: "u32 \<Rightarrow> file_attributes \<Rightarrow> file_attributes" where
  "remove_type mode a = a\<lparr>fa_permissions := Some (unwrap_or (fa_permissions a) 0 AND NOT mode)\<rparr>"

definition set_mode :: "u32 \<Rightarrow> bool \<Rightarrow> file_attributes \<Rightarrow> file_attributes" where
  "set_mode flag on a = (if on then set_type flag a else remove_type flag a)"

abbreviation is_dir :: "file_attributes \<Rightarrow> bool" where "is_dir \<equiv> has_mode MODE_DIR"
abbreviation is_regular :: "file_attributes \<Rightarrow> bool" where "is_regular \<equiv> has_mode MODE_REG"
abbreviation is_symlink :: "file_attributes \<Rightarrow> bool" where "is_symlink \<equiv> has_mode MODE_LNK"

definition file_type_of :: "file_attributes \<Rightarrow> file_type" where
  "file_type_of a = type_of_bits (unwrap_or (fa_permissions a) 0)"

definition len :: "file_attributes \<Rightarrow> u64" where
  "len a = unwrap_or (fa_size a) 0"

definition is_empty :: "file_attributes \<Rightarrow> bool" where
  "is_empty a \<longleftrightarrow> len a = 0"

definition permissions :: "file_attributes \<Rightarrow> file_permissions" where
  "permissions a = permissions_of_bits (unwrap_or (fa_permissions a) 0)"

datatype time_error = InvalidData

text \<open>Times are seconds since the Unix epoch.\<close>

definition accessed :: "file_attributes \<Rightarrow> time_error + nat" where
  "accessed a = ok_or (map_option unat (fa_atime a)) InvalidData"

definition modified :: "file_attributes \<Rightarrow> time_error + nat" where
  "modified a = ok_or (map_option unat (fa_mtime a)) InvalidData"

definition empty_attrs :: file_attributes where
  "empty_attrs =
     \<lparr>fa_size = None, fa_uid = None, fa_user = None, fa_gid = None, fa_group = None,
      fa_permissions = None, fa_atime = None, fa_mtime = None\<rparr>"

definition default_attrs :: file_attributes where
  "default_attrs =
     \<lparr>fa_size = Some 0, fa_uid = Some 0, fa_user = None, fa_gid = Some 0, fa_group = None,
      fa_permissions = Some (0x1FF OR MODE_DIR), fa_atime = Some 0, fa_mtime = Some 0\<rparr>"

text \<open>
  What the code reads of a local file's metadata on Unix. Access and modification times are
  the seconds since the epoch (negative before it), absent where the platform has none.
\<close>

record metadata =
  md_len :: u64
  md_uid :: u32
  md_gid :: u32
  md_mode :: u32
  md_accessed :: "int option"
  md_modified :: "int option"
  md_is_dir :: bool

definition unix_time :: "int \<Rightarrow> u32" where
  "unix_time secs = word_of_int secs"

definition attrs_of_metadata :: "metadata \<Rightarrow> file_attributes" where
  "attrs_of_metadata m =
     (let attrs = default_attrs
            \<lparr>fa_size := Some (md_len m), fa_uid := Some (md_uid m), fa_gid := Some (md_gid m),
             fa_permissions := Some (md_mode m),
             fa_atime := Some (unix_time (unwrap_or (md_accessed m) 0)),
             fa_mtime := Some (unix_time (unwrap_or (md_modified m) 0))\<rparr>
      in set_mode MODE_REG (\<not> md_is_dir m) (set_mode MODE_DIR (md_is_dir m) attrs))"

section \<open>Serialization\<close>

definition attr_flags :: "file_attributes \<Rightarrow> u32" where
  "attr_flags a =
     (let f0 = 0;
          f1 = (if fa_size a \<noteq> None then f0 OR ATTR_SIZE else f0);
          f2 = (if fa_uid a \<noteq> None \<or> fa_gid a \<noteq> None then f1 OR ATTR_UIDGID else f1);
          f3 = (if fa_permissions a \<noteq> None then f2 OR ATTR_PERMISSIONS else f2)
      in if fa_atime a \<noteq> None \<or> fa_mtime a \<noteq> None then f3 OR ATTR_ACMODTIME else f3)"

definition ser_attrs :: "file_attributes \<Rightarrow> ser_value" where
  "ser_attrs a = SStruct
     ([SNewtypeStruct (SU32 (attr_flags a))]
      @ (case fa_size a of Some n \<Rightarrow> [SU64 n] | None \<Rightarrow> [])
      @ (if fa_uid a \<noteq> None \<or> fa_gid a \<noteq> None
         then [SU32 (unwrap_or (fa_uid a) 0), SU32 (unwrap_or (fa_gid a) 0)] else [])
      @ (case fa_permissions a of Some p \<Rightarrow> [SU32 p] | None \<Rightarrow> [])
      @ (if fa_atime a \<noteq> None \<or> fa_mtime a \<noteq> None
         then [SU32 (unwrap_or (fa_atime a) 0), SU32 (unwrap_or (fa_mtime a) 0)] else []))"

text \<open>A field is asked of the sequence only where its flag is set.\<close>

definition opt_field :: "bool \<Rightarrow> 'a de \<Rightarrow> seq_de \<Rightarrow> sftp_error + 'a option \<times> seq_de" where
  "opt_field c p s = (if c then next_element p s else Inr (None, s))"

definition de_attrs :: "file_attributes de" where
  "de_attrs input =
     result_bind (next_element de_u32 (deserialize_any input)) (\<lambda>(raw, s0).
     let attrs = from_bits_truncate attr_all (unwrap_or raw 0) in
     result_bind (opt_field (contains attrs ATTR_SIZE) de_u64 s0) (\<lambda>(sz, s1).
     result_bind (opt_field (contains attrs ATTR_UIDGID) de_u32 s1) (\<lambda>(uid, s2).
     result_bind (opt_field (contains attrs ATTR_UIDGID) de_u32 s2) (\<lambda>(gid, s3).
     result_bind (opt_field (contains attrs ATTR_PERMISSIONS) de_u32 s3) (\<lambda>(perm, s4).
     result_bind (opt_field (contains attrs ATTR_ACMODTIME) de_u32 s4) (\<lambda>(atime, s5).
     result_bind (opt_field (contains attrs ATTR_ACMODTIME) de_u32 s5) (\<lambda>(mtime, s6).
     Inr (\<lparr>fa_size = sz, fa_uid = uid, fa_user = None, fa_gid = gid, fa_group = None,
           fa_permissions = perm, fa_atime = atime, fa_mtime = mtime\<rparr>, snd s6))))))))"

section \<open>The attribute codec\<close>

text \<open>
  What comes back: the user and group names are not on the wire, and uid/gid and
  atime/mtime travel in pairs, the missing half as 0.
\<close>

definition pair_with :: "'a option \<Rightarrow> 'a option \<Rightarrow> 'a \<Rightarrow> 'a option" where
  "pair_with x y d = (if x \<noteq> None \<or> y \<noteq> None then Some (unwrap_or x d) else None)"

definition canon_attrs :: "file_attributes \<Rightarrow> file_attributes" where
  "canon_attrs a =
     a\<lparr>fa_user := None, fa_group := None,
       fa_uid := pair_with (fa_uid a) (fa_gid a) 0, fa_gid := pair_with (fa_gid a) (fa_uid a) 0,
       fa_atime := pair_with (fa_atime a) (fa_mtime a) 0,
       fa_mtime := pair_with (fa_mtime a) (fa_atime a) 0\<rparr>"

definition wire_attrs :: "file_attributes \<Rightarrow> bytes" where
  "wire_attrs a =
     be32 (attr_flags a)
     @ (case fa_size a of Some n \<Rightarrow> be64 n | None \<Rightarrow> [])
     @ (if fa_uid a \<noteq> None \<or> fa_gid a \<noteq> None
        then be32 (unwrap_or (fa_uid a) 0) @ be32 (unwrap_or (fa_gid a) 0) else [])
     @ (case fa_permissions a of Some p \<Rightarrow> be32 p | None \<Rightarrow> [])
     @ (if fa_atime a \<noteq> None \<or> fa_mtime a \<noteq> None
        then be32 (unwrap_or (fa_atime a) 0) @ be32 (unwrap_or (fa_mtime a) 0) else [])"

lemma to_bytes_SStruct_eqI:
  "list_all2 (\<lambda>v bs. to_bytes v = Inr bs) vs bss \<Longrightarrow> concat bss = w \<Longrightarrow> to_bytes (SStruct vs) = Inr w"
  by (simp add: to_bytes_SStruct)

lemma to_bytes_ser_attrs: "to_bytes (ser_attrs a) = Inr (wire_attrs a)"
  unfolding ser_attrs_def
proof (rule to_bytes_SStruct_eqI)
  show "list_all2 (\<lambda>v bs. to_bytes v = Inr bs)
     ([SNewtypeStruct (SU32 (attr_flags a))]
      @ (case fa_size a of Some n \<Rightarrow> [SU64 n] | None \<Rightarrow> [])
      @ (if fa_uid a \<noteq> None \<or> fa_gid a \<noteq> None
         then [SU32 (unwrap_or (fa_uid a) 0), SU32 (unwrap_or (fa_gid a) 0)] else [])
      @ (case fa_permissions a of Some p \<Rightarrow> [SU32 p] | None \<Rightarrow> [])
      @ (if fa_atime a \<noteq> None \<or> fa_mtime a \<noteq> None
         then [SU32 (unwrap_or (fa_atime a) 0), SU32 (unwrap_or (fa_mtime a) 0)] else []))
     ([be32 (attr_flags a)]
      @ (case fa_size a of Some n \<Rightarrow> [be64 n] | None \<Rightarrow> [])
      @ (if fa_uid a \<noteq> None \<or> fa_gid a \<noteq> None
         then [be32 (unwrap_or (fa_uid a) 0), be32 (unwrap_or (fa_gid a) 0)] else [])
      @ (case fa_permissions a of Some p \<Rightarrow> [be32 p] | None \<Rightarrow> [])
      @ (if fa_atime a \<noteq> None \<or> fa_mtime a \<noteq> None
         then [be32 (unwrap_or (fa_atime a) 0), be32 (unwrap_or (fa_mtime a) 0)] else []))"
    by (intro list_all2_appendI) (auto split: option.split)
  show "concat
     ([be32 (attr_flags a)]
      @ (case fa_size a of Some n \<Rightarrow> [be64 n] | None \<Rightarrow> [])
      @ (if fa_uid a \<noteq> None \<or> fa_gid a \<noteq> None
         then [be32 (unwrap_or (fa_uid a) 0), be32 (unwrap_or (fa_gid a) 0)] else [])
      @ (case fa_permissions a of Some p \<Rightarrow> [be32 p] | None \<Rightarrow> [])
      @ (if fa_atime a \<noteq> None \<or> fa_mtime a \<noteq> None
         then [be32 (unwrap_or (fa_atime a) 0), be32 (unwrap_or (fa_mtime a) 0)] else []))
     = wire_attrs a"
    by (simp add: wire_attrs_def split: option.split)
qed

lemma attr_flags_contains:
  "contains (from_bits_truncate attr_all (attr_flags a)) ATTR_SIZE \<longleftrightarrow> fa_size a \<noteq> None"
  "contains (from_bits_truncate attr_all (attr_flags a)) ATTR_UIDGID
     \<longleftrightarrow> fa_uid a \<noteq> None \<or> fa_gid a \<noteq> None"
  "contains (from_bits_truncate attr_all (attr_flags a)) ATTR_PERMISSIONS
     \<longleftrightarrow> fa_permissions a \<noteq> None"
  "contains (from_bits_truncate attr_all (attr_flags a)) ATTR_ACMODTIME
     \<longleftrightarrow> fa_atime a \<noteq> None \<or> fa_mtime a \<noteq> None"
  by (simp_all add: contains_def from_bits_truncate_def attr_all_eq attr_flags_def attr_bits Let_def)

lemma next_element_enc:
  assumes "codec enc dec canon ok" and "ok x" and "0 < n"
  shows "next_element dec (Some n, enc x @ rest) = Inr (Some (canon x), (Some (n - 1), rest))"
  using codec.roundtrip [OF assms(1,2), of rest] assms(3) by (simp add: next_element_def)

lemmas next_u32 = next_element_enc [OF u32.codec_axioms]
lemmas next_u64 = next_element_enc [OF u64.codec_axioms]

lemma de_attrs_wire: "de_attrs (wire_attrs a @ rest) = Inr (canon_attrs a, rest)"
proof -
  have len: "4 \<le> length (wire_attrs a)" by (simp add: wire_attrs_def)
  obtain n where n: "length (wire_attrs a @ rest) = n" by simp
  have bound: "length (wire_attrs a) \<le> n" using n by simp
  show ?thesis
    unfolding de_attrs_def deserialize_any_def n
    using bound
    by (cases "fa_size a"; cases "fa_uid a"; cases "fa_gid a"; cases "fa_permissions a";
        cases "fa_atime a"; cases "fa_mtime a"; cases a)
      (simp_all add: wire_attrs_def next_u32 next_u64 attr_flags_contains opt_field_def
        canon_attrs_def pair_with_def)
qed

interpretation attrs: codec wire_attrs de_attrs canon_attrs "\<lambda>_. True"
  by unfold_locales (rule de_attrs_wire)

lemma pair_with_idem [simp]:
  "pair_with (pair_with x y d) (pair_with y x d) d = pair_with x y d"
  by (cases x; cases y) (simp_all add: pair_with_def)

lemma canon_attrs_idem [simp]: "canon_attrs (canon_attrs a) = canon_attrs a"
  by (simp add: canon_attrs_def)

section \<open>Open flags\<close>

definition OPEN_READ :: u32 where "OPEN_READ = 0x1"
definition OPEN_WRITE :: u32 where "OPEN_WRITE = 0x2"
definition OPEN_APPEND :: u32 where "OPEN_APPEND = 0x4"
definition OPEN_CREATE :: u32 where "OPEN_CREATE = 0x8"
definition OPEN_TRUNCATE :: u32 where "OPEN_TRUNCATE = 0x10"
definition OPEN_EXCLUDE :: u32 where "OPEN_EXCLUDE = 0x20"

lemmas open_bits = OPEN_READ_def OPEN_WRITE_def OPEN_APPEND_def OPEN_CREATE_def OPEN_TRUNCATE_def
  OPEN_EXCLUDE_def

text \<open>The switches of \<open>std::fs::OpenOptions\<close>.\<close>

record open_options =
  opt_read :: bool
  opt_write :: bool
  opt_append :: bool
  opt_create :: bool
  opt_create_new :: bool
  opt_truncate :: bool

definition open_options_new :: open_options where
  "open_options_new =
     \<lparr>opt_read = False, opt_write = False, opt_append = False, opt_create = False,
      opt_create_new = False, opt_truncate = False\<rparr>"

definition open_options_of_flags :: "u32 \<Rightarrow> open_options" where
  "open_options_of_flags v =
     (let o0 = open_options_new;
          o1 = (if contains v OPEN_READ then o0\<lparr>opt_read := True\<rparr> else o0);
          o2 = (if contains v OPEN_WRITE then o1\<lparr>opt_write := True\<rparr> else o1);
          o3 = (if contains v OPEN_APPEND then o2\<lparr>opt_append := True\<rparr> else o2);
          o4 = (if contains v OPEN_CREATE
                then if contains v OPEN_EXCLUDE then o3\<lparr>opt_create_new := True\<rparr>
                     else o3\<lparr>opt_create := True\<rparr>
                else o3)
      in if contains v OPEN_TRUNCATE then o4\<lparr>opt_truncate := True\<rparr> else o4)"

lemma open_options_create_new:
  "opt_create_new (open_options_of_flags v) \<longleftrightarrow> contains v OPEN_CREATE \<and> contains v OPEN_EXCLUDE"
  "\<not> (opt_create (open_options_of_flags v) \<and> opt_create_new (open_options_of_flags v))"
  by (simp_all add: open_options_of_flags_def open_options_new_def Let_def)


section \<open>Properties\<close>

text \<open> File attributes survive the wire: what the hand-written serializer writes is read back
  by the hand-written deserializer with every optional field present or absent as it was,
  except that the user and group names are dropped and a half-set uid/gid or atime/mtime pair
  comes back with 0 for the missing half; nothing of what follows is consumed.\<close>

lemma file_attributes_roundtrip:
  "\<exists>bs. to_bytes (ser_attrs a) = Inr bs \<and> de_attrs (bs @ rest) = Inr (canon_attrs a, rest)"
  by (simp add: to_bytes_ser_attrs attrs.roundtrip)

text \<open>The predicate \<open>is_dir\<close> tests one bit of the file mode, so it is true of every directory
  but also of block devices and sockets, which the function \<open>file_type\<close> reports as other.\<close>

lemma is_dir_of_device:
  "(file_type_of a = Dir \<longrightarrow> is_dir a)
   \<and> (\<forall>m \<in> {MODE_BLK, MODE_SOCK}.
        is_dir (a\<lparr>fa_permissions := Some m\<rparr>) \<and> file_type_of (a\<lparr>fa_permissions := Some m\<rparr>) = Other)"
proof -
  have "is_dir a" if "file_type_of a = Dir"
    using that
    by (cases "fa_permissions a")
      (auto simp: file_type_of_def type_of_bits_def type_of_mode_def has_mode_def contains_def
        from_bits_truncate_def mode_all_eq mode_bits split: if_splits)
  then show ?thesis
    by (simp add: has_mode_def contains_def file_type_of_def type_of_bits_def type_of_mode_def
        from_bits_truncate_def mode_all_eq mode_bits)
qed

lemma is_dir_of_device_witness:
  "file_type_of default_attrs = Dir \<and> is_dir default_attrs"
proof -
  have "file_type_of default_attrs = Dir"
    by (simp add: default_attrs_def file_type_of_def type_of_bits_def type_of_mode_def
        from_bits_truncate_def mode_all_eq mode_bits)
  with is_dir_of_device [of default_attrs] show ?thesis by simp
qed

text \<open>A file's metadata with a given type in its mode.\<close>

definition with_type :: "u32 \<Rightarrow> metadata \<Rightarrow> metadata" where
  "with_type t m = m\<lparr>md_mode := (md_mode m AND 0xFFF) OR t, md_is_dir := (t = MODE_DIR)\<rparr>"

text \<open>
  The conversion from local metadata forces the regular-file bit on whatever is no
  directory: directories and regular files keep their type, but the attributes of a character
  device say symbolic link and those of a socket say regular file.\<close>

lemma metadata_file_types:
  "file_type_of (attrs_of_metadata (with_type MODE_DIR m)) = Dir
   \<and> file_type_of (attrs_of_metadata (with_type MODE_REG m)) = File
   \<and> file_type_of (attrs_of_metadata (with_type MODE_CHR m)) = Symlink
   \<and> file_type_of (attrs_of_metadata (with_type MODE_SOCK m)) = File"
proof -
  have dist: "(x AND 0xFFF OR t) AND 0xF000 = t AND 0xF000" for x t :: u32
    by (simp add: bit.conj_disj_distrib2 and.assoc)
  have set: "(y OR f) AND 0xF000 = (y AND 0xF000) OR (f AND 0xF000)" for y f :: u32
    by (simp add: bit.conj_disj_distrib2)
  have clear: "(y AND - 16385) AND 0xF000 = (y AND 0xF000) AND - 16385"
    "(y AND - 32769) AND 0xF000 = (y AND 0xF000) AND - 32769" for y :: u32
    by (simp_all only: ac_simps)
  have zero: "(x AND 0xFFF) AND 0xF000 = 0" for x :: u32
    by (simp add: and.assoc)
  show ?thesis
    by (simp add: attrs_of_metadata_def with_type_def set_mode_def set_type_def remove_type_def
        file_type_of_def type_of_bits_def type_of_mode_def from_bits_truncate_def mode_all_eq
        mode_bits dist set clear zero Let_def)
qed

end
