(* ===== verification/Sftp_Packet.thy ===== *)
theory Sftp_Packet
  imports File_Attrs
begin

text \<open>
  The packets of the SFTP protocol (\<open>crates/russh-sftp/src/protocol/\<close>): the packet enum with
  the fields of its structs, the request id, the encoding with its length prefix and type
  byte, the decoding of a packet body, and the framing that \<open>utils.rs\<close> reads off a stream.
\<close>

section \<open>Packets\<close>

datatype status_code =
    Ok | Eof | NoSuchFile | PermissionDenied | Failure | BadMsg | NoConnection
  | ConnectionLost | OpUnsupported

fun status_index :: "status_code \<Rightarrow> u32" where
  "status_index Ok = 0"
| "status_index Eof = 1"
| "status_index NoSuchFile = 2"
| "status_index PermissionDenied = 3"
| "status_index Failure = 4"
| "status_index BadMsg = 5"
| "status_index NoConnection = 6"
| "status_index ConnectionLost = 7"
| "status_index OpUnsupported = 8"

fun status_message :: "status_code \<Rightarrow> string" where
  "status_message Ok = ''Ok''"
| "status_message Eof = ''Eof''"
| "status_message NoSuchFile = ''No such file''"
| "status_message PermissionDenied = ''Permission denied''"
| "status_message Failure = ''Failure''"
| "status_message BadMsg = ''Bad message''"
| "status_message NoConnection = ''No connection''"
| "status_message ConnectionLost = ''Connection lost''"
| "status_message OpUnsupported = ''Operation unsupported''"

definition status_codes :: "status_code list" where
  "status_codes =
     [Ok, Eof, NoSuchFile, PermissionDenied, Failure, BadMsg, NoConnection, ConnectionLost,
      OpUnsupported]"

record sftp_file =
  file_name :: rstring
  file_longname :: rstring
  file_attrs :: file_attributes

datatype packet =
    Init u32 hashmap
  | Version u32 hashmap
  | Open u32 rstring u32 file_attributes
  | Close u32 rstring
  | Read u32 rstring u64 u32
  | Write u32 rstring u64 bytes
  | Lstat u32 rstring
  | Fstat u32 rstring
  | SetStat u32 rstring file_attributes
  | FSetStat u32 rstring file_attributes
  | OpenDir u32 rstring
  | ReadDir u32 rstring
  | Remove u32 rstring
  | MkDir u32 rstring file_attributes
  | RmDir u32 rstring
  | RealPath u32 rstring
  | Stat u32 rstring
  | Rename u32 rstring rstring
  | ReadLink u32 rstring
  | Symlink u32 rstring rstring
  | Status u32 status_code rstring rstring
  | Handle u32 rstring
  | Data u32 bytes
  | Name u32 "sftp_file list"
  | Attrs u32 file_attributes
  | Extended u32 rstring bytes
  | ExtendedReply u32 bytes

definition VERSION :: u32 where "VERSION = 3"

definition init_new :: packet where "init_new = Init VERSION []"
definition version_new :: packet where "version_new = Version VERSION []"

fun get_request_id :: "packet \<Rightarrow> u32" where
  "get_request_id (Open i _ _ _) = i"
| "get_request_id (Close i _) = i"
| "get_request_id (Read i _ _ _) = i"
| "get_request_id (Write i _ _ _) = i"
| "get_request_id (Lstat i _) = i"
| "get_request_id (Fstat i _) = i"
| "get_request_id (SetStat i _ _) = i"
| "get_request_id (FSetStat i _ _) = i"
| "get_request_id (OpenDir i _) = i"
| "get_request_id (ReadDir i _) = i"
| "get_request_id (Remove i _) = i"
| "get_request_id (MkDir i _ _) = i"
| "get_request_id (RmDir i _) = i"
| "get_request_id (RealPath i _) = i"
| "get_request_id (Stat i _) = i"
| "get_request_id (Rename i _ _) = i"
| "get_request_id (ReadLink i _) = i"
| "get_request_id (Symlink i _ _) = i"
| "get_request_id (Extended i _ _) = i"
| "get_request_id _ = 0"

definition packet_status :: "u32 \<Rightarrow> status_code \<Rightarrow> rstring \<Rightarrow> rstring \<Rightarrow> packet" where
  "packet_status i code msg tag = Status i code msg tag"

definition packet_error :: "u32 \<Rightarrow> status_code \<Rightarrow> packet" where
  "packet_error i code = packet_status i code (ascii (status_message code)) (ascii ''en-US'')"

definition dummy_file :: "rstring \<Rightarrow> sftp_file" where
  "dummy_file name = \<lparr>file_name = name, file_longname = [], file_attrs = default_attrs\<rparr>"

section \<open>Type bytes\<close>

definition SSH_FXP_INIT :: byte where "SSH_FXP_INIT = 1"
definition SSH_FXP_VERSION :: byte where "SSH_FXP_VERSION = 2"
definition SSH_FXP_OPEN :: byte where "SSH_FXP_OPEN = 3"
definition SSH_FXP_CLOSE :: byte where "SSH_FXP_CLOSE = 4"
definition SSH_FXP_READ :: byte where "SSH_FXP_READ = 5"
definition SSH_FXP_WRITE :: byte where "SSH_FXP_WRITE = 6"
definition SSH_FXP_LSTAT :: byte where "SSH_FXP_LSTAT = 7"
definition SSH_FXP_FSTAT :: byte where "SSH_FXP_FSTAT = 8"
definition SSH_FXP_SETSTAT :: byte where "SSH_FXP_SETSTAT = 9"
definition SSH_FXP_FSETSTAT :: byte where "SSH_FXP_FSETSTAT = 10"
definition SSH_FXP_OPENDIR :: byte where "SSH_FXP_OPENDIR = 11"
definition SSH_FXP_READDIR :: byte where "SSH_FXP_READDIR = 12"
definition SSH_FXP_REMOVE :: byte where "SSH_FXP_REMOVE = 13"
definition SSH_FXP_MKDIR :: byte where "SSH_FXP_MKDIR = 14"
definition SSH_FXP_RMDIR :: byte where "SSH_FXP_RMDIR = 15"
definition SSH_FXP_REALPATH :: byte where "SSH_FXP_REALPATH = 16"
definition SSH_FXP_STAT :: byte where "SSH_FXP_STAT = 17"
definition SSH_FXP_RENAME :: byte where "SSH_FXP_RENAME = 18"
definition SSH_FXP_READLINK :: byte where "SSH_FXP_READLINK = 19"
definition SSH_FXP_SYMLINK :: byte where "SSH_FXP_SYMLINK = 20"
definition SSH_FXP_STATUS :: byte where "SSH_FXP_STATUS = 101"
definition SSH_FXP_HANDLE :: byte where "SSH_FXP_HANDLE = 102"
definition SSH_FXP_DATA :: byte where "SSH_FXP_DATA = 103"
definition SSH_FXP_NAME :: byte where "SSH_FXP_NAME = 104"
definition SSH_FXP_ATTRS :: byte where "SSH_FXP_ATTRS = 105"
definition SSH_FXP_EXTENDED :: byte where "SSH_FXP_EXTENDED = 200"
definition SSH_FXP_EXTENDED_REPLY :: byte where "SSH_FXP_EXTENDED_REPLY = 201"

lemmas fxp_defs = SSH_FXP_INIT_def SSH_FXP_VERSION_def SSH_FXP_OPEN_def SSH_FXP_CLOSE_def
  SSH_FXP_READ_def SSH_FXP_WRITE_def SSH_FXP_LSTAT_def SSH_FXP_FSTAT_def SSH_FXP_SETSTAT_def
  SSH_FXP_FSETSTAT_def SSH_FXP_OPENDIR_def SSH_FXP_READDIR_def SSH_FXP_REMOVE_def
  SSH_FXP_MKDIR_def SSH_FXP_RMDIR_def SSH_FXP_REALPATH_def SSH_FXP_STAT_def SSH_FXP_RENAME_def
  SSH_FXP_READLINK_def SSH_FXP_SYMLINK_def SSH_FXP_STATUS_def SSH_FXP_HANDLE_def
  SSH_FXP_DATA_def SSH_FXP_NAME_def SSH_FXP_ATTRS_def SSH_FXP_EXTENDED_def
  SSH_FXP_EXTENDED_REPLY_def

section \<open>Encoding\<close>

text \<open>The derived \<open>Serialize\<close> instances of the field types.\<close>

definition ser_map :: "hashmap \<Rightarrow> ser_value" where
  "ser_map m = SMap (Some (length m)) (map (\<lambda>(k, v). (SStr k, SStr v)) m)"

definition ser_byte_vec :: "bytes \<Rightarrow> ser_value" where
  "ser_byte_vec bs = SSeq (Some (length bs)) (map SU8 bs)"

definition ser_file :: "sftp_file \<Rightarrow> ser_value" where
  "ser_file f = SStruct [SStr (file_name f), SStr (file_longname f), ser_attrs (file_attrs f)]"

definition ser_files :: "sftp_file list \<Rightarrow> ser_value" where
  "ser_files fs = SSeq (Some (length fs)) (map ser_file fs)"

text \<open>The body of a \<open>Data\<close> packet is written without the serializer.\<close>

definition data_payload :: "u32 \<Rightarrow> bytes \<Rightarrow> bytes" where
  "data_payload i d = put_slice d (put_u32 (word_of_nat (length d)) (put_u32 i []))"

fun packet_parts :: "packet \<Rightarrow> byte \<times> (sftp_error + bytes)" where
  "packet_parts (Init v ext) = (SSH_FXP_INIT, to_bytes (SStruct [SU32 v, ser_map ext]))"
| "packet_parts (Version v ext) = (SSH_FXP_VERSION, to_bytes (SStruct [SU32 v, ser_map ext]))"
| "packet_parts (Open i f fl a) =
     (SSH_FXP_OPEN, to_bytes (SStruct [SU32 i, SStr f, SNewtypeStruct (SU32 fl), ser_attrs a]))"
| "packet_parts (Close i h) = (SSH_FXP_CLOSE, to_bytes (SStruct [SU32 i, SStr h]))"
| "packet_parts (Read i h off n) =
     (SSH_FXP_READ, to_bytes (SStruct [SU32 i, SStr h, SU64 off, SU32 n]))"
| "packet_parts (Write i h off d) =
     (SSH_FXP_WRITE, to_bytes (SStruct [SU32 i, SStr h, SU64 off, ser_byte_vec d]))"
| "packet_parts (Lstat i p) = (SSH_FXP_LSTAT, to_bytes (SStruct [SU32 i, SStr p]))"
| "packet_parts (Fstat i h) = (SSH_FXP_FSTAT, to_bytes (SStruct [SU32 i, SStr h]))"
| "packet_parts (SetStat i p a) =
     (SSH_FXP_SETSTAT, to_bytes (SStruct [SU32 i, SStr p, ser_attrs a]))"
| "packet_parts (FSetStat i h a) =
     (SSH_FXP_FSETSTAT, to_bytes (SStruct [SU32 i, SStr h, ser_attrs a]))"
| "packet_parts (OpenDir i p) = (SSH_FXP_OPENDIR, to_bytes (SStruct [SU32 i, SStr p]))"
| "packet_parts (ReadDir i h) = (SSH_FXP_READDIR, to_bytes (SStruct [SU32 i, SStr h]))"
| "packet_parts (Remove i p) = (SSH_FXP_REMOVE, to_bytes (SStruct [SU32 i, SStr p]))"
| "packet_parts (MkDir i p a) =
     (SSH_FXP_MKDIR, to_bytes (SStruct [SU32 i, SStr p, ser_attrs a]))"
| "packet_parts (RmDir i p) = (SSH_FXP_RMDIR, to_bytes (SStruct [SU32 i, SStr p]))"
| "packet_parts (RealPath i p) = (SSH_FXP_REALPATH, to_bytes (SStruct [SU32 i, SStr p]))"
| "packet_parts (Stat i p) = (SSH_FXP_STAT, to_bytes (SStruct [SU32 i, SStr p]))"
| "packet_parts (Rename i old new) =
     (SSH_FXP_RENAME, to_bytes (SStruct [SU32 i, SStr old, SStr new]))"
| "packet_parts (ReadLink i p) = (SSH_FXP_READLINK, to_bytes (SStruct [SU32 i, SStr p]))"
| "packet_parts (Symlink i l t) =
     (SSH_FXP_SYMLINK, to_bytes (SStruct [SU32 i, SStr l, SStr t]))"
| "packet_parts (Status i c msg tag) =
     (SSH_FXP_STATUS,
      to_bytes (SStruct [SU32 i, SUnitVariant (status_index c), SStr msg, SStr tag]))"
| "packet_parts (Handle i h) = (SSH_FXP_HANDLE, to_bytes (SStruct [SU32 i, SStr h]))"
| "packet_parts (Data i d) = (SSH_FXP_DATA, Inr (data_payload i d))"
| "packet_parts (Name i fs) = (SSH_FXP_NAME, to_bytes (SStruct [SU32 i, ser_files fs]))"
| "packet_parts (Attrs i a) = (SSH_FXP_ATTRS, to_bytes (SStruct [SU32 i, ser_attrs a]))"
| "packet_parts (Extended i r d) =
     (SSH_FXP_EXTENDED, to_bytes (SStruct [SU32 i, SStr r, data_serialize d]))"
| "packet_parts (ExtendedReply i d) =
     (SSH_FXP_EXTENDED_REPLY, to_bytes (SStruct [SU32 i, data_serialize d]))"

definition encode_packet :: "packet \<Rightarrow> sftp_error + bytes" where
  "encode_packet p =
     (case packet_parts p of (t, r) \<Rightarrow>
        result_bind r (\<lambda>payload.
        let n = word_of_nat (length payload) + 1
        in Inr (put_slice payload (put_u8 t (put_u32 n [])))))"

section \<open>Decoding\<close>

definition de_id_string :: "(u32 \<Rightarrow> rstring \<Rightarrow> packet) \<Rightarrow> packet de" where
  "de_id_string C = de_struct2 C de_u32 try_get_string"

definition de_id_string_attrs :: "(u32 \<Rightarrow> rstring \<Rightarrow> file_attributes \<Rightarrow> packet) \<Rightarrow> packet de" where
  "de_id_string_attrs C = de_struct3 C de_u32 try_get_string de_attrs"

definition de_id_string2 :: "(u32 \<Rightarrow> rstring \<Rightarrow> rstring \<Rightarrow> packet) \<Rightarrow> packet de" where
  "de_id_string2 C = de_struct3 C de_u32 try_get_string try_get_string"

definition de_file :: "sftp_file de" where
  "de_file = de_struct3 (\<lambda>n l a. \<lparr>file_name = n, file_longname = l, file_attrs = a\<rparr>)
     try_get_string try_get_string de_attrs"

definition de_status_code :: "status_code de" where
  "de_status_code = de_enum status_codes"

text \<open>\<open>SSH_FXP_DATA\<close> bypasses serde: id, length, and a split of the input.\<close>

definition de_data :: "packet de" where
  "de_data input =
     result_bind (de_u32 input) (\<lambda>(i, r1).
     result_bind (de_u32 r1) (\<lambda>(n, r2).
       if length r2 < unat n then Inl (BadMessage (Text ''SSH_FXP_DATA: not enough data''))
       else Inr (Data i (take (unat n) r2), drop (unat n) r2)))"

definition decode_body :: "byte \<Rightarrow> packet de" where
  "decode_body t input =
     (if t = SSH_FXP_INIT then de_struct2 Init de_u32 de_map input
      else if t = SSH_FXP_VERSION then de_struct2 Version de_u32 de_map input
      else if t = SSH_FXP_OPEN then de_struct4 Open de_u32 try_get_string de_u32 de_attrs input
      else if t = SSH_FXP_CLOSE then de_id_string Close input
      else if t = SSH_FXP_READ then de_struct4 Read de_u32 try_get_string de_u64 de_u32 input
      else if t = SSH_FXP_WRITE
        then de_struct4 Write de_u32 try_get_string de_u64 (de_vec de_u8) input
      else if t = SSH_FXP_LSTAT then de_id_string Lstat input
      else if t = SSH_FXP_FSTAT then de_id_string Fstat input
      else if t = SSH_FXP_SETSTAT then de_id_string_attrs SetStat input
      else if t = SSH_FXP_FSETSTAT then de_id_string_attrs FSetStat input
      else if t = SSH_FXP_OPENDIR then de_id_string OpenDir input
      else if t = SSH_FXP_READDIR then de_id_string ReadDir input
      else if t = SSH_FXP_REMOVE then de_id_string Remove input
      else if t = SSH_FXP_MKDIR then de_id_string_attrs MkDir input
      else if t = SSH_FXP_RMDIR then de_id_string RmDir input
      else if t = SSH_FXP_REALPATH then de_id_string RealPath input
      else if t = SSH_FXP_STAT then de_id_string Stat input
      else if t = SSH_FXP_RENAME then de_id_string2 Rename input
      else if t = SSH_FXP_READLINK then de_id_string ReadLink input
      else if t = SSH_FXP_SYMLINK then de_id_string2 Symlink input
      else if t = SSH_FXP_STATUS
        then de_struct4 Status de_u32 de_status_code try_get_string try_get_string input
      else if t = SSH_FXP_HANDLE then de_id_string Handle input
      else if t = SSH_FXP_DATA then de_data input
      else if t = SSH_FXP_NAME then de_struct2 Name de_u32 (de_vec de_file) input
      else if t = SSH_FXP_ATTRS then de_struct2 Attrs de_u32 de_attrs input
      else if t = SSH_FXP_EXTENDED
        then de_struct3 Extended de_u32 try_get_string data_deserialize input
      else if t = SSH_FXP_EXTENDED_REPLY
        then de_struct2 ExtendedReply de_u32 data_deserialize input
      else Inl (BadMessage (Text ''unknown type'')))"

definition decode_packet :: "packet de" where
  "decode_packet input = result_bind (de_u8 input) (\<lambda>(t, rest). decode_body t rest)"

text \<open>\<open>read_packet\<close>: a 32-bit length, then that many bytes, from a stream that then ends.\<close>

definition read_packet :: "bytes \<Rightarrow> sftp_error + bytes \<times> bytes" where
  "read_packet stream =
     (if length stream < 4 then Inl UnexpectedEof
      else
        let n = be_decode (take 4 stream); rest = drop 4 stream in
        if length rest < n then Inl UnexpectedEof
        else Inr (take n rest, drop n rest))"

section \<open>Wire form\<close>

fun packet_type :: "packet \<Rightarrow> byte" where
  "packet_type p = fst (packet_parts p)"

definition wire_file :: "sftp_file \<Rightarrow> bytes" where
  "wire_file f = wire_string (file_name f) @ wire_string (file_longname f) @ wire_attrs (file_attrs f)"

definition wire_vec :: "('a \<Rightarrow> bytes) \<Rightarrow> 'a list \<Rightarrow> bytes" where
  "wire_vec enc xs = be32 (word_of_nat (length xs)) @ concat (map enc xs)"

fun wire_payload :: "packet \<Rightarrow> bytes" where
  "wire_payload (Init v ext) = be32 v @ wire_map ext"
| "wire_payload (Version v ext) = be32 v @ wire_map ext"
| "wire_payload (Open i f fl a) = be32 i @ wire_string f @ be32 fl @ wire_attrs a"
| "wire_payload (Read i h off n) = be32 i @ wire_string h @ be64 off @ be32 n"
| "wire_payload (Write i h off d) = be32 i @ wire_string h @ be64 off @ wire_vec (\<lambda>b. [b]) d"
| "wire_payload (SetStat i p a) = be32 i @ wire_string p @ wire_attrs a"
| "wire_payload (FSetStat i p a) = be32 i @ wire_string p @ wire_attrs a"
| "wire_payload (MkDir i p a) = be32 i @ wire_string p @ wire_attrs a"
| "wire_payload (Rename i x y) = be32 i @ wire_string x @ wire_string y"
| "wire_payload (Symlink i x y) = be32 i @ wire_string x @ wire_string y"
| "wire_payload (Status i c x y) = be32 i @ be32 (status_index c) @ wire_string x @ wire_string y"
| "wire_payload (Data i d) = be32 i @ be32 (word_of_nat (length d)) @ d"
| "wire_payload (Name i fs) = be32 i @ wire_vec wire_file fs"
| "wire_payload (Attrs i a) = be32 i @ wire_attrs a"
| "wire_payload (Extended i r d) = be32 i @ wire_string r @ d"
| "wire_payload (ExtendedReply i d) = be32 i @ d"
| "wire_payload (Close i s) = be32 i @ wire_string s"
| "wire_payload (Lstat i s) = be32 i @ wire_string s"
| "wire_payload (Fstat i s) = be32 i @ wire_string s"
| "wire_payload (OpenDir i s) = be32 i @ wire_string s"
| "wire_payload (ReadDir i s) = be32 i @ wire_string s"
| "wire_payload (Remove i s) = be32 i @ wire_string s"
| "wire_payload (RmDir i s) = be32 i @ wire_string s"
| "wire_payload (RealPath i s) = be32 i @ wire_string s"
| "wire_payload (Stat i s) = be32 i @ wire_string s"
| "wire_payload (ReadLink i s) = be32 i @ wire_string s"
| "wire_payload (Handle i s) = be32 i @ wire_string s"

declare packet_type.simps [simp del]

end
