(* ===== verification/Sftp_Wire.thy ===== *)
theory Sftp_Wire
  imports Sftp_Packet
begin

text \<open>
  Correctness of the packet codec: the encoder never fails and writes the wire form of
  \<open>Sftp_Packet\<close>; decoding what was encoded gives the packet back up to the attributes that the
  wire does not carry; framed packets can be read one after another off a stream; and the
  hand-written path of data packets agrees with the serializer.
\<close>

section \<open>The encoder writes the wire form\<close>

lemma to_bytes_SStruct_Nil [simp]: "to_bytes (SStruct []) = Inr []"
  by (simp add: to_bytes_def)

lemma to_bytes_SStruct_Cons [simp]:
  "to_bytes (SStruct (v # vs)) =
     result_bind (to_bytes v) (\<lambda>b. result_bind (to_bytes (SStruct vs)) (\<lambda>bs. Inr (b @ bs)))"
proof (cases "to_bytes v")
  case (Inl e)
  then show ?thesis by (simp add: to_bytes_def)
next
  case (Inr b)
  then have "to_bytes (SStruct (v # vs)) = serialize_elements vs b"
    by (simp add: to_bytes_def)
  also have "\<dots> = append_result b (to_bytes (SStruct vs))"
    by (simp add: to_bytes_def serialize_elements_to_bytes [of vs b])
  finally show ?thesis
    by (cases "to_bytes (SStruct vs)") (simp_all add: Inr)
qed

lemma to_bytes_ser_map [simp]: "to_bytes (ser_map m) = Inr (wire_map m)"
proof -
  have "list_all2 (\<lambda>(k, v) (kb, vb). to_bytes k = Inr kb \<and> to_bytes v = Inr vb)
      (map (\<lambda>(k, v). (SStr k, SStr v)) m) (map (\<lambda>(k, v). (wire_string k, wire_string v)) m)"
    by (rule list_all2_mapI) auto
  from to_bytes_SMap [OF this, of "Some (length m)"] show ?thesis
    by (simp add: ser_map_def wire_map_def comp_def case_prod_unfold)
qed

lemma to_bytes_seq_map:
  assumes "\<And>x. x \<in> set xs \<Longrightarrow> to_bytes (f x) = Inr (enc x)"
  shows "to_bytes (SSeq (Some (length xs)) (map f xs)) = Inr (wire_vec enc xs)"
proof -
  have "list_all2 (\<lambda>v bs. to_bytes v = Inr bs) (map f xs) (map enc xs)"
    by (rule list_all2_mapI) (rule assms)
  from to_bytes_SSeq [OF this] show ?thesis by (simp add: wire_vec_def)
qed

lemma to_bytes_ser_byte_vec [simp]:
  "to_bytes (ser_byte_vec d) = Inr (wire_vec (\<lambda>b. [b]) d)"
  unfolding ser_byte_vec_def by (rule to_bytes_seq_map) simp

lemma to_bytes_ser_file [simp]: "to_bytes (ser_file f) = Inr (wire_file f)"
  by (simp add: ser_file_def to_bytes_ser_attrs wire_file_def)

lemma to_bytes_ser_files [simp]: "to_bytes (ser_files fs) = Inr (wire_vec wire_file fs)"
  unfolding ser_files_def by (rule to_bytes_seq_map) simp

lemma packet_parts_wire: "packet_parts p = (packet_type p, Inr (wire_payload p))"
  by (cases p)
    (simp_all add: packet_type.simps to_bytes_ser_attrs to_bytes_data_serialize data_payload_def
      put_defs)

lemma encode_packet_eq:
  "encode_packet p =
     Inr (be32 (word_of_nat (length (wire_payload p)) + 1) @ packet_type p # wire_payload p)"
  by (simp add: encode_packet_def packet_parts_wire put_defs Let_def)

section \<open>Field codecs\<close>

definition file_ok :: "sftp_file \<Rightarrow> bool" where
  "file_ok f \<longleftrightarrow> wire_string_ok (file_name f) \<and> wire_string_ok (file_longname f)"

definition canon_file :: "sftp_file \<Rightarrow> sftp_file" where
  "canon_file f = f\<lparr>file_attrs := canon_attrs (file_attrs f)\<rparr>"

interpretation sfile: codec wire_file de_file canon_file file_ok
proof unfold_locales
  fix f rest
  assume "file_ok f"
  then show "de_file (wire_file f @ rest) = Inr (canon_file f, rest)"
    by (simp add: de_file_def de_struct3_eq wire_file_def file_ok_def str.roundtrip
        attrs.roundtrip canon_file_def)
qed

text \<open>A counted vector of any codec is a codec.\<close>

lemma de_vec_codec:
  assumes "codec enc dec canon ok"
  shows "codec (wire_vec enc) (de_vec dec) (map canon) (\<lambda>xs. wire_vec_ok xs \<and> (\<forall>x \<in> set xs. ok x))"
proof
  fix xs rest
  assume "wire_vec_ok xs \<and> (\<forall>x \<in> set xs. ok x)"
  with codec.visit_vec_roundtrip [OF assms, of xs rest]
  show "de_vec dec (wire_vec enc xs @ rest) = Inr (map canon xs, rest)"
    by (simp add: de_vec_def wire_vec_def u32.roundtrip unat_of_nat32 wire_vec_ok_def)
qed

interpretation files: codec "wire_vec wire_file" "de_vec de_file" "map canon_file"
    "\<lambda>fs. wire_vec_ok fs \<and> (\<forall>f \<in> set fs. file_ok f)"
  by (rule de_vec_codec) (rule sfile.codec_axioms)

interpretation byte_vec: codec "wire_vec (\<lambda>b. [b])" "de_vec de_u8" "map (\<lambda>b. b)"
    "\<lambda>bs. wire_vec_ok bs \<and> (\<forall>b \<in> set bs. True)"
  by (rule de_vec_codec) (rule u8.codec_axioms)

interpretation status_code: exact_codec "\<lambda>c. be32 (status_index c)" de_status_code "\<lambda>_. True"
proof unfold_locales
  fix c rest
  show "de_status_code (be32 (status_index c) @ rest) = Inr (c, rest)"
    by (cases c) (simp_all add: de_status_code_def de_enum_def u32.roundtrip status_codes_def)
qed

section \<open>Decoding an encoded packet\<close>

fun canon_packet :: "packet \<Rightarrow> packet" where
  "canon_packet (Open i f fl a) = Open i f fl (canon_attrs a)"
| "canon_packet (SetStat i p a) = SetStat i p (canon_attrs a)"
| "canon_packet (FSetStat i h a) = FSetStat i h (canon_attrs a)"
| "canon_packet (MkDir i p a) = MkDir i p (canon_attrs a)"
| "canon_packet (Name i fs) = Name i (map canon_file fs)"
| "canon_packet (Attrs i a) = Attrs i (canon_attrs a)"
| "canon_packet p = p"

text \<open>The packets that the wire can carry: strings well formed and lengths within 32 bits.\<close>

fun packet_ok :: "packet \<Rightarrow> bool" where
  "packet_ok (Init v ext) = wire_map_ok ext"
| "packet_ok (Version v ext) = wire_map_ok ext"
| "packet_ok (Open i f fl a) = wire_string_ok f"
| "packet_ok (Read i h off n) = wire_string_ok h"
| "packet_ok (Write i h off d) = (wire_string_ok h \<and> wire_vec_ok d)"
| "packet_ok (SetStat i p a) = wire_string_ok p"
| "packet_ok (FSetStat i p a) = wire_string_ok p"
| "packet_ok (MkDir i p a) = wire_string_ok p"
| "packet_ok (Rename i x y) = (wire_string_ok x \<and> wire_string_ok y)"
| "packet_ok (Symlink i x y) = (wire_string_ok x \<and> wire_string_ok y)"
| "packet_ok (Status i c x y) = (wire_string_ok x \<and> wire_string_ok y)"
| "packet_ok (Data i d) = wire_vec_ok d"
| "packet_ok (Name i fs) = (wire_vec_ok fs \<and> (\<forall>f \<in> set fs. file_ok f))"
| "packet_ok (Attrs i a) = True"
| "packet_ok (Extended i r d) = wire_string_ok r"
| "packet_ok (ExtendedReply i d) = True"
| "packet_ok (Close i s) = wire_string_ok s"
| "packet_ok (Lstat i s) = wire_string_ok s"
| "packet_ok (Fstat i s) = wire_string_ok s"
| "packet_ok (OpenDir i s) = wire_string_ok s"
| "packet_ok (ReadDir i s) = wire_string_ok s"
| "packet_ok (Remove i s) = wire_string_ok s"
| "packet_ok (RmDir i s) = wire_string_ok s"
| "packet_ok (RealPath i s) = wire_string_ok s"
| "packet_ok (Stat i s) = wire_string_ok s"
| "packet_ok (ReadLink i s) = wire_string_ok s"
| "packet_ok (Handle i s) = wire_string_ok s"

lemmas field_roundtrips = u32.roundtrip u64.roundtrip str.roundtrip attrs.roundtrip
  files.roundtrip byte_vec.roundtrip status_code.roundtrip
  u32.roundtrip_end u64.roundtrip_end str.roundtrip_end attrs.roundtrip_end
  files.roundtrip_end byte_vec.roundtrip_end de_map_wire data_deserialize_eq

lemmas de_packet_defs = de_id_string_def de_id_string_attrs_def de_id_string2_def de_data_def
  de_struct_eqs

lemma packet_type_eqs [simp]:
  "packet_type (Init v ext) = SSH_FXP_INIT" "packet_type (Version v ext) = SSH_FXP_VERSION"
  "packet_type (Open i f fl a) = SSH_FXP_OPEN" "packet_type (Close i s) = SSH_FXP_CLOSE"
  "packet_type (Read i s off n) = SSH_FXP_READ" "packet_type (Write i s off d) = SSH_FXP_WRITE"
  "packet_type (Lstat i s) = SSH_FXP_LSTAT" "packet_type (Fstat i s) = SSH_FXP_FSTAT"
  "packet_type (SetStat i s a) = SSH_FXP_SETSTAT" "packet_type (FSetStat i s a) = SSH_FXP_FSETSTAT"
  "packet_type (OpenDir i s) = SSH_FXP_OPENDIR" "packet_type (ReadDir i s) = SSH_FXP_READDIR"
  "packet_type (Remove i s) = SSH_FXP_REMOVE" "packet_type (MkDir i s a) = SSH_FXP_MKDIR"
  "packet_type (RmDir i s) = SSH_FXP_RMDIR" "packet_type (RealPath i s) = SSH_FXP_REALPATH"
  "packet_type (Stat i s) = SSH_FXP_STAT" "packet_type (Rename i s t) = SSH_FXP_RENAME"
  "packet_type (ReadLink i s) = SSH_FXP_READLINK" "packet_type (Symlink i s t) = SSH_FXP_SYMLINK"
  "packet_type (Status i c s t) = SSH_FXP_STATUS" "packet_type (Handle i s) = SSH_FXP_HANDLE"
  "packet_type (Data i d) = SSH_FXP_DATA" "packet_type (Name i fs) = SSH_FXP_NAME"
  "packet_type (Attrs i a) = SSH_FXP_ATTRS" "packet_type (Extended i s d) = SSH_FXP_EXTENDED"
  "packet_type (ExtendedReply i d) = SSH_FXP_EXTENDED_REPLY"
  by (simp_all add: packet_type.simps)

lemma decode_body_wire:
  assumes "packet_ok p"
  shows "decode_body (packet_type p) (wire_payload p) = Inr (canon_packet p, [])"
  using assms
  by (cases p)
    (simp_all add: decode_body_def fxp_defs de_packet_defs field_roundtrips unat_of_nat32
      wire_vec_ok_def)

lemma decode_packet_wire:
  "packet_ok p \<Longrightarrow> decode_packet (packet_type p # wire_payload p) = Inr (canon_packet p, [])"
  using u8.roundtrip [of "packet_type p" "wire_payload p"]
  by (simp add: decode_packet_def decode_body_wire)

section \<open>Framing\<close>

text \<open>The bytes of a packet after its length prefix fit the 32-bit length.\<close>

definition frame_ok :: "packet \<Rightarrow> bool" where
  "frame_ok p \<longleftrightarrow> length (wire_payload p) + 1 < 2 ^ 32"

lemma read_packet_frame:
  assumes "length body < 2 ^ 32"
  shows "read_packet (be32 (word_of_nat (length body)) @ body @ rest) = Inr (body, rest)"
  using assms by (simp add: read_packet_def Let_def unat_of_nat32)

lemma read_encoded_packet:
  assumes "frame_ok p" and "encode_packet p = Inr bs"
  shows "read_packet (bs @ rest) = Inr (packet_type p # wire_payload p, rest)"
proof -
  have "word_of_nat (length (wire_payload p)) + (1 :: u32)
      = word_of_nat (length (packet_type p # wire_payload p))"
    by simp
  moreover have "length (packet_type p # wire_payload p) < 2 ^ 32"
    using assms(1) by (simp add: frame_ok_def)
  ultimately show ?thesis
    using read_packet_frame [of "packet_type p # wire_payload p" rest] assms(2)
    by (auto simp: encode_packet_eq add.commute)
qed

text \<open>Reading packets off a stream until it ends, as the session loops do.\<close>

definition read_and_decode :: "bytes \<Rightarrow> sftp_error + packet \<times> bytes" where
  "read_and_decode stream =
     result_bind (read_packet stream) (\<lambda>(body, rest).
     result_bind (decode_packet body) (\<lambda>(p, _). Inr (p, rest)))"

fun read_all :: "nat \<Rightarrow> bytes \<Rightarrow> sftp_error + packet list" where
  "read_all 0 stream = Inr []"
| "read_all (Suc n) stream =
     result_bind (read_and_decode stream) (\<lambda>(p, rest).
     result_bind (read_all n rest) (\<lambda>ps. Inr (p # ps)))"

fun encode_all :: "packet list \<Rightarrow> sftp_error + bytes" where
  "encode_all [] = Inr []"
| "encode_all (p # ps) =
     result_bind (encode_packet p) (\<lambda>b. result_bind (encode_all ps) (\<lambda>bs. Inr (b @ bs)))"

lemma read_and_decode_encoded:
  assumes "packet_ok p" and "frame_ok p" and "encode_packet p = Inr bs"
  shows "read_and_decode (bs @ rest) = Inr (canon_packet p, rest)"
  by (simp add: read_and_decode_def read_encoded_packet [OF assms(2,3)]
      decode_packet_wire [OF assms(1)])

lemma read_all_encoded:
  assumes "\<And>p. p \<in> set ps \<Longrightarrow> packet_ok p \<and> frame_ok p" and "encode_all ps = Inr bs"
  shows "read_all (length ps) (bs @ rest) = Inr (map canon_packet ps)"
  using assms
proof (induction ps arbitrary: bs)
  case (Cons p ps)
  obtain b where b: "encode_packet p = Inr b" by (simp add: encode_packet_eq)
  with Cons.prems obtain bs' where bs': "encode_all ps = Inr bs'" "bs = b @ bs'"
    by (auto simp: result_bind_eq_Inr)
  have "read_and_decode (b @ (bs' @ rest)) = Inr (canon_packet p, bs' @ rest)"
    using Cons.prems(1) b by (intro read_and_decode_encoded) auto
  with Cons bs' show ?case by simp
qed simp

section \<open>What the wire keeps\<close>

lemma canon_packet_request_id [simp]: "get_request_id (canon_packet p) = get_request_id p"
  by (cases p) simp_all

lemma canon_file_idem [simp]: "canon_file (canon_file f) = canon_file f"
  by (simp add: canon_file_def)

lemma canon_packet_idem: "canon_packet (canon_packet p) = canon_packet p"
  by (cases p) simp_all

lemma encode_packet_inject:
  assumes "packet_ok p" and "packet_ok q" and "encode_packet p = encode_packet q"
  shows "canon_packet p = canon_packet q"
proof -
  from assms(3)
  have "packet_type p # wire_payload p = packet_type q # wire_payload q"
    by (simp add: encode_packet_eq append_eq_append_conv)
  with decode_packet_wire [OF assms(1)] decode_packet_wire [OF assms(2)] show ?thesis by simp
qed

section \<open>The fast path of data packets\<close>

lemma visit_vec_u8_eq:
  "n \<le> length input \<Longrightarrow> visit_vec de_u8 n input = Inr (take n input, drop n input)"
  using visit_vec_u8 [of "take n input" "drop n input"] by (simp add: min_absorb2)

lemma de_u8_Nil: "de_u8 [] = Inl (error_of_try_get 1 0)"
  by (simp add: de_u8_def de_uint_def try_get_uint_def)

lemma visit_vec_u8_short:
  "length input < n \<Longrightarrow> visit_vec de_u8 n input = Inl (error_of_try_get 1 0)"
proof (induction n arbitrary: input)
  case (Suc n)
  show ?case
  proof (cases input)
    case Nil
    then show ?thesis by (simp add: de_u8_Nil)
  next
    case (Cons b bs)
    with Suc show ?thesis using u8.roundtrip [of b bs] by simp
  qed
qed simp

lemma de_data_serde:
  "de_data input = Inr r \<longleftrightarrow> de_struct2 Data de_u32 (de_vec de_u8) input = Inr r"
  by (auto simp: de_data_def de_struct2_eq de_vec_def result_bind_eq_Inr visit_vec_u8_eq
      visit_vec_u8_short not_less split: if_splits)
    (metis not_less visit_vec_u8_eq visit_vec_u8_short Inl_Inr_False sum.inject(2) prod.inject)+


section \<open>Properties\<close>

text \<open>C26: Any sequence of packets whose strings are well formed and whose lengths fit the wire,
  encoded one after another, is read back from the stream packet by packet, whatever bytes
  follow: the framing never loses step and every field survives, up to the attribute parts
  the protocol does not carry.\<close>

theorem packet_stream_roundtrip:
  assumes "\<forall>p \<in> set ps. packet_ok p \<and> frame_ok p" and "encode_all ps = Inr bs"
  shows "read_all (length ps) (bs @ rest) = Inr (map canon_packet ps)"
  using assms by (intro read_all_encoded) auto

definition example_packets :: "packet list" where
  "example_packets =
     [Version 3 [([0x61], [0x31])],
      Open 7 [0x2F, 0x61] 1 (empty_attrs\<lparr>fa_uid := Some 5, fa_permissions := Some 0x81A4\<rparr>),
      Data 8 [1, 2, 3]]"

theorem packet_stream_roundtrip_witness:
  "\<exists>bs. encode_all example_packets = Inr bs \<and>
     read_all 3 (bs @ [0xFF]) = Inr (map canon_packet example_packets)"
proof -
  obtain bs where bs: "encode_all example_packets = Inr bs"
    by (simp add: example_packets_def encode_packet_eq)
  have "\<forall>p \<in> set example_packets. packet_ok p \<and> frame_ok p"
    by (simp add: example_packets_def wire_map_ok_def wire_string_ok_def valid_utf8_ascii
        wire_vec_ok_def frame_ok_def wire_map_def wire_string_def wire_attrs_def empty_attrs_def)
  from packet_stream_roundtrip [OF this bs, of "[0xFF]"]
  have "read_all 3 (bs @ [0xFF]) = Inr (map canon_packet example_packets)"
    by (simp only: example_packets_def list.size numeral_3_eq_3 One_nat_def add_0 add_Suc)
  with bs show ?thesis by blast
qed

text \<open> Encoding never fails; the frame is a 32-bit length, the packet's type byte and its
  body, and the length counts exactly the bytes after it as long as they fit 32 bits.\<close>

lemma encode_packet_frame:
  "\<exists>body. encode_packet p = Inr (be32 (word_of_nat (length body)) @ body)
     \<and> hd body = fst (packet_parts p)
     \<and> (frame_ok p \<longrightarrow> be_decode (be32 (word_of_nat (length body))) = length body)"
proof (intro exI conjI impI)
  let ?body = "packet_type p # wire_payload p"
  show "encode_packet p = Inr (be32 (word_of_nat (length ?body)) @ ?body)"
    by (simp add: encode_packet_eq add.commute)
  show "hd ?body = fst (packet_parts p)" by (simp add: packet_type.simps)
  assume "frame_ok p"
  then show "be_decode (be32 (word_of_nat (length ?body))) = length ?body"
    by (simp only: be_decode_be32 unat_of_nat32 frame_ok_def list.size Suc_eq_plus1)
qed

lemma encode_packet_frame_witness:
  "\<exists>body. encode_packet (Close 1 []) = Inr (be32 (word_of_nat (length body)) @ body)
     \<and> be_decode (be32 (word_of_nat (length body))) = length body"
  using encode_packet_frame [of "Close 1 []"] by (auto simp: frame_ok_def wire_string_def)

text \<open>
  Two packets with the same encoding are the same packet, up to the attribute parts the
  wire does not carry.\<close>

lemma packet_encoding_injective:
  assumes "packet_ok p" and "packet_ok q" and "encode_packet p = encode_packet q"
  shows "canon_packet p = canon_packet q"
  using assms by (rule encode_packet_inject)

lemma packet_encoding_injective_witness:
  "canon_packet (Attrs 3 default_attrs) = canon_packet (Attrs 3 (default_attrs\<lparr>fa_user := Some []\<rparr>))"
proof -
  have "encode_packet (Attrs 3 default_attrs)
      = encode_packet (Attrs 3 (default_attrs\<lparr>fa_user := Some []\<rparr>))"
    by (simp add: encode_packet_eq wire_attrs_def attr_flags_def default_attrs_def)
  then show ?thesis by (intro packet_encoding_injective) simp_all
qed

text \<open> The hand-written path for data packets agrees with the serializer: it writes the same
  bytes as the derived serialization of an id and a byte vector, and accepts the same inputs
  with the same result as the derived deserialization.\<close>

lemma data_fast_path_equivalent:
  "packet_parts (Data i d) = (SSH_FXP_DATA, to_bytes (SStruct [SU32 i, ser_byte_vec d]))
   \<and> (de_data input = Inr r \<longleftrightarrow> de_struct2 Data de_u32 (de_vec de_u8) input = Inr r)"
proof -
  have "concat (map (\<lambda>b. [b]) d) = d" by (induction d) auto
  then have "data_payload i d = be32 i @ wire_vec (\<lambda>b. [b]) d"
    by (simp add: data_payload_def put_defs wire_vec_def)
  then show ?thesis using de_data_serde by simp
qed

end
