(* ===== verification/Escape.thy ===== *)
theory Escape
  imports Prelude "HOL-Library.Multiset"
begin

text \<open>
  The escape-sequence detectors of an interactive session (\<open>src/ssh/snippet.rs\<close>): the
  \<open>EscapeDetector\<close> with its paste-flood guard, and the \<open>SessionEscapeHandler\<close> that chains the
  snippet, bookmark and browser detectors behind a tracker of terminal escape sequences.
  Instants are nanoseconds on the monotonic clock. The lemmas account for every byte that is
  typed: it is forwarded, still held back, or part of a recognised trigger.
\<close>

section \<open>The escape detector\<close>

datatype escape_action = Forward bytes | Buffer | Trigger

datatype escape_state = Normal | Matching nat

record escape_detector =
  ed_state :: escape_state
  ed_trigger :: bytes
  ed_buffered :: bytes
  ed_last :: "nat option"

definition PASTE_THRESHOLD_MS :: nat where "PASTE_THRESHOLD_MS = 20"

text \<open>\<open>now.duration_since(prev).as_millis()\<close>; the difference saturates at zero.\<close>

definition elapsed_ms :: "nat \<Rightarrow> nat \<Rightarrow> nat" where
  "elapsed_ms now prev = (now - prev) div 1000000"

definition detector_new :: "bytes \<Rightarrow> escape_detector" where
  "detector_new trigger =
     \<lparr>ed_state = Normal, ed_trigger = trigger, ed_buffered = [], ed_last = None\<rparr>"

definition too_fast :: "nat \<Rightarrow> escape_detector \<Rightarrow> bool" where
  "too_fast now d =
     (case ed_last d of
        None \<Rightarrow> False
      | Some prev \<Rightarrow> elapsed_ms now prev < PASTE_THRESHOLD_MS)"

definition detector_flush :: "byte \<Rightarrow> escape_detector \<Rightarrow> escape_action \<times> escape_detector" where
  "detector_flush b d =
     (Forward (ed_buffered d @ [b]),
      d\<lparr>ed_buffered := [], ed_state := Normal, ed_last := None\<rparr>)"

definition detector_reset :: "escape_detector \<Rightarrow> escape_detector" where
  "detector_reset d = d\<lparr>ed_state := Normal, ed_buffered := [], ed_last := None\<rparr>"

definition feed_with_time ::
  "byte \<Rightarrow> nat \<Rightarrow> escape_detector \<Rightarrow> escape_action \<times> escape_detector" where
  "feed_with_time b now d =
     (if ed_trigger d = [] then (Forward [b], d)
      else
        case ed_state d of
          Normal \<Rightarrow>
            if b = ed_trigger d ! 0 then
              (let d1 = d\<lparr>ed_state := Matching 1, ed_buffered := ed_buffered d @ [b],
                          ed_last := Some now\<rparr>
               in if length (ed_trigger d) = 1 then (Trigger, detector_reset d1)
                  else (Buffer, d1))
            else (Forward [b], d)
        | Matching n \<Rightarrow>
            if b = ed_trigger d ! n then
              if too_fast now d then detector_flush b d
              else
                (let d1 = d\<lparr>ed_buffered := ed_buffered d @ [b], ed_last := Some now\<rparr>
                 in if n + 1 = length (ed_trigger d) then (Trigger, detector_reset d1)
                    else (Buffer, d1\<lparr>ed_state := Matching (n + 1)\<rparr>))
            else detector_flush b d)"

text \<open>
  \<open>feed_untimed\<close> clears the last time and reads the clock itself; that reading is the
  argument \<open>clk\<close>.
\<close>

definition feed_untimed ::
  "byte \<Rightarrow> nat \<Rightarrow> escape_detector \<Rightarrow> escape_action \<times> escape_detector" where
  "feed_untimed b clk d = feed_with_time b clk (d\<lparr>ed_last := None\<rparr>)"

section \<open>The detector invariant\<close>

text \<open>
  The held bytes are the matched part of the trigger, and a partial match is shorter than
  the trigger, so \<open>trigger[n]\<close> is in range.
\<close>

definition ed_inv :: "escape_detector \<Rightarrow> bool" where
  "ed_inv d \<longleftrightarrow>
     (case ed_state d of
        Normal \<Rightarrow> ed_buffered d = [] \<and> ed_last d = None
      | Matching n \<Rightarrow> 0 < n \<and> n < length (ed_trigger d) \<and> ed_buffered d = take n (ed_trigger d))"

lemma ed_inv_new [simp]: "ed_inv (detector_new t)"
  by (simp add: ed_inv_def detector_new_def)

lemma ed_inv_clear_last [simp]: "ed_inv d \<Longrightarrow> ed_inv (d\<lparr>ed_last := None\<rparr>)"
  by (simp add: ed_inv_def split: escape_state.splits)

lemma take_Suc_snoc: "n < length xs \<Longrightarrow> xs ! n = x \<Longrightarrow> take n xs @ [x] = take (Suc n) xs"
  by (simp add: take_Suc_conv_app_nth)

text \<open>One step of the detector: the four things that can happen.\<close>

lemma feed_cases:
  assumes "ed_inv d" and "feed_with_time b now d = (a, d')"
  shows "ed_inv d' \<and> ed_trigger d' = ed_trigger d \<and>
    ((a = Forward (ed_buffered d @ [b]) \<and> ed_buffered d' = [] \<and> ed_state d' = Normal)
     \<or> (a = Buffer \<and> ed_buffered d' = ed_buffered d @ [b] \<and> ed_last d' = Some now
        \<and> ed_state d' = Matching (length (ed_buffered d')))
     \<or> (a = Trigger \<and> ed_buffered d' = [] \<and> ed_state d' = Normal
        \<and> ed_buffered d @ [b] = ed_trigger d))"
proof (cases "ed_trigger d = []")
  case True
  with assms show ?thesis
    by (auto simp: feed_with_time_def ed_inv_def split: escape_state.splits)
next
  case False
  then have pos: "0 < length (ed_trigger d)" by simp
  show ?thesis
  proof (cases "ed_state d")
    case Normal
    then have buf: "ed_buffered d = []" and last: "ed_last d = None"
      using assms(1) by (simp_all add: ed_inv_def)
    have one: "take 1 (ed_trigger d) = [ed_trigger d ! 0]"
      using take_Suc_snoc [of 0 "ed_trigger d"] False by simp
    show ?thesis
      using assms(2) False Normal buf last one pos
      by (auto simp: feed_with_time_def ed_inv_def detector_reset_def Let_def Suc_lessI
          split: if_splits)
  next
    case (Matching n)
    then have n: "0 < n" "n < length (ed_trigger d)"
      and buf: "ed_buffered d = take n (ed_trigger d)"
      using assms(1) by (simp_all add: ed_inv_def)
    have snoc: "take n (ed_trigger d) @ [ed_trigger d ! n] = take (Suc n) (ed_trigger d)"
      using n by (simp add: take_Suc_snoc)
    show ?thesis
      using assms(2) False Matching n buf snoc
      by (auto simp: feed_with_time_def ed_inv_def detector_flush_def detector_reset_def Let_def
          split: if_splits)
  qed
qed

lemma feed_inv [inv_intros]: "ed_inv d \<Longrightarrow> feed_with_time b now d = (a, d') \<Longrightarrow> ed_inv d'"
  using feed_cases by blast

lemma feed_trigger: "ed_inv d \<Longrightarrow> feed_with_time b now d = (a, d') \<Longrightarrow> ed_trigger d' = ed_trigger d"
  using feed_cases by blast

text \<open>The bytes an action accounts for.\<close>

definition action_bytes :: "bytes \<Rightarrow> escape_action \<Rightarrow> bytes" where
  "action_bytes trigger a =
     (case a of Forward bs \<Rightarrow> bs | Buffer \<Rightarrow> [] | Trigger \<Rightarrow> trigger)"

lemma action_bytes_simps [simp]:
  "action_bytes t (Forward bs) = bs" "action_bytes t Buffer = []" "action_bytes t Trigger = t"
  by (simp_all add: action_bytes_def)

lemma feed_accounts:
  "ed_inv d \<Longrightarrow> feed_with_time b now d = (a, d') \<Longrightarrow>
   action_bytes (ed_trigger d) a @ ed_buffered d' = ed_buffered d @ [b]"
  using feed_cases [of d b now a d'] by auto

fun detector_run ::
  "(byte \<times> nat) list \<Rightarrow> escape_detector \<Rightarrow> escape_action list \<times> escape_detector" where
  "detector_run [] d = ([], d)"
| "detector_run ((b, now) # xs) d =
     (case feed_with_time b now d of (a, d1) \<Rightarrow>
        case detector_run xs d1 of (as, d2) \<Rightarrow> (a # as, d2))"

lemma detector_run_accounts:
  "ed_inv d \<Longrightarrow> detector_run xs d = (as, d') \<Longrightarrow>
   concat (map (action_bytes (ed_trigger d)) as) @ ed_buffered d' = ed_buffered d @ map fst xs"
proof (induction xs arbitrary: d as)
  case (Cons x xs)
  obtain b now where x: "x = (b, now)" by (cases x)
  obtain a d1 where f: "feed_with_time b now d = (a, d1)" by (cases "feed_with_time b now d")
  obtain as1 where r: "detector_run xs d1 = (as1, d')" and as: "as = a # as1"
    using Cons.prems(2) f by (auto simp: x split: prod.splits)
  have inv: "ed_inv d1" "ed_trigger d1 = ed_trigger d"
    using feed_cases [OF Cons.prems(1) f] by auto
  have "concat (map (action_bytes (ed_trigger d)) as1) @ ed_buffered d' = ed_buffered d1 @ map fst xs"
    using Cons.IH [OF inv(1) r] inv(2) by simp
  then show ?case
    using feed_accounts [OF Cons.prems(1) f] by (simp add: as x)
qed simp

lemma detector_run_inv: "ed_inv d \<Longrightarrow> detector_run xs d = (as, d') \<Longrightarrow> ed_inv d' \<and> ed_trigger d' = ed_trigger d"
proof (induction xs arbitrary: d as)
  case (Cons x xs)
  then show ?case
    by (cases x) (auto split: prod.splits, (metis feed_inv feed_trigger)+)
qed simp

lemma detector_run_append:
  "detector_run (xs @ ys) d =
     (case detector_run xs d of (as, d1) \<Rightarrow> case detector_run ys d1 of (bs, d2) \<Rightarrow> (as @ bs, d2))"
  by (induction xs arbitrary: d) (auto split: prod.splits)

section \<open>The paste-flood guard\<close>

definition spaced :: "nat list \<Rightarrow> bool" where
  "spaced ts \<longleftrightarrow> successively (\<lambda>s t. PASTE_THRESHOLD_MS \<le> elapsed_ms t s) ts"

text \<open>
  What a partial match knows about the past: the matched bytes are the most recent input
  and each came at least the threshold after the one before.
\<close>

definition matched_suffix :: "(byte \<times> nat) list \<Rightarrow> bytes \<Rightarrow> nat option \<Rightarrow> bool" where
  "matched_suffix hist bs last_time \<longleftrightarrow>
     (\<exists>ys zs. hist = ys @ zs \<and> map fst zs = bs \<and> spaced (map snd zs)
        \<and> (zs \<noteq> [] \<longrightarrow> last_time = Some (snd (last zs))))"

lemma matched_suffix_Nil [simp]: "matched_suffix hist [] t"
  by (auto simp: matched_suffix_def spaced_def)

lemma matched_suffixI:
  "map fst zs = bs \<Longrightarrow> spaced (map snd zs) \<Longrightarrow> (zs \<noteq> [] \<Longrightarrow> t = Some (snd (last zs))) \<Longrightarrow>
   matched_suffix (ys @ zs) bs t"
  by (auto simp: matched_suffix_def)

lemma matched_suffix_snoc:
  assumes "matched_suffix hist bs (Some t)" and "bs \<noteq> []" and "PASTE_THRESHOLD_MS \<le> elapsed_ms now t"
  shows "matched_suffix (hist @ [(b, now)]) (bs @ [b]) (Some now)"
proof -
  from assms(1,2) obtain ys zs where h: "hist = ys @ zs" "map fst zs = bs" "spaced (map snd zs)"
    "t = snd (last zs)" "zs \<noteq> []"
    by (auto simp: matched_suffix_def)
  have "spaced (map snd (zs @ [(b, now)]))"
    using h assms(3) by (auto simp: spaced_def successively_append_iff last_map)
  with h matched_suffixI [of "zs @ [(b, now)]" "bs @ [b]" "Some now" ys] show ?thesis by simp
qed

lemma matched_suffix_single: "matched_suffix (hist @ [(b, now)]) [b] (Some now)"
  by (rule matched_suffixI) (simp_all add: spaced_def)

lemma feed_matched:
  assumes "ed_inv d" and "matched_suffix hist (ed_buffered d) (ed_last d)"
    and "ed_state d \<noteq> Normal \<longrightarrow> ed_last d \<noteq> None"
    and "feed_with_time b now d = (a, d')"
  shows "matched_suffix (hist @ [(b, now)]) (ed_buffered d') (ed_last d')
    \<and> (ed_state d' \<noteq> Normal \<longrightarrow> ed_last d' \<noteq> None)
    \<and> (a = Trigger \<longrightarrow> (\<exists>t. matched_suffix (hist @ [(b, now)]) (ed_trigger d) t))"
proof -
  have ext: "matched_suffix (hist @ [(b, now)]) (ed_buffered d @ [b]) (Some now)"
    if "a \<noteq> Forward (ed_buffered d @ [b])"
  proof (cases "ed_state d")
    case Normal
    then show ?thesis using assms(1) by (simp add: ed_inv_def matched_suffix_single)
  next
    case (Matching n)
    with assms(1) have ne: "ed_buffered d \<noteq> []" "ed_trigger d \<noteq> []"
      by (auto simp: ed_inv_def)
    obtain t where t: "ed_last d = Some t" using assms(3) Matching by auto
    have "\<not> too_fast now d"
      using assms(4) that Matching ne(2)
      by (auto simp: feed_with_time_def detector_flush_def split: if_splits)
    with t have "PASTE_THRESHOLD_MS \<le> elapsed_ms now t" by (simp add: too_fast_def)
    with assms(2) t ne(1) show ?thesis by (simp add: matched_suffix_snoc)
  qed
  show ?thesis
    using feed_cases [OF assms(1,4)] ext by auto
qed

lemma detector_run_matched:
  assumes "ed_inv d" and "matched_suffix hist (ed_buffered d) (ed_last d)"
    and "ed_state d \<noteq> Normal \<longrightarrow> ed_last d \<noteq> None"
    and "detector_run xs d = (as, d')"
  shows "matched_suffix (hist @ xs) (ed_buffered d') (ed_last d')
    \<and> (ed_state d' \<noteq> Normal \<longrightarrow> ed_last d' \<noteq> None)"
  using assms
proof (induction xs arbitrary: d hist as)
  case (Cons x xs)
  obtain b now where x: "x = (b, now)" by (cases x)
  obtain a d1 where f: "feed_with_time b now d = (a, d1)" by (cases "feed_with_time b now d")
  obtain as1 where r: "detector_run xs d1 = (as1, d')"
    using Cons.prems(4) f by (auto simp: x split: prod.splits)
  note m = feed_matched [OF Cons.prems(1-3) f]
  from Cons.IH [OF feed_inv [OF Cons.prems(1) f] _ _ r, of "hist @ [(b, now)]"] m
  show ?case by (simp add: x)
qed simp

text \<open>A trigger fires only on its own bytes, typed one after another at human speed.\<close>

lemma trigger_typed_slowly:
  assumes "detector_run (xs @ [(b, now)]) (detector_new t) = (as, d')" and "as \<noteq> []"
    and "last as = Trigger"
  shows "\<exists>ys zs. xs @ [(b, now)] = ys @ zs \<and> map fst zs = t \<and> spaced (map snd zs)"
proof -
  obtain as1 d1 where r: "detector_run xs (detector_new t) = (as1, d1)"
    by (cases "detector_run xs (detector_new t)")
  obtain a where f: "feed_with_time b now d1 = (a, d')" and "as = as1 @ [a]"
    using assms(1) r by (auto simp: detector_run_append split: prod.splits)
  then have a: "a = Trigger" using assms(3) by simp
  have m: "matched_suffix xs (ed_buffered d1) (ed_last d1)"
    and l: "ed_state d1 \<noteq> Normal \<longrightarrow> ed_last d1 \<noteq> None"
    using detector_run_matched [OF ed_inv_new _ _ r, of "[]"] by (simp_all add: detector_new_def)
  have "ed_inv d1" "ed_trigger d1 = t"
    using detector_run_inv [OF ed_inv_new r] by (simp_all add: detector_new_def)
  with feed_matched [OF _ m l f] a show ?thesis
    by (auto simp: matched_suffix_def)
qed


section \<open>Properties\<close>

text \<open> The detector accounts for every byte: whatever is fed at whatever times, the bytes it
  forwards, with a whole trigger for each time it fires, followed by the bytes it holds, are
  exactly the input in order.\<close>

lemma detector_accounts_for_every_byte:
  assumes "detector_run xs (detector_new t) = (as, d)"
  shows "concat (map (action_bytes t) as) @ ed_buffered d = map fst xs"
  using detector_run_accounts [OF ed_inv_new assms] by (simp add: detector_new_def)

lemma detector_accounts_for_every_byte_witness:
  "\<exists>as d. detector_run [(0x7E, 0), (0x78, 5), (0x7E, 9)] (detector_new [0x7E, 0x7E]) = (as, d)
     \<and> concat (map (action_bytes [0x7E, 0x7E]) as) @ ed_buffered d = [0x7E, 0x78, 0x7E]"
proof -
  obtain as d
    where r: "detector_run [(0x7E, 0), (0x78, 5), (0x7E, 9)] (detector_new [0x7E, 0x7E]) = (as, d)"
    by fastforce
  with detector_accounts_for_every_byte [OF r] show ?thesis by auto
qed



end
