(* ===== verification/Session_Escape.thy ===== *)
theory Session_Escape
  imports Escape
begin

text \<open>
  The combined handler of an SSH session's stdin (\<open>SessionEscapeHandler\<close> in
  \<open>src/ssh/snippet.rs\<close>): bytes of terminal escape sequences are forwarded at once, the others
  go through the snippet, the bookmark and the browser detector in turn.
\<close>

section \<open>The handler\<close>

datatype session_action =
    SForward bytes | SBuffer | ShowSnippets | ShowSaveBookmark | ShowBrowser

datatype term_seq_state = SeqNormal | AfterEsc | InCsi | InSs3

record session_handler =
  snippet_detector :: escape_detector
  bookmark_detector :: escape_detector
  browser_detector :: escape_detector
  term_seq :: term_seq_state

definition session_handler_new :: "bytes \<Rightarrow> bytes \<Rightarrow> bytes \<Rightarrow> session_handler" where
  "session_handler_new snippet bookmark browser =
     \<lparr>snippet_detector = detector_new snippet, bookmark_detector = detector_new bookmark,
      browser_detector = detector_new browser, term_seq = SeqNormal\<rparr>"

text \<open>
  The loop that cascades forwarded bytes into the next detector: the collected output, or
  \<open>None\<close> when that detector fires and the loop is left.
\<close>

fun cascade :: "nat \<Rightarrow> bytes \<Rightarrow> bytes \<Rightarrow> escape_detector \<Rightarrow> bytes option \<times> escape_detector" where
  "cascade clk [] acc d = (Some acc, d)"
| "cascade clk (b # bs) acc d =
     (case feed_untimed b clk d of
        (Trigger, d1) \<Rightarrow> (None, d1)
      | (Buffer, d1) \<Rightarrow> cascade clk bs acc d1
      | (Forward fwd, d1) \<Rightarrow> cascade clk bs (acc @ fwd) d1)"

definition feed_triggers ::
  "byte \<Rightarrow> nat \<Rightarrow> nat \<Rightarrow> session_handler \<Rightarrow> session_action \<times> session_handler" where
  "feed_triggers b now clk h =
     (case feed_with_time b now (snippet_detector h) of
        (Trigger, d1) \<Rightarrow> (ShowSnippets, h\<lparr>snippet_detector := d1\<rparr>)
      | (Buffer, d1) \<Rightarrow> (SBuffer, h\<lparr>snippet_detector := d1\<rparr>)
      | (Forward bs, d1) \<Rightarrow>
          (case cascade clk bs [] (bookmark_detector h) of
             (None, d2) \<Rightarrow>
               (ShowSaveBookmark, h\<lparr>snippet_detector := d1, bookmark_detector := d2\<rparr>)
           | (Some after_bookmark, d2) \<Rightarrow>
               (case cascade clk after_bookmark [] (browser_detector h) of
                  (None, d3) \<Rightarrow>
                    (ShowBrowser, h\<lparr>snippet_detector := d1, bookmark_detector := d2,
                                    browser_detector := d3\<rparr>)
                | (Some final_forward, d3) \<Rightarrow>
                    (if final_forward = [] then SBuffer else SForward final_forward,
                     h\<lparr>snippet_detector := d1, bookmark_detector := d2,
                       browser_detector := d3\<rparr>))))"

definition session_feed ::
  "byte \<Rightarrow> nat \<Rightarrow> nat \<Rightarrow> session_handler \<Rightarrow> session_action \<times> session_handler" where
  "session_feed b now clk h =
     (case term_seq h of
        SeqNormal \<Rightarrow>
          if b = 0x1B then (SForward [b], h\<lparr>term_seq := AfterEsc\<rparr>)
          else feed_triggers b now clk h
      | AfterEsc \<Rightarrow>
          (SForward [b],
           h\<lparr>term_seq := (if b = 0x5B then InCsi else if b = 0x4F then InSs3 else SeqNormal)\<rparr>)
      | InCsi \<Rightarrow>
          (SForward [b], if 0x40 \<le> b \<and> b \<le> 0x7E then h\<lparr>term_seq := SeqNormal\<rparr> else h)
      | InSs3 \<Rightarrow> (SForward [b], h\<lparr>term_seq := SeqNormal\<rparr>))"

text \<open>A stream of input: each byte with its time and the clock reading of the cascade.\<close>

fun session_run ::
  "(byte \<times> nat \<times> nat) list \<Rightarrow> session_handler \<Rightarrow> session_action list \<times> session_handler" where
  "session_run [] h = ([], h)"
| "session_run ((b, now, clk) # xs) h =
     (case session_feed b now clk h of (a, h1) \<Rightarrow>
        case session_run xs h1 of (as, h2) \<Rightarrow> (a # as, h2))"

fun forwarded :: "session_action list \<Rightarrow> bytes" where
  "forwarded [] = []"
| "forwarded (SForward bs # as) = bs @ forwarded as"
| "forwarded (_ # as) = forwarded as"

fun is_popup :: "session_action \<Rightarrow> bool" where
  "is_popup ShowSnippets = True"
| "is_popup ShowSaveBookmark = True"
| "is_popup ShowBrowser = True"
| "is_popup _ = False"

section \<open>Invariant and accounting\<close>

definition session_inv :: "session_handler \<Rightarrow> bool" where
  "session_inv h \<longleftrightarrow>
     ed_inv (snippet_detector h) \<and> ed_inv (bookmark_detector h) \<and> ed_inv (browser_detector h)"

text \<open>The bytes held back, oldest first.\<close>

definition pending :: "session_handler \<Rightarrow> bytes" where
  "pending h = ed_buffered (browser_detector h) @ ed_buffered (bookmark_detector h)
     @ ed_buffered (snippet_detector h)"

lemma session_inv_new [simp]: "session_inv (session_handler_new s b f)"
  by (simp add: session_inv_def session_handler_new_def)

lemma pending_new [simp]: "pending (session_handler_new s b f) = []"
  by (simp add: pending_def session_handler_new_def detector_new_def)

lemma feed_untimed_accounts:
  "ed_inv d \<Longrightarrow> feed_untimed b clk d = (a, d') \<Longrightarrow>
   ed_inv d' \<and> ed_trigger d' = ed_trigger d
   \<and> action_bytes (ed_trigger d) a @ ed_buffered d' = ed_buffered d @ [b]"
  using feed_inv [of "d\<lparr>ed_last := None\<rparr>" b clk a d']
    feed_trigger [of "d\<lparr>ed_last := None\<rparr>" b clk a d']
    feed_accounts [of "d\<lparr>ed_last := None\<rparr>" b clk a d']
  by (simp add: feed_untimed_def)

lemma cascade_accounts:
  "ed_inv d \<Longrightarrow> cascade clk bs acc d = (r, d') \<Longrightarrow>
   ed_inv d' \<and> (\<forall>out. r = Some out \<longrightarrow> out @ ed_buffered d' = acc @ ed_buffered d @ bs)"
proof (induction clk bs acc d rule: cascade.induct)
  case (2 clk b bs acc d)
  obtain a d1 where f: "feed_untimed b clk d = (a, d1)" by (cases "feed_untimed b clk d")
  from feed_untimed_accounts [OF "2.prems"(1) f]
  have i: "ed_inv d1" "action_bytes (ed_trigger d) a @ ed_buffered d1 = ed_buffered d @ [b]"
    by auto
  show ?case
  proof (cases a)
    case (Forward fwd)
    have c: "cascade clk bs (acc @ fwd) d1 = (r, d')" using "2.prems"(2) f Forward by simp
    have e: "fwd @ ed_buffered d1 = ed_buffered d @ [b]" using i(2) Forward by simp
    have "ed_inv d'" using "2.IH"(1) [OF f [symmetric] Forward i(1) c] by blast
    moreover have "out @ ed_buffered d' = acc @ ed_buffered d @ b # bs" if "r = Some out" for out
    proof -
      have "out @ ed_buffered d' = acc @ (fwd @ ed_buffered d1) @ bs"
        using "2.IH"(1) [OF f [symmetric] Forward i(1) c] that by simp
      then show ?thesis by (simp add: e)
    qed
    ultimately show ?thesis by blast
  next
    case Buffer
    have c: "cascade clk bs acc d1 = (r, d')" using "2.prems"(2) f Buffer by simp
    have e: "ed_buffered d1 = ed_buffered d @ [b]" using i(2) Buffer by simp
    from "2.IH"(2) [OF f [symmetric] Buffer i(1) c] show ?thesis by (simp add: e)
  next
    case Trigger
    with "2.prems"(2) f i show ?thesis by auto
  qed
qed auto

lemma feed_triggers_accounts:
  assumes "session_inv h" and "feed_triggers b now clk h = (a, h')"
  shows "session_inv h' \<and> term_seq h' = term_seq h
    \<and> (\<not> is_popup a \<longrightarrow> forwarded [a] @ pending h' = pending h @ [b])"
proof -
  have inv: "ed_inv (snippet_detector h)" "ed_inv (bookmark_detector h)" "ed_inv (browser_detector h)"
    using assms(1) by (simp_all add: session_inv_def)
  obtain sa d1 where s: "feed_with_time b now (snippet_detector h) = (sa, d1)"
    by (cases "feed_with_time b now (snippet_detector h)")
  note si = feed_cases [OF inv(1) s]
  show ?thesis
  proof (cases sa)
    case (Forward bs)
    obtain r2 d2 where c2: "cascade clk bs [] (bookmark_detector h) = (r2, d2)"
      by (cases "cascade clk bs [] (bookmark_detector h)")
    note i2 = cascade_accounts [OF inv(2) c2]
    show ?thesis
    proof (cases r2)
      case None
      with assms Forward s c2 i2 si inv show ?thesis
        by (auto simp: feed_triggers_def session_inv_def)
    next
      case (Some ab)
      obtain r3 d3 where c3: "cascade clk ab [] (browser_detector h) = (r3, d3)"
        by (cases "cascade clk ab [] (browser_detector h)")
      note i3 = cascade_accounts [OF inv(3) c3]
      have e2: "ab @ ed_buffered d2 = ed_buffered (bookmark_detector h) @ bs"
        using i2 Some by simp
      have e1: "bs = ed_buffered (snippet_detector h) @ [b]" "ed_buffered d1 = []"
        using si Forward by auto
      show ?thesis
      proof (cases r3)
        case None
        with assms Forward Some s c2 c3 i2 i3 si inv show ?thesis
          by (auto simp: feed_triggers_def session_inv_def)
      next
        case (Some ff)
        have e3: "ff @ ed_buffered d3 = ed_buffered (browser_detector h) @ ab"
          using i3 Some by simp
        have "(ff @ ed_buffered d3) @ ed_buffered d2 = pending h @ [b]"
          unfolding e3 using e1 e2 by (simp add: pending_def)
        then have "ff @ ed_buffered d3 @ ed_buffered d2 = pending h @ [b]" by simp
        with assms Forward Some \<open>r2 = Some ab\<close> s c2 c3 i2 i3 si inv e1 show ?thesis
          by (auto simp: feed_triggers_def session_inv_def pending_def)
      qed
    qed
  qed (use assms s si inv in \<open>auto simp: feed_triggers_def session_inv_def pending_def\<close>)
qed

text \<open>A byte of an escape sequence is forwarded and leaves the detectors alone.\<close>

lemma session_feed_escape:
  assumes "term_seq h \<noteq> SeqNormal \<or> b = 0x1B"
  shows "fst (session_feed b now clk h) = SForward [b]
    \<and> pending (snd (session_feed b now clk h)) = pending h
    \<and> snippet_detector (snd (session_feed b now clk h)) = snippet_detector h
    \<and> bookmark_detector (snd (session_feed b now clk h)) = bookmark_detector h
    \<and> browser_detector (snd (session_feed b now clk h)) = browser_detector h"
  using assms by (auto simp: session_feed_def pending_def split: term_seq_state.splits)

lemma session_feed_inv:
  assumes "session_inv h" and "session_feed b now clk h = (a, h')"
  shows "session_inv h'"
proof (cases "term_seq h \<noteq> SeqNormal \<or> b = 0x1B")
  case True
  from session_feed_escape [OF this, of now clk] assms show ?thesis
    by (simp add: session_inv_def)
next
  case False
  then have "feed_triggers b now clk h = (a, h')"
    using assms(2) by (simp add: session_feed_def)
  with feed_triggers_accounts [OF assms(1)] show ?thesis by blast
qed

lemma forwarded_append: "forwarded (as @ bs) = forwarded as @ forwarded bs"
  by (induction as rule: forwarded.induct) auto

lemma forwarded_Cons: "forwarded (a # as) = forwarded [a] @ forwarded as"
  using forwarded_append [of "[a]" as] by simp

text \<open>In a stream without ESC every byte is forwarded, in order, or still held.\<close>

lemma session_run_transparent:
  "session_inv h \<Longrightarrow> term_seq h = SeqNormal \<Longrightarrow> 0x1B \<notin> fst ` set xs \<Longrightarrow>
   session_run xs h = (as, h') \<Longrightarrow> \<forall>a \<in> set as. \<not> is_popup a \<Longrightarrow>
   forwarded as @ pending h' = pending h @ map fst xs"
proof (induction xs arbitrary: h as)
  case (Cons x xs)
  obtain b now clk where x: "x = (b, now, clk)" by (cases x)
  obtain a h1 where f: "session_feed b now clk h = (a, h1)" by (cases "session_feed b now clk h")
  obtain as1 where r: "session_run xs h1 = (as1, h')" and as: "as = a # as1"
    using Cons.prems(4) f by (auto simp: x split: prod.splits)
  have "b \<noteq> 0x1B" using Cons.prems(3) by (auto simp: x)
  then have t: "feed_triggers b now clk h = (a, h1)"
    using f Cons.prems(2) by (simp add: session_feed_def)
  from feed_triggers_accounts [OF Cons.prems(1) t] Cons.prems(2,5)
  have i: "session_inv h1" "term_seq h1 = SeqNormal" "forwarded [a] @ pending h1 = pending h @ [b]"
    by (auto simp: as)
  have "forwarded as1 @ pending h' = pending h1 @ map fst xs"
    using Cons.prems(3,5) by (intro Cons.IH [OF i(1,2) _ r]) (auto simp: as)
  then have "forwarded as @ pending h' = (forwarded [a] @ pending h1) @ map fst xs"
    by (simp add: as forwarded_Cons [of a as1])
  then show ?case by (simp add: i(3) x)
qed simp

text \<open>With escape sequences in between, no byte is lost or made up, but order may change.\<close>

lemma session_feed_mset:
  assumes "session_inv h" and "session_feed b now clk h = (a, h')" and "\<not> is_popup a"
  shows "mset (forwarded [a]) + mset (pending h') = mset (pending h) + {#b#}"
proof (cases "term_seq h \<noteq> SeqNormal \<or> b = 0x1B")
  case True
  from session_feed_escape [OF this, of now clk] assms(2) show ?thesis by simp
next
  case False
  then have "feed_triggers b now clk h = (a, h')"
    using assms(2) by (simp add: session_feed_def)
  from feed_triggers_accounts [OF assms(1) this] assms(3)
  have "forwarded [a] @ pending h' = pending h @ [b]" by simp
  from arg_cong [OF this, of mset] show ?thesis by simp
qed

lemma session_run_conserves:
  "session_inv h \<Longrightarrow> session_run xs h = (as, h') \<Longrightarrow> \<forall>a \<in> set as. \<not> is_popup a \<Longrightarrow>
   mset (forwarded as) + mset (pending h') = mset (pending h) + mset (map fst xs)"
proof (induction xs arbitrary: h as)
  case (Cons x xs)
  obtain b now clk where x: "x = (b, now, clk)" by (cases x)
  obtain a h1 where f: "session_feed b now clk h = (a, h1)" by (cases "session_feed b now clk h")
  obtain as1 where r: "session_run xs h1 = (as1, h')" and as: "as = a # as1"
    using Cons.prems(2) f by (auto simp: x split: prod.splits)
  have "mset (forwarded as1) + mset (pending h') = mset (pending h1) + mset (map fst xs)"
    using Cons.prems(3) by (intro Cons.IH [OF session_feed_inv [OF Cons.prems(1) f] r]) (simp add: as)
  moreover have "mset (forwarded [a]) + mset (pending h1) = mset (pending h) + {#b#}"
    using Cons.prems(3) by (intro session_feed_mset [OF Cons.prems(1) f]) (simp add: as)
  ultimately show ?case
    by (simp add: as x forwarded_Cons [of a as1] union_assoc)
qed simp

section \<open>Function keys\<close>

text \<open>
  A CSI sequence from the normal state: ESC, \<open>[\<close>, parameter bytes, a final byte. Whatever the
  final byte is (F10 ends in the default trigger's \<open>~\<close>), all is forwarded at once.
\<close>

lemma session_run_csi_params:
  assumes "term_seq h = InCsi" and "\<forall>x \<in> set xs. \<not> (0x40 \<le> fst x \<and> fst x \<le> 0x7E)"
  shows "session_run xs h = (map (\<lambda>x. SForward [fst x]) xs, h)"
  using assms
proof (induction xs)
  case (Cons x xs)
  obtain b now clk where x: "x = (b, now, clk)" by (cases x)
  have "session_feed b now clk h = (SForward [b], h)"
    using Cons.prems by (auto simp: session_feed_def x)
  with Cons show ?case by (simp add: x)
qed simp

lemma session_run_append:
  "session_run (xs @ ys) h =
     (case session_run xs h of (as, h1) \<Rightarrow> case session_run ys h1 of (bs, h2) \<Rightarrow> (as @ bs, h2))"
  by (induction xs arbitrary: h) (auto split: prod.splits)

lemma session_run_csi:
  assumes "term_seq h = SeqNormal"
    and "fst e = 0x1B" and "fst l = 0x5B" and "0x40 \<le> fst f" and "fst f \<le> 0x7E"
    and "\<forall>x \<in> set ps. \<not> (0x40 \<le> fst x \<and> fst x \<le> 0x7E)"
  shows "session_run (e # l # ps @ [f]) h = (map (\<lambda>x. SForward [fst x]) (e # l # ps @ [f]), h)"
proof -
  obtain et ec lt lc ft fc where eqs: "e = (0x1B, et, ec)" "l = (0x5B, lt, lc)" "f = (fst f, ft, fc)"
    using assms(2,3) by (metis prod.collapse)
  define h2 where "h2 = h\<lparr>term_seq := InCsi\<rparr>"
  have ps: "session_run ps h2 = (map (\<lambda>x. SForward [fst x]) ps, h2)"
    by (rule session_run_csi_params) (simp_all add: h2_def assms(6))
  have "session_feed (fst f) ft fc h2 = (SForward [fst f], h2\<lparr>term_seq := SeqNormal\<rparr>)"
    using assms(4,5) by (simp add: session_feed_def h2_def)
  moreover have "h2\<lparr>term_seq := SeqNormal\<rparr> = h" using assms(1) by (simp add: h2_def)
  ultimately have "session_run [f] h2 = ([SForward [fst f]], h)"
    by (subst eqs(3)) simp
  with ps have "session_run (ps @ [f]) h2 = (map (\<lambda>x. SForward [fst x]) (ps @ [f]), h)"
    by (simp add: session_run_append)
  moreover have "session_feed 0x1B et ec h = (SForward [0x1B], h\<lparr>term_seq := AfterEsc\<rparr>)"
    using assms(1) by (simp add: session_feed_def)
  moreover have "session_feed 0x5B lt lc (h\<lparr>term_seq := AfterEsc\<rparr>) = (SForward [0x5B], h2)"
    by (simp add: session_feed_def h2_def)
  ultimately show ?thesis by (simp add: eqs(1,2))
qed


section \<open>Properties\<close>

text \<open>C27: As long as no popup is requested, the chained handler loses and invents nothing: the bytes
  forwarded to the remote side and the bytes the three detectors hold are together exactly the
  bytes that were typed, each as often as it was typed.  They are in the order of typing as well
  if no escape byte was typed; an escape byte is forwarded at once and overtakes what is held
  (\<open>escape_overtakes_held_input\<close>).\<close>

theorem session_input_transparent:
  assumes "session_run xs (session_handler_new s b f) = (as, h)"
    and "\<forall>a \<in> set as. \<not> is_popup a"
  shows "mset (forwarded as) + mset (pending h) = mset (map fst xs)
    \<and> (0x1B \<notin> fst ` set xs \<longrightarrow> forwarded as @ pending h = map fst xs)"
  using session_run_conserves [OF session_inv_new assms] session_run_transparent [OF session_inv_new _ _ assms]
  by (simp add: session_handler_new_def pending_def detector_new_def)

text \<open>The default triggers \<open>~~\<close>, \<open>~b\<close> and \<open>~f\<close>.\<close>

definition default_session :: session_handler where
  "default_session = session_handler_new (ascii ''~~'') (ascii ''~b'') (ascii ''~f'')"

lemmas session_eval = default_session_def session_handler_new_def detector_new_def ascii_def
  session_feed_def feed_triggers_def feed_with_time_def feed_untimed_def detector_flush_def
  detector_reset_def too_fast_def elapsed_ms_def PASTE_THRESHOLD_MS_def Let_def

theorem session_input_transparent_witness:
  "\<exists>as h. session_run [(0x7E, 0, 0), (0x78, 100000000, 1)] default_session = (as, h)
     \<and> forwarded as @ pending h = [0x7E, 0x78]"
proof -
  obtain as h
    where r: "session_run [(0x7E, 0, 0), (0x78, 100000000, 1)] default_session = (as, h)"
    by fastforce
  then have "as = [SBuffer, SForward [0x7E, 0x78]]"
    by (auto simp: session_eval)
  with r session_input_transparent
    [of "[(0x7E, 0, 0), (0x78, 100000000, 1)]" "ascii ''~~''" "ascii ''~b''" "ascii ''~f''" as h]
  show ?thesis by (auto simp: default_session_def)
qed

text \<open> Function and arrow keys pass: a complete CSI sequence that starts outside of any other
  sequence is forwarded byte by byte and leaves the handler as it was, even where its final
  byte begins a trigger.\<close>

lemma csi_sequence_bypasses_triggers:
  assumes "term_seq h = SeqNormal"
    and "fst e = 0x1B" and "fst l = 0x5B" and "0x40 \<le> fst f" and "fst f \<le> 0x7E"
    and "\<forall>x \<in> set ps. \<not> (0x40 \<le> fst x \<and> fst x \<le> 0x7E)"
  shows "session_run (e # l # ps @ [f]) h = (map (\<lambda>x. SForward [fst x]) (e # l # ps @ [f]), h)"
  using assms by (rule session_run_csi)

lemma csi_sequence_bypasses_triggers_witness:
  "session_run [(0x1B, 0, 0), (0x5B, 0, 0), (0x32, 0, 0), (0x31, 0, 0), (0x7E, 0, 0)] default_session
     = ([SForward [0x1B], SForward [0x5B], SForward [0x32], SForward [0x31], SForward [0x7E]],
        default_session)"
  using csi_sequence_bypasses_triggers [of default_session "(0x1B, 0, 0)" "(0x5B, 0, 0)"
      "(0x7E, 0, 0)" "[(0x32, 0, 0), (0x31, 0, 0)]"]
  by (simp add: default_session_def session_handler_new_def)

text \<open> Input can overtake held input: with the default triggers, typing \<open>~\<close>, an arrow key and
  \<open>x\<close> sends the arrow key's bytes before the \<open>~\<close> that was typed first.\<close>

lemma escape_overtakes_held_input:
  "forwarded (fst (session_run
     [(0x7E, 0, 0), (0x1B, 1, 1), (0x5B, 2, 2), (0x41, 3, 3), (0x78, 100000000, 4)] default_session))
   = [0x1B, 0x5B, 0x41, 0x7E, 0x78]"
  by (simp add: session_eval)

text \<open>A popup can swallow ordinary input: with the snippet trigger \<open>ab~~\<close> and the bookmark
  trigger \<open>~b\<close>, typing \<open>ab~b\<close> opens the bookmark form, and the \<open>ab\<close> that belongs to no
  trigger is neither forwarded nor held.\<close>

lemma popup_drops_input:
  "\<exists>h. session_run
     [(0x61, 0, 0), (0x62, 100000000, 1), (0x7E, 200000000, 2), (0x62, 300000000, 3)]
     (session_handler_new (ascii ''ab~~'') (ascii ''~b'') (ascii ''~f''))
   = ([SBuffer, SBuffer, SBuffer, ShowSaveBookmark], h) \<and> pending h = []"
  by (simp add: session_eval pending_def)

end
