(* ===== verification/Osc_Strip.thy ===== *)
theory Osc_Strip
  imports Prelude "HOL-Library.Sublist"
begin

text \<open>
  The title stripper of \<open>src/ssh/terminal_theme.rs\<close>: a byte-level state machine that removes
  the OSC sequences 0, 2, 10, 11 and 12 from the remote output and passes everything else on,
  with the state carried from one chunk of data to the next.
\<close>

section \<open>The state machine\<close>

datatype strip_state = Normal | Esc | OscCode | OscSkip | OscPass | OscSkipEsc | OscPassEsc

record osc_stripper =
  st_state :: strip_state
  code_buf :: bytes

definition stripper_new :: osc_stripper where
  "stripper_new = \<lparr>st_state = Normal, code_buf = []\<rparr>"

definition ESC :: byte where "ESC = 0x1B"
definition BEL :: byte where "BEL = 0x07"
definition BRACKET :: byte where "BRACKET = 0x5D"
definition SEMI :: byte where "SEMI = 0x3B"
definition BACKSLASH :: byte where "BACKSLASH = 0x5C"

lemmas osc_bytes = ESC_def BEL_def BRACKET_def SEMI_def BACKSLASH_def

definition should_strip :: "bytes \<Rightarrow> bool" where
  "should_strip code \<longleftrightarrow>
     code = ascii ''0'' \<or> code = ascii ''2'' \<or> code = ascii ''10'' \<or> code = ascii ''11''
     \<or> code = ascii ''12''"

definition is_ascii_digit :: "byte \<Rightarrow> bool" where
  "is_ascii_digit b \<longleftrightarrow> 0x30 \<le> b \<and> b \<le> 0x39"

text \<open>One byte: what is written to the output, and the next state.\<close>

definition strip_byte :: "byte \<Rightarrow> osc_stripper \<Rightarrow> bytes \<times> osc_stripper" where
  "strip_byte b s =
     (case st_state s of
        Normal \<Rightarrow> if b = ESC then ([], s\<lparr>st_state := Esc\<rparr>) else ([b], s)
      | Esc \<Rightarrow>
          if b = BRACKET then ([], s\<lparr>st_state := OscCode, code_buf := []\<rparr>)
          else ([ESC, b], s\<lparr>st_state := Normal\<rparr>)
      | OscCode \<Rightarrow>
          if b = SEMI then
            if should_strip (code_buf s) then ([], s\<lparr>st_state := OscSkip\<rparr>)
            else ([ESC, BRACKET] @ code_buf s @ [SEMI], s\<lparr>st_state := OscPass\<rparr>)
          else if b = BEL then
            (if \<not> should_strip (code_buf s) then [ESC, BRACKET] @ code_buf s @ [BEL] else [],
             s\<lparr>st_state := Normal\<rparr>)
          else if is_ascii_digit b then ([], s\<lparr>code_buf := code_buf s @ [b]\<rparr>)
          else ([ESC, BRACKET] @ code_buf s @ [b], s\<lparr>st_state := Normal\<rparr>)
      | OscSkip \<Rightarrow>
          if b = BEL then ([], s\<lparr>st_state := Normal\<rparr>)
          else if b = ESC then ([], s\<lparr>st_state := OscSkipEsc\<rparr>)
          else ([], s)
      | OscSkipEsc \<Rightarrow>
          if b = BACKSLASH then ([], s\<lparr>st_state := Normal\<rparr>)
          else ([], s\<lparr>st_state := OscSkip\<rparr>)
      | OscPass \<Rightarrow>
          if b = BEL then ([BEL], s\<lparr>st_state := Normal\<rparr>)
          else if b = ESC then ([], s\<lparr>st_state := OscPassEsc\<rparr>)
          else ([b], s)
      | OscPassEsc \<Rightarrow>
          if b = BACKSLASH then ([ESC, BACKSLASH], s\<lparr>st_state := Normal\<rparr>)
          else ([ESC, b], s\<lparr>st_state := OscPass\<rparr>))"

text \<open>\<open>strip\<close> processes a chunk of data.\<close>

fun strip :: "bytes \<Rightarrow> osc_stripper \<Rightarrow> bytes \<times> osc_stripper" where
  "strip [] s = ([], s)"
| "strip (b # bs) s =
     (case strip_byte b s of (out, s1) \<Rightarrow> case strip bs s1 of (outs, s2) \<Rightarrow> (out @ outs, s2))"

section \<open>Chunks\<close>

lemma strip_append:
  "strip (xs @ ys) s =
     (case strip xs s of (out, s1) \<Rightarrow> case strip ys s1 of (outs, s2) \<Rightarrow> (out @ outs, s2))"
  by (induction xs arbitrary: s) (auto split: prod.splits)

text \<open>Feeding a stream chunk by chunk, as the proxy loop does.\<close>

fun strip_chunks :: "bytes list \<Rightarrow> osc_stripper \<Rightarrow> bytes \<times> osc_stripper" where
  "strip_chunks [] s = ([], s)"
| "strip_chunks (c # cs) s =
     (case strip c s of (out, s1) \<Rightarrow> case strip_chunks cs s1 of (outs, s2) \<Rightarrow> (out @ outs, s2))"

lemma strip_chunks_concat: "strip_chunks cs s = strip (concat cs) s"
  by (induction cs arbitrary: s) (auto simp: strip_append split: prod.splits)

section \<open>Nothing is made up or reordered\<close>

text \<open>The bytes that the machine has read but neither written nor dropped.\<close>

definition held :: "osc_stripper \<Rightarrow> bytes" where
  "held s =
     (case st_state s of
        Esc \<Rightarrow> [ESC] | OscCode \<Rightarrow> [ESC, BRACKET] @ code_buf s | OscPassEsc \<Rightarrow> [ESC] | _ \<Rightarrow> [])"

lemma strip_byte_subseq:
  "strip_byte b s = (out, s') \<Longrightarrow> subseq (out @ held s') (held s @ [b])"
  by (cases "st_state s")
    (auto simp: strip_byte_def held_def osc_bytes split: if_splits)

lemma subseq_extend:
  assumes "subseq (out @ h1) (h @ x)" and "subseq (outs @ h2) (h1 @ y)"
  shows "subseq ((out @ outs) @ h2) (h @ x @ y)"
proof -
  have "subseq (out @ outs @ h2) (out @ h1 @ y)"
    using assms(2) by (simp add: subseq_append')
  moreover have "subseq ((out @ h1) @ y) ((h @ x) @ y)"
    by (rule list_emb_append_mono) (use assms(1) in auto)
  ultimately show ?thesis by (simp add: subseq_order.order_trans)
qed

lemma strip_subseq: "strip bs s = (out, s') \<Longrightarrow> subseq (out @ held s') (held s @ bs)"
proof (induction bs arbitrary: s out)
  case (Cons b bs)
  obtain o1 s1 where b: "strip_byte b s = (o1, s1)" by (cases "strip_byte b s")
  obtain o2 where r: "strip bs s1 = (o2, s')" and out: "out = o1 @ o2"
    using Cons.prems b by (auto split: prod.splits)
  from subseq_extend [OF strip_byte_subseq [OF b] Cons.IH [OF r]] show ?case by (simp add: out)
qed simp

section \<open>What is removed and what is kept\<close>

lemma strip_plain:
  "st_state s = Normal \<Longrightarrow> ESC \<notin> set bs \<Longrightarrow> strip bs s = (bs, s)"
  by (induction bs) (auto simp: strip_byte_def)

lemma strip_code:
  "st_state s = OscCode \<Longrightarrow> \<forall>b \<in> set ds. is_ascii_digit b \<Longrightarrow>
   strip ds s = ([], s\<lparr>code_buf := code_buf s @ ds\<rparr>)"
proof (induction ds arbitrary: s)
  case (Cons d ds)
  then have "d \<noteq> SEMI" "d \<noteq> BEL" by (auto simp: is_ascii_digit_def osc_bytes)
  with Cons show ?case by (simp add: strip_byte_def)
qed simp

lemma strip_skip_body:
  "st_state s = OscSkip \<Longrightarrow> ESC \<notin> set bs \<Longrightarrow> BEL \<notin> set bs \<Longrightarrow> strip bs s = ([], s)"
  by (induction bs) (auto simp: strip_byte_def)

lemma strip_pass_body:
  "st_state s = OscPass \<Longrightarrow> ESC \<notin> set bs \<Longrightarrow> BEL \<notin> set bs \<Longrightarrow> strip bs s = (bs, s)"
  by (induction bs) (auto simp: strip_byte_def)

definition osc_terminators :: "bytes set" where
  "osc_terminators = {[BEL], [ESC, BACKSLASH]}"

definition osc_sequence :: "bytes \<Rightarrow> bytes \<Rightarrow> bytes \<Rightarrow> bytes" where
  "osc_sequence code body term = [ESC, BRACKET] @ code @ [SEMI] @ body @ term"

lemma digit_not_special: "is_ascii_digit b \<Longrightarrow> b \<noteq> SEMI \<and> b \<noteq> BEL \<and> b \<noteq> ESC"
  by (auto simp: is_ascii_digit_def osc_bytes)

lemma strip_osc_open:
  assumes "st_state s = Normal" and "\<forall>b \<in> set code. is_ascii_digit b"
  shows "strip ([ESC, BRACKET] @ code @ [SEMI]) s =
    (if should_strip code then ([], \<lparr>st_state = OscSkip, code_buf = code\<rparr>)
     else ([ESC, BRACKET] @ code @ [SEMI], \<lparr>st_state = OscPass, code_buf = code\<rparr>))"
proof -
  let ?s1 = "s\<lparr>st_state := OscCode, code_buf := []\<rparr>"
  have o: "strip [ESC, BRACKET] s = ([], ?s1)"
    using assms(1) by (simp add: strip_byte_def osc_bytes)
  have c: "strip code ?s1 = ([], ?s1\<lparr>code_buf := code\<rparr>)"
    using strip_code [of ?s1 code] assms(2) by simp
  have t: "strip [SEMI] (?s1\<lparr>code_buf := code\<rparr>) =
    (if should_strip code then ([], \<lparr>st_state = OscSkip, code_buf = code\<rparr>)
     else ([ESC, BRACKET] @ code @ [SEMI], \<lparr>st_state = OscPass, code_buf = code\<rparr>))"
    by (cases s) (simp add: strip_byte_def)
  show ?thesis
    unfolding strip_append [of "[ESC, BRACKET]"] strip_append [of code] o c t prod.case by simp
qed

lemma strip_osc:
  assumes "st_state s = Normal" and "\<forall>b \<in> set code. is_ascii_digit b"
    and "ESC \<notin> set body" and "BEL \<notin> set body" and "term \<in> osc_terminators"
  shows "strip (osc_sequence code body term) s =
    (if should_strip code then [] else osc_sequence code body term,
     \<lparr>st_state = Normal, code_buf = code\<rparr>)"
proof -
  let ?skip = "\<lparr>st_state = OscSkip, code_buf = code\<rparr>"
  let ?pass = "\<lparr>st_state = OscPass, code_buf = code\<rparr>"
  have eq: "osc_sequence code body term = ([ESC, BRACKET] @ code @ [SEMI]) @ (body @ term)"
    by (simp add: osc_sequence_def)
  have "strip term ?skip = ([], \<lparr>st_state = Normal, code_buf = code\<rparr>)"
    "strip term ?pass = (term, \<lparr>st_state = Normal, code_buf = code\<rparr>)"
    using assms(5) by (auto simp: osc_terminators_def strip_byte_def osc_bytes)
  then have "strip (body @ term) ?skip = ([], \<lparr>st_state = Normal, code_buf = code\<rparr>)"
    "strip (body @ term) ?pass = (body @ term, \<lparr>st_state = Normal, code_buf = code\<rparr>)"
    using assms(3,4) by (simp_all add: strip_append strip_skip_body strip_pass_body)
  then show ?thesis
    by (simp only: eq strip_append [of "[ESC, BRACKET] @ code @ [SEMI]"]
        strip_osc_open [OF assms(1,2)]) simp
qed

lemma strip_in_context:
  assumes "ESC \<notin> set pre" and "\<forall>b \<in> set code. is_ascii_digit b"
    and "ESC \<notin> set body" and "BEL \<notin> set body" and "term \<in> osc_terminators"
    and "ESC \<notin> set post"
  shows "fst (strip (pre @ osc_sequence code body term @ post) stripper_new) =
    pre @ (if should_strip code then [] else osc_sequence code body term) @ post"
proof -
  have n: "st_state stripper_new = Normal" by (simp add: stripper_new_def)
  show ?thesis
    by (simp add: strip_append strip_plain [OF n assms(1)] strip_osc [OF n assms(2-5)]
        strip_plain [OF _ assms(6)])
qed


section \<open>Properties\<close>

text \<open>
  The stripper does not depend on how the remote output is split into chunks, and its
  output is always a subsequence of its input: it removes bytes but never adds, duplicates or
  reorders any.\<close>

lemma stripper_removes_only:
  "strip_chunks cs s = strip (concat cs) s
   \<and> (strip_chunks cs stripper_new = (out, s') \<longrightarrow> subseq out (concat cs))"
proof -
  have "subseq out (concat cs)" if "strip (concat cs) stripper_new = (out, s')"
  proof -
    have "subseq (out @ held s') (concat cs)"
      using strip_subseq [OF that] by (simp add: held_def stripper_new_def)
    moreover have "subseq out (out @ held s')" by (rule prefix_imp_subseq) simp
    ultimately show ?thesis by (rule subseq_order.order_trans [rotated])
  qed
  then show ?thesis by (simp add: strip_chunks_concat)
qed

lemma stripper_removes_only_witness:
  "\<exists>out s'. strip_chunks [[0x61], [ESC, 0x63]] stripper_new = (out, s')
     \<and> subseq out (concat [[0x61], [ESC, 0x63]])"
proof -
  obtain out s' where r: "strip_chunks [[0x61], [ESC, 0x63]] stripper_new = (out, s')" by fastforce
  with stripper_removes_only [of "[[0x61], [ESC, 0x63]]" stripper_new out s'] show ?thesis by auto
qed

text \<open> An OSC sequence inside plain output is removed exactly when its code is 0, 2, 10, 11 or
  12, whether BEL or ESC backslash ends it; any other OSC sequence and all plain output pass
  unchanged.\<close>

lemma title_sequences_removed:
  assumes "ESC \<notin> set pre" and "\<forall>b \<in> set code. is_ascii_digit b"
    and "ESC \<notin> set body" and "BEL \<notin> set body" and "term \<in> osc_terminators"
    and "ESC \<notin> set post"
  shows "fst (strip (pre @ osc_sequence code body term @ post) stripper_new) =
    pre @ (if should_strip code then [] else osc_sequence code body term) @ post"
  using assms by (rule strip_in_context)

lemma title_sequences_removed_witness:
  "fst (strip ([0x61] @ osc_sequence [0x32] [0x74] [BEL] @ [0x62]) stripper_new) = [0x61, 0x62]"
proof -
  have "should_strip [0x32]" by (simp add: should_strip_def ascii_def)
  then show ?thesis
    using title_sequences_removed [of "[0x61]" "[0x32]" "[0x74]" "[BEL]" "[0x62]"]
    by (simp add: is_ascii_digit_def osc_bytes osc_terminators_def)
qed

text \<open>
  The title can still be set: a title sequence with one more ESC in front of it, which a
  terminal reads as the title sequence, passes the stripper unchanged.\<close>

lemma doubled_escape_bypasses_stripper:
  assumes "ESC \<notin> set body"
  shows "fst (strip (ESC # osc_sequence [0x30] body [BEL]) stripper_new)
     = ESC # osc_sequence [0x30] body [BEL]"
proof -
  have "strip [ESC, ESC] stripper_new = ([ESC, ESC], stripper_new)"
    by (simp add: strip_byte_def stripper_new_def osc_bytes)
  moreover have "strip ([BRACKET, 0x30, SEMI] @ body @ [BEL]) stripper_new
      = ([BRACKET, 0x30, SEMI] @ body @ [BEL], stripper_new)"
    using assms by (intro strip_plain) (auto simp: stripper_new_def osc_bytes)
  moreover have "ESC # osc_sequence [0x30] body [BEL]
      = [ESC, ESC] @ ([BRACKET, 0x30, SEMI] @ body @ [BEL])"
    by (simp add: osc_sequence_def)
  ultimately show ?thesis by (simp only: strip_append) simp
qed

lemma doubled_escape_bypasses_stripper_witness:
  "fst (strip (ESC # osc_sequence [0x30] [0x78] [BEL]) stripper_new)
     = ESC # osc_sequence [0x30] [0x78] [BEL]"
  using doubled_escape_bypasses_stripper [of "[0x78]"] by (simp add: osc_bytes)

end
