(* ===== verification/Password.thy ===== *)
theory Password
  imports Utf8 "HOL-Library.Sublist"
begin

text \<open>
  The password prompt detector of \<open>src/ssh/password.rs\<close>: the extraction of the well formed
  text of a chunk, the rolling buffer with its cap at a character boundary, and the
  classification of the buffer. The regular expressions are matched by the \<open>regex\<close> crate; the
  two pattern sets are the arguments \<open>is_sudo\<close> and \<open>is_generic\<close> of the model.
\<close>

section \<open>Extracting the valid text\<close>

text \<open>
  The error of \<open>str::from_utf8\<close>: \<open>valid_up_to\<close> and \<open>error_len\<close>, where the latter is \<open>None\<close>
  when the input ends in the middle of a code point.
\<close>

function utf8_error :: "bytes \<Rightarrow> (nat \<times> nat option) option" where
  "utf8_error bs =
     (if bs = [] then None
      else let n = snd (utf8_step bs) in
        if fst (utf8_step bs)
        then map_option (\<lambda>(v, l). (n + v, l)) (utf8_error (drop n bs))
        else Some (0, if n = length bs \<and> 2 \<le> utf8_width (hd bs) then None else Some n))"
  by pat_completeness auto
termination
  by (relation "measure length") (auto simp: utf8_step_pos intro!: diff_less)

declare utf8_error.simps [simp del]

lemma utf8_error_Nil [simp]: "utf8_error [] = None"
  by (subst utf8_error.simps) simp

lemma utf8_error_None_iff: "utf8_error bs = None \<longleftrightarrow> valid_utf8 bs"
proof (induction bs rule: utf8_error.induct)
  case (1 bs)
  then show ?case
    by (cases "bs = []") (simp_all add: utf8_error.simps [of bs] valid_utf8.simps [of bs] Let_def)
qed

lemma utf8_error_skip_pos: "utf8_error bs = Some (v, Some k) \<Longrightarrow> 0 < k"
proof (induction bs arbitrary: v rule: utf8_error.induct)
  case (1 bs)
  have ne: "bs \<noteq> []" using "1.prems" by auto
  show ?case
  proof (cases "fst (utf8_step bs)")
    case True
    with "1.prems" ne obtain v' where
      "utf8_error (drop (snd (utf8_step bs)) bs) = Some (v', Some k)"
      by (auto simp: utf8_error.simps [of bs] Let_def)
    from "1.IH" [OF ne refl True this] show ?thesis .
  next
    case False
    with "1.prems" ne utf8_step_pos [of bs] show ?thesis
      by (auto simp: utf8_error.simps [of bs] Let_def split: if_splits)
  qed
qed

lemma utf8_error_valid_prefix:
  "utf8_error bs = Some (v, l) \<Longrightarrow> v \<le> length bs \<and> valid_utf8 (take v bs)"
proof (induction bs arbitrary: v rule: utf8_error.induct)
  case (1 bs)
  have ne: "bs \<noteq> []" using "1.prems" by auto
  let ?n = "snd (utf8_step bs)"
  show ?case
  proof (cases "fst (utf8_step bs)")
    case True
    with "1.prems" ne obtain v' where
      v': "utf8_error (drop ?n bs) = Some (v', l)" "v = ?n + v'"
      by (auto simp: utf8_error.simps [of bs] Let_def)
    from "1.IH" [OF ne refl True v'(1)]
    have ih: "v' \<le> length (drop ?n bs)" "valid_utf8 (take v' (drop ?n bs))" by auto
    have step: "utf8_step bs = (True, ?n)" using True by (simp add: prod_eq_iff)
    have "take v bs = take ?n bs @ take v' (drop ?n bs)" by (simp add: v'(2) take_add)
    then have "valid_utf8 (take v bs)" using valid_utf8_step [OF step ne] ih(2) by simp
    with ih(1) utf8_step_length [OF ne] show ?thesis by (simp add: v'(2))
  next
    case False
    with "1.prems" ne show ?thesis by (simp add: utf8_error.simps [of bs] Let_def)
  qed
qed

function extract_loop :: "bytes \<Rightarrow> bytes \<Rightarrow> bytes" where
  "extract_loop result remaining =
     (if remaining = [] then result
      else case utf8_error remaining of
        None \<Rightarrow> result @ remaining
      | Some (v, l) \<Rightarrow>
          let result' = (if 0 < v \<and> valid_utf8 (take v remaining)
                         then result @ take v remaining else result);
              skip = (case l of Some k \<Rightarrow> v + k | None \<Rightarrow> length remaining)
          in extract_loop result' (drop skip remaining))"
  by pat_completeness auto
termination
proof (relation "measure (\<lambda>(_, remaining). length remaining)", goal_cases)
  case 1
  then show ?case by simp
next
  case (2 result remaining x2 v l xa skip)
  then have "0 < skip" using utf8_error_skip_pos [of remaining v] by (auto split: option.splits)
  with 2 show ?case by simp
qed

declare extract_loop.simps [simp del]

definition extract_valid_utf8 :: "bytes \<Rightarrow> bytes" where
  "extract_valid_utf8 data = extract_loop [] data"

lemma extract_loop_valid: "valid_utf8 result \<Longrightarrow> valid_utf8 (extract_loop result remaining)"
proof (induction result remaining rule: extract_loop.induct)
  case (1 result remaining)
  show ?case
  proof (cases "remaining = []")
    case True
    then show ?thesis using "1.prems" by (simp add: extract_loop.simps [of result])
  next
    case ne: False
    show ?thesis
    proof (cases "utf8_error remaining")
      case None
      then have "valid_utf8 remaining" by (simp add: utf8_error_None_iff)
      with None ne "1.prems" show ?thesis
        by (simp add: extract_loop.simps [of result remaining] valid_utf8_append)
    next
      case (Some vl)
      obtain v l where vl: "vl = (v, l)" by (cases vl)
      from "1.IH" [OF ne Some vl [symmetric] refl refl] "1.prems" show ?thesis
        using ne Some vl
        by (simp add: extract_loop.simps [of result remaining] Let_def valid_utf8_append)
    qed
  qed
qed

lemma extract_valid_utf8_valid: "valid_utf8 (extract_valid_utf8 data)"
  by (simp add: extract_valid_utf8_def extract_loop_valid)

lemma extract_valid_utf8_id: "valid_utf8 data \<Longrightarrow> extract_valid_utf8 data = data"
  by (cases "data = []")
    (simp_all add: extract_valid_utf8_def extract_loop.simps [of "[]" data]
      extract_loop.simps [of "[]" "[]"] utf8_error_None_iff [THEN iffD2])

section \<open>The detector\<close>

datatype prompt_kind = NoPrompt | Sudo | Generic

definition detected :: "prompt_kind \<Rightarrow> bool" where
  "detected k \<longleftrightarrow> k \<noteq> NoPrompt"

definition BUFFER_CAP :: nat where "BUFFER_CAP = 256"

record password_detector =
  pd_buffer :: bytes
  has_password :: bool

definition password_detector_new :: "bool \<Rightarrow> password_detector" where
  "password_detector_new hp = \<lparr>pd_buffer = [], has_password = hp\<rparr>"

text \<open>\<open>str::is_char_boundary\<close>.\<close>

definition is_char_boundary :: "bytes \<Rightarrow> nat \<Rightarrow> bool" where
  "is_char_boundary s i \<longleftrightarrow>
     i = 0 \<or> i = length s \<or> (i < length s \<and> \<not> is_cont (s ! i))"

text \<open>The loop that advances to the next boundary; the end of the string is one.\<close>

function next_boundary :: "bytes \<Rightarrow> nat \<Rightarrow> nat" where
  "next_boundary s i =
     (if is_char_boundary s i \<or> length s \<le> i then i else next_boundary s (i + 1))"
  by pat_completeness auto
termination
  by (relation "measure (\<lambda>(s, i). length s - i)") auto

declare next_boundary.simps [simp del]

definition cap_buffer :: "bytes \<Rightarrow> bytes" where
  "cap_buffer s =
     (if BUFFER_CAP < length s then drop (next_boundary s (length s - BUFFER_CAP)) s else s)"

definition password_feed ::
  "(bytes \<Rightarrow> bool) \<Rightarrow> (bytes \<Rightarrow> bool) \<Rightarrow> bytes \<Rightarrow> password_detector \<Rightarrow> prompt_kind \<times> password_detector"
where
  "password_feed is_sudo is_generic data d =
     (if \<not> has_password d then (NoPrompt, d)
      else
        let text = extract_valid_utf8 data in
        if text = [] then (NoPrompt, d)
        else
          let d1 = d\<lparr>pd_buffer := cap_buffer (pd_buffer d @ text)\<rparr>
          in (if is_sudo (pd_buffer d1) then Sudo
              else if is_generic (pd_buffer d1) then Generic
              else NoPrompt, d1))"

definition password_clear :: "password_detector \<Rightarrow> password_detector" where
  "password_clear d = d\<lparr>pd_buffer := []\<rparr>"

section \<open>The rolling buffer\<close>

lemma next_boundary_spec:
  "i \<le> length s \<Longrightarrow>
   i \<le> next_boundary s i \<and> next_boundary s i \<le> length s \<and> is_char_boundary s (next_boundary s i)
   \<and> (\<forall>j. i \<le> j \<and> j < next_boundary s i \<longrightarrow> \<not> is_char_boundary s j)"
proof (induction s i rule: next_boundary.induct)
  case (1 s i)
  show ?case
  proof (cases "is_char_boundary s i \<or> length s \<le> i")
    case True
    with "1.prems" show ?thesis by (auto simp: next_boundary.simps [of s i] is_char_boundary_def)
  next
    case False
    with "1.IH" show ?thesis
      by (auto simp: next_boundary.simps [of s i]) (metis Suc_leI le_neq_implies_less)
  qed
qed

lemma next_boundary_eqI:
  assumes "i \<le> k" and "k \<le> length s" and "is_char_boundary s k"
    and "\<And>j. i \<le> j \<Longrightarrow> j < k \<Longrightarrow> \<not> is_char_boundary s j"
  shows "next_boundary s i = k"
proof -
  have "i \<le> length s" using assms(1,2) by simp
  from next_boundary_spec [OF this] assms show ?thesis
    by (metis linorder_neqE_nat)
qed

lemma length_cap_buffer: "length (cap_buffer s) \<le> BUFFER_CAP"
  using next_boundary_spec [of "length s - BUFFER_CAP" s] by (auto simp: cap_buffer_def)

lemma cap_buffer_suffix: "suffix (cap_buffer s) s"
  by (simp add: cap_buffer_def suffix_drop)

lemma utf8_step_continuations:
  "utf8_step bs = (True, n) \<Longrightarrow> bs \<noteq> [] \<Longrightarrow> 0 < j \<Longrightarrow> j < n \<Longrightarrow> is_cont (bs ! j)"
proof -
  assume st: "utf8_step bs = (True, n)" and ne: "bs \<noteq> []" and j: "0 < j" "j < n"
  have "n \<le> length bs" using utf8_step_length [OF ne] st by simp
  then have get: "safe_get bs j = bs ! j" using j by (simp add: safe_get_def)
  have c3: "is_cont c" if "ok_second3 b c" for b c
    using that by (auto simp: ok_second3_def is_cont_def word_le_nat_alt)
  have c4: "is_cont c" if "ok_second4 b c" for b c
    using that by (auto simp: ok_second4_def is_cont_def word_le_nat_alt)
  have "j = 1 \<or> j = 2 \<or> j = 3"
    using j utf8_step_bound [of bs] st by auto
  then have "is_cont (safe_get bs j)"
    by (elim disjE) (use st j in \<open>auto simp: utf8_step_def Let_def split: if_splits dest: c3 c4\<close>)
  then show ?thesis by (simp add: get)
qed

lemma valid_utf8_drop: "valid_utf8 s \<Longrightarrow> is_char_boundary s i \<Longrightarrow> valid_utf8 (drop i s)"
proof (induction s arbitrary: i rule: valid_utf8.induct)
  case (1 s)
  show ?case
  proof (cases "s = []")
    case False
    let ?n = "snd (utf8_step s)"
    have ok: "fst (utf8_step s)" and rest: "valid_utf8 (drop ?n s)"
      using "1.prems"(1) False by (simp_all add: valid_utf8.simps [of s] split: if_splits)
    have st: "utf8_step s = (True, ?n)" using ok by (simp add: prod_eq_iff)
    have n: "?n \<le> length s" "0 < ?n" using utf8_step_length [OF False] utf8_step_pos by auto
    consider "i = 0" | "0 < i" "i < ?n" | "?n \<le> i" by linarith
    then show ?thesis
    proof cases
      case 2
      with utf8_step_continuations [OF st False 2] "1.prems"(2) n show ?thesis
        by (auto simp: is_char_boundary_def)
    next
      case 3
      have "is_char_boundary (drop ?n s) (i - ?n)"
        using "1.prems"(2) 3 n by (auto simp: is_char_boundary_def)
      from "1.IH" [OF False ok rest this] 3 show ?thesis by simp
    qed (use "1.prems" in simp)
  qed simp
qed

lemma valid_utf8_cap_buffer: "valid_utf8 s \<Longrightarrow> valid_utf8 (cap_buffer s)"
  using next_boundary_spec [of "length s - BUFFER_CAP" s]
  by (auto simp: cap_buffer_def intro: valid_utf8_drop)

lemma is_cont_width: "is_cont b \<Longrightarrow> utf8_width b = 0"
  by (auto simp: is_cont_def utf8_width_def word_le_nat_alt word_less_nat_alt)

lemma valid_utf8_first:
  assumes "valid_utf8 s" and "s \<noteq> []"
  shows "\<not> is_cont (s ! 0)"
proof
  assume "is_cont (s ! 0)"
  then have "utf8_step s = (False, 1)"
    using assms(2) is_cont_width [of "s ! 0"] by (simp add: utf8_step_def safe_get_def)
  with assms show False by (simp add: valid_utf8.simps [of s])
qed

lemma boundary_drop:
  "0 < j \<Longrightarrow> p \<le> length s \<Longrightarrow> is_char_boundary (drop p s) j \<longleftrightarrow> is_char_boundary s (p + j)"
  by (auto simp: is_char_boundary_def)

text \<open>Capping as one goes is capping once at the end.\<close>

lemma cap_buffer_append:
  assumes "valid_utf8 x" and "valid_utf8 y"
  shows "cap_buffer (cap_buffer x @ y) = cap_buffer (x @ y)"
proof (cases "BUFFER_CAP < length x")
  case True
  define p where "p = next_boundary x (length x - BUFFER_CAP)"
  let ?s = "x @ y"
  have p: "length x - BUFFER_CAP \<le> p" "p \<le> length x" "is_char_boundary x p"
    and p_min: "\<And>j. length x - BUFFER_CAP \<le> j \<Longrightarrow> j < p \<Longrightarrow> \<not> is_char_boundary x j"
    using next_boundary_spec [of "length x - BUFFER_CAP" x] by (auto simp: p_def)
  have cx: "cap_buffer x @ y = drop p ?s" using True p(2) by (simp add: cap_buffer_def p_def)
  have p_s: "is_char_boundary ?s p"
    using p assms(2) valid_utf8_first [of y]
    by (cases "y = []") (auto simp: is_char_boundary_def nth_append)
  have low: "is_char_boundary ?s j \<longleftrightarrow> is_char_boundary x j" if "j < p" for j
    using that p(2) by (auto simp: is_char_boundary_def nth_append)
  have high: "is_char_boundary ?s (p + j) \<longleftrightarrow> is_char_boundary (drop p ?s) j"
    if "0 < j" for j
    using boundary_drop [of j p ?s] that p(2) by simp
  have big: "BUFFER_CAP < length ?s" using True by simp
  show ?thesis
  proof (cases "BUFFER_CAP < length (drop p ?s)")
    case False
    then have "next_boundary ?s (length ?s - BUFFER_CAP) = p"
      using p p_s p_min low True by (intro next_boundary_eqI) auto
    with False big cx show ?thesis by (simp add: cap_buffer_def)
  next
    case drop_big: True
    define q where "q = next_boundary (drop p ?s) (length (drop p ?s) - BUFFER_CAP)"
    have q: "length (drop p ?s) - BUFFER_CAP \<le> q" "q \<le> length (drop p ?s)"
      "is_char_boundary (drop p ?s) q"
      and q_min: "\<And>j. length (drop p ?s) - BUFFER_CAP \<le> j \<Longrightarrow> j < q
        \<Longrightarrow> \<not> is_char_boundary (drop p ?s) j"
      using next_boundary_spec [of "length (drop p ?s) - BUFFER_CAP" "drop p ?s"]
      by (auto simp: q_def)
    have nb: "next_boundary ?s (length ?s - BUFFER_CAP) = p + q"
    proof (rule next_boundary_eqI)
      show "length ?s - BUFFER_CAP \<le> p + q" "p + q \<le> length ?s" using q p(2) by auto
      show "is_char_boundary ?s (p + q)" using p_s q(3) high [of q] by (cases "q = 0") auto
    next
      fix j assume j: "length ?s - BUFFER_CAP \<le> j" "j < p + q"
      then have "p < j" using drop_big p(2) by simp
      with j q_min [of "j - p"] high [of "j - p"] show "\<not> is_char_boundary ?s j" by auto
    qed
    have "cap_buffer (drop p ?s) = drop q (drop p ?s)"
      using drop_big by (simp only: cap_buffer_def q_def if_True)
    also have "\<dots> = drop (p + q) ?s" by (simp only: drop_drop add.commute [of q p])
    also have "\<dots> = cap_buffer ?s" using big nb by (simp only: cap_buffer_def if_True)
    finally show ?thesis unfolding cx .
  qed
qed (simp add: cap_buffer_def)

section \<open>The detector over a stream\<close>

definition pd_inv :: "password_detector \<Rightarrow> bool" where
  "pd_inv d \<longleftrightarrow> length (pd_buffer d) \<le> BUFFER_CAP \<and> valid_utf8 (pd_buffer d)"

lemma pd_inv_new [simp]: "pd_inv (password_detector_new hp)"
  by (simp add: pd_inv_def password_detector_new_def)

lemma pd_inv_clear [simp]: "pd_inv (password_clear d)"
  by (simp add: pd_inv_def password_clear_def)

lemma password_feed_inv:
  "pd_inv d \<Longrightarrow> pd_inv (snd (password_feed su ge data d))"
  by (auto simp: password_feed_def pd_inv_def Let_def length_cap_buffer valid_utf8_append
      intro!: valid_utf8_cap_buffer extract_valid_utf8_valid)

fun password_run ::
  "(bytes \<Rightarrow> bool) \<Rightarrow> (bytes \<Rightarrow> bool) \<Rightarrow> bytes list \<Rightarrow> password_detector \<Rightarrow> password_detector" where
  "password_run su ge [] d = d"
| "password_run su ge (c # cs) d = password_run su ge cs (snd (password_feed su ge c d))"

lemma cap_buffer_id: "length s \<le> BUFFER_CAP \<Longrightarrow> cap_buffer s = s"
  by (simp add: cap_buffer_def)

lemma password_feed_buffer:
  assumes "has_password d" and "pd_inv d"
  shows "pd_buffer (snd (password_feed su ge c d)) = cap_buffer (pd_buffer d @ extract_valid_utf8 c)"
    and "has_password (snd (password_feed su ge c d))"
  using assms by (auto simp: password_feed_def Let_def pd_inv_def cap_buffer_id)

lemma valid_utf8_concat: "(\<And>x. x \<in> set xs \<Longrightarrow> valid_utf8 x) \<Longrightarrow> valid_utf8 (concat xs)"
  by (induction xs) (simp_all add: valid_utf8_append)

text \<open>
  The buffer is the end of all the text seen so far, cut at a character boundary, however
  the stream was split into chunks.
\<close>

lemma password_run_buffer:
  "has_password d \<Longrightarrow> pd_inv d \<Longrightarrow>
   pd_buffer (password_run su ge cs d)
     = cap_buffer (pd_buffer d @ concat (map extract_valid_utf8 cs))"
proof (induction cs arbitrary: d)
  case Nil
  then show ?case by (simp add: pd_inv_def cap_buffer_id)
next
  case (Cons c cs)
  let ?d = "snd (password_feed su ge c d)"
  let ?rest = "concat (map extract_valid_utf8 cs)"
  have "valid_utf8 (pd_buffer d @ extract_valid_utf8 c)"
    using Cons.prems(2) by (simp add: pd_inv_def valid_utf8_append extract_valid_utf8_valid)
  moreover have "valid_utf8 ?rest"
    by (rule valid_utf8_concat) (auto simp: extract_valid_utf8_valid)
  moreover have "pd_buffer (password_run su ge cs ?d) = cap_buffer (pd_buffer ?d @ ?rest)"
    using Cons.prems by (intro Cons.IH) (simp_all add: password_feed_buffer password_feed_inv)
  ultimately show ?case
    using Cons.prems by (simp add: password_feed_buffer cap_buffer_append)
qed


section \<open>Properties\<close>

text \<open> The detector's buffer is a pure function of the text seen so far: after any chunks of
  output it is the tail of their valid text cut to at most 256 bytes at a character boundary,
  however the output was split.\<close>

lemma password_buffer_is_tail:
  "let d = password_run su ge cs (password_detector_new True) in
     pd_buffer d = cap_buffer (concat (map extract_valid_utf8 cs))
     \<and> suffix (pd_buffer d) (concat (map extract_valid_utf8 cs))
     \<and> length (pd_buffer d) \<le> 256 \<and> valid_utf8 (pd_buffer d)"
proof -
  let ?t = "concat (map extract_valid_utf8 cs)"
  have b: "pd_buffer (password_run su ge cs (password_detector_new True)) = cap_buffer ?t"
    using password_run_buffer [OF _ pd_inv_new, of True su ge cs]
    by (simp add: password_detector_new_def)
  have "valid_utf8 ?t" by (rule valid_utf8_concat) (auto simp: extract_valid_utf8_valid)
  then show ?thesis
    using length_cap_buffer [of ?t]
    by (simp add: b Let_def cap_buffer_suffix valid_utf8_cap_buffer BUFFER_CAP_def)
qed

text \<open> A detector without a stored password never reports a prompt and keeps nothing of the
  output; with one, a sudo prompt takes precedence and a report implies that a pattern matches
  the text in the buffer.\<close>

lemma password_report_sound:
  "(\<not> has_password d \<longrightarrow> password_feed su ge data d = (NoPrompt, d))
   \<and> (case password_feed su ge data d of (k, d') \<Rightarrow>
        (k = Sudo \<longrightarrow> su (pd_buffer d')) \<and> (k = Generic \<longrightarrow> ge (pd_buffer d') \<and> \<not> su (pd_buffer d')))"
  by (auto simp: password_feed_def Let_def)

lemma password_report_sound_witness:
  "password_feed (\<lambda>_. True) (\<lambda>_. True) [0x61] (password_detector_new False)
     = (NoPrompt, password_detector_new False)"
  using password_report_sound [of "password_detector_new False" "\<lambda>_. True" "\<lambda>_. True" "[0x61]"]
  by (simp add: password_detector_new_def)

end
