(* ===== verification/Rust_Str.thy ===== *)
theory Rust_Str
  imports Prelude
begin

text \<open>
  The string operations of Rust's standard library that the application code uses, on the
  type \<open>string\<close>. A \<open>char\<close> stands for the Unicode scalar value of the same number, so the
  model is exact for text whose code points are below 256; the character classes, the case
  mapping and the byte length are those of that range.
\<close>

section \<open>Characters\<close>

definition code :: "char \<Rightarrow> nat" where
  "code c = of_char c"

lemma code_less [simp]: "code c < 256"
  by (simp add: code_def)

lemma code_inject [simp]: "code c = code d \<longleftrightarrow> c = d"
  by (simp add: code_def)

text \<open>\<open>char::is_whitespace\<close>.\<close>

definition is_whitespace :: "char \<Rightarrow> bool" where
  "is_whitespace c \<longleftrightarrow> (9 \<le> code c \<and> code c \<le> 13) \<or> code c = 32 \<or> code c = 133 \<or> code c = 160"

definition is_ascii_digit :: "char \<Rightarrow> bool" where
  "is_ascii_digit c \<longleftrightarrow> 48 \<le> code c \<and> code c \<le> 57"

text \<open>\<open>char::is_control\<close> and \<open>char::is_ascii_control\<close>.\<close>

definition is_control :: "char \<Rightarrow> bool" where
  "is_control c \<longleftrightarrow> code c < 32 \<or> (127 \<le> code c \<and> code c \<le> 159)"

definition is_ascii_control :: "char \<Rightarrow> bool" where
  "is_ascii_control c \<longleftrightarrow> code c < 32 \<or> code c = 127"

definition is_ascii_alpha :: "char \<Rightarrow> bool" where
  "is_ascii_alpha c \<longleftrightarrow> (65 \<le> code c \<and> code c \<le> 90) \<or> (97 \<le> code c \<and> code c \<le> 122)"

definition is_ascii_alphanumeric :: "char \<Rightarrow> bool" where
  "is_ascii_alphanumeric c \<longleftrightarrow> is_ascii_alpha c \<or> is_ascii_digit c"

text \<open>\<open>char::is_alphanumeric\<close>: the letters and the numbers of the range.\<close>

definition is_alphanumeric :: "char \<Rightarrow> bool" where
  "is_alphanumeric c \<longleftrightarrow> is_ascii_alphanumeric c
     \<or> code c \<in> {0xAA, 0xB2, 0xB3, 0xB5, 0xB9, 0xBA, 0xBC, 0xBD, 0xBE}
     \<or> (0xC0 \<le> code c \<and> code c \<noteq> 0xD7 \<and> code c \<noteq> 0xF7)"

definition ascii_lower :: "char \<Rightarrow> char" where
  "ascii_lower c = (if 65 \<le> code c \<and> code c \<le> 90 then char_of (code c + 32) else c)"

definition lower_char :: "char \<Rightarrow> char" where
  "lower_char c =
     (if (65 \<le> code c \<and> code c \<le> 90)
         \<or> (0xC0 \<le> code c \<and> code c \<le> 0xDE \<and> code c \<noteq> 0xD7)
      then char_of (code c + 32) else c)"

definition utf8_len :: "char \<Rightarrow> nat" where
  "utf8_len c = (if code c < 128 then 1 else 2)"

section \<open>Strings\<close>

text \<open>\<open>str::len\<close> counts bytes; \<open>str::as_bytes\<close> is the UTF-8 encoding.\<close>

definition str_len :: "string \<Rightarrow> nat" where
  "str_len s = sum_list (map utf8_len s)"

definition char_bytes :: "char \<Rightarrow> bytes" where
  "char_bytes c =
     (if code c < 128 then [word_of_nat (code c)]
      else [word_of_nat (0xC0 + code c div 64), word_of_nat (0x80 + code c mod 64)])"

definition str_bytes :: "string \<Rightarrow> bytes" where
  "str_bytes s = concat (map char_bytes s)"

lemma length_str_bytes: "length (str_bytes s) = str_len s"
  by (induction s) (simp_all add: str_bytes_def str_len_def char_bytes_def utf8_len_def)

definition to_ascii_lowercase :: "string \<Rightarrow> string" where
  "to_ascii_lowercase s = map ascii_lower s"

definition to_lowercase :: "string \<Rightarrow> string" where
  "to_lowercase s = map lower_char s"

definition eq_ignore_ascii_case :: "string \<Rightarrow> string \<Rightarrow> bool" where
  "eq_ignore_ascii_case s t \<longleftrightarrow> to_ascii_lowercase s = to_ascii_lowercase t"

definition trim_start :: "string \<Rightarrow> string" where
  "trim_start s = dropWhile is_whitespace s"

definition trim_end :: "string \<Rightarrow> string" where
  "trim_end s = rev (dropWhile is_whitespace (rev s))"

definition trim :: "string \<Rightarrow> string" where
  "trim s = trim_end (trim_start s)"

fun strip_prefix :: "string \<Rightarrow> string \<Rightarrow> string option" where
  "strip_prefix [] s = Some s"
| "strip_prefix (p # ps) [] = None"
| "strip_prefix (p # ps) (c # cs) = (if p = c then strip_prefix ps cs else None)"

definition starts_with :: "string \<Rightarrow> string \<Rightarrow> bool" where
  "starts_with p s \<longleftrightarrow> strip_prefix p s \<noteq> None"

definition strip_suffix :: "string \<Rightarrow> string \<Rightarrow> string option" where
  "strip_suffix p s = map_option rev (strip_prefix (rev p) (rev s))"

definition ends_with :: "string \<Rightarrow> string \<Rightarrow> bool" where
  "ends_with p s \<longleftrightarrow> strip_suffix p s \<noteq> None"

text \<open>\<open>str::split\<close> on a character class: always at least one piece.\<close>

fun split_by :: "(char \<Rightarrow> bool) \<Rightarrow> string \<Rightarrow> string list" where
  "split_by p [] = [[]]"
| "split_by p (c # cs) =
     (if p c then [] # split_by p cs
      else case split_by p cs of [] \<Rightarrow> [[c]] | w # ws \<Rightarrow> (c # w) # ws)"

definition split_on :: "char \<Rightarrow> string \<Rightarrow> string list" where
  "split_on d s = split_by (\<lambda>c. c = d) s"

definition split_whitespace :: "string \<Rightarrow> string list" where
  "split_whitespace s = filter (\<lambda>w. w \<noteq> []) (split_by is_whitespace s)"

text \<open>
  \<open>str::lines\<close>: the pieces between newlines, without an empty last piece; a carriage return
  before a newline belongs to it.
\<close>

definition strip_cr :: "string \<Rightarrow> string" where
  "strip_cr l = (case strip_suffix [CHR 0x0D] l of Some l' \<Rightarrow> l' | None \<Rightarrow> l)"

definition str_lines :: "string \<Rightarrow> string list" where
  "str_lines s =
     (let ps = split_on (CHR 0x0A) s in
      map strip_cr (butlast ps) @ (if last ps = [] then [] else [last ps]))"

text \<open>\<open>str::split_once\<close> and \<open>str::rsplit_once\<close> on a character.\<close>

definition split_once :: "char \<Rightarrow> string \<Rightarrow> (string \<times> string) option" where
  "split_once d s =
     (case dropWhile (\<lambda>c. c \<noteq> d) s of
        [] \<Rightarrow> None
      | _ # rest \<Rightarrow> Some (takeWhile (\<lambda>c. c \<noteq> d) s, rest))"

definition rsplit_once :: "char \<Rightarrow> string \<Rightarrow> (string \<times> string) option" where
  "rsplit_once d s = map_option (\<lambda>(a, b). (rev b, rev a)) (split_once d (rev s))"

text \<open>\<open>str::parse\<close> of an unsigned integer below \<open>bound\<close>: an optional plus sign, digits only.\<close>

definition digit_value :: "char \<Rightarrow> nat" where
  "digit_value c = code c - 48"

definition digits_value :: "string \<Rightarrow> nat" where
  "digits_value s = foldl (\<lambda>n c. n * 10 + digit_value c) 0 s"

definition parse_unsigned :: "nat \<Rightarrow> string \<Rightarrow> nat option" where
  "parse_unsigned bound s =
     (let ds = (case s of c # cs \<Rightarrow> if c = CHR ''+'' then cs else s | [] \<Rightarrow> s) in
      if ds \<noteq> [] \<and> list_all is_ascii_digit ds \<and> digits_value ds < bound
      then Some (digits_value ds) else None)"

definition parse_u16 :: "string \<Rightarrow> u16 option" where
  "parse_u16 s = map_option word_of_nat (parse_unsigned (2 ^ 16) s)"

text \<open>\<open>slice::join\<close>.\<close>

fun join_with :: "string \<Rightarrow> string list \<Rightarrow> string" where
  "join_with sep [] = []"
| "join_with sep [x] = x"
| "join_with sep (x # y # ys) = x @ sep @ join_with sep (y # ys)"

text \<open>\<open>str::replace\<close>, for a text to replace that is not empty.\<close>

fun str_replace :: "nat \<Rightarrow> string \<Rightarrow> string \<Rightarrow> string \<Rightarrow> string" where
  "str_replace 0 a b s = s"
| "str_replace (Suc n) a b [] = []"
| "str_replace (Suc n) a b (c # cs) =
     (case strip_prefix a (c # cs) of
        Some rest \<Rightarrow> b @ str_replace n a b rest
      | None \<Rightarrow> c # str_replace n a b cs)"

section \<open>Lemmas\<close>

lemma split_by_not_Nil [simp]: "split_by p s \<noteq> []"
  by (induction s) (auto split: list.splits)

lemma split_by_append_sep:
  "list_all (\<lambda>c. \<not> p c) w \<Longrightarrow> p d \<Longrightarrow> split_by p (w @ d # s) = w # split_by p s"
  by (induction w) (auto split: list.splits)

lemma split_by_none: "list_all (\<lambda>c. \<not> p c) w \<Longrightarrow> split_by p w = [w]"
  by (induction w) auto

lemma split_by_append:
  "split_by p (s @ t) =
     butlast (split_by p s) @ (last (split_by p s) @ hd (split_by p t)) # tl (split_by p t)"
proof (induction s)
  case Nil
  show ?case by (cases "split_by p t") auto
next
  case (Cons c s)
  obtain w ws where w: "split_by p s = w # ws" by (cases "split_by p s") auto
  show ?case using Cons by (cases ws) (auto simp: w)
qed

lemma split_by_pieces: "w \<in> set (split_by p s) \<Longrightarrow> list_all (\<lambda>c. \<not> p c) w"
proof (induction s arbitrary: w)
  case (Cons c s)
  then show ?case by (cases "split_by p s") (auto split: if_splits)
qed simp

lemma concat_split_by: "concat (split_by p s) = filter (\<lambda>c. \<not> p c) s"
proof (induction s)
  case (Cons c s)
  then show ?case by (cases "split_by p s") auto
qed simp

lemma strip_prefix_Some_iff: "strip_prefix p s = Some r \<longleftrightarrow> s = p @ r"
  by (induction p s rule: strip_prefix.induct) auto

lemma strip_suffix_Some_iff: "strip_suffix p s = Some r \<longleftrightarrow> s = r @ p"
  by (auto simp: strip_suffix_def strip_prefix_Some_iff rev_swap)

lemma starts_with_iff: "starts_with p s \<longleftrightarrow> (\<exists>r. s = p @ r)"
  by (auto simp: starts_with_def strip_prefix_Some_iff)

lemma set_trim_subset: "set (trim s) \<subseteq> set s"
proof
  fix c assume "c \<in> set (trim s)"
  then have "c \<in> set (rev (dropWhile is_whitespace s))"
    unfolding trim_def trim_end_def trim_start_def by (metis set_dropWhileD set_rev)
  then show "c \<in> set s" by (metis set_dropWhileD set_rev)
qed

lemma trim_start_no_ws: "s = [] \<or> \<not> is_whitespace (hd s) \<Longrightarrow> trim_start s = s"
  by (cases s) (auto simp: trim_start_def)

lemma trim_end_no_ws: "s = [] \<or> \<not> is_whitespace (last s) \<Longrightarrow> trim_end s = s"
  by (cases s rule: rev_cases) (auto simp: trim_end_def)

lemma trim_no_ws: "list_all (\<lambda>c. \<not> is_whitespace c) s \<Longrightarrow> trim s = s"
  by (cases "s = []") (simp_all add: trim_def trim_start_no_ws trim_end_no_ws list_all_iff)

lemma trim_id:
  "s = [] \<or> (\<not> is_whitespace (hd s) \<and> \<not> is_whitespace (last s)) \<Longrightarrow> trim s = s"
  by (auto simp: trim_def trim_start_no_ws trim_end_no_ws)

lemma split_whitespace_words:
  assumes "w \<in> set (split_whitespace s)"
  shows "w \<noteq> [] \<and> list_all (\<lambda>c. \<not> is_whitespace c) w"
  using assms split_by_pieces by (auto simp: split_whitespace_def)

lemma split_whitespace_Cons:
  assumes "w \<noteq> []" and "list_all (\<lambda>c. \<not> is_whitespace c) w"
  shows "split_whitespace (w @ CHR '' '' # s) = w # split_whitespace s"
proof -
  have "is_whitespace (CHR '' '')" by (simp add: is_whitespace_def code_def)
  from split_by_append_sep [of is_whitespace, OF assms(2) this] assms(1) show ?thesis
    by (simp add: split_whitespace_def)
qed

lemma split_whitespace_single:
  "w \<noteq> [] \<Longrightarrow> list_all (\<lambda>c. \<not> is_whitespace c) w \<Longrightarrow> split_whitespace w = [w]"
  by (simp add: split_whitespace_def split_by_none)

lemma str_lines_append_line:
  assumes "s = [] \<or> last s = CHR 0x0A" and "CHR 0x0A \<notin> set l" and "l = [] \<or> last l \<noteq> CHR 0x0D"
  shows "str_lines (s @ l @ [CHR 0x0A]) = str_lines s @ [l]"
proof -
  let ?nl = "\<lambda>c. c = CHR 0x0A"
  have lcr: "strip_cr l = l"
    using assms(3) by (auto simp: strip_cr_def strip_suffix_Some_iff split: option.splits)
  have l: "split_by ?nl (l @ [CHR 0x0A]) = [l, []]"
    using split_by_append_sep [of ?nl l "CHR 0x0A" "[]"] assms(2) by (simp add: list_all_iff) metis
  show ?thesis
  proof (cases "s = []")
    case True
    then show ?thesis by (simp add: str_lines_def split_on_def l lcr)
  next
    case False
    with assms(1) obtain s' where s: "s = s' @ [CHR 0x0A]" by (metis append_butlast_last_id)
    have "split_by ?nl s = butlast (split_by ?nl s') @ [last (split_by ?nl s'), []]"
      unfolding s by (simp add: split_by_append)
    then have last: "last (split_by ?nl s) = []" by simp
    have "split_by ?nl (s @ l @ [CHR 0x0A]) = butlast (split_by ?nl s) @ [l, []]"
      by (simp only: split_by_append [of ?nl s] l last) simp
    then show ?thesis
      using last by (simp add: str_lines_def split_on_def Let_def butlast_append lcr)
  qed
qed

lemma digits_value_snoc: "digits_value (s @ [c]) = digits_value s * 10 + digit_value c"
  by (simp add: digits_value_def)

lemma show_nat_digits: "list_all is_ascii_digit (show_nat n) \<and> digits_value (show_nat n) = n"
proof (induction n rule: show_nat.induct)
  case (1 n)
  have d: "is_ascii_digit (char_of (48 + k))" "digit_value (char_of (48 + k)) = k" if "k < 10" for k
    using that by (simp_all add: is_ascii_digit_def digit_value_def code_def)
  show ?case
  proof (cases "n < 10")
    case True
    then show ?thesis using d [of n]
      by (simp add: show_nat.simps [of n] digits_value_def)
  next
    case False
    with "1.IH" d [of "n mod 10"] show ?thesis
      by (simp add: show_nat.simps [of n] digits_value_snoc)
  qed
qed

lemma parse_show_nat: "n < bound \<Longrightarrow> parse_unsigned bound (show_nat n) = Some n"
proof -
  assume n: "n < bound"
  obtain c cs where c: "show_nat n = c # cs" by (cases "show_nat n") auto
  have "is_ascii_digit c" using show_nat_digits [of n] by (simp add: c)
  then have "c \<noteq> CHR ''+''" by (auto simp: is_ascii_digit_def code_def)
  with show_nat_digits [of n] n c show ?thesis by (simp add: parse_unsigned_def)
qed

lemma parse_u16_show: "parse_u16 (show_nat (unat p)) = Some p"
  by (simp add: parse_u16_def parse_show_nat)

end
