(* ===== verification/Known_Hosts.thy ===== *)
theory Known_Hosts
  imports Rust_Str
begin

text \<open>
  \<open>src/ssh/known_hosts.rs\<close> and the host key part of \<open>src/ssh/client.rs\<close>: the known_hosts
  matcher, the writer of a new entry and the handler's decision on a presented key.

  The base64, HMAC and SHA-2 crates are the record \<open>crypto\<close>, an argument of every definition
  that uses them. The file \<open>~/.ssh/known_hosts\<close>, the outcome of reading and writing it and the
  answer typed at the prompt are the record \<open>host_env\<close>; the warnings printed are not modelled.
\<close>

section \<open>The matcher\<close>

record crypto =
  b64_decode :: "string \<Rightarrow> bytes option"
  b64_encode :: "bytes \<Rightarrow> string"
  b64_encode_no_pad :: "bytes \<Rightarrow> string"
  hmac_sha1 :: "bytes \<Rightarrow> bytes \<Rightarrow> bytes option"
  sha256 :: "bytes \<Rightarrow> bytes"

record public_key =
  to_key_bytes :: "bytes option"
  algorithm :: string

datatype host_key_status =
    Known
  | Unknown string string
  | Changed string nat
  | Revoked string nat

definition host_pattern_of :: "string \<Rightarrow> u16 \<Rightarrow> string" where
  "host_pattern_of hostname port =
     (if port = 22 then hostname else ''['' @ hostname @ '']:'' @ show_nat (unat port))"

record known_host_entry =
  host_patterns :: "string list"
  entry_key_type :: string
  key_base64 :: string
  is_revoked :: bool

definition check_hashed_host :: "crypto \<Rightarrow> string \<Rightarrow> string \<Rightarrow> bool option" where
  "check_hashed_host c stored_pattern host_to_check =
     (let parts = split_on (CHR ''|'') stored_pattern in
      if length parts \<noteq> 4 \<or> parts ! 0 \<noteq> [] \<or> parts ! 1 \<noteq> ''1'' then None
      else case b64_decode c (parts ! 2) of
          None \<Rightarrow> None
        | Some salt \<Rightarrow> (case b64_decode c (parts ! 3) of
              None \<Rightarrow> None
            | Some stored_hash \<Rightarrow> (case hmac_sha1 c salt (str_bytes host_to_check) of
                  None \<Rightarrow> None
                | Some computed \<Rightarrow> Some (computed = stored_hash))))"

definition pattern_matches :: "crypto \<Rightarrow> string \<Rightarrow> string \<Rightarrow> bool" where
  "pattern_matches c host_pattern pattern \<longleftrightarrow>
     pattern = host_pattern \<or> check_hashed_host c pattern host_pattern = Some True"

definition matches_host :: "crypto \<Rightarrow> known_host_entry \<Rightarrow> string \<Rightarrow> bool" where
  "matches_host c e host_pattern \<longleftrightarrow> list_ex (pattern_matches c host_pattern) (host_patterns e)"

definition key_matches :: "crypto \<Rightarrow> known_host_entry \<Rightarrow> bytes \<Rightarrow> bool" where
  "key_matches c e server_key_data =
     (case b64_decode c (key_base64 e) of
        Some stored_bytes \<Rightarrow> stored_bytes = server_key_data
      | None \<Rightarrow> False)"

definition parse_known_hosts_line :: "string \<Rightarrow> known_host_entry option" where
  "parse_known_hosts_line line =
     (let parts = split_whitespace line in
      if length parts < 3 then None
      else
        let marked = starts_with ''@'' (parts ! 0);
            rev = marked \<and> eq_ignore_ascii_case (parts ! 0) ''@revoked'';
            base_idx = (if marked then 1 else 0)
        in if marked \<and> eq_ignore_ascii_case (parts ! 0) ''@cert-authority'' then None
           else if length parts < base_idx + 3 then None
           else
             let hosts_str = trim (parts ! base_idx);
                 key_type = trim (parts ! (base_idx + 1));
                 key = trim (parts ! (base_idx + 2))
             in if key = [] then None
                else Some \<lparr>host_patterns = map trim (split_on (CHR '','') hosts_str),
                           entry_key_type = key_type, key_base64 = key, is_revoked = rev\<rparr>)"

text \<open>The entry of one line of the file, if the loop looks at it at all.\<close>

definition line_entry :: "string \<Rightarrow> known_host_entry option" where
  "line_entry raw =
     (let line = trim raw in
      if line = [] \<or> starts_with ''#'' line then None else parse_known_hosts_line line)"

record scan_state =
  host_found :: bool
  key_matched :: bool
  last_changed_line :: nat

definition scan_start :: scan_state where
  "scan_start = \<lparr>host_found = False, key_matched = False, last_changed_line = 0\<rparr>"

text \<open>The loop over the lines: \<open>Inl\<close> is the early return at a revoked entry with its line.\<close>

fun scan_lines :: "crypto \<Rightarrow> string \<Rightarrow> bytes \<Rightarrow> nat \<Rightarrow> scan_state \<Rightarrow> string list
    \<Rightarrow> nat + scan_state" where
  "scan_lines c pat key n st [] = Inr st"
| "scan_lines c pat key n st (raw # rest) =
     (case line_entry raw of
        None \<Rightarrow> scan_lines c pat key (n + 1) st rest
      | Some entry \<Rightarrow>
          if \<not> matches_host c entry pat then scan_lines c pat key (n + 1) st rest
          else
            let st = st\<lparr>host_found := True\<rparr> in
            if key_matches c entry key then
              (if is_revoked entry then Inl (n + 1)
               else scan_lines c pat key (n + 1) (st\<lparr>key_matched := True\<rparr>) rest)
            else if \<not> is_revoked entry then
              scan_lines c pat key (n + 1) (st\<lparr>last_changed_line := n + 1\<rparr>) rest
            else scan_lines c pat key (n + 1) st rest)"

definition check_host_key_in_content ::
    "crypto \<Rightarrow> string \<Rightarrow> u16 \<Rightarrow> bytes \<Rightarrow> string \<Rightarrow> string \<Rightarrow> string \<Rightarrow> host_key_status" where
  "check_host_key_in_content c hostname port key fingerprint key_type content =
     (case scan_lines c (host_pattern_of hostname port) key 0 scan_start (str_lines content) of
        Inl line \<Rightarrow> Revoked fingerprint line
      | Inr st \<Rightarrow>
          if key_matched st then Known
          else if host_found st then Changed fingerprint (last_changed_line st)
          else Unknown fingerprint key_type)"

section \<open>Checking and adding a key\<close>

definition key_data :: "public_key \<Rightarrow> bytes" where
  "key_data k = (case to_key_bytes k of Some bs \<Rightarrow> bs | None \<Rightarrow> [])"

definition format_fingerprint :: "crypto \<Rightarrow> public_key \<Rightarrow> string" where
  "format_fingerprint c k = ''SHA256:'' @ b64_encode_no_pad c (sha256 c (key_data k))"

definition format_key_type :: "public_key \<Rightarrow> string" where
  "format_key_type k = algorithm k"

definition format_known_hosts_entry :: "crypto \<Rightarrow> string \<Rightarrow> public_key \<Rightarrow> string" where
  "format_known_hosts_entry c host_pattern k =
     host_pattern @ '' '' @ format_key_type k @ '' '' @ b64_encode c (key_data k)"

text \<open>
  The environment: the file (\<open>None\<close> where it does not exist), whether reading it fails, how
  appending ends, and the line typed at the prompt.
\<close>

datatype write_outcome = Write_fails | Chmod_fails | Write_ok

record host_env =
  known_hosts_file :: "string option"
  read_fails :: bool
  write_outcome :: write_outcome
  reply :: "string option"

datatype host_key_error = Read_error | Write_error | Prompt_error

definition check_host_key ::
    "crypto \<Rightarrow> host_env \<Rightarrow> string \<Rightarrow> u16 \<Rightarrow> public_key \<Rightarrow> host_key_error + host_key_status" where
  "check_host_key c env hostname port k =
     (case known_hosts_file env of
        None \<Rightarrow> Inr (Unknown (format_fingerprint c k) (format_key_type k))
      | Some content \<Rightarrow>
          if read_fails env then Inl Read_error
          else Inr (check_host_key_in_content c hostname port (key_data k)
                      (format_fingerprint c k) (format_key_type k) content))"

definition append_line :: "string option \<Rightarrow> string \<Rightarrow> string" where
  "append_line content entry = (case content of None \<Rightarrow> [] | Some s \<Rightarrow> s) @ entry @ [CHR 0x0A]"

definition add_host_key ::
    "crypto \<Rightarrow> host_env \<Rightarrow> string \<Rightarrow> u16 \<Rightarrow> public_key \<Rightarrow> (host_key_error + unit) \<times> host_env" where
  "add_host_key c env hostname port k =
     (let entry = format_known_hosts_entry c (host_pattern_of hostname port) k;
          env' = env\<lparr>known_hosts_file := Some (append_line (known_hosts_file env) entry)\<rparr>
      in case write_outcome env of
           Write_fails \<Rightarrow> (Inl Write_error, env)
         | Chmod_fails \<Rightarrow> (Inl Write_error, env')
         | Write_ok \<Rightarrow> (Inr (), env'))"

datatype host_key_check_mode = Strict | Accept_new | Off

definition mode_of_setting :: "string \<Rightarrow> host_key_check_mode" where
  "mode_of_setting s =
     (if to_lowercase s = ''accept-new'' then Accept_new
      else if to_lowercase s = ''off'' then Off
      else Strict)"

record sshore_handler =
  handler_hostname :: string
  handler_port :: u16
  check_mode :: host_key_check_mode

definition default_handler :: sshore_handler where
  "default_handler = \<lparr>handler_hostname = [], handler_port = 22, check_mode = Strict\<rparr>"

definition for_host :: "string \<Rightarrow> u16 \<Rightarrow> host_key_check_mode \<Rightarrow> sshore_handler" where
  "for_host hostname port mode =
     \<lparr>handler_hostname = hostname, handler_port = port, check_mode = mode\<rparr>"

text \<open>Accepting an unknown key: it is saved, and an error of that is the handler's error.\<close>

definition save_and_accept ::
    "crypto \<Rightarrow> host_env \<Rightarrow> sshore_handler \<Rightarrow> public_key \<Rightarrow> (host_key_error + bool) \<times> host_env" where
  "save_and_accept c env h k =
     (case add_host_key c env (handler_hostname h) (handler_port h) k of
        (Inl e, env') \<Rightarrow> (Inl e, env')
      | (Inr _, env') \<Rightarrow> (Inr True, env'))"

definition check_server_key ::
    "crypto \<Rightarrow> host_env \<Rightarrow> sshore_handler \<Rightarrow> public_key \<Rightarrow> (host_key_error + bool) \<times> host_env" where
  "check_server_key c env h k =
     (if check_mode h = Off then (Inr True, env)
      else if handler_hostname h = [] then (Inr True, env)
      else case check_host_key c env (handler_hostname h) (handler_port h) k of
          Inl e \<Rightarrow> (Inl e, env)
        | Inr Known \<Rightarrow> (Inr True, env)
        | Inr (Unknown _ _) \<Rightarrow>
            if check_mode h = Accept_new then save_and_accept c env h k
            else (case reply env of
                None \<Rightarrow> (Inl Prompt_error, env)
              | Some response \<Rightarrow>
                  if eq_ignore_ascii_case (trim response) ''yes'' then save_and_accept c env h k
                  else (Inr False, env))
        | Inr (Changed _ _) \<Rightarrow> (Inr False, env)
        | Inr (Revoked _ _) \<Rightarrow> (Inr False, env))"

section \<open>The policy the scan implements\<close>

text \<open>
  The entries for a host, with their line numbers, and the verdict as a table over them: a
  revoked entry with the presented key decides; otherwise any entry with the key; otherwise the
  last entry with another key.
\<close>

fun host_entries :: "crypto \<Rightarrow> string \<Rightarrow> nat \<Rightarrow> string list \<Rightarrow> (nat \<times> known_host_entry) list" where
  "host_entries c pat n [] = []"
| "host_entries c pat n (raw # rest) =
     (case line_entry raw of
        None \<Rightarrow> host_entries c pat (n + 1) rest
      | Some e \<Rightarrow>
          if matches_host c e pat then (n + 1, e) # host_entries c pat (n + 1) rest
          else host_entries c pat (n + 1) rest)"

definition revoked_key :: "crypto \<Rightarrow> bytes \<Rightarrow> nat \<times> known_host_entry \<Rightarrow> bool" where
  "revoked_key c key p \<longleftrightarrow> is_revoked (snd p) \<and> key_matches c (snd p) key"

definition other_key :: "crypto \<Rightarrow> bytes \<Rightarrow> nat \<times> known_host_entry \<Rightarrow> bool" where
  "other_key c key p \<longleftrightarrow> \<not> is_revoked (snd p) \<and> \<not> key_matches c (snd p) key"

definition last_line :: "nat \<Rightarrow> (nat \<times> known_host_entry) list \<Rightarrow> nat" where
  "last_line n ps = (if ps = [] then n else fst (last ps))"

definition verdict ::
    "crypto \<Rightarrow> bytes \<Rightarrow> string \<Rightarrow> string \<Rightarrow> (nat \<times> known_host_entry) list \<Rightarrow> host_key_status" where
  "verdict c key fingerprint key_type es =
     (case filter (revoked_key c key) es of
        (line, _) # _ \<Rightarrow> Revoked fingerprint line
      | [] \<Rightarrow>
          if list_ex (\<lambda>p. key_matches c (snd p) key) es then Known
          else if es \<noteq> [] then Changed fingerprint (last_line 0 (filter (other_key c key) es))
          else Unknown fingerprint key_type)"

lemma last_line_simps [simp]:
  "last_line n [] = n" "last_line n ((m, e) # ps) = last_line m ps"
  by (simp_all add: last_line_def)

lemma scan_lines_eq:
  "scan_lines c pat key n st ls =
     (let es = host_entries c pat n ls in
      case filter (revoked_key c key) es of
        (line, _) # _ \<Rightarrow> Inl line
      | [] \<Rightarrow> Inr \<lparr>host_found = (host_found st \<or> es \<noteq> []),
                key_matched = (key_matched st \<or> list_ex (\<lambda>p. key_matches c (snd p) key) es),
                last_changed_line = last_line (last_changed_line st) (filter (other_key c key) es)\<rparr>)"
proof (induction ls arbitrary: n st)
  case Nil
  show ?case by simp
next
  case (Cons raw rest)
  show ?case
  proof (cases "line_entry raw")
    case None
    then show ?thesis by (simp add: Cons)
  next
    case (Some e)
    show ?thesis
      by (cases "matches_host c e pat"; cases "key_matches c e key"; cases "is_revoked e")
        (simp_all add: Some Cons revoked_key_def other_key_def Let_def cong: list.case_cong)
  qed
qed

lemma check_host_key_verdict:
  "check_host_key_in_content c hostname port key fp kt content =
     verdict c key fp kt (host_entries c (host_pattern_of hostname port) 0 (str_lines content))"
  by (simp add: check_host_key_in_content_def scan_lines_eq verdict_def scan_start_def Let_def
      split: list.splits prod.splits)

lemma host_entries_append:
  "host_entries c pat n (ls @ ms) = host_entries c pat n ls @ host_entries c pat (n + length ls) ms"
  by (induction ls arbitrary: n) (simp_all split: option.splits)

lemma host_entries_key:
  "(i, e) \<in> set (host_entries c pat n ls) \<Longrightarrow> n < i \<and> i \<le> n + length ls
     \<and> line_entry (ls ! (i - n - 1)) = Some e \<and> matches_host c e pat"
proof (induction ls arbitrary: n)
  case Nil
  then show ?case by simp
next
  case (Cons l ls)
  have step: "(i, e) \<in> set (host_entries c pat (n + 1) ls) \<Longrightarrow> ?case"
    using Cons.IH [of "n + 1"] by (auto simp: nth_Cons split: nat.splits)
      (metis Suc_diff_Suc diff_Suc_Suc less_Suc_eq_le nat.inject not_less_eq_eq)+
  show ?case
    using Cons.prems step by (auto split: option.splits if_splits)
qed

section \<open>Saved entries\<close>

definition no_whitespace :: "string \<Rightarrow> bool" where
  "no_whitespace s \<longleftrightarrow> list_all (\<lambda>ch. \<not> is_whitespace ch) s"

text \<open>A host or key type name that the line format can carry.\<close>

definition plain_host :: "string \<Rightarrow> bool" where
  "plain_host h \<longleftrightarrow> h \<noteq> [] \<and> no_whitespace h \<and> CHR '','' \<notin> set h \<and> CHR ''|'' \<notin> set h
     \<and> hd h \<noteq> CHR ''#'' \<and> hd h \<noteq> CHR ''@''"

definition plain_word :: "string \<Rightarrow> bool" where
  "plain_word w \<longleftrightarrow> w \<noteq> [] \<and> no_whitespace w"

text \<open>What the base64 crate documents of its standard engine, as far as the file needs it.\<close>

definition base64_round_trip :: "crypto \<Rightarrow> bool" where
  "base64_round_trip c \<longleftrightarrow> (\<forall>bs. b64_decode c (b64_encode c bs) = Some bs
     \<and> no_whitespace (b64_encode c bs) \<and> (bs \<noteq> [] \<longrightarrow> b64_encode c bs \<noteq> []))"

definition ends_with_newline :: "string option \<Rightarrow> bool" where
  "ends_with_newline content \<longleftrightarrow>
     (case content of None \<Rightarrow> True | Some s \<Rightarrow> s = [] \<or> last s = CHR 0x0A)"

definition file_lines :: "host_env \<Rightarrow> string list" where
  "file_lines env = str_lines (case known_hosts_file env of None \<Rightarrow> [] | Some s \<Rightarrow> s)"

lemma no_whitespace_digits: "no_whitespace (show_nat n)"
proof -
  have "list_all is_ascii_digit (show_nat n)" using show_nat_digits by blast
  then show ?thesis
    unfolding no_whitespace_def
    by (rule list.pred_mono_strong) (auto simp: is_ascii_digit_def is_whitespace_def)
qed

lemma show_nat_no_char: "\<not> is_ascii_digit d \<Longrightarrow> d \<notin> set (show_nat n)"
  using show_nat_digits [of n] by (auto simp: list_all_iff)

lemma host_pattern_plain:
  assumes "plain_host h"
  shows "plain_host (host_pattern_of h port)"
proof (cases "port = 22")
  case True
  then show ?thesis using assms by (simp add: host_pattern_of_def)
next
  case False
  have "CHR '','' \<notin> set (show_nat k)" "CHR ''|'' \<notin> set (show_nat k)" for k
    by (rule show_nat_no_char, simp add: is_ascii_digit_def code_def)+
  moreover have "\<not> is_whitespace (CHR ''['')" "\<not> is_whitespace (CHR '']'')"
      "\<not> is_whitespace (CHR '':'')"
    by (simp_all add: is_whitespace_def code_def)
  ultimately show ?thesis
    using assms no_whitespace_digits [of "unat port"] False
    by (simp add: plain_host_def host_pattern_of_def no_whitespace_def)
qed

lemma split_on_absent: "d \<notin> set s \<Longrightarrow> split_on d s = [s]"
  unfolding split_on_def by (rule split_by_none) (auto simp: list_all_iff)

lemma not_hashed: "CHR ''|'' \<notin> set p \<Longrightarrow> check_hashed_host c p h = None"
  by (simp add: check_hashed_host_def split_on_absent)

lemma line_entry_formatted:
  assumes pat: "plain_host pat" and kt: "plain_word (algorithm k)"
    and b64: "base64_round_trip c" and key: "key_data k \<noteq> []"
  defines "line \<equiv> format_known_hosts_entry c pat k"
  shows "line_entry line = Some \<lparr>host_patterns = [pat], entry_key_type = algorithm k,
           key_base64 = b64_encode c (key_data k), is_revoked = False\<rparr>"
    and "line \<noteq> [] \<and> CHR 0x0A \<notin> set line \<and> last line \<noteq> CHR 0x0D"
proof -
  let ?b = "b64_encode c (key_data k)"
  have b: "no_whitespace ?b" "?b \<noteq> []" using b64 key by (auto simp: base64_round_trip_def)
  have p: "pat \<noteq> []" "no_whitespace pat" "CHR '','' \<notin> set pat"
      "hd pat \<noteq> CHR ''#''" "hd pat \<noteq> CHR ''@''"
    using pat by (auto simp: plain_host_def)
  have a: "algorithm k \<noteq> []" "no_whitespace (algorithm k)" using kt by (auto simp: plain_word_def)
  have line: "line = pat @ CHR '' '' # algorithm k @ CHR '' '' # ?b"
    by (simp add: line_def format_known_hosts_entry_def format_key_type_def)
  have words: "split_whitespace line = [pat, algorithm k, ?b]"
    unfolding line using p a b
    by (simp add: split_whitespace_Cons split_whitespace_single no_whitespace_def)
  have ends: "\<not> is_whitespace (hd line)" "\<not> is_whitespace (last line)"
    using p b by (auto simp: line no_whitespace_def list_all_iff)
  have trim: "trim line = line" by (rule trim_id) (use ends in simp)
  have hd: "hd line = hd pat" using p by (simp add: line)
  have ne: "line \<noteq> []" by (simp add: line)
  have starts: "\<not> starts_with ''#'' line" "\<not> starts_with ''@'' pat"
    using p hd ne by (auto simp: starts_with_iff)
  have trims: "trim pat = pat" "trim (algorithm k) = algorithm k" "trim ?b = ?b"
    using p a b by (simp_all add: trim_no_ws no_whitespace_def)
  show "line_entry line = Some \<lparr>host_patterns = [pat], entry_key_type = algorithm k,
      key_base64 = ?b, is_revoked = False\<rparr>"
    using starts ne b p
    by (simp add: line_entry_def trim parse_known_hosts_line_def words trims split_on_absent)
  have nl: "is_whitespace (CHR 0x0A)" "is_whitespace (CHR 0x0D)"
    by (simp_all add: is_whitespace_def code_def)
  from ends nl(2) have cr: "last line \<noteq> CHR 0x0D" by metis
  have "CHR 0x0A \<notin> set line" using nl(1) p a b by (auto simp: line no_whitespace_def list_all_iff)
  with ne cr show "line \<noteq> [] \<and> CHR 0x0A \<notin> set line \<and> last line \<noteq> CHR 0x0D" by simp
qed

lemma file_lines_append:
  assumes "ends_with_newline (known_hosts_file env)" and "CHR 0x0A \<notin> set l"
    and "last l \<noteq> CHR 0x0D"
  shows "str_lines (append_line (known_hosts_file env) l) = file_lines env @ [l]"
  using assms str_lines_append_line [of "case known_hosts_file env of None \<Rightarrow> [] | Some s \<Rightarrow> s" l]
  by (simp add: append_line_def file_lines_def ends_with_newline_def split: option.splits)

section \<open>A concrete instance for the witnesses\<close>

text \<open>Hexadecimal instead of base64, and hashes that never match.\<close>

definition hex_digit :: "nat \<Rightarrow> char" where
  "hex_digit n = char_of (65 + n)"

fun hex_encode :: "bytes \<Rightarrow> string" where
  "hex_encode [] = []"
| "hex_encode (b # bs) = hex_digit (unat b div 16) # hex_digit (unat b mod 16) # hex_encode bs"

fun hex_decode :: "string \<Rightarrow> bytes option" where
  "hex_decode [] = Some []"
| "hex_decode [_] = None"
| "hex_decode (a # b # s) =
     map_option (\<lambda>bs. word_of_nat ((code a - 65) * 16 + (code b - 65)) # bs) (hex_decode s)"

definition hex_crypto :: crypto where
  "hex_crypto = \<lparr>b64_decode = hex_decode, b64_encode = hex_encode,
     b64_encode_no_pad = hex_encode, hmac_sha1 = (\<lambda>_ _. None), sha256 = (\<lambda>bs. bs)\<rparr>"

lemma hex_round_trip: "base64_round_trip hex_crypto"
proof -
  have nibbles: "unat (b :: byte) div 16 < 16" for b
    using unat_byte_less [of b] by (simp add: div_less_iff_less_mult)
  have code: "code (hex_digit n) = 65 + n" if "n < 16" for n
    using that by (simp add: code_def hex_digit_def)
  have ws: "\<not> is_whitespace (hex_digit n)" if "n < 16" for n
    using that by (simp add: is_whitespace_def code)
  have "hex_decode (hex_encode bs) = Some bs \<and> no_whitespace (hex_encode bs)" for bs
    by (induction bs) (simp_all add: code ws nibbles no_whitespace_def)
  moreover have "bs \<noteq> [] \<Longrightarrow> hex_encode bs \<noteq> []" for bs by (cases bs) simp_all
  ultimately show ?thesis by (simp add: base64_round_trip_def hex_crypto_def)
qed

definition sample_key :: public_key where
  "sample_key = \<lparr>to_key_bytes = Some [1, 2], algorithm = ''ssh-rsa''\<rparr>"

definition other_sample_key :: public_key where
  "other_sample_key = \<lparr>to_key_bytes = Some [3], algorithm = ''ssh-rsa''\<rparr>"

definition sample_env :: "string option \<Rightarrow> host_env" where
  "sample_env content = \<lparr>known_hosts_file = content, read_fails = False,
     write_outcome = Write_ok, reply = Some ''yes''\<rparr>"

definition newline :: string where
  "newline = [CHR 0x0A]"

definition revoked_file :: string where
  "revoked_file = ''h ssh-rsa BC'' @ newline @ ''@revoked h ssh-rsa ABAC'' @ newline"

section \<open>Properties\<close>

text \<open>
   the verdict on a presented key is a table over all entries of the file for the host,
  whatever their order: revoked if some revoked entry carries the key (its first line is
  reported); otherwise known if some entry carries it; otherwise changed if there is an entry at
  all, with the last line that has another key; otherwise unknown.
\<close>

lemma host_key_verdict_table:
  "check_host_key_in_content c hostname port key fp kt content =
     verdict c key fp kt (host_entries c (host_pattern_of hostname port) 0 (str_lines content))"
  by (rule check_host_key_verdict)

text \<open>
   a presented key that some revoked entry for the host carries is refused and the file is
  left alone, wherever the entry stands and whatever else the file says, unless checking is off.
\<close>

lemma revoked_key_refused:
  assumes "check_mode h \<noteq> Off" and "handler_hostname h \<noteq> []"
    and "known_hosts_file env = Some content" and "\<not> read_fails env"
    and "(line, e) \<in> set (host_entries c (host_pattern_of (handler_hostname h) (handler_port h)) 0
           (str_lines content))"
    and "is_revoked e" and "key_matches c e (key_data k)"
  shows "check_server_key c env h k = (Inr False, env)"
proof -
  let ?es = "host_entries c (host_pattern_of (handler_hostname h) (handler_port h)) 0
    (str_lines content)"
  have "filter (revoked_key c (key_data k)) ?es \<noteq> []"
    using assms(5-7) by (force simp: filter_empty_conv revoked_key_def)
  then obtain n e' ps where "filter (revoked_key c (key_data k)) ?es = (n, e') # ps"
    by (metis list.exhaust surj_pair)
  then show ?thesis
    using assms(1-4) by (simp add: check_server_key_def check_host_key_def
        check_host_key_verdict verdict_def)
qed

lemma revoked_key_refused_witness:
  "check_server_key hex_crypto (sample_env (Some revoked_file)) (for_host ''h'' 22 Accept_new)
     sample_key = (Inr False, sample_env (Some revoked_file))"
  by (rule revoked_key_refused [where content = revoked_file and line = 2 and
        e = "\<lparr>host_patterns = [''h''], entry_key_type = ''ssh-rsa'', key_base64 = ''ABAC'',
              is_revoked = True\<rparr>"]) code_simp+



lemma saved_entry_verdict:
  assumes "add_host_key c env h p k = (Inr (), env')" and "\<not> read_fails env"
    and "ends_with_newline (known_hosts_file env)"
    and "plain_host h" and "plain_word (algorithm k)"
    and "base64_round_trip c" and "key_data k \<noteq> []"
  shows "check_host_key c env' h' p' k' = Inr (verdict c (key_data k') (format_fingerprint c k')
      (format_key_type k')
      (host_entries c (host_pattern_of h' p') 0 (file_lines env) @
        (if host_pattern_of h' p' = host_pattern_of h p then
           [(length (file_lines env) + 1, \<lparr>host_patterns = [host_pattern_of h p],
              entry_key_type = algorithm k, key_base64 = b64_encode c (key_data k),
              is_revoked = False\<rparr>)] else [])))"
proof -
  let ?line = "format_known_hosts_entry c (host_pattern_of h p) k"
  have env': "env' = env\<lparr>known_hosts_file := Some (append_line (known_hosts_file env) ?line)\<rparr>"
    using assms(1) by (simp add: add_host_key_def Let_def split: write_outcome.splits)
  note pat = host_pattern_plain [OF assms(4), of p]
  note entry = line_entry_formatted [OF pat assms(5-7)]
  have lines: "str_lines (append_line (known_hosts_file env) ?line) = file_lines env @ [?line]"
    using file_lines_append [OF assms(3)] entry(2) by blast
  have "CHR ''|'' \<notin> set (host_pattern_of h p)" using pat by (simp add: plain_host_def)
  then show ?thesis
    using assms(2)
    by (auto simp: check_host_key_def env' check_host_key_verdict lines host_entries_append entry(1)
        matches_host_def pattern_matches_def not_hashed)
qed

lemma key_matches_saved:
  "base64_round_trip c \<Longrightarrow> key_matches c
     \<lparr>host_patterns = hs, entry_key_type = t, key_base64 = b64_encode c key, is_revoked = r\<rparr> key'
   \<longleftrightarrow> key = key'"
  by (simp add: key_matches_def base64_round_trip_def)

lemma check_host_key_file:
  "\<not> read_fails env \<Longrightarrow> check_host_key c env h p k =
     Inr (verdict c (key_data k) (format_fingerprint c k) (format_key_type k)
       (host_entries c (host_pattern_of h p) 0 (file_lines env)))"
  by (cases "known_hosts_file env")
    (simp_all add: check_host_key_def check_host_key_verdict file_lines_def verdict_def
      str_lines_def split_on_def)

lemma verdict_Unknown_iff:
  "(\<exists>a b. verdict c key fp kt es = Unknown a b) \<longleftrightarrow> es = []"
  by (cases es) (auto simp: verdict_def split: list.splits if_splits)

text \<open>
  C28: trust on first use. Once the key of an unknown host has been saved, the next connection to
  that host and port finds exactly that key known, and any other key is reported as changed at
  the line that was written. This needs a \<open>known_hosts\<close> file that can be read and is empty, absent or
  ends with a newline (\<open>unterminated_file_corrupts_entry\<close> shows what happens otherwise), a host
  name without the characters that mean something in a host pattern, an algorithm name that is one
  plain word, a key that is not empty, and a base64 codec that decodes what it has encoded.
\<close>

theorem saved_key_is_trusted_next_time:
  assumes "add_host_key c env h p k = (Inr (), env')" and "\<not> read_fails env"
    and "check_host_key c env h p k = Inr (Unknown fp kt)"
    and "ends_with_newline (known_hosts_file env)"
    and "plain_host h" and "plain_word (algorithm k)"
    and "base64_round_trip c" and "key_data k \<noteq> []"
  shows "check_host_key c env' h p k' = Inr (if key_data k' = key_data k then Known
           else Changed (format_fingerprint c k') (length (file_lines env) + 1))"
proof -
  have "host_entries c (host_pattern_of h p) 0 (file_lines env) = []"
    using assms(3) check_host_key_file [OF assms(2)] verdict_Unknown_iff by (metis Inr_inject)
  then show ?thesis
    by (subst saved_entry_verdict [OF assms(1,2,4-8)])
      (auto simp: verdict_def key_matches_saved [OF assms(7)] revoked_key_def other_key_def)
qed

theorem saved_key_is_trusted_next_time_witness:
  "check_host_key hex_crypto (sample_env (Some (''h ssh-rsa ABAC'' @ newline))) ''h'' 22
     other_sample_key = Inr (Changed ''SHA256:AD'' 1)"
proof -
  have "check_host_key hex_crypto (sample_env (Some (''h ssh-rsa ABAC'' @ newline))) ''h'' 22
     other_sample_key = Inr (if key_data other_sample_key = key_data sample_key then Known
       else Changed (format_fingerprint hex_crypto other_sample_key)
         (length (file_lines (sample_env None)) + 1))"
    by (rule saved_key_is_trusted_next_time [where fp = "''SHA256:ABAC''" and kt = "''ssh-rsa''"])
      (rule hex_round_trip | code_simp)+
  moreover have "key_data other_sample_key \<noteq> key_data sample_key"
    "format_fingerprint hex_crypto other_sample_key = ''SHA256:AD''"
    "length (file_lines (sample_env None)) = 0" by code_simp+
  ultimately show ?thesis by simp
qed

text \<open>
   saving a key never changes the verdict for any other host pattern, whatever key that host
  presents.
\<close>

lemma saved_key_is_local:
  assumes "add_host_key c env h p k = (Inr (), env')" and "\<not> read_fails env"
    and "ends_with_newline (known_hosts_file env)"
    and "plain_host h" and "plain_word (algorithm k)"
    and "base64_round_trip c" and "key_data k \<noteq> []"
    and "host_pattern_of h' p' \<noteq> host_pattern_of h p"
  shows "check_host_key c env' h' p' k' = check_host_key c env h' p' k'"
  using assms(8)
  by (simp add: saved_entry_verdict [OF assms(1-7)] check_host_key_file [OF assms(2)])

lemma saved_key_is_local_witness:
  "check_host_key hex_crypto (sample_env (Some (''h ssh-rsa ABAC'' @ newline))) ''h'' 2222
     other_sample_key = check_host_key hex_crypto (sample_env None) ''h'' 2222 other_sample_key"
  by (rule saved_key_is_local [where h = "''h''" and p = 22 and k = sample_key])
    (rule hex_round_trip | code_simp)+

text \<open>
   the new entry is appended without looking at the end of the file. Where the last line has
  no newline the entry is glued to it: the host just accepted stays unknown, and the host of the
  last line, known before, is reported as changed.
\<close>

lemma unterminated_file_corrupts_entry:
  "let env = sample_env (Some ''h ssh-rsa ABAC'');
       env' = snd (check_server_key hex_crypto env (for_host ''g'' 22 Accept_new) other_sample_key)
   in check_host_key hex_crypto env ''h'' 22 sample_key = Inr Known
    \<and> check_host_key hex_crypto env' ''h'' 22 sample_key = Inr (Changed ''SHA256:ABAC'' 1)
    \<and> check_host_key hex_crypto env' ''g'' 22 other_sample_key
        = Inr (Unknown ''SHA256:AD'' ''ssh-rsa'')"
  by code_simp

text \<open>
  A host that the file names only in revoked entries for other keys is not unknown: every
  key it presents is reported as changed, at line 0, which is no line of the file.
\<close>

lemma revoked_only_host_reported_at_line_0:
  assumes "host_entries c (host_pattern_of hostname port) 0 (str_lines content) = es"
    and "es \<noteq> []" and "list_all (\<lambda>(_, e). is_revoked e \<and> \<not> key_matches c e key) es"
  shows "check_host_key_in_content c hostname port key fp kt content = Changed fp 0"
proof -
  have "filter (revoked_key c key) es = []" "filter (other_key c key) es = []"
    "\<not> list_ex (\<lambda>p. key_matches c (snd p) key) es"
    using assms(3) by (auto simp: filter_empty_conv revoked_key_def other_key_def list_all_iff
        list_ex_iff)
  then show ?thesis using assms(1,2) by (simp add: check_host_key_verdict verdict_def)
qed

lemma revoked_only_host_reported_at_line_0_witness:
  "check_host_key_in_content hex_crypto ''h'' 22 [7] ''fp'' ''ssh-rsa''
     (''@revoked h ssh-rsa ABAC'' @ newline) = Changed ''fp'' 0"
  by (rule revoked_only_host_reported_at_line_0 [where es =
        "[(1, \<lparr>host_patterns = [''h''], entry_key_type = ''ssh-rsa'', key_base64 = ''ABAC'',
              is_revoked = True\<rparr>)]"]) code_simp+

end
