(* ===== verification/Config_Model.thy ===== *)
theory Config_Model
  imports Rust_Str
begin

text \<open>
  \<open>src/config/model.rs\<close>: the configuration data, the resolution of effective connection settings
  through session, group, profile and settings, and the name and host validation.

  \<open>BTreeMap<String, String>\<close> is a map, a time stamp is its number of seconds. The user name of
  the operating system (\<open>whoami\<close>) and \<open>shellexpand::full\<close> are arguments of the definitions that
  use them. The name of a record field carries the initial of its record. The badges and the
  default title template of \<open>Settings\<close> hold characters outside the text model, so the default
  settings take them as arguments.
\<close>

section \<open>Data\<close>

record snippet =
  sn_name :: string
  sn_command :: string
  sn_auto_execute :: bool

type_synonym options = "string \<rightharpoonup> string"

record profile =
  p_name :: string
  p_user :: "string option"
  p_identity_file :: "string option"
  p_proxy_jump :: "string option"
  p_on_connect :: "string option"
  p_ssh_options :: options
  p_connect_timeout_secs :: "u64 option"

record session =
  s_name :: string
  s_on_connect :: "string option"
  s_on_connect_prompt_pattern :: "string option"
  s_snippets :: "snippet list"
  s_connect_timeout_secs :: "u64 option"
  s_ssh_options :: options
  s_user :: "string option"
  s_identity_file :: "string option"
  s_proxy_jump :: "string option"

record bookmark_group =
  g_name :: string
  g_host :: string
  g_user :: "string option"
  g_port :: u16
  g_env :: string
  g_tags :: "string list"
  g_identity_file :: "string option"
  g_proxy_jump :: "string option"
  g_notes :: "string option"
  g_profile :: "string option"
  g_connect_timeout_secs :: "u64 option"
  g_ssh_options :: options
  g_on_connect :: "string option"
  g_on_connect_prompt_pattern :: "string option"
  g_snippets :: "snippet list"
  g_sessions :: "session list"

record env_color =
  fg :: string
  bg :: string
  badge :: string
  label :: string

record settings =
  default_user :: "string option"
  sort_by_name :: bool
  tab_title_template :: string
  show_env_column :: bool
  theme :: string
  env_colors :: "string \<rightharpoonup> env_color"
  snippet_trigger :: string
  on_connect_delay_ms :: u64
  st_snippets :: "snippet list"
  bookmark_trigger :: string
  browser_trigger :: string
  host_key_checking :: string
  st_connect_timeout_secs :: "u64 option"
  import_wizard_dismissed :: bool

record bookmark =
  b_name :: string
  b_host :: string
  b_user :: "string option"
  b_port :: u16
  b_env :: string
  b_tags :: "string list"
  b_identity_file :: "string option"
  b_proxy_jump :: "string option"
  b_notes :: "string option"
  b_last_connected :: "int option"
  b_connect_count :: u32
  b_on_connect :: "string option"
  b_on_connect_prompt_pattern :: "string option"
  b_snippets :: "snippet list"
  b_connect_timeout_secs :: "u64 option"
  b_ssh_options :: options
  b_profile :: "string option"

record app_config =
  settings_of :: settings
  profiles :: "profile list"
  bookmarks :: "bookmark list"
  groups :: "bookmark_group list"

definition default_env_colors :: "(string \<Rightarrow> string) \<Rightarrow> (string \<rightharpoonup> env_color)" where
  "default_env_colors badges = [
     ''production'' \<mapsto> \<lparr>fg = ''#FFFFFF'', bg = ''#CC0000'', badge = badges ''production'',
       label = ''PROD''\<rparr>,
     ''staging'' \<mapsto> \<lparr>fg = ''#000000'', bg = ''#CCCC00'', badge = badges ''staging'',
       label = ''STG''\<rparr>,
     ''development'' \<mapsto> \<lparr>fg = ''#FFFFFF'', bg = ''#0066CC'', badge = badges ''development'',
       label = ''DEV''\<rparr>,
     ''local'' \<mapsto> \<lparr>fg = ''#FFFFFF'', bg = ''#00AA00'', badge = badges ''local'',
       label = ''LOCAL''\<rparr>,
     ''testing'' \<mapsto> \<lparr>fg = ''#FFFFFF'', bg = ''#AA00AA'', badge = badges ''testing'',
       label = ''TEST''\<rparr>]"

definition default_settings :: "string \<Rightarrow> (string \<Rightarrow> string) \<Rightarrow> settings" where
  "default_settings title badges =
     \<lparr>default_user = None, sort_by_name = True, tab_title_template = title,
      show_env_column = True, theme = ''tokyo-night'', env_colors = default_env_colors badges,
      snippet_trigger = ''~~'', on_connect_delay_ms = 200, st_snippets = [],
      bookmark_trigger = ''~b'', browser_trigger = ''~f'', host_key_checking = ''strict'',
      st_connect_timeout_secs = None, import_wizard_dismissed = False\<rparr>"

section \<open>Profiles\<close>

definition find_profile :: "string option \<Rightarrow> profile list \<Rightarrow> profile option" where
  "find_profile name ps = (case name of None \<Rightarrow> None | Some n \<Rightarrow> List.find (\<lambda>p. p_name p = n) ps)"

definition group_resolve_profile :: "bookmark_group \<Rightarrow> profile list \<Rightarrow> profile option" where
  "group_resolve_profile g ps = find_profile (g_profile g) ps"

definition resolve_profile :: "bookmark \<Rightarrow> profile list \<Rightarrow> profile option" where
  "resolve_profile b ps = find_profile (b_profile b) ps"

section \<open>Effective settings of a session\<close>

definition session_effective_user ::
    "string \<Rightarrow> session \<Rightarrow> bookmark_group \<Rightarrow> settings \<Rightarrow> profile list \<Rightarrow> string" where
  "session_effective_user os_user s g st ps =
     unwrap_or (option_or (s_user s) (option_or (g_user g)
       (option_or (Option.bind (group_resolve_profile g ps) p_user) (default_user st)))) os_user"

definition session_effective_identity_file ::
    "session \<Rightarrow> bookmark_group \<Rightarrow> profile list \<Rightarrow> string option" where
  "session_effective_identity_file s g ps =
     option_or (s_identity_file s) (option_or (g_identity_file g)
       (Option.bind (group_resolve_profile g ps) p_identity_file))"

definition session_effective_proxy_jump ::
    "session \<Rightarrow> bookmark_group \<Rightarrow> profile list \<Rightarrow> string option" where
  "session_effective_proxy_jump s g ps =
     option_or (s_proxy_jump s) (option_or (g_proxy_jump g)
       (Option.bind (group_resolve_profile g ps) p_proxy_jump))"

definition session_effective_on_connect ::
    "session \<Rightarrow> bookmark_group \<Rightarrow> profile list \<Rightarrow> string option" where
  "session_effective_on_connect s g ps =
     option_or (s_on_connect s) (option_or (g_on_connect g)
       (Option.bind (group_resolve_profile g ps) p_on_connect))"

definition session_effective_prompt_pattern :: "session \<Rightarrow> bookmark_group \<Rightarrow> string option" where
  "session_effective_prompt_pattern s g =
     option_or (s_on_connect_prompt_pattern s) (g_on_connect_prompt_pattern g)"

definition session_effective_connect_timeout ::
    "session \<Rightarrow> bookmark_group \<Rightarrow> settings \<Rightarrow> profile list \<Rightarrow> u64 option" where
  "session_effective_connect_timeout s g st ps =
     option_or (option_or (option_or (s_connect_timeout_secs s) (g_connect_timeout_secs g))
       (Option.bind (group_resolve_profile g ps) p_connect_timeout_secs))
       (st_connect_timeout_secs st)"

definition profile_options :: "profile option \<Rightarrow> options" where
  "profile_options p = (case p of Some p \<Rightarrow> p_ssh_options p | None \<Rightarrow> Map.empty)"

definition session_effective_ssh_options ::
    "session \<Rightarrow> bookmark_group \<Rightarrow> profile list \<Rightarrow> options" where
  "session_effective_ssh_options s g ps =
     profile_options (group_resolve_profile g ps) ++ g_ssh_options g ++ s_ssh_options s"

definition session_effective_snippets :: "session \<Rightarrow> bookmark_group \<Rightarrow> snippet list" where
  "session_effective_snippets s g =
     (let session_names = sn_name ` set (s_snippets s) in
      filter (\<lambda>x. sn_name x \<notin> session_names) (g_snippets g) @ s_snippets s)"

definition display_name :: "session \<Rightarrow> bookmark_group \<Rightarrow> string" where
  "display_name s g = g_name g @ ''/'' @ s_name s"

section \<open>Effective settings of a bookmark\<close>

definition profile_field ::
    "bookmark \<Rightarrow> profile list \<Rightarrow> (profile \<Rightarrow> 'a option) \<Rightarrow> 'a option \<Rightarrow> 'a option" where
  "profile_field b ps extract bookmark_value =
     option_or bookmark_value (Option.bind (resolve_profile b ps) extract)"

definition effective_user :: "string \<Rightarrow> bookmark \<Rightarrow> settings \<Rightarrow> profile list \<Rightarrow> string" where
  "effective_user os_user b st ps =
     unwrap_or (option_or (b_user b)
       (option_or (Option.bind (resolve_profile b ps) p_user) (default_user st))) os_user"

definition effective_identity_file :: "bookmark \<Rightarrow> profile list \<Rightarrow> string option" where
  "effective_identity_file b ps = profile_field b ps p_identity_file (b_identity_file b)"

definition effective_proxy_jump :: "bookmark \<Rightarrow> profile list \<Rightarrow> string option" where
  "effective_proxy_jump b ps = profile_field b ps p_proxy_jump (b_proxy_jump b)"

definition effective_on_connect :: "bookmark \<Rightarrow> profile list \<Rightarrow> string option" where
  "effective_on_connect b ps = profile_field b ps p_on_connect (b_on_connect b)"

definition effective_connect_timeout ::
    "bookmark \<Rightarrow> settings \<Rightarrow> profile list \<Rightarrow> u64 option" where
  "effective_connect_timeout b st ps =
     option_or (option_or (b_connect_timeout_secs b)
       (Option.bind (resolve_profile b ps) p_connect_timeout_secs)) (st_connect_timeout_secs st)"

definition effective_ssh_options :: "bookmark \<Rightarrow> profile list \<Rightarrow> options" where
  "effective_ssh_options b ps = profile_options (resolve_profile b ps) ++ b_ssh_options b"

text \<open>\<open>shellexpand::full\<close> is \<open>expand\<close>; \<open>None\<close> is its error, reported with the input.\<close>

datatype expand_error = Expansion_failed string

definition expand_path :: "(string \<Rightarrow> string option) \<Rightarrow> string \<Rightarrow> expand_error + string" where
  "expand_path expand input =
     (case expand input of Some s \<Rightarrow> Inr s | None \<Rightarrow> Inl (Expansion_failed input))"

definition resolved_identity_file ::
    "(string \<Rightarrow> string option) \<Rightarrow> bookmark \<Rightarrow> (expand_error + string) option" where
  "resolved_identity_file expand b = map_option (expand_path expand) (b_identity_file b)"

definition resolved_effective_identity_file ::
    "(string \<Rightarrow> string option) \<Rightarrow> bookmark \<Rightarrow> profile list \<Rightarrow> (expand_error + string) option" where
  "resolved_effective_identity_file expand b ps =
     map_option (expand_path expand) (effective_identity_file b ps)"

section \<open>Names and hosts\<close>

datatype name_error =
    Name_empty
  | Name_invalid string
  | Host_empty
  | Host_forbidden string char

definition SHELL_METACHARACTERS :: "char list" where
  "SHELL_METACHARACTERS = '';|&$`(){}<>'' @ [CHR 0x0A, CHR 0x0D]"

definition BOOKMARK_NAME_EXTRA_CHARS :: "char list" where
  "BOOKMARK_NAME_EXTRA_CHARS = ''-_. ()/''"

definition name_char :: "char \<Rightarrow> bool" where
  "name_char c \<longleftrightarrow> is_alphanumeric c \<or> c \<in> set BOOKMARK_NAME_EXTRA_CHARS"

definition validate_bookmark_name :: "string \<Rightarrow> name_error + unit" where
  "validate_bookmark_name name =
     (if name = [] then Inl Name_empty
      else if \<not> list_all name_char name then Inl (Name_invalid name)
      else Inr ())"

definition validate_hostname :: "string \<Rightarrow> name_error + unit" where
  "validate_hostname host =
     (if host = [] then Inl Host_empty
      else case List.find (\<lambda>c. c \<in> set SHELL_METACHARACTERS) host of
          Some bad \<Rightarrow> Inl (Host_forbidden host bad)
        | None \<Rightarrow> Inr ())"

text \<open>The collapsing loop, with \<open>prev_hyphen\<close>; then \<open>trim_matches('-')\<close>.\<close>

fun collapse_hyphens :: "bool \<Rightarrow> string \<Rightarrow> string" where
  "collapse_hyphens prev [] = []"
| "collapse_hyphens prev (c # cs) =
     (if c = CHR ''-'' then (if prev then [] else [c]) @ collapse_hyphens True cs
      else c # collapse_hyphens False cs)"

definition trim_matches :: "char \<Rightarrow> string \<Rightarrow> string" where
  "trim_matches d s = rev (dropWhile (\<lambda>c. c = d) (rev (dropWhile (\<lambda>c. c = d) s)))"

definition sanitize_bookmark_name :: "string \<Rightarrow> string" where
  "sanitize_bookmark_name name =
     trim_matches (CHR ''-'')
       (collapse_hyphens False (map (\<lambda>c. if name_char c then c else CHR ''-'') name))"

section \<open>Owners of a profile reference\<close>

text \<open>
  Bookmarks and groups name a profile in the same way: no reference and a dangling one resolve
  to nothing, otherwise the first profile of that name.
\<close>

locale profile_owner =
  fixes reference :: "'o \<Rightarrow> string option"
    and resolve :: "'o \<Rightarrow> profile list \<Rightarrow> profile option"
  assumes resolve_unset: "reference x = None \<Longrightarrow> resolve x ps = None"
    and resolve_nil: "resolve x [] = None"
    and resolve_hit: "reference x = Some (p_name p) \<Longrightarrow> resolve x (p # ps) = Some p"
    and resolve_miss: "reference x \<noteq> Some (p_name p) \<Longrightarrow> resolve x (p # ps) = resolve x ps"
begin

lemma resolve_Some: "resolve x ps = Some p \<Longrightarrow> p \<in> set ps \<and> reference x = Some (p_name p)"
proof (induction ps)
  case (Cons q ps)
  then show ?case by (cases "reference x = Some (p_name q)") (auto simp: resolve_hit resolve_miss)
qed (simp add: resolve_nil)

lemma resolve_dangling: "reference x \<notin> Some ` p_name ` set ps \<Longrightarrow> resolve x ps = None"
  by (induction ps) (auto simp: resolve_nil resolve_miss)

lemma resolve_distinct:
  "distinct (map p_name ps) \<Longrightarrow> p \<in> set ps \<Longrightarrow> reference x = Some (p_name p) \<Longrightarrow> resolve x ps = Some p"
proof (induction ps)
  case (Cons q ps)
  show ?case
  proof (cases "p = q")
    case True
    then show ?thesis using Cons.prems by (simp add: resolve_hit)
  next
    case False
    with Cons.prems have p: "p \<in> set ps" "p_name q \<notin> p_name ` set ps" by auto
    then have "p_name p \<noteq> p_name q" by (metis imageI)
    with p show ?thesis using Cons by (simp add: resolve_miss)
  qed
qed simp

lemma resolve_append: "resolve x (ps @ qs) = option_or (resolve x ps) (resolve x qs)"
proof (induction ps)
  case (Cons p ps)
  then show ?case
    by (cases "reference x = Some (p_name p)") (simp_all add: resolve_hit resolve_miss)
qed (simp add: resolve_nil)

end

interpretation bookmark_owner: profile_owner b_profile resolve_profile
  by unfold_locales (auto simp: resolve_profile_def find_profile_def split: option.splits)

interpretation group_owner: profile_owner g_profile group_resolve_profile
  by unfold_locales (auto simp: group_resolve_profile_def find_profile_def split: option.splits)

section \<open>Lemmas\<close>

lemma session_ssh_option:
  "session_effective_ssh_options s g ps k =
     option_or (s_ssh_options s k) (option_or (g_ssh_options g k)
       (profile_options (group_resolve_profile g ps) k))"
  by (simp add: session_effective_ssh_options_def map_add_def option_or_def split: option.splits)

lemma validate_hostname_ok:
  "validate_hostname h = Inr () \<longleftrightarrow> h \<noteq> [] \<and> (\<forall>c\<in>set h. c \<notin> set SHELL_METACHARACTERS)"
  by (auto simp: validate_hostname_def find_None_iff find_Some_iff split: option.splits)

lemma validate_bookmark_name_ok:
  "validate_bookmark_name n = Inr () \<longleftrightarrow> n \<noteq> [] \<and> list_all name_char n"
  by (auto simp: validate_bookmark_name_def)

lemma snippet_in_effective:
  "x \<in> set (session_effective_snippets s g) \<longleftrightarrow> x \<in> set (s_snippets s)
     \<or> (x \<in> set (g_snippets g) \<and> sn_name x \<notin> sn_name ` set (s_snippets s))"
  by (auto simp: session_effective_snippets_def Let_def)

subsection \<open>Sanitized names\<close>

text \<open>No hyphen at either end and no two in a row.\<close>

definition hyphen :: char where
  "hyphen = CHR ''-''"

fun no_double_hyphen :: "string \<Rightarrow> bool" where
  "no_double_hyphen (a # b # s) \<longleftrightarrow> (a \<noteq> hyphen \<or> b \<noteq> hyphen) \<and> no_double_hyphen (b # s)"
| "no_double_hyphen _ \<longleftrightarrow> True"

definition tidy_name :: "string \<Rightarrow> bool" where
  "tidy_name s \<longleftrightarrow> list_all name_char s \<and> no_double_hyphen s
     \<and> (s = [] \<or> hd s \<noteq> hyphen \<and> last s \<noteq> hyphen)"

lemma no_double_hyphen_Cons:
  "no_double_hyphen (a # s) \<longleftrightarrow> (a \<noteq> hyphen \<or> s = [] \<or> hd s \<noteq> hyphen) \<and> no_double_hyphen s"
  by (cases s) auto

lemma no_double_hyphen_append:
  "no_double_hyphen (s @ t) \<Longrightarrow> no_double_hyphen s \<and> no_double_hyphen t"
  by (induction s) (auto simp: no_double_hyphen_Cons)

lemma collapse_no_double:
  "no_double_hyphen (collapse_hyphens prev s)
   \<and> (prev \<longrightarrow> collapse_hyphens prev s = [] \<or> hd (collapse_hyphens prev s) \<noteq> hyphen)"
  by (induction prev s rule: collapse_hyphens.induct)
    (auto simp: no_double_hyphen_Cons hyphen_def)

lemma collapse_chars: "set (collapse_hyphens prev s) \<subseteq> set s"
  by (induction prev s rule: collapse_hyphens.induct) auto

lemma collapse_id:
  "no_double_hyphen s \<Longrightarrow> prev \<longrightarrow> s = [] \<or> hd s \<noteq> hyphen \<Longrightarrow> collapse_hyphens prev s = s"
  by (induction prev s rule: collapse_hyphens.induct) (auto simp: no_double_hyphen_Cons hyphen_def)

lemma dropWhile_hd: "dropWhile P s = [] \<or> \<not> P (hd (dropWhile P s))"
  using hd_dropWhile [of P s] by blast

lemma trim_matches_parts:
  obtains a b where "s = a @ trim_matches d s @ b"
    and "trim_matches d s = [] \<or> hd (trim_matches d s) \<noteq> d \<and> last (trim_matches d s) \<noteq> d"
proof -
  let ?P = "\<lambda>c. c = d"
  define m where "m = dropWhile ?P s"
  define r where "r = rev (dropWhile ?P (rev m))"
  have t: "trim_matches d s = r" by (simp add: trim_matches_def r_def m_def)
  have "rev (rev m) = rev (dropWhile ?P (rev m)) @ rev (takeWhile ?P (rev m))"
    by (metis rev_append takeWhile_dropWhile_id)
  then have m: "m = r @ rev (takeWhile ?P (rev m))" by (simp add: r_def)
  have s: "s = takeWhile ?P s @ r @ rev (takeWhile ?P (rev m))"
    using m by (metis m_def takeWhile_dropWhile_id)
  have last: "r = [] \<or> last r \<noteq> d"
    using dropWhile_hd [of ?P "rev m"] by (simp add: r_def last_rev)
  have hd: "r = [] \<or> hd r \<noteq> d"
    using dropWhile_hd [of ?P s] m by (metis append_Nil append_is_Nil_conv hd_append2 m_def)
  show ?thesis by (rule that [of "takeWhile ?P s" "rev (takeWhile ?P (rev m))"])
      (use s t hd last in auto)
qed

lemma trim_matches_id: "s = [] \<or> hd s \<noteq> d \<and> last s \<noteq> d \<Longrightarrow> trim_matches d s = s"
  by (auto simp: trim_matches_def dropWhile_eq_self_iff [THEN iffD2] hd_rev)

lemma sanitize_tidy: "tidy_name (sanitize_bookmark_name n)"
proof -
  define m where "m = collapse_hyphens False (map (\<lambda>c. if name_char c then c else CHR ''-'') n)"
  obtain a b where m: "m = a @ trim_matches hyphen m @ b"
    and ends: "trim_matches hyphen m = []
      \<or> hd (trim_matches hyphen m) \<noteq> hyphen \<and> last (trim_matches hyphen m) \<noteq> hyphen"
    by (rule trim_matches_parts)
  have "no_double_hyphen m" unfolding m_def using collapse_no_double by blast
  then have nd: "no_double_hyphen (trim_matches hyphen m)"
    using m no_double_hyphen_append by metis
  have "name_char (CHR ''-'')" by (simp add: name_char_def BOOKMARK_NAME_EXTRA_CHARS_def)
  then have "list_all name_char m"
    unfolding m_def list_all_iff using collapse_chars by fastforce
  moreover have "set (trim_matches hyphen m) \<subseteq> set m" by (subst (2) m) auto
  ultimately have "list_all name_char (trim_matches hyphen m)" by (auto simp: list_all_iff)
  with nd ends show ?thesis
    by (simp add: tidy_name_def sanitize_bookmark_name_def m_def [symmetric] hyphen_def [symmetric])
qed

lemma sanitize_id: "tidy_name n \<Longrightarrow> sanitize_bookmark_name n = n"
proof -
  assume n: "tidy_name n"
  then have "map (\<lambda>c. if name_char c then c else CHR ''-'') n = n"
    by (auto simp: tidy_name_def list_all_iff intro: map_idI)
  with n show ?thesis
    by (simp add: sanitize_bookmark_name_def tidy_name_def collapse_id trim_matches_id
        hyphen_def [symmetric])
qed

section \<open>Properties\<close>

text \<open>
   the name an importer makes of any text is tidy: only characters a bookmark name may have,
  no hyphen at either end and no two in a row. It is a valid name unless nothing is left of the
  text, sanitizing again changes nothing, and exactly the tidy names are left alone.
\<close>

lemma sanitized_names_are_valid:
  "tidy_name (sanitize_bookmark_name n)
   \<and> (sanitize_bookmark_name n = [] \<or> validate_bookmark_name (sanitize_bookmark_name n) = Inr ())
   \<and> sanitize_bookmark_name (sanitize_bookmark_name n) = sanitize_bookmark_name n
   \<and> (sanitize_bookmark_name n = n \<longleftrightarrow> tidy_name n)"
  using sanitize_tidy [of n] sanitize_id [of "sanitize_bookmark_name n"] sanitize_id [of n]
  by (auto simp: validate_bookmark_name_ok tidy_name_def)

text \<open>
  A session's snippet list. Every snippet of the session is in it, a snippet of the group
  exactly where the session has none of that name, and names stay distinct where they are
  distinct in both lists.
\<close>

lemma session_snippets_override:
  assumes "distinct (map sn_name (s_snippets s))" and "distinct (map sn_name (g_snippets g))"
  shows "distinct (map sn_name (session_effective_snippets s g))
    \<and> sn_name ` set (session_effective_snippets s g)
        = sn_name ` set (s_snippets s) \<union> sn_name ` set (g_snippets g)
    \<and> (\<forall>x. x \<in> set (session_effective_snippets s g) \<longleftrightarrow> x \<in> set (s_snippets s)
         \<or> (x \<in> set (g_snippets g) \<and> sn_name x \<notin> sn_name ` set (s_snippets s)))"
proof (intro conjI)
  show "distinct (map sn_name (session_effective_snippets s g))"
    using assms by (auto simp: session_effective_snippets_def Let_def distinct_map
        intro: inj_on_subset)
  show "sn_name ` set (session_effective_snippets s g)
      = sn_name ` set (s_snippets s) \<union> sn_name ` set (g_snippets g)"
    by (auto simp: session_effective_snippets_def Let_def)
qed (simp add: snippet_in_effective)

definition sample_snippet :: "string \<Rightarrow> string \<Rightarrow> snippet" where
  "sample_snippet n c = \<lparr>sn_name = n, sn_command = c, sn_auto_execute = True\<rparr>"

definition sample_session :: session where
  "sample_session = \<lparr>s_name = ''a'', s_on_connect = None, s_on_connect_prompt_pattern = None,
     s_snippets = [sample_snippet ''x'' ''1''], s_connect_timeout_secs = None,
     s_ssh_options = Map.empty, s_user = None, s_identity_file = None, s_proxy_jump = None\<rparr>"

definition sample_group :: bookmark_group where
  "sample_group = \<lparr>g_name = ''g'', g_host = ''h'', g_user = Some ''u'', g_port = 22, g_env = [],
     g_tags = [], g_identity_file = None, g_proxy_jump = None, g_notes = None, g_profile = None,
     g_connect_timeout_secs = None, g_ssh_options = Map.empty, g_on_connect = Some ''cd /'',
     g_on_connect_prompt_pattern = None,
     g_snippets = [sample_snippet ''x'' ''2'', sample_snippet ''y'' ''3''],
     g_sessions = [sample_session]\<rparr>"

lemma session_snippets_override_witness:
  "distinct (map sn_name (session_effective_snippets sample_session sample_group))"
proof -
  have "distinct (map sn_name (s_snippets sample_session))"
    "distinct (map sn_name (g_snippets sample_group))" by code_simp+
  from session_snippets_override [OF this] show ?thesis by (rule conjunct1)
qed

end
