(* ===== verification/Config_Store.thy ===== *)
theory Config_Store
  imports Config_Model
begin

text \<open>
  \<open>src/config/mod.rs\<close> and \<open>src/config/writer.rs\<close>: validation of a loaded configuration, the
  atomic write with its backup, load, save and locked modification of the file, and the export.

  The \<open>toml\<close> crate is the pair \<open>to_toml\<close>, \<open>from_toml\<close> over an arbitrary type of texts, and the
  \<open>regex\<close> match of the export filter is an argument. The record \<open>io_env\<close> says which system calls
  succeed and holds the two characters strings of the default settings that are outside the text
  model. Warnings printed to the terminal are not modelled.
\<close>

section \<open>Display\<close>

definition sanitize_for_display :: "string \<Rightarrow> string" where
  "sanitize_for_display input =
     (let sanitized = map (\<lambda>c. if code c \<le> 0x1F \<or> (0x7F \<le> code c \<and> code c \<le> 0x9F)
          then CHR ''?'' else c) input in
      if str_len sanitized > 200 then take 200 sanitized @ ''...'' else sanitized)"

definition quoted :: "string \<Rightarrow> string" where
  "quoted s = [CHR 0x27] @ sanitize_for_display s @ [CHR 0x27]"

section \<open>Validation\<close>

datatype config_error =
    Io_failed string
  | Serialize_failed
  | Parse_failed
  | Invalid_profile_name string
  | Duplicate_profile string
  | On_connect_too_long string nat
  | On_connect_escape string
  | Duplicate_group string
  | Duplicate_session string string
  | No_bookmarks_match

definition MAX_ON_CONNECT_LEN :: nat where
  "MAX_ON_CONNECT_LEN = 1024"

definition validate_on_connect :: "string \<Rightarrow> string \<Rightarrow> config_error + unit" where
  "validate_on_connect cmd ctxt =
     (if str_len cmd > MAX_ON_CONNECT_LEN then Inl (On_connect_too_long ctxt (str_len cmd))
      else if CHR 0x1B \<in> set cmd then Inl (On_connect_escape ctxt)
      else Inr ())"

text \<open>The \<open>if let Some(cmd)\<close> around it.\<close>

definition validate_command :: "string option \<Rightarrow> string \<Rightarrow> config_error + unit" where
  "validate_command cmd ctxt =
     (case cmd of Some cmd \<Rightarrow> validate_on_connect cmd ctxt | None \<Rightarrow> Inr ())"

text \<open>A loop that stops at the first error.\<close>

fun validate_each :: "('a \<Rightarrow> config_error + unit) \<Rightarrow> 'a list \<Rightarrow> config_error + unit" where
  "validate_each f [] = Inr ()"
| "validate_each f (x # xs) = result_bind (f x) (\<lambda>_. validate_each f xs)"

fun validate_profiles_from :: "string set \<Rightarrow> profile list \<Rightarrow> config_error + unit" where
  "validate_profiles_from seen [] = Inr ()"
| "validate_profiles_from seen (p # ps) =
     (if \<not> is_ok (validate_bookmark_name (p_name p))
      then Inl (Invalid_profile_name (sanitize_for_display (p_name p)))
      else if p_name p \<in> seen then Inl (Duplicate_profile (sanitize_for_display (p_name p)))
      else validate_profiles_from (insert (p_name p) seen) ps)"

definition validate_profiles :: "profile list \<Rightarrow> config_error + unit" where
  "validate_profiles ps = validate_profiles_from {} ps"

definition validate_on_connect_fields ::
    "profile list \<Rightarrow> bookmark list \<Rightarrow> config_error + unit" where
  "validate_on_connect_fields ps bs =
     result_bind
       (validate_each (\<lambda>p. validate_command (p_on_connect p) (''Profile '' @ quoted (p_name p))) ps)
       (\<lambda>_. validate_each
          (\<lambda>b. validate_command (b_on_connect b) (''Bookmark '' @ quoted (b_name b))) bs)"

fun check_session_names :: "string set \<Rightarrow> string \<Rightarrow> session list \<Rightarrow> config_error + unit" where
  "check_session_names seen grp [] = Inr ()"
| "check_session_names seen grp (s # ss) =
     (if s_name s \<in> seen
      then Inl (Duplicate_session (sanitize_for_display (s_name s)) (sanitize_for_display grp))
      else check_session_names (insert (s_name s) seen) grp ss)"

definition validate_group :: "bookmark_group \<Rightarrow> config_error + unit" where
  "validate_group g =
     result_bind (check_session_names {} (g_name g) (g_sessions g)) (\<lambda>_.
     result_bind (validate_command (g_on_connect g) (''Group '' @ quoted (g_name g))) (\<lambda>_.
       validate_each (\<lambda>s. validate_command (s_on_connect s)
         (''Session '' @ quoted (s_name s) @ '' in group '' @ quoted (g_name g))) (g_sessions g)))"

fun validate_groups_from :: "string set \<Rightarrow> bookmark_group list \<Rightarrow> config_error + unit" where
  "validate_groups_from seen [] = Inr ()"
| "validate_groups_from seen (g # gs) =
     (if g_name g \<in> seen then Inl (Duplicate_group (sanitize_for_display (g_name g)))
      else result_bind (validate_group g)
        (\<lambda>_. validate_groups_from (insert (g_name g) seen) gs))"

definition validate_groups :: "bookmark_group list \<Rightarrow> config_error + unit" where
  "validate_groups gs = (if gs = [] then Inr () else validate_groups_from {} gs)"

definition validate_config :: "app_config \<Rightarrow> config_error + unit" where
  "validate_config c =
     result_bind (validate_profiles (profiles c)) (\<lambda>_.
     result_bind (validate_on_connect_fields (profiles c) (bookmarks c)) (\<lambda>_.
       validate_groups (groups c)))"

section \<open>The file\<close>

text \<open>The configuration file and its backup, \<open>None\<close> where the file does not exist.\<close>

record 't store =
  main_file :: "'t option"
  backup_file :: "'t option"

record 't io_env =
  to_toml :: "app_config \<Rightarrow> 't option"
  from_toml :: "'t \<Rightarrow> app_config option"
  default_title :: string
  default_badges :: "string \<Rightarrow> string"
  can_make_dirs :: bool
  can_make_temp :: bool
  can_write_temp :: bool
  can_chmod :: bool
  can_backup :: bool
  failed_backup :: "'t option \<Rightarrow> 't option"
  can_persist :: bool
  can_read :: bool
  can_lock :: bool

definition default_config :: "'t io_env \<Rightarrow> app_config" where
  "default_config env =
     \<lparr>settings_of = default_settings (default_title env) (default_badges env), profiles = [],
      bookmarks = [], groups = []\<rparr>"

text \<open>
  The backup after the copy of the configuration to it.  A copy that fails may have truncated or
  begun to write it: \<open>failed_backup\<close> is what it leaves.
\<close>

definition backup_after :: "'t io_env \<Rightarrow> 't store \<Rightarrow> 't option" where
  "backup_after env st =
     (if main_file st = None then backup_file st
      else if can_backup env then main_file st
      else failed_backup env (backup_file st))"

definition atomic_write ::
    "'t io_env \<Rightarrow> app_config \<Rightarrow> 't store \<Rightarrow> (config_error + unit) \<times> 't store" where
  "atomic_write env config st =
     (case to_toml env config of
        None \<Rightarrow> (Inl Serialize_failed, st)
      | Some txt \<Rightarrow>
          if \<not> can_make_dirs env then (Inl (Io_failed ''create config directory''), st)
          else if \<not> can_make_temp env then (Inl (Io_failed ''create temporary config file''), st)
          else if \<not> can_write_temp env then (Inl (Io_failed ''write config''), st)
          else if \<not> can_chmod env then (Inl (Io_failed ''set config file permissions''), st)
          else
            let st = st\<lparr>backup_file := backup_after env st\<rparr>
            in if \<not> can_persist env then (Inl (Io_failed ''replace config file''), st)
               else (Inr (), st\<lparr>main_file := Some txt\<rparr>))"

definition save_to ::
    "'t io_env \<Rightarrow> app_config \<Rightarrow> 't store \<Rightarrow> (config_error + unit) \<times> 't store" where
  "save_to env config st = atomic_write env config st"

definition load_from :: "'t io_env \<Rightarrow> 't store \<Rightarrow> (config_error + app_config) \<times> 't store" where
  "load_from env st =
     (case main_file st of
        None \<Rightarrow>
          (case save_to env (default_config env) st of
             (Inl e, st') \<Rightarrow> (Inl e, st')
           | (Inr _, st') \<Rightarrow> (Inr (default_config env), st'))
      | Some txt \<Rightarrow>
          if \<not> can_read env then (Inl (Io_failed ''read config file''), st)
          else (case from_toml env txt of
              None \<Rightarrow> (Inl Parse_failed, st)
            | Some config \<Rightarrow>
                (case validate_config config of
                   Inl e \<Rightarrow> (Inl e, st)
                 | Inr _ \<Rightarrow> (Inr config, st))))"

text \<open>
  \<open>locked_modify\<close>. The exclusive lock makes the whole load, modification and save one step for
  every other locked modification.
\<close>

definition locked_modify ::
    "'t io_env \<Rightarrow> (app_config \<Rightarrow> app_config \<times> 'a) \<Rightarrow> 't store \<Rightarrow> (config_error + 'a) \<times> 't store" where
  "locked_modify env modify st =
     (if \<not> can_make_dirs env then (Inl (Io_failed ''create config directory''), st)
      else if \<not> can_lock env then (Inl (Io_failed ''lock config file''), st)
      else case load_from env st of
          (Inl e, st') \<Rightarrow> (Inl e, st')
        | (Inr config, st') \<Rightarrow>
            let (config', result) = modify config in
            (case save_to env config' st' of
               (Inl e, st'') \<Rightarrow> (Inl e, st'')
             | (Inr _, st'') \<Rightarrow> (Inr result, st'')))"

section \<open>Export\<close>

definition export_selected ::
    "(string \<Rightarrow> string \<Rightarrow> bool) \<Rightarrow> string option \<Rightarrow> string list \<Rightarrow> string option \<Rightarrow> bookmark \<Rightarrow> bool" where
  "export_selected glob env_filter tag_filters name_pattern b \<longleftrightarrow>
     (case env_filter of Some e \<Rightarrow> eq_ignore_ascii_case (b_env b) e | None \<Rightarrow> True)
     \<and> list_all (\<lambda>t. t \<in> set (b_tags b)) tag_filters
     \<and> (case name_pattern of Some p \<Rightarrow> glob p (b_name b) | None \<Rightarrow> True)"

definition scrub :: "bookmark \<Rightarrow> bookmark" where
  "scrub b = b\<lparr>b_last_connected := None, b_connect_count := 0\<rparr>"

definition export_config ::
    "'t io_env \<Rightarrow> (string \<Rightarrow> string \<Rightarrow> bool) \<Rightarrow> app_config \<Rightarrow> string option \<Rightarrow> string list
      \<Rightarrow> string option \<Rightarrow> bool \<Rightarrow> config_error + app_config" where
  "export_config env glob config env_filter tag_filters name_pattern include_settings =
     (let filtered = filter (export_selected glob env_filter tag_filters name_pattern)
            (bookmarks config);
          exported = map scrub filtered
      in if filtered = [] then Inl No_bookmarks_match
         else if include_settings
         then Inr \<lparr>settings_of = settings_of config, profiles = profiles config,
                   bookmarks = exported, groups = []\<rparr>
         else Inr \<lparr>settings_of = settings_of (default_config env), profiles = [],
                   bookmarks = exported, groups = []\<rparr>)"

text \<open>The text of the export after its comment header.\<close>

definition export_bookmarks ::
    "'t io_env \<Rightarrow> (string \<Rightarrow> string \<Rightarrow> bool) \<Rightarrow> app_config \<Rightarrow> string option \<Rightarrow> string list
      \<Rightarrow> string option \<Rightarrow> bool \<Rightarrow> config_error + 't" where
  "export_bookmarks env glob config env_filter tag_filters name_pattern include_settings =
     result_bind (export_config env glob config env_filter tag_filters name_pattern include_settings)
       (\<lambda>c. case to_toml env c of Some t \<Rightarrow> Inr t | None \<Rightarrow> Inl Serialize_failed)"

section \<open>What validation establishes\<close>

definition clean_command :: "string option \<Rightarrow> bool" where
  "clean_command cmd \<longleftrightarrow>
     (case cmd of None \<Rightarrow> True | Some c \<Rightarrow> str_len c \<le> 1024 \<and> CHR 0x1B \<notin> set c)"

definition valid_group :: "bookmark_group \<Rightarrow> bool" where
  "valid_group g \<longleftrightarrow> distinct (map s_name (g_sessions g)) \<and> clean_command (g_on_connect g)
     \<and> (\<forall>s\<in>set (g_sessions g). clean_command (s_on_connect s))"

definition valid_config :: "app_config \<Rightarrow> bool" where
  "valid_config c \<longleftrightarrow>
     distinct (map p_name (profiles c))
   \<and> (\<forall>p\<in>set (profiles c). validate_bookmark_name (p_name p) = Inr () \<and> clean_command (p_on_connect p))
   \<and> (\<forall>b\<in>set (bookmarks c). clean_command (b_on_connect b))
   \<and> distinct (map g_name (groups c)) \<and> (\<forall>g\<in>set (groups c). valid_group g)"

lemma bind_unit_ok [simp]:
  "result_bind x (\<lambda>_. y) = Inr () \<longleftrightarrow> x = Inr () \<and> y = Inr ()" for x :: "'e + unit"
  by (cases x) (simp_all add: result_bind_def)

lemma is_ok_unit: "is_ok x \<longleftrightarrow> x = Inr ()" for x :: "'e + unit"
  by (cases x) (simp_all add: is_ok_def)

lemma validate_command_ok: "validate_command cmd ctxt = Inr () \<longleftrightarrow> clean_command cmd"
  by (simp add: validate_command_def validate_on_connect_def clean_command_def MAX_ON_CONNECT_LEN_def
      split: option.splits)

lemma validate_each_ok: "validate_each f xs = Inr () \<longleftrightarrow> (\<forall>x\<in>set xs. f x = Inr ())"
  by (induction xs) auto

lemma validate_profiles_ok:
  "validate_profiles_from seen ps = Inr () \<longleftrightarrow> distinct (map p_name ps)
     \<and> p_name ` set ps \<inter> seen = {} \<and> (\<forall>p\<in>set ps. validate_bookmark_name (p_name p) = Inr ())"
  by (induction seen ps rule: validate_profiles_from.induct) (auto simp: is_ok_unit)

lemma check_session_names_ok:
  "check_session_names seen g ss = Inr () \<longleftrightarrow> distinct (map s_name ss) \<and> s_name ` set ss \<inter> seen = {}"
  by (induction seen g ss rule: check_session_names.induct) auto

lemma validate_group_ok: "validate_group g = Inr () \<longleftrightarrow> valid_group g"
  by (simp add: validate_group_def valid_group_def check_session_names_ok validate_command_ok
      validate_each_ok)

lemma validate_groups_ok:
  "validate_groups_from seen gs = Inr () \<longleftrightarrow> distinct (map g_name gs)
     \<and> g_name ` set gs \<inter> seen = {} \<and> (\<forall>g\<in>set gs. valid_group g)"
  by (induction seen gs rule: validate_groups_from.induct) (auto simp: validate_group_ok)

lemma validate_config_ok: "validate_config c = Inr () \<longleftrightarrow> valid_config c"
  by (auto simp: validate_config_def valid_config_def validate_profiles_def validate_profiles_ok
      validate_on_connect_fields_def validate_each_ok validate_command_ok validate_groups_def
      validate_groups_ok)

lemma clean_option_or:
  "clean_command x \<Longrightarrow> clean_command y \<Longrightarrow> clean_command (option_or x y)"
  by (cases x) simp_all

lemma clean_profile_command:
  assumes "\<forall>p\<in>set ps. clean_command (p_on_connect p)" and "\<And>p. r = Some p \<Longrightarrow> p \<in> set ps"
  shows "clean_command (Option.bind r p_on_connect)"
  using assms by (cases r) (auto simp: clean_command_def)

lemma bookmark_command_clean:
  "valid_config c \<Longrightarrow> b \<in> set (bookmarks c) \<Longrightarrow> clean_command (effective_on_connect b (profiles c))"
  unfolding effective_on_connect_def profile_field_def
  by (intro clean_option_or clean_profile_command [where ps = "profiles c"])
    (auto simp: valid_config_def dest: bookmark_owner.resolve_Some)

lemma session_command_clean:
  "valid_config c \<Longrightarrow> g \<in> set (groups c) \<Longrightarrow> s \<in> set (g_sessions g) \<Longrightarrow>
   clean_command (session_effective_on_connect s g (profiles c))"
  unfolding session_effective_on_connect_def
  by (intro clean_option_or clean_profile_command [where ps = "profiles c"])
    (auto simp: valid_config_def valid_group_def dest: group_owner.resolve_Some)

lemma default_config_valid: "valid_config (default_config env)"
  by (simp add: valid_config_def default_config_def)

lemma load_from_Inr:
  assumes "load_from env st = (Inr c, st')"
  shows "valid_config c \<and> (\<forall>t. main_file st = Some t \<longrightarrow> st' = st \<and> from_toml env t = Some c)
    \<and> (main_file st = None \<longrightarrow> c = default_config env)"
proof (cases "main_file st")
  case None
  then show ?thesis
    using assms default_config_valid by (auto simp: load_from_def split: prod.splits sum.splits)
next
  case (Some t)
  then show ?thesis
    using assms validate_config_ok
    by (auto simp: load_from_def split: if_splits option.splits sum.splits)
qed

section \<open>The write\<close>

lemma atomic_write_outcome:
  "(\<exists>e. atomic_write env c st = (Inl e, st))
   \<or> (\<exists>e. atomic_write env c st = (Inl e, st\<lparr>backup_file := backup_after env st\<rparr>))
   \<or> (\<exists>t. to_toml env c = Some t
        \<and> atomic_write env c st = (Inr (), st\<lparr>backup_file := backup_after env st, main_file := Some t\<rparr>))"
  by (cases "to_toml env c") (simp_all add: atomic_write_def Let_def)

section \<open>The export\<close>

lemma scrub_resolution:
  "effective_user os (scrub b) st ps = effective_user os b st ps"
  "effective_identity_file (scrub b) ps = effective_identity_file b ps"
  "effective_proxy_jump (scrub b) ps = effective_proxy_jump b ps"
  "effective_on_connect (scrub b) ps = effective_on_connect b ps"
  "effective_connect_timeout (scrub b) st ps = effective_connect_timeout b st ps"
  "effective_ssh_options (scrub b) ps = effective_ssh_options b ps"
  by (simp_all add: scrub_def effective_user_def effective_identity_file_def profile_field_def
      effective_proxy_jump_def effective_on_connect_def effective_connect_timeout_def
      effective_ssh_options_def resolve_profile_def)

lemma display_length: "length (sanitize_for_display s) \<le> 203"
proof -
  have len: "length t \<le> str_len t" for t
    by (induction t) (simp_all add: str_len_def utf8_len_def)
  let ?m = "map (\<lambda>c. if code c \<le> 0x1F \<or> (0x7F \<le> code c \<and> code c \<le> 0x9F) then CHR ''?'' else c) s"
  show ?thesis
    using len [of ?m] by (simp add: sanitize_for_display_def Let_def)
qed

lemma display_no_control: "c \<in> set (sanitize_for_display s) \<Longrightarrow> \<not> is_control c"
proof -
  assume c: "c \<in> set (sanitize_for_display s)"
  let ?m = "map (\<lambda>c. if code c \<le> 0x1F \<or> (0x7F \<le> code c \<and> code c \<le> 0x9F) then CHR ''?'' else c) s"
  have dots: "\<not> is_control (CHR ''.'')" "\<not> is_control (CHR ''?'')"
    by (simp_all add: is_control_def code_def)
  from c have "c \<in> set ?m \<or> c = CHR ''.''"
    by (auto simp: sanitize_for_display_def Let_def split: if_splits dest: in_set_takeD)
  then show ?thesis
  proof
    assume "c \<in> set ?m"
    then show ?thesis using dots(2) by (auto simp: is_control_def)
  qed (use dots in simp)
qed

text \<open>A text of 150 two-byte characters is shown with the marker of a truncation that did not happen.\<close>

lemma display_marks_whole_text:
  "sanitize_for_display (replicate 150 (CHR 0xE9)) = replicate 150 (CHR 0xE9) @ ''...''"
  by (simp add: sanitize_for_display_def str_len_def utf8_len_def code_def map_replicate
      sum_list_replicate)

section \<open>Properties\<close>

text \<open>
  Validation accepts exactly the configurations whose profile names are valid and distinct,
  whose group names are distinct, whose groups have distinct session names, and all of whose
  commands have at most 1024 bytes and no escape character.
\<close>

lemma validation_is_exact: "validate_config c = Inr () \<longleftrightarrow> valid_config c"
  by (rule validate_config_ok)

text \<open>
  C35: whatever the file holds, a configuration that loads is valid, and then the command run on
  connecting, after resolution through session, group and profile, is short and free of escape
  characters for every bookmark and every session.
\<close>

theorem loaded_commands_are_clean:
  assumes "load_from env st = (Inr c, st')"
  shows "valid_config c
    \<and> (\<forall>b\<in>set (bookmarks c). clean_command (effective_on_connect b (profiles c)))
    \<and> (\<forall>g\<in>set (groups c). \<forall>s\<in>set (g_sessions g).
         clean_command (session_effective_on_connect s g (profiles c)))"
  using load_from_Inr [OF assms] bookmark_command_clean session_command_clean by blast

definition sample_io :: "app_config io_env" where
  "sample_io = \<lparr>to_toml = Some, from_toml = Some, default_title = ''t'', default_badges = (\<lambda>s. s),
     can_make_dirs = True, can_make_temp = True, can_write_temp = True, can_chmod = True,
     can_backup = True, failed_backup = (\<lambda>_. None), can_persist = True, can_read = True, can_lock = True\<rparr>"

definition sample_config :: app_config where
  "sample_config = (default_config sample_io)\<lparr>groups := [sample_group]\<rparr>"

lemma sample_config_load:
  "load_from sample_io \<lparr>main_file = Some sample_config, backup_file = None\<rparr>
    = (Inr sample_config, \<lparr>main_file = Some sample_config, backup_file = None\<rparr>)"
proof -
  have "validate_config sample_config = Inr ()" by code_simp
  then show ?thesis by (simp add: load_from_def sample_io_def)
qed

theorem loaded_commands_are_clean_witness:
  "clean_command (session_effective_on_connect sample_session sample_group (profiles sample_config))"
  using loaded_commands_are_clean [OF sample_config_load]
  by (simp add: sample_config_def sample_group_def)



text \<open>
   an export keeps the selected bookmarks in order without their usage data and without
  groups; with the settings included, every exported bookmark resolves to the same user, key,
  jump host, command, timeout and options as before.
\<close>

lemma export_keeps_resolution:
  assumes "export_config env glob c envf tags pat incl = Inr e"
  shows "bookmarks e = map scrub (filter (export_selected glob envf tags pat) (bookmarks c))
    \<and> groups e = []
    \<and> (incl \<longrightarrow>
        effective_user os (scrub b) (settings_of e) (profiles e)
            = effective_user os b (settings_of c) (profiles c)
        \<and> effective_identity_file (scrub b) (profiles e) = effective_identity_file b (profiles c)
        \<and> effective_proxy_jump (scrub b) (profiles e) = effective_proxy_jump b (profiles c)
        \<and> effective_on_connect (scrub b) (profiles e) = effective_on_connect b (profiles c)
        \<and> effective_connect_timeout (scrub b) (settings_of e) (profiles e)
            = effective_connect_timeout b (settings_of c) (profiles c)
        \<and> effective_ssh_options (scrub b) (profiles e) = effective_ssh_options b (profiles c))"
  using assms by (auto simp: export_config_def Let_def scrub_resolution split: if_splits)

definition sample_bookmark :: bookmark where
  "sample_bookmark = \<lparr>b_name = ''web'', b_host = ''h'', b_user = None, b_port = 22, b_env = [],
     b_tags = [], b_identity_file = None, b_proxy_jump = None, b_notes = None,
     b_last_connected = Some 5, b_connect_count = 3, b_on_connect = None,
     b_on_connect_prompt_pattern = None, b_snippets = [], b_connect_timeout_secs = None,
     b_ssh_options = Map.empty, b_profile = Some ''p''\<rparr>"

definition sample_profile :: "profile" where
  "sample_profile = \<lparr>p_name = ''p'', p_user = Some ''deploy'', p_identity_file = None,
     p_proxy_jump = None, p_on_connect = None, p_ssh_options = Map.empty,
     p_connect_timeout_secs = None\<rparr>"

lemma export_keeps_resolution_witness:
  "\<exists>e :: app_config. bookmarks e = [scrub sample_bookmark]
     \<and> effective_user ''me'' (scrub sample_bookmark) (settings_of e) (profiles e) = ''deploy''"
proof -
  let ?c = "(default_config sample_io)\<lparr>bookmarks := [sample_bookmark],
    profiles := [sample_profile]\<rparr>"
  let ?e = "?c\<lparr>bookmarks := [scrub sample_bookmark]\<rparr>"
  have "export_config sample_io (\<lambda>_ _. True) ?c None [] None True = Inr ?e"
    by (simp add: export_config_def export_selected_def default_config_def)
  from export_keeps_resolution [OF this, of "''me''" sample_bookmark]
  have "effective_user ''me'' (scrub sample_bookmark) (settings_of ?e) (profiles ?e)
      = effective_user ''me'' sample_bookmark (settings_of ?c) (profiles ?c)" by blast
  also have "\<dots> = ''deploy''"
    by (simp add: effective_user_def resolve_profile_def find_profile_def sample_bookmark_def
        sample_profile_def)
  finally have user: "effective_user ''me'' (scrub sample_bookmark) (settings_of ?e) (profiles ?e)
      = ''deploy''" .
  have "bookmarks ?e = [scrub sample_bookmark]" by simp
  with user show ?thesis by blast
qed

text \<open>Without the settings the profiles are left out, and the user of a profile is lost.\<close>

lemma export_without_settings_drops_profiles:
  assumes "export_config env glob c envf tags pat False = Inr e"
  shows "effective_user os b (settings_of e) (profiles e) = unwrap_or (b_user b) os"
  using assms by (auto simp: export_config_def Let_def effective_user_def resolve_profile_def
      find_profile_def default_config_def default_settings_def split: if_splits option.splits)

end
