(* ===== verification/Ssh_Target.thy ===== *)
theory Ssh_Target
  imports Config_Model Utf8
begin

text \<open>
  The parts of \<open>src/ssh/mod.rs\<close> that work on one connection: parsing of connection and jump
  strings, the choice of keys, authentication with its use of the keychain, and the loop that
  collects the output of a remote command.

  The server is its answers to keys and passwords, the file system and the key loader of the
  \<open>russh\<close> crate are the record \<open>key_files\<close>, the terminal is what is typed at the two prompts,
  and a channel is the list of messages that arrive on it.
\<close>

section \<open>Connection strings\<close>

datatype target_error =
    Empty_user string
  | Empty_host string
  | Bad_port string
  | Empty_jump
  | Bad_jump_host name_error
  | Jump_port_zero

text \<open>\<open>[user@]host[:port]\<close>, split at the first \<open>@\<close> and the last colon.\<close>

definition parse_host_port :: "string \<Rightarrow> target_error + (string \<times> u16)" where
  "parse_host_port host_port =
     (case rsplit_once (CHR '':'') host_port of
        Some (host, p) \<Rightarrow>
          (case parse_u16 p of Some port \<Rightarrow> Inr (host, port) | None \<Rightarrow> Inl (Bad_port p))
      | None \<Rightarrow> Inr (host_port, 22))"

definition parse_connection_string :: "string \<Rightarrow> target_error + (string option \<times> string \<times> u16)" where
  "parse_connection_string target =
     (case split_once (CHR ''@'') target of
        Some (user, host_port) \<Rightarrow>
          if user = [] then Inl (Empty_user target)
          else if host_port = [] then Inl (Empty_host target)
          else result_bind (parse_host_port host_port) (\<lambda>(h, p). Inr (Some user, h, p))
      | None \<Rightarrow>
          if target = [] then Inl (Empty_host target)
          else result_bind (parse_host_port target) (\<lambda>(h, p). Inr (None, h, p)))"

record proxy_jump_target =
  jump_user :: "string option"
  jump_host :: string
  jump_port :: u16

definition parse_proxy_jump :: "string \<Rightarrow> target_error + proxy_jump_target" where
  "parse_proxy_jump input =
     (let trimmed = trim input in
      if trimmed = [] then Inl Empty_jump
      else result_bind (parse_connection_string trimmed) (\<lambda>(user, host, port).
        case validate_hostname host of
          Inl e \<Rightarrow> Inl (Bad_jump_host e)
        | Inr _ \<Rightarrow>
            if port = 0 then Inl Jump_port_zero
            else Inr \<lparr>jump_user = user, jump_host = host, jump_port = port\<rparr>))"

definition infer_bookmark_name :: "string \<Rightarrow> string" where
  "infer_bookmark_name host =
     (if CHR ''.'' \<in> set host \<and> list_all (\<lambda>c. is_ascii_digit c \<or> c = CHR ''.'') host
      then ''server-'' @ map (\<lambda>c. if c = CHR ''.'' then CHR ''-'' else c) host
      else if CHR ''.'' \<in> set host then hd (split_on (CHR ''.'') host)
      else host)"

definition DEFAULT_CONNECT_TIMEOUT_SECS :: u64 where
  "DEFAULT_CONNECT_TIMEOUT_SECS = 15"

definition effective_timeout :: "bookmark \<Rightarrow> settings \<Rightarrow> profile list \<Rightarrow> u64" where
  "effective_timeout b st ps =
     unwrap_or (effective_connect_timeout b st ps) DEFAULT_CONNECT_TIMEOUT_SECS"

section \<open>Keys\<close>

record 'k key_files =
  expand :: "string \<Rightarrow> string option"
  exists_file :: "string \<Rightarrow> bool"
  load_key :: "string \<Rightarrow> 'k option"
  load_with_passphrase :: "string \<Rightarrow> 'k option"
  is_rsa :: "'k \<Rightarrow> bool"
  ssh_dir :: string

datatype hash_alg = Sha256 | Sha512

text \<open>A key together with the hash the signature uses.\<close>

type_synonym 'k hashed_key = "'k \<times> hash_alg option"

definition wrap_key :: "'k key_files \<Rightarrow> 'k \<Rightarrow> 'k hashed_key list" where
  "wrap_key kf k = (if is_rsa kf k then [(k, Some Sha256), (k, Some Sha512)] else [(k, None)])"

definition load_key_from_path :: "'k key_files \<Rightarrow> string \<Rightarrow> 'k hashed_key list option" where
  "load_key_from_path kf path = map_option (wrap_key kf) (load_key kf path)"

definition DEFAULT_KEY_NAMES :: "string list" where
  "DEFAULT_KEY_NAMES = [''id_ed25519'', ''id_rsa'', ''id_ecdsa'']"

definition load_default_keys :: "'k key_files \<Rightarrow> 'k hashed_key list" where
  "load_default_keys kf =
     concat (map (\<lambda>n. let path = ssh_dir kf @ ''/'' @ n in
         if exists_file kf path then unwrap_or (load_key_from_path kf path) [] else [])
       DEFAULT_KEY_NAMES)"

definition load_identity :: "'k key_files \<Rightarrow> string \<Rightarrow> 'k hashed_key list" where
  "load_identity kf path =
     (if \<not> exists_file kf path then []
      else case load_key_from_path kf path of
          Some loaded \<Rightarrow> loaded
        | None \<Rightarrow> unwrap_or (map_option (wrap_key kf) (load_with_passphrase kf path)) [])"

definition load_keys :: "'k key_files \<Rightarrow> bookmark \<Rightarrow> profile list \<Rightarrow> 'k hashed_key list" where
  "load_keys kf b ps =
     (case resolved_effective_identity_file (expand kf) b ps of
        Some (Inr path) \<Rightarrow> load_identity kf path
      | Some (Inl _) \<Rightarrow> []
      | None \<Rightarrow> []) @ load_default_keys kf"

section \<open>Authentication\<close>

datatype auth_reply = Accepted | Rejected | Auth_error

record 'k ssh_server =
  key_reply :: "'k hashed_key \<Rightarrow> auth_reply"
  password_reply :: "string \<Rightarrow> auth_reply"

text \<open>The OS keychain: its entries, and whether its operations succeed.\<close>

record keychain =
  kc_entries :: "string \<rightharpoonup> string"
  kc_readable :: bool
  kc_writable :: bool

definition get_password :: "keychain \<Rightarrow> string \<Rightarrow> string option" where
  "get_password kc name = (if kc_readable kc then kc_entries kc name else None)"

definition set_password :: "string \<Rightarrow> string \<Rightarrow> keychain \<Rightarrow> keychain" where
  "set_password name pw kc =
     (if kc_writable kc then kc\<lparr>kc_entries := (kc_entries kc)(name \<mapsto> pw)\<rparr> else kc)"

definition delete_password :: "string \<Rightarrow> keychain \<Rightarrow> keychain" where
  "delete_password name kc =
     (if kc_writable kc then kc\<lparr>kc_entries := (kc_entries kc)(name := None)\<rparr> else kc)"

text \<open>What is typed at the password prompt and at the question about saving it.\<close>

record terminal =
  typed_password :: "string option"
  save_answer :: "string option"

record auth_context =
  ctx_bookmark_name :: "string option"
  has_identity_file :: bool
  non_interactive :: bool

datatype auth_failure = Prompt_failed | Password_error

text \<open>The loop over the keys: whether one was accepted.\<close>

fun try_keys :: "'k ssh_server \<Rightarrow> 'k hashed_key list \<Rightarrow> bool" where
  "try_keys srv [] = False"
| "try_keys srv (k # ks) = (if key_reply srv k = Accepted then True else try_keys srv ks)"

definition offer_save :: "terminal \<Rightarrow> string \<Rightarrow> string \<Rightarrow> keychain \<Rightarrow> keychain" where
  "offer_save term name pw kc =
     (if get_password kc name \<noteq> None then kc
      else case save_answer term of
          None \<Rightarrow> kc
        | Some a \<Rightarrow> if eq_ignore_ascii_case (trim a) ''y'' then set_password name pw kc else kc)"

definition offer_save_password ::
    "terminal \<Rightarrow> auth_context \<Rightarrow> string \<Rightarrow> keychain \<Rightarrow> keychain" where
  "offer_save_password term ctx pw kc =
     (case ctx_bookmark_name ctx of None \<Rightarrow> kc | Some name \<Rightarrow> offer_save term name pw kc)"

text \<open>
  The outcome of authentication: the result, the keychain, and the passwords that were sent to
  the server in order.
\<close>

type_synonym auth_outcome = "(auth_failure + bool) \<times> keychain \<times> string list"

definition prompt_step ::
    "'k ssh_server \<Rightarrow> terminal \<Rightarrow> (string \<Rightarrow> keychain \<Rightarrow> keychain) \<Rightarrow> keychain \<Rightarrow> string list \<Rightarrow> auth_outcome"
    where
  "prompt_step srv term offer kc sent =
     (case typed_password term of
        None \<Rightarrow> (Inl Prompt_failed, kc, sent)
      | Some pw \<Rightarrow>
          (case password_reply srv pw of
             Accepted \<Rightarrow> (Inr True, offer pw kc, sent @ [pw])
           | Rejected \<Rightarrow> (Inr False, kc, sent @ [pw])
           | Auth_error \<Rightarrow> (Inl Password_error, kc, sent @ [pw])))"

text \<open>The stored password of \<open>name\<close>, then \<open>next\<close>.\<close>

definition keychain_step ::
    "'k ssh_server \<Rightarrow> string option \<Rightarrow> keychain \<Rightarrow> (keychain \<Rightarrow> string list \<Rightarrow> auth_outcome) \<Rightarrow> auth_outcome"
    where
  "keychain_step srv name kc next =
     (case Option.bind name (get_password kc) of
        None \<Rightarrow> next kc []
      | Some pw \<Rightarrow>
          (case password_reply srv pw of
             Accepted \<Rightarrow> (Inr True, kc, [pw])
           | Rejected \<Rightarrow> next (delete_password (the name) kc) [pw]
           | Auth_error \<Rightarrow> next kc [pw]))"

definition authenticate ::
    "'k ssh_server \<Rightarrow> terminal \<Rightarrow> 'k hashed_key list \<Rightarrow> auth_context \<Rightarrow> keychain \<Rightarrow> auth_outcome" where
  "authenticate srv term keys ctx kc =
     (if try_keys srv keys then (Inr True, kc, [])
      else if has_identity_file ctx \<and> keys \<noteq> [] then (Inr False, kc, [])
      else keychain_step srv (ctx_bookmark_name ctx) kc (\<lambda>kc sent.
        if non_interactive ctx then (Inr False, kc, sent)
        else prompt_step srv term (offer_save_password term ctx) kc sent))"

definition jump_keychain_name :: "string \<Rightarrow> string" where
  "jump_keychain_name host = ''__jump:'' @ host"

definition authenticate_with_jump_keychain ::
    "'k ssh_server \<Rightarrow> terminal \<Rightarrow> string \<Rightarrow> 'k hashed_key list \<Rightarrow> auth_context \<Rightarrow> keychain \<Rightarrow> auth_outcome"
    where
  "authenticate_with_jump_keychain srv term host keys ctx kc =
     (if try_keys srv keys then (Inr True, kc, [])
      else if has_identity_file ctx \<and> keys \<noteq> [] then (Inr False, kc, [])
      else keychain_step srv (Some (jump_keychain_name host)) kc
        (prompt_step srv term (offer_save term (jump_keychain_name host))))"

section \<open>Remote commands\<close>

datatype channel_msg =
    Data bytes
  | Extended_data bytes nat
  | Exit_status u32
  | Exit_signal
  | Eof
  | Close
  | Other

record exec_buffers =
  stdout_buf :: bytes
  stderr_buf :: bytes
  exit_code :: "u32 option"

definition exec_start :: exec_buffers where
  "exec_start = \<lparr>stdout_buf = [], stderr_buf = [], exit_code = None\<rparr>"

definition exec_step :: "channel_msg \<Rightarrow> exec_buffers \<Rightarrow> exec_buffers" where
  "exec_step m st =
     (case m of
        Data bs \<Rightarrow> st\<lparr>stdout_buf := stdout_buf st @ bs\<rparr>
      | Extended_data bs ext \<Rightarrow>
          if ext = 1 then st\<lparr>stderr_buf := stderr_buf st @ bs\<rparr> else st
      | Exit_status n \<Rightarrow> st\<lparr>exit_code := Some n\<rparr>
      | Exit_signal \<Rightarrow> if exit_code st = None then st\<lparr>exit_code := Some 128\<rparr> else st
      | _ \<Rightarrow> st)"

fun exec_loop :: "channel_msg list \<Rightarrow> exec_buffers \<Rightarrow> exec_buffers" where
  "exec_loop [] st = st"
| "exec_loop (m # ms) st = (if m = Eof \<or> m = Close then st else exec_loop ms (exec_step m st))"

record exec_result =
  ex_stdout :: rstring
  ex_stderr :: rstring
  ex_exit_code :: u32

definition exec_collect :: "channel_msg list \<Rightarrow> exec_result" where
  "exec_collect ms =
     (let st = exec_loop ms exec_start in
      \<lparr>ex_stdout = from_utf8_lossy (stdout_buf st), ex_stderr = from_utf8_lossy (stderr_buf st),
       ex_exit_code = unwrap_or (exit_code st) 1\<rparr>)"

section \<open>Lemmas\<close>

lemma split_once_Nil: "split_once d [] = None"
  by (simp add: split_once_def)

lemma split_once_Cons:
  "split_once d (c # s) =
     (if c = d then Some ([], s) else map_option (\<lambda>(a, b). (c # a, b)) (split_once d s))"
  by (cases "dropWhile (\<lambda>c. c \<noteq> d) s")
    (simp_all add: split_once_def del: dropWhile_eq_Nil_conv)

lemma split_once_hit: "d \<notin> set a \<Longrightarrow> split_once d (a @ d # b) = Some (a, b)"
  by (induction a) (auto simp: split_once_Cons)

lemma split_once_None: "split_once d s = None \<longleftrightarrow> d \<notin> set s"
  by (induction s) (auto simp: split_once_Nil split_once_Cons)

lemma rsplit_once_hit: "d \<notin> set b \<Longrightarrow> rsplit_once d (a @ d # b) = Some (a, b)"
  by (simp add: rsplit_once_def split_once_hit)

lemma rsplit_once_None: "rsplit_once d s = None \<longleftrightarrow> d \<notin> set s"
  by (simp add: rsplit_once_def split_once_None)

lemma show_nat_plain: "\<not> is_ascii_digit d \<Longrightarrow> d \<notin> set (show_nat n)"
  using show_nat_digits [of n] by (auto simp: list_all_iff)

lemma parse_host_port_shown:
  "parse_host_port (host @ '':'' @ show_nat (unat port)) = Inr (host, port)"
proof -
  have "CHR '':'' \<notin> set (show_nat (unat port))"
    by (rule show_nat_plain) (simp add: is_ascii_digit_def code_def)
  then show ?thesis by (simp add: parse_host_port_def rsplit_once_hit parse_u16_show)
qed

lemma try_keys_iff: "try_keys srv keys \<longleftrightarrow> (\<exists>k\<in>set keys. key_reply srv k = Accepted)"
  by (induction keys) auto

text \<open>What the offer to save keeps: no entry disappears.\<close>

lemma offer_save_keeps: "kc_entries kc n \<noteq> None \<Longrightarrow> kc_entries (offer_save term name pw kc) n \<noteq> None"
  by (auto simp: offer_save_def set_password_def split: option.splits)

lemma offer_save_password_keeps:
  "kc_entries kc n \<noteq> None \<Longrightarrow> kc_entries (offer_save_password term ctx pw kc) n \<noteq> None"
  using offer_save_keeps by (auto simp: offer_save_password_def split: option.splits)

lemma prompt_step_secrets:
  assumes "prompt_step srv term offer kc sent = (r, kc', sent')"
    and "\<And>pw n. kc_entries kc n \<noteq> None \<Longrightarrow> kc_entries (offer pw kc) n \<noteq> None"
  shows "(r = Inr True \<longrightarrow> sent' \<noteq> [] \<and> password_reply srv (last sent') = Accepted)
    \<and> (\<forall>n. kc_entries kc n \<noteq> None \<longrightarrow> kc_entries kc' n \<noteq> None)"
  using assms by (auto simp: prompt_step_def split: option.splits auth_reply.splits)

lemma delete_password_keeps:
  "kc_entries kc n \<noteq> None \<Longrightarrow> kc_entries (delete_password name kc) n \<noteq> None \<or> n = name"
  by (auto simp: delete_password_def)

lemma keychain_step_cases:
  obtains (nothing) "Option.bind name (get_password kc) = None"
      "keychain_step srv name kc next = next kc []"
  | (hit) pw where "Option.bind name (get_password kc) = Some pw"
      "password_reply srv pw = Accepted" "keychain_step srv name kc next = (Inr True, kc, [pw])"
  | (stale) n pw where "name = Some n" "get_password kc n = Some pw"
      "password_reply srv pw = Rejected"
      "keychain_step srv name kc next = next (delete_password n kc) [pw]"
  | (broken) pw where "Option.bind name (get_password kc) = Some pw"
      "keychain_step srv name kc next = next kc [pw]"
proof (cases "Option.bind name (get_password kc)")
  case None
  show ?thesis by (rule nothing) (use None in \<open>simp_all add: keychain_step_def\<close>)
next
  case (Some pw)
  then obtain n where n: "name = Some n" "get_password kc n = Some pw" by (cases name) auto
  show ?thesis
    by (cases "password_reply srv pw") (use Some n hit stale broken in \<open>auto simp: keychain_step_def\<close>)
qed

lemma exec_loop_append:
  "Eof \<notin> set ms \<Longrightarrow> Close \<notin> set ms \<Longrightarrow> exec_loop (ms @ ns) st = exec_loop ns (exec_loop ms st)"
  by (induction ms arbitrary: st) auto

definition msg_stdout :: "channel_msg \<Rightarrow> bytes" where
  "msg_stdout m = (case m of Data bs \<Rightarrow> bs | _ \<Rightarrow> [])"

definition msg_stderr :: "channel_msg \<Rightarrow> bytes" where
  "msg_stderr m = (case m of Extended_data bs ext \<Rightarrow> if ext = 1 then bs else [] | _ \<Rightarrow> [])"

lemma msg_output_simps [simp]:
  "msg_stdout (Data bs) = bs" "msg_stdout (Extended_data bs ext) = []"
  "msg_stdout (Exit_status n) = []" "msg_stdout Exit_signal = []" "msg_stdout Other = []"
  "msg_stderr (Data bs) = []" "msg_stderr (Exit_status n) = []" "msg_stderr Exit_signal = []"
  "msg_stderr Other = []" "msg_stderr (Extended_data bs ext) = (if ext = 1 then bs else [])"
  by (simp_all add: msg_stdout_def msg_stderr_def)

text \<open>The last exit status, or 128 where only a signal was reported.\<close>

fun last_status :: "u32 option \<Rightarrow> channel_msg list \<Rightarrow> u32 option" where
  "last_status c [] = c"
| "last_status c (Exit_status n # ms) = last_status (Some n) ms"
| "last_status c (Exit_signal # ms) = last_status (if c = None then Some 128 else c) ms"
| "last_status c (m # ms) = last_status c ms"

lemma exec_loop_collect:
  "Eof \<notin> set ms \<Longrightarrow> Close \<notin> set ms \<Longrightarrow> exec_loop ms st =
     \<lparr>stdout_buf = stdout_buf st @ concat (map msg_stdout ms),
      stderr_buf = stderr_buf st @ concat (map msg_stderr ms),
      exit_code = last_status (exit_code st) ms\<rparr>"
proof (induction ms arbitrary: st)
  case (Cons m ms)
  then show ?case
    by (cases m) (simp_all add: exec_step_def)
qed simp

section \<open>Properties\<close>

text \<open>
   a target written out as user, host and port is read back as written, also with colons in
  the host, and without a user; a bare host gets port 22.
\<close>

lemma connection_string_roundtrip:
  assumes "CHR ''@'' \<notin> set user" and "user \<noteq> []" and "CHR ''@'' \<notin> set host"
  shows "parse_connection_string (user @ ''@'' @ host @ '':'' @ show_nat (unat port))
      = Inr (Some user, host, port)
    \<and> parse_connection_string (host @ '':'' @ show_nat (unat port)) = Inr (None, host, port)
    \<and> (CHR '':'' \<notin> set host \<and> host \<noteq> [] \<longrightarrow> parse_connection_string host = Inr (None, host, 22))"
proof -
  let ?hp = "host @ '':'' @ show_nat (unat port)"
  have at: "CHR ''@'' \<notin> set (show_nat (unat port))"
    by (rule show_nat_plain) (simp add: is_ascii_digit_def code_def)
  have 1: "parse_connection_string (user @ ''@'' @ ?hp) = Inr (Some user, host, port)"
    using split_once_hit [OF assms(1), of ?hp] assms(2)
    by (simp add: parse_connection_string_def parse_host_port_shown [simplified])
  have "split_once (CHR ''@'') ?hp = None" using assms(3) at by (simp add: split_once_None)
  then have 2: "parse_connection_string ?hp = Inr (None, host, port)"
    by (simp add: parse_connection_string_def parse_host_port_shown [simplified])
  have "split_once (CHR ''@'') host = None" using assms(3) by (simp add: split_once_None)
  then have 3: "CHR '':'' \<notin> set host \<and> host \<noteq> [] \<longrightarrow> parse_connection_string host = Inr (None, host, 22)"
    by (simp add: parse_connection_string_def parse_host_port_def rsplit_once_None [THEN iffD2])
  from 1 2 3 show ?thesis by blast
qed

lemma connection_string_roundtrip_witness:
  "parse_connection_string ''me@::1:2222'' = Inr (Some ''me'', ''::1'', 2222)"
proof -
  have "show_nat (unat (2222 :: u16)) = ''2222''" by code_simp
  with connection_string_roundtrip [of "''me''" "''::1''" 2222] show ?thesis by simp
qed

text \<open>
  The check for an empty host looks only at the part before the port is split off: a target
  of nothing but a port is accepted with an empty host. An IPv6 address without a port loses its
  last group to the port.
\<close>

lemma connection_string_gaps:
  "parse_connection_string '':22'' = Inr (None, [], 22)
   \<and> parse_connection_string ''me@:22'' = Inr (Some ''me'', [], 22)
   \<and> parse_connection_string ''fe80::1'' = Inr (None, ''fe80:'', 1)"
proof -
  have shown: "show_nat (unat (22 :: u16)) = ''22''" "show_nat (unat (1 :: u16)) = ''1''"
    by code_simp+
  have "parse_host_port '':22'' = Inr ([], 22)" "parse_host_port ''fe80::1'' = Inr (''fe80:'', 1)"
    using parse_host_port_shown [of "[]" 22] parse_host_port_shown [of "''fe80:''" 1]
    by (simp_all only: shown append.simps)
  then show ?thesis
    by (simp add: parse_connection_string_def split_once_Cons split_once_Nil)
qed

text \<open>
  C29: which secrets authentication may send. With an identity file and any key loaded no
  password is sent at all; without interaction only the stored one of the bookmark; success means
  that the server accepted a key or the last password sent; and an entry of the keychain
  disappears only if the server rejected it.
\<close>

theorem authentication_secrets:
  assumes "authenticate srv term keys ctx kc = (r, kc', sent)"
  shows "(has_identity_file ctx \<and> keys \<noteq> [] \<longrightarrow> sent = [] \<and> kc' = kc)
    \<and> (non_interactive ctx \<longrightarrow>
        (\<forall>pw\<in>set sent. Option.bind (ctx_bookmark_name ctx) (get_password kc) = Some pw))
    \<and> (r = Inr True \<longrightarrow> (\<exists>k\<in>set keys. key_reply srv k = Accepted)
        \<or> (sent \<noteq> [] \<and> password_reply srv (last sent) = Accepted))
    \<and> (\<forall>n pw. kc_entries kc n = Some pw \<and> kc_entries kc' n = None \<longrightarrow> password_reply srv pw = Rejected)"
proof (cases "try_keys srv keys \<or> has_identity_file ctx \<and> keys \<noteq> []")
  case True
  then show ?thesis using assms by (auto simp: authenticate_def try_keys_iff split: if_splits)
next
  case False
  let ?next = "\<lambda>kc sent. if non_interactive ctx then (Inr False, kc, sent)
      else prompt_step srv term (offer_save_password term ctx) kc sent"
  have run: "keychain_step srv (ctx_bookmark_name ctx) kc ?next = (r, kc', sent)"
    using assms False by (auto simp: authenticate_def)
  have nxt: "(r = Inr True \<longrightarrow> sent \<noteq> [] \<and> password_reply srv (last sent) = Accepted)
      \<and> (\<forall>n. kc_entries k n \<noteq> None \<longrightarrow> kc_entries kc' n \<noteq> None)
      \<and> (non_interactive ctx \<longrightarrow> sent = s0)"
    if "?next k s0 = (r, kc', sent)" for k s0
  proof (cases "non_interactive ctx")
    case False
    with that have "prompt_step srv term (offer_save_password term ctx) k s0 = (r, kc', sent)"
      by simp
    from prompt_step_secrets [OF this offer_save_password_keeps] False show ?thesis by blast
  qed (use that in auto)
  show ?thesis
  proof (cases rule: keychain_step_cases [of "ctx_bookmark_name ctx" kc srv ?next])
    case nothing
    then show ?thesis using run nxt [of kc "[]"] False by auto
  next
    case (hit pw)
    then show ?thesis using run False by auto
  next
    case (stale n pw)
    have entry: "kc_entries kc n = Some pw"
      using stale(2) by (simp add: get_password_def split: if_splits)
    have "?next (delete_password n kc) [pw] = (r, kc', sent)" using run stale(4) by simp
    note after = nxt [OF this]
    have "password_reply srv pw' = Rejected"
      if "kc_entries kc m = Some pw'" "kc_entries kc' m = None" for m pw'
    proof -
      have "m = n" using that after delete_password_keeps [of kc m n] by (metis option.distinct(1))
      with that entry stale(3) show ?thesis by simp
    qed
    moreover have "Option.bind (ctx_bookmark_name ctx) (get_password kc) = Some pw"
      using stale by simp
    ultimately show ?thesis using after False by auto
  next
    case (broken pw)
    then show ?thesis using run nxt [of kc "[pw]"] False by auto
  qed
qed

definition sample_server :: "nat ssh_server" where
  "sample_server = \<lparr>key_reply = (\<lambda>_. Rejected),
     password_reply = (\<lambda>pw. if pw = ''new'' then Accepted else Rejected)\<rparr>"

definition sample_terminal :: terminal where
  "sample_terminal = \<lparr>typed_password = Some ''new'', save_answer = Some ''y''\<rparr>"

definition sample_ctx :: auth_context where
  "sample_ctx = \<lparr>ctx_bookmark_name = Some ''web'', has_identity_file = False,
     non_interactive = False\<rparr>"

definition sample_keychain :: keychain where
  "sample_keychain = \<lparr>kc_entries = [''web'' \<mapsto> ''old''], kc_readable = True, kc_writable = True\<rparr>"

theorem authentication_secrets_witness:
  "\<exists>kc' sent. authenticate sample_server sample_terminal [(0, None)] sample_ctx sample_keychain
      = (Inr True, kc', sent) \<and> sent \<noteq> [] \<and> password_reply sample_server (last sent) = Accepted"
proof -
  obtain r kc' sent where a:
    "authenticate sample_server sample_terminal [(0, None)] sample_ctx sample_keychain = (r, kc', sent)"
    by (metis surj_pair)
  have "fst (authenticate sample_server sample_terminal [(0, None)] sample_ctx sample_keychain)
      = Inr True" by code_simp
  with a have r: "r = Inr True" by simp
  have "\<not> (\<exists>k\<in>set [(0 :: nat, None)]. key_reply sample_server k = Accepted)" by code_simp
  with authentication_secrets [OF a] r a show ?thesis by blast
qed

text \<open>
   the result of a remote command is what arrived before the first end-of-file or close
  message: the output and error bytes in order, and the last exit status, or 1 without one. An
  exit status that arrives after the end of file, as the protocol allows, is lost.
\<close>

lemma exec_result_before_eof:
  assumes "Eof \<notin> set ms" and "Close \<notin> set ms"
  shows "exec_collect (ms @ Eof # rest) =
      \<lparr>ex_stdout = from_utf8_lossy (concat (map msg_stdout ms)),
       ex_stderr = from_utf8_lossy (concat (map msg_stderr ms)),
       ex_exit_code = unwrap_or (last_status None ms) 1\<rparr>
    \<and> exec_collect ms = exec_collect (ms @ Eof # rest)"
  using assms by (simp add: exec_collect_def exec_loop_append exec_loop_collect exec_start_def)

lemma exec_result_before_eof_witness:
  "ex_exit_code (exec_collect [Data [104, 105], Eof, Exit_status 0, Close]) = 1"
proof -
  have "last_status None [Data [104, 105]] = None" by simp
  with exec_result_before_eof [of "[Data [104, 105]]" "[Exit_status 0, Close]"] show ?thesis by simp
qed

end
