(* ===== verification/Env_Detect.thy ===== *)
theory Env_Detect
  imports Rust_Str
begin

text \<open>
  \<open>src/config/env.rs\<close>: detection of the environment tier from a bookmark's name and host by a
  search for whole words. The search works on the UTF-8 bytes of the text, as the code does.
\<close>

section \<open>The search\<close>

definition WORD_DELIMITERS :: "byte list" where
  "WORD_DELIMITERS = [0x2D, 0x5F, 0x2E, 0x20, 0x3A]"

text \<open>\<open>str::find\<close>.\<close>

fun bytes_prefix :: "bytes \<Rightarrow> bytes \<Rightarrow> bool" where
  "bytes_prefix [] s = True"
| "bytes_prefix (p # ps) [] = False"
| "bytes_prefix (p # ps) (c # cs) = (p = c \<and> bytes_prefix ps cs)"

fun find_sub :: "bytes \<Rightarrow> bytes \<Rightarrow> nat option" where
  "find_sub p s =
     (if bytes_prefix p s then Some 0
      else case s of [] \<Rightarrow> None | _ # s' \<Rightarrow> map_option Suc (find_sub p s'))"

definition left_ok :: "bytes \<Rightarrow> nat \<Rightarrow> bool" where
  "left_ok s abs_pos \<longleftrightarrow> abs_pos = 0 \<or> s ! (abs_pos - 1) \<in> set WORD_DELIMITERS"

definition right_ok :: "bytes \<Rightarrow> nat \<Rightarrow> bool" where
  "right_ok s end_pos \<longleftrightarrow> end_pos = length s \<or> s ! end_pos \<in> set WORD_DELIMITERS"

text \<open>
  The loop with its \<open>start\<close>. Past the end of the text the slice of the code would panic; a
  pattern that is not empty never leads there.
\<close>

function search_word :: "bytes \<Rightarrow> bytes \<Rightarrow> nat \<Rightarrow> bool" where
  "search_word s p start =
     (if start > length s then False
      else case find_sub p (drop start s) of
          None \<Rightarrow> False
        | Some pos \<Rightarrow>
            let abs_pos = start + pos; end_pos = abs_pos + length p
            in if left_ok s abs_pos \<and> right_ok s end_pos then True
               else search_word s p (abs_pos + 1))"
  by pat_completeness auto
termination
  by (relation "measure (\<lambda>(s, p, start). Suc (length s) - start)") auto

declare find_sub.simps [simp del] search_word.simps [simp del]

definition contains_word :: "bytes \<Rightarrow> string list \<Rightarrow> bool" where
  "contains_word s patterns \<longleftrightarrow> list_ex (\<lambda>p. search_word s (str_bytes p) 0) patterns"

section \<open>The tiers\<close>

definition PRODUCTION_PATTERNS :: "string list" where
  "PRODUCTION_PATTERNS = [''prod'', ''production'', ''prd'']"

definition STAGING_PATTERNS :: "string list" where
  "STAGING_PATTERNS = [''stag'', ''staging'', ''stg'']"

definition DEVELOPMENT_PATTERNS :: "string list" where
  "DEVELOPMENT_PATTERNS = [''dev'', ''development'', ''develop'']"

definition LOCAL_PATTERNS :: "string list" where
  "LOCAL_PATTERNS = [''local'', ''localhost'', ''127.0.0.1'', ''::1'']"

definition TESTING_PATTERNS :: "string list" where
  "TESTING_PATTERNS = [''test'', ''testing'', ''qa'', ''uat'']"

definition KNOWN_TIERS :: "string list" where
  "KNOWN_TIERS = [''production'', ''staging'', ''development'', ''local'', ''testing'']"

definition warn_unknown_env :: "string \<Rightarrow> bool" where
  "warn_unknown_env env \<longleftrightarrow> list_ex (\<lambda>t. eq_ignore_ascii_case t env) KNOWN_TIERS"

definition combined_text :: "string \<Rightarrow> string \<Rightarrow> bytes" where
  "combined_text name host = str_bytes (to_lowercase name @ '' '' @ to_lowercase host)"

definition detect_env :: "string \<Rightarrow> string \<Rightarrow> string" where
  "detect_env name host =
     (let combined = combined_text name host in
      if contains_word combined PRODUCTION_PATTERNS then ''production''
      else if contains_word combined STAGING_PATTERNS then ''staging''
      else if contains_word combined DEVELOPMENT_PATTERNS then ''development''
      else if contains_word combined LOCAL_PATTERNS then ''local''
      else if contains_word combined TESTING_PATTERNS then ''testing''
      else '''')"

section \<open>Whole words\<close>

text \<open>A whole word of the text: at its start or after a delimiter, at its end or before one.\<close>

definition whole_word :: "bytes \<Rightarrow> bytes \<Rightarrow> bool" where
  "whole_word p s \<longleftrightarrow> (\<exists>pre post. s = pre @ p @ post
     \<and> (pre = [] \<or> last pre \<in> set WORD_DELIMITERS)
     \<and> (post = [] \<or> hd post \<in> set WORD_DELIMITERS))"

lemma bytes_prefix_iff: "bytes_prefix p s \<longleftrightarrow> (\<exists>r. s = p @ r)"
  by (induction p s rule: bytes_prefix.induct) auto

lemma find_sub_None: "find_sub p s = None \<Longrightarrow> \<not> bytes_prefix p (drop i s)"
proof (induction p s arbitrary: i rule: find_sub.induct)
  case (1 p s)
  show ?case
  proof (cases s)
    case Nil
    then show ?thesis using "1.prems" by (simp add: find_sub.simps [of p "[]"] split: if_splits)
  next
    case (Cons c s')
    then have "\<not> bytes_prefix p s" "find_sub p s' = None"
      using "1.prems" by (simp_all add: find_sub.simps [of p "c # s'"] split: if_splits)
    with "1.IH" [OF _ Cons] Cons show ?thesis by (cases i) simp_all
  qed
qed

lemma find_sub_Some:
  "find_sub p s = Some n \<Longrightarrow> bytes_prefix p (drop n s) \<and> n \<le> length s \<and> (\<forall>i<n. \<not> bytes_prefix p (drop i s))"
proof (induction p s arbitrary: n rule: find_sub.induct)
  case (1 p s)
  show ?case
  proof (cases "bytes_prefix p s")
    case True
    then show ?thesis using "1.prems" by (simp add: find_sub.simps [of p s])
  next
    case False
    with "1.prems" obtain c s' m where s: "s = c # s'" and m: "find_sub p s' = Some m" "n = Suc m"
      by (auto simp: find_sub.simps [of p s] split: list.splits)
    have "\<not> bytes_prefix p (drop i s)" if "i < n" for i
      using that False "1.IH" [OF False s m(1)] by (cases i) (simp_all add: s m(2))
    with "1.IH" [OF False s m(1)] show ?thesis by (simp add: s m(2))
  qed
qed

definition word_at :: "bytes \<Rightarrow> bytes \<Rightarrow> nat \<Rightarrow> bool" where
  "word_at s p i \<longleftrightarrow> i \<le> length s \<and> bytes_prefix p (drop i s) \<and> left_ok s i \<and> right_ok s (i + length p)"

lemma search_word_iff: "search_word s p start \<longleftrightarrow> (\<exists>i\<ge>start. word_at s p i)"
proof (induction s p start rule: search_word.induct)
  case (1 s p start)
  show ?case
  proof (cases "start > length s")
    case True
    then show ?thesis by (auto simp: search_word.simps [of s p start] word_at_def)
  next
    case False
    show ?thesis
    proof (cases "find_sub p (drop start s)")
      case None
      have "\<not> word_at s p i" if "start \<le> i" for i
        using find_sub_None [OF None, of "i - start"] that by (simp add: word_at_def)
      then show ?thesis using None False by (auto simp: search_word.simps [of s p start])
    next
      case (Some pos)
      note hit = find_sub_Some [OF Some]
      have before: "\<not> word_at s p i" if "start \<le> i" "i < start + pos" for i
        using hit that by (auto simp: word_at_def dest: spec [where x = "i - start"])
      have at: "word_at s p (start + pos) \<longleftrightarrow>
          left_ok s (start + pos) \<and> right_ok s (start + pos + length p)"
        using hit False by (auto simp: word_at_def add.commute)
      show ?thesis
      proof (cases "word_at s p (start + pos)")
        case True
        then show ?thesis using at False Some
          by (auto simp: search_word.simps [of s p start] intro: exI [of _ "start + pos"])
      next
        case nw: False
        have "search_word s p start = search_word s p (start + pos + 1)"
          using nw at False Some by (simp add: search_word.simps [of s p start])
        also have "\<dots> \<longleftrightarrow> (\<exists>i\<ge>start + pos + 1. word_at s p i)"
          using "1.IH" [OF False Some refl refl] nw at by simp
        also have "\<dots> \<longleftrightarrow> (\<exists>i\<ge>start. word_at s p i)"
          using before nw by (metis Suc_eq_plus1 le_add1 le_trans not_less_eq_eq not_le le_antisym)
        finally show ?thesis .
      qed
    qed
  qed
qed

lemma word_at_whole: "(\<exists>i. word_at s p i) \<longleftrightarrow> whole_word p s"
proof
  assume "\<exists>i. word_at s p i"
  then obtain i r where i: "i \<le> length s" "drop i s = p @ r" "left_ok s i" "right_ok s (i + length p)"
    by (auto simp: word_at_def bytes_prefix_iff)
  have s: "s = take i s @ p @ r" using i(2) by (metis append_take_drop_id)
  have "i \<noteq> 0 \<Longrightarrow> s \<noteq> [] \<Longrightarrow> last (take i s) = s ! (i - 1)"
    using i(1) by (subst last_conv_nth) (auto simp: min_def)
  then have "take i s = [] \<or> last (take i s) \<in> set WORD_DELIMITERS"
    using i(3) by (cases "i = 0 \<or> s = []") (auto simp: left_ok_def)
  moreover have "r = [] \<or> hd r \<in> set WORD_DELIMITERS"
  proof (cases r)
    case (Cons c r')
    have "length s = i + length p + length r" using i(1) arg_cong [OF i(2), of length] by simp
    moreover have "s ! (i + length p) = c"
      using i(1,2) Cons by (metis nth_append_length nth_drop)
    ultimately show ?thesis using i(4) Cons by (simp add: right_ok_def)
  qed simp
  ultimately show "whole_word p s" using s unfolding whole_word_def by blast
next
  assume "whole_word p s"
  then obtain pre post where w: "s = pre @ p @ post"
    "pre = [] \<or> last pre \<in> set WORD_DELIMITERS" "post = [] \<or> hd post \<in> set WORD_DELIMITERS"
    by (auto simp: whole_word_def)
  have "left_ok s (length pre)"
    using w by (cases "pre = []") (auto simp: left_ok_def nth_append last_conv_nth)
  moreover have "right_ok s (length pre + length p)"
    using w(1,3) by (cases post) (auto simp: right_ok_def nth_append)
  ultimately have "word_at s p (length pre)" by (auto simp: word_at_def bytes_prefix_iff w(1))
  then show "\<exists>i. word_at s p i" ..
qed

lemma contains_word_iff: "contains_word s ps \<longleftrightarrow> (\<exists>p\<in>set ps. whole_word (str_bytes p) s)"
  by (simp add: contains_word_def list_ex_iff search_word_iff word_at_whole [symmetric])

section \<open>Properties\<close>

text \<open>
   the detected tier is the first, in the order production, staging, development, local,
  testing, one of whose words occurs as a whole word in the lower-cased name and host; the loop
  that skips partial matches misses no occurrence.
\<close>

lemma detected_tier_is_first_whole_word:
  "detect_env name host =
     (case filter (\<lambda>(tier, ps). \<exists>p\<in>set ps. whole_word (str_bytes p) (combined_text name host))
        [(''production'', PRODUCTION_PATTERNS), (''staging'', STAGING_PATTERNS),
         (''development'', DEVELOPMENT_PATTERNS), (''local'', LOCAL_PATTERNS),
         (''testing'', TESTING_PATTERNS)] of
        [] \<Rightarrow> '''' | (tier, _) # _ \<Rightarrow> tier)"
  by (simp add: detect_env_def Let_def contains_word_iff)

end
