(* ===== verification/Popups.thy ===== *)
theory Popups
  imports Ssh_Target Env_Detect
begin

text \<open>
  The two popups of an SSH session in \<open>src/ssh/snippet.rs\<close>: the snippet picker and the form that
  saves the session as a bookmark, as step functions on key events. What they draw is modelled
  only by its number of lines; an error of reading a key or of the terminal is not modelled.
\<close>

datatype key =
    Esc
  | Enter
  | Up
  | Down
  | Tab
  | Backspace
  | Char char
  | Other_key

section \<open>The snippet picker\<close>

text \<open>\<open>rem_euclid\<close> is the remainder of the mathematical integers for a positive divisor.\<close>

definition wrap_cursor :: "nat \<Rightarrow> int \<Rightarrow> nat \<Rightarrow> nat" where
  "wrap_cursor current delta count =
     (if count = 0 then 0 else nat ((int current + delta) mod int count))"

definition merged_snippets :: "snippet list \<Rightarrow> snippet list \<Rightarrow> snippet list" where
  "merged_snippets bookmark_snippets global_snippets =
     bookmark_snippets @
     filter (\<lambda>gs. sn_name gs \<notin> sn_name ` set bookmark_snippets) global_snippets"

text \<open>\<open>Moved\<close> is the next cursor; \<open>Chosen None\<close> the cancelled loop.\<close>

datatype picker_step = Moved nat | Chosen "nat option"

definition picker_key :: "nat \<Rightarrow> nat \<Rightarrow> key \<Rightarrow> picker_step" where
  "picker_key count cursor k =
     (case k of
        Esc \<Rightarrow> Chosen None
      | Enter \<Rightarrow> Chosen (Some cursor)
      | Up \<Rightarrow> Moved (wrap_cursor cursor (-1) count)
      | Down \<Rightarrow> Moved (wrap_cursor cursor 1 count)
      | Char c \<Rightarrow>
          if is_ascii_digit c then
            (let n = digit_value c in
             if n \<ge> 1 \<and> n \<le> count then Chosen (Some (n - 1)) else Moved cursor)
          else Moved cursor
      | _ \<Rightarrow> Moved cursor)"

text \<open>\<open>None\<close>: the keys ran out and the picker is still open.\<close>

fun picker_loop :: "nat \<Rightarrow> nat \<Rightarrow> key list \<Rightarrow> nat option option" where
  "picker_loop count cursor [] = None"
| "picker_loop count cursor (k # ks) =
     (case picker_key count cursor k of
        Moved cursor' \<Rightarrow> picker_loop count cursor' ks
      | Chosen sel \<Rightarrow> Some sel)"

definition injected_command :: "snippet \<Rightarrow> string" where
  "injected_command s =
     (if sn_auto_execute s then sn_command s @ [CHR 0x0A] else sn_command s)"

definition show_snippet_picker ::
    "snippet list \<Rightarrow> snippet list \<Rightarrow> key list \<Rightarrow> string option option" where
  "show_snippet_picker bookmark_snippets global_snippets keys =
     (let all_snippets = merged_snippets bookmark_snippets global_snippets in
      if all_snippets = [] then Some None
      else map_option (\<lambda>sel. map_option (\<lambda>i. injected_command (all_snippets ! i)) sel)
        (picker_loop (length all_snippets) 0 keys))"

section \<open>The save form\<close>

record session_info =
  si_host :: string
  si_user :: string
  si_port :: u16
  si_identity_file :: "string option"
  si_proxy_jump :: "string option"
  si_bookmark_name :: "string option"

record save_form =
  sf_existing :: bool
  sf_name :: string
  sf_env :: string
  sf_tags :: string
  sf_notes :: string
  sf_field :: nat

definition save_form_new :: "session_info \<Rightarrow> save_form" where
  "save_form_new info =
     (let existing = si_bookmark_name info \<noteq> None;
          name = unwrap_or (si_bookmark_name info) (infer_bookmark_name (si_host info))
      in \<lparr>sf_existing = existing, sf_name = name, sf_env = detect_env name (si_host info),
          sf_tags = [], sf_notes = [], sf_field = (if existing then 1 else 0)\<rparr>)"

definition form_tags :: "string \<Rightarrow> string list" where
  "form_tags tags = filter (\<lambda>t. t \<noteq> []) (map trim (split_on (CHR '','') tags))"

definition form_bookmark :: "int \<Rightarrow> session_info \<Rightarrow> save_form \<Rightarrow> bookmark" where
  "form_bookmark now info f =
     \<lparr>b_name = sf_name f, b_host = si_host info,
      b_user = (if si_user info = [] then None else Some (si_user info)),
      b_port = si_port info, b_env = sf_env f, b_tags = form_tags (sf_tags f),
      b_identity_file = si_identity_file info, b_proxy_jump = si_proxy_jump info,
      b_notes = (if sf_notes f = [] then None else Some (sf_notes f)),
      b_last_connected = Some now, b_connect_count = 1, b_on_connect = None,
      b_on_connect_prompt_pattern = None, b_snippets = [], b_connect_timeout_secs = None,
      b_ssh_options = Map.empty, b_profile = None\<rparr>"

datatype form_step = Editing save_form | Closed "bookmark option"

text \<open>\<open>BOOKMARK_FIELDS[field_idx]\<close>: 0 the name, 1 the tags, 2 the notes.\<close>

definition edit_field :: "(string \<Rightarrow> string) \<Rightarrow> save_form \<Rightarrow> save_form" where
  "edit_field g f =
     (if sf_field f = 0 then f\<lparr>sf_name := g (sf_name f)\<rparr>
      else if sf_field f = 1 then f\<lparr>sf_tags := g (sf_tags f)\<rparr>
      else f\<lparr>sf_notes := g (sf_notes f)\<rparr>)"

definition form_key :: "int \<Rightarrow> session_info \<Rightarrow> save_form \<Rightarrow> key \<Rightarrow> form_step" where
  "form_key now info f k =
     (case k of
        Esc \<Rightarrow> Closed None
      | Enter \<Rightarrow> if sf_name f = [] then Closed None else Closed (Some (form_bookmark now info f))
      | Tab \<Rightarrow>
          let start = (if sf_existing f then 1 else 0); count = 3 - start
          in Editing (f\<lparr>sf_field := start + (sf_field f - start + 1) mod count\<rparr>)
      | Char c \<Rightarrow> if \<not> is_control c then Editing (edit_field (\<lambda>s. s @ [c]) f) else Editing f
      | Backspace \<Rightarrow> Editing (edit_field butlast f)
      | _ \<Rightarrow> Editing f)"

fun form_loop :: "int \<Rightarrow> session_info \<Rightarrow> save_form \<Rightarrow> key list \<Rightarrow> bookmark option option" where
  "form_loop now info f [] = None"
| "form_loop now info f (k # ks) =
     (case form_key now info f k of
        Editing f' \<Rightarrow> form_loop now info f' ks
      | Closed r \<Rightarrow> Some r)"

definition show_save_bookmark_form ::
    "int \<Rightarrow> session_info \<Rightarrow> key list \<Rightarrow> bookmark option option" where
  "show_save_bookmark_form now info keys = form_loop now info (save_form_new info) keys"

text \<open>The line breaks of one drawing of the form, and the lines cleared before the next.\<close>

definition drawn_lines :: "save_form \<Rightarrow> nat" where
  "drawn_lines f = 2 + 1 + (if sf_env f = [] then 0 else 1) + (if sf_existing f then 0 else 1) + 1 + 1 + 1"

definition total_lines :: "save_form \<Rightarrow> nat" where
  "total_lines f = (if sf_existing f then 5 else 6)"

section \<open>Cursors on a ring\<close>

text \<open>
  A cursor that moves by any distance over \<open>n\<close> places: it stays on them, and moves add up.
\<close>

locale ring_cursor =
  fixes move :: "nat \<Rightarrow> int \<Rightarrow> nat \<Rightarrow> nat"
  assumes move_bound: "0 < n \<Longrightarrow> move n d i < n"
    and move_add: "0 < n \<Longrightarrow> move n d (move n e i) = move n (d + e) i"
    and move_zero: "i < n \<Longrightarrow> move n 0 i = i"
    and move_one: "Suc i < n \<Longrightarrow> move n 1 i = Suc i"
begin

lemma move_back: "i < n \<Longrightarrow> move n (- d) (move n d i) = i"
  using move_add [of n "- d" d i] move_zero by simp

lemma move_steps: "i + k < n \<Longrightarrow> move n (int k) i = i + k"
proof (induction k)
  case 0
  then show ?case by (simp add: move_zero)
next
  case (Suc k)
  then have "move n (int k) i = i + k" by simp
  moreover have "move n 1 (move n (int k) i) = move n (1 + int k) i"
    using Suc.prems by (intro move_add) simp
  ultimately show ?case using move_one [of "i + k" n] Suc.prems by (simp add: add.commute)
qed

lemma move_reaches:
  assumes "i < n" and "j < n"
  shows "\<exists>d. move n d i = j"
proof -
  have "move n (int i) 0 = i" "move n (int j) 0 = j"
    using assms move_steps [of 0 i n] move_steps [of 0 j n] by simp_all
  then have "move n (int j - int i) i = j"
    using move_add [of n "int j - int i" "int i" 0] assms by simp
  then show ?thesis ..
qed

end

interpretation picker_cursor: ring_cursor "\<lambda>n d i. wrap_cursor i d n"
proof
  fix n i :: nat and d e :: int
  assume n: "0 < n"
  show "wrap_cursor i d n < n" using n by (simp add: wrap_cursor_def nat_less_iff)
  show "wrap_cursor (wrap_cursor i e n) d n = wrap_cursor i (d + e) n"
    using n by (simp add: wrap_cursor_def mod_add_left_eq mod_add_right_eq algebra_simps)
next
  fix n i :: nat
  show "i < n \<Longrightarrow> wrap_cursor i 0 n = i" by (simp add: wrap_cursor_def)
  show "Suc i < n \<Longrightarrow> wrap_cursor i 1 n = Suc i" by (simp add: wrap_cursor_def)
qed

section \<open>Invariants\<close>

lemma picker_loop_bound:
  "cursor < n \<Longrightarrow> picker_loop n cursor ks = Some (Some i) \<Longrightarrow> i < n"
proof (induction n cursor ks rule: picker_loop.induct)
  case (2 n cursor k ks)
  have n: "0 < n" using "2.prems"(1) by simp
  show ?case
  proof (cases "picker_key n cursor k")
    case (Moved c)
    then have "c < n"
      using "2.prems"(1) picker_cursor.move_bound [OF n]
      by (auto simp: picker_key_def Let_def split: key.splits if_splits)
    then show ?thesis using "2.IH" [OF Moved] "2.prems"(2) Moved by simp
  next
    case (Chosen sel)
    then show ?thesis using "2.prems" by (auto simp: picker_key_def Let_def split: key.splits if_splits)
  qed
qed simp

lemma picker_loop_down:
  "0 < n \<Longrightarrow> picker_loop n cursor (replicate k Down @ ks) = picker_loop n (wrap_cursor cursor (int k) n) ks"
  if "cursor < n"
  using that
proof (induction k arbitrary: cursor)
  case 0
  then show ?case using picker_cursor.move_zero by simp
next
  case (Suc k)
  have "wrap_cursor (wrap_cursor cursor 1 n) (int k) n = wrap_cursor cursor (int (Suc k)) n"
    using picker_cursor.move_add [OF Suc.prems(1), where d = "int k" and e = 1 and i = cursor] by (simp add: add.commute)
  then show ?case
    using Suc.IH [OF Suc.prems(1) picker_cursor.move_bound [OF Suc.prems(1)]]
    by (simp add: picker_key_def)
qed

text \<open>A form of a session that already is a bookmark never leaves the tags and notes.\<close>

definition form_ok :: "session_info \<Rightarrow> save_form \<Rightarrow> bool" where
  "form_ok info f \<longleftrightarrow> sf_field f < 3 \<and> sf_existing f = (si_bookmark_name info \<noteq> None)
     \<and> (\<forall>n. si_bookmark_name info = Some n \<longrightarrow> sf_name f = n \<and> sf_field f \<noteq> 0)
     \<and> list_all (\<lambda>c. \<not> is_control c) (sf_tags f) \<and> list_all (\<lambda>c. \<not> is_control c) (sf_notes f)"

lemma list_all_butlast: "list_all P xs \<Longrightarrow> list_all P (butlast xs)"
  by (auto simp: list_all_iff dest: in_set_butlastD)

lemma form_ok_new: "form_ok info (save_form_new info)"
  by (auto simp: form_ok_def save_form_new_def Let_def)

lemma form_ok_tab:
  "form_ok info f \<Longrightarrow> form_ok info (f\<lparr>sf_field :=
     (if sf_existing f then 1 else 0) + (sf_field f - (if sf_existing f then 1 else 0) + 1)
       mod (3 - (if sf_existing f then 1 else 0))\<rparr>)"
  by (auto simp: form_ok_def)

lemma form_ok_edit:
  assumes "form_ok info f" and "\<And>s. list_all (\<lambda>c. \<not> is_control c) s \<Longrightarrow> list_all (\<lambda>c. \<not> is_control c) (g s)"
  shows "form_ok info (edit_field g f)"
  using assms by (auto simp: form_ok_def edit_field_def)

lemma form_key_ok: "form_ok info f \<Longrightarrow> form_key now info f k = Editing f' \<Longrightarrow> form_ok info f'"
  using form_ok_tab [of info f]
  by (auto simp: form_key_def Let_def intro!: form_ok_edit list_all_butlast
      split: key.splits if_splits)

lemma form_loop_ok:
  "form_ok info f \<Longrightarrow> form_loop now info f ks = Some (Some b) \<Longrightarrow>
     \<exists>f'. form_ok info f' \<and> sf_env f' = sf_env f \<and> sf_name f' \<noteq> [] \<and> b = form_bookmark now info f'"
proof (induction now info f ks rule: form_loop.induct)
  case (2 now info f k ks)
  show ?case
  proof (cases "form_key now info f k")
    case (Editing f')
    have "sf_env f' = sf_env f"
      using Editing by (auto simp: form_key_def Let_def edit_field_def split: key.splits if_splits)
    then show ?thesis
      using "2.IH" [OF Editing form_key_ok [OF "2.prems"(1) Editing]] "2.prems"(2) Editing by auto
  next
    case (Closed r)
    then show ?thesis
      using "2.prems" by (auto simp: form_key_def Let_def split: key.splits if_splits)
  qed
qed simp

section \<open>Properties\<close>

text \<open>
   whatever keys are pressed, the picker injects only a command of the merged list (the
  bookmark's snippets, then the global ones of other names), with a newline exactly where the
  snippet asks for it; and every snippet of the list can be chosen.
\<close>

lemma picker_injects_listed_commands:
  "(show_snippet_picker bs gs keys = Some (Some cmd) \<longrightarrow>
      (\<exists>s\<in>set (merged_snippets bs gs). cmd = injected_command s))
   \<and> (i < length (merged_snippets bs gs) \<longrightarrow>
      show_snippet_picker bs gs (replicate i Down @ [Enter])
        = Some (Some (injected_command (merged_snippets bs gs ! i))))"
proof (intro conjI impI)
  let ?all = "merged_snippets bs gs"
  assume "show_snippet_picker bs gs keys = Some (Some cmd)"
  then obtain j where ne: "?all \<noteq> []" and j: "picker_loop (length ?all) 0 keys = Some (Some j)"
    and cmd: "cmd = injected_command (?all ! j)"
    by (auto simp: show_snippet_picker_def Let_def split: if_splits)
  have "j < length ?all" using picker_loop_bound [OF _ j] ne by simp
  then show "\<exists>s\<in>set ?all. cmd = injected_command s" using cmd by (auto intro: nth_mem)
next
  let ?n = "length (merged_snippets bs gs)"
  assume i: "i < ?n"
  then have pos: "0 < ?n" by linarith
  have "wrap_cursor 0 (int i) ?n = i" using picker_cursor.move_steps [of 0 i ?n] i by simp
  moreover have "picker_loop ?n 0 (replicate i Down @ [Enter])
      = picker_loop ?n (wrap_cursor 0 (int i) ?n) [Enter]"
    using pos by (intro picker_loop_down) simp_all
  ultimately have "picker_loop ?n 0 (replicate i Down @ [Enter]) = Some (Some i)"
    by (simp add: picker_key_def)
  moreover have "merged_snippets bs gs \<noteq> []" using pos by simp
  ultimately show "show_snippet_picker bs gs (replicate i Down @ [Enter])
      = Some (Some (injected_command (merged_snippets bs gs ! i)))"
    by (simp add: show_snippet_picker_def)
qed

lemma picker_injects_listed_commands_witness:
  "show_snippet_picker [sample_snippet ''x'' ''1''] [sample_snippet ''y'' ''2''] [Down, Enter]
     = Some (Some (injected_command (sample_snippet ''y'' ''2'')))"
  using picker_injects_listed_commands [of "[sample_snippet ''x'' ''1'']"
      "[sample_snippet ''y'' ''2'']" "[]" "[]" 1]
  by (simp add: merged_snippets_def sample_snippet_def)

text \<open>
   the form saves the connection of the session under a name that is not empty, and under the
  bookmark's own name where the session was opened from a bookmark, whatever is typed; its tags
  are trimmed and not empty. Everything else of that bookmark is gone: command, snippets,
  profile, options and timeout are reset.
\<close>

lemma save_form_result:
  assumes "show_save_bookmark_form now info keys = Some (Some b)"
  shows "b_name b \<noteq> [] \<and> (\<forall>n. si_bookmark_name info = Some n \<longrightarrow> b_name b = n)
    \<and> b_host b = si_host info \<and> b_port b = si_port info
    \<and> b_identity_file b = si_identity_file info \<and> b_proxy_jump b = si_proxy_jump info
    \<and> (\<forall>t\<in>set (b_tags b). t \<noteq> [] \<and> list_all (\<lambda>c. \<not> is_control c) t)
    \<and> b_on_connect b = None \<and> b_snippets b = [] \<and> b_profile b = None
    \<and> b_ssh_options b = Map.empty \<and> b_connect_timeout_secs b = None \<and> b_connect_count b = 1"
proof -
  from form_loop_ok [OF form_ok_new] assms
  obtain f where f: "form_ok info f" "sf_name f \<noteq> []" "b = form_bookmark now info f"
    unfolding show_save_bookmark_form_def by blast
  have tags: "list_all (\<lambda>c. \<not> is_control c) (sf_tags f)" using f(1) by (simp add: form_ok_def)
  have "\<forall>c\<in>set t. \<not> is_control c" if "t \<in> set (form_tags (sf_tags f))" for t
  proof -
    from that obtain w where w: "w \<in> set (split_on (CHR '','') (sf_tags f))" "t = trim w"
      by (auto simp: form_tags_def)
    have "set t \<subseteq> set w" unfolding w(2) by (rule set_trim_subset)
    moreover have "set w \<subseteq> set (concat (split_on (CHR '','') (sf_tags f)))" using w(1) by auto
    ultimately show ?thesis
      using tags by (auto simp: split_on_def concat_split_by list_all_iff)
  qed
  moreover have "\<forall>t\<in>set (form_tags (sf_tags f)). t \<noteq> []" by (simp add: form_tags_def)
  ultimately show ?thesis
    using f by (auto simp: form_bookmark_def form_ok_def list_all_iff)
qed

definition sample_info :: session_info where
  "sample_info = \<lparr>si_host = ''h'', si_user = ''u'', si_port = 22, si_identity_file = None,
     si_proxy_jump = None, si_bookmark_name = Some ''web''\<rparr>"

lemma save_form_result_witness:
  "\<exists>b. show_save_bookmark_form 0 sample_info [Enter] = Some (Some b) \<and> b_name b = ''web''"
proof -
  have name: "sf_name (save_form_new sample_info) = ''web''"
    by (simp add: save_form_new_def sample_info_def Let_def)
  have run: "show_save_bookmark_form 0 sample_info [Enter]
      = Some (Some (form_bookmark 0 sample_info (save_form_new sample_info)))"
    by (simp add: show_save_bookmark_form_def form_key_def name)
  have "si_bookmark_name sample_info = Some ''web''" by (simp add: sample_info_def)
  with save_form_result [OF run]
  have "b_name (form_bookmark 0 sample_info (save_form_new sample_info)) = ''web''" by blast
  with run show ?thesis by blast
qed

text \<open>The lines cleared are fewer than the lines drawn.\<close>

lemma form_clears_too_few: "total_lines f < drawn_lines f"
  by (simp add: total_lines_def drawn_lines_def)

end
