(* ===== verification/Connect_Flow.thy ===== *)
theory Connect_Flow
  imports Config_Store Popups
begin

text \<open>
  The life of an interactive connection in \<open>src/ssh/mod.rs\<close> as far as it touches the
  configuration: \<open>connect\<close>, \<open>connect_session\<close> (with the synthetic bookmark of a group session)
  and \<open>connect_adhoc\<close>, and the save-as-bookmark action of the proxy loop.

  The network is the record \<open>connect_env\<close>: whether the session and its shell are established, the
  bookmarks saved during it, and whether the proxy loop ends without an error. The configuration
  in memory and the file are the state; an index out of range is the error \<open>Index_panic\<close>.
\<close>

section \<open>The save action of the proxy loop\<close>

definition upsert_bookmark :: "bookmark \<Rightarrow> app_config \<Rightarrow> app_config" where
  "upsert_bookmark nb c =
     (case position (\<lambda>b. b_name b = b_name nb) (bookmarks c) of
        Some idx \<Rightarrow> c\<lparr>bookmarks := (bookmarks c)[idx := nb]\<rparr>
      | None \<Rightarrow> c\<lparr>bookmarks := bookmarks c @ [nb]\<rparr>)"

definition save_in_session :: "'t io_env \<Rightarrow> bookmark \<Rightarrow> 't store \<Rightarrow> 't store" where
  "save_in_session io nb st = snd (locked_modify io (\<lambda>c. (upsert_bookmark nb c, ())) st)"

section \<open>Connecting\<close>

record 't connect_env =
  ce_io :: "'t io_env"
  ce_now :: int
  ce_os_user :: string
  ce_session_ok :: bool
  ce_saves :: "bookmark list"
  ce_loop_ok :: bool

datatype connect_error = Index_panic | Session_failed | Proxy_failed

type_synonym 't connect_outcome = "(connect_error + unit) \<times> app_config \<times> 't store"

definition record_connection :: "int \<Rightarrow> bookmark \<Rightarrow> bookmark" where
  "record_connection now b =
     b\<lparr>b_last_connected := Some now, b_connect_count := b_connect_count b + 1\<rparr>"

text \<open>The proxy loop with its saves; then the statistics, and the configuration in memory is saved.\<close>

definition connect :: "'t connect_env \<Rightarrow> app_config \<Rightarrow> nat \<Rightarrow> 't store \<Rightarrow> 't connect_outcome" where
  "connect env config idx st =
     (if idx \<ge> length (bookmarks config) then (Inl Index_panic, config, st)
      else if \<not> ce_session_ok env then (Inl Session_failed, config, st)
      else
        let st = fold (save_in_session (ce_io env)) (ce_saves env) st
        in if \<not> ce_loop_ok env then (Inl Proxy_failed, config, st)
           else
             let config = config\<lparr>bookmarks := (bookmarks config)
                   [idx := record_connection (ce_now env) (bookmarks config ! idx)]\<rparr>
             in (Inr (), config, snd (save_to (ce_io env) config st)))"

text \<open>Push a bookmark, connect to it, remove it again.\<close>

definition connect_temporary ::
    "'t connect_env \<Rightarrow> app_config \<Rightarrow> bookmark \<Rightarrow> 't store \<Rightarrow> 't connect_outcome" where
  "connect_temporary env config b st =
     (let index = length (bookmarks config);
          config = config\<lparr>bookmarks := bookmarks config @ [b]\<rparr>;
          (result, config, st) = connect env config index st
      in (result,
          if index < length (bookmarks config)
          then config\<lparr>bookmarks := remove_at index (bookmarks config)\<rparr> else config, st))"

definition synthetic_bookmark ::
    "string \<Rightarrow> session \<Rightarrow> bookmark_group \<Rightarrow> settings \<Rightarrow> profile list \<Rightarrow> bookmark" where
  "synthetic_bookmark os s g st ps =
     \<lparr>b_name = display_name s g, b_host = g_host g,
      b_user = Some (session_effective_user os s g st ps), b_port = g_port g, b_env = g_env g,
      b_tags = g_tags g, b_identity_file = session_effective_identity_file s g ps,
      b_proxy_jump = session_effective_proxy_jump s g ps, b_notes = g_notes g,
      b_last_connected = None, b_connect_count = 0,
      b_on_connect = session_effective_on_connect s g ps,
      b_on_connect_prompt_pattern = session_effective_prompt_pattern s g,
      b_snippets = session_effective_snippets s g,
      b_connect_timeout_secs = session_effective_connect_timeout s g st ps,
      b_ssh_options = session_effective_ssh_options s g ps, b_profile = g_profile g\<rparr>"

definition encode_session :: "nat \<Rightarrow> nat \<Rightarrow> nat" where
  "encode_session group_idx session_idx = (group_idx + 1) * 10000 + (session_idx + 1)"

text \<open>A subtraction below zero panics like an index out of range.\<close>

definition decode_session :: "nat \<Rightarrow> (nat \<times> nat) option" where
  "decode_session encoded =
     (if encoded div 10000 = 0 \<or> encoded mod 10000 = 0 then None
      else Some (encoded div 10000 - 1, encoded mod 10000 - 1))"

definition connect_session :: "'t connect_env \<Rightarrow> app_config \<Rightarrow> nat \<Rightarrow> 't store \<Rightarrow> 't connect_outcome" where
  "connect_session env config encoded st =
     (case decode_session encoded of
        None \<Rightarrow> (Inl Index_panic, config, st)
      | Some (gi, si) \<Rightarrow>
          if gi \<ge> length (groups config) then (Inl Index_panic, config, st)
          else
            let g = groups config ! gi
            in if si \<ge> length (g_sessions g) then (Inl Index_panic, config, st)
               else connect_temporary env config
                 (synthetic_bookmark (ce_os_user env) (g_sessions g ! si) g (settings_of config)
                   (profiles config)) st)"

definition adhoc_bookmark :: "string option \<Rightarrow> string \<Rightarrow> u16 \<Rightarrow> bookmark" where
  "adhoc_bookmark user host port =
     (let inferred_name = infer_bookmark_name host in
      \<lparr>b_name = inferred_name, b_host = host, b_user = user, b_port = port,
       b_env = detect_env inferred_name host, b_tags = [], b_identity_file = None,
       b_proxy_jump = None, b_notes = None, b_last_connected = None, b_connect_count = 0,
       b_on_connect = None, b_on_connect_prompt_pattern = None, b_snippets = [],
       b_connect_timeout_secs = None, b_ssh_options = Map.empty, b_profile = None\<rparr>)"

definition connect_adhoc ::
    "'t connect_env \<Rightarrow> app_config \<Rightarrow> string option \<Rightarrow> string \<Rightarrow> u16 \<Rightarrow> 't store \<Rightarrow> 't connect_outcome"
    where
  "connect_adhoc env config user host port st =
     connect_temporary env config (adhoc_bookmark user host port) st"

section \<open>Lemmas\<close>

lemma decode_encode_session: "si < 9999 \<Longrightarrow> decode_session (encode_session gi si) = Some (gi, si)"
proof -
  assume si: "si < 9999"
  have "((gi + 1) * 10000 + (si + 1)) div 10000 = gi + 1"
    by (rule div_nat_eqI) (use si in simp_all)
  moreover have "((gi + 1) * 10000 + (si + 1)) mod 10000 = si + 1"
    using si by (simp only: mod_mult_self3) simp
  ultimately show ?thesis by (simp only: decode_session_def encode_session_def) simp
qed

lemma remove_at_snoc: "remove_at (length xs) (xs @ [x]) = xs"
  by (simp add: remove_at_def)

lemma connect_Inr:
  assumes "connect env c idx st = (Inr (), c', st')"
  shows "c' = c\<lparr>bookmarks := (bookmarks c)[idx := record_connection (ce_now env) (bookmarks c ! idx)]\<rparr>
    \<and> st' = snd (atomic_write (ce_io env) c' (fold (save_in_session (ce_io env)) (ce_saves env) st))
    \<and> idx < length (bookmarks c)"
  using assms by (auto simp: connect_def Let_def save_to_def split: if_splits)

lemma connect_Inl: "connect env c idx st = (Inl e, c', st') \<Longrightarrow> c' = c"
  by (auto simp: connect_def Let_def split: if_splits)

lemma connect_temporary_memory:
  "connect_temporary env c b st = (r, c', st') \<Longrightarrow> c' = c"
proof -
  assume run: "connect_temporary env c b st = (r, c', st')"
  let ?c = "c\<lparr>bookmarks := bookmarks c @ [b]\<rparr>"
  obtain r1 c1 st1 where con: "connect env ?c (length (bookmarks c)) st = (r1, c1, st1)"
    by (metis surj_pair)
  have "\<exists>b'. c1 = c\<lparr>bookmarks := bookmarks c @ [b']\<rparr>"
  proof (cases r1)
    case (Inl e)
    then show ?thesis using connect_Inl con by blast
  next
    case (Inr u)
    then show ?thesis using connect_Inr [of env ?c "length (bookmarks c)" st c1 st1] con by auto
  qed
  then show "c' = c" using run con by (auto simp: connect_temporary_def Let_def remove_at_snoc)
qed

lemma connect_temporary_file:
  assumes "connect_temporary env c b st = (Inr (), c', st')"
  shows "st' = snd (atomic_write (ce_io env)
      (c\<lparr>bookmarks := bookmarks c @ [record_connection (ce_now env) b]\<rparr>)
      (fold (save_in_session (ce_io env)) (ce_saves env) st))"
proof -
  let ?c = "c\<lparr>bookmarks := bookmarks c @ [b]\<rparr>"
  obtain c1 where con: "connect env ?c (length (bookmarks c)) st = (Inr (), c1, st')"
    using assms by (auto simp: connect_temporary_def Let_def split: prod.splits)
  from connect_Inr [OF con] show ?thesis by simp
qed

definition io_works :: "'t io_env \<Rightarrow> app_config \<Rightarrow> bool" where
  "io_works io c \<longleftrightarrow> to_toml io c \<noteq> None \<and> can_make_dirs io \<and> can_make_temp io
     \<and> can_write_temp io \<and> can_chmod io \<and> can_persist io"

lemma atomic_write_works:
  "io_works io c \<Longrightarrow> main_file (snd (atomic_write io c st)) = to_toml io c"
  by (auto simp: io_works_def atomic_write_def)

lemma upsert_name: "nb \<in> set (bookmarks (upsert_bookmark nb c))"
  by (auto simp: upsert_bookmark_def dest: position_SomeD split: option.splits
      intro: set_update_memI)

section \<open>Properties\<close>

text \<open>
   connecting to a session of a group goes through a synthetic bookmark that refers to the
  group's profile; resolving the bookmark gives the same user, key, jump host, command, timeout
  and options as resolving the session through its group, profile and the settings.
\<close>

lemma synthetic_bookmark_resolves_alike:
  "effective_user os (synthetic_bookmark os s g st ps) st ps = session_effective_user os s g st ps
   \<and> effective_identity_file (synthetic_bookmark os s g st ps) ps
       = session_effective_identity_file s g ps
   \<and> effective_proxy_jump (synthetic_bookmark os s g st ps) ps = session_effective_proxy_jump s g ps
   \<and> effective_on_connect (synthetic_bookmark os s g st ps) ps = session_effective_on_connect s g ps
   \<and> effective_connect_timeout (synthetic_bookmark os s g st ps) st ps
       = session_effective_connect_timeout s g st ps
   \<and> effective_ssh_options (synthetic_bookmark os s g st ps) ps = session_effective_ssh_options s g ps"
proof (intro conjI)
  let ?b = "synthetic_bookmark os s g st ps"
  have profile: "resolve_profile ?b ps = group_resolve_profile g ps"
    by (simp add: resolve_profile_def group_resolve_profile_def synthetic_bookmark_def)
  have absorb: "option_or (option_or x (option_or y p)) p = option_or x (option_or y p)"
    for x y p :: "'x option" by (cases x; cases y; cases p) simp_all
  have absorb2: "option_or (option_or (option_or (option_or z p) q) p) q = option_or (option_or z p) q"
    for z p q :: "'x option" by (cases z; cases p; cases q) simp_all
  show "effective_user os ?b st ps = session_effective_user os s g st ps"
    by (simp add: effective_user_def synthetic_bookmark_def)
  show "effective_identity_file ?b ps = session_effective_identity_file s g ps"
    by (simp add: effective_identity_file_def profile_field_def profile) (simp add:
        synthetic_bookmark_def session_effective_identity_file_def absorb)
  show "effective_proxy_jump ?b ps = session_effective_proxy_jump s g ps"
    by (simp add: effective_proxy_jump_def profile_field_def profile) (simp add:
        synthetic_bookmark_def session_effective_proxy_jump_def absorb)
  show "effective_on_connect ?b ps = session_effective_on_connect s g ps"
    by (simp add: effective_on_connect_def profile_field_def profile) (simp add:
        synthetic_bookmark_def session_effective_on_connect_def absorb)
  show "effective_connect_timeout ?b st ps = session_effective_connect_timeout s g st ps"
    by (simp add: effective_connect_timeout_def profile) (simp add:
        synthetic_bookmark_def session_effective_connect_timeout_def absorb2)
  have "p ++ (p ++ m ++ n) = p ++ m ++ n" for p m n :: options
    by (rule ext) (simp add: map_add_def split: option.splits)
  then show "effective_ssh_options ?b ps = session_effective_ssh_options s g ps"
    by (simp add: effective_ssh_options_def profile) (simp add:
        synthetic_bookmark_def session_effective_ssh_options_def)
qed

text \<open>
   the temporary bookmark of a session is removed from the configuration in memory however the
  connection ends, but not from the file: after a session that ended well the file holds the
  configuration with the synthetic bookmark appended, and the next start loads it as a bookmark.
\<close>

lemma session_bookmark_leaks_to_file:
  assumes "connect_session env config (encode_session gi si) st = (r, config', st')"
    and "gi < length (groups config)" and "si < length (g_sessions (groups config ! gi))"
    and "si < 9999"
    and "leak = config\<lparr>bookmarks := bookmarks config @ [record_connection (ce_now env)
           (synthetic_bookmark (ce_os_user env) (g_sessions (groups config ! gi) ! si)
             (groups config ! gi) (settings_of config) (profiles config))]\<rparr>"
    and "io_works (ce_io env) leak"
  shows "config' = config \<and> (r = Inr () \<longrightarrow> main_file st' = to_toml (ce_io env) leak)"
proof -
  have run: "connect_temporary env config (synthetic_bookmark (ce_os_user env)
      (g_sessions (groups config ! gi) ! si) (groups config ! gi) (settings_of config)
      (profiles config)) st = (r, config', st')"
    using assms(1-3) by (simp add: connect_session_def Let_def decode_encode_session [OF assms(4)])
  have "main_file st' = to_toml (ce_io env) leak" if "r = Inr ()"
    using connect_temporary_file [OF run [unfolded that]] atomic_write_works [OF assms(6)]
    by (simp add: assms(5))
  with connect_temporary_memory [OF run] show ?thesis by blast
qed

definition sample_connect_env :: "bookmark list \<Rightarrow> app_config connect_env" where
  "sample_connect_env saves = \<lparr>ce_io = sample_io, ce_now = 7, ce_os_user = ''me'',
     ce_session_ok = True, ce_saves = saves, ce_loop_ok = True\<rparr>"

definition sample_store :: "app_config store" where
  "sample_store = \<lparr>main_file = Some sample_config, backup_file = None\<rparr>"

lemma sample_io_works: "io_works sample_io c"
  by (simp add: io_works_def sample_io_def)

lemma session_bookmark_leaks_to_file_witness:
  "map b_name (bookmarks (the (main_file (snd (snd
     (connect_session (sample_connect_env []) sample_config (encode_session 0 0) sample_store))))))
   = [''g/a'']"
proof -
  let ?env = "sample_connect_env []"
  obtain r c' st' where run:
    "connect_session ?env sample_config (encode_session 0 0) sample_store = (r, c', st')"
    by (metis surj_pair)
  have sizes: "groups sample_config = [sample_group]" "g_sessions sample_group = [sample_session]"
    "bookmarks sample_config = []"
    by (simp_all add: sample_config_def sample_group_def default_config_def)
  have r: "r = Inr ()"
    using run by (simp add: connect_session_def decode_encode_session sizes connect_temporary_def
        connect_def sample_connect_env_def save_to_def Let_def split: prod.splits)
  have io: "io_works (ce_io ?env) c" for c by (simp add: sample_connect_env_def sample_io_works)
  let ?leak = "sample_config\<lparr>bookmarks := [record_connection 7
      (synthetic_bookmark ''me'' sample_session sample_group (settings_of sample_config)
        (profiles sample_config))]\<rparr>"
  from session_bookmark_leaks_to_file [OF run _ _ _ refl io] r sizes
  have "main_file st' = to_toml (ce_io ?env) ?leak" by (simp add: sample_connect_env_def)
  then have "main_file st' = Some ?leak" by (simp add: sample_connect_env_def sample_io_def)
  moreover have "b_name (record_connection 7 (synthetic_bookmark ''me'' sample_session sample_group
      (settings_of sample_config) (profiles sample_config))) = ''g/a''"
    by (simp add: record_connection_def synthetic_bookmark_def display_name_def sample_group_def
        sample_session_def)
  ultimately show ?thesis by (simp add: run)
qed

text \<open>
   a bookmark saved during a session is lost when the session ends. The configuration in
  memory, which knows nothing of the save, is written over the file: the file then does not
  depend on what was saved, nor on what it held before.
\<close>

lemma saved_bookmark_is_lost:
  assumes "connect env config idx st = (Inr (), config', st')"
    and "io_works (ce_io env) config'"
  shows "main_file st' = to_toml (ce_io env) config'
    \<and> config' = config\<lparr>bookmarks := (bookmarks config)
        [idx := record_connection (ce_now env) (bookmarks config ! idx)]\<rparr>
    \<and> (\<forall>nb\<in>set (ce_saves env). b_name nb \<notin> b_name ` set (bookmarks config) \<longrightarrow>
         nb \<notin> set (bookmarks config'))"
proof -
  note c = connect_Inr [OF assms(1)]
  have same: "b_name (record_connection (ce_now env) b) = b_name b" for b
    by (simp add: record_connection_def)
  have "map b_name (bookmarks config') = map b_name (bookmarks config)"
    using c by (simp add: map_update same) (simp add: list_update_same_conv)
  then have names: "b_name ` set (bookmarks config') = b_name ` set (bookmarks config)"
    by (metis set_map)
  from c atomic_write_works [OF assms(2)] have "main_file st' = to_toml (ce_io env) config'"
    by simp
  with c names show ?thesis by blast
qed

lemma saved_bookmark_is_lost_witness:
  "let st1 = save_in_session sample_io sample_bookmark sample_store;
       config = sample_config\<lparr>bookmarks := [adhoc_bookmark None ''h'' 22]\<rparr>
   in sample_bookmark \<in> set (bookmarks (the (main_file st1)))
    \<and> sample_bookmark \<notin> set (bookmarks (the (main_file (snd (snd
         (connect (sample_connect_env [sample_bookmark]) config 0 sample_store))))))"
proof -
  let ?env = "sample_connect_env [sample_bookmark]"
  let ?config = "sample_config\<lparr>bookmarks := [adhoc_bookmark None ''h'' 22]\<rparr>"
  have "locked_modify sample_io (\<lambda>c. (upsert_bookmark sample_bookmark c, ())) sample_store
      = atomic_write sample_io (upsert_bookmark sample_bookmark sample_config) sample_store"
    using sample_config_load unfolding sample_store_def
    by (simp add: locked_modify_def save_to_def sample_io_def [THEN arg_cong [where f = can_lock]]
        sample_io_def [THEN arg_cong [where f = can_make_dirs]] split: prod.splits sum.splits)
  then have "main_file (save_in_session sample_io sample_bookmark sample_store)
      = to_toml sample_io (upsert_bookmark sample_bookmark sample_config)"
    by (simp add: save_in_session_def atomic_write_works [OF sample_io_works])
  then have saved: "sample_bookmark \<in> set (bookmarks (the (main_file
      (save_in_session sample_io sample_bookmark sample_store))))"
    using upsert_name by (simp add: sample_io_def)
  obtain c' st' where run: "connect ?env ?config 0 sample_store = (Inr (), c', st')"
    by (simp add: connect_def sample_connect_env_def Let_def)
  have io: "io_works (ce_io ?env) c'" by (simp add: sample_connect_env_def sample_io_works)
  have "b_name sample_bookmark \<notin> b_name ` set (bookmarks ?config)"
    by (simp add: sample_bookmark_def adhoc_bookmark_def infer_bookmark_name_def Let_def)
  moreover have "sample_bookmark \<in> set (ce_saves ?env)" "to_toml (ce_io ?env) c' = Some c'"
    by (simp_all add: sample_connect_env_def sample_io_def)
  ultimately have "sample_bookmark \<notin> set (bookmarks c')" "main_file st' = Some c'"
    using saved_bookmark_is_lost [OF run io] by (blast, metis)
  with saved run show ?thesis by simp
qed

end
