(* ===== verification/Tunnel.thy ===== *)
theory Tunnel
  imports Ssh_Target
begin

text \<open>
  \<open>src/ssh/tunnel.rs\<close> and the tunnel commands of \<open>src/main.rs\<close>: the forward specifications, the
  state file of running tunnels with its load-modify-save operations, the reconnect loop of the
  daemon and the stop command.

  The state file is the list of tunnels it holds, or absent, or corrupt; \<open>state_io\<close> says whether
  it can be read and written. Processes are known by what \<open>kill\<close> and \<open>ps\<close> report about them, a
  parameter of the operations that ask; sessions are the way they end.
\<close>

section \<open>Forward specifications\<close>

datatype forward_direction = Local_forward | Remote_forward

record forward_spec =
  fs_direction :: forward_direction
  fs_local_port :: u16
  fs_remote_host :: string
  fs_remote_port :: u16

definition show_direction :: "forward_direction \<Rightarrow> string" where
  "show_direction d = (case d of Local_forward \<Rightarrow> ''-L'' | Remote_forward \<Rightarrow> ''-R'')"

definition show_ports :: "forward_spec \<Rightarrow> string" where
  "show_ports s = show_nat (unat (fs_local_port s)) @ '':'' @ fs_remote_host s @ '':''
     @ show_nat (unat (fs_remote_port s))"

definition show_forward_spec :: "forward_spec \<Rightarrow> string" where
  "show_forward_spec s = show_direction (fs_direction s) @ '' '' @ show_ports s"

datatype spec_error =
    Spec_empty
  | Spec_parts string
  | Spec_port string
  | Spec_port_range nat
  | Spec_host name_error

definition parse_port :: "string \<Rightarrow> spec_error + u16" where
  "parse_port s =
     (case parse_unsigned (2 ^ 32) s of
        None \<Rightarrow> Inl (Spec_port s)
      | Some port \<Rightarrow>
          if port = 0 \<or> port > 65535 then Inl (Spec_port_range port) else Inr (word_of_nat port))"

definition parse_forward_spec :: "string \<Rightarrow> forward_direction \<Rightarrow> spec_error + forward_spec" where
  "parse_forward_spec spec direction =
     (if spec = [] then Inl Spec_empty
      else let parts = split_on (CHR '':'') spec in
        if length parts \<noteq> 3 then Inl (Spec_parts spec)
        else result_bind (parse_port (parts ! 0)) (\<lambda>local_port.
          case validate_hostname (parts ! 1) of
            Inl e \<Rightarrow> Inl (Spec_host e)
          | Inr _ \<Rightarrow> result_bind (parse_port (parts ! 2)) (\<lambda>remote_port.
              Inr \<lparr>fs_direction = direction, fs_local_port = local_port,
                   fs_remote_host = parts ! 1, fs_remote_port = remote_port\<rparr>)))"

section \<open>The state file\<close>

datatype tunnel_status = Connected | Reconnecting | Stopped

definition show_status :: "tunnel_status \<Rightarrow> string" where
  "show_status s = (case s of Connected \<Rightarrow> ''connected'' | Reconnecting \<Rightarrow> ''reconnecting''
     | Stopped \<Rightarrow> ''stopped'')"

record tunnel_entry =
  te_bookmark :: string
  te_forwards :: "forward_spec list"
  te_persistent :: bool
  te_pid :: u32
  te_started_at :: int
  te_reconnect_count :: u32
  te_status :: tunnel_status

datatype tunnel_file = No_file | Corrupt | Tunnels "tunnel_entry list"

record state_io =
  st_readable :: bool
  st_writable :: bool

datatype tunnel_error = Read_failed | Parse_failed | Write_failed

definition load_tunnel_state_from :: "state_io \<Rightarrow> tunnel_file \<Rightarrow> tunnel_error + tunnel_entry list" where
  "load_tunnel_state_from io f =
     (case f of
        No_file \<Rightarrow> Inr []
      | Corrupt \<Rightarrow> if st_readable io then Inl Parse_failed else Inl Read_failed
      | Tunnels ts \<Rightarrow> if st_readable io then Inr ts else Inl Read_failed)"

definition save_tunnel_state_to ::
    "state_io \<Rightarrow> tunnel_entry list \<Rightarrow> tunnel_file \<Rightarrow> (tunnel_error + unit) \<times> tunnel_file" where
  "save_tunnel_state_to io ts f =
     (if st_writable io then (Inr (), Tunnels ts) else (Inl Write_failed, f))"

text \<open>The modifications of the state between its load and its save.\<close>

definition register_in :: "tunnel_entry \<Rightarrow> tunnel_entry list \<Rightarrow> tunnel_entry list" where
  "register_in e ts = filter (\<lambda>t. te_bookmark t \<noteq> te_bookmark e) ts @ [e]"

definition unregister_in :: "string \<Rightarrow> tunnel_entry list \<Rightarrow> tunnel_entry list" where
  "unregister_in b ts = filter (\<lambda>t. te_bookmark t \<noteq> b) ts"

definition update_status_in ::
    "string \<Rightarrow> tunnel_status \<Rightarrow> u32 \<Rightarrow> tunnel_entry list \<Rightarrow> tunnel_entry list" where
  "update_status_in b status n ts =
     (case position (\<lambda>t. te_bookmark t = b) ts of
        None \<Rightarrow> ts
      | Some i \<Rightarrow> ts[i := (ts ! i)\<lparr>te_status := status, te_reconnect_count := n\<rparr>])"

definition cleanup_stale_tunnels :: "(u32 \<Rightarrow> bool) \<Rightarrow> tunnel_entry list \<Rightarrow> tunnel_entry list" where
  "cleanup_stale_tunnels alive ts = filter (\<lambda>t. alive (te_pid t)) ts"

definition modify_state ::
    "state_io \<Rightarrow> (tunnel_entry list \<Rightarrow> tunnel_entry list) \<Rightarrow> tunnel_file
      \<Rightarrow> (tunnel_error + unit) \<times> tunnel_file" where
  "modify_state io g f =
     (case load_tunnel_state_from io f of
        Inl e \<Rightarrow> (Inl e, f)
      | Inr ts \<Rightarrow> save_tunnel_state_to io (g ts) f)"

definition register_tunnel ::
    "state_io \<Rightarrow> tunnel_entry \<Rightarrow> tunnel_file \<Rightarrow> (tunnel_error + unit) \<times> tunnel_file" where
  "register_tunnel io e f = modify_state io (register_in e) f"

definition unregister_tunnel ::
    "state_io \<Rightarrow> string \<Rightarrow> tunnel_file \<Rightarrow> (tunnel_error + unit) \<times> tunnel_file" where
  "unregister_tunnel io b f = modify_state io (unregister_in b) f"

definition update_tunnel_status ::
    "state_io \<Rightarrow> string \<Rightarrow> tunnel_status \<Rightarrow> u32 \<Rightarrow> tunnel_file
      \<Rightarrow> (tunnel_error + unit) \<times> tunnel_file" where
  "update_tunnel_status io b status n f = modify_state io (update_status_in b status n) f"

definition active_tunnel_bookmarks :: "state_io \<Rightarrow> (u32 \<Rightarrow> bool) \<Rightarrow> tunnel_file \<Rightarrow> string set" where
  "active_tunnel_bookmarks io alive f =
     te_bookmark ` set (cleanup_stale_tunnels alive
       (case load_tunnel_state_from io f of Inr ts \<Rightarrow> ts | Inl _ \<Rightarrow> []))"

text \<open>\<open>ps\<close> reports the start time of the process, if it runs at all.\<close>

definition pid_matches_tunnel_entry :: "(u32 \<Rightarrow> int option) \<Rightarrow> u32 \<Rightarrow> int \<Rightarrow> bool" where
  "pid_matches_tunnel_entry ps pid expected_started_at =
     (case ps pid of None \<Rightarrow> False | Some started \<Rightarrow> \<bar>started - expected_started_at\<bar> \<le> 120)"

section \<open>The daemon\<close>

definition RECONNECT_INITIAL_DELAY_SECS :: u64 where "RECONNECT_INITIAL_DELAY_SECS = 1"
definition RECONNECT_MAX_DELAY_SECS :: u64 where "RECONNECT_MAX_DELAY_SECS = 60"
definition RECONNECT_BACKOFF_MULTIPLIER :: u64 where "RECONNECT_BACKOFF_MULTIPLIER = 2"

text \<open>How a session ends, and how the wait after a lost one ends.\<close>

datatype sleep_end = Slept | Signalled | Signal_error
datatype session_end = Clean_exit | Lost sleep_end
datatype daemon_exit = Running | Exited | Failed

text \<open>The waits with the number of the attempt, and how the loop ends.\<close>

fun daemon_loop :: "u64 \<Rightarrow> u32 \<Rightarrow> session_end list \<Rightarrow> (u64 \<times> u32) list \<times> daemon_exit" where
  "daemon_loop delay_secs reconnect_count [] = ([], Running)"
| "daemon_loop delay_secs reconnect_count (Clean_exit # es) = ([], Exited)"
| "daemon_loop delay_secs reconnect_count (Lost w # es) =
     (let reconnect_count = reconnect_count + 1 in
      case w of
        Signalled \<Rightarrow> ([(delay_secs, reconnect_count)], Exited)
      | Signal_error \<Rightarrow> ([(delay_secs, reconnect_count)], Failed)
      | Slept \<Rightarrow>
          let (waits, ex) = daemon_loop
                (min (delay_secs * RECONNECT_BACKOFF_MULTIPLIER) RECONNECT_MAX_DELAY_SECS)
                reconnect_count es
          in ((delay_secs, reconnect_count) # waits, ex))"

section \<open>The stop command\<close>

text \<open>
  What the command sees: the processes alive when it cleans up, the reports of \<open>ps\<close>, whether the
  signal was sent, and whether the process is alive at the end.
\<close>

record process_view =
  pv_alive :: "u32 \<Rightarrow> bool"
  pv_ps :: "u32 \<Rightarrow> int option"
  pv_signal_sent :: "u32 \<Rightarrow> bool"
  pv_alive_after :: "u32 \<Rightarrow> bool"

datatype stop_outcome = No_tunnel | Refused_stale | Still_running | Stopped_tunnel u32 | Already_gone

definition remove_ignoring_case :: "string \<Rightarrow> tunnel_entry list \<Rightarrow> tunnel_entry list" where
  "remove_ignoring_case b ts = filter (\<lambda>t. \<not> eq_ignore_ascii_case (te_bookmark t) b) ts"

definition save_outcome ::
    "state_io \<Rightarrow> tunnel_entry list \<Rightarrow> tunnel_file \<Rightarrow> stop_outcome
      \<Rightarrow> (tunnel_error + stop_outcome) \<times> tunnel_file" where
  "save_outcome io ts f r =
     (case save_tunnel_state_to io ts f of
        (Inl e, f') \<Rightarrow> (Inl e, f') | (Inr _, f') \<Rightarrow> (Inr r, f'))"

definition cmd_tunnel_stop ::
    "state_io \<Rightarrow> process_view \<Rightarrow> string \<Rightarrow> tunnel_file \<Rightarrow> (tunnel_error + stop_outcome) \<times> tunnel_file"
    where
  "cmd_tunnel_stop io pv b f =
     (case load_tunnel_state_from io f of
        Inl e \<Rightarrow> (Inl e, f)
      | Inr loaded \<Rightarrow>
          let ts = cleanup_stale_tunnels (pv_alive pv) loaded in
          (case List.find (\<lambda>t. eq_ignore_ascii_case (te_bookmark t) b) ts of
             None \<Rightarrow> (Inr No_tunnel, f)
           | Some e \<Rightarrow>
               let pid = te_pid e in
               if \<not> pid_matches_tunnel_entry (pv_ps pv) pid (te_started_at e)
               then save_outcome io (remove_ignoring_case b ts) f Refused_stale
               else if pv_alive_after pv pid then (Inr Still_running, f)
               else save_outcome io (remove_ignoring_case b ts) f
                 (if pv_signal_sent pv pid then Stopped_tunnel pid else Already_gone)))"

section \<open>Processes sharing the file\<close>

text \<open>
  Every process loads the file, changes its copy and saves it, without a lock: another process
  may act in between. A process is waiting where it holds a copy.
\<close>

datatype tunnel_op =
    Register tunnel_entry
  | Unregister string
  | Update_status string tunnel_status u32
  | Cleanup "u32 list"

fun apply_op :: "tunnel_op \<Rightarrow> tunnel_entry list \<Rightarrow> tunnel_entry list" where
  "apply_op (Register e) ts = register_in e ts"
| "apply_op (Unregister b) ts = unregister_in b ts"
| "apply_op (Update_status b st n) ts = update_status_in b st n ts"
| "apply_op (Cleanup dead) ts = cleanup_stale_tunnels (\<lambda>pid. pid \<notin> set dead) ts"

record tunnel_world =
  tw_file :: "tunnel_entry list"
  tw_copy :: "nat \<rightharpoonup> tunnel_entry list"

inductive tunnel_step :: "tunnel_world \<Rightarrow> tunnel_world \<Rightarrow> bool" where
  load_step: "tw_copy w p = None \<Longrightarrow>
     tunnel_step w (w\<lparr>tw_copy := (tw_copy w)(p \<mapsto> tw_file w)\<rparr>)"
| save_step: "tw_copy w p = Some ts \<Longrightarrow>
     tunnel_step w (w\<lparr>tw_file := apply_op op ts, tw_copy := (tw_copy w)(p := None)\<rparr>)"

inductive_cases tunnel_stepE: "tunnel_step w w'"

text \<open>At most one entry per bookmark, in the file and in every copy.\<close>

definition one_per_bookmark :: "tunnel_entry list \<Rightarrow> bool" where
  "one_per_bookmark ts \<longleftrightarrow> distinct (map te_bookmark ts)"

definition world_ok :: "tunnel_world \<Rightarrow> bool" where
  "world_ok w \<longleftrightarrow> one_per_bookmark (tw_file w)
     \<and> (\<forall>p ts. tw_copy w p = Some ts \<longrightarrow> one_per_bookmark ts)"

section \<open>Lemmas\<close>

lemma one_per_bookmark_filter: "one_per_bookmark ts \<Longrightarrow> one_per_bookmark (filter P ts)"
  by (simp add: one_per_bookmark_def distinct_map_filter)

lemma register_in_ok: "one_per_bookmark ts \<Longrightarrow> one_per_bookmark (register_in e ts)"
  using one_per_bookmark_filter by (auto simp: register_in_def one_per_bookmark_def)

lemma update_status_names:
  "map te_bookmark (update_status_in b st n ts) = map te_bookmark ts"
  by (auto simp: update_status_in_def map_update dest: position_SomeD split: option.splits
      intro!: list_update_same_conv [THEN iffD2])

lemma apply_op_ok: "one_per_bookmark ts \<Longrightarrow> one_per_bookmark (apply_op op ts)"
  using one_per_bookmark_filter
  by (cases op) (simp_all add: register_in_ok unregister_in_def cleanup_stale_tunnels_def,
      simp add: one_per_bookmark_def update_status_names)

lemma tunnel_step_ok: "tunnel_step w w' \<Longrightarrow> world_ok w \<Longrightarrow> world_ok w'"
  by (erule tunnel_stepE) (auto simp: world_ok_def apply_op_ok split: if_splits)

lemma tunnel_steps_ok: "tunnel_step\<^sup>*\<^sup>* w w' \<Longrightarrow> world_ok w \<Longrightarrow> world_ok w'"
  by (induction rule: rtranclp_induct) (blast intro: tunnel_step_ok)+

lemma parse_port_Inr:
  "parse_port s = Inr p \<Longrightarrow> p \<noteq> 0 \<and> parse_unsigned (2 ^ 32) s = Some (unat p)"
proof -
  assume "parse_port s = Inr p"
  then obtain n where n: "parse_unsigned (2 ^ 32) s = Some n" "0 < n" "n \<le> 65535" "p = word_of_nat n"
    by (auto simp: parse_port_def split: option.splits if_splits)
  then have "unat p = n" by (simp add: unsigned_of_nat take_bit_nat_eq_self)
  with n show ?thesis by auto
qed

lemma parse_port_shown: "p \<noteq> 0 \<Longrightarrow> parse_port (show_nat (unat p)) = Inr p"
proof -
  assume "p \<noteq> 0"
  then have "unat p \<noteq> 0" by (simp add: unat_eq_zero)
  moreover have small: "unat p < 65536" using unsigned_less [of p] by simp
  moreover have "parse_unsigned (2 ^ 32) (show_nat (unat p)) = Some (unat p)"
    by (rule parse_show_nat, rule less_trans [OF small]) simp
  moreover have "\<not> 65535 < unat p" using small by linarith
  ultimately show ?thesis by (simp add: parse_port_def)
qed

lemma split_on_three:
  assumes "d \<notin> set a" and "d \<notin> set b" and "d \<notin> set c"
  shows "split_on d (a @ d # b @ d # c) = [a, b, c]"
  using assms split_by_append_sep [of "\<lambda>x. x = d" a d] split_by_append_sep [of "\<lambda>x. x = d" b d c]
    split_by_none [of "\<lambda>x. x = d" c]
  by (simp add: split_on_def list_all_iff) metis

section \<open>Properties\<close>

text \<open>
   the ports and host of a specification, written out, are read back as they are; and whatever
  is read has ports from 1 to 65535 and a host without colons and shell metacharacters, and is
  read again from what it writes out.
\<close>

lemma forward_spec_roundtrip:
  "(fs_local_port s \<noteq> 0 \<and> fs_remote_port s \<noteq> 0 \<and> CHR '':'' \<notin> set (fs_remote_host s)
      \<and> validate_hostname (fs_remote_host s) = Inr () \<longrightarrow>
      parse_forward_spec (show_ports s) (fs_direction s) = Inr s)
   \<and> (parse_forward_spec text' d = Inr s \<longrightarrow>
      fs_local_port s \<noteq> 0 \<and> fs_remote_port s \<noteq> 0 \<and> CHR '':'' \<notin> set (fs_remote_host s)
      \<and> validate_hostname (fs_remote_host s) = Inr () \<and> fs_direction s = d)"
proof (intro conjI impI)
  assume s: "fs_local_port s \<noteq> 0 \<and> fs_remote_port s \<noteq> 0 \<and> CHR '':'' \<notin> set (fs_remote_host s)
      \<and> validate_hostname (fs_remote_host s) = Inr ()"
  have colon: "CHR '':'' \<notin> set (show_nat n)" for n
    by (rule show_nat_plain) (simp add: is_ascii_digit_def code_def)
  have "split_on (CHR '':'') (show_ports s)
      = [show_nat (unat (fs_local_port s)), fs_remote_host s, show_nat (unat (fs_remote_port s))]"
    using split_on_three [OF colon _ colon] s by (simp add: show_ports_def)
  moreover have "show_ports s \<noteq> []" by (simp add: show_ports_def)
  ultimately show "parse_forward_spec (show_ports s) (fs_direction s) = Inr s"
    using s by (simp add: parse_forward_spec_def parse_port_shown)
next
  assume p: "parse_forward_spec text' d = Inr s"
  let ?parts = "split_on (CHR '':'') text'"
  have len: "length ?parts = 3"
    and r: "parse_port (?parts ! 0) = Inr (fs_local_port s)"
      "parse_port (?parts ! 2) = Inr (fs_remote_port s)" "?parts ! 1 = fs_remote_host s"
      "validate_hostname (?parts ! 1) = Inr ()" "fs_direction s = d"
    using p by (auto simp: parse_forward_spec_def Let_def result_bind_def
        split: if_splits sum.splits)
  have "fs_remote_host s \<in> set ?parts" using len r(3) by (metis nth_mem one_less_numeral_iff semiring_norm(77))
  then have "CHR '':'' \<notin> set (fs_remote_host s)"
    using split_by_pieces by (auto simp: split_on_def list_all_iff)
  then show "fs_local_port s \<noteq> 0" "fs_remote_port s \<noteq> 0" "CHR '':'' \<notin> set (fs_remote_host s)"
    "validate_hostname (fs_remote_host s) = Inr ()" "fs_direction s = d"
    using r parse_port_Inr by auto
qed

definition sample_spec :: forward_spec where
  "sample_spec = \<lparr>fs_direction = Local_forward, fs_local_port = 5432, fs_remote_host = ''db'',
     fs_remote_port = 80\<rparr>"

lemma forward_spec_roundtrip_witness:
  "parse_forward_spec (show_ports sample_spec) Local_forward = Inr sample_spec"
proof -
  have "fs_local_port sample_spec \<noteq> 0 \<and> fs_remote_port sample_spec \<noteq> 0
      \<and> CHR '':'' \<notin> set (fs_remote_host sample_spec)
      \<and> validate_hostname (fs_remote_host sample_spec) = Inr ()" by code_simp
  with forward_spec_roundtrip [of sample_spec "[]" Local_forward] show ?thesis
    by (simp add: sample_spec_def)
qed

lemma daemon_wait:
  "daemon_loop d c (replicate (Suc n) (Lost Slept)) =
     (let (ws, ex) = daemon_loop (min (d * 2) 60) (c + 1) (replicate n (Lost Slept))
      in ((d, c + 1) # ws, ex))"
  by (simp add: RECONNECT_BACKOFF_MULTIPLIER_def RECONNECT_MAX_DELAY_SECS_def split: prod.splits)

lemma next_delay:
  assumes "unat (d :: u64) = min 60 (2 ^ k)"
  shows "unat (min (d * 2) 60) = min 60 (2 ^ Suc k)"
proof -
  have "unat (d * 2) = unat d * 2"
    using assms by (subst unat_mult_lem [THEN iffD1]) (auto simp: min_def)
  then have "unat (min (d * 2) 60) = min (unat d * 2) 60"
    by (auto simp: min_def word_le_nat_alt)
  then show ?thesis using assms by (auto simp: min_def)
qed

lemma daemon_waits_from:
  assumes "unat d = min 60 (2 ^ k)"
  shows "map (unat \<circ> fst) (fst (daemon_loop d c (replicate n (Lost Slept))))
      = map (\<lambda>i. min 60 (2 ^ (k + i))) [0..<n]
    \<and> snd (daemon_loop d c (replicate n (Lost Slept))) = Running"
  using assms
proof (induction n arbitrary: d c k)
  case (Suc n)
  have waits: "map (\<lambda>i. min (60 :: nat) (2 ^ (k + i))) [0..<Suc n]
      = min 60 (2 ^ k) # map (\<lambda>i. min 60 (2 ^ (Suc k + i))) [0..<n]"
    unfolding upt_conv_Cons [OF zero_less_Suc] map_Suc_upt [symmetric] by (simp add: comp_def)
  show ?case
    using Suc.IH [OF next_delay [OF Suc.prems], of "c + 1"] Suc.prems
    unfolding daemon_wait waits by (simp add: Let_def split_beta comp_def)
qed simp

text \<open>
   after the k-th loss in a row of its whole life the daemon waits 2 to the k seconds, but
  never more than 60; it goes on without end as long as sessions are lost. A session that held
  in between does not bring the wait back to one second.
\<close>

lemma daemon_backoff:
  "map (unat \<circ> fst) (fst (daemon_loop RECONNECT_INITIAL_DELAY_SECS 0 (replicate n (Lost Slept))))
      = map (\<lambda>k. min 60 (2 ^ k)) [0..<n]
   \<and> snd (daemon_loop RECONNECT_INITIAL_DELAY_SECS 0 (replicate n (Lost Slept))) = Running"
  using daemon_waits_from [of RECONNECT_INITIAL_DELAY_SECS 0 0 n]
  by (simp add: RECONNECT_INITIAL_DELAY_SECS_def)

text \<open>
   however processes interleave their loads and saves of the state file, it never holds two
  entries for one bookmark.
\<close>

lemma state_file_one_per_bookmark:
  assumes "tunnel_step\<^sup>*\<^sup>* \<lparr>tw_file = [], tw_copy = Map.empty\<rparr> w"
  shows "one_per_bookmark (tw_file w)"
  using tunnel_steps_ok [OF assms] by (simp add: world_ok_def one_per_bookmark_def)

definition sample_tunnel :: "string \<Rightarrow> tunnel_entry" where
  "sample_tunnel b = \<lparr>te_bookmark = b, te_forwards = [sample_spec], te_persistent = True,
     te_pid = 9, te_started_at = 0, te_reconnect_count = 0, te_status = Connected\<rparr>"

lemma state_file_one_per_bookmark_witness:
  "one_per_bookmark (register_in (sample_tunnel ''a'') [])"
proof -
  let ?w0 = "\<lparr>tw_file = [], tw_copy = Map.empty\<rparr>"
  let ?w1 = "?w0\<lparr>tw_copy := [0 \<mapsto> []]\<rparr>"
  have "tunnel_step ?w0 ?w1" using load_step [of ?w0 0] by simp
  moreover have "tunnel_step ?w1 (?w1\<lparr>tw_file := apply_op (Register (sample_tunnel ''a'')) [],
      tw_copy := (tw_copy ?w1)(0 := None)\<rparr>)"
    by (rule save_step) simp
  ultimately have "tunnel_step\<^sup>*\<^sup>* ?w0 (?w1\<lparr>tw_file := apply_op (Register (sample_tunnel ''a'')) [],
      tw_copy := (tw_copy ?w1)(0 := None)\<rparr>)"
    by (meson converse_rtranclp_into_rtranclp rtranclp.rtrancl_refl)
  from state_file_one_per_bookmark [OF this] show ?thesis by simp
qed

lemma register_pair_steps:
  assumes "te_bookmark e1 \<noteq> te_bookmark e2"
  shows "tunnel_step\<^sup>*\<^sup>* \<lparr>tw_file = [], tw_copy = Map.empty\<rparr> \<lparr>tw_file = [e2], tw_copy = Map.empty\<rparr>
    \<and> apply_op (Register e2) (apply_op (Register e1) []) = [e1, e2]"
proof
  let ?w0 = "\<lparr>tw_file = [], tw_copy = Map.empty\<rparr>"
  let ?w1 = "?w0\<lparr>tw_copy := [0 \<mapsto> []]\<rparr>"
  let ?w2 = "?w0\<lparr>tw_copy := [0 \<mapsto> [], 1 \<mapsto> []]\<rparr>"
  let ?w3 = "\<lparr>tw_file = [e1], tw_copy = [1 \<mapsto> []]\<rparr>"
  have "tunnel_step ?w0 ?w1" using load_step [of ?w0 0] by simp
  moreover have "tunnel_step ?w1 ?w2" using load_step [of ?w1 1] by simp
  moreover have "tunnel_step ?w2 ?w3"
  proof -
    have "([0 :: nat \<mapsto> [], 1 \<mapsto> []])(0 := None) = [1 \<mapsto> []]" by (rule ext) simp
    then show ?thesis using save_step [of ?w2 0 "[]" "Register e1"] by (simp add: register_in_def)
  qed
  moreover have "tunnel_step ?w3 \<lparr>tw_file = [e2], tw_copy = Map.empty\<rparr>"
  proof -
    have "([1 :: nat \<mapsto> []])(1 := None) = Map.empty" by (rule ext) simp
    then show ?thesis using save_step [of ?w3 1 "[]" "Register e2"] by (simp add: register_in_def)
  qed
  ultimately show "tunnel_step\<^sup>*\<^sup>* ?w0 \<lparr>tw_file = [e2], tw_copy = Map.empty\<rparr>"
    by (meson converse_rtranclp_into_rtranclp rtranclp.rtrancl_refl)
  show "apply_op (Register e2) (apply_op (Register e1) []) = [e1, e2]"
    using assms by (simp add: register_in_def)
qed

text \<open>
   registering two tunnels is not safe against each other: although the two registrations in
  turn leave both entries, there is a run of the two processes, each completing its
  registration, after which the file knows only the second tunnel.
\<close>

lemma concurrent_registration_is_lost:
  assumes "te_bookmark e1 \<noteq> te_bookmark e2"
  shows "\<exists>w. tunnel_step\<^sup>*\<^sup>* \<lparr>tw_file = [], tw_copy = Map.empty\<rparr> w \<and> tw_copy w = Map.empty
    \<and> tw_file w = [e2] \<and> apply_op (Register e2) (apply_op (Register e1) []) = [e1, e2]"
  using register_pair_steps [OF assms] by fastforce

lemma concurrent_registration_is_lost_witness:
  "\<exists>w. tunnel_step\<^sup>*\<^sup>* \<lparr>tw_file = [], tw_copy = Map.empty\<rparr> w \<and> tw_file w = [sample_tunnel ''b'']"
proof -
  have "te_bookmark (sample_tunnel ''a'') \<noteq> te_bookmark (sample_tunnel ''b'')"
    by (simp add: sample_tunnel_def)
  from concurrent_registration_is_lost [OF this] show ?thesis by blast
qed

end
