(* ===== verification/Ssh_Import.thy ===== *)
theory Ssh_Import
  imports Ssh_Target Env_Detect
begin

text \<open>
  \<open>src/config/ssh_import.rs\<close> and the import command of \<open>src/main.rs\<close>: the parser of OpenSSH
  configuration files with its \<open>Include\<close> directive, and the merge of imported bookmarks into the
  configuration.

  The files are an association list from paths to contents; \<open>canonicalize\<close>, \<open>parent\<close> and the
  expansion of an include pattern (tilde, glob and the test for a regular file) are fields of the
  record \<open>ssh_files\<close>. The recursion over includes takes fuel; one more than the number of files
  is enough.
\<close>

section \<open>Lines and blocks\<close>

text \<open>\<open>Directive=value\<close> at the first equals sign anywhere, otherwise \<open>Directive value\<close>.\<close>

definition split_directive :: "string \<Rightarrow> (string \<times> string) option" where
  "split_directive line =
     (let (directive, rest) =
        (case split_once (CHR ''='') line of
           Some (d, v) \<Rightarrow> (trim d, trim v)
         | None \<Rightarrow>
             (trim (takeWhile (\<lambda>c. \<not> is_whitespace c) line),
              trim (drop 1 (dropWhile (\<lambda>c. \<not> is_whitespace c) line))))
      in if directive = [] then None else Some (directive, rest))"

record host_block =
  hb_name :: string
  hb_hostname :: "string option"
  hb_user :: "string option"
  hb_port :: "u16 option"
  hb_identity_file :: "string option"
  hb_proxy_jump :: "string option"
  hb_on_connect :: "string option"
  hb_connect_timeout_secs :: "u64 option"
  hb_ssh_options :: options

definition new_block :: "string \<Rightarrow> host_block" where
  "new_block name = \<lparr>hb_name = name, hb_hostname = None, hb_user = None, hb_port = None,
     hb_identity_file = None, hb_proxy_jump = None, hb_on_connect = None,
     hb_connect_timeout_secs = None, hb_ssh_options = Map.empty\<rparr>"

definition into_bookmark :: "host_block \<Rightarrow> bookmark" where
  "into_bookmark hb =
     (let name = hb_name hb; host = unwrap_or (hb_hostname hb) name in
      \<lparr>b_name = name, b_host = host, b_user = hb_user hb, b_port = unwrap_or (hb_port hb) 22,
       b_env = detect_env name host, b_tags = [], b_identity_file = hb_identity_file hb,
       b_proxy_jump = hb_proxy_jump hb, b_notes = None, b_last_connected = None,
       b_connect_count = 0, b_on_connect = hb_on_connect hb, b_on_connect_prompt_pattern = None,
       b_snippets = [], b_connect_timeout_secs = hb_connect_timeout_secs hb,
       b_ssh_options = hb_ssh_options hb, b_profile = None\<rparr>)"

definition canonical_ssh_option :: "string \<Rightarrow> string option" where
  "canonical_ssh_option key = map_of
     [(''localforward'', ''LocalForward''), (''remoteforward'', ''RemoteForward''),
      (''serveraliveinterval'', ''ServerAliveInterval''),
      (''serveralivecountmax'', ''ServerAliveCountMax''), (''addkeystoagent'', ''AddKeysToAgent''),
      (''forwardagent'', ''ForwardAgent''), (''compression'', ''Compression''),
      (''stricthostkeychecking'', ''StrictHostKeyChecking''), (''requesttty'', ''RequestTTY'')] key"

text \<open>A directive inside a block; one that is not supported leaves it alone.\<close>

definition set_directive :: "string \<Rightarrow> string \<Rightarrow> host_block \<Rightarrow> host_block" where
  "set_directive key value hb =
     (if key = ''hostname'' then hb\<lparr>hb_hostname := Some value\<rparr>
      else if key = ''user'' then hb\<lparr>hb_user := Some value\<rparr>
      else if key = ''port'' then
        (case parse_u16 value of Some port \<Rightarrow> hb\<lparr>hb_port := Some port\<rparr> | None \<Rightarrow> hb)
      else if key = ''identityfile'' then hb\<lparr>hb_identity_file := Some value\<rparr>
      else if key = ''proxyjump'' then hb\<lparr>hb_proxy_jump := Some value\<rparr>
      else if key = ''connecttimeout'' then
        hb\<lparr>hb_connect_timeout_secs := map_option word_of_nat (parse_unsigned (2 ^ 64) value)\<rparr>
      else if key = ''remotecommand'' then hb\<lparr>hb_on_connect := Some value\<rparr>
      else case canonical_ssh_option key of
          Some canonical \<Rightarrow> hb\<lparr>hb_ssh_options := (hb_ssh_options hb)(canonical \<mapsto> value)\<rparr>
        | None \<Rightarrow> hb)"

text \<open>A \<open>Host\<close> line opens a block for its first alias, unless that is a pattern.\<close>

definition host_block_of :: "string \<Rightarrow> host_block option" where
  "host_block_of value =
     (let first_alias = (case split_whitespace value of [] \<Rightarrow> [] | w # _ \<Rightarrow> w) in
      if CHR ''*'' \<in> set first_alias \<or> CHR ''?'' \<in> set first_alias then None
      else Some (new_block first_alias))"

definition finish_block :: "host_block option \<Rightarrow> bookmark list" where
  "finish_block cur = (case cur of None \<Rightarrow> [] | Some hb \<Rightarrow> [into_bookmark hb])"

section \<open>Files\<close>

datatype import_error = Read_error string | Bad_glob string | Out_of_fuel

type_synonym parse_result = "import_error + (bookmark list \<times> string set)"

record ssh_files =
  sf_contents :: "(string \<times> string) list"
  sf_canonical :: "string \<Rightarrow> string"
  sf_parent :: "string \<Rightarrow> string"
  sf_include :: "string \<Rightarrow> string \<Rightarrow> string list option"

text \<open>What a line is to the loop: nothing, or a directive with its lower-cased name and value.\<close>

datatype config_line =
    Skip_line
  | Host_line string
  | Include_line string
  | Setting_line string string

definition classify_line :: "string \<Rightarrow> config_line" where
  "classify_line line =
     (let trimmed = trim line in
      if trimmed = [] \<or> starts_with ''#'' trimmed then Skip_line
      else case split_directive trimmed of
          None \<Rightarrow> Skip_line
        | Some (directive, value) \<Rightarrow>
            let key = to_lowercase directive in
            if key = ''host'' then Host_line value
            else if key = ''include'' then Include_line value
            else Setting_line key value)"

text \<open>The loop over the lines, with the handler of an \<open>Include\<close> directive.\<close>

fun parse_lines ::
    "(string \<Rightarrow> string set \<Rightarrow> parse_result) \<Rightarrow> string list \<Rightarrow> string set \<Rightarrow> bookmark list
      \<Rightarrow> host_block option \<Rightarrow> parse_result" where
  "parse_lines inc [] visited acc cur = Inr (acc @ finish_block cur, visited)"
| "parse_lines inc (line # rest) visited acc cur =
     (case classify_line line of
        Skip_line \<Rightarrow> parse_lines inc rest visited acc cur
      | Host_line value \<Rightarrow>
          parse_lines inc rest visited (acc @ finish_block cur) (host_block_of value)
      | Include_line value \<Rightarrow>
          result_bind (inc value visited) (\<lambda>(included, visited').
            parse_lines inc rest visited' (acc @ included) cur)
      | Setting_line key value \<Rightarrow>
          parse_lines inc rest visited acc (map_option (set_directive key value) cur))"

fun include_all ::
    "(string \<Rightarrow> string set \<Rightarrow> parse_result) \<Rightarrow> string list \<Rightarrow> string set \<Rightarrow> parse_result" where
  "include_all f [] visited = Inr ([], visited)"
| "include_all f (p # ps) visited =
     result_bind (f p visited) (\<lambda>(bs, visited').
     result_bind (include_all f ps visited') (\<lambda>(bs', visited''). Inr (bs @ bs', visited'')))"

definition resolve_includes ::
    "ssh_files \<Rightarrow> (string \<Rightarrow> string set \<Rightarrow> parse_result) \<Rightarrow> string \<Rightarrow> string \<Rightarrow> string set \<Rightarrow> parse_result"
    where
  "resolve_includes fs f parent pattern visited =
     (case sf_include fs parent pattern of
        None \<Rightarrow> Inl (Bad_glob pattern)
      | Some paths \<Rightarrow> include_all f paths visited)"

fun parse_ssh_config_recursive :: "ssh_files \<Rightarrow> nat \<Rightarrow> string \<Rightarrow> string set \<Rightarrow> parse_result" where
  "parse_ssh_config_recursive fs 0 path visited = Inl Out_of_fuel"
| "parse_ssh_config_recursive fs (Suc n) path visited =
     (let canonical = sf_canonical fs path in
      if canonical \<in> visited then Inr ([], visited)
      else case map_of (sf_contents fs) path of
          None \<Rightarrow> Inl (Read_error path)
        | Some content \<Rightarrow>
            parse_lines
              (resolve_includes fs (parse_ssh_config_recursive fs n) (sf_parent fs path))
              (str_lines content) (insert canonical visited) [] None)"

definition parse_ssh_config :: "ssh_files \<Rightarrow> string \<Rightarrow> import_error + bookmark list" where
  "parse_ssh_config fs path =
     result_bind (parse_ssh_config_recursive fs (Suc (length (sf_contents fs))) path {})
       (\<lambda>(bs, _). Inr bs)"

section \<open>Merging\<close>

record import_result =
  ir_imported :: "bookmark list"
  ir_already_existed :: nat

fun merge_loop ::
    "string set \<Rightarrow> bool \<Rightarrow> bookmark list \<Rightarrow> bookmark list \<Rightarrow> import_result
      \<Rightarrow> bookmark list \<times> import_result" where
  "merge_loop names overwrite existing [] r = (existing, r)"
| "merge_loop names overwrite existing (b # bs) r =
     (if b_name b \<in> names then
        (if overwrite then
           merge_loop names overwrite (filter (\<lambda>x. b_name x \<noteq> b_name b) existing @ [b]) bs
             (r\<lparr>ir_imported := ir_imported r @ [b]\<rparr>)
         else merge_loop names overwrite existing bs
                (r\<lparr>ir_already_existed := ir_already_existed r + 1\<rparr>))
      else merge_loop names overwrite (existing @ [b]) bs (r\<lparr>ir_imported := ir_imported r @ [b]\<rparr>))"

definition merge_imports ::
    "bookmark list \<Rightarrow> bookmark list \<Rightarrow> bool \<Rightarrow> bookmark list \<times> import_result" where
  "merge_imports existing imported overwrite =
     merge_loop (b_name ` set existing) overwrite existing imported
       \<lparr>ir_imported = [], ir_already_existed = 0\<rparr>"

text \<open>The environment and tag overrides of the import command, for sources that ignore them.\<close>

fun add_tags :: "string list \<Rightarrow> string list \<Rightarrow> string list" where
  "add_tags [] tags = tags"
| "add_tags (t # ts) tags = add_tags ts (if t \<in> set tags then tags else tags @ [t])"

definition apply_overrides :: "string option \<Rightarrow> string list \<Rightarrow> bool \<Rightarrow> bookmark list \<Rightarrow> bookmark list" where
  "apply_overrides env_override extra_tags is_passthrough bs =
     (if \<not> is_passthrough then bs
      else map (\<lambda>b. b\<lparr>b_env := unwrap_or env_override (b_env b),
                      b_tags := add_tags extra_tags (b_tags b)\<rparr>) bs)"

text \<open>The counts of a dry run: added, overwritten, skipped.\<close>

definition dry_run_counts :: "bookmark list \<Rightarrow> bookmark list \<Rightarrow> bool \<Rightarrow> nat \<times> nat \<times> nat" where
  "dry_run_counts existing imported overwrite =
     (let known = filter (\<lambda>b. b_name b \<in> b_name ` set existing) imported;
          unknown = filter (\<lambda>b. b_name b \<notin> b_name ` set existing) imported
      in (length unknown, if overwrite then length known else 0,
          if overwrite then 0 else length known))"

section \<open>Includes end\<close>

text \<open>What an include handler does from a set of visited files on: it only adds to it.\<close>

definition grows :: "(string \<Rightarrow> string set \<Rightarrow> parse_result) \<Rightarrow> bool" where
  "grows f \<longleftrightarrow> (\<forall>v vis bs vis'. f v vis = Inr (bs, vis') \<longrightarrow> vis \<subseteq> vis')"

lemma growsD: "grows f \<Longrightarrow> f v vis = Inr (bs, vis') \<Longrightarrow> vis \<subseteq> vis'"
  by (simp add: grows_def)

lemma bind_InrE:
  assumes "result_bind x f = Inr y"
  obtains z where "x = Inr z" and "f z = Inr y"
  using assms by (cases x) (simp_all add: result_bind_def)

lemma parse_lines_grows:
  "grows inc \<Longrightarrow> parse_lines inc ls vis acc cur = Inr (bs, vis') \<Longrightarrow> vis \<subseteq> vis'"
proof (induction ls arbitrary: vis acc cur)
  case (Cons line rest)
  show ?case
  proof (cases "classify_line line")
    case (Include_line v)
    with Cons.prems obtain inc_bs vis1 where i: "inc v vis = Inr (inc_bs, vis1)"
      and r: "parse_lines inc rest vis1 (acc @ inc_bs) cur = Inr (bs, vis')"
      by (auto elim: bind_InrE)
    from growsD [OF Cons.prems(1) i] Cons.IH [OF Cons.prems(1) r] show ?thesis by blast
  qed (use Cons in auto)
qed simp

lemma include_all_grows: "grows f \<Longrightarrow> include_all f ps vis = Inr (bs, vis') \<Longrightarrow> vis \<subseteq> vis'"
proof (induction ps arbitrary: vis bs)
  case (Cons p ps)
  then obtain bs1 vis1 bs2 where f: "f p vis = Inr (bs1, vis1)"
    and r: "include_all f ps vis1 = Inr (bs2, vis')"
    by (auto elim!: bind_InrE)
  from growsD [OF Cons.prems(1) f] Cons.IH [OF Cons.prems(1) r] show ?case by blast
qed simp

lemma resolve_includes_grows: "grows f \<Longrightarrow> grows (resolve_includes fs f parent)"
  using include_all_grows by (auto simp: grows_def [of "resolve_includes fs f parent"]
      resolve_includes_def split: option.splits)

lemma parse_file_grows: "grows (parse_ssh_config_recursive fs n)"
proof (induction n)
  case 0
  show ?case by (simp add: grows_def)
next
  case (Suc n)
  have "grows (resolve_includes fs (parse_ssh_config_recursive fs n) (sf_parent fs path))" for path
    using resolve_includes_grows [OF Suc] .
  from parse_lines_grows [OF this] show ?case
    by (auto simp: grows_def Let_def split: if_splits option.splits) blast
qed

text \<open>Two handlers that agree from some set of visited files on give the same result there.\<close>

lemma parse_lines_cong:
  assumes "\<And>v vis. V \<subseteq> vis \<Longrightarrow> inc v vis = inc' v vis" and "grows inc" and "V \<subseteq> vis"
  shows "parse_lines inc ls vis acc cur = parse_lines inc' ls vis acc cur"
  using assms(3)
proof (induction ls arbitrary: vis acc cur)
  case (Cons line rest)
  show ?case
  proof (cases "classify_line line")
    case (Include_line v)
    show ?thesis
    proof (cases "inc v vis")
      case (Inr z)
      then obtain bs1 vis1 where z: "inc v vis = Inr (bs1, vis1)" by (cases z) simp
      have z': "inc' v vis = Inr (bs1, vis1)" using z assms(1) [OF Cons.prems, of v] by metis
      have "V \<subseteq> vis1" using growsD [OF assms(2) z] Cons.prems by blast
      with Cons.IH Include_line z z' show ?thesis by simp
    qed (use assms(1) [OF Cons.prems, of v] Include_line in simp)
  qed (use Cons in simp_all)
qed simp

lemma include_all_cong:
  assumes "\<And>v vis. V \<subseteq> vis \<Longrightarrow> f v vis = f' v vis" and "grows f" and "V \<subseteq> vis"
  shows "include_all f ps vis = include_all f' ps vis"
  using assms(3)
proof (induction ps arbitrary: vis)
  case (Cons p ps)
  show ?case
  proof (cases "f p vis")
    case (Inr z)
    then obtain bs1 vis1 where z: "f p vis = Inr (bs1, vis1)" by (cases z) simp
    have z': "f' p vis = Inr (bs1, vis1)" using z assms(1) [OF Cons.prems, of p] by metis
    have "V \<subseteq> vis1" using growsD [OF assms(2) z] Cons.prems by blast
    with Cons.IH z z' show ?thesis by simp
  qed (use assms(1) [OF Cons.prems, of p] in simp)
qed simp

text \<open>The files not yet visited, which bound the depth of the recursion.\<close>

definition unvisited :: "ssh_files \<Rightarrow> string set \<Rightarrow> string set" where
  "unvisited fs vis = sf_canonical fs ` fst ` set (sf_contents fs) - vis"

lemma unvisited_finite: "finite (unvisited fs vis)"
  by (simp add: unvisited_def)

lemma unvisited_mono: "vis \<subseteq> vis' \<Longrightarrow> card (unvisited fs vis') \<le> card (unvisited fs vis)"
  by (rule card_mono [OF unvisited_finite]) (auto simp: unvisited_def)

lemma unvisited_visit:
  assumes "map_of (sf_contents fs) path = Some content" and "sf_canonical fs path \<notin> vis"
  shows "card (unvisited fs (insert (sf_canonical fs path) vis)) < card (unvisited fs vis)"
proof (rule psubset_card_mono [OF unvisited_finite])
  have "path \<in> fst ` set (sf_contents fs)" using assms(1) by (metis map_of_SomeD fst_conv image_eqI)
  then show "unvisited fs (insert (sf_canonical fs path) vis) \<subset> unvisited fs vis"
    using assms(2) by (auto simp: unvisited_def)
qed

lemma parse_file_more_fuel:
  "card (unvisited fs vis) < n \<Longrightarrow>
     parse_ssh_config_recursive fs (Suc n) path vis = parse_ssh_config_recursive fs n path vis"
proof (induction n arbitrary: path vis)
  case (Suc n)
  show ?case
  proof (cases "sf_canonical fs path \<in> vis \<or> map_of (sf_contents fs) path = None")
    case True
    then show ?thesis by (auto simp: Let_def)
  next
    case False
    then obtain content where content: "map_of (sf_contents fs) path = Some content"
      and new: "sf_canonical fs path \<notin> vis" by auto
    let ?V = "insert (sf_canonical fs path) vis"
    let ?f = "parse_ssh_config_recursive fs (Suc n)" and ?f' = "parse_ssh_config_recursive fs n"
    have eq: "?f p vis' = ?f' p vis'" if "?V \<subseteq> vis'" for p vis'
      using unvisited_visit [OF content new] unvisited_mono [OF that, of fs] Suc.prems
      by (intro Suc.IH) simp
    have inc: "resolve_includes fs ?f (sf_parent fs path) v vis'
        = resolve_includes fs ?f' (sf_parent fs path) v vis'" if "?V \<subseteq> vis'" for v vis'
      using include_all_cong [OF eq parse_file_grows that]
      by (simp add: resolve_includes_def split: option.splits)
    have "parse_lines (resolve_includes fs ?f (sf_parent fs path)) ls ?V acc cur
        = parse_lines (resolve_includes fs ?f' (sf_parent fs path)) ls ?V acc cur" for ls acc cur
      by (rule parse_lines_cong [where V = ?V])
        (use inc resolve_includes_grows [OF parse_file_grows] in blast)+
    then show ?thesis
      using content new
      by (simp add: Let_def parse_ssh_config_recursive.simps(2) [of fs "Suc n"]
          parse_ssh_config_recursive.simps(2) [of fs n] del: parse_ssh_config_recursive.simps)
  qed
qed simp

lemma parse_lines_enough:
  assumes "\<And>v vis. V \<subseteq> vis \<Longrightarrow> inc v vis \<noteq> Inl Out_of_fuel" and "grows inc" and "V \<subseteq> vis"
  shows "parse_lines inc ls vis acc cur \<noteq> Inl Out_of_fuel"
  using assms(3)
proof (induction ls arbitrary: vis acc cur)
  case (Cons line rest)
  show ?case
  proof (cases "classify_line line")
    case (Include_line v)
    show ?thesis
    proof (cases "inc v vis")
      case (Inr z)
      then obtain bs1 vis1 where z: "inc v vis = Inr (bs1, vis1)" by (cases z) simp
      have "V \<subseteq> vis1" using growsD [OF assms(2) z] Cons.prems by blast
      with Cons.IH Include_line z show ?thesis by simp
    qed (use assms(1) [OF Cons.prems, of v] Include_line in simp)
  qed (use Cons in simp_all)
qed simp

lemma include_all_enough:
  assumes "\<And>v vis. V \<subseteq> vis \<Longrightarrow> f v vis \<noteq> Inl Out_of_fuel" and "grows f" and "V \<subseteq> vis"
  shows "include_all f ps vis \<noteq> Inl Out_of_fuel"
  using assms(3)
proof (induction ps arbitrary: vis)
  case (Cons p ps)
  show ?case
  proof (cases "f p vis")
    case (Inr z)
    then obtain bs1 vis1 where z: "f p vis = Inr (bs1, vis1)" by (cases z) simp
    have "V \<subseteq> vis1" using growsD [OF assms(2) z] Cons.prems by blast
    from Cons.IH [OF this] z show ?thesis
      by (cases "include_all f ps vis1") (auto simp: split: prod.splits)
  qed (use assms(1) [OF Cons.prems, of p] in simp)
qed simp

lemma parse_file_enough:
  "card (unvisited fs vis) < n \<Longrightarrow> parse_ssh_config_recursive fs n path vis \<noteq> Inl Out_of_fuel"
proof (induction n arbitrary: path vis)
  case (Suc n)
  show ?case
  proof (cases "sf_canonical fs path \<in> vis \<or> map_of (sf_contents fs) path = None")
    case True
    then show ?thesis by (auto simp: Let_def)
  next
    case False
    then obtain content where content: "map_of (sf_contents fs) path = Some content"
      and new: "sf_canonical fs path \<notin> vis" by auto
    let ?V = "insert (sf_canonical fs path) vis"
    let ?f = "parse_ssh_config_recursive fs n"
    have enough: "?f p vis' \<noteq> Inl Out_of_fuel" if "?V \<subseteq> vis'" for p vis'
      using unvisited_visit [OF content new] unvisited_mono [OF that, of fs] Suc.prems
      by (intro Suc.IH) simp
    have inc: "resolve_includes fs ?f (sf_parent fs path) v vis' \<noteq> Inl Out_of_fuel"
      if "?V \<subseteq> vis'" for v vis'
      using include_all_enough [OF enough parse_file_grows that]
      by (simp add: resolve_includes_def split: option.splits)
    have "parse_lines (resolve_includes fs ?f (sf_parent fs path)) ls ?V acc cur \<noteq> Inl Out_of_fuel"
      for ls acc cur
      by (rule parse_lines_enough [where V = ?V])
        (use inc resolve_includes_grows [OF parse_file_grows] in blast)+
    with content new show ?thesis by (simp add: Let_def)
  qed
qed simp

lemma unvisited_card: "card (unvisited fs vis) \<le> length (sf_contents fs)"
proof -
  have "card (unvisited fs vis) \<le> card (sf_canonical fs ` fst ` set (sf_contents fs))"
    by (rule card_mono) (auto simp: unvisited_def)
  also have "\<dots> \<le> length (sf_contents fs)"
    by (metis card_length image_set length_map)
  finally show ?thesis .
qed

section \<open>What the parser imports\<close>

definition concrete_name :: "string \<Rightarrow> bool" where
  "concrete_name n \<longleftrightarrow> CHR ''*'' \<notin> set n \<and> CHR ''?'' \<notin> set n \<and> list_all (\<lambda>c. \<not> is_whitespace c) n"

definition imported_ok :: "bookmark \<Rightarrow> bool" where
  "imported_ok b \<longleftrightarrow> concrete_name (b_name b) \<and> b_env b = detect_env (b_name b) (b_host b)
     \<and> b_connect_count b = 0 \<and> b_profile b = None"

lemma set_directive_name: "hb_name (set_directive k v hb) = hb_name hb"
  by (simp add: set_directive_def split: option.splits)

lemma host_block_of_name: "host_block_of v = Some hb \<Longrightarrow> concrete_name (hb_name hb)"
  using split_whitespace_words [of _ v]
  by (auto simp: host_block_of_def Let_def new_block_def concrete_name_def
      split: if_splits list.splits)

lemma into_bookmark_ok: "concrete_name (hb_name hb) \<Longrightarrow> imported_ok (into_bookmark hb)"
  by (simp add: imported_ok_def into_bookmark_def Let_def)

definition block_ok :: "host_block option \<Rightarrow> bool" where
  "block_ok cur \<longleftrightarrow> (\<forall>hb. cur = Some hb \<longrightarrow> concrete_name (hb_name hb))"

lemma finish_block_ok: "block_ok cur \<Longrightarrow> b \<in> set (finish_block cur) \<Longrightarrow> imported_ok b"
  by (auto simp: block_ok_def finish_block_def into_bookmark_ok split: option.splits)

definition handler_ok :: "(string \<Rightarrow> string set \<Rightarrow> parse_result) \<Rightarrow> bool" where
  "handler_ok f \<longleftrightarrow> (\<forall>v vis bs vis'. f v vis = Inr (bs, vis') \<longrightarrow> (\<forall>b\<in>set bs. imported_ok b))"

lemma handler_okD:
  "handler_ok f \<Longrightarrow> f v vis = Inr (bs, vis') \<Longrightarrow> b \<in> set bs \<Longrightarrow> imported_ok b"
  by (auto simp: handler_ok_def)

lemma parse_lines_ok:
  assumes "handler_ok inc" and "\<forall>b\<in>set acc. imported_ok b" and "block_ok cur"
    and "parse_lines inc ls vis acc cur = Inr (bs, vis')"
  shows "\<forall>b\<in>set bs. imported_ok b"
  using assms(2-)
proof (induction ls arbitrary: vis acc cur)
  case Nil
  then show ?case using finish_block_ok by auto
next
  case (Cons line rest)
  show ?case
  proof (cases "classify_line line")
    case Skip_line
    then show ?thesis using Cons by simp
  next
    case (Host_line v)
    have "block_ok (host_block_of v)" using host_block_of_name by (simp add: block_ok_def)
    moreover have "\<forall>b\<in>set (acc @ finish_block cur). imported_ok b"
      using Cons.prems(1,2) finish_block_ok by auto
    moreover have "parse_lines inc rest vis (acc @ finish_block cur) (host_block_of v)
        = Inr (bs, vis')" using Cons.prems(3) Host_line by simp
    ultimately show ?thesis using Cons.IH by blast
  next
    case (Include_line v)
    then obtain bs1 vis1 where i: "inc v vis = Inr (bs1, vis1)"
      and r: "parse_lines inc rest vis1 (acc @ bs1) cur = Inr (bs, vis')"
      using Cons.prems(3) by (auto elim: bind_InrE)
    have "\<forall>b\<in>set (acc @ bs1). imported_ok b"
      using assms(1) i Cons.prems(1) by (auto simp: handler_ok_def)
    then show ?thesis using Cons.IH [OF _ Cons.prems(2) r] by blast
  next
    case (Setting_line k v)
    have "block_ok (map_option (set_directive k v) cur)"
      using Cons.prems(2) by (auto simp: block_ok_def set_directive_name)
    then show ?thesis using Cons Setting_line by simp
  qed
qed

lemma include_all_ok: "handler_ok f \<Longrightarrow> include_all f ps vis = Inr (bs, vis') \<Longrightarrow> \<forall>b\<in>set bs. imported_ok b"
proof (induction ps arbitrary: vis bs)
  case (Cons p ps)
  then obtain bs1 vis1 bs2 where f: "f p vis = Inr (bs1, vis1)"
    and r: "include_all f ps vis1 = Inr (bs2, vis')" and bs: "bs = bs1 @ bs2"
    by (auto elim!: bind_InrE)
  show ?case
    using Cons.IH [OF Cons.prems(1) r] handler_okD [OF Cons.prems(1) f] bs by auto
qed simp

lemma parse_file_ok: "handler_ok (parse_ssh_config_recursive fs n)"
proof (induction n)
  case (Suc n)
  have "handler_ok (resolve_includes fs (parse_ssh_config_recursive fs n) parent)" for parent
    using include_all_ok [OF Suc]
    by (auto simp: handler_ok_def [of "resolve_includes fs _ _"] resolve_includes_def
        split: option.splits)
  then have lines: "\<forall>b\<in>set bs. imported_ok b" if "parse_lines (resolve_includes fs
      (parse_ssh_config_recursive fs n) parent) ls vis [] None = Inr (bs, vis')"
    for parent ls vis bs vis'
    using parse_lines_ok [OF _ _ _ that] by (simp add: block_ok_def)
  show ?case
    unfolding handler_ok_def
    by (auto simp: Let_def split: if_splits option.splits dest!: lines)
qed (simp add: handler_ok_def)

section \<open>What the merge does\<close>

lemma merge_loop_skip:
  "merge_loop N False ex bs r =
     (ex @ filter (\<lambda>b. b_name b \<notin> N) bs,
      \<lparr>ir_imported = ir_imported r @ filter (\<lambda>b. b_name b \<notin> N) bs,
       ir_already_existed = ir_already_existed r + length (filter (\<lambda>b. b_name b \<in> N) bs)\<rparr>)"
  by (induction bs arbitrary: ex r) simp_all

lemma merge_loop_overwrite:
  assumes "distinct (map b_name bs)"
    and "\<forall>b\<in>set bs. b_name b \<notin> N \<longrightarrow> b_name b \<notin> b_name ` set ex"
  shows "merge_loop N True ex bs r =
     (filter (\<lambda>x. b_name x \<notin> b_name ` set bs) ex @ bs,
      r\<lparr>ir_imported := ir_imported r @ bs\<rparr>)"
  using assms
proof (induction bs arbitrary: ex r)
  case (Cons b bs)
  have gone: "filter (\<lambda>x. b_name x \<noteq> b_name b \<and> b_name x \<notin> b_name ` set bs) ex
      = filter (\<lambda>x. b_name x \<notin> b_name ` set bs) ex" if "b_name b \<notin> b_name ` set ex"
    using that by (intro filter_cong) (auto, metis imageI)
  show ?case
  proof (cases "b_name b \<in> N")
    case True
    have "\<forall>b'\<in>set bs. b_name b' \<notin> N \<longrightarrow>
        b_name b' \<notin> b_name ` set (filter (\<lambda>x. b_name x \<noteq> b_name b) ex @ [b])"
      using Cons.prems True by auto
    from Cons.IH [OF _ this] Cons.prems(1) True show ?thesis
      by (simp add: conj_commute)
  next
    case False
    then have new: "b_name b \<notin> b_name ` set ex" using Cons.prems(2) by simp
    have "\<forall>b'\<in>set bs. b_name b' \<notin> N \<longrightarrow> b_name b' \<notin> b_name ` set (ex @ [b])"
      using Cons.prems by (auto, metis imageI)
    from Cons.IH [OF _ this] Cons.prems(1) False gone [OF new] show ?thesis by simp
  qed
qed simp

text \<open>Overwriting never counts a bookmark as one that already existed.\<close>

lemma overwrite_counts_nothing:
  "ir_already_existed (snd (merge_loop N True ex bs r)) = ir_already_existed r"
  by (induction bs arbitrary: ex r) simp_all

text \<open>Two imported bookmarks of one new name are both kept.\<close>

lemma merge_keeps_duplicates:
  "fst (merge_imports [] [b, b] False) = [b, b]"
  by (simp add: merge_imports_def)

section \<open>Properties\<close>

text \<open>
  C36: parsing ends whatever the files include, themselves and each other in circles too: with one
  more unit of fuel than there are files it never runs out, and more fuel changes nothing.
\<close>

theorem includes_always_end:
  "parse_ssh_config_recursive fs (Suc (length (sf_contents fs))) path {} \<noteq> Inl Out_of_fuel
   \<and> parse_ssh_config_recursive fs (Suc (length (sf_contents fs)) + k) path {}
       = parse_ssh_config_recursive fs (Suc (length (sf_contents fs))) path {}"
proof
  have bound: "card (unvisited fs {}) < Suc (length (sf_contents fs)) + j" for j
    using unvisited_card [of fs "{}"] by simp
  show "parse_ssh_config_recursive fs (Suc (length (sf_contents fs))) path {} \<noteq> Inl Out_of_fuel"
    using parse_file_enough [OF bound [of 0]] by simp
  show "parse_ssh_config_recursive fs (Suc (length (sf_contents fs)) + k) path {}
      = parse_ssh_config_recursive fs (Suc (length (sf_contents fs))) path {}"
  proof (induction k)
    case (Suc k)
    then show ?case
      using parse_file_more_fuel [OF bound [of k], of path] by (simp del: parse_ssh_config_recursive.simps)
  qed simp
qed

text \<open>
   every imported bookmark has a concrete name, without wildcards and blanks, also those that
  come from included files, with the tier detected from its name and host and no usage data.
\<close>

lemma imported_hosts_are_concrete:
  assumes "parse_ssh_config fs path = Inr bs" and "b \<in> set bs"
  shows "imported_ok b"
proof -
  obtain vis where "parse_ssh_config_recursive fs (Suc (length (sf_contents fs))) path {} = Inr (bs, vis)"
    using assms(1) unfolding parse_ssh_config_def by (auto elim!: bind_InrE)
  from handler_okD [OF parse_file_ok this assms(2)] show ?thesis .
qed

definition sample_files :: ssh_files where
  "sample_files = \<lparr>sf_contents =
      [(''a'', ''Include b'' @ [CHR 0x0A] @ ''Host web'' @ [CHR 0x0A] @ ''User=me''),
       (''b'', ''Include a'' @ [CHR 0x0A] @ ''Host * x'')],
     sf_canonical = (\<lambda>p. p), sf_parent = (\<lambda>_. []), sf_include = (\<lambda>_ p. Some [p])\<rparr>"

lemma imported_hosts_are_concrete_witness:
  "\<exists>b. parse_ssh_config sample_files ''a'' = Inr [b] \<and> imported_ok b"
proof -
  let ?b = "into_bookmark ((new_block ''web'')\<lparr>hb_user := Some ''me''\<rparr>)"
  have lines: "str_lines (''Include b'' @ [CHR 0x0A] @ ''Host web'' @ [CHR 0x0A] @ ''User=me'')
      = [''Include b'', ''Host web'', ''User=me'']"
    "str_lines (''Include a'' @ [CHR 0x0A] @ ''Host * x'') = [''Include a'', ''Host * x'']"
    "map classify_line [''Include b'', ''Host web'', ''User=me'', ''Include a'', ''Host * x'']
      = [Include_line ''b'', Host_line ''web'', Setting_line ''user'' ''me'', Include_line ''a'',
         Host_line ''* x'']"
    "split_whitespace ''web'' = [''web'']" "split_whitespace ''* x'' = [''*'', ''x'']"
    by code_simp+
  have hosts: "host_block_of ''web'' = Some (new_block ''web'')" "host_block_of ''* x'' = None"
    using lines(4,5) by (simp_all add: host_block_of_def)
  have "parse_ssh_config sample_files ''a'' = Inr [?b]"
    using lines(1-3) hosts by (simp add: parse_ssh_config_def sample_files_def Let_def resolve_includes_def
        finish_block_def set_directive_def)
  from this imported_hosts_are_concrete [OF this, of ?b] show ?thesis by auto
qed

text \<open>
   the merge. Without overwriting, the existing bookmarks stay and the imported ones of other
  names follow in order; with overwriting, every imported bookmark of a file with distinct names
  ends up in the list and replaces the existing one of its name. Distinct names stay distinct.
\<close>

lemma merge_replaces_by_name:
  assumes "distinct (map b_name imported)" and "distinct (map b_name existing)"
  shows "fst (merge_imports existing imported False)
      = existing @ filter (\<lambda>b. b_name b \<notin> b_name ` set existing) imported
    \<and> fst (merge_imports existing imported True)
      = filter (\<lambda>x. b_name x \<notin> b_name ` set imported) existing @ imported
    \<and> distinct (map b_name (fst (merge_imports existing imported overwrite)))"
proof -
  have skip: "fst (merge_imports existing imported False)
      = existing @ filter (\<lambda>b. b_name b \<notin> b_name ` set existing) imported"
    by (simp add: merge_imports_def merge_loop_skip)
  have over: "fst (merge_imports existing imported True)
      = filter (\<lambda>x. b_name x \<notin> b_name ` set imported) existing @ imported"
    unfolding merge_imports_def by (subst merge_loop_overwrite [OF assms(1)]) auto
  have "distinct (map b_name (fst (merge_imports existing imported overwrite)))"
    using assms skip over
    by (cases overwrite) (auto simp: distinct_map_filter, (metis imageI)+)
  with skip over show ?thesis by blast
qed

lemma merge_replaces_by_name_witness:
  "fst (merge_imports [into_bookmark (new_block ''a'')]
     [into_bookmark ((new_block ''a'')\<lparr>hb_user := Some ''me''\<rparr>)] True)
   = [into_bookmark ((new_block ''a'')\<lparr>hb_user := Some ''me''\<rparr>)]"
proof -
  have name: "b_name (into_bookmark hb) = hb_name hb" for hb :: host_block
    by (simp add: into_bookmark_def Let_def)
  show ?thesis
    using merge_replaces_by_name [of "[into_bookmark ((new_block ''a'')\<lparr>hb_user := Some ''me''\<rparr>)]"
        "[into_bookmark (new_block ''a'')]" True]
    by (simp add: name new_block_def)
qed

text \<open>
   a line is split at its first equals sign even where the directive is separated by a blank,
  so a directive whose value holds an equals sign is not recognised under its name: what comes
  before the sign, blanks and all, is taken for the name.
\<close>

lemma equals_sign_hides_directive:
  assumes "CHR ''='' \<notin> set directive" and "CHR ''='' \<notin> set before"
    and "trim (directive @ '' '' @ before) = directive @ '' '' @ before" and "directive \<noteq> []"
  shows "split_directive (directive @ '' '' @ before @ ''='' @ after)
      = Some (directive @ '' '' @ before, trim after)"
proof -
  have "CHR ''='' \<notin> set (directive @ '' '' @ before)" using assms(1,2) by simp
  from split_once_hit [OF this, of after] assms(3,4) show ?thesis
    by (simp add: split_directive_def)
qed

lemma equals_sign_hides_directive_witness:
  "classify_line ''RemoteCommand LANG=C top'' = Setting_line ''remotecommand lang'' ''C top''"
proof -
  have "split_directive (''RemoteCommand'' @ '' '' @ ''LANG'' @ ''='' @ ''C top'')
      = Some (''RemoteCommand'' @ '' '' @ ''LANG'', trim ''C top'')"
    by (rule equals_sign_hides_directive) code_simp+
  moreover have "trim ''RemoteCommand LANG=C top'' = ''RemoteCommand LANG=C top''"
    "trim ''C top'' = ''C top''" "to_lowercase ''RemoteCommand LANG'' = ''remotecommand lang''"
    "\<not> starts_with ''#'' ''RemoteCommand LANG=C top''" by code_simp+
  ultimately show ?thesis by (simp add: classify_line_def)
qed

end
