(* ===== verification/Sftp_Client.thy ===== *)
theory Sftp_Client
  imports Sftp_Wire
begin

text \<open>
  The SFTP client of \<open>crates/russh-sftp/src/client/\<close>: the table of pending requests, request
  ids, the dispatch of replies (\<open>rawsession.rs\<close>, \<open>mod.rs\<close>), the request methods with their
  limits and handle counter, and the operations of \<open>session.rs\<close> and \<open>fs/\<close> built on them.
\<close>

section \<open>Errors, limits and state\<close>

datatype client_error =
    EStatus u32 status_code rstring rstring
  | EIo string | ETimeout | ELimited string | EUnexpectedPacket | EUnexpectedBehavior string

record limits =
  lim_read_len :: "u64 option"
  lim_write_len :: "u64 option"
  lim_open_handles :: "u64 option"

definition default_limits :: limits where
  "default_limits = \<lparr>lim_read_len = None, lim_write_len = None, lim_open_handles = None\<rparr>"

record limits_extension =
  le_max_packet_len :: u64
  le_max_read_len :: u64
  le_max_write_len :: u64
  le_max_open_handles :: u64

definition limits_from :: "limits_extension \<Rightarrow> limits" where
  "limits_from l =
     (let pos = (\<lambda>v :: u64. if 0 < v then Some v else None)
      in \<lparr>lim_read_len = pos (le_max_read_len l), lim_write_len = pos (le_max_write_len l),
          lim_open_handles = pos (le_max_open_handles l)\<rparr>)"

text \<open>
  \<open>ss_requests\<close> is the shared map from ids to the channel of the waiting call, \<open>ss_waiting\<close> the
  id each suspended call of \<open>send\<close> waits under, \<open>ss_results\<close> what its channel holds, and
  \<open>ss_sent\<close> the frames handed to the writing task.
\<close>

record sftp_client =
  ss_version :: "u32 option"
  ss_requests :: "u32 option \<Rightarrow> nat option"
  ss_waiting :: "nat \<Rightarrow> u32 option option"
  ss_results :: "nat \<Rightarrow> (client_error + packet) option"
  ss_next_id :: u32
  ss_handles :: nat
  ss_limits :: limits
  ss_closed :: bool
  ss_sent :: "packet list"

definition new_session :: sftp_client where
  "new_session =
     \<lparr>ss_version = None, ss_requests = (\<lambda>_. None), ss_waiting = (\<lambda>_. None),
      ss_results = (\<lambda>_. None), ss_next_id = 1, ss_handles = 0, ss_limits = default_limits,
      ss_closed = False, ss_sent = []\<rparr>"

section \<open>Replies\<close>

text \<open>
  \<open>SessionInner::reply\<close>: the sender is taken out of the map before anything is checked.  A call
  that no longer waits has dropped its receiver, so \<open>try_send\<close> fails.
\<close>

definition reply_check :: "u32 option \<Rightarrow> sftp_client \<Rightarrow> client_error + unit" where
  "reply_check i st =
     (if i \<noteq> None \<and> ss_version st = None then Inl EUnexpectedPacket
      else if i = None \<and> ss_version st \<noteq> None
      then Inl (EUnexpectedBehavior ''Duplicate version'')
      else Inr ())"

definition reply ::
  "u32 option \<Rightarrow> packet \<Rightarrow> sftp_client \<Rightarrow> (client_error + unit) \<times> sftp_client" where
  "reply i p st =
     (case ss_requests st i of
        None \<Rightarrow> (Inl (EUnexpectedBehavior ''Packet for unknown recipient''), st)
      | Some w \<Rightarrow>
          (let st1 = st\<lparr>ss_requests := (ss_requests st)(i := None)\<rparr>;
               validate = reply_check i st
           in if ss_waiting st w = None then (Inl (EUnexpectedBehavior ''channel closed''), st1)
              else (validate,
                    st1\<lparr>ss_results := (ss_results st)(w \<mapsto> result_bind validate (\<lambda>_. Inr p))\<rparr>)))"

text \<open>\<open>execute_handler\<close> and the methods of \<open>SessionInner\<close>.\<close>

definition execute_handler :: "packet \<Rightarrow> sftp_client \<Rightarrow> (client_error + unit) \<times> sftp_client" where
  "execute_handler p st =
     (case p of
        Version v ext \<Rightarrow>
          (case reply None p st of
             (Inl e, st') \<Rightarrow> (Inl e, st')
           | (Inr _, st') \<Rightarrow> (Inr (), st'\<lparr>ss_version := Some v\<rparr>))
      | Status i c m t \<Rightarrow> reply (Some i) p st
      | Handle i h \<Rightarrow> reply (Some i) p st
      | Data i d \<Rightarrow> reply (Some i) p st
      | Name i fs \<Rightarrow> reply (Some i) p st
      | Attrs i a \<Rightarrow> reply (Some i) p st
      | ExtendedReply i d \<Rightarrow> reply (Some i) p st
      | _ \<Rightarrow> (Inl (EUnexpectedBehavior ''A packet was received that could not be processed.''), st))"

text \<open>The bytes of one frame: undecodable ones and rejected replies are only logged.\<close>

definition process_frame :: "bytes \<Rightarrow> sftp_client \<Rightarrow> sftp_client" where
  "process_frame bs st =
     (case decode_packet bs of
        Inl e \<Rightarrow> st
      | Inr (p, _) \<Rightarrow> snd (execute_handler p st))"

section \<open>Sending\<close>

text \<open>
  \<open>send\<close> up to its suspension.  Replacing the entry of an id drops the sender of the call that
  waited under it.
\<close>

definition send_begin ::
  "nat \<Rightarrow> u32 option \<Rightarrow> packet \<Rightarrow> sftp_client \<Rightarrow> (client_error + unit) \<times> sftp_client" where
  "send_begin w i p st =
     (if ss_closed st then (Inl (EUnexpectedBehavior ''session closed''), st)
      else
        (let st1 = st\<lparr>ss_requests := (ss_requests st)(i \<mapsto> w)\<rparr>
         in case encode_packet p of
              Inl e \<Rightarrow> (Inl (EUnexpectedBehavior ''encoding''), st1)
            | Inr bs \<Rightarrow>
                (Inr (), st1\<lparr>ss_sent := ss_sent st @ [p], ss_waiting := (ss_waiting st)(w \<mapsto> i)\<rparr>)))"

text \<open>
  The rest of \<open>send\<close>: the received result; the sender dropped; or the time limit.  In the last
  two the entry of the id is removed.
\<close>

datatype wake = Received | SenderDropped | TimedOut

definition sender_dropped :: "nat \<Rightarrow> sftp_client \<Rightarrow> bool" where
  "sender_dropped w st \<longleftrightarrow>
     (case ss_waiting st w of None \<Rightarrow> False | Some i \<Rightarrow> ss_requests st i \<noteq> Some w)
     \<and> ss_results st w = None"

definition send_end ::
  "nat \<Rightarrow> wake \<Rightarrow> sftp_client \<Rightarrow> ((client_error + packet) \<times> sftp_client) option" where
  "send_end w k st =
     (case ss_waiting st w of
        None \<Rightarrow> None
      | Some i \<Rightarrow>
          (let done = st\<lparr>ss_waiting := (ss_waiting st)(w := None),
                         ss_results := (ss_results st)(w := None)\<rparr>;
               removed = done\<lparr>ss_requests := (ss_requests st)(i := None)\<rparr>
           in case k of
                Received \<Rightarrow> map_option (\<lambda>r. (r, done)) (ss_results st w)
              | SenderDropped \<Rightarrow>
                  if sender_dropped w st
                  then Some (Inl (EUnexpectedBehavior ''recv none message''), removed) else None
              | TimedOut \<Rightarrow> if ss_results st w = None then Some (Inl ETimeout, removed) else None))"

text \<open>\<open>use_next_id\<close>: an atomic 32-bit counter that wraps.\<close>

definition use_next_id :: "sftp_client \<Rightarrow> u32 \<times> sftp_client" where
  "use_next_id st = (ss_next_id st, st\<lparr>ss_next_id := ss_next_id st + 1\<rparr>)"

definition close_session :: "sftp_client \<Rightarrow> sftp_client" where
  "close_session st = (if ss_closed st then st else st\<lparr>ss_closed := True\<rparr>)"

section \<open>Requests\<close>

fun is_handle :: "packet \<Rightarrow> bool" where
  "is_handle (Handle i h) = True"
| "is_handle _ = False"

fun is_data :: "packet \<Rightarrow> bool" where
  "is_data (Data i d) = True"
| "is_data _ = False"

fun is_name :: "packet \<Rightarrow> bool" where
  "is_name (Name i fs) = True"
| "is_name _ = False"

fun is_attrs :: "packet \<Rightarrow> bool" where
  "is_attrs (Attrs i a) = True"
| "is_attrs _ = False"

text \<open>The macros \<open>into_with_status\<close> and \<open>into_status\<close>.\<close>

definition into_with_status :: "(packet \<Rightarrow> bool) \<Rightarrow> packet \<Rightarrow> client_error + packet" where
  "into_with_status expected p =
     (if expected p then Inr p
      else case p of Status i c m t \<Rightarrow> Inl (EStatus i c m t) | _ \<Rightarrow> Inl EUnexpectedPacket)"

definition into_status :: "packet \<Rightarrow> client_error + packet" where
  "into_status p =
     (case p of
        Status i c m t \<Rightarrow> if c = Ok then Inr p else Inl (EStatus i c m t)
      | _ \<Rightarrow> Inl EUnexpectedPacket)"

text \<open>
  A request method: the check before an id is taken, the packet for the id, the effect of the
  reply on the handle counter, and what the caller gets.
\<close>

record call =
  call_check :: "sftp_client \<Rightarrow> client_error option"
  call_packet :: "u32 \<Rightarrow> packet"
  call_after :: "packet \<Rightarrow> sftp_client \<Rightarrow> sftp_client"
  call_result :: "packet \<Rightarrow> client_error + packet"

definition plain_call :: "(u32 \<Rightarrow> packet) \<Rightarrow> (packet \<Rightarrow> client_error + packet) \<Rightarrow> call" where
  "plain_call mk res =
     \<lparr>call_check = (\<lambda>_. None), call_packet = mk, call_after = (\<lambda>_ st. st), call_result = res\<rparr>"

definition handle_limit :: "sftp_client \<Rightarrow> client_error option" where
  "handle_limit st =
     (case lim_open_handles (ss_limits st) of
        None \<Rightarrow> None
      | Some h \<Rightarrow> if unat h \<le> ss_handles st then Some (ELimited ''handle limit reached'') else None)"

definition count_handle :: "packet \<Rightarrow> sftp_client \<Rightarrow> sftp_client" where
  "count_handle p st = (if is_handle p then st\<lparr>ss_handles := ss_handles st + 1\<rparr> else st)"

definition length_limit :: "u64 option \<Rightarrow> nat \<Rightarrow> string \<Rightarrow> client_error option" where
  "length_limit lim n msg =
     (case lim of None \<Rightarrow> None | Some m \<Rightarrow> if unat m < n then Some (ELimited msg) else None)"

definition rs_open :: "rstring \<Rightarrow> u32 \<Rightarrow> file_attributes \<Rightarrow> call" where
  "rs_open filename flags attrs =
     \<lparr>call_check = handle_limit, call_packet = (\<lambda>i. Open i filename flags attrs),
      call_after = count_handle, call_result = into_with_status is_handle\<rparr>"

definition rs_close :: "rstring \<Rightarrow> call" where
  "rs_close handle =
     \<lparr>call_check = (\<lambda>_. None), call_packet = (\<lambda>i. Close i handle),
      call_after = (\<lambda>p st. case p of
          Status i c m t \<Rightarrow>
            if c = Ok \<and> 0 < ss_handles st then st\<lparr>ss_handles := ss_handles st - 1\<rparr> else st
        | _ \<Rightarrow> st),
      call_result = into_status\<rparr>"

definition rs_read :: "rstring \<Rightarrow> u64 \<Rightarrow> u32 \<Rightarrow> call" where
  "rs_read handle offset n =
     \<lparr>call_check = (\<lambda>st. length_limit (lim_read_len (ss_limits st)) (unat n) ''read limit reached''),
      call_packet = (\<lambda>i. Read i handle offset n),
      call_after = (\<lambda>_ st. st), call_result = into_with_status is_data\<rparr>"

definition rs_write :: "rstring \<Rightarrow> u64 \<Rightarrow> bytes \<Rightarrow> call" where
  "rs_write handle offset data =
     \<lparr>call_check = (\<lambda>st. length_limit (lim_write_len (ss_limits st)) (length data) ''write limit reached''),
      call_packet = (\<lambda>i. Write i handle offset data),
      call_after = (\<lambda>_ st. st), call_result = into_status\<rparr>"

definition rs_lstat :: "rstring \<Rightarrow> call" where
  "rs_lstat path = plain_call (\<lambda>i. Lstat i path) (into_with_status is_attrs)"

definition rs_fstat :: "rstring \<Rightarrow> call" where
  "rs_fstat handle = plain_call (\<lambda>i. Fstat i handle) (into_with_status is_attrs)"

definition rs_setstat :: "rstring \<Rightarrow> file_attributes \<Rightarrow> call" where
  "rs_setstat path attrs = plain_call (\<lambda>i. SetStat i path attrs) into_status"

definition rs_fsetstat :: "rstring \<Rightarrow> file_attributes \<Rightarrow> call" where
  "rs_fsetstat handle attrs = plain_call (\<lambda>i. FSetStat i handle attrs) into_status"

definition rs_opendir :: "rstring \<Rightarrow> call" where
  "rs_opendir path =
     \<lparr>call_check = (\<lambda>st. case handle_limit st of
          None \<Rightarrow> None | Some _ \<Rightarrow> Some (ELimited ''Handle limit reached'')),
      call_packet = (\<lambda>i. OpenDir i path),
      call_after = count_handle, call_result = into_with_status is_handle\<rparr>"

definition rs_readdir :: "rstring \<Rightarrow> call" where
  "rs_readdir handle = plain_call (\<lambda>i. ReadDir i handle) (into_with_status is_name)"

definition rs_remove :: "rstring \<Rightarrow> call" where
  "rs_remove filename = plain_call (\<lambda>i. Remove i filename) into_status"

definition rs_mkdir :: "rstring \<Rightarrow> file_attributes \<Rightarrow> call" where
  "rs_mkdir path attrs = plain_call (\<lambda>i. MkDir i path attrs) into_status"

definition rs_rmdir :: "rstring \<Rightarrow> call" where
  "rs_rmdir path = plain_call (\<lambda>i. RmDir i path) into_status"

definition rs_realpath :: "rstring \<Rightarrow> call" where
  "rs_realpath path = plain_call (\<lambda>i. RealPath i path) (into_with_status is_name)"

definition rs_stat :: "rstring \<Rightarrow> call" where
  "rs_stat path = plain_call (\<lambda>i. Stat i path) (into_with_status is_attrs)"

definition rs_rename :: "rstring \<Rightarrow> rstring \<Rightarrow> call" where
  "rs_rename oldpath newpath = plain_call (\<lambda>i. Rename i oldpath newpath) into_status"

definition rs_readlink :: "rstring \<Rightarrow> call" where
  "rs_readlink path = plain_call (\<lambda>i. ReadLink i path) (into_with_status is_name)"

definition rs_symlink :: "rstring \<Rightarrow> rstring \<Rightarrow> call" where
  "rs_symlink path target = plain_call (\<lambda>i. Symlink i path target) into_status"

definition rs_extended :: "rstring \<Rightarrow> bytes \<Rightarrow> call" where
  "rs_extended request data = plain_call (\<lambda>i. Extended i request data) Inr"

text \<open>The extensions of \<open>extensions.rs\<close>, serialized as structs of strings.\<close>

definition rs_hardlink :: "rstring \<Rightarrow> rstring \<Rightarrow> call" where
  "rs_hardlink oldpath newpath =
     plain_call (\<lambda>i. Extended i (ascii ''hardlink@openssh.com'') (wire_string oldpath @ wire_string newpath))
       into_status"

definition rs_fsync :: "rstring \<Rightarrow> call" where
  "rs_fsync handle =
     plain_call (\<lambda>i. Extended i (ascii ''fsync@openssh.com'') (wire_string handle)) into_status"

definition de_limits :: "limits_extension de" where
  "de_limits input =
     result_bind (de_u64 input) (\<lambda>(a, r1).
     result_bind (de_u64 r1) (\<lambda>(b, r2).
     result_bind (de_u64 r2) (\<lambda>(c, r3).
     result_bind (de_u64 r3) (\<lambda>(d, r4).
       Inr (\<lparr>le_max_packet_len = a, le_max_read_len = b, le_max_write_len = c,
             le_max_open_handles = d\<rparr>, r4)))))"

definition limits_result :: "packet \<Rightarrow> client_error + limits_extension" where
  "limits_result p =
     (case p of
        ExtendedReply i d \<Rightarrow>
          (case de_limits d of
             Inl e \<Rightarrow> Inl (EUnexpectedBehavior ''decoding'')
           | Inr (l, _) \<Rightarrow> Inr l)
      | Status i c m t \<Rightarrow> if c \<noteq> Ok then Inl (EStatus i c m t) else Inl EUnexpectedPacket
      | _ \<Rightarrow> Inl EUnexpectedPacket)"

definition rs_limits :: call where
  "rs_limits = rs_extended (ascii ''limits@openssh.com'') []"

text \<open>The beginning of a request method: the check, the id, and \<open>send\<close>.\<close>

definition call_begin :: "nat \<Rightarrow> call \<Rightarrow> sftp_client \<Rightarrow> (client_error + unit) \<times> sftp_client" where
  "call_begin w c st =
     (case call_check c st of
        Some e \<Rightarrow> (Inl e, st)
      | None \<Rightarrow>
          (case use_next_id st of
             (i, st1) \<Rightarrow> send_begin w (Some i) (call_packet c i) st1))"

definition call_end ::
  "call \<Rightarrow> (client_error + packet) \<times> sftp_client \<Rightarrow> (client_error + packet) \<times> sftp_client" where
  "call_end c x =
     (case x of
        (Inl e, st) \<Rightarrow> (Inl e, st)
      | (Inr p, st) \<Rightarrow> (call_result c p, call_after c p st))"

section \<open>Concurrent calls\<close>

text \<open>
  Any number of calls run at once.  The index counts the request ids that were used.  A frame
  may hold any bytes; a suspended call may be woken by its result, by the loss of its sender or
  by the time limit, whichever applies.  What the methods do after that changes the handle
  counter only, and \<open>set_limits\<close> the limits (\<open>run_settings\<close>).
\<close>

inductive client_run :: "nat \<Rightarrow> sftp_client \<Rightarrow> bool" where
  run_new: "client_run 0 new_session"
| run_init: "client_run n st \<Longrightarrow> ss_waiting st w = None \<Longrightarrow> \<not> ss_closed st \<Longrightarrow>
    client_run n (snd (send_begin w None init_new st))"
| run_begin: "client_run n st \<Longrightarrow> ss_waiting st w = None \<Longrightarrow> call_check c st = None \<Longrightarrow>
    client_run (Suc n) (snd (call_begin w c st))"
| run_frame: "client_run n st \<Longrightarrow> client_run n (process_frame bs st)"
| run_end: "client_run n st \<Longrightarrow> send_end w k st = Some (r, st') \<Longrightarrow> client_run n st'"
| run_close: "client_run n st \<Longrightarrow> client_run n (close_session st)"
| run_settings: "client_run n st \<Longrightarrow> client_run n (st\<lparr>ss_handles := h, ss_limits := l\<rparr>)"


fun reply_id :: "packet \<Rightarrow> u32 option option" where
  "reply_id (Version v ext) = Some None"
| "reply_id (Status i c m t) = Some (Some i)"
| "reply_id (Handle i h) = Some (Some i)"
| "reply_id (Data i d) = Some (Some i)"
| "reply_id (Name i fs) = Some (Some i)"
| "reply_id (Attrs i a) = Some (Some i)"
| "reply_id (ExtendedReply i d) = Some (Some i)"
| "reply_id _ = None"

lemma execute_handler_step:
  "execute_handler p st = (r, st') \<Longrightarrow>
     reply_id p = None \<and> st' = st
     \<or> (\<exists>i r' s. reply_id p = Some i \<and> reply i p st = (r', s)
          \<and> (st' = s \<or> (\<exists>v. st' = s\<lparr>ss_version := v\<rparr>)))"
  by (cases p) (auto simp: execute_handler_def split: prod.splits sum.splits)

lemma encode_total: "\<exists>bs. encode_packet p = Inr bs"
  by (simp add: encode_packet_eq)

definition routing_inv :: "sftp_client \<Rightarrow> bool" where
  "routing_inv st \<longleftrightarrow>
     (\<forall>i w. ss_requests st i = Some w \<longrightarrow> ss_waiting st w = Some i \<and> ss_results st w = None)
     \<and> (\<forall>w p. ss_results st w = Some (Inr p) \<longrightarrow>
          (\<exists>i. ss_waiting st w = Some i \<and> reply_id p = Some i))
     \<and> (\<forall>w. ss_waiting st w = None \<longrightarrow> ss_results st w = None)"

text \<open>The id of the \<open>k\<close>-th request.\<close>

definition req_id :: "nat \<Rightarrow> u32" where
  "req_id k = word_of_nat (k + 1)"

lemma req_id_Suc: "req_id n + 1 = req_id (Suc n)"
  by (simp add: req_id_def)

lemma req_id_distinct:
  assumes "k < n" "n < 2 ^ 32"
  shows "req_id k \<noteq> req_id n"
proof
  assume "req_id k = req_id n"
  then have "unat (req_id k) = unat (req_id n)" by simp
  then have "(k + 1) mod 2 ^ LENGTH(32) = (n + 1) mod 2 ^ LENGTH(32)"
    by (simp only: req_id_def unat_of_nat)
  then have "(k + 1) mod 4294967296 = (n + 1) mod 4294967296" by simp
  moreover have "(k + 1) mod 4294967296 = k + 1" using assms by simp
  ultimately show False using assms by (cases "n + 1 = 4294967296") simp_all
qed

definition ids_inv :: "nat \<Rightarrow> sftp_client \<Rightarrow> bool" where
  "ids_inv n st \<longleftrightarrow>
     ss_next_id st = req_id n
     \<and> (\<forall>w i. ss_waiting st w = Some (Some i) \<longrightarrow> (\<exists>k < n. i = req_id k))
     \<and> (n \<le> 2 ^ 32 \<longrightarrow>
          (\<forall>w w' i. ss_waiting st w = Some (Some i) \<longrightarrow> ss_waiting st w' = Some (Some i) \<longrightarrow> w = w')
          \<and> (\<forall>w i. ss_waiting st w = Some (Some i) \<longrightarrow> ss_results st w = None \<longrightarrow>
               ss_requests st (Some i) = Some w))"

lemma reply_inv:
  assumes "routing_inv st" "ids_inv n st" "reply_id p = Some i" "reply i p st = (r, st')"
  shows "routing_inv st' \<and> ids_inv n st'"
proof (cases "ss_requests st i")
  case None
  with assms show ?thesis by (simp add: reply_def)
next
  case (Some w)
  with assms(1) have w: "ss_waiting st w = Some i" "ss_results st w = None"
    by (auto simp: routing_inv_def)
  define x where "x = result_bind (reply_check i st) (\<lambda>_. Inr p)"
  have x: "x = Inr p \<or> (\<exists>e. x = Inl e)"
    by (cases "reply_check i st") (simp_all add: x_def)
  have st': "st' = st\<lparr>ss_requests := (ss_requests st)(i := None), ss_results := (ss_results st)(w \<mapsto> x)\<rparr>"
    using assms(4) Some w(1) unfolding reply_def x_def Let_def by auto
  have other: "w' \<noteq> w" if "ss_requests st i' = Some w'" "i' \<noteq> i" for i' w'
    using assms(1) that w(1) by (auto simp: routing_inv_def)
  have "routing_inv st'"
    using assms(1,3) w x other unfolding routing_inv_def st' by (auto split: if_splits)
  moreover have "ids_inv n st'"
    using assms(2) w unfolding ids_inv_def st' by (auto split: if_splits)
  ultimately show ?thesis by blast
qed

lemma routing_inv_other [simp]:
  "routing_inv (st\<lparr>ss_version := v\<rparr>) = routing_inv st"
  "routing_inv (st\<lparr>ss_closed := b\<rparr>) = routing_inv st"
  "routing_inv (st\<lparr>ss_handles := h, ss_limits := l\<rparr>) = routing_inv st"
  by (simp_all add: routing_inv_def)

lemma ids_inv_other [simp]:
  "ids_inv n (st\<lparr>ss_version := v\<rparr>) = ids_inv n st"
  "ids_inv n (st\<lparr>ss_closed := b\<rparr>) = ids_inv n st"
  "ids_inv n (st\<lparr>ss_handles := h, ss_limits := l\<rparr>) = ids_inv n st"
  by (simp_all add: ids_inv_def)

lemma execute_handler_inv:
  assumes "routing_inv st" "ids_inv n st"
  shows "routing_inv (snd (execute_handler p st)) \<and> ids_inv n (snd (execute_handler p st))"
proof -
  obtain r st' where e: "execute_handler p st = (r, st')" by (metis prod.exhaust)
  from execute_handler_step [OF e] show ?thesis
    using assms e reply_inv [OF assms] by auto
qed

text \<open>A call that begins is registered under its own fresh id.\<close>

lemma send_begin_open:
  "\<not> ss_closed st \<Longrightarrow>
     send_begin w i p st = (Inr (), st\<lparr>ss_requests := (ss_requests st)(i \<mapsto> w),
       ss_sent := ss_sent st @ [p], ss_waiting := (ss_waiting st)(w \<mapsto> i)\<rparr>)"
  using encode_total [of p] by (auto simp: send_begin_def Let_def)

lemma send_begin_routing:
  assumes "routing_inv st" "ss_waiting st w = None"
  shows "routing_inv (snd (send_begin w i p st))"
proof (cases "ss_closed st")
  case True
  with assms show ?thesis by (simp add: send_begin_def)
next
  case False
  have "ss_requests st j \<noteq> Some w" for j using assms by (auto simp: routing_inv_def)
  with assms show ?thesis unfolding send_begin_open [OF False] routing_inv_def by auto
qed

lemma send_begin_ids:
  assumes "ids_inv n st" "ss_waiting st w = None"
  shows "ids_inv n (snd (send_begin w None p st))
    \<and> ids_inv (Suc n) (snd (send_begin w (Some (req_id n)) p (st\<lparr>ss_next_id := req_id (Suc n)\<rparr>)))"
proof (cases "ss_closed st")
  case True
  have "ids_inv (Suc n) (st\<lparr>ss_next_id := req_id (Suc n)\<rparr>)"
    using assms(1) unfolding ids_inv_def by (auto simp: less_Suc_eq)
  with True assms show ?thesis by (simp add: send_begin_def)
next
  case False
  then have nc: "\<not> ss_closed (st\<lparr>ss_next_id := req_id (Suc n)\<rparr>)" by simp
  have old: "\<exists>k < n. j = req_id k" if "ss_waiting st v = Some (Some j)" for v j
    using assms(1) that by (simp add: ids_inv_def)
  have fresh: "ss_waiting st v \<noteq> Some (Some (req_id n))" if "Suc n \<le> 2 ^ 32" for v
    using old [of v "req_id n"] req_id_distinct [of _ n] that by fastforce
  have "ids_inv n (snd (send_begin w None p st))"
    using assms unfolding send_begin_open [OF False] ids_inv_def by (auto split: if_splits)
  moreover have "ids_inv (Suc n) (snd (send_begin w (Some (req_id n)) p (st\<lparr>ss_next_id := req_id (Suc n)\<rparr>)))"
    (is "ids_inv _ ?S")
  proof -
    let ?wait = "(ss_waiting st)(w \<mapsto> Some (req_id n))"
    have "\<exists>k < Suc n. j = req_id k" if "?wait v = Some (Some j)" for v j
      using that old [of v j] by (cases "v = w") (auto simp: less_Suc_eq)
    moreover have "v = v'"
      if "Suc n \<le> 2 ^ 32" "?wait v = Some (Some j)" "?wait v' = Some (Some j)" for v v' j
    proof (cases "j = req_id n")
      case True
      with that fresh [OF that(1)] show ?thesis by (auto split: if_splits)
    next
      case False
      with that have "ss_waiting st v = Some (Some j)" "ss_waiting st v' = Some (Some j)"
        by (auto split: if_splits)
      with that(1) assms(1) show ?thesis by (simp add: ids_inv_def)
    qed
    moreover have "((ss_requests st)(Some (req_id n) \<mapsto> w)) (Some j) = Some v"
      if "Suc n \<le> 2 ^ 32" "?wait v = Some (Some j)" "ss_results st v = None" for v j
    proof (cases "v = w")
      case True
      with that show ?thesis by simp
    next
      case False
      with that fresh [OF that(1), of v] assms(1) show ?thesis by (auto simp: ids_inv_def)
    qed
    moreover have sel: "ss_next_id ?S = req_id (Suc n)" "ss_waiting ?S = ?wait"
      "ss_requests ?S = (ss_requests st)(Some (req_id n) \<mapsto> w)" "ss_results ?S = ss_results st"
      by (simp_all add: send_begin_open [OF nc])
    ultimately show ?thesis unfolding ids_inv_def sel by blast
  qed
  ultimately show ?thesis by blast
qed

lemma call_begin_inv:
  assumes "routing_inv st" "ids_inv n st" "ss_waiting st w = None" "call_check c st = None"
  shows "routing_inv (snd (call_begin w c st)) \<and> ids_inv (Suc n) (snd (call_begin w c st))"
proof -
  have n: "ss_next_id st = req_id n" using assms(2) by (simp add: ids_inv_def)
  have "routing_inv (st\<lparr>ss_next_id := req_id (Suc n)\<rparr>)" using assms(1) by (simp add: routing_inv_def)
  then show ?thesis
    using send_begin_ids [OF assms(2,3)] send_begin_routing [of "st\<lparr>ss_next_id := req_id (Suc n)\<rparr>" w] assms(3,4)
    by (simp add: call_begin_def use_next_id_def n req_id_Suc)
qed

text \<open>A call that ends leaves nothing behind.\<close>

lemma send_end_inv:
  assumes "routing_inv st" "ids_inv n st" "send_end w k st = Some (r, st')"
  shows "routing_inv st' \<and> ids_inv n st'"
proof -
  obtain i where i: "ss_waiting st w = Some i"
    using assms(3) by (auto simp: send_end_def split: option.splits)
  let ?done = "st\<lparr>ss_waiting := (ss_waiting st)(w := None), ss_results := (ss_results st)(w := None)\<rparr>"
  have st': "st' = ?done \<and> ss_results st w \<noteq> None
      \<or> st' = ?done\<lparr>ss_requests := (ss_requests st)(i := None)\<rparr> \<and> ss_results st w = None"
    using assms(3) i
    by (cases k) (auto simp: send_end_def Let_def sender_dropped_def split: if_splits)
  have "routing_inv st'"
    using assms(1) i st' unfolding routing_inv_def by (elim disjE conjE) (auto split: if_splits)
  moreover have "ids_inv n st'"
  proof (cases "ss_results st w = None")
    case False
    with st' have "st' = ?done" by blast
    with assms(2) show ?thesis unfolding ids_inv_def by (auto split: if_splits)
  next
    case True
    with st' have e: "st' = ?done\<lparr>ss_requests := (ss_requests st)(i := None)\<rparr>" by blast
    have "v = w" if "n \<le> 2 ^ 32" "ss_waiting st v = Some (Some j)" "i = Some j" for v j
      using assms(2) that i by (auto simp: ids_inv_def)
    with assms(2) show ?thesis unfolding ids_inv_def e by (auto split: if_splits)
  qed
  ultimately show ?thesis by blast
qed

lemma process_frame_inv:
  "routing_inv st \<Longrightarrow> ids_inv n st \<Longrightarrow>
     routing_inv (process_frame bs st) \<and> ids_inv n (process_frame bs st)"
  using execute_handler_inv by (auto simp: process_frame_def split: sum.split)

lemma client_run_inv:
  "client_run n st \<Longrightarrow> routing_inv st \<and> ids_inv n st"
proof (induction rule: client_run.induct)
  case run_new
  then show ?case by (simp add: routing_inv_def ids_inv_def new_session_def req_id_def)
next
  case (run_init n st w)
  then show ?case using send_begin_routing send_begin_ids by blast
next
  case (run_begin n st w c)
  then show ?case using call_begin_inv by blast
next
  case (run_frame n st bs)
  then show ?case using process_frame_inv by blast
next
  case (run_end n st w k r st')
  then show ?case using send_end_inv by blast
next
  case (run_close n st)
  then show ?case by (simp add: close_session_def)
next
  case (run_settings n st h l)
  then show ?case by simp
qed

section \<open>Properties\<close>

lemma reply_delivers:
  assumes "ss_requests st i = Some w" "ss_waiting st w = Some i" "reply_check i st = Inr ()"
  shows "reply i p st = (Inr (), st\<lparr>ss_requests := (ss_requests st)(i := None),
     ss_results := (ss_results st)(w \<mapsto> Inr p)\<rparr>)"
  using assms by (simp add: reply_def Let_def)

lemma execute_reply:
  "reply_id p = Some (Some i) \<Longrightarrow> execute_handler p st = reply (Some i) p st"
  by (cases p) (simp_all add: execute_handler_def)

lemma waiting_call_returns_reply:
  assumes "client_run n st" "n \<le> 2 ^ 32" "ss_waiting st w = Some (Some i)" "ss_results st w = None"
    "ss_version st \<noteq> None" "decode_packet bs = Inr (q, rest)" "reply_id q = Some (Some i)"
  shows "\<exists>st'. send_end w Received (process_frame bs st) = Some (Inr q, st')"
proof -
  from client_run_inv [OF assms(1)] have "ids_inv n st" by auto
  then have r: "ss_requests st (Some i) = Some w" using assms(2-4) by (simp add: ids_inv_def)
  have "reply_check (Some i) st = Inr ()" using assms(5) by (simp add: reply_check_def)
  from reply_delivers [OF r assms(3) this, of q]
  show ?thesis using assms(3,6,7) by (simp add: process_frame_def execute_reply send_end_def Let_def)
qed

text \<open>C25:
  Whatever calls overlap and whatever bytes arrive: the packet a waiting call finds carries the
  id of that call; while at most \<open>2 ^ 32\<close> ids were used no two waiting calls share one, a
  waiting call keeps its sender, and a decodable reply with its id is what the call returns.\<close>

theorem pending_calls_isolated:
  assumes "client_run n st"
  shows "(ss_results st w = Some (Inr p) \<longrightarrow> (\<exists>i. ss_waiting st w = Some i \<and> reply_id p = Some i))
    \<and> (n \<le> 2 ^ 32 \<and> ss_waiting st w = Some (Some i) \<longrightarrow>
         (ss_waiting st w' = Some (Some i) \<longrightarrow> w' = w) \<and> \<not> sender_dropped w st
         \<and> (ss_results st w = None \<and> ss_version st \<noteq> None \<and> decode_packet bs = Inr (q, rest)
              \<and> reply_id q = Some (Some i) \<longrightarrow>
            (\<exists>st'. send_end w Received (process_frame bs st) = Some (Inr q, st'))))"
proof -
  from client_run_inv [OF assms] have inv: "routing_inv st" "ids_inv n st" by auto
  have "w' = w" if "n \<le> 2 ^ 32" "ss_waiting st w = Some (Some i)" "ss_waiting st w' = Some (Some i)"
    using inv(2) that by (auto simp: ids_inv_def)
  moreover have r: "ss_requests st (Some i) = Some w"
    if "n \<le> 2 ^ 32" "ss_waiting st w = Some (Some i)" "ss_results st w = None"
    using inv(2) that by (simp add: ids_inv_def)
  moreover have "\<exists>st'. send_end w Received (process_frame bs st) = Some (Inr q, st')"
    if "n \<le> 2 ^ 32" "ss_waiting st w = Some (Some i)" "ss_results st w = None" "ss_version st \<noteq> None"
      "decode_packet bs = Inr (q, rest)" "reply_id q = Some (Some i)"
    using waiting_call_returns_reply [OF assms that] .
  moreover have "ss_results st w = Some (Inr p) \<longrightarrow> (\<exists>i. ss_waiting st w = Some i \<and> reply_id p = Some i)"
    using inv(1) by (auto simp: routing_inv_def)
  ultimately show ?thesis by (auto simp: sender_dropped_def)
qed

theorem pending_calls_isolated_witness:
  "ss_waiting (snd (call_begin 7 (rs_stat []) new_session)) 7 = Some (Some 1)
   \<and> \<not> sender_dropped 7 (snd (call_begin 7 (rs_stat []) new_session))"
proof -
  have "client_run 1 (snd (call_begin 7 (rs_stat []) new_session))"
    using run_begin [OF run_new, of 7 "rs_stat []"]
    by (simp add: new_session_def rs_stat_def plain_call_def)
  moreover have "ss_waiting (snd (call_begin 7 (rs_stat []) new_session)) 7 = Some (Some 1)"
    using send_begin_open [of "new_session\<lparr>ss_next_id := 2\<rparr>"]
    by (simp add: call_begin_def use_next_id_def rs_stat_def plain_call_def new_session_def)
  ultimately show ?thesis
    using pending_calls_isolated [of 1 "snd (call_begin 7 (rs_stat []) new_session)" 7 _ 1] by simp
qed

text \<open>
  A reply that comes after its call has timed out reaches nobody: it changes nothing.\<close>

lemma late_reply_is_ignored:
  assumes "client_run n st" "ss_waiting st w = Some i" "send_end w TimedOut st = Some (r, st')"
    "decode_packet bs = Inr (p, rest)" "reply_id p = Some i"
  shows "r = Inl ETimeout \<and> process_frame bs st' = st'"
proof -
  have e: "r = Inl ETimeout" "ss_requests st' i = None"
    using assms(2,3) by (auto simp: send_end_def Let_def split: if_splits)
  then have "reply i p st' = (Inl (EUnexpectedBehavior ''Packet for unknown recipient''), st')"
    by (simp add: reply_def)
  then have "execute_handler p st' = (Inl (EUnexpectedBehavior ''Packet for unknown recipient''), st')"
    using assms(5) by (cases p) (simp_all add: execute_handler_def)
  with e(1) assms(4) show ?thesis by (simp add: process_frame_def)
qed

lemma late_reply_is_ignored_witness:
  "\<exists>r st'. send_end 7 TimedOut (snd (call_begin 7 (rs_stat []) new_session)) = Some (r, st')
    \<and> r = Inl ETimeout \<and> process_frame [103, 0, 0, 0, 1, 0, 0, 0, 0] st' = st'"
proof -
  have run: "client_run 1 (snd (call_begin 7 (rs_stat []) new_session))"
    using run_begin [OF run_new, of 7 "rs_stat []"]
    by (simp add: new_session_def rs_stat_def plain_call_def)
  have w: "ss_waiting (snd (call_begin 7 (rs_stat []) new_session)) 7 = Some (Some 1)"
    "ss_results (snd (call_begin 7 (rs_stat []) new_session)) 7 = None"
    using send_begin_open [of "new_session\<lparr>ss_next_id := 2\<rparr>"]
    by (simp_all add: call_begin_def use_next_id_def rs_stat_def plain_call_def new_session_def)
  have d: "decode_packet [103, 0, 0, 0, 1, 0, 0, 0, 0] = Inr (Data 1 [], [])"
    by code_simp
  obtain r st' where e: "send_end 7 TimedOut (snd (call_begin 7 (rs_stat []) new_session)) = Some (r, st')"
    using w by (simp add: send_end_def Let_def)
  from late_reply_is_ignored [OF run w(1) e d] e show ?thesis by simp
qed

text \<open>
  After the counter has wrapped, an id that is still waited for is taken away from its call, and
  that call, when it wakes up, removes the entry of the new one: both fail.
\<close>

lemma wrapped_id_fails_both_calls:
  assumes "\<not> ss_closed st" "ss_waiting st w = Some (Some i)" "ss_results st w = None" "w' \<noteq> w"
    "ss_waiting st w' = None" "ss_results st w' = None"
  shows "let st1 = snd (send_begin w' (Some i) p st) in
     sender_dropped w st1
     \<and> (\<forall>r st2. send_end w SenderDropped st1 = Some (r, st2) \<longrightarrow> sender_dropped w' st2)"
  using assms by (auto simp: send_begin_open Let_def sender_dropped_def send_end_def)

text \<open>The limit on open handles is checked before the request and counted after the reply.\<close>

lemma overlapping_opens_pass_the_limit:
  assumes "handle_limit st = None" "\<not> ss_closed st"
  shows "call_check (rs_open f fl a) (snd (call_begin w (rs_open g fl' b) st)) = None"
proof -
  have "\<not> ss_closed (st\<lparr>ss_next_id := ss_next_id st + 1\<rparr>)" using assms(2) by simp
  from send_begin_open [OF this] assms show ?thesis
    by (auto simp: rs_open_def call_begin_def use_next_id_def handle_limit_def
        split: option.splits if_splits)
qed

end
