(* ===== verification/Sftp_Session.thy ===== *)
theory Sftp_Session
  imports Sftp_Client
begin

text \<open>
  The operations of \<open>client/session.rs\<close>, \<open>client/fs/\<close> and \<open>server/mod.rs\<close>: sequences of
  requests whose outcomes are given by a script, one entry for each request that is sent; the
  directory iterator; the position of an open file; and the server's answer to a frame.
\<close>

section \<open>One request of a sequence\<close>

text \<open>
  \<open>None\<close> means that the call still waits.  The script holds the results of \<open>send\<close>: errors,
  among them the time limit, and reply packets of any kind.
\<close>

type_synonym env = "sftp_client \<times> (client_error + packet) list"
type_synonym 'a op = "env \<Rightarrow> ((client_error + 'a) \<times> env) option"

definition forget_call :: "u32 \<Rightarrow> sftp_client \<Rightarrow> sftp_client" where
  "forget_call i st =
     st\<lparr>ss_waiting := (ss_waiting st)(0 := None), ss_requests := (ss_requests st)(Some i := None)\<rparr>"

definition invoke :: "call \<Rightarrow> packet op" where
  "invoke c e =
     (case e of (st, script) \<Rightarrow>
        (case call_begin 0 c st of
           (Inl err, st1) \<Rightarrow> Some (Inl err, (st1, script))
         | (Inr _, st1) \<Rightarrow>
             (case script of
                [] \<Rightarrow> None
              | r # rs \<Rightarrow>
                  (case call_end c (r, forget_call (ss_next_id st) st1) of
                     (res, st2) \<Rightarrow> Some (res, (st2, rs))))))"

text \<open>The \<open>?\<close> operator over operations, and their success values.\<close>

definition op_bind :: "'a op \<Rightarrow> ('a \<Rightarrow> 'b op) \<Rightarrow> 'b op" where
  "op_bind m f e =
     (case m e of
        None \<Rightarrow> None
      | Some (Inl err, e') \<Rightarrow> Some (Inl err, e')
      | Some (Inr x, e') \<Rightarrow> f x e')"

definition op_return :: "'a \<Rightarrow> 'a op" where
  "op_return x e = Some (Inr x, e)"

definition op_fail :: "client_error \<Rightarrow> 'a op" where
  "op_fail err e = Some (Inl err, e)"

section \<open>Operations of a session\<close>

fun names_of :: "packet \<Rightarrow> sftp_file list" where
  "names_of (Name i fs) = fs"
| "names_of _ = []"

fun handle_of :: "packet \<Rightarrow> rstring" where
  "handle_of (Handle i h) = h"
| "handle_of _ = []"

fun attrs_of :: "packet \<Rightarrow> file_attributes" where
  "attrs_of (Attrs i a) = a"
| "attrs_of _ = empty_attrs"

definition first_name :: "packet \<Rightarrow> rstring op" where
  "first_name p =
     (case names_of p of
        [] \<Rightarrow> op_fail (EUnexpectedBehavior ''no file'')
      | f # _ \<Rightarrow> op_return (file_name f))"

definition canonicalize :: "rstring \<Rightarrow> rstring op" where
  "canonicalize path = op_bind (invoke (rs_realpath path)) first_name"

definition read_link :: "rstring \<Rightarrow> rstring op" where
  "read_link path = op_bind (invoke (rs_readlink path)) first_name"

definition path_metadata :: "rstring \<Rightarrow> file_attributes op" where
  "path_metadata path = op_bind (invoke (rs_stat path)) (\<lambda>p. op_return (attrs_of p))"

definition symlink_metadata :: "rstring \<Rightarrow> file_attributes op" where
  "symlink_metadata path = op_bind (invoke (rs_lstat path)) (\<lambda>p. op_return (attrs_of p))"

definition set_metadata :: "rstring \<Rightarrow> file_attributes \<Rightarrow> unit op" where
  "set_metadata path m = op_bind (invoke (rs_setstat path m)) (\<lambda>_. op_return ())"

definition create_dir :: "rstring \<Rightarrow> unit op" where
  "create_dir path = op_bind (invoke (rs_mkdir path empty_attrs)) (\<lambda>_. op_return ())"

definition remove_dir :: "rstring \<Rightarrow> unit op" where
  "remove_dir path = op_bind (invoke (rs_rmdir path)) (\<lambda>_. op_return ())"

definition remove_file :: "rstring \<Rightarrow> unit op" where
  "remove_file path = op_bind (invoke (rs_remove path)) (\<lambda>_. op_return ())"

definition rename_path :: "rstring \<Rightarrow> rstring \<Rightarrow> unit op" where
  "rename_path old new = op_bind (invoke (rs_rename old new)) (\<lambda>_. op_return ())"

definition try_exists :: "rstring \<Rightarrow> bool op" where
  "try_exists path e =
     (case path_metadata path e of
        None \<Rightarrow> None
      | Some (Inr _, e') \<Rightarrow> Some (Inr True, e')
      | Some (Inl (EStatus i c m t), e') \<Rightarrow>
          if c = NoSuchFile then Some (Inr False, e') else Some (Inl (EStatus i c m t), e')
      | Some (Inl err, e') \<Rightarrow> Some (Inl err, e'))"

text \<open>
  \<open>read_dir\<close>: the pages of the listing, each put before the earlier ones, until the server
  says \<open>Eof\<close>; only then is the handle closed.
\<close>

type_synonym entry = "rstring \<times> file_attributes"

definition page_entries :: "packet \<Rightarrow> entry list" where
  "page_entries p = map (\<lambda>f. (file_name f, file_attrs f)) (names_of p)"

fun is_eof :: "client_error \<Rightarrow> bool" where
  "is_eof (EStatus i c m t) = (c = Eof)"
| "is_eof _ = False"

lemma invoke_consumes:
  "call_check c st = None \<Longrightarrow> invoke c (st, script) = Some (r, (st', script')) \<Longrightarrow>
     \<not> ss_closed st \<Longrightarrow> length script' < length script"
  by (cases script)
     (auto simp: invoke_def call_begin_def use_next_id_def send_begin_open split: prod.splits)

text \<open>The loop takes as fuel the length of the script: every round uses one entry of it.\<close>

fun read_dir_loop :: "nat \<Rightarrow> rstring \<Rightarrow> entry list \<Rightarrow> entry list op" where
  "read_dir_loop 0 h files e = None"
| "read_dir_loop (Suc n) h files e =
     (case invoke (rs_readdir h) e of
        None \<Rightarrow> None
      | Some (Inr p, e') \<Rightarrow> read_dir_loop n h (page_entries p @ files) e'
      | Some (Inl err, e') \<Rightarrow> if is_eof err then Some (Inr files, e') else Some (Inl err, e'))"

definition read_dir :: "rstring \<Rightarrow> entry list op" where
  "read_dir path =
     op_bind (invoke (rs_opendir path)) (\<lambda>p.
     op_bind (\<lambda>e. read_dir_loop (Suc (length (snd e))) (handle_of p) [] e) (\<lambda>files.
     op_bind (invoke (rs_close (handle_of p))) (\<lambda>_. op_return files)))"

text \<open>The iterator skips the entries for the directory itself and its parent.\<close>

fun read_dir_next :: "entry list \<Rightarrow> (entry \<times> entry list) option" where
  "read_dir_next [] = None"
| "read_dir_next (x # xs) =
     (if fst x = ascii ''.'' \<or> fst x = ascii ''..'' then read_dir_next xs else Some (x, xs))"

lemma read_dir_next_shorter:
  "read_dir_next xs = Some (x, ys) \<Longrightarrow> length ys < length xs"
  by (induction xs) (auto split: if_splits)

function read_dir_collect :: "entry list \<Rightarrow> entry list" where
  "read_dir_collect xs =
     (case read_dir_next xs of None \<Rightarrow> [] | Some (x, ys) \<Rightarrow> x # read_dir_collect ys)"
  by pat_completeness auto

termination
  by (relation "measure length") (auto dest: read_dir_next_shorter)

declare read_dir_collect.simps [simp del]

section \<open>New sessions\<close>

record extension_flags =
  ext_hardlink :: bool
  ext_fsync :: bool
  ext_statvfs :: bool
  ext_limits :: "limits option"

definition ext_is :: "hashmap \<Rightarrow> string \<Rightarrow> string \<Rightarrow> bool" where
  "ext_is m k v = (map_of m (ascii k) = Some (ascii v))"

text \<open>\<open>SftpSession::new_opts\<close> after the version packet has arrived.\<close>

definition limits_call :: "limits_extension op" where
  "limits_call = op_bind (invoke rs_limits) (\<lambda>p e. Some (limits_result p, e))"

definition new_opts :: "hashmap \<Rightarrow> extension_flags op" where
  "new_opts ext =
     (let flags = \<lparr>ext_hardlink = ext_is ext ''hardlink@openssh.com'' ''1'',
                   ext_fsync = ext_is ext ''fsync@openssh.com'' ''1'',
                   ext_statvfs = ext_is ext ''statvfs@openssh.com'' ''2'', ext_limits = None\<rparr>
      in if ext_is ext ''limits@openssh.com'' ''1'' then
           op_bind limits_call (\<lambda>l (st, script).
             Some (Inr (flags\<lparr>ext_limits := Some (limits_from l)\<rparr>),
                   (st\<lparr>ss_limits := limits_from l\<rparr>, script)))
         else op_return flags)"

definition hardlink :: "extension_flags \<Rightarrow> rstring \<Rightarrow> rstring \<Rightarrow> bool op" where
  "hardlink ext old new =
     (if \<not> ext_hardlink ext then op_return False
      else op_bind (invoke (rs_hardlink old new)) (\<lambda>_. op_return True))"

section \<open>Open files\<close>

record sftp_handle =
  fh_handle :: rstring
  fh_pos :: u64

definition MAX_READ_LENGTH :: nat where "MAX_READ_LENGTH = 261120"
definition MAX_WRITE_LENGTH :: nat where "MAX_WRITE_LENGTH = 261120"

text \<open>
  \<open>poll_read\<close> of a whole request into a buffer with \<open>room\<close> bytes.  \<open>put_slice\<close> panics when the
  server sends more than fits.
\<close>

datatype read_outcome = ReadBytes bytes sftp_handle | ReadFails client_error | ReadPanics

definition file_read_len :: "extension_flags \<Rightarrow> nat \<Rightarrow> nat" where
  "file_read_len ext room =
     min room (case ext_limits ext of
         Some l \<Rightarrow> (case lim_read_len l of Some r \<Rightarrow> unat r | None \<Rightarrow> MAX_READ_LENGTH)
       | None \<Rightarrow> MAX_READ_LENGTH)"

fun data_of :: "packet \<Rightarrow> bytes" where
  "data_of (Data i d) = d"
| "data_of _ = []"

definition file_read ::
  "extension_flags \<Rightarrow> nat \<Rightarrow> sftp_handle \<Rightarrow> env \<Rightarrow> (read_outcome \<times> env) option" where
  "file_read ext room f e =
     (case invoke (rs_read (fh_handle f) (fh_pos f) (word_of_nat (file_read_len ext room))) e of
        None \<Rightarrow> None
      | Some (Inr p, e') \<Rightarrow>
          if room < length (data_of p) then Some (ReadPanics, e')
          else Some (ReadBytes (data_of p)
                 (f\<lparr>fh_pos := fh_pos f + word_of_nat (length (data_of p))\<rparr>), e')
      | Some (Inl err, e') \<Rightarrow>
          if is_eof err then Some (ReadBytes [] f, e') else Some (ReadFails err, e'))"

definition file_write_len :: "extension_flags \<Rightarrow> nat \<Rightarrow> nat" where
  "file_write_len ext n =
     min n (case ext_limits ext of
         Some l \<Rightarrow> (case lim_write_len l of Some w \<Rightarrow> unat w | None \<Rightarrow> MAX_WRITE_LENGTH)
       | None \<Rightarrow> MAX_WRITE_LENGTH)"

definition file_write ::
  "extension_flags \<Rightarrow> bytes \<Rightarrow> sftp_handle \<Rightarrow> (nat \<times> sftp_handle) op" where
  "file_write ext bs f =
     (let n = file_write_len ext (length bs)
      in op_bind (invoke (rs_write (fh_handle f) (fh_pos f) (take n bs))) (\<lambda>_.
           op_return (n, f\<lparr>fh_pos := fh_pos f + word_of_nat n\<rparr>)))"

text \<open>\<open>start_seek\<close> and \<open>poll_complete\<close>: positions are signed 64-bit numbers on the way.\<close>

datatype seek_from = SeekStart u64 | SeekCurrent "64 word" | SeekEnd "64 word"

definition seek_to :: "64 word \<Rightarrow> sftp_handle \<Rightarrow> sftp_handle op" where
  "seek_to p f =
     (if sint p < 0 then op_fail (EIo ''cannot move file pointer before the beginning'')
      else op_return (f\<lparr>fh_pos := p\<rparr>))"

definition file_seek :: "seek_from \<Rightarrow> sftp_handle \<Rightarrow> sftp_handle op" where
  "file_seek s f =
     (case s of
        SeekStart p \<Rightarrow> seek_to p f
      | SeekCurrent d \<Rightarrow> seek_to (fh_pos f + d) f
      | SeekEnd d \<Rightarrow>
          op_bind (invoke (rs_fstat (fh_handle f))) (\<lambda>p.
            case fa_size (attrs_of p) of
              Some n \<Rightarrow> seek_to (n + d) f
            | None \<Rightarrow> op_fail (EIo ''file size unknown'')))"

text \<open>Opening, and the operations of an open file; \<open>shutdown\<close> closes its handle.\<close>

definition open_with_flags_and_attributes :: "rstring \<Rightarrow> u32 \<Rightarrow> file_attributes \<Rightarrow> sftp_handle op" where
  "open_with_flags_and_attributes path flags attrs =
     op_bind (invoke (rs_open path flags attrs)) (\<lambda>p.
       op_return \<lparr>fh_handle = handle_of p, fh_pos = 0\<rparr>)"

definition open_with_flags :: "rstring \<Rightarrow> u32 \<Rightarrow> sftp_handle op" where
  "open_with_flags path flags = open_with_flags_and_attributes path flags empty_attrs"

definition open_file :: "rstring \<Rightarrow> sftp_handle op" where
  "open_file path = open_with_flags path OPEN_READ"

definition create_file :: "rstring \<Rightarrow> sftp_handle op" where
  "create_file path = open_with_flags path (OPEN_CREATE OR OPEN_TRUNCATE OR OPEN_WRITE)"

definition file_metadata :: "sftp_handle \<Rightarrow> file_attributes op" where
  "file_metadata f = op_bind (invoke (rs_fstat (fh_handle f))) (\<lambda>p. op_return (attrs_of p))"

definition file_set_metadata :: "sftp_handle \<Rightarrow> file_attributes \<Rightarrow> unit op" where
  "file_set_metadata f m = op_bind (invoke (rs_fsetstat (fh_handle f) m)) (\<lambda>_. op_return ())"

definition sync_all :: "extension_flags \<Rightarrow> sftp_handle \<Rightarrow> unit op" where
  "sync_all ext f =
     (if \<not> ext_fsync ext then op_return ()
      else op_bind (invoke (rs_fsync (fh_handle f))) (\<lambda>_. op_return ()))"

definition file_shutdown :: "sftp_handle \<Rightarrow> unit op" where
  "file_shutdown f = op_bind (invoke (rs_close (fh_handle f))) (\<lambda>_. op_return ())"

text \<open>
  \<open>write_all\<close> of the standard traits over \<open>poll_write\<close>: a write of no bytes is an error.
\<close>

lemma file_write_consumes:
  "file_write ext bs f e = Some (Inr (n, f'), e') \<Longrightarrow> n \<le> length bs"
  by (auto simp: file_write_def op_bind_def op_return_def Let_def file_write_len_def
      split: option.splits sum.splits)

function file_write_all :: "extension_flags \<Rightarrow> bytes \<Rightarrow> sftp_handle \<Rightarrow> sftp_handle op" where
  "file_write_all ext bs f e =
     (if bs = [] then Some (Inr f, e)
      else case file_write ext bs f e of
          None \<Rightarrow> None
        | Some (Inl err, e') \<Rightarrow> Some (Inl err, e')
        | Some (Inr (n, f'), e') \<Rightarrow>
            if n = 0 then Some (Inl (EIo ''failed to write whole buffer''), e')
            else file_write_all ext (drop n bs) f' e')"
  by pat_completeness auto

termination
  by (relation "measure (\<lambda>(ext, bs, f, e). length bs)") (auto dest: file_write_consumes)

declare file_write_all.simps [simp del]

definition write_file :: "rstring \<Rightarrow> bytes \<Rightarrow> extension_flags \<Rightarrow> unit op" where
  "write_file path bs ext =
     op_bind (open_with_flags path OPEN_WRITE) (\<lambda>f.
     op_bind (file_write_all ext bs f) (\<lambda>_. op_return ()))"

definition symlink_path :: "rstring \<Rightarrow> rstring \<Rightarrow> unit op" where
  "symlink_path path target = op_bind (invoke (rs_symlink path target)) (\<lambda>_. op_return ())"

text \<open>The file system statistics: eleven 64-bit fields in order.\<close>

fun de_u64s :: "nat \<Rightarrow> u64 list de" where
  "de_u64s 0 input = Inr ([], input)"
| "de_u64s (Suc n) input =
     result_bind (de_u64 input) (\<lambda>(v, rest).
     result_bind (de_u64s n rest) (\<lambda>(vs, rest'). Inr (v # vs, rest')))"

definition statvfs_result :: "packet \<Rightarrow> client_error + u64 list" where
  "statvfs_result p =
     (case p of
        ExtendedReply i d \<Rightarrow>
          (case de_u64s 11 d of
             Inl e \<Rightarrow> Inl (EUnexpectedBehavior ''decoding'')
           | Inr (vs, _) \<Rightarrow> Inr vs)
      | Status i c m t \<Rightarrow> if c \<noteq> Ok then Inl (EStatus i c m t) else Inl EUnexpectedPacket
      | _ \<Rightarrow> Inl EUnexpectedPacket)"

definition rs_statvfs :: "rstring \<Rightarrow> call" where
  "rs_statvfs path = rs_extended (ascii ''statvfs@openssh.com'') (wire_string path)"

definition fs_info :: "extension_flags \<Rightarrow> rstring \<Rightarrow> u64 list option op" where
  "fs_info ext path =
     (if \<not> ext_statvfs ext then op_return None
      else op_bind (invoke (rs_statvfs path)) (\<lambda>p e.
        Some (map_sum id Some (statvfs_result p), e)))"

section \<open>The server\<close>

text \<open>
  \<open>process_request\<close>: the handler is any implementation of the trait, a function from requests
  to a reply or a status code; \<open>unimplemented_handler\<close> is the trait's own default.
\<close>

type_synonym handler = "packet \<Rightarrow> status_code + packet"

definition unimplemented_handler :: handler where
  "unimplemented_handler p = (case p of Init v ext \<Rightarrow> Inr version_new | _ \<Rightarrow> Inl OpUnsupported)"

fun is_request :: "packet \<Rightarrow> bool" where
  "is_request (Version v ext) = False"
| "is_request (Status i c m t) = False"
| "is_request (Handle i h) = False"
| "is_request (Data i d) = False"
| "is_request (Name i fs) = False"
| "is_request (Attrs i a) = False"
| "is_request (ExtendedReply i d) = False"
| "is_request _ = True"

definition process_request :: "handler \<Rightarrow> packet \<Rightarrow> packet" where
  "process_request h p =
     (if is_request p then
        (case h p of Inl c \<Rightarrow> packet_error (get_request_id p) c | Inr q \<Rightarrow> q)
      else packet_error 0 BadMsg)"

definition server_answer :: "handler \<Rightarrow> bytes \<Rightarrow> packet" where
  "server_answer h bs =
     (case decode_packet bs of
        Inl e \<Rightarrow> packet_error 0 BadMsg
      | Inr (p, _) \<Rightarrow> process_request h p)"

section \<open>One request\<close>

definition issued :: "call \<Rightarrow> sftp_client \<Rightarrow> sftp_client" where
  "issued c st = forget_call (ss_next_id st) (snd (call_begin 0 c st))"

lemma issued_sel:
  assumes "\<not> ss_closed st" "call_check c st = None"
  shows "ss_closed (issued c st) = ss_closed st" "ss_handles (issued c st) = ss_handles st"
    "ss_limits (issued c st) = ss_limits st"
    "ss_sent (issued c st) = ss_sent st @ [call_packet c (ss_next_id st)]"
    "ss_next_id (issued c st) = ss_next_id st + 1"
  using assms send_begin_open [of "st\<lparr>ss_next_id := ss_next_id st + 1\<rparr>"]
  by (simp_all add: issued_def call_begin_def use_next_id_def forget_call_def)

lemma invoke_open:
  assumes "\<not> ss_closed st" "call_check c st = None"
  shows "invoke c (st, r # rs) = Some (fst (call_end c (r, issued c st)), snd (call_end c (r, issued c st)), rs)"
    and "invoke c (st, []) = None"
  using assms send_begin_open [of "st\<lparr>ss_next_id := ss_next_id st + 1\<rparr>"]
  by (simp_all add: invoke_def issued_def call_begin_def use_next_id_def split: prod.splits)

lemma invoke_closed:
  "ss_closed st \<Longrightarrow> call_check c st = None \<Longrightarrow>
     invoke c (st, script)
       = Some (Inl (EUnexpectedBehavior ''session closed''),
               (st\<lparr>ss_next_id := ss_next_id st + 1\<rparr>, script))"
  by (simp add: invoke_def call_begin_def use_next_id_def send_begin_def)

lemma call_end_err: "call_end c (Inl e, st) = (Inl e, st)"
  by (simp add: call_end_def)

lemma call_end_packet: "call_end c (Inr p, st) = (call_result c p, call_after c p st)"
  by (simp add: call_end_def)

section \<open>Listing a directory\<close>

lemma readdir_sel [simp]:
  "call_check (rs_readdir h) st = None" "call_packet (rs_readdir h) i = ReadDir i h"
  "call_after (rs_readdir h) p st = st"
  "call_result (rs_readdir h) p = into_with_status is_name p"
  by (simp_all add: rs_readdir_def plain_call_def)

lemma close_sel [simp]:
  "call_check (rs_close h) st = None" "call_packet (rs_close h) i = Close i h"
  "call_result (rs_close h) p = into_status p"
  "call_after (rs_close h) (Status k Ok m t) st =
     (if 0 < ss_handles st then st\<lparr>ss_handles := ss_handles st - 1\<rparr> else st)"
  by (simp_all add: rs_close_def)

lemma opendir_sel [simp]:
  "call_packet (rs_opendir h) i = OpenDir i h"
  "call_result (rs_opendir h) p = into_with_status is_handle p"
  "call_after (rs_opendir h) p st = count_handle p st"
  "call_check (rs_opendir h) st = None \<longleftrightarrow> handle_limit st = None"
  by (simp_all add: rs_opendir_def split: option.split)

text \<open>The fuel never runs out before the script does.\<close>

lemma read_dir_loop_fuel:
  "length (snd e) < n \<Longrightarrow> length (snd e) < m \<Longrightarrow> read_dir_loop n h files e = read_dir_loop m h files e"
proof (induction n arbitrary: m files e)
  case 0
  then show ?case by simp
next
  case (Suc n)
  obtain m' where m: "m = Suc m'" using Suc.prems(2) by (cases m) auto
  obtain st script where e: "e = (st, script)" by (cases e)
  show ?case
  proof (cases "ss_closed st")
    case True
    then show ?thesis by (simp add: e m invoke_closed)
  next
    case open_session: False
    show ?thesis
    proof (cases script)
      case Nil
      then show ?thesis by (simp add: e m invoke_open open_session)
    next
      case (Cons r rs)
      have "length rs < n" "length rs < m'" using Suc.prems by (simp_all add: e m Cons)
      with Suc.IH [of "(_, rs)" m'] show ?thesis
        by (auto simp: e m Cons invoke_open open_session split: sum.split)
    qed
  qed
qed

definition readdir_packets :: "rstring \<Rightarrow> u32 \<Rightarrow> nat \<Rightarrow> packet list" where
  "readdir_packets h i n = map (\<lambda>k. ReadDir (i + word_of_nat k) h) [0..<n]"

lemma readdir_packets_Suc:
  "readdir_packets h i (Suc n) = ReadDir i h # readdir_packets h (i + 1) n"
  unfolding readdir_packets_def upt_conv_Cons [OF zero_less_Suc] map_Suc_upt [symmetric]
  by (simp add: comp_def add.assoc)

text \<open>What the loop does on pages followed by a status.\<close>

lemma read_dir_loop_pages:
  "\<not> ss_closed st \<Longrightarrow> list_all is_name pages \<Longrightarrow> length pages < n \<Longrightarrow>
   \<exists>st'. read_dir_loop n h files (st, map Inr pages @ Inr (Status j c m t) # rest)
       = Some (if c = Eof then Inr (concat (map page_entries (rev pages)) @ files)
               else Inl (EStatus j c m t), (st', rest))
     \<and> \<not> ss_closed st' \<and> ss_handles st' = ss_handles st \<and> ss_limits st' = ss_limits st
     \<and> ss_sent st' = ss_sent st @ readdir_packets h (ss_next_id st) (Suc (length pages))
     \<and> ss_next_id st' = ss_next_id st + word_of_nat (Suc (length pages))"
proof (induction pages arbitrary: n st files)
  case Nil
  then obtain n' where n: "n = Suc n'" by (cases n) auto
  have "into_with_status is_name (Status j c m t) = Inl (EStatus j c m t)"
    by (simp add: into_with_status_def)
  with Nil.prems(1) show ?case
    by (simp add: n invoke_open call_end_packet issued_sel readdir_packets_def)
next
  case (Cons p pages)
  from Cons.prems(3) obtain n' where n: "n = Suc n'" "length pages < n'" by (cases n) auto
  have p: "into_with_status is_name p = Inr p" using Cons.prems(2) by (simp add: into_with_status_def)
  have open': "\<not> ss_closed (issued (rs_readdir h) st)" using Cons.prems(1) by (simp add: issued_sel)
  from Cons.IH [OF open' _ n(2), of "page_entries p @ files"] Cons.prems
  obtain st' where
    "read_dir_loop n' h (page_entries p @ files)
        (issued (rs_readdir h) st, map Inr pages @ Inr (Status j c m t) # rest)
       = Some (if c = Eof then Inr (concat (map page_entries (rev pages)) @ page_entries p @ files)
               else Inl (EStatus j c m t), (st', rest))"
    "\<not> ss_closed st'" "ss_handles st' = ss_handles st" "ss_limits st' = ss_limits st"
    "ss_sent st' = (ss_sent st @ [ReadDir (ss_next_id st) h])
        @ readdir_packets h (ss_next_id st + 1) (Suc (length pages))"
    "ss_next_id st' = ss_next_id st + 1 + word_of_nat (Suc (length pages))"
    by (auto simp: issued_sel)
  then show ?case
    using Cons.prems(1) p
    by (simp add: n(1) invoke_open call_end_packet readdir_packets_Suc [of h _ "Suc (length pages)"]
        add.assoc)
qed

declare read_dir_loop.simps [simp del]

text \<open>
  A listing that the server ends with \<open>Eof\<close> returns the entries of all its pages, the later
  pages first, opens and closes the directory once with one request per page between them, and
  leaves the handle counter as it was.\<close>

lemma read_dir_lists_pages:
  assumes "\<not> ss_closed st" "handle_limit st = None" "list_all is_name pages"
  shows "\<exists>st'. read_dir path (st, Inr (Handle i h) # map Inr pages
        @ Inr (Status j Eof m t) # Inr (Status k Ok m' t') # rest)
      = Some (Inr (concat (map page_entries (rev pages))), (st', rest))
    \<and> ss_handles st' = ss_handles st
    \<and> ss_sent st' = ss_sent st @ [OpenDir (ss_next_id st) path]
        @ readdir_packets h (ss_next_id st + 1) (Suc (length pages))
        @ [Close (ss_next_id st + word_of_nat (length pages + 2)) h]"
proof -
  let ?st1 = "count_handle (Handle i h) (issued (rs_opendir path) st)"
  have st1: "\<not> ss_closed ?st1" "ss_handles ?st1 = ss_handles st + 1"
    "ss_sent ?st1 = ss_sent st @ [OpenDir (ss_next_id st) path]" "ss_next_id ?st1 = ss_next_id st + 1"
    using assms by (simp_all add: count_handle_def issued_sel)
  let ?rest = "Inr (Status k Ok m' t') # rest"
  have "length pages < Suc (length (map Inr pages @ Inr (Status j Eof m t) # ?rest :: (client_error + packet) list))"
    by simp
  from read_dir_loop_pages [OF st1(1) assms(3) this, of h "[]" j Eof m t ?rest]
  obtain st2 where st2:
    "read_dir_loop (Suc (length (map Inr pages @ Inr (Status j Eof m t) # ?rest :: (client_error + packet) list)))
        h [] (?st1, map Inr pages @ Inr (Status j Eof m t) # ?rest)
       = Some (Inr (concat (map page_entries (rev pages))), (st2, ?rest))"
    "\<not> ss_closed st2" "ss_handles st2 = ss_handles st + 1"
    "ss_sent st2 = ss_sent st @ [OpenDir (ss_next_id st) path]
        @ readdir_packets h (ss_next_id st + 1) (Suc (length pages))"
    "ss_next_id st2 = ss_next_id st + word_of_nat (length pages + 2)"
    by (auto simp: st1 add.assoc)
  have "invoke (rs_opendir path) (st, Inr (Handle i h) # map Inr pages @ Inr (Status j Eof m t) # ?rest)
      = Some (Inr (Handle i h), (?st1, map Inr pages @ Inr (Status j Eof m t) # ?rest))"
    using assms by (simp add: invoke_open call_end_packet into_with_status_def)
  moreover have "invoke (rs_close h) (st2, ?rest)
      = Some (Inr (Status k Ok m' t'), ((issued (rs_close h) st2)\<lparr>ss_handles := ss_handles st\<rparr>, rest))"
    using st2(2,3) by (simp add: invoke_open call_end_packet into_status_def issued_sel)
  ultimately show ?thesis
    using st2 by (auto simp: read_dir_def op_bind_def op_return_def issued_sel)
qed

lemma read_dir_lists_pages_witness:
  "\<exists>st'. read_dir [0x2F] (new_session, [Inr (Handle 1 [0x68]),
        Inr (Name 2 [\<lparr>file_name = [0x61], file_longname = [], file_attrs = empty_attrs\<rparr>]),
        Inr (Name 3 [\<lparr>file_name = [0x62], file_longname = [], file_attrs = empty_attrs\<rparr>]),
        Inr (Status 4 Eof [] []), Inr (Status 5 Ok [] [])])
      = Some (Inr [([0x62], empty_attrs), ([0x61], empty_attrs)], (st', []))
    \<and> ss_handles st' = 0"
proof -
  let ?pages = "[Name 2 [\<lparr>file_name = [0x61], file_longname = [], file_attrs = empty_attrs\<rparr>],
      Name 3 [\<lparr>file_name = [0x62], file_longname = [], file_attrs = empty_attrs\<rparr>]]"
  have "\<not> ss_closed new_session" "handle_limit new_session = None"
    by (simp_all add: new_session_def handle_limit_def default_limits_def)
  from read_dir_lists_pages [OF this, of ?pages "[0x2F]" 1 "[0x68]" 4 "[]" "[]" 5 "[]" "[]" "[]"]
  show ?thesis by (auto simp: page_entries_def new_session_def)
qed

text \<open>
  A listing that fails after the directory was opened returns without closing it.
\<close>

lemma failed_listing_leaves_handle_open:
  assumes "\<not> ss_closed st" "handle_limit st = None" "c \<noteq> Eof"
  shows "\<exists>st'. read_dir path (st, Inr (Handle i h) # Inr (Status j c m t) # rest)
      = Some (Inl (EStatus j c m t), (st', rest))
    \<and> ss_handles st' = ss_handles st + 1 \<and> ss_limits st' = ss_limits st \<and> \<not> ss_closed st'
    \<and> ss_sent st' = ss_sent st @ [OpenDir (ss_next_id st) path, ReadDir (ss_next_id st + 1) h]"
proof -
  let ?st1 = "count_handle (Handle i h) (issued (rs_opendir path) st)"
  have st1: "\<not> ss_closed ?st1" "ss_handles ?st1 = ss_handles st + 1" "ss_limits ?st1 = ss_limits st"
    "ss_sent ?st1 = ss_sent st @ [OpenDir (ss_next_id st) path]" "ss_next_id ?st1 = ss_next_id st + 1"
    using assms by (simp_all add: count_handle_def issued_sel)
  from read_dir_loop_pages [OF st1(1), of "[]" "Suc (length (Inr (Status j c m t) # rest))" h "[]" j c m t rest]
  obtain st2 where
    "read_dir_loop (Suc (length (Inr (Status j c m t) # rest))) h [] (?st1, Inr (Status j c m t) # rest)
       = Some (Inl (EStatus j c m t), (st2, rest))"
    "\<not> ss_closed st2" "ss_handles st2 = ss_handles st + 1" "ss_limits st2 = ss_limits st"
    "ss_sent st2 = ss_sent st @ [OpenDir (ss_next_id st) path, ReadDir (ss_next_id st + 1) h]"
    using assms(3) by (auto simp: st1 readdir_packets_def)
  moreover have "invoke (rs_opendir path) (st, Inr (Handle i h) # Inr (Status j c m t) # rest)
      = Some (Inr (Handle i h), (?st1, Inr (Status j c m t) # rest))"
    using assms by (simp add: invoke_open call_end_packet into_with_status_def)
  ultimately show ?thesis by (auto simp: read_dir_def op_bind_def)
qed

fun failed_listings :: "nat \<Rightarrow> rstring \<Rightarrow> sftp_client \<Rightarrow> sftp_client option" where
  "failed_listings 0 path st = Some st"
| "failed_listings (Suc n) path st =
     (case read_dir path (st, [Inr (Handle 0 []), Inr (Status 0 PermissionDenied [] [])]) of
        Some (Inl e, (st', _)) \<Rightarrow> failed_listings n path st'
      | _ \<Rightarrow> None)"

lemma failed_listings_count:
  "\<not> ss_closed st \<Longrightarrow> lim_open_handles (ss_limits st) = Some l \<Longrightarrow> ss_handles st + n \<le> unat l \<Longrightarrow>
   \<exists>st'. failed_listings n path st = Some st' \<and> ss_handles st' = ss_handles st + n
     \<and> ss_limits st' = ss_limits st \<and> \<not> ss_closed st'"
proof (induction n arbitrary: st)
  case 0
  then show ?case by simp
next
  case (Suc n)
  have "handle_limit st = None" using Suc.prems by (simp add: handle_limit_def)
  from failed_listing_leaves_handle_open [OF Suc.prems(1) this, of PermissionDenied path 0 "[]" 0 "[]" "[]" "[]"]
  obtain st' where "read_dir path (st, [Inr (Handle 0 []), Inr (Status 0 PermissionDenied [] [])])
      = Some (Inl (EStatus 0 PermissionDenied [] []), (st', []))"
    "ss_handles st' = ss_handles st + 1" "ss_limits st' = ss_limits st" "\<not> ss_closed st'" by auto
  with Suc.IH [of st'] Suc.prems show ?case by auto
qed

text \<open>
  Listings that fail use the handles up: with a limit of \<open>l\<close> open handles, after \<open>l\<close> of them no
  directory can be listed any more, and no request is even sent.\<close>

lemma failed_listings_exhaust_handles:
  assumes "\<not> ss_closed st" "lim_open_handles (ss_limits st) = Some l" "ss_handles st = 0"
  shows "\<exists>st'. failed_listings (unat l) path st = Some st'
    \<and> read_dir path (st', script) = Some (Inl (ELimited ''Handle limit reached''), (st', script))"
proof -
  from failed_listings_count [OF assms(1,2), of "unat l" path] assms(3) obtain st' where
    "failed_listings (unat l) path st = Some st'" "ss_handles st' = unat l" "ss_limits st' = ss_limits st"
    by auto
  moreover from this assms(2) have "call_check (rs_opendir path) st' = Some (ELimited ''Handle limit reached'')"
    by (simp add: rs_opendir_def handle_limit_def)
  ultimately show ?thesis by (auto simp: read_dir_def op_bind_def invoke_def call_begin_def)
qed

lemma failed_listings_exhaust_handles_witness:
  "\<exists>st'. failed_listings 2 [0x2F] (new_session\<lparr>ss_limits := default_limits\<lparr>lim_open_handles := Some 2\<rparr>\<rparr>) = Some st'
    \<and> read_dir [0x2F] (st', []) = Some (Inl (ELimited ''Handle limit reached''), (st', []))"
proof -
  have "unat (2 :: u64) = 2" by simp
  with failed_listings_exhaust_handles [of "new_session\<lparr>ss_limits := default_limits\<lparr>lim_open_handles := Some 2\<rparr>\<rparr>" 2
      "[0x2F]" "[]"] show ?thesis
    by (simp add: new_session_def)
qed

section \<open>From the request to the server's answer\<close>

text \<open>\<open>process_handler\<close> of the server and of the client: one frame off the stream.\<close>

definition server_step :: "handler \<Rightarrow> bytes \<Rightarrow> sftp_error + bytes \<times> bytes" where
  "server_step h stream =
     result_bind (read_packet stream) (\<lambda>(body, rest).
     result_bind (encode_packet (server_answer h body)) (\<lambda>out. Inr (out, rest)))"

definition client_step :: "bytes \<Rightarrow> sftp_client \<Rightarrow> (sftp_error + bytes) \<times> sftp_client" where
  "client_step stream st =
     (case read_packet stream of
        Inl e \<Rightarrow> (Inl e, st)
      | Inr (body, rest) \<Rightarrow> (Inr rest, process_frame body st))"

lemma status_strings_utf8:
  "valid_utf8 (ascii (status_message c))" "valid_utf8 (ascii ''en-US'')"
  by (cases c; simp only:; code_simp) code_simp

lemma packet_error_ok: "packet_ok (packet_error i c)" "frame_ok (packet_error i c)"
  using status_strings_utf8(1) [of c] status_strings_utf8(2)
  by (cases c; simp add: packet_error_def packet_status_def wire_string_ok_def frame_ok_def
    wire_string_def ascii_def)+

lemma canon_is_request [simp]: "is_request (canon_packet p) = is_request p"
  by (cases p) simp_all

lemma canon_reply_id [simp]: "reply_id (canon_packet p) = reply_id p"
  by (cases p) simp_all

text \<open>The packet a server sends back for a request, and when it can be sent.\<close>

definition answer_of :: "handler \<Rightarrow> packet \<Rightarrow> packet" where
  "answer_of h p = process_request h (canon_packet p)"

definition answer_ok :: "handler \<Rightarrow> packet \<Rightarrow> bool" where
  "answer_ok h p \<longleftrightarrow>
     (case h (canon_packet p) of
        Inl c \<Rightarrow> True
      | Inr q \<Rightarrow> packet_ok q \<and> frame_ok q \<and> reply_id q = Some (Some (get_request_id p)))"

lemma answer_of_ok:
  assumes "is_request p" "answer_ok h p"
  shows "packet_ok (answer_of h p) \<and> frame_ok (answer_of h p)
    \<and> reply_id (answer_of h p) = Some (Some (get_request_id p))"
  using assms packet_error_ok
  by (cases "h (canon_packet p)")
     (auto simp: answer_of_def answer_ok_def process_request_def packet_error_def packet_status_def)

text \<open>C33:
  A request and an answer that the wire can carry arrive, whatever other calls are pending: the
  handler is given the request in its canonical form, and the call that waits for its id gets
  back the handler's answer, a reply or an error code, in its canonical form too.  The canonical
  form is what the encoding preserves: file attributes lose the names of user and group, and a
  missing id of the group becomes 0 where the id of the user is there; everything else is kept.
  The answer has to name the id of the request, its strings have to be well formed and its lengths
  to fit their fields (\<open>answer_ok\<close>); fewer than \<open>2 ^ 32\<close> calls have been begun.\<close>

theorem server_answer_reaches_caller:
  assumes "client_run n st" "n \<le> 2 ^ 32" "ss_waiting st w = Some (Some (get_request_id p))"
    and "ss_results st w = None" "ss_version st \<noteq> None"
    and "is_request p" "packet_ok p" "frame_ok p" "answer_ok h p"
  shows "\<exists>bs out st' st''. encode_packet p = Inr bs \<and> server_step h bs = Inr (out, [])
    \<and> client_step out st = (Inr [], st')
    \<and> send_end w Received st' = Some (Inr (canon_packet (answer_of h p)), st'')"
proof -
  note a = answer_of_ok [OF assms(6,9)]
  obtain bs out where bs: "encode_packet p = Inr bs" "encode_packet (answer_of h p) = Inr out"
    using encode_total by blast
  have srv: "read_packet bs = Inr (packet_type p # wire_payload p, [])"
    using read_encoded_packet [OF assms(8) bs(1), of "[]"] by simp
  have "server_answer h (packet_type p # wire_payload p) = answer_of h p"
    by (simp add: server_answer_def decode_packet_wire [OF assms(7)] answer_of_def)
  with srv bs(2) have s: "server_step h bs = Inr (out, [])" by (simp add: server_step_def)
  let ?q = "answer_of h p"
  have c: "client_step out st = (Inr [], process_frame (packet_type ?q # wire_payload ?q) st)"
    using read_encoded_packet [OF conjunct1 [OF conjunct2 [OF a]] bs(2), of "[]"]
    by (simp add: client_step_def)
  have "decode_packet (packet_type ?q # wire_payload ?q) = Inr (canon_packet ?q, [])"
    using a decode_packet_wire by blast
  moreover have "reply_id (canon_packet ?q) = Some (Some (get_request_id p))" using a by simp
  ultimately obtain st'' where
    "send_end w Received (process_frame (packet_type ?q # wire_payload ?q) st) = Some (Inr (canon_packet ?q), st'')"
    using waiting_call_returns_reply [OF assms(1-5)] by blast
  with bs(1) s c show ?thesis by blast
qed

theorem server_answer_reaches_caller_witness:
  "\<exists>bs out st st' st''. encode_packet (Stat 1 [0x2F]) = Inr bs \<and> server_step unimplemented_handler bs = Inr (out, [])
    \<and> client_step out st = (Inr [], st')
    \<and> send_end 7 Received st' = Some (Inr (packet_error 1 OpUnsupported), st'')"
proof -
  define st0 where "st0 = process_frame [2, 0, 0, 0, 3] (snd (send_begin 5 None init_new new_session))"
  define st where "st = snd (call_begin 7 (rs_stat [0x2F]) st0)"
  have d: "decode_packet [2, 0, 0, 0, 3] = Inr (Version 3 [], [])" by code_simp
  have nc: "\<not> ss_closed new_session" by (simp add: new_session_def)
  have st0: "ss_waiting st0 7 = None" "ss_results st0 7 = None" "ss_version st0 = Some 3"
    "ss_next_id st0 = 1" "\<not> ss_closed st0"
    by (simp_all add: st0_def process_frame_def d execute_handler_def send_begin_open [OF nc] reply_def
        reply_check_def Let_def) (simp_all add: new_session_def)
  have nc0: "\<not> ss_closed (st0\<lparr>ss_next_id := 2\<rparr>)" using st0(5) by simp
  have st: "ss_waiting st 7 = Some (Some 1)" "ss_results st 7 = None" "ss_version st = Some 3"
    using st0 send_begin_open [OF nc0]
    by (simp_all add: st_def call_begin_def use_next_id_def rs_stat_def plain_call_def)
  have "client_run 0 st0"
    unfolding st0_def by (intro run_frame run_init run_new) (simp_all add: new_session_def)
  then have run: "client_run 1 st"
    using run_begin [OF _ st0(1), of 0 "rs_stat [0x2F]"]
    by (simp add: st_def rs_stat_def plain_call_def)
  have ok: "packet_ok (Stat 1 [0x2F])" "frame_ok (Stat 1 [0x2F])" "answer_ok unimplemented_handler (Stat 1 [0x2F])"
  proof -
    have "valid_utf8 [0x2F]" by code_simp
    then show "packet_ok (Stat 1 [0x2F])" by (simp add: wire_string_ok_def)
  qed (simp_all add: frame_ok_def wire_string_def answer_ok_def unimplemented_handler_def)
  have "canon_packet (answer_of unimplemented_handler (Stat 1 [0x2F])) = packet_error 1 OpUnsupported"
    by (simp add: answer_of_def process_request_def unimplemented_handler_def packet_error_def packet_status_def)
  with server_answer_reaches_caller [OF run, of 7 "Stat 1 [0x2F]" unimplemented_handler] st ok
  have "\<exists>bs out st' st''. encode_packet (Stat 1 [0x2F]) = Inr bs \<and> server_step unimplemented_handler bs = Inr (out, [])
    \<and> client_step out st = (Inr [], st')
    \<and> send_end 7 Received st' = Some (Inr (packet_error 1 OpUnsupported), st'')"
    by simp
  then show ?thesis by blast
qed

text \<open>
  A frame that the server cannot decode is answered under the id 0, so the call that sent it is
  not told and waits until its time limit.
\<close>

lemma undecodable_request_is_answered_to_nobody:
  assumes "decode_packet bs = Inl e"
  shows "server_answer h bs = packet_error 0 BadMsg"
  using assms by (simp add: server_answer_def)

section \<open>Positions of open files\<close>

text \<open>Reads continue where the last one ended, within the room of the buffer.\<close>

lemma file_read_continues:
  assumes "file_read ext room f e = Some (ReadBytes bs f', e')"
  shows "fh_pos f' = fh_pos f + word_of_nat (length bs) \<and> length bs \<le> room \<and> fh_handle f' = fh_handle f"
  using assms by (auto simp: file_read_def split: option.splits sum.splits if_splits)

text \<open>A reply longer than the buffer is a panic of the reading task.\<close>

lemma overlong_data_panics:
  assumes "\<not> ss_closed st" "room < length d"
    "length_limit (lim_read_len (ss_limits st)) (unat (word_of_nat (file_read_len ext room) :: u32)) ''read limit reached'' = None"
  shows "\<exists>e'. file_read ext room f (st, Inr (Data i d) # rs) = Some (ReadPanics, e')"
  using assms
  by (auto simp: file_read_def invoke_open rs_read_def call_end_packet into_with_status_def)

lemma seek_never_negative:
  "file_seek s f e = Some (Inr f', e') \<Longrightarrow> 0 \<le> sint (fh_pos f')"
  by (auto simp: file_seek_def seek_to_def op_bind_def op_return_def op_fail_def
      split: seek_from.splits if_splits option.splits sum.splits)

end
