(* ===== verification/Download.thy ===== *)
theory Download
  imports Prelude
begin

text \<open>
  The pipelined download of \<open>src/sftp/pipeline.rs\<close>: a bounded set of outstanding read
  requests that the server answers in any order, the reorder buffer, gap requests after
  short reads, cancellation.  The file is a sequence of bytes and the server a function from
  requests to replies that may differ from event to event.  Offsets and lengths are natural
  numbers: they are at most the file size, which is a \<open>u64\<close>.
\<close>

section \<open>Local sink and reorder buffer\<close>

text \<open>
  The local file is any \<open>impl Write\<close>.  Each write or flush consumes one outcome: \<open>None\<close> is
  success, \<open>Some k\<close> an error after \<open>k\<close> bytes were written.  Without outcomes all succeed.
\<close>

record sink =
  sink_data :: bytes
  sink_faults :: "nat option list"

fun write_all :: "bytes \<Rightarrow> sink \<Rightarrow> bool \<times> sink" where
  "write_all bs s =
     (case sink_faults s of
        [] \<Rightarrow> (True, s\<lparr>sink_data := sink_data s @ bs\<rparr>)
      | None # fs \<Rightarrow> (True, s\<lparr>sink_data := sink_data s @ bs, sink_faults := fs\<rparr>)
      | Some k # fs \<Rightarrow> (False, s\<lparr>sink_data := sink_data s @ take k bs, sink_faults := fs\<rparr>))"

declare write_all.simps [simp del]

text \<open>\<open>BTreeMap<u64, Vec<u8>>\<close>: the entries in the order of their keys.\<close>

fun btree_insert :: "nat \<Rightarrow> 'a \<Rightarrow> (nat \<times> 'a) list \<Rightarrow> (nat \<times> 'a) list" where
  "btree_insert k v [] = [(k, v)]"
| "btree_insert k v ((k', v') # m) =
     (if k < k' then (k, v) # (k', v') # m
      else if k = k' then (k, v) # m
      else (k', v') # btree_insert k v m)"

section \<open>Constants and depth\<close>

definition CHUNK_SIZE :: nat where "CHUNK_SIZE = 261120"
definition MAX_CHUNK_SIZE :: nat where "MAX_CHUNK_SIZE = 1024 * 1024"
definition MAX_PIPELINE_DEPTH :: nat where "MAX_PIPELINE_DEPTH = 64"
definition MAX_INFLIGHT_BYTES :: nat where "MAX_INFLIGHT_BYTES = 2 * 1024 * 1024"

definition div_ceil :: "nat \<Rightarrow> nat \<Rightarrow> nat" where
  "div_ceil a b = (if a mod b = 0 then a div b else a div b + 1)"

definition pipeline_depth :: "nat \<Rightarrow> nat \<Rightarrow> nat" where
  "pipeline_depth remaining chunk =
     (let total_chunks = div_ceil remaining chunk;
          by_bytes = max (MAX_INFLIGHT_BYTES div chunk) 8
      in min (min total_chunks MAX_PIPELINE_DEPTH) by_bytes)"

text \<open>The chunk size that follows from a limit the server advertises.\<close>

definition negotiated_chunk :: "nat option \<Rightarrow> nat" where
  "negotiated_chunk limit =
     (case limit of
        None \<Rightarrow> CHUNK_SIZE
      | Some l \<Rightarrow> if 0 < l then max 1 (min l MAX_CHUNK_SIZE) else CHUNK_SIZE)"

section \<open>State\<close>

datatype read_result = ReadData bytes | ReadError string

type_synonym read_server = "nat \<times> nat \<Rightarrow> read_result"

datatype transfer_error =
    OpenFailed string | ReadFailed string | WriteFailed string
  | LocalWriteFailed | LocalFlushFailed | LocalReadFailed | TransferCancelled

record download_state =
  dl_next :: nat
  dl_inflight :: "(nat \<times> nat) list"
  dl_reorder :: "(nat \<times> bytes) list"
  dl_cursor :: nat
  dl_sink :: sink
  dl_progress :: "nat list"

definition queue_read :: "nat \<Rightarrow> nat \<Rightarrow> download_state \<Rightarrow> download_state" where
  "queue_read off len st = st\<lparr>dl_inflight := dl_inflight st @ [(off, len)]\<rparr>"

text \<open>One resolved request of at most a chunk, which advances the request offset.\<close>

definition request_next :: "nat \<Rightarrow> nat \<Rightarrow> download_state \<Rightarrow> download_state" where
  "request_next tot chunk st =
     (let len = min chunk (tot - dl_next st)
      in (queue_read (dl_next st) len st)\<lparr>dl_next := dl_next st + len\<rparr>)"

fun seed_reads :: "nat \<Rightarrow> nat \<Rightarrow> nat \<Rightarrow> download_state \<Rightarrow> download_state" where
  "seed_reads 0 tot chunk st = st"
| "seed_reads (Suc n) tot chunk st =
     (if dl_next st < tot then seed_reads n tot chunk (request_next tot chunk st) else st)"

definition download_start :: "nat \<Rightarrow> nat \<Rightarrow> nat \<Rightarrow> sink \<Rightarrow> download_state" where
  "download_start tot start chunk s =
     seed_reads (pipeline_depth (tot - start) chunk) tot chunk
       \<lparr>dl_next = start, dl_inflight = [], dl_reorder = [], dl_cursor = start, dl_sink = s,
        dl_progress = []\<rparr>"

section \<open>Replies\<close>

text \<open>
  The buffered chunks that are now contiguous are written in turn.  The first component says
  whether every write succeeded; the loop of the normal path stops at the first failure.
\<close>

fun drain_reorder :: "nat \<Rightarrow> (nat \<times> bytes) list \<Rightarrow> sink \<Rightarrow> bool \<times> nat \<times> (nat \<times> bytes) list \<times> sink"
where
  "drain_reorder cur [] s = (True, cur, [], s)"
| "drain_reorder cur ((k, b) # m) s =
     (if k \<noteq> cur then (True, cur, (k, b) # m, s)
      else case write_all b s of
          (False, s') \<Rightarrow> (False, cur, m, s')
        | (True, s') \<Rightarrow> drain_reorder (cur + length b) m s')"

definition store_chunk ::
  "nat \<Rightarrow> bytes \<Rightarrow> download_state \<Rightarrow> bool \<times> download_state" where
  "store_chunk off bs st =
     (if off = dl_cursor st then
        (case write_all bs (dl_sink st) of
           (False, s) \<Rightarrow> (False, st\<lparr>dl_sink := s\<rparr>)
         | (True, s) \<Rightarrow>
             (case drain_reorder (dl_cursor st + length bs) (dl_reorder st) s of
                (ok, cur, m, s') \<Rightarrow>
                  (ok, st\<lparr>dl_cursor := cur, dl_reorder := m, dl_sink := s'\<rparr>)))
      else (True, st\<lparr>dl_reorder := btree_insert off bs (dl_reorder st)\<rparr>))"

text \<open>The branch of a reply while the transfer is not cancelled.\<close>

definition handle_read ::
  "nat \<Rightarrow> nat \<Rightarrow> nat \<times> nat \<Rightarrow> read_result \<Rightarrow> download_state
     \<Rightarrow> transfer_error option \<times> download_state" where
  "handle_read tot chunk req res st =
     (case res of
        ReadError e \<Rightarrow> (Some (ReadFailed e), st)
      | ReadData bs \<Rightarrow>
          (let off = fst req; expected = snd req; received = length bs;
               st1 = st\<lparr>dl_progress := dl_progress st @ [received]\<rparr>;
               is_gap_fill = received < expected \<and> off + received < tot;
               st2 = (if is_gap_fill then queue_read (off + received) (expected - received) st1
                      else st1)
           in case store_chunk off bs st2 of
                (False, st3) \<Rightarrow> (Some LocalWriteFailed, st3)
              | (True, st3) \<Rightarrow>
                  (None, if \<not> is_gap_fill \<and> dl_next st3 < tot
                         then request_next tot chunk st3 else st3)))"

section \<open>Cancellation\<close>

text \<open>The closure \<open>flush_chunk\<close> and the final drain ignore the outcome of every write.\<close>

fun drain_ignoring :: "nat \<Rightarrow> (nat \<times> bytes) list \<Rightarrow> sink \<Rightarrow> nat \<times> (nat \<times> bytes) list \<times> sink" where
  "drain_ignoring cur [] s = (cur, [], s)"
| "drain_ignoring cur ((k, b) # m) s =
     (if k \<noteq> cur then (cur, (k, b) # m, s)
      else drain_ignoring (cur + length b) m (snd (write_all b s)))"

definition drain_state :: "download_state \<Rightarrow> download_state" where
  "drain_state st =
     (case drain_ignoring (dl_cursor st) (dl_reorder st) (dl_sink st) of
        (cur, m, s) \<Rightarrow> st\<lparr>dl_cursor := cur, dl_reorder := m, dl_sink := s\<rparr>)"

definition flush_chunk :: "nat \<Rightarrow> bytes \<Rightarrow> download_state \<Rightarrow> download_state" where
  "flush_chunk off bs st =
     (if off = dl_cursor st then
        drain_state (st\<lparr>dl_sink := snd (write_all bs (dl_sink st)),
                        dl_cursor := dl_cursor st + length bs\<rparr>)
      else if dl_cursor st < off then
        st\<lparr>dl_reorder := btree_insert off bs (dl_reorder st)\<rparr>
      else st)"

definition flush_result :: "nat \<Rightarrow> read_result \<Rightarrow> download_state \<Rightarrow> download_state" where
  "flush_result off res st =
     (case res of ReadData bs \<Rightarrow> flush_chunk off bs st | ReadError _ \<Rightarrow> st)"

text \<open>
  \<open>FuturesUnordered::next\<close> yields any of the completed requests: the index of an event is
  taken modulo the number of outstanding requests.
\<close>

definition pick :: "nat \<Rightarrow> 'a list \<Rightarrow> 'a" where
  "pick i xs = xs ! (i mod length xs)"

definition unpick :: "nat \<Rightarrow> 'a list \<Rightarrow> 'a list" where
  "unpick i xs = (let j = i mod length xs in take j xs @ drop (Suc j) xs)"

fun flush_resolved :: "(nat \<times> read_server) list \<Rightarrow> download_state \<Rightarrow> download_state" where
  "flush_resolved [] st = st"
| "flush_resolved ((i, srv) # resolved) st =
     (if dl_inflight st = [] then st
      else let req = pick i (dl_inflight st);
               st' = st\<lparr>dl_inflight := unpick i (dl_inflight st)\<rparr>
           in flush_resolved resolved (flush_result (fst req) (srv req) st'))"

definition cancel_flush ::
  "nat \<times> nat \<Rightarrow> read_result \<Rightarrow> (nat \<times> read_server) list \<Rightarrow> download_state \<Rightarrow> download_state" where
  "cancel_flush req res resolved st =
     (let st1 = drain_state (flush_resolved resolved (flush_result (fst req) res st))
      in st1\<lparr>dl_sink := snd (write_all [] (dl_sink st1))\<rparr>)"

section \<open>The loop\<close>

text \<open>
  An event is a reply, or a reply that is seen after the user has cancelled, with the
  requests that happen to be resolved by then.
\<close>

datatype download_event =
    Reply nat read_server
  | ReplyCancelled nat read_server "(nat \<times> read_server) list"

datatype ('e, 's) transfer_outcome = Waiting 's | Finished 's | Failed 'e 's

fun outcome_state :: "('e, 's) transfer_outcome \<Rightarrow> 's" where
  "outcome_state (Waiting s) = s"
| "outcome_state (Finished s) = s"
| "outcome_state (Failed e s) = s"

definition download_finish ::
  "download_state \<Rightarrow> (transfer_error, download_state) transfer_outcome" where
  "download_finish st =
     (case write_all [] (dl_sink st) of
        (True, s) \<Rightarrow> Finished (st\<lparr>dl_sink := s\<rparr>)
      | (False, s) \<Rightarrow> Failed LocalFlushFailed (st\<lparr>dl_sink := s\<rparr>))"

fun download_loop ::
  "nat \<Rightarrow> nat \<Rightarrow> download_event list \<Rightarrow> download_state
     \<Rightarrow> (transfer_error, download_state) transfer_outcome" where
  "download_loop tot chunk [] st =
     (if dl_inflight st = [] then download_finish st else Waiting st)"
| "download_loop tot chunk (ev # evs) st =
     (if dl_inflight st = [] then download_finish st
      else case ev of
          Reply i srv \<Rightarrow>
            (let req = pick i (dl_inflight st);
                 st' = st\<lparr>dl_inflight := unpick i (dl_inflight st)\<rparr>
             in case handle_read tot chunk req (srv req) st' of
                  (Some e, st'') \<Rightarrow> Failed e st''
                | (None, st'') \<Rightarrow> download_loop tot chunk evs st'')
        | ReplyCancelled i srv resolved \<Rightarrow>
            (let req = pick i (dl_inflight st);
                 st' = st\<lparr>dl_inflight := unpick i (dl_inflight st)\<rparr>
             in Failed TransferCancelled (cancel_flush req (srv req) resolved st')))"

definition download_inner ::
  "nat \<Rightarrow> nat \<Rightarrow> nat \<Rightarrow> download_event list \<Rightarrow> sink
     \<Rightarrow> (transfer_error, download_state) transfer_outcome" where
  "download_inner tot start chunk evs s =
     download_loop tot chunk evs (download_start tot start chunk s)"

text \<open>
  \<open>download\<close> and \<open>download_from_handle\<close>.  \<open>DlNothing\<close> is the early return; the opened handle
  of \<open>download\<close> is closed whatever the outcome of the loop.
\<close>

datatype download_run =
    DlNothing sink
  | DlOpenFailed transfer_error sink
  | DlRan "(transfer_error, download_state) transfer_outcome"

definition download_from_handle ::
  "nat \<Rightarrow> nat \<Rightarrow> nat \<Rightarrow> download_event list \<Rightarrow> sink \<Rightarrow> download_run" where
  "download_from_handle tot start chunk evs s =
     (if tot = 0 \<or> tot \<le> start then DlNothing s
      else DlRan (download_inner tot start chunk evs s))"

datatype handle_op = OpenHandle | CloseHandle

definition download ::
  "string + rstring \<Rightarrow> nat \<Rightarrow> nat \<Rightarrow> nat \<Rightarrow> download_event list \<Rightarrow> sink
     \<Rightarrow> download_run \<times> handle_op list" where
  "download opened tot start chunk evs s =
     (if tot = 0 \<or> tot \<le> start then (DlNothing s, [])
      else case opened of
          Inl e \<Rightarrow> (DlOpenFailed (OpenFailed e) s, [OpenHandle])
        | Inr handle \<Rightarrow>
            (case download_inner tot start chunk evs s of
               Waiting st \<Rightarrow> (DlRan (Waiting st), [OpenHandle])
             | outcome \<Rightarrow> (DlRan outcome, [OpenHandle, CloseHandle])))"

fun run_sink :: "download_run \<Rightarrow> sink" where
  "run_sink (DlNothing s) = s"
| "run_sink (DlOpenFailed e s) = s"
| "run_sink (DlRan r) = dl_sink (outcome_state r)"

fun run_ok :: "download_run \<Rightarrow> bool" where
  "run_ok (DlNothing s) = True"
| "run_ok (DlRan (Finished st)) = True"
| "run_ok _ = False"


section \<open>What a download maintains\<close>

definition file_slice :: "bytes \<Rightarrow> nat \<Rightarrow> nat \<Rightarrow> bytes" where
  "file_slice f a b = take (b - a) (drop a f)"

lemma slice_same [simp]: "file_slice f a a = []"
  by (simp add: file_slice_def)

lemma slice_append:
  "a \<le> b \<Longrightarrow> file_slice f a b @ file_slice f b (b + n) = file_slice f a (b + n)"
proof -
  assume "a \<le> b"
  then have "b + n - a = (b - a) + n" "drop b f = drop (b - a) (drop a f)" by simp_all
  then show ?thesis by (simp only: file_slice_def take_add diff_add_inverse)
qed

lemma slice_take: "a \<le> c \<Longrightarrow> take n (file_slice f a c) = file_slice f a (min (a + n) c)"
  by (simp add: file_slice_def min_def take_take)

fun in_chunk :: "nat \<Rightarrow> nat \<times> bytes \<Rightarrow> bool" where
  "in_chunk p (k, b) \<longleftrightarrow> k \<le> p \<and> p < k + length b"

fun in_request :: "nat \<Rightarrow> nat \<times> nat \<Rightarrow> bool" where
  "in_request p (k, l) \<longleftrightarrow> k \<le> p \<and> p < k + l"

text \<open>A chunk holds the bytes of the remote file at its offset, within the transferred part.\<close>

fun chunk_ok :: "bytes \<Rightarrow> nat \<Rightarrow> nat \<times> bytes \<Rightarrow> bool" where
  "chunk_ok remote tot (k, b) \<longleftrightarrow> k + length b \<le> tot \<and> b = file_slice remote k (k + length b)"

fun chunk_before :: "nat \<times> bytes \<Rightarrow> nat \<times> bytes \<Rightarrow> bool" where
  "chunk_before (k, b) (k', b') \<longleftrightarrow> k < k' \<and> k + length b \<le> k'"

text \<open>How often a position is written, buffered, requested or still to be requested.\<close>

definition covered :: "nat \<Rightarrow> download_state \<Rightarrow> nat" where
  "covered p st =
     (if p < dl_cursor st then 1 else 0) + length (filter (in_chunk p) (dl_reorder st))
     + length (filter (in_request p) (dl_inflight st)) + (if dl_next st \<le> p then 1 else 0)"

text \<open>The part of the invariant that makes the local file a prefix.\<close>

definition prefix_inv :: "bytes \<Rightarrow> nat \<Rightarrow> nat \<Rightarrow> bytes \<Rightarrow> download_state \<Rightarrow> bool" where
  "prefix_inv remote tot start base st \<longleftrightarrow>
     start \<le> dl_cursor st \<and> dl_cursor st \<le> tot
     \<and> sink_data (dl_sink st) = base @ file_slice remote start (dl_cursor st)
     \<and> list_all (chunk_ok remote tot) (dl_reorder st)"

text \<open>
  The rest, for a state in which the positions \<open>hole\<close> are being answered: every other position
  is covered once, the buffered chunks are ordered, disjoint and beyond the cursor, and an
  empty chunk stands for a request that is outstanding.
\<close>

definition cover_inv ::
  "nat \<Rightarrow> nat \<Rightarrow> nat \<Rightarrow> nat \<times> nat \<Rightarrow> download_state \<Rightarrow> bool" where
  "cover_inv tot start chunk hole st \<longleftrightarrow>
     dl_next st \<le> tot
     \<and> sorted_wrt chunk_before (dl_reorder st)
     \<and> (\<forall>x \<in> set (dl_reorder st). dl_cursor st < fst x)
     \<and> (\<forall>x \<in> set (dl_reorder st). snd x = [] \<longrightarrow>
          (fst x = fst hole \<and> 0 < snd hole) \<or> (\<exists>q \<in> set (dl_inflight st). fst q = fst x))
     \<and> (\<forall>q \<in> set (dl_inflight st). 0 < snd q \<and> snd q \<le> chunk \<and> start \<le> fst q
          \<and> fst q + snd q \<le> dl_next st)
     \<and> (\<forall>p. start \<le> p \<longrightarrow> p < tot \<longrightarrow> covered p st = (if in_request p hole then 0 else 1))"

definition download_inv ::
  "bytes \<Rightarrow> nat \<Rightarrow> nat \<Rightarrow> nat \<Rightarrow> bytes \<Rightarrow> download_state \<Rightarrow> bool" where
  "download_inv remote tot start chunk base st \<longleftrightarrow>
     prefix_inv remote tot start base st \<and> cover_inv tot start chunk (0, 0) st
     \<and> (dl_next st < tot \<longrightarrow> dl_inflight st \<noteq> [])"

text \<open>
  A server that answers with the bytes of the file at the offset, at most as many as were
  asked for, or with an error.
\<close>

definition honest_reply :: "bytes \<Rightarrow> nat \<times> nat \<Rightarrow> read_result \<Rightarrow> bool" where
  "honest_reply remote req res \<longleftrightarrow>
     (case res of
        ReadError _ \<Rightarrow> True
      | ReadData bs \<Rightarrow>
          length bs \<le> snd req \<and> bs = file_slice remote (fst req) (fst req + length bs))"

definition honest_server :: "bytes \<Rightarrow> read_server \<Rightarrow> bool" where
  "honest_server remote srv \<longleftrightarrow> (\<forall>req. honest_reply remote req (srv req))"

fun honest_event :: "bytes \<Rightarrow> download_event \<Rightarrow> bool" where
  "honest_event remote (Reply i srv) \<longleftrightarrow> honest_server remote srv"
| "honest_event remote (ReplyCancelled i srv resolved) \<longleftrightarrow>
     honest_server remote srv \<and> list_all (\<lambda>(j, s). honest_server remote s) resolved"

section \<open>Lists of requests and chunks\<close>

lemma unpick_split:
  assumes "xs \<noteq> []"
  obtains ys zs where "xs = ys @ pick i xs # zs" "unpick i xs = ys @ zs"
proof
  have "i mod length xs < length xs" using assms by simp
  then show "xs = take (i mod length xs) xs @ pick i xs # drop (Suc (i mod length xs)) xs"
    unfolding pick_def by (rule id_take_nth_drop)
  show "unpick i xs = take (i mod length xs) xs @ drop (Suc (i mod length xs)) xs"
    by (simp add: unpick_def Let_def)
qed

lemma filter_unpick:
  "xs \<noteq> [] \<Longrightarrow> length (filter P xs)
     = (if P (pick i xs) then 1 else 0) + length (filter P (unpick i xs))"
  by (rule unpick_split [of xs i]) (simp_all, metis (no_types, lifting) One_nat_def add_Suc_right
    filter.simps(2) filter_append length_Cons length_append plus_1_eq_Suc)

lemma pick_in: "xs \<noteq> [] \<Longrightarrow> pick i xs \<in> set xs"
  by (simp add: pick_def)

lemma set_unpick: "set (unpick i xs) \<subseteq> set xs"
  by (auto simp: unpick_def Let_def dest: in_set_takeD in_set_dropD)

lemma set_pick_unpick: "xs \<noteq> [] \<Longrightarrow> set xs = insert (pick i xs) (set (unpick i xs))"
  by (rule unpick_split [of xs i]) (simp, metis Un_insert_right list.simps(15) set_append)

lemma length_unpick: "xs \<noteq> [] \<Longrightarrow> length xs = Suc (length (unpick i xs))"
  using filter_unpick [of xs "\<lambda>_. True" i] by simp

lemma sum_unpick:
  "xs \<noteq> [] \<Longrightarrow> sum_list (map f xs) = f (pick i xs) + (sum_list (map f (unpick i xs)) :: nat)"
  by (rule unpick_split [of xs i]) (simp_all, metis (no_types, opaque_lifting) add.left_commute
    list.simps(9) map_append sum_list.Cons sum_list_append)

lemma btree_insert_sorted:
  "sorted_wrt chunk_before m \<Longrightarrow>
   (\<And>x. x \<in> set m \<Longrightarrow> fst x = k \<or> chunk_before x (k, b) \<or> chunk_before (k, b) x) \<Longrightarrow>
   sorted_wrt chunk_before (btree_insert k b m)
   \<and> set (btree_insert k b m) = insert (k, b) {x \<in> set m. fst x \<noteq> k}"
proof (induction m)
  case Nil
  then show ?case by simp
next
  case (Cons x m)
  obtain k' b' where x: "x = (k', b')" by (cases x)
  from Cons have IH: "sorted_wrt chunk_before (btree_insert k b m)"
    "set (btree_insert k b m) = insert (k, b) {x \<in> set m. fst x \<noteq> k}" by auto
  have later: "k' < fst y" "k' + length b' \<le> fst y" if "y \<in> set m" for y
    using Cons.prems(1) that by (cases y, fastforce simp: x)+
  have rel: "k' = k \<or> chunk_before (k', b') (k, b) \<or> chunk_before (k, b) (k', b')"
    using Cons.prems(2) [of x] by (simp add: x)
  consider "k < k'" | "k = k'" | "k' < k" by linarith
  then show ?case
  proof cases
    case 1
    with rel have "chunk_before (k, b) (k', b')" by auto
    moreover have "chunk_before (k, b) y" if "y \<in> set m" for y
      using 1 later [OF that] Cons.prems(2) [of y] that by (cases y) fastforce
    ultimately show ?thesis using 1 Cons.prems(1) later by (fastforce simp: x)
  next
    case 2
    have "chunk_before (k, b) y" if "y \<in> set m" for y
      using 2 later [OF that] Cons.prems(2) [of y] that by (cases y) fastforce
    then show ?thesis using 2 Cons.prems(1) later by (fastforce simp: x)
  next
    case 3
    with rel have "chunk_before (k', b') (k, b)" by auto
    then show ?thesis using 3 Cons.prems(1) IH by (auto simp: x)
  qed
qed

lemma btree_insert_count:
  "sorted_wrt chunk_before m \<Longrightarrow> (\<And>x. x \<in> set m \<Longrightarrow> fst x = k \<Longrightarrow> snd x = []) \<Longrightarrow>
   length (filter (in_chunk p) (btree_insert k b m))
     = (if in_chunk p (k, b) then 1 else 0) + length (filter (in_chunk p) m)"
proof (induction m)
  case Nil
  then show ?case by simp
next
  case (Cons x m)
  obtain k' b' where x: "x = (k', b')" by (cases x)
  from Cons have IH: "length (filter (in_chunk p) (btree_insert k b m))
      = (if in_chunk p (k, b) then 1 else 0) + length (filter (in_chunk p) m)" by auto
  have "k = k' \<longrightarrow> b' = []" using Cons.prems(2) [of x] by (auto simp: x)
  then show ?case using IH by (auto simp: x)
qed

section \<open>Draining the reorder buffer\<close>

text \<open>
  Without faults both drains do the same, and neither changes how often a position is
  covered.
\<close>

lemma write_all_no_fault [simp]:
  "sink_faults s = [] \<Longrightarrow> write_all bs s = (True, s\<lparr>sink_data := sink_data s @ bs\<rparr>)"
  by (simp add: write_all.simps)

lemma write_all_data:
  "write_all bs s = (ok, s') \<Longrightarrow>
     \<exists>n. sink_data s' = sink_data s @ take n bs \<and> (ok \<longrightarrow> length bs \<le> n)"
  by (auto simp: write_all.simps intro: exI [of _ "length bs"] split: list.splits option.splits)

lemma write_all_cases:
  obtains s' where "write_all bs s = (True, s')" "sink_data s' = sink_data s @ bs"
  | s' n where "write_all bs s = (False, s')" "sink_data s' = sink_data s @ take n bs"
  by (cases "write_all bs s") (metis (full_types) take_all write_all_data)

lemma drain_ignoring_eq:
  "sink_faults s = [] \<Longrightarrow> drain_reorder cur m s = (True, drain_ignoring cur m s)"
  by (induction cur m s rule: drain_reorder.induct) simp_all

lemma drain_cover:
  "drain_reorder cur m s = (True, cur', m', s') \<Longrightarrow>
     (if p < cur' then 1 else (0 :: nat)) + length (filter (in_chunk p) m')
     = (if p < cur then 1 else 0) + length (filter (in_chunk p) m)"
proof (induction cur m s rule: drain_reorder.induct)
  case (1 cur s)
  then show ?case by simp
next
  case (2 cur k b m s)
  show ?case
  proof (cases "k = cur")
    case False
    with 2 show ?thesis by simp
  next
    case True
    with "2.prems" obtain s1 where w: "write_all b s = (True, s1)"
      by (auto split: prod.splits bool.splits)
    with "2.prems" True have d: "drain_reorder (cur + length b) m s1 = (True, cur', m', s')"
      by simp
    from "2.IH" [OF _ w [symmetric] refl d] True show ?thesis by auto
  qed
qed

lemma drain_order:
  "drain_reorder cur m s = (True, cur', m', s') \<Longrightarrow> sorted_wrt chunk_before m \<Longrightarrow>
   (\<forall>x \<in> set m. cur \<le> fst x) \<Longrightarrow>
     sorted_wrt chunk_before m' \<and> set m' \<subseteq> set m \<and> (\<forall>x \<in> set m'. cur' < fst x)"
proof (induction cur m s rule: drain_reorder.induct)
  case (1 cur s)
  then show ?case by simp
next
  case (2 cur k b m s)
  have later: "k < fst y" "k + length b \<le> fst y" if "y \<in> set m" for y
    using "2.prems"(2) that by (cases y, fastforce)+
  show ?case
  proof (cases "k = cur")
    case False
    with "2.prems" have e: "cur' = cur" "m' = (k, b) # m" by auto
    have "cur < fst x" if "x \<in> set m'" for x
      using that later(1) [of x] False "2.prems"(3) by (cases "x = (k, b)") (auto simp: e)
    then show ?thesis using "2.prems"(2) by (auto simp: e)
  next
    case True
    with "2.prems" obtain s1 where w: "write_all b s = (True, s1)"
      by (auto split: prod.splits bool.splits)
    with "2.prems" True have d: "drain_reorder (cur + length b) m s1 = (True, cur', m', s')"
      by simp
    have "sorted_wrt chunk_before m" "\<forall>x \<in> set m. cur + length b \<le> fst x"
      using "2.prems"(2) later(2) True by auto
    from "2.IH" [OF _ w [symmetric] refl d this] True show ?thesis by auto
  qed
qed

text \<open>The bytes that a drain writes continue the prefix, whether or not a write fails.\<close>

lemma slice_step:
  "start \<le> cur \<Longrightarrow> b = file_slice remote cur (cur + length b) \<Longrightarrow>
     file_slice remote start cur @ b = file_slice remote start (cur + length b)"
  using slice_append [of start cur remote "length b"] by metis

lemma slice_partial:
  "start \<le> cur \<Longrightarrow> b = file_slice remote cur (cur + length b) \<Longrightarrow>
     file_slice remote start cur @ take n b = file_slice remote start (cur + min n (length b))"
proof -
  assume a: "start \<le> cur" "b = file_slice remote cur (cur + length b)"
  have "take n b = file_slice remote cur (cur + min n (length b))"
    by (subst a(2)) (simp add: slice_take min_add_distrib_right)
  then show ?thesis using slice_append [OF a(1)] by simp
qed

lemma drain_prefix:
  "drain_reorder cur m s = (ok, cur', m', s') \<Longrightarrow> start \<le> cur \<Longrightarrow> cur \<le> tot \<Longrightarrow>
   list_all (chunk_ok remote tot) m \<Longrightarrow> sink_data s = base @ file_slice remote start cur \<Longrightarrow>
     list_all (chunk_ok remote tot) m' \<and> start \<le> cur' \<and> cur' \<le> tot
     \<and> (ok \<longrightarrow> sink_data s' = base @ file_slice remote start cur')
     \<and> (\<exists>c. start \<le> c \<and> c \<le> tot \<and> sink_data s' = base @ file_slice remote start c)"
proof (induction cur m s rule: drain_reorder.induct)
  case (1 cur s)
  then show ?case by auto
next
  case (2 cur k b m s)
  show ?case
  proof (cases "k = cur")
    case False
    with 2 show ?thesis by auto
  next
    case True
    with "2.prems" have b: "b = file_slice remote cur (cur + length b)" "cur + length b \<le> tot" by simp_all
    show ?thesis
    proof (cases rule: write_all_cases [of b s])
      case (1 s1)
      with "2.prems" True have d: "drain_reorder (cur + length b) m s1 = (ok, cur', m', s')"
        by simp
      have "sink_data s1 = base @ file_slice remote start (cur + length b)"
        using 1(2) "2.prems"(5) slice_step [OF "2.prems"(2) b(1)] by simp
      with "2.IH" [OF _ 1(1) [symmetric] refl d] "2.prems" b(2) True show ?thesis by simp
    next
      case (2 s1 n)
      with "2.prems" True have e: "ok = False" "cur' = cur" "m' = m" "s' = s1" by simp_all
      have "sink_data s1 = base @ file_slice remote start (cur + min n (length b))"
        using 2(2) "2.prems"(5) slice_partial [OF "2.prems"(2) b(1)] by simp
      moreover have "cur + min n (length b) \<le> tot" using b(2) by simp
      ultimately show ?thesis using "2.prems" True unfolding e
        by (auto intro!: exI [of _ "cur + min n (length b)"])
    qed
  qed
qed

section \<open>One reply keeps the invariant\<close>

definition take_request :: "nat \<Rightarrow> download_state \<Rightarrow> download_state" where
  "take_request i st = st\<lparr>dl_inflight := unpick i (dl_inflight st)\<rparr>"

lemma take_request_sel [simp]:
  "dl_next (take_request i st) = dl_next st" "dl_reorder (take_request i st) = dl_reorder st"
  "dl_cursor (take_request i st) = dl_cursor st" "dl_sink (take_request i st) = dl_sink st"
  "dl_inflight (take_request i st) = unpick i (dl_inflight st)"
  by (simp_all add: take_request_def)

lemma not_in_request_00 [simp]: "\<not> in_request p (0, 0)"
  by simp

definition request_ok :: "nat \<Rightarrow> nat \<Rightarrow> nat \<times> nat \<Rightarrow> download_state \<Rightarrow> bool" where
  "request_ok start chunk q st \<longleftrightarrow>
     0 < snd q \<and> snd q \<le> chunk \<and> start \<le> fst q \<and> fst q + snd q \<le> dl_next st"

lemma take_request_inv:
  assumes "download_inv remote tot start chunk base st" "dl_inflight st \<noteq> []"
    and q_def: "q = pick i (dl_inflight st)"
  shows "prefix_inv remote tot start base (take_request i st)
    \<and> cover_inv tot start chunk q (take_request i st)
    \<and> request_ok start chunk q (take_request i st)"
proof -
  note set_eq = set_pick_unpick [OF assms(2), of i, folded q_def]
  have c: "covered p st = (if in_request p q then 1 else 0) + covered p (take_request i st)" for p
    using filter_unpick [OF assms(2), of "in_request p" i] by (simp add: covered_def q_def)
  have inv: "cover_inv tot start chunk (0, 0) st" "prefix_inv remote tot start base st"
    using assms(1) by (simp_all add: download_inv_def)
  have H: "covered p (take_request i st) = (if in_request p q then 0 else 1)"
    if "start \<le> p" "p < tot" for p
  proof -
    have "covered p st = 1" using inv(1) that by (simp add: cover_inv_def)
    with c [of p] show ?thesis by (cases "in_request p q") simp_all
  qed
  have R: "request_ok start chunk r st" if "r \<in> set (dl_inflight st)" for r
    using inv(1) that by (simp add: cover_inv_def request_ok_def)
  have q: "q \<in> set (dl_inflight st)" using pick_in [OF assms(2)] by (simp add: q_def)
  have E: "(fst x = fst q \<and> 0 < snd q) \<or> (\<exists>r \<in> set (unpick i (dl_inflight st)). fst r = fst x)"
    if x: "x \<in> set (dl_reorder st)" "snd x = []" for x
  proof -
    obtain r where r: "r \<in> set (dl_inflight st)" "fst r = fst x"
      using inv(1) x unfolding cover_inv_def by fastforce
    show ?thesis
    proof (cases "r = q")
      case True
      with r R [OF q] show ?thesis by (simp add: request_ok_def)
    next
      case False
      with r show ?thesis unfolding set_eq by blast
    qed
  qed
  have "cover_inv tot start chunk q (take_request i st)"
    using inv(1) H E R set_unpick [of i "dl_inflight st"]
    unfolding cover_inv_def request_ok_def take_request_sel by blast
  with inv(2) R [OF q] show ?thesis by (simp add: prefix_inv_def request_ok_def)
qed

lemma request_next_inv:
  assumes "prefix_inv remote tot start base st" "cover_inv tot start chunk hole st"
    and "dl_next st < tot" "0 < chunk" "start \<le> dl_next st"
  shows "prefix_inv remote tot start base (request_next tot chunk st)
    \<and> cover_inv tot start chunk hole (request_next tot chunk st)
    \<and> dl_inflight (request_next tot chunk st) \<noteq> []"
proof -
  let ?l = "min chunk (tot - dl_next st)"
  have c: "covered p (request_next tot chunk st) = covered p st" if "p < tot" for p
    using that assms(3) by (auto simp: covered_def request_next_def queue_read_def Let_def min_def)
  have "0 < ?l" "?l \<le> chunk" "dl_next st + ?l \<le> tot" using assms(3,4) by auto
  with assms c show ?thesis
    by (auto simp: prefix_inv_def cover_inv_def request_next_def queue_read_def Let_def)
qed

text \<open>A gap request covers the part of the hole that the reply did not.\<close>

lemma covered_hole:
  "cover_inv tot start chunk (off, l) st \<Longrightarrow> start \<le> off \<Longrightarrow> off \<le> p \<Longrightarrow> p < off + l \<Longrightarrow>
   off + l \<le> tot \<Longrightarrow> covered p st = 0"
  by (simp add: cover_inv_def)

lemma covered_zero:
  "covered p st = 0 \<Longrightarrow>
     dl_cursor st \<le> p \<and> p < dl_next st \<and> (\<forall>x \<in> set (dl_reorder st). \<not> in_chunk p x)
     \<and> (\<forall>q \<in> set (dl_inflight st). \<not> in_request p q)"
  by (auto simp: covered_def filter_empty_conv split: if_splits)

text \<open>The buffered chunks lie before or after the answered request.\<close>

lemma hole_apart:
  assumes "cover_inv tot start chunk (off, l) st" "start \<le> off" "off + l \<le> tot" "0 < l"
    and "x \<in> set (dl_reorder st)" "fst x \<noteq> off"
  shows "off + l \<le> fst x \<or> fst x + length (snd x) \<le> off \<and> fst x < off"
proof -
  obtain k b where x: "x = (k, b)" by (cases x)
  have zero: "covered p st = 0" if "off \<le> p" "p < off + l" for p
    using assms(1-3) that by (intro covered_hole [where l = l])
  have no_chunk: "\<not> (k \<le> p \<and> p < k + length b)" if "off \<le> p" "p < off + l" for p
    using covered_zero [OF zero [OF that]] assms(5) by (auto simp: x)
  have "k < off \<or> off + l \<le> k"
  proof (rule ccontr)
    assume "\<not> ?thesis"
    then have k: "off \<le> k" "k < off + l" by simp_all
    with no_chunk [of k] have "snd x = []" by (simp add: x)
    with assms(1,5,6) obtain q where q: "q \<in> set (dl_inflight st)" "fst q = k"
      unfolding cover_inv_def by (fastforce simp: x)
    with assms(1) have "in_request k q" unfolding cover_inv_def by (cases q) fastforce
    with q(1) covered_zero [OF zero [OF k]] show False by blast
  qed
  then show ?thesis using no_chunk [of off] assms(4) by (auto simp: x)
qed

lemma store_chunk_prefix:
  assumes "prefix_inv remote tot start base st" "chunk_ok remote tot (off, bs)"
    and "store_chunk off bs st = (ok, st')"
  shows "(ok \<longrightarrow> prefix_inv remote tot start base st')
    \<and> (\<exists>c. start \<le> c \<and> c \<le> tot \<and> sink_data (dl_sink st') = base @ file_slice remote start c)"
proof (cases "off = dl_cursor st")
  case False
  have "list_all (chunk_ok remote tot) (btree_insert off bs m)"
    if "list_all (chunk_ok remote tot) m" for m
    using that assms(2) by (induction m) auto
  with False assms show ?thesis by (auto simp: store_chunk_def prefix_inv_def)
next
  case True
  let ?c = "dl_cursor st"
  have pre: "start \<le> ?c" "sink_data (dl_sink st) = base @ file_slice remote start ?c"
    "list_all (chunk_ok remote tot) (dl_reorder st)"
    using assms(1) by (simp_all add: prefix_inv_def)
  have b: "bs = file_slice remote ?c (?c + length bs)" "?c + length bs \<le> tot"
    using assms(2) True by simp_all
  show ?thesis
  proof (cases rule: write_all_cases [of bs "dl_sink st"])
    case (1 s)
    obtain ok' cur m s' where d: "drain_reorder (?c + length bs) (dl_reorder st) s = (ok', cur, m, s')"
      by (metis prod_cases4)
    have "sink_data s = base @ file_slice remote start (?c + length bs)"
      using 1(2) pre(2) slice_step [OF pre(1) b(1)] by simp
    from drain_prefix [OF d _ b(2) pre(3) this] pre(1)
    show ?thesis using assms(3) True 1(1) d by (auto simp: store_chunk_def prefix_inv_def)
  next
    case (2 s n)
    have "sink_data s = base @ file_slice remote start (?c + min n (length bs))"
      using 2(2) pre(2) slice_partial [OF pre(1) b(1)] by simp
    moreover have "?c + min n (length bs) \<le> tot" using b(2) by simp
    ultimately show ?thesis using assms(3) True 2(1) pre(1)
      by (auto simp: store_chunk_def intro!: exI [of _ "?c + min n (length bs)"])
  qed
qed

lemma store_chunk_cover:
  assumes cov: "cover_inv tot start chunk (off, length bs) st"
    and apart: "\<And>x. x \<in> set (dl_reorder st) \<Longrightarrow> fst x \<noteq> off \<Longrightarrow>
          off + length bs \<le> fst x \<and> off < fst x \<or> fst x + length (snd x) \<le> off \<and> fst x < off"
    and same: "\<And>x. x \<in> set (dl_reorder st) \<Longrightarrow> fst x = off \<Longrightarrow> snd x = []"
    and cur: "dl_cursor st \<le> off"
    and gap: "bs = [] \<Longrightarrow> \<exists>q \<in> set (dl_inflight st). fst q = off"
    and ok: "store_chunk off bs st = (True, st')"
  shows "cover_inv tot start chunk (0, 0) st'"
proof (cases "off = dl_cursor st")
  case True
  with ok obtain s cur' m s' where
    d: "drain_reorder (off + length bs) (dl_reorder st) s = (True, cur', m, s')" and
    st': "st' = st\<lparr>dl_cursor := cur', dl_reorder := m, dl_sink := s'\<rparr>"
    by (auto simp: store_chunk_def split: prod.splits bool.splits)
  have o: "sorted_wrt chunk_before (dl_reorder st)" "\<forall>x \<in> set (dl_reorder st). off + length bs \<le> fst x"
    using cov apart True unfolding cover_inv_def by fastforce+
  note m = drain_order [OF d o]
  have "covered p st' = (if in_request p (off, length bs) then 1 else 0) + covered p st" for p
    using drain_cover [OF d, of p] True by (auto simp: covered_def st')
  moreover have "(\<exists>q \<in> set (dl_inflight st). fst q = fst x)"
    if "x \<in> set m" "snd x = []" for x
    using that m cov True unfolding cover_inv_def by fastforce
  ultimately show ?thesis using cov m unfolding cover_inv_def by (auto simp: st')
next
  case False
  with ok have st': "st' = st\<lparr>dl_reorder := btree_insert off bs (dl_reorder st)\<rparr>"
    by (simp add: store_chunk_def)
  have o: "sorted_wrt chunk_before (dl_reorder st)" using cov by (simp add: cover_inv_def)
  have "fst x = off \<or> chunk_before x (off, bs) \<or> chunk_before (off, bs) x"
    if "x \<in> set (dl_reorder st)" for x
    using apart [OF that] by (cases x) auto
  note ins = btree_insert_sorted [OF o this]
  have "covered p st' = (if in_request p (off, length bs) then 1 else 0) + covered p st" for p
    using btree_insert_count [OF o same, of off p bs] by (simp add: covered_def st')
  moreover have "(\<exists>q \<in> set (dl_inflight st). fst q = fst x)"
    if "x \<in> set (dl_reorder st')" "snd x = []" for x
  proof (cases "fst x = off")
    case True
    with that ins have "bs = []" by (auto simp: st')
    with gap True show ?thesis by simp
  next
    case False
    with that ins cov show ?thesis unfolding cover_inv_def by (auto simp: st')
  qed
  moreover have "dl_cursor st < fst x" if "x \<in> set (dl_reorder st')" for x
    using that ins cov False cur unfolding cover_inv_def by (auto simp: st')
  ultimately show ?thesis using cov ins unfolding cover_inv_def by (auto simp: st')
qed

text \<open>The gap request of a short reply leaves exactly the reply as the hole.\<close>

lemma gap_cover:
  assumes "cover_inv tot start chunk (off, l) st" "n \<le> l" "l \<le> chunk" "off + l \<le> dl_next st"
    "start \<le> off"
  shows "cover_inv tot start chunk (off, n)
     (if n < l then queue_read (off + n) (l - n) st else st)"
proof (cases "n < l")
  case False
  with assms show ?thesis by (simp)
next
  case True
  have "covered p (queue_read (off + n) (l - n) st)
      = covered p st + (if in_request p (off + n, l - n) then 1 else 0)" for p
    by (simp add: covered_def queue_read_def)
  then have c: "covered p (queue_read (off + n) (l - n) st) = (if in_request p (off, n) then 0 else 1)"
    if "start \<le> p" "p < tot" for p
    using assms(1,2) that by (auto simp: cover_inv_def)
  have "(fst x = off \<and> 0 < n) \<or> (\<exists>q \<in> set (dl_inflight (queue_read (off + n) (l - n) st)). fst q = fst x)"
    if "x \<in> set (dl_reorder st)" "snd x = []" for x
    using assms(1) that True unfolding cover_inv_def by (cases n) (auto simp: queue_read_def)
  with assms c True show ?thesis
    unfolding cover_inv_def by (auto simp: queue_read_def)
qed

lemma store_chunk_frame:
  "store_chunk off bs st = (ok, st') \<Longrightarrow>
     dl_next st' = dl_next st \<and> dl_inflight st' = dl_inflight st
     \<and> dl_progress st' = dl_progress st"
  by (auto simp: store_chunk_def split: if_splits prod.splits bool.splits)

text \<open>Bytes that are outstanding: requested, or not yet requested.\<close>

definition outstanding :: "nat \<Rightarrow> download_state \<Rightarrow> nat" where
  "outstanding tot st = sum_list (map snd (dl_inflight st)) + (tot - dl_next st)"

lemma outstanding_request_next:
  "outstanding tot (request_next tot chunk st) = outstanding tot st"
  by (simp add: outstanding_def request_next_def queue_read_def Let_def)

lemma handle_read_inv:
  assumes "prefix_inv remote tot start base st" "cover_inv tot start chunk q st"
    and "request_ok start chunk q st" "honest_reply remote q res"
    and "handle_read tot chunk q res st = (err, st')"
  shows "(err = None \<longrightarrow> download_inv remote tot start chunk base st'
        \<and> (\<exists>bs. res = ReadData bs \<and> outstanding tot st' + length bs = outstanding tot st + snd q))
    \<and> (\<exists>c. start \<le> c \<and> c \<le> tot \<and> sink_data (dl_sink st') = base @ file_slice remote start c)"
proof (cases res)
  case (ReadError e)
  with assms show ?thesis by (auto simp: handle_read_def prefix_inv_def)
next
  case (ReadData bs)
  obtain off l where q: "q = (off, l)" by (cases q)
  have l: "0 < l" "l \<le> chunk" "start \<le> off" "off + l \<le> dl_next st"
    using assms(3) by (simp_all add: request_ok_def q)
  have next_tot: "dl_next st \<le> tot" using assms(2) by (simp add: cover_inv_def)
  have r: "length bs \<le> l" "chunk_ok remote tot (off, bs)"
    using assms(4) l next_tot by (simp_all add: honest_reply_def ReadData q)
  define st1 where "st1 = st\<lparr>dl_progress := dl_progress st @ [length bs]\<rparr>"
  define st2 where "st2 = (if length bs < l then queue_read (off + length bs) (l - length bs) st1 else st1)"
  have gapfill: "length bs < l \<and> off + length bs < tot \<longleftrightarrow> length bs < l"
    using l(4) next_tot by auto
  have sel: "dl_reorder st2 = dl_reorder st" "dl_cursor st2 = dl_cursor st" "dl_next st2 = dl_next st"
    "dl_sink st2 = dl_sink st"
    by (simp_all add: st2_def st1_def queue_read_def)
  have p2: "prefix_inv remote tot start base st2" using assms(1) by (simp add: prefix_inv_def sel)
  have c1: "cover_inv tot start chunk (off, l) st1"
    using assms(2) by (simp add: cover_inv_def st1_def covered_def q)
  have c2: "cover_inv tot start chunk (off, length bs) st2"
    using gap_cover [OF c1 r(1) l(2)] l(3,4) by (simp add: st2_def st1_def)
  have hole: "off + l \<le> tot" using l(4) next_tot by simp
  obtain ok st3 where s: "store_chunk off bs st2 = (ok, st3)" by (metis prod.exhaust)
  note pre = store_chunk_prefix [OF p2 r(2) s]
  show ?thesis
  proof (cases ok)
    case False
    with assms(5) s have "err = Some LocalWriteFailed" "st' = st3"
      by (simp_all add: handle_read_def ReadData q Let_def gapfill st2_def st1_def cong: if_cong)
    with pre show ?thesis by simp
  next
    case True
    have zero: "covered off st1 = 0" using c1 l hole by (simp add: cover_inv_def)
    have cov: "cover_inv tot start chunk (0, 0) st3"
    proof (rule store_chunk_cover [OF c2])
      show "off + length bs \<le> fst x \<and> off < fst x \<or> fst x + length (snd x) \<le> off \<and> fst x < off"
        if "x \<in> set (dl_reorder st2)" "fst x \<noteq> off" for x
        using hole_apart [OF c1 l(3) hole l(1), of x] that r(1) l(1)
        by (auto simp: st1_def sel)
      show "snd x = []" if "x \<in> set (dl_reorder st2)" "fst x = off" for x
        using covered_zero [OF zero] that by (cases x) (auto simp: st1_def sel)
      show "dl_cursor st2 \<le> off" using covered_zero [OF zero] by (simp add: st1_def sel)
      show "\<exists>q \<in> set (dl_inflight st2). fst q = off" if "bs = []"
        using that l(1) by (auto simp: st2_def queue_read_def)
      show "store_chunk off bs st2 = (True, st3)" using s True by simp
    qed
    note frame = store_chunk_frame [OF s]
    have e: "err = None"
      "st' = (if \<not> length bs < l \<and> dl_next st3 < tot then request_next tot chunk st3 else st3)"
      using assms(5) s True
      by (simp_all add: handle_read_def ReadData q Let_def gapfill st2_def st1_def cong: if_cong)
    have out: "outstanding tot st3 + length bs = outstanding tot st + l"
      using r(1) frame by (simp add: outstanding_def st2_def st1_def queue_read_def)
    have gap: "length bs < l \<Longrightarrow> dl_inflight st3 \<noteq> []"
      using frame by (simp add: st2_def queue_read_def)
    have nx: "start \<le> dl_next st3" using frame sel l by simp
    have "download_inv remote tot start chunk base st'"
      using request_next_inv [OF _ cov, of remote base] nx l pre True cov gap
      by (auto simp: e(2) download_inv_def)
    moreover have "sink_data (dl_sink st') = sink_data (dl_sink st3)"
      by (simp add: e(2) request_next_def queue_read_def Let_def)
    moreover have "outstanding tot st' = outstanding tot st3"
      by (simp add: e(2) outstanding_request_next)
    ultimately show ?thesis using e(1) out pre ReadData by (simp add: q)
  qed
qed

section \<open>The start and the end of a download\<close>

lemma seed_reads_inv:
  "prefix_inv remote tot start base st \<Longrightarrow> cover_inv tot start chunk (0, 0) st \<Longrightarrow> 0 < chunk \<Longrightarrow>
   start \<le> dl_next st \<Longrightarrow>
     prefix_inv remote tot start base (seed_reads n tot chunk st)
     \<and> cover_inv tot start chunk (0, 0) (seed_reads n tot chunk st)
     \<and> (dl_inflight st \<noteq> [] \<or> 0 < n \<and> dl_next st < tot \<longrightarrow> dl_inflight (seed_reads n tot chunk st) \<noteq> [])
     \<and> outstanding tot (seed_reads n tot chunk st) = outstanding tot st"
proof (induction n tot chunk st rule: seed_reads.induct)
  case (1 tot chunk st)
  then show ?case by simp
next
  case (2 n tot chunk st)
  show ?case
  proof (cases "dl_next st < tot")
    case False
    with 2 show ?thesis by simp
  next
    case True
    note r = request_next_inv [OF "2.prems"(1,2) True "2.prems"(3,4)]
    have "start \<le> dl_next (request_next tot chunk st)"
      using "2.prems"(4) by (simp add: request_next_def queue_read_def Let_def)
    with "2.IH" [OF True] r "2.prems"(3) True show ?thesis
      by (simp add: outstanding_request_next)
  qed
qed

lemma pipeline_depth_pos: "0 < r \<Longrightarrow> 0 < chunk \<Longrightarrow> 0 < pipeline_depth r chunk"
proof -
  assume a: "0 < r" "0 < chunk"
  have "0 < div_ceil r chunk"
    using a by (cases "r < chunk") (auto simp: div_ceil_def div_greater_zero_iff)
  then show ?thesis by (simp add: pipeline_depth_def Let_def MAX_PIPELINE_DEPTH_def)
qed

lemma download_start_inv:
  assumes "start < tot" "0 < chunk"
  shows "download_inv remote tot start chunk (sink_data s) (download_start tot start chunk s)
    \<and> outstanding tot (download_start tot start chunk s) = tot - start"
proof -
  let ?st = "\<lparr>dl_next = start, dl_inflight = [], dl_reorder = [], dl_cursor = start, dl_sink = s,
        dl_progress = []\<rparr>"
  have "prefix_inv remote tot start (sink_data s) ?st" "cover_inv tot start chunk (0, 0) ?st"
    using assms(1) by (simp_all add: prefix_inv_def cover_inv_def covered_def)
  from seed_reads_inv [OF this assms(2), of "pipeline_depth (tot - start) chunk"] assms
    pipeline_depth_pos [of "tot - start" chunk]
  show ?thesis by (simp add: download_start_def download_inv_def outstanding_def)
qed

text \<open>When nothing is outstanding the cursor has reached the end.\<close>

lemma nothing_inflight_done:
  assumes "download_inv remote tot start chunk base st" "dl_inflight st = []"
  shows "dl_cursor st = tot"
proof (rule ccontr)
  assume "dl_cursor st \<noteq> tot"
  with assms(1) have c: "start \<le> dl_cursor st" "dl_cursor st < tot"
    by (simp_all add: download_inv_def prefix_inv_def)
  have n: "tot \<le> dl_next st" using assms by (auto simp: download_inv_def)
  have "covered (dl_cursor st) st = 1"
    using assms(1) c by (simp add: download_inv_def cover_inv_def)
  moreover have "filter (in_chunk (dl_cursor st)) (dl_reorder st) = []"
    using assms(1) unfolding download_inv_def cover_inv_def filter_empty_conv by fastforce
  ultimately show False using assms(2) n c by (simp add: covered_def)
qed

end
