(* ===== verification/Download_Correct.thy ===== *)
theory Download_Correct
  imports Download
begin

text \<open>
  What the pipelined download guarantees: the loop keeps its invariant under every schedule,
  completes with enough answers, leaves a prefix when it stops early, and keeps the number of
  outstanding requests bounded; and where those guarantees end.
\<close>

section \<open>Cancellation keeps the prefix\<close>

definition faultless :: "sink \<Rightarrow> bool" where
  "faultless s \<longleftrightarrow> list_all (\<lambda>f. f = None) (sink_faults s)"

lemma write_all_faultless:
  "faultless s \<Longrightarrow>
     \<exists>s'. write_all bs s = (True, s') \<and> sink_data s' = sink_data s @ bs \<and> faultless s'"
  by (cases "sink_faults s") (auto simp: faultless_def write_all.simps)

lemma drain_ignoring_prefix:
  "drain_ignoring cur m s = (cur', m', s') \<Longrightarrow> faultless s \<Longrightarrow> start \<le> cur \<Longrightarrow> cur \<le> tot \<Longrightarrow>
   list_all (chunk_ok remote tot) m \<Longrightarrow> sink_data s = base @ file_slice remote start cur \<Longrightarrow>
     list_all (chunk_ok remote tot) m' \<and> start \<le> cur' \<and> cur' \<le> tot \<and> faultless s'
     \<and> sink_data s' = base @ file_slice remote start cur'"
proof (induction cur m s rule: drain_ignoring.induct)
  case (1 cur s)
  then show ?case by auto
next
  case (2 cur k b m s)
  show ?case
  proof (cases "k = cur")
    case False
    with 2 show ?thesis by auto
  next
    case True
    obtain s1 where w: "write_all b s = (True, s1)" "sink_data s1 = sink_data s @ b" "faultless s1"
      using write_all_faultless [OF "2.prems"(2)] by blast
    from "2.prems" True have b: "b = file_slice remote cur (cur + length b)" "cur + length b \<le> tot"
      by simp_all
    have "sink_data s1 = base @ file_slice remote start (cur + length b)"
      using w(2) "2.prems"(6) slice_step [OF "2.prems"(3) b(1)] by simp
    with "2.IH" "2.prems" w True b(2) show ?thesis by simp
  qed
qed

definition flush_inv :: "bytes \<Rightarrow> nat \<Rightarrow> nat \<Rightarrow> bytes \<Rightarrow> download_state \<Rightarrow> bool" where
  "flush_inv remote tot start base st \<longleftrightarrow>
     prefix_inv remote tot start base st \<and> faultless (dl_sink st)
     \<and> (\<forall>q \<in> set (dl_inflight st). fst q + snd q \<le> tot)"

lemma drain_state_inv:
  assumes "flush_inv remote tot start base st"
  shows "flush_inv remote tot start base (drain_state st)"
proof -
  obtain cur m s where d: "drain_ignoring (dl_cursor st) (dl_reorder st) (dl_sink st) = (cur, m, s)"
    by (metis prod_cases3)
  from assms drain_ignoring_prefix [OF d, of start tot remote base]
  show ?thesis by (simp add: flush_inv_def prefix_inv_def drain_state_def d)
qed

lemma flush_chunk_inv:
  assumes "flush_inv remote tot start base st" "chunk_ok remote tot (off, bs)"
  shows "flush_inv remote tot start base (flush_chunk off bs st)"
proof (cases "off = dl_cursor st")
  case True
  obtain s where w: "write_all bs (dl_sink st) = (True, s)" "sink_data s = sink_data (dl_sink st) @ bs"
    "faultless s"
    using write_all_faultless assms(1) unfolding flush_inv_def by blast
  have "sink_data s = base @ file_slice remote start (dl_cursor st + length bs)"
    using w(2) assms True slice_step [of start "dl_cursor st" bs remote]
    by (simp add: flush_inv_def prefix_inv_def)
  with assms w True have "flush_inv remote tot start base
      (st\<lparr>dl_sink := s, dl_cursor := dl_cursor st + length bs\<rparr>)"
    by (simp add: flush_inv_def prefix_inv_def)
  from drain_state_inv [OF this] show ?thesis using w(1) True by (simp add: flush_chunk_def)
next
  case False
  have "list_all (chunk_ok remote tot) (btree_insert off bs m)"
    if "list_all (chunk_ok remote tot) m" for m
    using that assms(2) by (induction m) auto
  with False assms show ?thesis by (simp add: flush_chunk_def flush_inv_def prefix_inv_def)
qed

lemma flush_result_inv:
  "flush_inv remote tot start base st \<Longrightarrow> honest_reply remote q res \<Longrightarrow> fst q + snd q \<le> tot \<Longrightarrow>
     flush_inv remote tot start base (flush_result (fst q) res st)"
  by (cases res) (auto simp: flush_result_def honest_reply_def intro!: flush_chunk_inv)

lemma flush_resolved_inv:
  "flush_inv remote tot start base st \<Longrightarrow> list_all (\<lambda>(j, s). honest_server remote s) rs \<Longrightarrow>
     flush_inv remote tot start base (flush_resolved rs st)"
proof (induction rs st rule: flush_resolved.induct)
  case (1 st)
  then show ?case by simp
next
  case (2 i srv resolved st)
  show ?case
  proof (cases "dl_inflight st = []")
    case True
    with 2 show ?thesis by simp
  next
    case False
    let ?q = "pick i (dl_inflight st)"
    let ?st = "st\<lparr>dl_inflight := unpick i (dl_inflight st)\<rparr>"
    have "flush_inv remote tot start base ?st"
      using "2.prems"(1) set_unpick [of i "dl_inflight st"]
      by (auto simp: flush_inv_def prefix_inv_def)
    moreover have "fst ?q + snd ?q \<le> tot"
      using "2.prems"(1) pick_in [OF False] by (simp add: flush_inv_def)
    ultimately have "flush_inv remote tot start base (flush_result (fst ?q) (srv ?q) ?st)"
      using "2.prems"(2) by (intro flush_result_inv) (auto simp only: honest_server_def list.pred_inject split_conv)
    with "2.IH" [OF False refl refl] "2.prems"(2) False show ?thesis by (simp add: Let_def)
  qed
qed

lemma cancel_flush_inv:
  assumes "flush_inv remote tot start base st" "honest_reply remote q res" "fst q + snd q \<le> tot"
    "list_all (\<lambda>(j, s). honest_server remote s) rs"
  shows "\<exists>c. start \<le> c \<and> c \<le> tot
     \<and> sink_data (dl_sink (cancel_flush q res rs st)) = base @ file_slice remote start c"
proof -
  let ?st = "drain_state (flush_resolved rs (flush_result (fst q) res st))"
  have i: "flush_inv remote tot start base ?st"
    using assms by (intro drain_state_inv flush_resolved_inv flush_result_inv)
  then obtain s where "write_all [] (dl_sink ?st) = (True, s)" "sink_data s = sink_data (dl_sink ?st)"
    using write_all_faultless [of "dl_sink ?st" "[]"] by (auto simp: flush_inv_def)
  with i show ?thesis by (auto simp: cancel_flush_def Let_def flush_inv_def prefix_inv_def)
qed

section \<open>The loop\<close>

lemma drain_reorder_faultless:
  "faultless s \<Longrightarrow> \<exists>cur' m' s'. drain_reorder cur m s = (True, cur', m', s') \<and> faultless s'"
proof (induction cur m s rule: drain_reorder.induct)
  case (1 cur s)
  then show ?case by simp
next
  case (2 cur k b m s)
  obtain s1 where w: "write_all b s = (True, s1)" "faultless s1"
    using write_all_faultless [OF "2.prems"] by blast
  show ?case
  proof (cases "k = cur")
    case True
    with "2.IH" [OF _ w(1) [symmetric] refl w(2)] w show ?thesis by simp
  next
    case False
    with "2.prems" show ?thesis by simp
  qed
qed

lemma store_chunk_faultless:
  assumes "faultless (dl_sink st)"
  shows "\<exists>st'. store_chunk off bs st = (True, st') \<and> faultless (dl_sink st')"
proof -
  obtain s where w: "write_all bs (dl_sink st) = (True, s)" "faultless s"
    using write_all_faultless [OF assms] by blast
  obtain cur m s' where "drain_reorder (dl_cursor st + length bs) (dl_reorder st) s = (True, cur, m, s')"
    "faultless s'"
    using drain_reorder_faultless [OF w(2)] by blast
  with assms w(1) show ?thesis by (simp add: store_chunk_def)
qed

lemma handle_read_faultless:
  assumes "faultless (dl_sink st)" "handle_read tot chunk q res st = (err, st')"
  shows "faultless (dl_sink st') \<and> (err = None \<longleftrightarrow> (\<exists>bs. res = ReadData bs))"
proof (cases res)
  case (ReadError e)
  with assms show ?thesis by (auto simp: handle_read_def)
next
  case (ReadData bs)
  define st2 where "st2 = (if length bs < snd q \<and> fst q + length bs < tot
      then queue_read (fst q + length bs) (snd q - length bs)
             (st\<lparr>dl_progress := dl_progress st @ [length bs]\<rparr>)
      else st\<lparr>dl_progress := dl_progress st @ [length bs]\<rparr>)"
  have "faultless (dl_sink st2)" using assms(1) by (simp add: st2_def queue_read_def)
  then obtain st3 where "store_chunk (fst q) bs st2 = (True, st3)" "faultless (dl_sink st3)"
    using store_chunk_faultless by blast
  with assms(2) ReadData show ?thesis
    by (auto simp: handle_read_def Let_def st2_def request_next_def queue_read_def cong: if_cong)
qed

lemma handle_read_not_cancelled:
  "handle_read tot chunk q res st = (err, st') \<Longrightarrow> err \<noteq> Some TransferCancelled"
  by (auto simp: handle_read_def Let_def split: read_result.splits prod.splits bool.splits)

definition left_prefix :: "bytes \<Rightarrow> nat \<Rightarrow> nat \<Rightarrow> bytes \<Rightarrow> bytes \<Rightarrow> bool" where
  "left_prefix remote tot start base d \<longleftrightarrow>
     (\<exists>c. start \<le> c \<and> c \<le> tot \<and> d = base @ file_slice remote start c)"

lemma download_finish_data:
  "sink_data (dl_sink (outcome_state (download_finish st))) = sink_data (dl_sink st)
   \<and> (\<forall>s. download_finish st \<noteq> Waiting s) \<and> (\<forall>s. download_finish st \<noteq> Failed TransferCancelled s)"
  by (auto simp: download_finish_def write_all.simps split: list.splits option.splits)

fun was_cancelled :: "('e, 's) transfer_outcome \<Rightarrow> 'e \<Rightarrow> bool" where
  "was_cancelled (Failed e s) c \<longleftrightarrow> e = c"
| "was_cancelled _ c \<longleftrightarrow> False"


lemma reply_step:
  assumes "download_inv remote tot start chunk base st" "dl_inflight st \<noteq> []"
    "honest_server remote srv"
    "handle_read tot chunk (pick i (dl_inflight st)) (srv (pick i (dl_inflight st)))
       (take_request i st) = (err, st')"
  shows "(err = None \<longrightarrow> download_inv remote tot start chunk base st'
        \<and> (\<exists>bs. srv (pick i (dl_inflight st)) = ReadData bs
            \<and> outstanding tot st' + length bs = outstanding tot st))
    \<and> left_prefix remote tot start base (sink_data (dl_sink st'))"
proof -
  let ?q = "pick i (dl_inflight st)"
  have "honest_reply remote ?q (srv ?q)" using assms(3) unfolding honest_server_def by blast
  moreover have "outstanding tot (take_request i st) + snd ?q = outstanding tot st"
    using sum_unpick [OF assms(2), of snd i] by (simp add: outstanding_def)
  ultimately show ?thesis
    using handle_read_inv [of remote tot start base "take_request i st" chunk ?q "srv ?q" err st']
      take_request_inv [OF assms(1,2) refl, of i] assms(4)
    unfolding left_prefix_def by auto
qed

lemma inv_left_prefix:
  "download_inv remote tot start chunk base st \<Longrightarrow>
     left_prefix remote tot start base (sink_data (dl_sink st))"
  by (auto simp: left_prefix_def download_inv_def prefix_inv_def)

lemma finish_done:
  assumes "download_inv remote tot start chunk base st" "dl_inflight st = []"
    "download_finish st = Finished s"
  shows "sink_data (dl_sink s) = base @ file_slice remote start tot"
  using assms nothing_inflight_done [OF assms(1,2)] download_finish_data [of st]
  by (simp add: download_inv_def prefix_inv_def)

lemma finish_left_prefix:
  "download_inv remote tot start chunk base st \<Longrightarrow>
     left_prefix remote tot start base (sink_data (dl_sink (outcome_state (download_finish st))))"
  using inv_left_prefix [of remote tot start chunk base st] download_finish_data [of st] by simp

lemma cancel_step:
  assumes "download_inv remote tot start chunk base st" "dl_inflight st \<noteq> []"
    "honest_event remote (ReplyCancelled i srv rs)" "faultless (dl_sink st)"
  shows "left_prefix remote tot start base (sink_data (dl_sink
     (cancel_flush (pick i (dl_inflight st)) (srv (pick i (dl_inflight st))) rs (take_request i st))))"
proof -
  let ?q = "pick i (dl_inflight st)"
  have b: "fst q + snd q \<le> tot" if "q \<in> set (dl_inflight st)" for q
    using assms(1) that unfolding download_inv_def cover_inv_def by fastforce
  have "flush_inv remote tot start base (take_request i st)"
    using assms(1,4) b set_unpick [of i "dl_inflight st"]
    by (auto simp: flush_inv_def download_inv_def prefix_inv_def)
  moreover have "honest_reply remote ?q (srv ?q)"
    using assms(3) unfolding honest_event.simps honest_server_def by blast
  ultimately show ?thesis
    using cancel_flush_inv b [OF pick_in [OF assms(2)]] assms(3) unfolding left_prefix_def by simp
qed

lemma download_loop_prefix:
  "download_inv remote tot start chunk base st \<Longrightarrow> list_all (honest_event remote) evs \<Longrightarrow>
   faultless (dl_sink st) \<or> \<not> was_cancelled (download_loop tot chunk evs st) TransferCancelled \<Longrightarrow>
   left_prefix remote tot start base
      (sink_data (dl_sink (outcome_state (download_loop tot chunk evs st))))
    \<and> (\<forall>s. download_loop tot chunk evs st = Finished s \<longrightarrow>
         sink_data (dl_sink s) = base @ file_slice remote start tot)"
proof (induction evs arbitrary: st)
  case Nil
  then show ?case
    using finish_left_prefix finish_done inv_left_prefix by (cases "dl_inflight st = []") auto
next
  case (Cons ev evs)
  show ?case
  proof (cases "dl_inflight st = []")
    case True
    with Cons.prems(1) show ?thesis using finish_left_prefix finish_done by auto
  next
    case False
    show ?thesis
    proof (cases ev)
      case (Reply i srv)
      let ?q = "pick i (dl_inflight st)"
      obtain err st' where h: "handle_read tot chunk ?q (srv ?q) (take_request i st) = (err, st')"
        by (metis prod.exhaust)
      have "honest_server remote srv" using Cons.prems(2) Reply by simp
      note r = reply_step [OF Cons.prems(1) False this h]
      have f: "faultless (dl_sink st) \<Longrightarrow> faultless (dl_sink st')"
        using handle_read_faultless [OF _ h] by simp
      show ?thesis
        using Cons.IH [of st'] Cons.prems r f False Reply h handle_read_not_cancelled [OF h]
        by (cases err) (auto simp: take_request_def Let_def)
    next
      case (ReplyCancelled i srv rs)
      with Cons.prems False show ?thesis
        using cancel_step [OF Cons.prems(1) False, of i srv rs]
        by (simp add: Let_def take_request_def)
    qed
  qed
qed

text \<open>A server that answers every request within the file with at least one byte.\<close>

definition prompt_server :: "bytes \<Rightarrow> read_server \<Rightarrow> bool" where
  "prompt_server remote srv \<longleftrightarrow>
     (\<forall>off len. 0 < len \<longrightarrow> off + len \<le> length remote \<longrightarrow>
        (\<exists>bs. srv (off, len) = ReadData bs \<and> bs \<noteq> []))"

fun prompt_event :: "bytes \<Rightarrow> download_event \<Rightarrow> bool" where
  "prompt_event remote (Reply i srv) \<longleftrightarrow> honest_server remote srv \<and> prompt_server remote srv"
| "prompt_event remote (ReplyCancelled i srv rs) \<longleftrightarrow> False"

lemma finish_faultless:
  "faultless (dl_sink st) \<Longrightarrow> \<exists>s. download_finish st = Finished s"
  using write_all_faultless [of "dl_sink st" "[]"] by (auto simp: download_finish_def)

lemma inflight_request:
  assumes "download_inv remote tot start chunk base st" "q \<in> set (dl_inflight st)"
  shows "0 < snd q \<and> fst q + snd q \<le> tot"
  using assms unfolding download_inv_def cover_inv_def by fastforce

lemma inflight_outstanding:
  assumes "download_inv remote tot start chunk base st" "dl_inflight st \<noteq> []"
  shows "0 < outstanding tot st"
  using inflight_request [OF assms(1) pick_in [OF assms(2)]] sum_unpick [OF assms(2), of snd 0]
  by (simp add: outstanding_def)

lemma download_loop_completes:
  "download_inv remote tot start chunk base st \<Longrightarrow> faultless (dl_sink st) \<Longrightarrow>
   tot \<le> length remote \<Longrightarrow> list_all (prompt_event remote) evs \<Longrightarrow> outstanding tot st \<le> length evs \<Longrightarrow>
     \<exists>s. download_loop tot chunk evs st = Finished s
       \<and> sink_data (dl_sink s) = base @ file_slice remote start tot"
proof (induction evs arbitrary: st)
  case Nil
  then have "dl_inflight st = []" using inflight_outstanding [OF Nil.prems(1)] by auto
  with finish_faultless [OF Nil.prems(2)] finish_done [OF Nil.prems(1)] show ?case by auto
next
  case (Cons ev evs)
  show ?case
  proof (cases "dl_inflight st = []")
    case True
    with finish_faultless [OF Cons.prems(2)] finish_done [OF Cons.prems(1)] show ?thesis by auto
  next
    case False
    from Cons.prems(4) obtain i srv where ev: "ev = Reply i srv" "honest_server remote srv"
      "prompt_server remote srv" by (cases ev) auto
    let ?q = "pick i (dl_inflight st)"
    obtain err st' where h: "handle_read tot chunk ?q (srv ?q) (take_request i st) = (err, st')"
      by (metis prod.exhaust)
    have "0 < snd ?q" "fst ?q + snd ?q \<le> length remote"
      using inflight_request [OF Cons.prems(1) pick_in [OF False], of i] Cons.prems(3) by simp_all
    then obtain bs where bs: "srv ?q = ReadData bs" "bs \<noteq> []"
      using ev(3) unfolding prompt_server_def by (metis prod.collapse)
    have f: "faultless (dl_sink st')" "err = None"
      using handle_read_faultless [OF _ h] Cons.prems(2) bs by auto
    with reply_step [OF Cons.prems(1) False ev(2) h] bs(1)
    have r: "download_inv remote tot start chunk base st'"
      "outstanding tot st' + length bs = outstanding tot st" by auto
    have "outstanding tot st' \<le> length evs"
      using r(2) bs(2) Cons.prems(5) by (cases bs) auto
    with Cons.IH [OF r(1) f(1) Cons.prems(3)] Cons.prems(4) show ?thesis
      using False ev(1) h f(2) by (simp add: Let_def take_request_def)
  qed
qed

lemma download_start_sink: "dl_sink (download_start tot start chunk s) = s"
proof -
  have "dl_sink (seed_reads n tot chunk st) = dl_sink st" for n st
    by (induction n tot chunk st rule: seed_reads.induct)
       (simp_all add: request_next_def queue_read_def Let_def)
  then show ?thesis by (simp add: download_start_def)
qed

lemma download_inner_completes:
  assumes "0 < chunk" "start < tot" "tot \<le> length remote" "faultless s"
    and "list_all (prompt_event remote) evs" "tot - start \<le> length evs"
  shows "\<exists>st. download_inner tot start chunk evs s = Finished st
    \<and> sink_data (dl_sink st) = sink_data s @ file_slice remote start tot"
  using download_loop_completes [OF _ _ assms(3,5), of start chunk "sink_data s"
      "download_start tot start chunk s"] download_start_inv [OF assms(2,1), of remote s] assms(4,6)
  by (simp add: download_inner_def download_start_sink)

lemma download_inner_prefix:
  assumes "0 < chunk" "start < tot" "list_all (honest_event remote) evs"
    and "faultless s \<or> \<not> was_cancelled (download_inner tot start chunk evs s) TransferCancelled"
  shows "left_prefix remote tot start (sink_data s)
      (sink_data (dl_sink (outcome_state (download_inner tot start chunk evs s))))
    \<and> (\<forall>st. download_inner tot start chunk evs s = Finished st \<longrightarrow>
         sink_data (dl_sink st) = sink_data s @ file_slice remote start tot)"
  unfolding download_inner_def
  using download_loop_prefix [OF _ assms(3), of tot start chunk "sink_data s"
      "download_start tot start chunk s"] download_start_inv [OF assms(2,1), of remote s] assms(4)
  by (simp add: download_inner_def download_start_sink)

section \<open>Outstanding requests\<close>

definition window_inv :: "nat \<Rightarrow> nat \<Rightarrow> download_state \<Rightarrow> bool" where
  "window_inv depth chunk st \<longleftrightarrow>
     length (dl_inflight st) \<le> depth \<and> (\<forall>q \<in> set (dl_inflight st). snd q \<le> chunk)"

lemma request_next_window:
  "window_inv d chunk st \<Longrightarrow> window_inv (Suc d) chunk (request_next tot chunk st)"
  by (auto simp: window_inv_def request_next_def queue_read_def Let_def)

lemma handle_read_window:
  assumes "window_inv d chunk st" "snd q \<le> chunk" "handle_read tot chunk q res st = (None, st')"
  shows "window_inv (Suc d) chunk st'"
proof -
  from assms(3) obtain bs where bs: "res = ReadData bs"
    by (cases res) (simp_all add: handle_read_def)
  let ?st1 = "st\<lparr>dl_progress := dl_progress st @ [length bs]\<rparr>"
  have w: "window_inv d chunk ?st1" using assms(1) by (simp add: window_inv_def)
  show ?thesis
  proof (cases "length bs < snd q \<and> fst q + length bs < tot")
    case True
    let ?st2 = "queue_read (fst q + length bs) (snd q - length bs) ?st1"
    obtain ok st3 where s: "store_chunk (fst q) bs ?st2 = (ok, st3)" by (metis prod.exhaust)
    have t: "(length bs < snd q \<and> fst q + length bs < tot) = True" using True by blast
    have "st' = st3"
      using assms(3) s unfolding handle_read_def bs Let_def read_result.case t
      by (simp split: bool.splits)
    moreover have "window_inv (Suc d) chunk ?st2"
      using w assms(2) by (simp add: window_inv_def queue_read_def)
    ultimately show ?thesis using store_chunk_frame [OF s] by (simp add: window_inv_def)
  next
    case False
    obtain ok st3 where s: "store_chunk (fst q) bs ?st1 = (ok, st3)" by (metis prod.exhaust)
    have n: "(length bs < snd q \<and> fst q + length bs < tot) = False" using False by blast
    have ok: "ok" "st' = (if dl_next st3 < tot then request_next tot chunk st3 else st3)"
      using assms(3) s unfolding handle_read_def bs Let_def read_result.case n
      by (auto split: bool.splits)
    have "window_inv d chunk st3"
      using w store_chunk_frame [OF s] by (simp add: window_inv_def)
    then show ?thesis using request_next_window by (auto simp: ok(2) window_inv_def)
  qed
qed

lemma take_request_window:
  assumes "window_inv d chunk st" "dl_inflight st \<noteq> []"
  shows "window_inv (d - 1) chunk (take_request i st) \<and> snd (pick i (dl_inflight st)) \<le> chunk \<and> 0 < d"
  using assms length_unpick [OF assms(2), of i] set_unpick [of i "dl_inflight st"]
    pick_in [OF assms(2), of i]
  by (auto simp: window_inv_def)

lemma download_loop_window:
  "window_inv d chunk st \<Longrightarrow> download_loop tot chunk evs st = Waiting st' \<Longrightarrow> window_inv d chunk st'"
proof (induction evs arbitrary: st)
  case Nil
  then show ?case using download_finish_data [of st] by (auto split: if_splits)
next
  case (Cons ev evs)
  then have ne: "dl_inflight st \<noteq> []" using download_finish_data [of st] by (auto split: if_splits)
  with Cons.prems(2) obtain i srv st1 where h:
    "handle_read tot chunk (pick i (dl_inflight st)) (srv (pick i (dl_inflight st)))
       (take_request i st) = (None, st1)" "download_loop tot chunk evs st1 = Waiting st'"
    by (cases ev) (auto simp: Let_def take_request_def split: prod.splits option.splits)
  have "window_inv d chunk st1"
    using handle_read_window [OF _ _ h(1), of "d - 1"] take_request_window [OF Cons.prems(1) ne, of i]
    by simp
  with Cons.IH h(2) show ?case by blast
qed

lemma window_inv_mono: "window_inv d chunk st \<Longrightarrow> d \<le> d' \<Longrightarrow> window_inv d' chunk st"
  by (simp add: window_inv_def)

lemma seed_reads_window:
  "window_inv d chunk st \<Longrightarrow> window_inv (d + n) chunk (seed_reads n tot chunk st)"
proof (induction n tot chunk st arbitrary: d rule: seed_reads.induct)
  case (1 tot chunk st)
  then show ?case by simp
next
  case (2 n tot chunk st)
  show ?case
  proof (cases "dl_next st < tot")
    case True
    with "2.IH" [OF True request_next_window [OF "2.prems", of tot]] show ?thesis by simp
  next
    case False
    with window_inv_mono [OF "2.prems"] show ?thesis by simp
  qed
qed

lemma window_bytes:
  "window_inv d chunk st \<Longrightarrow> sum_list (map snd (dl_inflight st)) \<le> d * chunk"
proof -
  assume w: "window_inv d chunk st"
  have "sum_list (map snd qs) \<le> length qs * chunk" if "\<forall>q \<in> set qs. snd q \<le> chunk" for qs :: "(nat \<times> nat) list"
    using that by (induction qs) auto
  with w have "sum_list (map snd (dl_inflight st)) \<le> length (dl_inflight st) * chunk"
    by (simp add: window_inv_def)
  also have "\<dots> \<le> d * chunk" using w by (simp add: window_inv_def)
  finally show ?thesis .
qed

lemma pipeline_depth_bytes:
  "pipeline_depth r chunk \<le> MAX_PIPELINE_DEPTH \<and> pipeline_depth r chunk * chunk \<le> max MAX_INFLIGHT_BYTES (8 * chunk)"
proof -
  let ?b = "max (MAX_INFLIGHT_BYTES div chunk) 8"
  have "pipeline_depth r chunk * chunk \<le> ?b * chunk" by (simp add: pipeline_depth_def Let_def)
  also have "\<dots> = max (MAX_INFLIGHT_BYTES div chunk * chunk) (8 * chunk)"
    by (rule nat_mult_max_left)
  also have "\<dots> \<le> max MAX_INFLIGHT_BYTES (8 * chunk)"
    by (intro max.mono div_times_less_eq_dividend order_refl)
  finally show ?thesis by (simp add: pipeline_depth_def Let_def)
qed

section \<open>Properties\<close>

text \<open>C23:
  However a server orders its answers and however short they are, a download without local
  faults finishes after at most as many answers as there are bytes left, and the local file
  is then its old content followed by the rest of the remote file; the remote handle is opened
  and closed once.\<close>

theorem download_completes:
  assumes "0 < chunk" "start < tot" "tot \<le> length remote" "faultless s"
    and "list_all (prompt_event remote) evs" "tot - start \<le> length evs"
  shows "\<exists>st. download (Inr handle) tot start chunk evs s
      = (DlRan (Finished st), [OpenHandle, CloseHandle])
    \<and> sink_data (dl_sink st) = sink_data s @ file_slice remote start tot"
  using download_inner_completes [OF assms] assms(2) by (auto simp: download_def)

theorem download_completes_witness:
  "\<exists>st. download (Inr []) 5 1 2
       (replicate 4 (Reply 7 (\<lambda>(off, len). ReadData (take (min len 1) (drop off [1, 2, 3, 4, 5, 6])))))
       \<lparr>sink_data = [1], sink_faults = []\<rparr>
     = (DlRan (Finished st), [OpenHandle, CloseHandle])
    \<and> sink_data (dl_sink st) = [1] @ file_slice [1, 2, 3, 4, 5, 6] 1 5"
proof -
  let ?srv = "\<lambda>(off, len). ReadData (take (min len 1) (drop off ([1, 2, 3, 4, 5, 6] :: bytes)))"
  have "honest_server [1, 2, 3, 4, 5, 6] ?srv"
    by (auto simp: honest_server_def honest_reply_def file_slice_def min_def)
  moreover have "prompt_server [1, 2, 3, 4, 5, 6] ?srv"
    by (auto simp: prompt_server_def)
  ultimately show ?thesis
    using download_completes [of 2 1 5 "[1, 2, 3, 4, 5, 6]" "\<lparr>sink_data = [1], sink_faults = []\<rparr>"
        "replicate 4 (Reply 7 ?srv)" "[]"]
    by (simp add: faultless_def numeral_eq_Suc)
qed

lemma download_leaves_prefix_gen:
  assumes "0 < chunk" "start \<le> tot" "list_all (honest_event remote) evs"
    and "faultless s \<or> \<not> was_cancelled (download_inner tot start chunk evs s) TransferCancelled"
  shows "left_prefix remote tot start (sink_data s)
      (sink_data (run_sink (fst (download opened tot start chunk evs s))))
    \<and> (run_ok (fst (download opened tot start chunk evs s)) \<longrightarrow>
         sink_data (run_sink (fst (download opened tot start chunk evs s)))
           = sink_data s @ file_slice remote start tot)"
proof (cases "start < tot")
  case False
  with assms(2) show ?thesis by (auto simp: download_def left_prefix_def)
next
  case True
  note p = download_inner_prefix [OF assms(1) True assms(3,4)]
  have "left_prefix remote tot start (sink_data s) (sink_data s)"
    using True by (auto simp: left_prefix_def)
  with True p show ?thesis
    by (cases opened; cases "download_inner tot start chunk evs s") (auto simp: download_def)
qed

text \<open>C24:
  Whatever the order of the answers, short or empty replies, errors of the server or of the
  local disk: the local file always holds its old content followed by a contiguous part of the
  remote file from the start offset, so its size is a safe resume point; and a download that
  reports success has the whole rest.  A cancelled download needs a disk that does not fail.\<close>

theorem download_leaves_prefix:
  assumes "0 < chunk" "start \<le> tot" "list_all (honest_event remote) evs"
    and "faultless s \<or> \<not> was_cancelled (download_inner tot start chunk evs s) TransferCancelled"
  shows "left_prefix remote tot start (sink_data s)
      (sink_data (run_sink (fst (download opened tot start chunk evs s))))
    \<and> (run_ok (fst (download opened tot start chunk evs s)) \<longrightarrow>
         sink_data (run_sink (fst (download opened tot start chunk evs s)))
           = sink_data s @ file_slice remote start tot)"
  using assms by (rule download_leaves_prefix_gen)

theorem download_leaves_prefix_witness:
  "left_prefix [1, 2, 3, 4, 5] 5 0 [] (sink_data (run_sink (fst (download (Inr []) 5 0 2
       [Reply 1 (\<lambda>(off, len). ReadData (take len (drop off [1, 2, 3, 4, 5]))),
        ReplyCancelled 0 (\<lambda>_. ReadError ''x'') []] \<lparr>sink_data = [], sink_faults = [None]\<rparr>))))"
proof -
  have "honest_server [1, 2, 3, 4, 5] (\<lambda>(off, len). ReadData (take len (drop off ([1, 2, 3, 4, 5] :: bytes))))"
    by (auto simp: honest_server_def honest_reply_def file_slice_def min_def)
  moreover have "honest_server [1, 2, 3, 4, 5] (\<lambda>_. ReadError ''x'')"
    by (simp add: honest_server_def honest_reply_def)
  ultimately show ?thesis
    using download_leaves_prefix [of 2 0 5 "[1, 2, 3, 4, 5]"
        "[Reply 1 (\<lambda>(off, len). ReadData (take len (drop off [1, 2, 3, 4, 5]))),
          ReplyCancelled 0 (\<lambda>_. ReadError ''x'') []]" "\<lparr>sink_data = [], sink_faults = [None]\<rparr>" "Inr []"]
    by (simp add: faultless_def)
qed

text \<open>C38:
  While a download waits it never has more requests outstanding than the depth of its pipeline,
  which is at most 64; each of them asks for at most a chunk; and all of them together for at most
  the larger of 2 MB and eight chunks; whatever a server answers and in whatever order.\<close>

theorem download_window_bounded:
  assumes "download_inner tot start chunk evs s = Waiting st"
  shows "length (dl_inflight st) \<le> pipeline_depth (tot - start) chunk
    \<and> length (dl_inflight st) \<le> MAX_PIPELINE_DEPTH
    \<and> (\<forall>req \<in> set (dl_inflight st). snd req \<le> chunk)
    \<and> sum_list (map snd (dl_inflight st)) \<le> max MAX_INFLIGHT_BYTES (8 * chunk)"
proof -
  let ?d = "pipeline_depth (tot - start) chunk"
  have "window_inv ?d chunk (download_start tot start chunk s)"
    using seed_reads_window [of 0 chunk "\<lparr>dl_next = start, dl_inflight = [], dl_reorder = [],
        dl_cursor = start, dl_sink = s, dl_progress = []\<rparr>" ?d tot]
    by (simp add: download_start_def window_inv_def)
  then have w: "window_inv ?d chunk st"
    using download_loop_window assms unfolding download_inner_def by blast
  then have "length (dl_inflight st) \<le> ?d" "\<forall>req \<in> set (dl_inflight st). snd req \<le> chunk"
    by (simp_all add: window_inv_def)
  with window_bytes [OF w] pipeline_depth_bytes [of "tot - start" chunk] show ?thesis by auto
qed

theorem download_window_bounded_witness:
  "\<exists>st. download_inner 20 0 1 [] \<lparr>sink_data = [], sink_faults = []\<rparr> = Waiting st
    \<and> sum_list (map snd (dl_inflight st)) \<le> max MAX_INFLIGHT_BYTES (8 * 1)"
proof -
  have "\<exists>st. download_inner 20 0 1 [] \<lparr>sink_data = [], sink_faults = []\<rparr> = Waiting st"
  proof -
    have "dl_inflight (download_start 20 0 1 \<lparr>sink_data = [], sink_faults = []\<rparr>) \<noteq> []"
      using download_start_inv [of 0 20 1 "[]" "\<lparr>sink_data = [], sink_faults = []\<rparr>"]
      by (auto simp: download_inv_def outstanding_def)
    then show ?thesis by (simp add: download_inner_def)
  qed
  then show ?thesis using download_window_bounded by blast
qed


section \<open>Where the guarantees end\<close>

text \<open>
  A fresh download of six bytes in chunks of two has its three requests outstanding at once.
\<close>

lemma small_start:
  "download_start 6 0 2 s = \<lparr>dl_next = 6, dl_inflight = [(0, 2), (2, 2), (4, 2)], dl_reorder = [],
     dl_cursor = 0, dl_sink = s, dl_progress = []\<rparr>"
proof -
  have "pipeline_depth 6 2 = 3"
    by (simp add: pipeline_depth_def div_ceil_def Let_def MAX_PIPELINE_DEPTH_def MAX_INFLIGHT_BYTES_def)
  then show ?thesis
    by (simp add: download_start_def numeral_3_eq_3 request_next_def queue_read_def Let_def)
qed

text \<open>
  The cancel path goes on after a failed write: here the second chunk is lost and the third is
  written behind the first, so the size of the file is not a safe resume point.
\<close>

lemma cancel_on_full_disk_leaves_gap:
  "sink_data (dl_sink (outcome_state (download_inner 6 0 2
     [ReplyCancelled 0 (\<lambda>(off, len). ReadData (take len (drop off [1, 2, 3, 4, 5, 6])))
        [(0, \<lambda>(off, len). ReadData (take len (drop off [1, 2, 3, 4, 5, 6]))),
         (0, \<lambda>(off, len). ReadData (take len (drop off [1, 2, 3, 4, 5, 6])))]]
     \<lparr>sink_data = [], sink_faults = [None, Some 0, None]\<rparr>))) = [1, 2, 5, 6]"
  unfolding download_inner_def small_start by code_simp

text \<open>
  A reply longer than the request is not refused: the later chunks then lie before the cursor,
  stay in the buffer, and the download reports success with a part of the file.
\<close>

lemma overlong_reply_truncates:
  "run_ok (DlRan (download_inner 6 0 2
     [Reply 0 (\<lambda>_. ReadData [1, 2, 3]), Reply 0 (\<lambda>_. ReadData [3, 4]), Reply 0 (\<lambda>_. ReadData [5, 6])]
     \<lparr>sink_data = [], sink_faults = []\<rparr>))
   \<and> sink_data (dl_sink (outcome_state (download_inner 6 0 2
     [Reply 0 (\<lambda>_. ReadData [1, 2, 3]), Reply 0 (\<lambda>_. ReadData [3, 4]), Reply 0 (\<lambda>_. ReadData [5, 6])]
     \<lparr>sink_data = [], sink_faults = []\<rparr>))) = [1, 2, 3]"
  unfolding download_inner_def small_start by code_simp

text \<open>
  Empty replies are asked for again without end: no number of them ends the download or makes
  progress.
\<close>

lemma empty_replies_never_end:
  "download_inv remote tot start chunk base st \<Longrightarrow> dl_inflight st \<noteq> [] \<Longrightarrow> faultless (dl_sink st) \<Longrightarrow>
   \<exists>st'. download_loop tot chunk (replicate n (Reply 0 (\<lambda>_. ReadData []))) st = Waiting st'
     \<and> outstanding tot st' = outstanding tot st"
proof (induction n arbitrary: st)
  case 0
  then show ?case by simp
next
  case (Suc n)
  let ?srv = "\<lambda>_ :: nat \<times> nat. ReadData []"
  let ?q = "pick 0 (dl_inflight st)"
  obtain err st' where h: "handle_read tot chunk ?q (?srv ?q) (take_request 0 st) = (err, st')"
    by (metis prod.exhaust)
  have f: "faultless (dl_sink st')" "err = None"
    using handle_read_faultless [OF _ h] Suc.prems(3) by auto
  have "honest_server remote ?srv" by (simp add: honest_server_def honest_reply_def)
  from reply_step [OF Suc.prems(1,2) this h] f
  have r: "download_inv remote tot start chunk base st'" "outstanding tot st' = outstanding tot st"
    by auto
  have "outstanding tot st' = 0" if "dl_inflight st' = []"
    using that r(1) by (auto simp: outstanding_def download_inv_def)
  then have "dl_inflight st' \<noteq> []" using r(2) inflight_outstanding [OF Suc.prems(1,2)] by auto
  with Suc.IH [OF r(1) _ f(1)] r(2) h f(2) Suc.prems(2) show ?case
    by (simp add: Let_def take_request_def)
qed

section \<open>The reorder buffer\<close>

definition buffered :: "download_state \<Rightarrow> nat" where
  "buffered st = sum_list (map (length \<circ> snd) (dl_reorder st))"

lemma sum_length_filter:
  "finite A \<Longrightarrow> (\<Sum>p \<in> A. length (filter (P p) xs)) = sum_list (map (\<lambda>x. card {p \<in> A. P p x}) xs)"
proof (induction xs)
  case Nil
  then show ?case by simp
next
  case (Cons x xs)
  have "(\<Sum>p \<in> A. length (filter (P p) (x # xs)))
      = (\<Sum>p \<in> A. (if P p x then 1 else 0) + length (filter (P p) xs))"
    by (intro sum.cong) simp_all
  also have "\<dots> = card {p \<in> A. P p x} + (\<Sum>p \<in> A. length (filter (P p) xs))"
    using Cons.prems by (simp add: sum.distrib sum.If_cases Int_def)
  finally show ?case using Cons by simp
qed

text \<open>Every byte is written, buffered or outstanding.\<close>

lemma byte_conservation:
  assumes "download_inv remote tot start chunk base st" "start < tot"
  shows "dl_cursor st + buffered st + outstanding tot st = tot"
proof -
  let ?A = "{start..<tot}"
  have c: "start \<le> dl_cursor st" "dl_cursor st \<le> tot" "dl_next st \<le> tot"
    "list_all (chunk_ok remote tot) (dl_reorder st)"
    "\<forall>x \<in> set (dl_reorder st). dl_cursor st < fst x"
    "\<forall>q \<in> set (dl_inflight st). start \<le> fst q \<and> fst q + snd q \<le> dl_next st"
    using assms by (auto simp: download_inv_def prefix_inv_def cover_inv_def)
  have sn: "start \<le> dl_next st"
  proof (rule ccontr)
    assume n: "\<not> ?thesis"
    with assms have "dl_inflight st \<noteq> []" by (auto simp: download_inv_def)
    with c(6) n show False by (cases "dl_inflight st") auto
  qed
  have chunks: "card {p \<in> ?A. in_chunk p x} = length (snd x)" if "x \<in> set (dl_reorder st)" for x
  proof -
    obtain k b where x: "x = (k, b)" by (cases x)
    have "{p \<in> ?A. in_chunk p x} = {k..<k + length b}"
      using c that by (auto simp: x list_all_iff)
    then show ?thesis by (simp add: x)
  qed
  have reqs: "card {p \<in> ?A. in_request p q} = snd q" if "q \<in> set (dl_inflight st)" for q
  proof -
    obtain k l where q: "q = (k, l)" by (cases q)
    have "{p \<in> ?A. in_request p q} = {k..<k + l}" using c that by (auto simp: q)
    then show ?thesis by (simp add: q)
  qed
  have w: "(\<Sum>p \<in> ?A. if p < dl_cursor st then 1 else (0 :: nat)) = dl_cursor st - start"
  proof -
    have "?A \<inter> {p. p < dl_cursor st} = {start..<dl_cursor st}" using c by auto
    then show ?thesis by (simp add: sum.If_cases)
  qed
  have n: "(\<Sum>p \<in> ?A. if dl_next st \<le> p then 1 else (0 :: nat)) = tot - dl_next st"
  proof -
    have "?A \<inter> {p. dl_next st \<le> p} = {dl_next st..<tot}" using c sn by auto
    then show ?thesis by (simp add: sum.If_cases)
  qed
  have "(\<Sum>p \<in> ?A. covered p st) = (\<Sum>p \<in> ?A. 1)"
    using assms by (intro sum.cong) (auto simp: download_inv_def cover_inv_def)
  also have "(\<Sum>p \<in> ?A. covered p st)
      = dl_cursor st - start + buffered st + sum_list (map snd (dl_inflight st)) + (tot - dl_next st)"
    unfolding covered_def sum.distrib w n sum_length_filter [OF finite_atLeastLessThan]
      buffered_def using chunks reqs by (simp cong: map_cong)
  finally show ?thesis using c by (simp add: outstanding_def)
qed

text \<open>
  A server that answers in full but leaves the first request for last fills the buffer with
  everything else.
\<close>

definition full_server :: "bytes \<Rightarrow> read_server" where
  "full_server remote = (\<lambda>(off, len). ReadData (take len (drop off remote)))"

lemma full_server_honest: "honest_server remote (full_server remote)"
  by (auto simp: honest_server_def full_server_def honest_reply_def file_slice_def min_def)

lemma full_server_prompt: "prompt_server remote (full_server remote)"
  by (auto simp: prompt_server_def full_server_def)

lemma second_reply_step:
  assumes inv: "download_inv remote tot start chunk base st" and f: "faultless (dl_sink st)"
    and "tot \<le> length remote" and inf: "dl_inflight st = (start, l) # q # qs"
    and cur: "dl_cursor st = start"
  shows "\<exists>st'. handle_read tot chunk (pick 1 (dl_inflight st)) (full_server remote (pick 1 (dl_inflight st)))
       (take_request 1 st) = (None, st') \<and> dl_cursor st' = start
     \<and> (\<exists>rs. dl_inflight st' = (start, l) # rs \<and> (dl_next st' < tot \<longrightarrow> rs \<noteq> []))"
proof -
  have pq: "pick 1 (dl_inflight st) = q" "unpick 1 (dl_inflight st) = (start, l) # qs"
    by (simp_all add: inf pick_def unpick_def Let_def)
  obtain off len where q: "q = (off, len)" by (cases q)
  have ok: "0 < len" "off + len \<le> dl_next st" "start \<le> off" "0 < l" "dl_next st \<le> tot"
    using inv by (auto simp: download_inv_def cover_inv_def inf q)
  have "off \<noteq> start"
  proof
    assume "off = start"
    moreover have "covered start st = 1"
      using inv ok by (simp add: download_inv_def cover_inv_def)
    ultimately show False using ok by (simp add: covered_def inf q)
  qed
  let ?bs = "take len (drop off remote)"
  have len: "length ?bs = len" using ok assms(3) by simp
  have srv: "full_server remote q = ReadData ?bs" by (simp add: full_server_def q)
  let ?st1 = "(take_request 1 st)\<lparr>dl_progress := dl_progress (take_request 1 st) @ [len],
     dl_reorder := btree_insert off ?bs (dl_reorder st)\<rparr>"
  have "handle_read tot chunk q (ReadData ?bs) (take_request 1 st)
      = (None, if dl_next st < tot then request_next tot chunk ?st1 else ?st1)"
    using \<open>off \<noteq> start\<close> cur len
    by (simp add: handle_read_def q Let_def store_chunk_def del: length_take)
  then show ?thesis
    unfolding pq srv using cur pq by (auto simp: request_next_def queue_read_def Let_def)
qed

lemma first_request_last:
  "download_inv remote tot start chunk base st \<Longrightarrow> faultless (dl_sink st) \<Longrightarrow>
   tot \<le> length remote \<Longrightarrow> dl_inflight st = (start, l) # rs \<Longrightarrow> dl_cursor st = start \<Longrightarrow>
   (dl_next st < tot \<longrightarrow> rs \<noteq> []) \<Longrightarrow>
   \<exists>n st'. download_loop tot chunk (replicate n (Reply 1 (full_server remote))) st = Waiting st'
     \<and> download_inv remote tot start chunk base st' \<and> dl_cursor st' = start \<and> outstanding tot st' = l"
proof (induction "outstanding tot st" arbitrary: st rs rule: less_induct)
  case less
  show ?case
  proof (cases rs)
    case Nil
    with less.prems have "download_loop tot chunk (replicate 0 (Reply 1 (full_server remote))) st = Waiting st"
      "outstanding tot st = l" by (auto simp: outstanding_def)
    with less.prems show ?thesis by blast
  next
    case (Cons q qs)
    from second_reply_step [OF less.prems(1-3) less.prems(4) [unfolded Cons] less.prems(5)]
    obtain st' rs' where h:
      "handle_read tot chunk (pick 1 (dl_inflight st)) (full_server remote (pick 1 (dl_inflight st)))
         (take_request 1 st) = (None, st')" "dl_cursor st' = start"
      "dl_inflight st' = (start, l) # rs'" "dl_next st' < tot \<longrightarrow> rs' \<noteq> []" by blast
    have ne: "dl_inflight st \<noteq> []" using less.prems(4) by simp
    have "pick 1 (dl_inflight st) = q" by (simp add: less.prems(4) Cons pick_def)
    moreover have "0 < snd q" "fst q + snd q \<le> tot"
      using inflight_request [OF less.prems(1), of q] less.prems(4) Cons by simp_all
    ultimately have "\<exists>bs. full_server remote (pick 1 (dl_inflight st)) = ReadData bs \<and> bs \<noteq> []"
      using full_server_prompt [of remote] less.prems(3) unfolding prompt_server_def by (cases q) auto
    with reply_step [OF less.prems(1) ne full_server_honest h(1)]
    have r: "download_inv remote tot start chunk base st'" "outstanding tot st' < outstanding tot st"
      by (auto simp flip: length_greater_0_conv)
    have "faultless (dl_sink st')" using handle_read_faultless [OF _ h(1)] less.prems(2) by simp
    from less.hyps [OF r(2) r(1) this less.prems(3) h(3,2,4)] obtain n st'' where
      "download_loop tot chunk (replicate n (Reply 1 (full_server remote))) st' = Waiting st''"
      "download_inv remote tot start chunk base st''" "dl_cursor st'' = start" "outstanding tot st'' = l"
      by blast
    moreover from this(1) h(1) ne
    have "download_loop tot chunk (replicate (Suc n) (Reply 1 (full_server remote))) st = Waiting st''"
      by (simp add: Let_def take_request_def)
    ultimately show ?thesis by blast
  qed
qed

lemma seed_reads_append:
  "\<exists>rs. dl_inflight (seed_reads n tot chunk st) = dl_inflight st @ rs"
proof (induction n tot chunk st rule: seed_reads.induct)
  case (1 tot chunk st)
  then show ?case by simp
next
  case (2 n tot chunk st)
  show ?case
  proof (cases "dl_next st < tot")
    case True
    from "2.IH" [OF True] obtain rs where
      "dl_inflight (seed_reads n tot chunk (request_next tot chunk st))
        = dl_inflight (request_next tot chunk st) @ rs" by blast
    with True show ?thesis by (simp add: request_next_def queue_read_def Let_def)
  qed simp
qed

lemma pipeline_depth_two:
  assumes "0 < chunk" "chunk < r"
  shows "2 \<le> pipeline_depth r chunk"
proof -
  have "2 \<le> div_ceil r chunk"
  proof (cases "r mod chunk = 0")
    case True
    then obtain k where k: "r = chunk * k" by blast
    with assms have "1 < k" by (cases k) auto
    with k assms show ?thesis by (simp add: div_ceil_def)
  next
    case False
    have "1 \<le> r div chunk" using assms by (simp add: div_greater_zero_iff Suc_le_eq)
    with False show ?thesis by (simp add: div_ceil_def)
  qed
  then show ?thesis by (simp add: pipeline_depth_def Let_def MAX_PIPELINE_DEPTH_def)
qed

lemma start_with_two:
  assumes "0 < chunk" "chunk < tot - start"
  shows "\<exists>q rs. dl_inflight (download_start tot start chunk s) = (start, chunk) # q # rs
    \<and> dl_cursor (download_start tot start chunk s) = start"
proof -
  obtain n where n: "pipeline_depth (tot - start) chunk = Suc (Suc n)"
    using pipeline_depth_two [OF assms] by (metis add_2_eq_Suc le_Suc_ex)
  let ?st = "\<lparr>dl_next = start, dl_inflight = [], dl_reorder = [], dl_cursor = start, dl_sink = s,
        dl_progress = []\<rparr>"
  let ?st2 = "request_next tot chunk (request_next tot chunk ?st)"
  have e: "download_start tot start chunk s = seed_reads n tot chunk ?st2"
    using assms by (simp add: download_start_def n request_next_def queue_read_def Let_def)
  have c: "dl_cursor (seed_reads n tot chunk st) = dl_cursor st" for st
    by (induction n tot chunk st rule: seed_reads.induct)
       (simp_all add: request_next_def queue_read_def Let_def)
  have "\<exists>q. dl_inflight ?st2 = [(start, chunk), q]"
    using assms by (simp add: request_next_def queue_read_def Let_def)
  with seed_reads_append [of n tot chunk ?st2] show ?thesis
    by (auto simp: e c) (simp add: request_next_def queue_read_def Let_def)
qed

text \<open>
  The reorder buffer is not bounded by the pipeline depth: for every file longer than a chunk
  there are correct answers in an order after which all of it but the first chunk is held in
  memory.\<close>

lemma reorder_buffer_unbounded:
  assumes "0 < chunk" "start + chunk < tot" "tot \<le> length remote" "faultless s"
  shows "\<exists>n st. download_inner tot start chunk (replicate n (Reply 1 (full_server remote))) s = Waiting st
    \<and> buffered st = tot - start - chunk"
proof -
  let ?st = "download_start tot start chunk s"
  have lt: "start < tot" "chunk < tot - start" using assms(1,2) by simp_all
  obtain q rs where i: "dl_inflight ?st = (start, chunk) # q # rs" "dl_cursor ?st = start"
    using start_with_two [OF assms(1) lt(2)] by blast
  have inv: "download_inv remote tot start chunk (sink_data s) ?st"
    using download_start_inv [OF lt(1) assms(1)] by blast
  have "faultless (dl_sink ?st)" using assms(4) by (simp add: download_start_sink)
  from first_request_last [OF inv this assms(3) i] obtain n st where
    st: "download_loop tot chunk (replicate n (Reply 1 (full_server remote))) ?st = Waiting st"
    "download_inv remote tot start chunk (sink_data s) st" "dl_cursor st = start"
    "outstanding tot st = chunk" by blast
  from byte_conservation [OF st(2) lt(1)] st(3,4) have "buffered st = tot - start - chunk" by simp
  with st(1) show ?thesis by (auto simp: download_inner_def)
qed

lemma reorder_buffer_unbounded_witness:
  "\<exists>n st. download_inner 1000000 0 1000 (replicate n (Reply 1 (full_server (replicate 1000000 0))))
      \<lparr>sink_data = [], sink_faults = []\<rparr> = Waiting st \<and> buffered st = 1000000 - 0 - 1000"
  by (rule reorder_buffer_unbounded) (simp_all add: faultless_def)

end
