(* ===== verification/Upload.thy ===== *)
theory Upload
  imports Download
begin

text \<open>
  The pipelined upload of \<open>src/sftp/pipeline.rs\<close>: the local file is read in order into chunks,
  a bounded set of write requests is outstanding, and acknowledgements in any order refill it.
  A request takes effect on the remote file when it is acknowledged.
\<close>

section \<open>The local reader\<close>

text \<open>
  The local file is any \<open>impl Read\<close>: the bytes that are left, and the outcomes of the coming
  reads, \<open>None\<close> for an error and \<open>Some k\<close> for a read that delivers at most \<open>k\<close> bytes, but at
  least one unless the file has ended.  Without outcomes a read delivers all it is asked for.
\<close>

record reader =
  rd_left :: bytes
  rd_plan :: "nat option list"

definition read_some :: "nat \<Rightarrow> reader \<Rightarrow> (unit + bytes) \<times> reader" where
  "read_some want r =
     (let plan = tl (rd_plan r);
          deliver = (\<lambda>n. (Inr (take n (rd_left r)), \<lparr>rd_left = drop n (rd_left r), rd_plan = plan\<rparr>))
      in case rd_plan r of
           [] \<Rightarrow> deliver want
         | None # _ \<Rightarrow> (Inl (), r\<lparr>rd_plan := plan\<rparr>)
         | Some k # _ \<Rightarrow> deliver (min want (max 1 k)))"

text \<open>\<open>read_chunk_into\<close>: read until the target is filled or the file ends.\<close>

function read_chunk_into :: "nat \<Rightarrow> reader \<Rightarrow> (unit + bytes) \<times> reader" where
  "read_chunk_into want r =
     (if want = 0 then (Inr [], r)
      else case read_some want r of
          (Inl e, r') \<Rightarrow> (Inl e, r')
        | (Inr bs, r') \<Rightarrow>
            if bs = [] then (Inr [], r')
            else case read_chunk_into (want - length bs) r' of
                (Inl e, r'') \<Rightarrow> (Inl e, r'')
              | (Inr bs', r'') \<Rightarrow> (Inr (bs @ bs'), r''))"
  by pat_completeness auto

termination
  by (relation "measure fst") (auto simp flip: length_greater_0_conv)

declare read_chunk_into.simps [simp del]

section \<open>State\<close>

text \<open>Writing at an offset beyond the end of a file fills the hole with zeros.\<close>

definition apply_write :: "nat \<Rightarrow> bytes \<Rightarrow> bytes \<Rightarrow> bytes" where
  "apply_write off bs f =
     take off (f @ replicate (off - length f) 0) @ bs @ drop (off + length bs) f"

record upload_state =
  ul_offset :: nat
  ul_inflight :: "(nat \<times> bytes) list"
  ul_reader :: reader
  ul_remote :: bytes
  ul_progress :: "nat list"

definition queue_write :: "nat \<Rightarrow> bytes \<Rightarrow> upload_state \<Rightarrow> upload_state" where
  "queue_write off bs st = st\<lparr>ul_inflight := ul_inflight st @ [(off, bs)]\<rparr>"

text \<open>Read a chunk and queue it; the last component says whether there was anything to read.\<close>

definition read_and_queue :: "nat \<Rightarrow> nat \<Rightarrow> upload_state \<Rightarrow> (transfer_error + bool) \<times> upload_state" where
  "read_and_queue tot chunk st =
     (case read_chunk_into (min chunk (tot - ul_offset st)) (ul_reader st) of
        (Inl e, r) \<Rightarrow> (Inl LocalReadFailed, st\<lparr>ul_reader := r\<rparr>)
      | (Inr bs, r) \<Rightarrow>
          if bs = [] then (Inr False, st\<lparr>ul_reader := r\<rparr>)
          else (Inr True,
            (queue_write (ul_offset st) bs (st\<lparr>ul_reader := r\<rparr>))
              \<lparr>ul_offset := ul_offset st + length bs\<rparr>))"

fun seed_writes :: "nat \<Rightarrow> nat \<Rightarrow> nat \<Rightarrow> upload_state \<Rightarrow> transfer_error option \<times> upload_state" where
  "seed_writes 0 tot chunk st = (None, st)"
| "seed_writes (Suc n) tot chunk st =
     (if ul_offset st < tot then
        case read_and_queue tot chunk st of
          (Inl e, st') \<Rightarrow> (Some e, st')
        | (Inr False, st') \<Rightarrow> (None, st')
        | (Inr True, st') \<Rightarrow> seed_writes n tot chunk st'
      else (None, st))"

section \<open>The loop\<close>

text \<open>
  The reply to a write request: acknowledged, or an error.  After \<open>AckCancelled\<close> the user has
  cancelled by the time the reply is seen.
\<close>

datatype upload_event =
    Ack nat "nat \<times> bytes \<Rightarrow> string option"
  | AckCancelled nat

definition handle_ack ::
  "nat \<Rightarrow> nat \<Rightarrow> nat \<times> bytes \<Rightarrow> string option \<Rightarrow> upload_state \<Rightarrow> transfer_error option \<times> upload_state"
where
  "handle_ack tot chunk req res st =
     (case res of
        Some e \<Rightarrow> (Some (WriteFailed e), st)
      | None \<Rightarrow>
          (let st1 = st\<lparr>ul_remote := apply_write (fst req) (snd req) (ul_remote st),
                        ul_progress := ul_progress st @ [length (snd req)]\<rparr>
           in if ul_offset st1 < tot then
                (case read_and_queue tot chunk st1 of
                   (Inl e, st2) \<Rightarrow> (Some e, st2)
                 | (Inr _, st2) \<Rightarrow> (None, st2))
              else (None, st1)))"

fun upload_loop ::
  "nat \<Rightarrow> nat \<Rightarrow> upload_event list \<Rightarrow> upload_state \<Rightarrow> (transfer_error, upload_state) transfer_outcome"
where
  "upload_loop tot chunk [] st = (if ul_inflight st = [] then Finished st else Waiting st)"
| "upload_loop tot chunk (ev # evs) st =
     (if ul_inflight st = [] then Finished st
      else case ev of
          AckCancelled i \<Rightarrow>
            Failed TransferCancelled (st\<lparr>ul_inflight := unpick i (ul_inflight st)\<rparr>)
        | Ack i srv \<Rightarrow>
            (let req = pick i (ul_inflight st);
                 st' = st\<lparr>ul_inflight := unpick i (ul_inflight st)\<rparr>
             in case handle_ack tot chunk req (srv req) st' of
                  (Some e, st'') \<Rightarrow> Failed e st''
                | (None, st'') \<Rightarrow> upload_loop tot chunk evs st''))"

definition upload_inner ::
  "nat \<Rightarrow> nat \<Rightarrow> upload_event list \<Rightarrow> reader \<Rightarrow> bytes
     \<Rightarrow> (transfer_error, upload_state) transfer_outcome" where
  "upload_inner tot chunk evs r remote =
     (case seed_writes (pipeline_depth tot chunk) tot chunk
             \<lparr>ul_offset = 0, ul_inflight = [], ul_reader = r, ul_remote = remote, ul_progress = []\<rparr> of
        (Some e, st) \<Rightarrow> Failed e st
      | (None, st) \<Rightarrow> upload_loop tot chunk evs st)"

text \<open>
  \<open>upload\<close> opens with \<open>WRITE | CREATE | TRUNCATE\<close>: the remote file starts empty.  The handle is
  closed whatever the outcome.
\<close>

definition upload ::
  "string + rstring \<Rightarrow> nat \<Rightarrow> nat \<Rightarrow> upload_event list \<Rightarrow> reader
     \<Rightarrow> (transfer_error + (transfer_error, upload_state) transfer_outcome) \<times> handle_op list" where
  "upload opened tot chunk evs r =
     (case opened of
        Inl e \<Rightarrow> (Inl (OpenFailed e), [OpenHandle])
      | Inr handle \<Rightarrow>
          (case upload_inner tot chunk evs r [] of
             Waiting st \<Rightarrow> (Inr (Waiting st), [OpenHandle])
           | outcome \<Rightarrow> (Inr outcome, [OpenHandle, CloseHandle])))"

section \<open>Reading\<close>

lemma read_some_cases:
  assumes "read_some want r = (res, r')"
  shows "(res = Inl () \<and> rd_left r' = rd_left r)
    \<or> (\<exists>n. res = Inr (take n (rd_left r)) \<and> rd_left r' = drop n (rd_left r) \<and> n \<le> want
        \<and> (0 < want \<longrightarrow> 0 < n))"
  using assms by (auto simp: read_some_def Let_def split: list.splits option.splits)

text \<open>A chunk that is read is the next part of the file, full unless the file ended.\<close>

lemma read_chunk_into_spec:
  "read_chunk_into want r = (Inr bs, r') \<Longrightarrow>
     bs = take want (rd_left r) \<and> rd_left r' = drop want (rd_left r)"
proof (induction want r arbitrary: bs r' rule: read_chunk_into.induct)
  case (1 want r)
  show ?case
  proof (cases "want = 0")
    case True
    with "1.prems" show ?thesis by (simp add: read_chunk_into.simps [of 0])
  next
    case False
    obtain res r1 where s: "read_some want r = (res, r1)" by (metis prod.exhaust)
    from "1.prems" False s obtain n where n: "res = Inr (take n (rd_left r))"
      "rd_left r1 = drop n (rd_left r)" "n \<le> want" "0 < n"
      using read_some_cases [OF s] by (auto simp: read_chunk_into.simps [of want])
    show ?thesis
    proof (cases "take n (rd_left r) = []")
      case True
      with n(4) have "rd_left r = []" by simp
      with "1.prems" False s n show ?thesis by (simp add: read_chunk_into.simps [of want])
    next
      case ne: False
      from "1.prems" False s n(1) ne obtain bs' where
        b: "read_chunk_into (want - length (take n (rd_left r))) r1 = (Inr bs', r')"
        "bs = take n (rd_left r) @ bs'"
        by (auto simp: read_chunk_into.simps [of want] split: prod.splits sum.splits)
      from "1.IH" [OF False s [symmetric] n(1) ne b(1)]
      have IH: "bs' = take (want - length (take n (rd_left r))) (rd_left r1)"
        "rd_left r' = drop (want - length (take n (rd_left r))) (rd_left r1)" by auto
      show ?thesis
      proof (cases "n \<le> length (rd_left r)")
        case True
        have "take n (rd_left r) @ drop n (take want (rd_left r)) = take want (rd_left r)"
          using append_take_drop_id [of n "take want (rd_left r)"] n(3) by (simp add: min_def)
        with IH b(2) n True show ?thesis by (simp add: take_drop)
      next
        case short: False
        with IH b(2) n show ?thesis by simp
      qed
    qed
  qed
qed

section \<open>Invariant\<close>

lemma length_apply_write [simp]:
  "length (apply_write off bs f) = max (length f) (off + length bs)"
  by (auto simp: apply_write_def)

lemma nth_apply_write:
  "p < length f \<or> off \<le> p \<and> p < off + length bs \<Longrightarrow>
     apply_write off bs f ! p
       = (if off \<le> p \<and> p < off + length bs then bs ! (p - off) else f ! p)"
  by (auto simp: apply_write_def nth_append min_def)

text \<open>
  Every position read so far is in an outstanding request or already right on the server; and
  while there is more to read something is outstanding.
\<close>

definition upload_inv :: "bytes \<Rightarrow> nat \<Rightarrow> nat \<Rightarrow> upload_state \<Rightarrow> bool" where
  "upload_inv local tot chunk st \<longleftrightarrow>
     ul_offset st \<le> tot \<and> ul_offset st \<le> length local
     \<and> rd_left (ul_reader st) = drop (ul_offset st) local
     \<and> length (ul_remote st) \<le> ul_offset st
     \<and> (\<forall>q \<in> set (ul_inflight st). snd q \<noteq> [] \<and> length (snd q) \<le> chunk
          \<and> fst q + length (snd q) \<le> ul_offset st
          \<and> snd q = file_slice local (fst q) (fst q + length (snd q)))
     \<and> (\<forall>p < ul_offset st. (\<exists>q \<in> set (ul_inflight st). in_chunk p q)
          \<or> p < length (ul_remote st) \<and> ul_remote st ! p = local ! p)"

definition upload_busy :: "bytes \<Rightarrow> nat \<Rightarrow> upload_state \<Rightarrow> bool" where
  "upload_busy local tot st \<longleftrightarrow>
     (ul_offset st < tot \<and> ul_offset st < length local \<longrightarrow> ul_inflight st \<noteq> [])"

lemma take_length_take: "take (length (take w xs)) xs = take w xs"
  by (cases "w \<le> length xs") simp_all

definition upload_pending :: "upload_state \<Rightarrow> nat" where
  "upload_pending st = sum_list (map (length \<circ> snd) (ul_inflight st))"

lemma read_and_queue_inv:
  assumes "upload_inv local tot chunk st" "ul_offset st < tot" "0 < chunk"
    "read_and_queue tot chunk st = (Inr more_data, st')"
  shows "upload_inv local tot chunk st' \<and> upload_busy local tot st'
    \<and> (\<not> more_data \<longrightarrow> ul_offset st' = length local)
    \<and> (more_data \<longrightarrow> ul_inflight st' \<noteq> [])
    \<and> length (ul_inflight st') \<le> Suc (length (ul_inflight st))
    \<and> upload_pending st' + ul_offset st = upload_pending st + ul_offset st'"
proof -
  let ?want = "min chunk (tot - ul_offset st)"
  obtain bs r where rd: "read_chunk_into ?want (ul_reader st) = (Inr bs, r)"
    using assms(4) by (auto simp: read_and_queue_def split: prod.splits sum.splits)
  have bs: "bs = take ?want (drop (ul_offset st) local)" "rd_left r = drop ?want (drop (ul_offset st) local)"
    using read_chunk_into_spec [OF rd] assms(1) by (simp_all add: upload_inv_def)
  show ?thesis
  proof (cases "bs = []")
    case True
    with assms rd have st': "more_data = False" "st' = st\<lparr>ul_reader := r\<rparr>"
      by (simp_all add: read_and_queue_def)
    have "length local \<le> ul_offset st" using True bs(1) assms(2,3)
      by (auto simp: min_def split: if_splits)
    moreover have "ul_offset st \<le> length local" using assms(1) by (simp add: upload_inv_def)
    ultimately have e: "ul_offset st = length local" "rd_left r = []" using bs(2) by simp_all
    have "upload_inv local tot chunk st'"
      using assms(1) unfolding upload_inv_def st' by (simp add: e)
    with st' e show ?thesis by (simp add: upload_busy_def upload_pending_def)
  next
    case False
    let ?n = "ul_offset st"
    have st': "more_data = True" "ul_offset st' = ?n + length bs" "ul_reader st' = r"
      "ul_inflight st' = ul_inflight st @ [(?n, bs)]" "ul_remote st' = ul_remote st"
      using assms(4) rd False by (auto simp: read_and_queue_def queue_write_def)
    have len: "length bs = min ?want (length local - ?n)" using bs(1) by simp
    have "drop ?want (drop ?n local) = drop (length bs) (drop ?n local)"
      unfolding len by (cases "?want \<le> length local - ?n") (simp_all add: min_def)
    moreover have "bs = file_slice local ?n (?n + length bs)"
      using bs(1) take_length_take [of ?want "drop ?n local"] by (simp only: file_slice_def diff_add_inverse)
    moreover have "?n + length bs \<le> tot" "?n + length bs \<le> length local" "length bs \<le> chunk"
      using len assms(1,2) by (auto simp: upload_inv_def)
    moreover have "(\<exists>q \<in> set (ul_inflight st'). in_chunk p q)
        \<or> p < length (ul_remote st') \<and> ul_remote st' ! p = local ! p"
      if "p < ?n + length bs" for p
    proof (cases "p < ?n")
      case True
      with assms(1) show ?thesis unfolding upload_inv_def st'(4,5) by auto
    next
      case False
      with that show ?thesis by (simp add: st'(4))
    qed
    ultimately have "upload_inv local tot chunk st'"
      using assms(1) bs(2) False unfolding upload_inv_def st'(2,3,4,5)
      by (simp add: add.commute) fastforce
    then show ?thesis using st' by (simp add: upload_busy_def upload_pending_def)
  qed
qed

lemma seed_writes_inv:
  "upload_inv local tot chunk st \<Longrightarrow> 0 < chunk \<Longrightarrow> seed_writes n tot chunk st = (None, st') \<Longrightarrow>
     upload_inv local tot chunk st'
     \<and> (upload_busy local tot st \<or> 0 < n \<longrightarrow> upload_busy local tot st')
     \<and> length (ul_inflight st') \<le> length (ul_inflight st) + n
     \<and> upload_pending st' + ul_offset st = upload_pending st + ul_offset st'"
proof (induction n tot chunk st rule: seed_writes.induct)
  case (1 tot chunk st)
  then show ?case by simp
next
  case (2 n tot chunk st)
  show ?case
  proof (cases "ul_offset st < tot")
    case False
    with 2 show ?thesis by (auto simp: upload_busy_def)
  next
    case True
    with "2.prems"(3) obtain b st1 where r: "read_and_queue tot chunk st = (Inr b, st1)"
      by (auto split: prod.splits sum.splits)
    note i = read_and_queue_inv [OF "2.prems"(1) True "2.prems"(2) r]
    show ?thesis
    proof (cases b)
      case False
      with "2.prems"(3) True r i show ?thesis by simp
    next
      case more: True
      with "2.prems"(3) True r have "seed_writes n tot chunk st1 = (None, st')" by simp
      with "2.IH" [OF True r [symmetric] refl] i more "2.prems"(2) True r show ?thesis by auto
    qed
  qed
qed

text \<open>Right bytes stay right when right bytes are written.\<close>

lemma ack_inv:
  assumes "upload_inv local tot chunk st" "ul_inflight st \<noteq> []" "q = pick i (ul_inflight st)"
  shows "upload_inv local tot chunk
     (st\<lparr>ul_inflight := unpick i (ul_inflight st),
         ul_remote := apply_write (fst q) (snd q) (ul_remote st), ul_progress := ps\<rparr>)"
proof -
  note set_eq = set_pick_unpick [OF assms(2), of i, folded assms(3)]
  have q: "snd q \<noteq> []" "fst q + length (snd q) \<le> ul_offset st" "ul_offset st \<le> length local"
    "snd q = file_slice local (fst q) (fst q + length (snd q))"
    using assms(1) set_eq by (auto simp: upload_inv_def)
  have right: "snd q ! (p - fst q) = local ! p" if "in_chunk p q" for p
  proof -
    from that have p: "fst q \<le> p" "p < fst q + length (snd q)" by (cases q; simp)+
    have "snd q ! (p - fst q) = file_slice local (fst q) (fst q + length (snd q)) ! (p - fst q)"
      using q(4) by simp
    also have "\<dots> = local ! p" using p q(2,3) by (simp add: file_slice_def)
    finally show ?thesis .
  qed
  have "(\<exists>r \<in> set (unpick i (ul_inflight st)). in_chunk p r)
      \<or> p < length (apply_write (fst q) (snd q) (ul_remote st))
        \<and> apply_write (fst q) (snd q) (ul_remote st) ! p = local ! p"
    if "p < ul_offset st" for p
  proof (cases "in_chunk p q")
    case True
    then have "fst q \<le> p" "p < fst q + length (snd q)" by (cases q; simp)+
    with right [OF True] show ?thesis by (simp add: nth_apply_write less_max_iff_disj)
  next
    case False
    then have n: "\<not> (fst q \<le> p \<and> p < fst q + length (snd q))" by (cases q) auto
    from assms(1) that consider "\<exists>r \<in> set (ul_inflight st). in_chunk p r"
      | "p < length (ul_remote st)" "ul_remote st ! p = local ! p"
      by (auto simp: upload_inv_def)
    then show ?thesis
    proof cases
      case 1
      with False show ?thesis unfolding set_eq by auto
    next
      case 2
      with n show ?thesis by (auto simp: nth_apply_write)
    qed
  qed
  then show ?thesis
    using assms(1) q(2) set_unpick [of i "ul_inflight st"] unfolding upload_inv_def
    by (auto simp del: split_paired_All)
qed

lemma handle_ack_inv:
  assumes inv: "upload_inv local tot chunk st" and busy: "upload_busy local tot st"
    and ne: "ul_inflight st \<noteq> []" and "0 < chunk"
    and h: "handle_ack tot chunk (pick i (ul_inflight st)) res
       (st\<lparr>ul_inflight := unpick i (ul_inflight st)\<rparr>) = (None, st')"
  shows "res = None \<and> upload_inv local tot chunk st' \<and> upload_busy local tot st'
    \<and> length (ul_inflight st') \<le> length (ul_inflight st)
    \<and> upload_pending st' + ul_offset st < upload_pending st + ul_offset st'"
proof -
  let ?q = "pick i (ul_inflight st)"
  define st1 where "st1 = st\<lparr>ul_inflight := unpick i (ul_inflight st),
     ul_remote := apply_write (fst ?q) (snd ?q) (ul_remote st),
     ul_progress := ul_progress st @ [length (snd ?q)]\<rparr>"
  have i1: "upload_inv local tot chunk st1"
    unfolding st1_def by (rule ack_inv [OF inv ne refl])
  have res: "res = None" using h by (cases res) (simp_all add: handle_ack_def)
  have q: "snd ?q \<noteq> []" using inv pick_in [OF ne, of i] by (auto simp: upload_inv_def)
  have off1: "ul_offset st1 = ul_offset st" by (simp add: st1_def)
  have sum: "upload_pending st = length (snd ?q) + upload_pending st1"
    using sum_unpick [OF ne, of "length \<circ> snd" i] by (simp add: st1_def upload_pending_def)
  have len1: "Suc (length (ul_inflight st1)) = length (ul_inflight st)"
    using length_unpick [OF ne, of i] by (simp add: st1_def)
  show ?thesis
  proof (cases "ul_offset st < tot")
    case False
    with h res have "st' = st1" by (simp add: handle_ack_def st1_def)
    with i1 res sum q len1 off1 False show ?thesis by (simp add: upload_busy_def)
  next
    case True
    with h res obtain b where r: "read_and_queue tot chunk st1 = (Inr b, st')"
      by (auto simp: handle_ack_def st1_def Let_def split: prod.splits sum.splits)
    have "ul_offset st1 < tot" using True off1 by simp
    note rq = read_and_queue_inv [OF i1 this \<open>0 < chunk\<close> r]
    with rq res sum q len1 off1 show ?thesis by (auto simp flip: length_greater_0_conv)
  qed
qed

text \<open>When nothing is outstanding, the remote file is what was read.\<close>

lemma upload_done:
  assumes "upload_inv local tot chunk st" "upload_busy local tot st" "ul_inflight st = []"
  shows "ul_remote st = take tot local"
proof -
  have o: "ul_offset st = min tot (length local)"
    using assms by (auto simp: upload_inv_def upload_busy_def)
  have p: "p < length (ul_remote st) \<and> ul_remote st ! p = local ! p" if "p < ul_offset st" for p
    using assms(1,3) that by (simp add: upload_inv_def)
  have "length (ul_remote st) = ul_offset st"
  proof (rule antisym)
    show "length (ul_remote st) \<le> ul_offset st" using assms(1) by (simp add: upload_inv_def)
    show "ul_offset st \<le> length (ul_remote st)"
      using p [of "ul_offset st - 1"] by (cases "ul_offset st") auto
  qed
  with p o show ?thesis by (intro nth_equalityI) auto
qed

lemma upload_loop_result:
  "upload_inv local tot chunk st \<Longrightarrow> upload_busy local tot st \<Longrightarrow> 0 < chunk \<Longrightarrow>
     (\<forall>s. upload_loop tot chunk evs st = Finished s \<longrightarrow> ul_remote s = take tot local)
   \<and> (\<forall>s. upload_loop tot chunk evs st = Waiting s \<longrightarrow>
        length (ul_inflight s) \<le> length (ul_inflight st)
        \<and> length evs + ul_offset st < upload_pending st + min tot (length local))"
proof (induction evs arbitrary: st)
  case Nil
  have "0 < upload_pending st" if "ul_inflight st \<noteq> []"
    using that Nil.prems(1) by (cases "ul_inflight st") (auto simp: upload_inv_def upload_pending_def)
  moreover have "ul_offset st \<le> min tot (length local)" using Nil.prems(1) by (simp add: upload_inv_def)
  ultimately show ?case using upload_done [OF Nil.prems(1,2)] by auto
next
  case (Cons ev evs)
  show ?case
  proof (cases "ul_inflight st = []")
    case True
    with upload_done [OF Cons.prems(1,2)] show ?thesis by simp
  next
    case False
    show ?thesis
    proof (cases ev)
      case (AckCancelled i)
      with False show ?thesis by simp
    next
      case (Ack i srv)
      let ?q = "pick i (ul_inflight st)"
      obtain err st' where h: "handle_ack tot chunk ?q (srv ?q)
          (st\<lparr>ul_inflight := unpick i (ul_inflight st)\<rparr>) = (err, st')" by (metis prod.exhaust)
      show ?thesis
      proof (cases err)
        case (Some e)
        with h False Ack show ?thesis by (simp add: Let_def)
      next
        case None
        note i = handle_ack_inv [OF Cons.prems(1,2) False Cons.prems(3) h [unfolded None]]
        have l: "upload_loop tot chunk (ev # evs) st = upload_loop tot chunk evs st'"
          using h None False Ack by (simp add: Let_def)
        have IH: "(\<forall>s. upload_loop tot chunk evs st' = Finished s \<longrightarrow> ul_remote s = take tot local)
          \<and> (\<forall>s. upload_loop tot chunk evs st' = Waiting s \<longrightarrow>
               length (ul_inflight s) \<le> length (ul_inflight st')
               \<and> length evs + ul_offset st' < upload_pending st' + min tot (length local))"
          using Cons.IH i Cons.prems(3) by blast
        show ?thesis unfolding l using IH i by fastforce
      qed
    qed
  qed
qed

definition upload_start :: "reader \<Rightarrow> upload_state" where
  "upload_start r =
     \<lparr>ul_offset = 0, ul_inflight = [], ul_reader = r, ul_remote = [], ul_progress = []\<rparr>"

lemma upload_inner_result:
  assumes "0 < chunk"
  shows "(\<forall>s. upload_inner tot chunk evs r [] = Finished s \<longrightarrow> ul_remote s = take tot (rd_left r))
    \<and> (\<forall>s. upload_inner tot chunk evs r [] = Waiting s \<longrightarrow>
         length (ul_inflight s) \<le> pipeline_depth tot chunk \<and> length evs < min tot (length (rd_left r)))"
proof -
  have i: "upload_inv (rd_left r) tot chunk (upload_start r)"
    by (simp add: upload_inv_def upload_start_def)
  obtain err st where s: "seed_writes (pipeline_depth tot chunk) tot chunk (upload_start r) = (err, st)"
    by (metis prod.exhaust)
  show ?thesis
  proof (cases err)
    case (Some e)
    with s show ?thesis by (simp add: upload_inner_def upload_start_def)
  next
    case None
    have "tot = 0 \<or> 0 < pipeline_depth tot chunk" using pipeline_depth_pos [OF _ assms, of tot] by (cases tot) auto
    moreover have "tot = 0 \<Longrightarrow> upload_busy (rd_left r) tot (upload_start r)"
      by (simp add: upload_busy_def)
    ultimately have st: "upload_inv (rd_left r) tot chunk st" "upload_busy (rd_left r) tot st"
      "length (ul_inflight st) \<le> pipeline_depth tot chunk" "upload_pending st = ul_offset st"
      using seed_writes_inv [OF i assms s [unfolded None]] by (auto simp: upload_start_def upload_pending_def)
    have e: "upload_inner tot chunk evs r [] = upload_loop tot chunk evs st"
      using s None by (simp add: upload_inner_def upload_start_def)
    show ?thesis unfolding e using upload_loop_result [OF st(1,2) assms, of evs] st(3,4) by fastforce
  qed
qed

section \<open>Without faults\<close>

definition steady :: "reader \<Rightarrow> bool" where
  "steady r \<longleftrightarrow> None \<notin> set (rd_plan r)"

lemma read_some_steady:
  assumes "steady r" "read_some want r = (res, r')"
  shows "(\<exists>bs. res = Inr bs) \<and> steady r'"
proof (cases "rd_plan r")
  case Nil
  with assms show ?thesis by (auto simp: read_some_def steady_def)
next
  case (Cons p ps)
  with assms show ?thesis by (cases p) (auto simp: read_some_def steady_def)
qed

lemma read_chunk_into_steady:
  "steady r \<Longrightarrow> \<exists>bs r'. read_chunk_into want r = (Inr bs, r') \<and> steady r'"
proof (induction want r rule: read_chunk_into.induct)
  case (1 want r)
  show ?case
  proof (cases "want = 0")
    case True
    with "1.prems" show ?thesis by (simp add: read_chunk_into.simps [of 0])
  next
    case False
    obtain res r1 where s: "read_some want r = (res, r1)" by (metis prod.exhaust)
    with read_some_steady [OF "1.prems" s] obtain bs where bs: "res = Inr bs" "steady r1" by auto
    show ?thesis
    proof (cases "bs = []")
      case True
      with False s bs show ?thesis by (simp add: read_chunk_into.simps [of want])
    next
      case ne: False
      from "1.IH" [OF False s [symmetric] bs(1) ne bs(2)] False s bs ne
      show ?thesis by (auto simp: read_chunk_into.simps [of want])
    qed
  qed
qed

lemma read_and_queue_steady:
  assumes "steady (ul_reader st)"
  shows "\<exists>b st'. read_and_queue tot chunk st = (Inr b, st') \<and> steady (ul_reader st')"
  using read_chunk_into_steady [OF assms, of "min chunk (tot - ul_offset st)"]
  by (auto simp: read_and_queue_def queue_write_def)

lemma seed_writes_steady:
  "steady (ul_reader st) \<Longrightarrow>
     \<exists>st'. seed_writes n tot chunk st = (None, st') \<and> steady (ul_reader st')"
proof (induction n tot chunk st rule: seed_writes.induct)
  case (1 tot chunk st)
  then show ?case by simp
next
  case (2 n tot chunk st)
  obtain b st1 where r: "read_and_queue tot chunk st = (Inr b, st1)" "steady (ul_reader st1)"
    using read_and_queue_steady [OF "2.prems"] by blast
  show ?case
  proof (cases "ul_offset st < tot \<and> b")
    case True
    with "2.IH" [OF _ r(1) [symmetric] refl] r show ?thesis by simp
  next
    case False
    with "2.prems" r show ?thesis by auto
  qed
qed

fun acked :: "upload_event \<Rightarrow> bool" where
  "acked (Ack i srv) \<longleftrightarrow> (\<forall>q. srv q = None)"
| "acked (AckCancelled i) \<longleftrightarrow> False"

lemma upload_loop_steady:
  "steady (ul_reader st) \<Longrightarrow> list_all acked evs \<Longrightarrow>
     \<forall>e s. upload_loop tot chunk evs st \<noteq> Failed e s"
proof (induction evs arbitrary: st)
  case Nil
  then show ?case by simp
next
  case (Cons ev evs)
  show ?case
  proof (cases "ul_inflight st = []")
    case False
    from Cons.prems(2) obtain i srv where ev: "ev = Ack i srv" "\<forall>q. srv q = None" by (cases ev) auto
    let ?q = "pick i (ul_inflight st)"
    let ?st = "st\<lparr>ul_inflight := unpick i (ul_inflight st)\<rparr>"
    let ?st1 = "?st\<lparr>ul_remote := apply_write (fst ?q) (snd ?q) (ul_remote st),
        ul_progress := ul_progress st @ [length (snd ?q)]\<rparr>"
    have "\<exists>st'. handle_ack tot chunk ?q None ?st = (None, st') \<and> steady (ul_reader st')"
      using read_and_queue_steady [of ?st1 tot chunk] Cons.prems(1)
      by (auto simp: handle_ack_def Let_def)
    moreover have "srv ?q = None" using ev(2) by blast
    ultimately show ?thesis using Cons.IH Cons.prems(2) ev(1) False by (auto simp: Let_def)
  qed simp
qed

lemma upload_inner_completes:
  assumes "0 < chunk" "steady r" "list_all acked evs" "min tot (length (rd_left r)) \<le> length evs"
  shows "\<exists>st. upload_inner tot chunk evs r [] = Finished st \<and> ul_remote st = take tot (rd_left r)"
proof -
  have "steady (ul_reader (upload_start r))" using assms(2) by (simp add: upload_start_def)
  from seed_writes_steady [OF this, of "pipeline_depth tot chunk" tot chunk] obtain st where st:
    "seed_writes (pipeline_depth tot chunk) tot chunk (upload_start r) = (None, st)"
    "steady (ul_reader st)" by blast
  then have e: "upload_inner tot chunk evs r [] = upload_loop tot chunk evs st"
    by (simp add: upload_inner_def upload_start_def)
  have nf: "\<forall>e s. upload_inner tot chunk evs r [] \<noteq> Failed e s"
    unfolding e by (rule upload_loop_steady [OF st(2) assms(3)])
  from upload_inner_result [OF assms(1), of tot evs r] nf assms(4) show ?thesis
    by (cases "upload_inner tot chunk evs r []") auto
qed

section \<open>Properties\<close>

text \<open>C32:
  An upload that reports success has stored the first \<open>tot\<close> bytes of the local file, in
  whatever order the writes were acknowledged and however the local reads were split; without
  faults it succeeds after at most one acknowledgement for each byte; and the number of
  outstanding writes never exceeds the depth of the pipeline.\<close>

theorem upload_stores_file:
  assumes "0 < chunk"
  shows "(\<forall>st. fst (upload opened tot chunk evs r) = Inr (Finished st) \<longrightarrow>
       ul_remote st = take tot (rd_left r))
    \<and> (steady r \<and> list_all acked evs \<and> min tot (length (rd_left r)) \<le> length evs \<longrightarrow>
       (\<exists>st. upload (Inr handle) tot chunk evs r = (Inr (Finished st), [OpenHandle, CloseHandle])
          \<and> ul_remote st = take tot (rd_left r)))
    \<and> (\<forall>st. fst (upload opened tot chunk evs r) = Inr (Waiting st) \<longrightarrow>
       length (ul_inflight st) \<le> pipeline_depth tot chunk)"
proof -
  have "fst (upload opened tot chunk evs r) = Inr q \<longleftrightarrow>
      (\<exists>h. opened = Inr h) \<and> upload_inner tot chunk evs r [] = q" for q
    by (cases opened; cases "upload_inner tot chunk evs r []") (auto simp: upload_def)
  moreover have "\<exists>st. upload (Inr handle) tot chunk evs r = (Inr (Finished st), [OpenHandle, CloseHandle])
          \<and> ul_remote st = take tot (rd_left r)"
    if "steady r" "list_all acked evs" "min tot (length (rd_left r)) \<le> length evs"
    using upload_inner_completes [OF assms that] by (auto simp: upload_def)
  ultimately show ?thesis using upload_inner_result [OF assms, of tot evs r] by blast
qed

theorem upload_stores_file_witness:
  "\<exists>st. upload (Inr []) 5 2 (replicate 5 (Ack 3 (\<lambda>_. None))) \<lparr>rd_left = [1, 2, 3, 4, 5, 6], rd_plan = [Some 1]\<rparr>
       = (Inr (Finished st), [OpenHandle, CloseHandle]) \<and> ul_remote st = [1, 2, 3, 4, 5]"
  using upload_stores_file [of 2 "Inr []" 5 "replicate 5 (Ack 3 (\<lambda>_. None))"
      "\<lparr>rd_left = [1, 2, 3, 4, 5, 6], rd_plan = [Some 1]\<rparr>" "[]"]
  by (simp add: steady_def numeral_eq_Suc)

text \<open>A local file that has shrunk since its size was taken is uploaded in part, with success.\<close>

lemma shrunk_file_uploads_in_part:
  assumes "0 < chunk" "steady r" "list_all acked evs" "length (rd_left r) \<le> length evs"
    "length (rd_left r) < tot"
  shows "\<exists>st. fst (upload (Inr handle) tot chunk evs r) = Inr (Finished st)
    \<and> length (ul_remote st) < tot"
  using upload_inner_completes [OF assms(1-3), of tot] assms(4,5) by (auto simp: upload_def)

end
