(* ===== verification/Sftp_Shell.thy ===== *)
theory Sftp_Shell
  imports Rust_Str Config_Model Download_Correct Upload Sftp_Session "HOL-Library.List_Lexorder"
begin

text \<open>
  The interactive SFTP commands of \<open>src/sftp/mod.rs\<close> and the copy command of
  \<open>src/sftp/shortcuts.rs\<close>: parsing, path resolution, the command loop with its confirmation on
  production hosts, and downloads through a \<open>.part\<close> file that a later run can resume.
\<close>

section \<open>Parsing\<close>

text \<open>\<open>split_once(char::is_whitespace)\<close>.\<close>

fun split_once_ws :: "string \<Rightarrow> (string \<times> string) option" where
  "split_once_ws [] = None"
| "split_once_ws (c # cs) =
     (if is_whitespace c then Some ([], cs)
      else map_option (\<lambda>(a, b). (c # a, b)) (split_once_ws cs))"

definition parse_command :: "string \<Rightarrow> string \<times> string" where
  "parse_command line =
     (let trimmed = trim line
      in case split_once_ws trimmed of
           Some (cmd, rest) \<Rightarrow> (cmd, trim rest)
         | None \<Rightarrow> (trimmed, []))"

definition resolve_path :: "string \<Rightarrow> string \<Rightarrow> string" where
  "resolve_path cwd path =
     (if starts_with ''/'' path then path
      else if cwd = ''/'' then ''/'' @ path
      else cwd @ ''/'' @ path)"

definition parse_get_put_args :: "string \<Rightarrow> string \<times> string option" where
  "parse_get_put_args args =
     (case split_once_ws args of
        Some (first, rest) \<Rightarrow> (first, Some (trim rest))
      | None \<Rightarrow> (args, None))"

text \<open>\<open>Path::file_name\<close>: the last component unless it is the parent directory.\<close>

definition path_file_name :: "string \<Rightarrow> string option" where
  "path_file_name p =
     (case rev (filter (\<lambda>c. c \<noteq> [] \<and> c \<noteq> ''.'') (split_on CHR ''/'' p)) of
        [] \<Rightarrow> None
      | c # _ \<Rightarrow> if c = ''..'' then None else Some c)"

text \<open>\<open>u32::from_str_radix(_, 8)\<close>: octal digits with an optional plus sign, within 32 bits.\<close>

definition is_octal_digit :: "char \<Rightarrow> bool" where
  "is_octal_digit c \<longleftrightarrow> is_ascii_digit c \<and> digit_value c < 8"

definition octal_value :: "string \<Rightarrow> nat" where
  "octal_value s = foldl (\<lambda>a c. a * 8 + digit_value c) 0 s"

definition parse_octal :: "string \<Rightarrow> u32 option" where
  "parse_octal s =
     (let d = (case s of c # cs \<Rightarrow> if c = CHR ''+'' then cs else s | [] \<Rightarrow> s)
      in if d \<noteq> [] \<and> list_all is_octal_digit d \<and> octal_value d < 2 ^ 32
         then Some (word_of_nat (octal_value d)) else None)"

definition parse_remote_spec :: "string \<Rightarrow> (string \<times> string) option" where
  "parse_remote_spec spec =
     (if starts_with ''/'' spec \<or> starts_with ''.'' spec then None
      else case split_once CHR '':'' spec of
          None \<Rightarrow> None
        | Some (name, path) \<Rightarrow> if name = [] then None else Some (name, path))"

definition find_bookmark_index :: "app_config \<Rightarrow> string \<Rightarrow> nat option" where
  "find_bookmark_index c name =
     position (\<lambda>b. eq_ignore_ascii_case (b_name b) name) (bookmarks c)"

definition format_duration :: "nat \<Rightarrow> string" where
  "format_duration secs =
     (if 3600 \<le> secs then show_nat (secs div 3600) @ ''h '' @ show_nat (secs mod 3600 div 60) @ ''m''
      else if 60 \<le> secs then show_nat (secs div 60) @ ''m '' @ show_nat (secs mod 60) @ ''s''
      else show_nat secs @ ''s'')"

section \<open>The command loop\<close>

text \<open>What a command asks of the session; local files and failures are only reported.\<close>

datatype shell_action =
    DoHelp | DoPwd string | DoLs string | DoCd string | DoGet string string | DoPut string string
  | DoMkdir string | DoRm string | DoRmdir string | DoChmod string string | DoStat string
  | Complain string | DeleteCancelled string

definition default_name :: "string \<Rightarrow> string \<Rightarrow> string" where
  "default_name path d = unwrap_or (path_file_name path) d"

definition shell_get :: "string \<Rightarrow> string \<Rightarrow> shell_action" where
  "shell_get cwd args =
     (case parse_get_put_args args of (r, l) \<Rightarrow>
        (let remote = resolve_path cwd r in DoGet remote (unwrap_or l (default_name remote ''download''))))"

definition shell_put :: "string \<Rightarrow> string \<Rightarrow> shell_action" where
  "shell_put cwd args =
     (case parse_get_put_args args of (l, r) \<Rightarrow>
        DoPut l (case r of Some p \<Rightarrow> resolve_path cwd p
                 | None \<Rightarrow> resolve_path cwd (default_name l ''upload'')))"

text \<open>\<open>args.splitn(2, char::is_whitespace)\<close> of \<open>chmod\<close>, with the path resolved by \<open>cmd_chmod\<close>.\<close>

definition shell_chmod :: "string \<Rightarrow> string \<Rightarrow> shell_action" where
  "shell_chmod cwd args =
     (case split_once_ws args of
        None \<Rightarrow> Complain ''chmod: usage: chmod <mode> <path>''
      | Some (mode, path) \<Rightarrow>
          if parse_octal mode = None then Complain (''chmod: Invalid mode: '' @ mode)
          else DoChmod mode (resolve_path cwd path))"

definition is_yes :: "string \<Rightarrow> bool" where
  "is_yes answer = eq_ignore_ascii_case (trim answer) ''yes''"

datatype command_kind = Exit | Simple shell_action | ChangeDir string | Delete shell_action string

text \<open>The \<open>match\<close> on the command, with the check for missing arguments of each.\<close>

definition shell_command :: "string \<Rightarrow> string \<Rightarrow> string \<Rightarrow> command_kind" where
  "shell_command cwd cmd args =
     (let need_of = (\<lambda>what k. if args = [] then Simple (Complain (cmd @ '': missing '' @ what)) else k);
          need = need_of ''path argument''
      in if cmd = ''exit'' \<or> cmd = ''quit'' then Exit
         else if cmd = ''help'' then Simple DoHelp
         else if cmd = ''pwd'' then Simple (DoPwd cwd)
         else if cmd = ''ls'' then
           Simple (DoLs (if args = [] then cwd else resolve_path cwd args))
         else if cmd = ''cd'' then need (ChangeDir (resolve_path cwd args))
         else if cmd = ''get'' then need_of ''remote path argument'' (Simple (shell_get cwd args))
         else if cmd = ''put'' then need_of ''local path argument'' (Simple (shell_put cwd args))
         else if cmd = ''mkdir'' then need (Simple (DoMkdir (resolve_path cwd args)))
         else if cmd = ''rm'' then need (Delete (DoRm (resolve_path cwd args)) (resolve_path cwd args))
         else if cmd = ''rmdir'' then need (Delete (DoRmdir (resolve_path cwd args)) (resolve_path cwd args))
         else if cmd = ''chmod'' then Simple (shell_chmod cwd args)
         else if cmd = ''stat'' then need (Simple (DoStat (resolve_path cwd args)))
         else Simple (Complain (''Unknown command: '' @ cmd)))"

text \<open>
  \<open>run_command_loop\<close> on the lines of standard input, from which the confirmation of a deletion
  reads too; at the end of the input it reads an empty answer.  \<open>canon\<close> is the server's answer
  to \<open>cd\<close>.
\<close>

fun shell_loop :: "bool \<Rightarrow> (string \<Rightarrow> string option) \<Rightarrow> string \<Rightarrow> string list \<Rightarrow> shell_action list" where
  "shell_loop production canon cwd [] = []"
| "shell_loop production canon cwd (l # ls) =
     (if trim l = [] then shell_loop production canon cwd ls
      else case parse_command (trim l) of (cmd, args) \<Rightarrow>
        (case shell_command cwd cmd args of
           Exit \<Rightarrow> []
         | Simple a \<Rightarrow> a # shell_loop production canon cwd ls
         | ChangeDir p \<Rightarrow>
             DoCd p # shell_loop production canon (unwrap_or (canon p) cwd) ls
         | Delete a p \<Rightarrow>
             if production then
               (case ls of
                  [] \<Rightarrow> [DeleteCancelled p]
                | answer # ls' \<Rightarrow>
                    (if is_yes answer then a else DeleteCancelled p) # shell_loop production canon cwd ls')
             else a # shell_loop production canon cwd ls))"

section \<open>Commands on the session\<close>

text \<open>
  \<open>cmd_chmod\<close> changes one field of the attributes it was given and sends all of them back;
  \<open>cmd_ls\<close> prints the entries by name.
\<close>

definition cmd_chmod :: "u32 \<Rightarrow> rstring \<Rightarrow> unit op" where
  "cmd_chmod mode path =
     op_bind (path_metadata path) (\<lambda>m. set_metadata path (m\<lparr>fa_permissions := Some mode\<rparr>))"

definition cmd_ls :: "rstring \<Rightarrow> entry list op" where
  "cmd_ls path = op_bind (read_dir path) (\<lambda>files. op_return (sort_key fst (read_dir_collect files)))"

text \<open>A change of the mode sets the size too, to the one the file had before.\<close>

lemma chmod_sends_old_size:
  assumes "\<not> ss_closed st"
  shows "\<exists>st'. cmd_chmod mode path (st, [Inr (Attrs i a), Inr (Status j Ok m t)]) = Some (Inr (), (st', []))
    \<and> last (ss_sent st') = SetStat (ss_next_id st + 1) path (a\<lparr>fa_permissions := Some mode\<rparr>)
    \<and> fa_size (a\<lparr>fa_permissions := Some mode\<rparr>) = fa_size a"
  using assms
  by (simp add: cmd_chmod_def path_metadata_def set_metadata_def op_bind_def op_return_def invoke_open
      rs_stat_def rs_setstat_def plain_call_def call_end_def into_with_status_def into_status_def issued_sel)

section \<open>Copying files\<close>

text \<open>Local files by path.  The remote file is given by its bytes and the size its attributes say.\<close>

type_synonym files = "string \<Rightarrow> bytes option"

datatype copy_result =
    AlreadyComplete | CopyDone | CopyFailed | CopyWaiting

definition part_path :: "string \<Rightarrow> string" where
  "part_path local = local @ ''.part''"

text \<open>
  \<open>download\<close> of \<open>shortcuts.rs\<close>.  The part file is continued if it is a non-empty proper part of
  the size, and created anew otherwise; only success renames it to the target.  \<open>part_opens\<close> is
  whether the part file can be opened or created, \<open>renames\<close> whether the renaming succeeds.
\<close>

definition start_offset :: "bool \<Rightarrow> nat \<Rightarrow> files \<Rightarrow> string \<Rightarrow> nat" where
  "start_offset resume tot fs local =
     (case fs (part_path local) of
        Some p \<Rightarrow> if resume \<and> p \<noteq> [] \<and> length p < tot then length p else 0
      | None \<Rightarrow> 0)"

definition part_content :: "bool \<Rightarrow> nat \<Rightarrow> files \<Rightarrow> string \<Rightarrow> bytes" where
  "part_content resume tot fs local =
     (if start_offset resume tot fs local = 0 then []
      else case fs (part_path local) of Some p \<Rightarrow> p | None \<Rightarrow> [])"

definition unfinished :: "download_run \<Rightarrow> copy_result" where
  "unfinished run = (case run of DlRan (Waiting st) \<Rightarrow> CopyWaiting | _ \<Rightarrow> CopyFailed)"

definition copy_download ::
  "nat option \<Rightarrow> string \<Rightarrow> bool \<Rightarrow> string + rstring \<Rightarrow> nat \<Rightarrow> download_event list \<Rightarrow> nat option list
     \<Rightarrow> bool \<Rightarrow> bool \<Rightarrow> files \<Rightarrow> copy_result \<times> files" where
  "copy_download meta_size local resume opened chunk evs faults part_opens renames fs =
     (let tot = unwrap_or meta_size 0;
          part = part_path local;
          complete = (resume \<and> (case fs local of Some d \<Rightarrow> tot \<le> length d | None \<Rightarrow> False));
          offset = start_offset resume tot fs local;
          run = fst (download opened tot offset chunk evs
                  \<lparr>sink_data = part_content resume tot fs local, sink_faults = faults\<rparr>);
          data = sink_data (run_sink run)
      in if complete then (AlreadyComplete, fs)
         else if \<not> part_opens then (CopyFailed, fs)
         else if run_ok run then
           (if renames then (CopyDone, fs(local \<mapsto> data, part := None))
            else (CopyFailed, fs(part \<mapsto> data)))
         else (unfinished run, fs(part \<mapsto> data)))"

text \<open>\<open>scp_transfer\<close>: exactly one side is remote.\<close>

datatype copy_plan =
    BothRemote | NeitherRemote
  | Fetch string string string
  | Store string string string

definition scp_plan :: "string \<Rightarrow> string \<Rightarrow> copy_plan" where
  "scp_plan source destination =
     (case (parse_remote_spec source, parse_remote_spec destination) of
        (Some _, Some _) \<Rightarrow> BothRemote
      | (None, None) \<Rightarrow> NeitherRemote
      | (Some (name, remote), None) \<Rightarrow> Fetch name remote destination
      | (None, Some (name, remote)) \<Rightarrow> Store name source remote)"

section \<open>Deletions on production hosts\<close>

fun deleted_path :: "shell_action \<Rightarrow> string option" where
  "deleted_path (DoRm p) = Some p"
| "deleted_path (DoRmdir p) = Some p"
| "deleted_path _ = None"

text \<open>The directory after some actions.\<close>

fun step_cwd :: "(string \<Rightarrow> string option) \<Rightarrow> shell_action \<Rightarrow> string \<Rightarrow> string" where
  "step_cwd canon (DoCd p) cwd = unwrap_or (canon p) cwd"
| "step_cwd canon _ cwd = cwd"

definition cwd_after :: "(string \<Rightarrow> string option) \<Rightarrow> string \<Rightarrow> shell_action list \<Rightarrow> string" where
  "cwd_after canon cwd acts = fold (step_cwd canon) acts cwd"

lemma cwd_after_Cons [simp]:
  "cwd_after canon cwd [] = cwd"
  "cwd_after canon cwd (a # acts) = cwd_after canon (step_cwd canon a cwd) acts"
  by (simp_all add: cwd_after_def)

lemma simple_no_delete:
  "shell_command cwd cmd args = Simple a \<Longrightarrow> deleted_path a = None"
  by (auto simp: shell_command_def Let_def shell_get_def shell_put_def shell_chmod_def
      split: if_splits prod.splits option.splits)

lemma simple_same_cwd:
  "shell_command cwd cmd args = Simple a \<Longrightarrow> step_cwd canon a d = d"
  by (auto simp: shell_command_def Let_def shell_get_def shell_put_def shell_chmod_def
      split: if_splits prod.splits option.splits)

lemma delete_command:
  "shell_command cwd cmd args = Delete a p \<Longrightarrow>
     p = resolve_path cwd args \<and> (cmd = ''rm'' \<and> a = DoRm p \<or> cmd = ''rmdir'' \<and> a = DoRmdir p)"
  by (auto simp: shell_command_def Let_def split: if_splits)

text \<open>A deletion, where it stands in the input: its line, asked in the directory \<open>dir\<close>, and the answer.\<close>

definition asked_and_confirmed :: "string \<Rightarrow> string \<Rightarrow> string \<Rightarrow> shell_action \<Rightarrow> string \<Rightarrow> bool" where
  "asked_and_confirmed dir l answer a path \<longleftrightarrow>
     (\<exists>args. path = resolve_path dir args
        \<and> (parse_command (trim l) = (''rm'', args) \<and> a = DoRm path
           \<or> parse_command (trim l) = (''rmdir'', args) \<and> a = DoRmdir path))
     \<and> is_yes answer"

lemma production_deletion_split:
  "shell_loop True canon cwd ls = pre @ a # post \<Longrightarrow> deleted_path a = Some path \<Longrightarrow>
     \<exists>before l answer rest. ls = before @ l # answer # rest
       \<and> shell_loop True canon cwd before = pre
       \<and> asked_and_confirmed (cwd_after canon cwd pre) l answer a path
       \<and> post = shell_loop True canon (cwd_after canon cwd pre) rest"
proof (induction "True" canon cwd ls arbitrary: pre rule: shell_loop.induct)
  case (1 canon cwd)
  then show ?case by simp
next
  case (2 canon cwd l ls)
  obtain cmd args where c: "parse_command (trim l) = (cmd, args)" by (metis prod.exhaust)
  show ?case
  proof (cases "trim l = []")
    case True
    with "2.prems" have "shell_loop True canon cwd ls = pre @ a # post" by simp
    from "2.hyps"(1) [OF True this "2.prems"(2)] obtain before m answer rest where
      b: "ls = before @ m # answer # rest" "shell_loop True canon cwd before = pre"
      "asked_and_confirmed (cwd_after canon cwd pre) m answer a path"
      "post = shell_loop True canon (cwd_after canon cwd pre) rest" by blast
    with True show ?thesis
      by (intro exI [of _ "l # before"] exI [of _ m] exI [of _ answer] exI [of _ rest]) simp
  next
    case ne: False
    show ?thesis
    proof (cases "shell_command cwd cmd args")
      case Exit
      with "2.prems" ne c show ?thesis by simp
    next
      case (Simple x)
      note x = simple_no_delete [OF Simple] simple_same_cwd [OF Simple]
      from "2.prems" ne c Simple x(1) obtain pre' where pre: "pre = x # pre'"
        "shell_loop True canon cwd ls = pre' @ a # post"
        by (cases pre) auto
      from "2.hyps"(2) [OF ne c [symmetric] Simple pre(2) "2.prems"(2)] obtain before m answer rest where
        "ls = before @ m # answer # rest" "shell_loop True canon cwd before = pre'"
        "asked_and_confirmed (cwd_after canon cwd pre') m answer a path"
        "post = shell_loop True canon (cwd_after canon cwd pre') rest" by blast
      with ne c Simple x(2) pre(1) show ?thesis
        by (intro exI [of _ "l # before"] exI [of _ m] exI [of _ answer] exI [of _ rest]) simp
    next
      case (ChangeDir p)
      let ?cwd = "unwrap_or (canon p) cwd"
      from "2.prems" ne c ChangeDir obtain pre' where pre: "pre = DoCd p # pre'"
        "shell_loop True canon ?cwd ls = pre' @ a # post"
        by (cases pre) auto
      from "2.hyps"(3) [OF ne c [symmetric] ChangeDir pre(2) "2.prems"(2)] obtain before m answer rest where
        "ls = before @ m # answer # rest" "shell_loop True canon ?cwd before = pre'"
        "asked_and_confirmed (cwd_after canon ?cwd pre') m answer a path"
        "post = shell_loop True canon (cwd_after canon ?cwd pre') rest" by blast
      with ne c ChangeDir pre(1) show ?thesis
        by (intro exI [of _ "l # before"] exI [of _ m] exI [of _ answer] exI [of _ rest]) simp
    next
      case (Delete b p)
      note b = delete_command [OF Delete]
      from "2.prems" ne c Delete obtain answer ls' where ls: "ls = answer # ls'"
        by (cases ls; cases pre) auto
      let ?x = "if is_yes answer then b else DeleteCancelled p"
      have loop: "?x # shell_loop True canon cwd ls' = pre @ a # post"
        using "2.prems"(1) ne c Delete ls by simp
      show ?thesis
      proof (cases pre)
        case Nil
        with loop "2.prems"(2) have a: "is_yes answer" "a = b" "post = shell_loop True canon cwd ls'"
          by (auto split: if_splits)
        with b c "2.prems"(2) have "asked_and_confirmed cwd l answer a path"
          by (auto simp: asked_and_confirmed_def)
        with Nil ls a(3) show ?thesis
          by (intro exI [of _ "[]"] exI [of _ l] exI [of _ answer] exI [of _ ls']) simp
      next
        case (Cons x pre')
        with loop have x: "x = ?x" "shell_loop True canon cwd ls' = pre' @ a # post" by simp_all
        have cwd: "step_cwd canon x cwd = cwd" using b x(1) by auto
        from "2.hyps"(4) [OF ne c [symmetric] Delete _ ls x(2) "2.prems"(2)] obtain before m ans rest where
          "ls' = before @ m # ans # rest" "shell_loop True canon cwd before = pre'"
          "asked_and_confirmed (cwd_after canon cwd pre') m ans a path"
          "post = shell_loop True canon (cwd_after canon cwd pre') rest" by blast
        with ne c Delete ls Cons cwd x(1) show ?thesis
          by (intro exI [of _ "l # answer # before"] exI [of _ m] exI [of _ ans] exI [of _ rest]) simp
      qed
    qed
  qed
qed

text \<open>C34:
  On a production host every deletion that is carried out was asked for by a line of its own and
  confirmed by the line that follows it: at the point of the input that has produced the actions
  before the deletion stands an \<open>rm\<close> or \<open>rmdir\<close> whose argument, in the directory of that moment,
  names what is deleted; the next line is the answer yes and is used up, so that it confirms
  nothing else; and the actions after the deletion come from the lines after the answer.\<close>

theorem production_delete_confirmed:
  assumes "shell_loop True canon cwd lines = pre @ a # post" "deleted_path a = Some path"
  shows "\<exists>before l answer rest. lines = before @ l # answer # rest
       \<and> shell_loop True canon cwd before = pre
       \<and> asked_and_confirmed (cwd_after canon cwd pre) l answer a path
       \<and> post = shell_loop True canon (cwd_after canon cwd pre) rest"
  using production_deletion_split [OF assms] .

theorem production_delete_confirmed_witness:
  "\<exists>before l answer rest. [''rm a'', ''no'', ''rm b'', '' YES '', ''pwd''] = before @ l # answer # rest
     \<and> shell_loop True (\<lambda>_. None) ''/x'' before = [DeleteCancelled ''/x/a'']
     \<and> asked_and_confirmed ''/x'' l answer (DoRm ''/x/b'') ''/x/b''
     \<and> [DoPwd ''/x''] = shell_loop True (\<lambda>_. None) ''/x'' rest"
proof -
  have "shell_loop True (\<lambda>_. None) ''/x'' [''rm a'', ''no'', ''rm b'', '' YES '', ''pwd'']
      = [DeleteCancelled ''/x/a''] @ DoRm ''/x/b'' # [DoPwd ''/x'']"
    by code_simp
  from production_delete_confirmed [OF this] show ?thesis by simp
qed

section \<open>Absolute paths\<close>

fun remote_paths :: "shell_action \<Rightarrow> string list" where
  "remote_paths (DoLs p) = [p]"
| "remote_paths (DoCd p) = [p]"
| "remote_paths (DoGet p l) = [p]"
| "remote_paths (DoPut l p) = [p]"
| "remote_paths (DoMkdir p) = [p]"
| "remote_paths (DoRm p) = [p]"
| "remote_paths (DoRmdir p) = [p]"
| "remote_paths (DoChmod m p) = [p]"
| "remote_paths (DoStat p) = [p]"
| "remote_paths _ = []"

lemma resolve_absolute: "starts_with ''/'' cwd \<Longrightarrow> starts_with ''/'' (resolve_path cwd p)"
  by (auto simp: resolve_path_def starts_with_iff)

fun kind_paths :: "command_kind \<Rightarrow> string list" where
  "kind_paths Exit = []"
| "kind_paths (Simple a) = remote_paths a"
| "kind_paths (ChangeDir p) = [p]"
| "kind_paths (Delete a p) = remote_paths a"

lemma command_paths_absolute:
  "starts_with ''/'' cwd \<Longrightarrow> q \<in> set (kind_paths (shell_command cwd cmd args)) \<Longrightarrow> starts_with ''/'' q"
  by (auto simp: shell_command_def Let_def shell_get_def shell_put_def shell_chmod_def resolve_absolute
      split: if_splits prod.splits option.splits)

text \<open>
  The second argument of \<open>chmod\<close> is not trimmed: after two blanks the path begins with one.
\<close>

lemma chmod_keeps_blanks:
  "shell_loop False canon ''/d'' [''chmod 755  f''] = [DoChmod ''755'' ''/d/ f'']"
proof -
  have "parse_command (trim ''chmod 755  f'') = (''chmod'', ''755  f'')" "trim ''chmod 755  f'' \<noteq> []"
    "split_once_ws ''755  f'' = Some (''755'', '' f'')" "resolve_path ''/d'' '' f'' = ''/d/ f''"
    by code_simp+
  moreover have "parse_octal ''755'' \<noteq> None"
    by (simp add: parse_octal_def octal_value_def is_octal_digit_def is_ascii_digit_def digit_value_def
        code_def)
  ultimately show ?thesis by (simp add: shell_command_def shell_chmod_def)
qed

text \<open>A drive letter is taken for the name of a bookmark.\<close>

lemma drive_letter_is_remote:
  "scp_plan ''C:/x'' ''web:/tmp'' = BothRemote"
  by code_simp

section \<open>Copying: attempts and resumption\<close>

text \<open>The part file, if there is one, is a prefix of the remote file.\<close>

definition part_ok :: "bytes \<Rightarrow> string \<Rightarrow> files \<Rightarrow> bool" where
  "part_ok remote local fs \<longleftrightarrow>
     (\<forall>p. fs (part_path local) = Some p \<longrightarrow> length p \<le> length remote \<and> p = take (length p) remote)"

lemma part_path_neq [simp]: "part_path local \<noteq> local" "local \<noteq> part_path local"
  by (simp_all add: part_path_def)

lemma take_then_slice: "n \<le> c \<Longrightarrow> take n f @ file_slice f n c = take c f"
  using take_add [of n "c - n" f] by (simp add: file_slice_def)

lemma start_offset_le: "0 < tot \<Longrightarrow> start_offset resume tot fs local < tot"
  by (auto simp: start_offset_def split: option.split)

lemma part_content_prefix:
  assumes "part_ok remote local fs"
  shows "part_content resume tot fs local = take (start_offset resume tot fs local) remote"
proof (cases "start_offset resume tot fs local = 0")
  case False
  then obtain p where p: "fs (part_path local) = Some p" "start_offset resume tot fs local = length p"
    by (auto simp: start_offset_def split: option.splits if_splits)
  with assms have "p = take (length p) remote" by (simp add: part_ok_def)
  with p False show ?thesis by (simp add: part_content_def)
qed (simp add: part_content_def)

lemma unfinished_neq [simp]: "unfinished r \<noteq> CopyDone" "CopyDone \<noteq> unfinished r"
  by (simp_all add: unfinished_def split: download_run.split transfer_outcome.split)

definition not_cancelled :: "download_event list \<Rightarrow> bool" where
  "not_cancelled evs \<longleftrightarrow> list_all (\<lambda>e. case e of Reply i s \<Rightarrow> True | _ \<Rightarrow> False) evs"

lemma download_loop_not_cancelled:
  "not_cancelled evs \<Longrightarrow> \<not> was_cancelled (download_loop tot chunk evs st) TransferCancelled"
proof (induction evs arbitrary: st)
  case Nil
  then show ?case using download_finish_data [of st] by (cases "download_finish st") auto
next
  case (Cons e evs)
  show ?case
  proof (cases "dl_inflight st = []")
    case True
    then show ?thesis using download_finish_data [of st] by (cases "download_finish st") auto
  next
    case False
    from Cons.prems obtain i s where e: "e = Reply i s" by (cases e) (auto simp: not_cancelled_def)
    obtain err st' where h: "handle_read tot chunk (pick i (dl_inflight st)) (s (pick i (dl_inflight st)))
        (st\<lparr>dl_inflight := unpick i (dl_inflight st)\<rparr>) = (err, st')" by (metis prod.exhaust)
    have "not_cancelled evs" using Cons.prems by (simp add: not_cancelled_def)
    with Cons.IH handle_read_not_cancelled [OF h] False e h show ?thesis
      by (cases err) (auto simp: Let_def)
  qed
qed

lemma download_not_cancelled:
  "not_cancelled evs \<Longrightarrow> \<not> was_cancelled (download_inner tot start chunk evs s) TransferCancelled"
  unfolding download_inner_def by (rule download_loop_not_cancelled)

text \<open>C31:
  Whatever a server answers in whatever order and wherever the local disk fails: an attempt to
  copy a remote file leaves a part file that is a prefix of the remote file; the target is only
  touched by a success, which makes it the whole file and removes the part file.\<close>

theorem copy_attempt_is_safe:
  assumes "0 < chunk" "list_all (honest_event remote) evs" "not_cancelled evs"
    and "part_ok remote local fs"
    and "copy_download (Some (length remote)) local resume opened chunk evs faults part_opens renames fs
      = (res, fs')"
  shows "part_ok remote local fs'
    \<and> (res \<noteq> CopyDone \<longrightarrow> fs' local = fs local)
    \<and> (res = CopyDone \<longrightarrow> fs' local = Some remote \<and> fs' (part_path local) = None)
    \<and> (\<forall>q. q \<noteq> local \<longrightarrow> q \<noteq> part_path local \<longrightarrow> fs' q = fs q)"
proof -
  let ?tot = "length remote"
  let ?off = "start_offset resume ?tot fs local"
  let ?base = "part_content resume ?tot fs local"
  let ?s = "\<lparr>sink_data = ?base, sink_faults = faults\<rparr>"
  let ?run = "fst (download opened ?tot ?off chunk evs ?s)"
  let ?data = "sink_data (run_sink ?run)"
  note base = part_content_prefix [OF assms(4), of resume ?tot]
  have off: "?off \<le> ?tot" by (auto simp: start_offset_def split: option.split)
  note p = download_leaves_prefix_gen [OF assms(1) off assms(2),
      of ?s opened, OF disjI2 [OF download_not_cancelled [OF assms(3)]]]
  from p obtain c where c: "?off \<le> c" "c \<le> ?tot" "?data = take c remote"
    using take_then_slice [of ?off _ remote] by (auto simp: left_prefix_def base)
  have ok: "?data = remote" if "run_ok ?run"
    using p that take_then_slice [OF off, of remote] by (simp add: base)
  let ?complete = "resume \<and> (case fs local of Some d \<Rightarrow> ?tot \<le> length d | None \<Rightarrow> False)"
  have def: "(res, fs') =
      (if ?complete then (AlreadyComplete, fs)
       else if \<not> part_opens then (CopyFailed, fs)
       else if run_ok ?run then
         (if renames then (CopyDone, fs(local \<mapsto> ?data, part_path local := None))
          else (CopyFailed, fs(part_path local \<mapsto> ?data)))
       else (unfinished ?run, fs(part_path local \<mapsto> ?data)))"
    using assms(5) unfolding copy_download_def Let_def unwrap_or_simps by simp
  consider "res \<noteq> CopyDone" "fs' = fs" | "run_ok ?run" "res = CopyDone" "fs' = fs(local \<mapsto> ?data, part_path local := None)"
    | "res \<noteq> CopyDone" "fs' = fs(part_path local \<mapsto> ?data)"
    using def by (auto split: if_splits)
  then show ?thesis
  proof cases
    case 1
    with assms(4) show ?thesis by simp
  next
    case 2
    with ok show ?thesis by (simp add: part_ok_def)
  next
    case 3
    with c show ?thesis by (auto simp: part_ok_def)
  qed
qed

theorem copy_attempt_is_safe_witness:
  "part_ok [1, 2, 3, 4, 5] ''f'' (snd (copy_download (Some (length [1, 2, 3, 4, 5])) ''f'' True (Inr []) 2
      [Reply 1 (full_server [1, 2, 3, 4, 5]), Reply 0 (\<lambda>_. ReadError ''x'')] [Some 0] True False
      (\<lambda>q. if q = ''f.part'' then Some [1, 2] else None)))"
proof -
  let ?evs = "[Reply 1 (full_server [1, 2, 3, 4, 5]), Reply 0 (\<lambda>_. ReadError ''x'')]"
  let ?fs = "\<lambda>q :: string. if q = ''f.part'' then Some [1, 2 :: byte] else None"
  have "honest_server [1, 2, 3, 4, 5] (\<lambda>_. ReadError ''x'')"
    by (simp add: honest_server_def honest_reply_def)
  then have "list_all (honest_event [1, 2, 3, 4, 5]) ?evs" using full_server_honest by simp
  moreover have "not_cancelled ?evs" by (simp add: not_cancelled_def)
  moreover have "part_ok [1, 2, 3, 4, 5] ''f'' ?fs" by (simp add: part_ok_def part_path_def)
  ultimately show ?thesis
    using copy_attempt_is_safe [of 2 "[1, 2, 3, 4, 5]" ?evs "''f''" ?fs True "Inr []" "[Some 0]" True False
        "fst (copy_download (Some (length [1, 2, 3, 4, 5])) ''f'' True (Inr []) 2 ?evs [Some 0] True False ?fs)"
        "snd (copy_download (Some (length [1, 2, 3, 4, 5])) ''f'' True (Inr []) 2 ?evs [Some 0] True False ?fs)"]
    by simp
qed

text \<open>C30:
  From any part file that earlier attempts left, an attempt with \<open>--resume\<close> in which the server
  answers every request and nothing fails on the disk completes the copy, unless a file at least
  as large as the remote one is at the target already: that one is taken for the complete copy
  whatever it holds, and neither it nor the part file is touched.\<close>

theorem copy_resume_completes:
  assumes "0 < chunk" "list_all (prompt_event remote) evs" "length remote \<le> length evs"
    and "list_all (\<lambda>f. f = None) faults" "part_ok remote local fs"
  shows "copy_download (Some (length remote)) local True (Inr h) chunk evs faults True True fs
    = (if \<exists>d. fs local = Some d \<and> length remote \<le> length d then (AlreadyComplete, fs)
       else (CopyDone, fs(local \<mapsto> remote, part_path local := None)))"
proof -
  let ?tot = "length remote"
  let ?off = "start_offset True ?tot fs local"
  let ?s = "\<lparr>sink_data = part_content True ?tot fs local, sink_faults = faults\<rparr>"
  note base = part_content_prefix [OF assms(5), of True ?tot]
  have nc: "(case fs local of Some d \<Rightarrow> ?tot \<le> length d | None \<Rightarrow> False)
      = (\<exists>d. fs local = Some d \<and> ?tot \<le> length d)"
    by (auto split: option.split)
  have "run_ok (fst (download (Inr h) ?tot ?off chunk evs ?s))
    \<and> sink_data (run_sink (fst (download (Inr h) ?tot ?off chunk evs ?s))) = remote"
  proof (cases "?tot = 0")
    case True
    then show ?thesis
      by (simp add: download_def part_content_def start_offset_def split: option.split)
  next
    case False
    then have off: "?off < ?tot" by (simp add: start_offset_le)
    have f: "faultless ?s" using assms(4) by (simp add: faultless_def)
    have l: "?tot - ?off \<le> length evs" using assms(3) by simp
    obtain st where "download_inner ?tot ?off chunk evs ?s = Finished st"
      "sink_data (dl_sink st) = take ?off remote @ file_slice remote ?off ?tot"
      using download_inner_completes [OF assms(1) off order_refl f assms(2) l] by (auto simp: base)
    with off False take_then_slice [of ?off ?tot remote] show ?thesis by (simp add: download_def)
  qed
  then show ?thesis using nc unfolding copy_download_def Let_def unwrap_or_simps by simp
qed

theorem copy_resume_completes_witness:
  "copy_download (Some (length [1, 2, 3])) ''f'' True (Inr []) 2 (replicate 3 (Reply 5 (full_server [1, 2, 3])))
      [None] True True (\<lambda>q. if q = ''f.part'' then Some [1, 2] else None)
    = (CopyDone, (\<lambda>q. if q = ''f.part'' then Some [1, 2] else None)(''f'' \<mapsto> [1, 2, 3], ''f.part'' := None))"
proof -
  have "list_all (prompt_event [1, 2, 3]) (replicate 3 (Reply 5 (full_server [1, 2, 3])))"
    by (simp add: list_all_iff full_server_honest full_server_prompt)
  from copy_resume_completes [OF _ this, of 2 "[None]" "''f''"
      "\<lambda>q. if q = ''f.part'' then Some [1, 2] else None" "[]"]
  show ?thesis by (simp add: part_ok_def part_path_def)
qed

text \<open>
  A remote file whose attributes carry no size, or the size 0 as files of \<open>/proc\<close> do, is copied
  as an empty file, with success.
\<close>

lemma unsized_file_is_copied_empty:
  "meta_size = None \<or> meta_size = Some 0 \<Longrightarrow>
     copy_download meta_size local False opened chunk evs faults True True fs
       = (CopyDone, fs(local \<mapsto> [], part_path local := None))"
  by (auto simp: copy_download_def Let_def download_def part_content_def start_offset_def
      split: option.splits)

end
