(* ===== verification/Transfer_Job.thy ===== *)
theory Transfer_Job
  imports Sftp_Shell
begin

text \<open>
  The background transfers of the file browser (\<open>tui/views/browser.rs\<close>): expansion of
  directories, the work queue with its overwrite questions, the workers with their prefetched
  targets, the transfer of one file, and what a move deletes at the end.  The properties are in
  \<open>Transfer_Correct\<close> and \<open>Transfer_Run\<close>.
\<close>

section \<open>Targets\<close>

datatype direction = LocalToRemote | RemoteToLocal

record transfer_target =
  tt_src :: string
  tt_dst :: string
  tt_name :: string
  tt_size :: nat
  tt_is_dir :: bool

text \<open>\<open>trim_end_matches('/')\<close> and \<open>trim_start_matches('/')\<close>.\<close>

definition trim_start_slashes :: "string \<Rightarrow> string" where
  "trim_start_slashes s = dropWhile (\<lambda>c. c = CHR ''/'') s"

definition trim_end_slashes :: "string \<Rightarrow> string" where
  "trim_end_slashes s = rev (trim_start_slashes (rev s))"

text \<open>An item of a batch: source path, name, whether it is a directory, size.\<close>

type_synonym batch_item = "string \<times> string \<times> bool \<times> nat"

definition absolute_base :: "string \<Rightarrow> string" where
  "absolute_base dst_cwd =
     (let cwd = trim_end_slashes dst_cwd
      in if starts_with ''/'' cwd then cwd else ''/'' @ cwd)"

definition transfer_targets :: "string \<Rightarrow> batch_item list \<Rightarrow> transfer_target list" where
  "transfer_targets dst_cwd items =
     map (\<lambda>(src, name, isdir, n).
       \<lparr>tt_src = src, tt_dst = absolute_base dst_cwd @ ''/'' @ name, tt_name = name,
        tt_size = n, tt_is_dir = isdir\<rparr>) items"

section \<open>Walking directories\<close>

text \<open>
  A directory is read by path and gives names with whether they are directories and their size,
  or an error.  Both walks keep a list of directories to visit; the local one takes the last,
  the remote one up to sixteen from the front.  \<open>None\<close> means that the fuel, one unit for each
  round, is used up.
\<close>

type_synonym dir_reader = "string \<Rightarrow> (string \<times> bool \<times> nat) list option"
type_synonym walk_entry = "string \<times> bool \<times> nat"

definition SFTP_SCAN_CONCURRENCY :: nat where "SFTP_SCAN_CONCURRENCY = 16"

definition path_components :: "string \<Rightarrow> string list" where
  "path_components s = filter (\<lambda>c. c \<noteq> [] \<and> c \<noteq> ''.'') (split_on CHR ''/'' s)"

text \<open>\<open>Path::join\<close> with a file name, and \<open>Path::strip_prefix\<close>, which compares components.\<close>

definition path_join :: "string \<Rightarrow> string \<Rightarrow> string" where
  "path_join d name = (if ends_with ''/'' d then d @ name else d @ ''/'' @ name)"

definition path_strip_prefix :: "string \<Rightarrow> string \<Rightarrow> string option" where
  "path_strip_prefix base full =
     (let b = path_components base; f = path_components full
      in if take (length b) f = b then Some (join_with ''/'' (drop (length b) f)) else None)"

definition local_entry :: "string \<Rightarrow> string \<Rightarrow> string \<times> bool \<times> nat \<Rightarrow> walk_entry" where
  "local_entry base d e =
     (case e of (name, isdir, n) \<Rightarrow>
        (let full = path_join d name
         in (unwrap_or (path_strip_prefix base full) full, isdir, if isdir then 0 else n)))"

fun walk_local_dir ::
  "nat \<Rightarrow> dir_reader \<Rightarrow> string \<Rightarrow> string list \<Rightarrow> walk_entry list \<Rightarrow> (string + walk_entry list) option"
where
  "walk_local_dir 0 rd base dirs res = None"
| "walk_local_dir (Suc n) rd base dirs res =
     (if dirs = [] then Some (Inr res)
      else let d = last dirs
           in case rd d of
                None \<Rightarrow> Some (Inl (''Failed to read local directory: '' @ d))
              | Some es \<Rightarrow>
                  walk_local_dir n rd base
                    (butlast dirs @ map (\<lambda>(name, _). path_join d name) (filter (fst \<circ> snd) es))
                    (res @ map (local_entry base d) es))"

text \<open>The remote walk works on strings throughout.\<close>

definition remote_join :: "string \<Rightarrow> string \<Rightarrow> string" where
  "remote_join d name = trim_end_slashes d @ ''/'' @ name"

definition remote_entry :: "string \<Rightarrow> string \<Rightarrow> string \<times> bool \<times> nat \<Rightarrow> walk_entry" where
  "remote_entry base d e =
     (case e of (name, isdir, n) \<Rightarrow>
        (let full = remote_join d name
         in (trim_start_slashes (unwrap_or (strip_prefix (trim_end_slashes base) full) full), isdir, n)))"

definition proper_entry :: "string \<times> bool \<times> nat \<Rightarrow> bool" where
  "proper_entry e \<longleftrightarrow> fst e \<noteq> ''.'' \<and> fst e \<noteq> ''..''"

fun read_batch ::
  "dir_reader \<Rightarrow> string \<Rightarrow> string list \<Rightarrow> string + walk_entry list \<times> string list" where
  "read_batch rd base [] = Inr ([], [])"
| "read_batch rd base (d # ds) =
     (case rd d of
        None \<Rightarrow> Inl (''Failed to read remote directory: '' @ d)
      | Some es0 \<Rightarrow>
          (let es = filter proper_entry es0
           in result_bind (read_batch rd base ds) (\<lambda>(rs, subs).
                Inr (map (remote_entry base d) es @ rs,
                     map (\<lambda>(name, _). remote_join d name) (filter (fst \<circ> snd) es) @ subs))))"

fun walk_remote_dir ::
  "nat \<Rightarrow> dir_reader \<Rightarrow> string \<Rightarrow> string list \<Rightarrow> walk_entry list \<Rightarrow> (string + walk_entry list) option"
where
  "walk_remote_dir 0 rd base dirs res = None"
| "walk_remote_dir (Suc n) rd base dirs res =
     (if dirs = [] then Some (Inr res)
      else case read_batch rd base (take SFTP_SCAN_CONCURRENCY dirs) of
          Inl e \<Rightarrow> Some (Inl e)
        | Inr (es, subs) \<Rightarrow>
            walk_remote_dir n rd base (drop SFTP_SCAN_CONCURRENCY dirs @ subs) (res @ es))"

text \<open>\<open>expand_directory_targets\<close>; the walk of the direction is an argument.\<close>

definition child_target :: "transfer_target \<Rightarrow> walk_entry \<Rightarrow> transfer_target" where
  "child_target t e =
     (case e of (relative, isdir, n) \<Rightarrow>
        \<lparr>tt_src = trim_end_slashes (tt_src t) @ ''/'' @ relative,
         tt_dst = trim_end_slashes (tt_dst t) @ ''/'' @ relative,
         tt_name = last (split_on CHR ''/'' relative), tt_size = n, tt_is_dir = isdir\<rparr>)"

fun expand_directory_targets ::
  "(string \<Rightarrow> string + walk_entry list) \<Rightarrow> transfer_target list \<Rightarrow> string + transfer_target list" where
  "expand_directory_targets walk [] = Inr []"
| "expand_directory_targets walk (t # ts) =
     (if \<not> tt_is_dir t then
        result_bind (expand_directory_targets walk ts) (\<lambda>r. Inr (t # r))
      else
        result_bind (walk (tt_src t)) (\<lambda>children.
        result_bind (expand_directory_targets walk ts) (\<lambda>r.
          Inr (t\<lparr>tt_size := 0\<rparr> # map (child_target t) children @ r))))"

text \<open>\<open>run_background_transfer\<close>: the files, the largest first (a stable sort).\<close>

definition file_targets :: "transfer_target list \<Rightarrow> transfer_target list" where
  "file_targets ts = rev (sort_key tt_size (rev (filter (\<lambda>t. \<not> tt_is_dir t) ts)))"

section \<open>The pool\<close>

datatype overwrite_answer = Overwrite | OverwriteAll | SkipOne | SkipAll | CancelAll

datatype outcome = OutCopied | OutSkipped | OutFailed

text \<open>
  The shared state of the workers of one job.  The two file systems are maps from paths to
  contents; \<open>pl_outcomes\<close> is what the workers report of each target, in order.  The counters of
  the progress display are left out.
\<close>

record pool =
  pl_direction :: direction
  pl_is_move :: bool
  pl_queue :: "transfer_target list"
  pl_cancel :: bool
  pl_skip :: bool
  pl_dead :: bool
  pl_policy :: nat
  pl_copied :: nat
  pl_error :: "string option"
  pl_dirs :: "string set"
  pl_local :: files
  pl_remote :: files
  pl_outcomes :: "(transfer_target \<times> outcome) list"

definition report :: "transfer_target \<Rightarrow> outcome \<Rightarrow> pool \<Rightarrow> pool" where
  "report t r p = p\<lparr>pl_outcomes := pl_outcomes p @ [(t, r)]\<rparr>"

text \<open>
  \<open>recv_next_target\<close>: the outcome of the check whether the destination exists, and the answer
  of the user if one is asked for (\<open>None\<close> when the question is dropped).
\<close>

definition recv_next_target ::
  "bool \<Rightarrow> overwrite_answer option \<Rightarrow> pool \<Rightarrow> (transfer_target \<times> bool) option \<times> pool" where
  "recv_next_target exists answer p =
     (case pl_queue p of
        [] \<Rightarrow> (None, p)
      | t # ts \<Rightarrow>
          (let p1 = p\<lparr>pl_queue := ts\<rparr>
           in if pl_cancel p then (None, p1)
              else if pl_policy p = 1 then (Some (t, True), p1)
              else if \<not> exists then (Some (t, True), p1)
              else if pl_policy p = 2 then (Some (t, False), report t OutSkipped p1)
              else case answer of
                  None \<Rightarrow> (None, p1)
                | Some Overwrite \<Rightarrow> (Some (t, True), p1)
                | Some OverwriteAll \<Rightarrow> (Some (t, True), p1\<lparr>pl_policy := 1\<rparr>)
                | Some SkipOne \<Rightarrow> (Some (t, False), report t OutSkipped p1)
                | Some SkipAll \<Rightarrow> (Some (t, False), report t OutSkipped (p1\<lparr>pl_policy := 2\<rparr>))
                | Some CancelAll \<Rightarrow> (None, p1\<lparr>pl_cancel := True\<rparr>)))"

section \<open>Opening a target\<close>

text \<open>
  \<open>sftp_mkdir_all\<close>: every prefix of the path that is not in the cache is created, in order;
  failures do not stop it.  The first error is the result.
\<close>

fun mkdir_components ::
  "(string \<Rightarrow> bool) \<Rightarrow> string set \<Rightarrow> string \<Rightarrow> string list \<Rightarrow> string list \<times> string option" where
  "mkdir_components mk cache cur [] = ([], None)"
| "mkdir_components mk cache cur (c # cs) =
     (if c = [] then mkdir_components mk cache cur cs
      else let cur' = cur @ ''/'' @ c; rest = mkdir_components mk cache cur' cs
           in if cur' \<in> cache then rest
              else if mk cur' then (cur' # fst rest, snd rest)
              else (fst rest, Some cur'))"

definition sftp_mkdir_all :: "(string \<Rightarrow> bool) \<Rightarrow> string \<Rightarrow> string set \<Rightarrow> string option \<times> string set" where
  "sftp_mkdir_all mk path0 cache =
     (let path = (if starts_with ''/'' path0 then path0 else ''/'' @ path0)
      in if path \<in> cache then (None, cache)
         else case mkdir_components mk cache [] (split_on CHR ''/'' path) of
             (new_dirs, err) \<Rightarrow>
               (err, if new_dirs = [] then insert path cache else cache \<union> set new_dirs))"

text \<open>
  \<open>Path::parent\<close> and \<open>Path::file_name\<close>: trailing slashes and \<open>/.\<close> do not count; the root has
  neither.
\<close>

fun trim_rev :: "string \<Rightarrow> string" where
  "trim_rev [] = []"
| "trim_rev (c # cs) =
     (if c = CHR ''/'' \<or> (c = CHR ''.'' \<and> cs \<noteq> [] \<and> hd cs = CHR ''/'') then trim_rev cs else c # cs)"

definition trim_path :: "string \<Rightarrow> string" where
  "trim_path p = rev (trim_rev (rev p))"

definition path_parent :: "string \<Rightarrow> string option" where
  "path_parent p =
     (let q = trim_path p
      in if q = [] then None
         else case rsplit_once CHR ''/'' q of
             None \<Rightarrow> Some []
           | Some (d, _) \<Rightarrow> Some (if trim_path d = [] then ''/'' else trim_path d))"

definition path_file_name :: "string \<Rightarrow> string option" where
  "path_file_name p =
     (let q = trim_path p; name = (case rsplit_once CHR ''/'' q of None \<Rightarrow> q | Some (_, n) \<Rightarrow> n)
      in if name = [] \<or> name = ''.'' \<or> name = ''..'' then None else Some name)"

text \<open>
  A handle is the path the server opened it for; \<open>None\<close> is the empty string, which no server
  gives out.  Opening for writing creates or truncates the file.
\<close>

type_synonym handle = "string option"

definition open_target_handle ::
  "(string \<Rightarrow> bool) \<Rightarrow> bool \<Rightarrow> transfer_target \<Rightarrow> pool \<Rightarrow> handle option \<times> pool" where
  "open_target_handle mk opens t p =
     (case pl_direction p of
        RemoteToLocal \<Rightarrow> (if opens then Some (Some (tt_src t)) else None, p)
      | LocalToRemote \<Rightarrow>
          (let p1 = (case path_parent (tt_dst t) of
                       None \<Rightarrow> p
                     | Some d \<Rightarrow>
                         if d = [] then p
                         else p\<lparr>pl_dirs := snd (sftp_mkdir_all mk d (pl_dirs p))\<rparr>)
           in if opens then (Some (Some (tt_dst t)), p1\<lparr>pl_remote := (pl_remote p1)(tt_dst t \<mapsto> [])\<rparr>)
              else (None, p1)))"

section \<open>The transfer of one file\<close>

text \<open>What the disk and the server do during one transfer.\<close>

record transfer_env =
  xe_chunk :: nat
  xe_replies :: "download_event list"
  xe_faults :: "nat option list"
  xe_acks :: "upload_event list"
  xe_reads :: "nat option list"
  xe_parent_ok :: bool
  xe_create_ok :: bool
  xe_rename_ok :: bool

text \<open>\<open>None\<close> while the transfer still waits; otherwise whether it succeeded.\<close>

definition run_upload ::
  "transfer_env \<Rightarrow> transfer_target \<Rightarrow> handle \<Rightarrow> pool \<Rightarrow> (bool \<times> pool) option" where
  "run_upload env t h p =
     (case pl_local p (tt_src t) of
        None \<Rightarrow> Some (False, p)
      | Some data \<Rightarrow>
          (let old = (case h of Some path \<Rightarrow> unwrap_or (pl_remote p path) [] | None \<Rightarrow> []);
               store = (\<lambda>st. case h of
                   Some path \<Rightarrow> p\<lparr>pl_remote := (pl_remote p)(path \<mapsto> ul_remote st)\<rparr>
                 | None \<Rightarrow> p)
           in case upload_inner (length data) (xe_chunk env) (xe_acks env)
                     \<lparr>rd_left = data, rd_plan = xe_reads env\<rparr> old of
                Waiting st \<Rightarrow> None
              | Finished st \<Rightarrow> Some (True, store st)
              | Failed e st \<Rightarrow> Some (False, store st)))"

definition run_download ::
  "transfer_env \<Rightarrow> transfer_target \<Rightarrow> pool \<Rightarrow> (bool \<times> pool) option" where
  "run_download env t p =
     (let dst = tt_dst t; part = part_path dst; fs = pl_local p;
          offset = start_offset True (tt_size t) fs dst;
          run = download_from_handle (tt_size t) offset (xe_chunk env) (xe_replies env)
                  \<lparr>sink_data = part_content True (tt_size t) fs dst, sink_faults = xe_faults env\<rparr>;
          data = sink_data (run_sink run);
          left = p\<lparr>pl_local := fs(part \<mapsto> data)\<rparr>
      in if \<not> xe_parent_ok env \<or> \<not> xe_create_ok env then Some (False, p)
         else if run_ok run then
           Some (if xe_rename_ok env then (True, p\<lparr>pl_local := fs(part := None, dst \<mapsto> data)\<rparr>)
                 else (False, left))
         else case run of DlRan (Waiting st) \<Rightarrow> None | _ \<Rightarrow> Some (False, left))"

definition run_file_transfer ::
  "transfer_env \<Rightarrow> transfer_target \<Rightarrow> handle \<Rightarrow> pool \<Rightarrow> (bool \<times> pool) option" where
  "run_file_transfer env t h p =
     (case pl_direction p of
        LocalToRemote \<Rightarrow> run_upload env t h p
      | RemoteToLocal \<Rightarrow> run_download env t p)"

section \<open>Workers\<close>

text \<open>
  The state of a worker between its suspensions: about to take a target, perhaps a prefetched
  one; holding a target that is not opened yet; transferring, with the result of the prefetch
  once it is there; ended.
\<close>

type_synonym prefetched = "(transfer_target \<times> handle) option"

datatype worker =
    Ready prefetched
  | Holding transfer_target "handle option"
  | Running transfer_target handle "prefetched option"
  | Ended

definition session_closed :: "pool \<Rightarrow> pool" where
  "session_closed p =
     p\<lparr>pl_dead := True, pl_error := Some ''SFTP session closed (server disconnected)''\<rparr>"

definition worker_take ::
  "bool \<Rightarrow> overwrite_answer option \<Rightarrow> prefetched \<Rightarrow> pool \<Rightarrow> worker \<times> pool" where
  "worker_take exists answer pf p =
     (case pf of
        Some (t, h) \<Rightarrow> (Holding t (Some h), p)
      | None \<Rightarrow>
          (case recv_next_target exists answer p of
             (Some (t, True), p') \<Rightarrow> (Holding t None, p')
           | (Some (t, False), p') \<Rightarrow> (Ready None, p')
           | (None, p') \<Rightarrow> (Ended, p')))"

definition worker_open ::
  "bool \<Rightarrow> (string \<Rightarrow> bool) \<Rightarrow> bool \<Rightarrow> bool \<Rightarrow> transfer_target \<Rightarrow> handle option \<Rightarrow> pool \<Rightarrow> worker \<times> pool" where
  "worker_open closed mk opens closes t fh p =
     (if pl_cancel p \<or> pl_dead p then (Ended, p)
      else if closed then (Ended, session_closed p)
      else case fh of
          Some h \<Rightarrow> (Running t h None, p)
        | None \<Rightarrow>
            (case open_target_handle mk opens t p of
               (Some h, p') \<Rightarrow> (Running t h None, p')
             | (None, p') \<Rightarrow>
                 if closes then (Ended, session_closed p')
                 else (Ready None, report t OutFailed
                         (p'\<lparr>pl_error := Some (tt_name t @ '': open failed'')\<rparr>))))"

text \<open>
  The prefetch during a transfer.  A skipped target and one that could not be opened both become
  a target with the empty handle.
\<close>

definition prefetch ::
  "bool \<Rightarrow> overwrite_answer option \<Rightarrow> (string \<Rightarrow> bool) \<Rightarrow> bool \<Rightarrow> pool \<Rightarrow> prefetched \<times> pool" where
  "prefetch exists answer mk opens p =
     (case recv_next_target exists answer p of
        (next, p') \<Rightarrow>
          if pl_cancel p' \<or> pl_dead p' then (None, p')
          else case next of
              None \<Rightarrow> (None, p')
            | Some (t, True) \<Rightarrow>
                (case open_target_handle mk opens t p' of
                   (Some h, p'') \<Rightarrow> (Some (t, h), p'')
                 | (None, p'') \<Rightarrow> (Some (t, None), p''))
            | Some (t, False) \<Rightarrow> (Some (t, None), p'))"

text \<open>For a move the source file is deleted; \<open>removes\<close> is whether that succeeds.\<close>

definition delete_source :: "bool \<Rightarrow> transfer_target \<Rightarrow> pool \<Rightarrow> pool" where
  "delete_source removes t p =
     (if \<not> pl_is_move p \<or> \<not> removes then p
      else case pl_direction p of
          RemoteToLocal \<Rightarrow> p\<lparr>pl_remote := (pl_remote p)(tt_src t := None)\<rparr>
        | LocalToRemote \<Rightarrow> p\<lparr>pl_local := (pl_local p)(tt_src t := None)\<rparr>)"

definition worker_finish ::
  "bool \<Rightarrow> bool \<Rightarrow> transfer_target \<Rightarrow> bool \<Rightarrow> prefetched \<Rightarrow> pool \<Rightarrow> worker \<times> pool" where
  "worker_finish closed removes t ok pf p =
     (if ok then
        (Ready pf, delete_source removes t (report t OutCopied (p\<lparr>pl_copied := pl_copied p + 1\<rparr>)))
      else if pl_cancel p then (Ended, p)
      else if pl_skip p then (Ready pf, report t OutSkipped (p\<lparr>pl_skip := False\<rparr>))
      else if closed then (Ended, session_closed p)
      else (Ready pf, report t OutFailed (p\<lparr>pl_error := Some (tt_name t @ '': transfer failed'')\<rparr>)))"

section \<open>A job\<close>

text \<open>
  Any number of workers take their steps in any order; the user presses skip or cancel at any
  time and the heartbeat may find the session dead.  An event that does not apply to the state
  of its worker changes nothing.
\<close>

record job =
  jb_pool :: pool
  jb_workers :: "nat \<Rightarrow> worker"

datatype job_event =
    Take nat bool "overwrite_answer option"
  | OpenTarget nat bool "string \<Rightarrow> bool" bool bool
  | Prefetch nat bool "overwrite_answer option" "string \<Rightarrow> bool" bool
  | Finish nat transfer_env bool bool
  | UserSkip
  | UserCancel
  | UserPolicy nat
  | HeartbeatDead

definition set_worker :: "nat \<Rightarrow> worker \<times> pool \<Rightarrow> job \<Rightarrow> job" where
  "set_worker w r j = j\<lparr>jb_workers := (jb_workers j)(w := fst r), jb_pool := snd r\<rparr>"

fun job_step :: "job_event \<Rightarrow> job \<Rightarrow> job" where
  "job_step (Take w ex ans) j =
     (case jb_workers j w of
        Ready pf \<Rightarrow> set_worker w (worker_take ex ans pf (jb_pool j)) j
      | _ \<Rightarrow> j)"
| "job_step (OpenTarget w closed mk opens closes) j =
     (case jb_workers j w of
        Holding t fh \<Rightarrow> set_worker w (worker_open closed mk opens closes t fh (jb_pool j)) j
      | _ \<Rightarrow> j)"
| "job_step (Prefetch w ex ans mk opens) j =
     (case jb_workers j w of
        Running t h None \<Rightarrow>
          (case prefetch ex ans mk opens (jb_pool j) of
             (pf, p) \<Rightarrow> set_worker w (Running t h (Some pf), p) j)
      | _ \<Rightarrow> j)"
| "job_step (Finish w env closed removes) j =
     (case jb_workers j w of
        Running t h (Some pf) \<Rightarrow>
          (case run_file_transfer env t h (jb_pool j) of
             None \<Rightarrow> j
           | Some (ok, p) \<Rightarrow> set_worker w (worker_finish closed removes t ok pf p) j)
      | _ \<Rightarrow> j)"
| "job_step UserSkip j = j\<lparr>jb_pool := (jb_pool j)\<lparr>pl_skip := True\<rparr>\<rparr>"
| "job_step UserCancel j = j\<lparr>jb_pool := (jb_pool j)\<lparr>pl_cancel := True\<rparr>\<rparr>"
| "job_step (UserPolicy v) j = j\<lparr>jb_pool := (jb_pool j)\<lparr>pl_policy := v\<rparr>\<rparr>"
| "job_step HeartbeatDead j = j\<lparr>jb_pool := (jb_pool j)\<lparr>pl_dead := True\<rparr>\<rparr>"

definition job_run :: "job_event list \<Rightarrow> job \<Rightarrow> job" where
  "job_run evs j = fold job_step evs j"

definition job_start ::
  "direction \<Rightarrow> bool \<Rightarrow> nat \<Rightarrow> transfer_target list \<Rightarrow> files \<Rightarrow> files \<Rightarrow> job" where
  "job_start dir move policy ts loc rem =
     \<lparr>jb_pool = \<lparr>pl_direction = dir, pl_is_move = move, pl_queue = file_targets ts,
        pl_cancel = False, pl_skip = False, pl_dead = False, pl_policy = policy, pl_copied = 0,
        pl_error = None, pl_dirs = {}, pl_local = loc, pl_remote = rem, pl_outcomes = []\<rparr>,
      jb_workers = (\<lambda>_. Ready None)\<rparr>"

section \<open>The end of a job\<close>

record transfer_result =
  tr_copied :: nat
  tr_total :: nat
  tr_error :: "string option"

definition job_result :: "nat \<Rightarrow> job \<Rightarrow> transfer_result" where
  "job_result n j = \<lparr>tr_copied = pl_copied (jb_pool j), tr_total = n, tr_error = pl_error (jb_pool j)\<rparr>"

definition format_transfer_result :: "transfer_result \<Rightarrow> string \<Rightarrow> bool \<Rightarrow> string" where
  "format_transfer_result r description is_move =
     (let verb_past = (if is_move then ''Moved'' else ''Copied'');
          verb_noun = (if is_move then ''Move'' else ''Copy'')
      in case tr_error r of
           None \<Rightarrow>
             if tr_copied r = 0 then verb_noun @ '' cancelled''
             else if tr_total r = 1 then verb_past @ '': '' @ description
             else verb_past @ '' '' @ show_nat (tr_total r) @ '' items''
         | Some err \<Rightarrow>
             verb_past @ '' '' @ show_nat (tr_copied r) @ ''/'' @ show_nat (tr_total r)
               @ '', error: '' @ err)"

text \<open>
  After a move whose result has files and no error, the source directories are removed with all
  that is below them.
\<close>

definition below :: "string \<Rightarrow> string \<Rightarrow> bool" where
  "below dir path = starts_with (trim_end_slashes dir @ ''/'') path"

definition remove_tree :: "string \<Rightarrow> files \<Rightarrow> files" where
  "remove_tree dir fs = (\<lambda>p. if below dir p then None else fs p)"

fun remove_dirs :: "(string \<times> bool) list \<Rightarrow> files \<Rightarrow> files" where
  "remove_dirs [] fs = fs"
| "remove_dirs ((path, isdir) # rest) fs = remove_dirs rest (if isdir then remove_tree path fs else fs)"

definition finish_move :: "(string \<times> bool) list option \<Rightarrow> transfer_result \<Rightarrow> pool \<Rightarrow> pool" where
  "finish_move sources r p =
     (case sources of
        None \<Rightarrow> p
      | Some ss \<Rightarrow>
          if 0 < tr_copied r \<and> tr_error r = None then
            (case pl_direction p of
               LocalToRemote \<Rightarrow> p\<lparr>pl_local := remove_dirs (rev ss) (pl_local p)\<rparr>
             | RemoteToLocal \<Rightarrow> p\<lparr>pl_remote := remove_dirs (rev ss) (pl_remote p)\<rparr>)
          else p)"

end
