(* ===== verification/Transfer_Correct.thy ===== *)
theory Transfer_Correct
  imports Transfer_Job
begin

text \<open>
  What the steps of a background transfer keep: every file stays in the queue, in a hand or among
  the reports, the count agrees with the reports, sources change only by the deletion of reported
  files, and the transfer of one file stores it whole or leaves a prefix in its part file.  Then
  where transfers fall short: a target skipped during a prefetch is transferred all the same, and
  the end of a move deletes files that were never copied.  \<open>Transfer_Run\<close> puts the steps together.
\<close>

section \<open>What the steps keep\<close>

lemma report_sel [simp]:
  "pl_queue (report t r p) = pl_queue p" "pl_cancel (report t r p) = pl_cancel p"
  "pl_dead (report t r p) = pl_dead p" "pl_skip (report t r p) = pl_skip p"
  "pl_policy (report t r p) = pl_policy p" "pl_copied (report t r p) = pl_copied p"
  "pl_error (report t r p) = pl_error p" "pl_direction (report t r p) = pl_direction p"
  "pl_is_move (report t r p) = pl_is_move p" "pl_local (report t r p) = pl_local p"
  "pl_remote (report t r p) = pl_remote p"
  "pl_outcomes (report t r p) = pl_outcomes p @ [(t, r)]"
  by (simp_all add: report_def)

lemma session_closed_sel [simp]:
  "pl_queue (session_closed p) = pl_queue p" "pl_cancel (session_closed p) = pl_cancel p"
  "pl_dead (session_closed p)" "pl_outcomes (session_closed p) = pl_outcomes p"
  "pl_copied (session_closed p) = pl_copied p" "pl_direction (session_closed p) = pl_direction p"
  "pl_is_move (session_closed p) = pl_is_move p" "pl_local (session_closed p) = pl_local p"
  "pl_remote (session_closed p) = pl_remote p" "pl_error (session_closed p) \<noteq> None"
  by (simp_all add: session_closed_def)

lemma delete_source_sel [simp]:
  "pl_queue (delete_source r t p) = pl_queue p" "pl_cancel (delete_source r t p) = pl_cancel p"
  "pl_dead (delete_source r t p) = pl_dead p" "pl_outcomes (delete_source r t p) = pl_outcomes p"
  "pl_copied (delete_source r t p) = pl_copied p" "pl_error (delete_source r t p) = pl_error p"
  "pl_direction (delete_source r t p) = pl_direction p" "pl_is_move (delete_source r t p) = pl_is_move p"
  by (simp_all add: delete_source_def split: direction.split)

lemma open_target_handle_sel:
  assumes "open_target_handle mk opens t p = (h, p')"
  shows "pl_queue p' = pl_queue p" "pl_cancel p' = pl_cancel p" "pl_dead p' = pl_dead p"
    "pl_outcomes p' = pl_outcomes p" "pl_copied p' = pl_copied p" "pl_error p' = pl_error p"
    "pl_direction p' = pl_direction p" "pl_is_move p' = pl_is_move p" "pl_local p' = pl_local p"
    "pl_direction p = RemoteToLocal \<Longrightarrow> pl_remote p' = pl_remote p"
    "pl_skip p' = pl_skip p" "pl_policy p' = pl_policy p"
  using assms by (auto simp: open_target_handle_def Let_def split: direction.splits option.splits if_splits)

lemma run_file_transfer_sel:
  assumes "run_file_transfer env t h p = Some (ok, p')"
  shows "pl_queue p' = pl_queue p" "pl_cancel p' = pl_cancel p" "pl_dead p' = pl_dead p"
    "pl_outcomes p' = pl_outcomes p" "pl_copied p' = pl_copied p" "pl_error p' = pl_error p"
    "pl_direction p' = pl_direction p" "pl_is_move p' = pl_is_move p" "pl_skip p' = pl_skip p"
    "pl_policy p' = pl_policy p"
    "pl_direction p = RemoteToLocal \<Longrightarrow> pl_remote p' = pl_remote p"
    "pl_direction p = LocalToRemote \<Longrightarrow> pl_local p' = pl_local p"
  using assms
  by (auto simp: run_file_transfer_def run_upload_def run_download_def Let_def
      split: direction.splits option.splits transfer_outcome.splits if_splits download_run.splits)

text \<open>The possible results of asking for the next target.\<close>

lemma recv_next_target_cases:
  assumes "recv_next_target ex ans p = (res, p')"
  obtains (empty) "pl_queue p = []" "res = None" "p' = p"
  | (transfer) t ts pol where "pl_queue p = t # ts" "res = Some (t, True)"
      "p' = p\<lparr>pl_queue := ts, pl_policy := pol\<rparr>" "\<not> pl_cancel p"
      "pl_policy p = 1 \<or> \<not> ex \<or> ans = Some Overwrite \<or> ans = Some OverwriteAll"
  | (skip) t ts pol where "pl_queue p = t # ts" "res = Some (t, False)"
      "p' = report t OutSkipped (p\<lparr>pl_queue := ts, pl_policy := pol\<rparr>)" "\<not> pl_cancel p" "ex"
  | (stop) t ts where "pl_queue p = t # ts" "res = None" "pl_cancel p' \<or> ans = None"
      "p' = p\<lparr>pl_queue := ts, pl_cancel := pl_cancel p'\<rparr>" "pl_cancel p \<longrightarrow> pl_cancel p'"
proof (cases "pl_queue p")
  case Nil
  show thesis by (rule empty) (use assms Nil in \<open>auto simp: recv_next_target_def\<close>)
next
  case (Cons t ts)
  consider "pl_cancel p" | "\<not> pl_cancel p" "pl_policy p = 1 \<or> \<not> ex"
    | "\<not> pl_cancel p" "pl_policy p \<noteq> 1" "ex" "pl_policy p = 2"
    | "\<not> pl_cancel p" "pl_policy p \<noteq> 1" "ex" "pl_policy p \<noteq> 2" by blast
  then show thesis
  proof cases
    case 1
    with assms Cons have "res = None" "p' = p\<lparr>pl_queue := ts\<rparr>" by (simp_all add: recv_next_target_def)
    with 1 show thesis by (intro stop [OF Cons]) simp_all
  next
    case 2
    then have "recv_next_target ex ans p = (Some (t, True), p\<lparr>pl_queue := ts\<rparr>)"
      using Cons by (auto simp: recv_next_target_def Let_def)
    with assms 2 show thesis by (intro transfer [OF Cons, of "pl_policy p"]) auto
  next
    case 3
    have "p\<lparr>pl_queue := ts, pl_policy := pl_policy p\<rparr> = p\<lparr>pl_queue := ts\<rparr>" by simp
    then have e: "p\<lparr>pl_queue := ts\<rparr> = p\<lparr>pl_queue := ts, pl_policy := 2\<rparr>" by (simp only: 3(4))
    from assms Cons 3 have r: "res = Some (t, False)" "p' = report t OutSkipped (p\<lparr>pl_queue := ts\<rparr>)"
      by (simp_all add: recv_next_target_def)
    have "p' = report t OutSkipped (p\<lparr>pl_queue := ts, pl_policy := 2\<rparr>)"
      by (subst e [symmetric]) (rule r(2))
    from skip [OF Cons r(1) this 3(1,3)] show thesis .
  next
    case 4
    note r = assms [unfolded recv_next_target_def] Cons 4
    show thesis
    proof (cases ans)
      case None
      with r have "res = None" "p' = p\<lparr>pl_queue := ts\<rparr>" by simp_all
      with None 4 show thesis by (intro stop [OF Cons]) simp_all
    next
      case (Some a)
      show thesis
      proof (cases a)
        case Overwrite
        with r Some have "res = Some (t, True)" "p' = p\<lparr>pl_queue := ts\<rparr>" by simp_all
        with Some Overwrite 4 show thesis by (intro transfer [OF Cons, of "pl_policy p"]) simp_all
      next
        case OverwriteAll
        with r Some have "res = Some (t, True)" "p' = p\<lparr>pl_queue := ts, pl_policy := 1\<rparr>" by simp_all
        with Some OverwriteAll 4 show thesis by (intro transfer [OF Cons, of 1]) simp_all
      next
        case SkipOne
        with r Some have "res = Some (t, False)" "p' = report t OutSkipped (p\<lparr>pl_queue := ts\<rparr>)"
          by simp_all
        with 4 show thesis by (intro skip [OF Cons, of "pl_policy p"]) simp_all
      next
        case SkipAll
        with r Some have "res = Some (t, False)"
          "p' = report t OutSkipped (p\<lparr>pl_queue := ts, pl_policy := 2\<rparr>)" by simp_all
        with 4 show thesis by (intro skip [OF Cons, of 2]) simp_all
      next
        case CancelAll
        with r Some have "res = None" "p' = p\<lparr>pl_queue := ts, pl_cancel := True\<rparr>" by simp_all
        then show thesis by (intro stop [OF Cons]) simp_all
      qed
    qed
  qed
qed

section \<open>Every file is accounted for\<close>

fun hand :: "worker \<Rightarrow> transfer_target set" where
  "hand (Ready pf) = fst ` set_option pf"
| "hand (Holding t fh) = {t}"
| "hand (Running t h pf) = insert t (\<Union> ((\<lambda>x. fst ` set_option x) ` set_option pf))"
| "hand Ended = {}"

definition reported :: "pool \<Rightarrow> transfer_target set" where
  "reported p = fst ` set (pl_outcomes p)"

definition stopped :: "pool \<Rightarrow> bool" where
  "stopped p \<longleftrightarrow> pl_cancel p \<or> pl_dead p"

text \<open>A step of one worker: it keeps what the pool and the worker had, and never un-stops a job.\<close>

definition keeps :: "worker \<times> pool \<Rightarrow> worker \<times> pool \<Rightarrow> bool" where
  "keeps a b \<longleftrightarrow> stopped (snd b) \<or>
     (\<not> stopped (snd a)
      \<and> set (pl_queue (snd a)) \<union> hand (fst a) \<union> reported (snd a)
          \<subseteq> set (pl_queue (snd b)) \<union> hand (fst b) \<union> reported (snd b))"

lemma recv_keeps:
  assumes "recv_next_target ex ans p = (res, p')" "ans \<noteq> None"
  shows "stopped p' \<or> (\<not> stopped p \<and> set (pl_queue p) \<union> reported p
    \<subseteq> set (pl_queue p') \<union> (case res of Some (t, True) \<Rightarrow> {t} | _ \<Rightarrow> {}) \<union> reported p')"
  using assms(1)
proof (cases rule: recv_next_target_cases)
  case empty
  then show ?thesis by auto
next
  case (transfer t ts pol)
  then show ?thesis by (auto simp: stopped_def reported_def)
next
  case (skip t ts pol)
  then show ?thesis by (auto simp: stopped_def reported_def)
next
  case (stop t ts)
  then show ?thesis using assms(2) by (auto simp: stopped_def)
qed

lemma worker_take_keeps:
  assumes "ans \<noteq> None"
  shows "keeps (Ready pf, p) (worker_take ex ans pf p)"
proof (cases pf)
  case None
  obtain res p' where r: "recv_next_target ex ans p = (res, p')" by (metis prod.exhaust)
  from recv_keeps [OF r assms] None r show ?thesis
    by (auto simp: keeps_def worker_take_def split: option.splits bool.splits)
next
  case (Some x)
  then show ?thesis by (cases x) (simp add: keeps_def worker_take_def)
qed

lemma worker_open_keeps: "keeps (Holding t fh, p) (worker_open closed mk opens closes t fh p)"
proof (cases "pl_cancel p \<or> pl_dead p \<or> closed")
  case True
  then show ?thesis by (auto simp: keeps_def worker_open_def stopped_def)
next
  case False
  show ?thesis
  proof (cases fh)
    case None
    obtain r p' where r: "open_target_handle mk opens t p = (r, p')" by (metis prod.exhaust)
    note o = open_target_handle_sel [OF r]
    show ?thesis using False None r o
      by (cases r) (auto simp: keeps_def worker_open_def stopped_def reported_def)
  next
    case (Some h)
    with False show ?thesis by (auto simp: keeps_def worker_open_def)
  qed
qed

lemma prefetch_keeps:
  assumes "ans \<noteq> None" "prefetch ex ans mk opens p = (pf, p')"
  shows "keeps (Running t h None, p) (Running t h (Some pf), p')"
proof -
  obtain res p1 where r: "recv_next_target ex ans p = (res, p1)" by (metis prod.exhaust)
  note k = recv_keeps [OF r assms(1)]
  show ?thesis
  proof (cases "pl_cancel p1 \<or> pl_dead p1")
    case True
    with assms(2) r show ?thesis by (auto simp: prefetch_def keeps_def stopped_def)
  next
    case False
    show ?thesis
    proof (cases "\<exists>u. res = Some (u, True)")
      case True
      then obtain u where u: "res = Some (u, True)" by blast
      obtain hh p2 where op: "open_target_handle mk opens u p1 = (hh, p2)" by (metis prod.exhaust)
      note sel = open_target_handle_sel [OF op]
      have "p' = p2 \<and> (\<exists>g. pf = Some (u, g))"
        using assms(2) r False u op by (auto simp: prefetch_def split: option.splits)
      with k u sel False show ?thesis by (auto simp: keeps_def stopped_def reported_def)
    next
      case no: False
      then have "p' = p1 \<and> (pf = None \<or> (\<exists>u. res = Some (u, False)))"
        using assms(2) r False by (auto simp: prefetch_def split: option.splits bool.splits)
      with k no False show ?thesis by (auto simp: keeps_def split: option.splits bool.splits)
    qed
  qed
qed

lemma worker_finish_keeps:
  assumes "pl_queue p' = pl_queue p" "pl_outcomes p' = pl_outcomes p" "pl_cancel p' = pl_cancel p"
    "pl_dead p' = pl_dead p"
  shows "keeps (Running t h (Some pf), p) (worker_finish closed removes t ok pf p')"
  using assms by (auto simp: keeps_def worker_finish_def stopped_def reported_def)

definition accounted :: "transfer_target set \<Rightarrow> job \<Rightarrow> bool" where
  "accounted ts j \<longleftrightarrow> stopped (jb_pool j) \<or>
     ts \<subseteq> set (pl_queue (jb_pool j)) \<union> (\<Union>w. hand (jb_workers j w)) \<union> reported (jb_pool j)"

lemma account_sets:
  assumes "A \<subseteq> Q \<union> H \<union> R" "H \<subseteq> h \<union> N" "Q \<union> h \<union> R \<subseteq> Q' \<union> h' \<union> R'" "h' \<subseteq> N"
  shows "A \<subseteq> Q' \<union> N \<union> R'"
  using assms by blast

lemma accounted_set_worker:
  assumes "accounted ts j" "keeps (jb_workers j w, jb_pool j) r"
  shows "accounted ts (set_worker w r j)"
proof (cases "stopped (snd r)")
  case True
  then show ?thesis by (simp add: accounted_def set_worker_def)
next
  case False
  with assms(2) have k: "\<not> stopped (jb_pool j)"
    "set (pl_queue (jb_pool j)) \<union> hand (jb_workers j w) \<union> reported (jb_pool j)
       \<subseteq> set (pl_queue (snd r)) \<union> hand (fst r) \<union> reported (snd r)"
    by (simp_all add: keeps_def)
  let ?new = "\<Union>v. hand (((jb_workers j)(w := fst r)) v)"
  have old: "(\<Union>v. hand (jb_workers j v)) \<subseteq> hand (jb_workers j w) \<union> ?new"
  proof
    fix x
    assume "x \<in> (\<Union>v. hand (jb_workers j v))"
    then obtain v where v: "x \<in> hand (jb_workers j v)" by blast
    show "x \<in> hand (jb_workers j w) \<union> ?new"
    proof (cases "v = w")
      case False
      with v have "x \<in> hand (((jb_workers j)(w := fst r)) v)" by simp
      then show ?thesis by blast
    qed (use v in simp)
  qed
  have "hand (((jb_workers j)(w := fst r)) w) \<subseteq> ?new" by blast
  then have new: "hand (fst r) \<subseteq> ?new" by simp
  have "ts \<subseteq> set (pl_queue (jb_pool j)) \<union> (\<Union>v. hand (jb_workers j v)) \<union> reported (jb_pool j)"
    using assms(1) k(1) by (simp add: accounted_def)
  from account_sets [OF this old k(2) new]
  show ?thesis by (simp add: accounted_def set_worker_def)
qed

text \<open>No question to the user is dropped without an answer.\<close>

fun answered :: "job_event \<Rightarrow> bool" where
  "answered (Take w ex ans) \<longleftrightarrow> ans \<noteq> None"
| "answered (Prefetch w ex ans mk opens) \<longleftrightarrow> ans \<noteq> None"
| "answered _ \<longleftrightarrow> True"

lemma job_step_accounted:
  assumes "accounted ts j" "answered ev"
  shows "accounted ts (job_step ev j)"
proof (cases ev)
  case (Take w ex ans)
  with assms accounted_set_worker [OF assms(1), of w] worker_take_keeps [of ans] show ?thesis
    by (cases "jb_workers j w") auto
next
  case (OpenTarget w closed mk opens closes)
  with assms accounted_set_worker [OF assms(1), of w] worker_open_keeps show ?thesis
    by (cases "jb_workers j w") auto
next
  case (Prefetch w ex ans mk opens)
  show ?thesis
  proof (cases "\<exists>t h. jb_workers j w = Running t h None")
    case True
    then obtain t h where r: "jb_workers j w = Running t h None" by blast
    obtain pf p where p: "prefetch ex ans mk opens (jb_pool j) = (pf, p)" by (metis prod.exhaust)
    from accounted_set_worker [OF assms(1), of w] prefetch_keeps [OF _ p] r p assms(2) Prefetch
    show ?thesis by simp
  next
    case False
    with assms(1) Prefetch show ?thesis
      by (cases "jb_workers j w") (auto split: option.splits)
  qed
next
  case (Finish w env closed removes)
  show ?thesis
  proof (cases "\<exists>t h pf ok p. jb_workers j w = Running t h (Some pf)
      \<and> run_file_transfer env t h (jb_pool j) = Some (ok, p)")
    case True
    then obtain t h pf ok p where r: "jb_workers j w = Running t h (Some pf)"
      "run_file_transfer env t h (jb_pool j) = Some (ok, p)" by blast
    note sel = run_file_transfer_sel [OF r(2)]
    from accounted_set_worker [OF assms(1), of w] worker_finish_keeps [OF sel(1,4,2,3)] r Finish
    show ?thesis by simp
  next
    case False
    with assms(1) Finish show ?thesis
      by (cases "jb_workers j w") (auto split: option.splits)
  qed
qed (use assms(1) in \<open>simp_all add: accounted_def stopped_def reported_def\<close>)

lemma job_run_Nil [simp]: "job_run [] j = j"
  by (simp add: job_run_def)

lemma job_run_Cons [simp]: "job_run (ev # evs) j = job_run evs (job_step ev j)"
  by (simp add: job_run_def)

lemma job_run_accounted:
  "accounted ts j \<Longrightarrow> list_all answered evs \<Longrightarrow> accounted ts (job_run evs j)"
  by (induction evs arbitrary: j) (auto intro: job_step_accounted)

text \<open>The number of copied files and the error agree with the reports.\<close>

definition counted :: "pool \<Rightarrow> bool" where
  "counted p \<longleftrightarrow> pl_copied p = length (filter (\<lambda>x. snd x = OutCopied) (pl_outcomes p))
     \<and> ((\<exists>t. (t, OutFailed) \<in> set (pl_outcomes p)) \<longrightarrow> pl_error p \<noteq> None)"

lemma counted_same:
  "counted p \<Longrightarrow> pl_copied p' = pl_copied p \<Longrightarrow> pl_error p' = pl_error p \<Longrightarrow>
     pl_outcomes p' = pl_outcomes p \<Longrightarrow> counted p'"
  by (simp add: counted_def)

lemma counted_skipped: "counted p \<Longrightarrow> counted (report t OutSkipped p)"
  by (auto simp: counted_def)

lemma counted_closed: "counted p \<Longrightarrow> counted (session_closed p)"
  by (simp add: counted_def session_closed_def)

lemma recv_counted:
  assumes "counted p" "recv_next_target ex ans p = (res, p')"
  shows "counted p'"
  using assms(2)
proof (cases rule: recv_next_target_cases)
  case (skip t ts pol)
  have "counted (p\<lparr>pl_queue := ts, pl_policy := pol\<rparr>)" by (rule counted_same [OF assms(1)]) simp_all
  with skip(3) counted_skipped show ?thesis by simp
next
  case (stop t ts)
  show ?thesis by (subst stop(4), rule counted_same [OF assms(1)]) simp_all
qed (use assms(1) in \<open>simp_all add: counted_def\<close>)

lemma open_counted:
  assumes "counted p" "open_target_handle mk opens t p = (h, p')"
  shows "counted p'"
  using counted_same [OF assms(1)] open_target_handle_sel [OF assms(2)] by blast

lemma worker_take_counted: "counted p \<Longrightarrow> counted (snd (worker_take ex ans pf p))"
proof (cases pf)
  case None
  assume c: "counted p"
  obtain res p' where r: "recv_next_target ex ans p = (res, p')" by (metis prod.exhaust)
  with recv_counted [OF c r] None show ?thesis
    by (auto simp: worker_take_def split: option.splits bool.splits)
qed (auto simp: worker_take_def)

lemma worker_open_counted:
  assumes "counted p"
  shows "counted (snd (worker_open closed mk opens closes t fh p))"
proof (cases fh)
  case None
  obtain r p' where o: "open_target_handle mk opens t p = (r, p')" by (metis prod.exhaust)
  have "counted (report t OutFailed (p'\<lparr>pl_error := Some (tt_name t @ '': open failed'')\<rparr>))"
    using open_counted [OF assms o] by (auto simp: counted_def)
  with None o open_counted [OF assms o] assms show ?thesis
    by (cases r) (simp_all add: worker_open_def counted_closed)
qed (use assms in \<open>simp add: worker_open_def counted_closed\<close>)

lemma prefetch_counted:
  assumes "counted p" "prefetch ex ans mk opens p = (pf, p')"
  shows "counted p'"
proof -
  obtain res p1 where r: "recv_next_target ex ans p = (res, p1)" by (metis prod.exhaust)
  note c = recv_counted [OF assms(1) r]
  show ?thesis
  proof (cases "\<exists>u. res = Some (u, True)")
    case True
    then obtain u where u: "res = Some (u, True)" by blast
    obtain hh p2 where o: "open_target_handle mk opens u p1 = (hh, p2)" by (metis prod.exhaust)
    with assms(2) r u c open_counted [OF c o] show ?thesis
      by (auto simp: prefetch_def split: if_splits option.splits)
  next
    case False
    with assms(2) r c show ?thesis
      by (auto simp: prefetch_def split: if_splits option.splits bool.splits)
  qed
qed

lemma worker_finish_counted:
  assumes "counted p"
  shows "counted (snd (worker_finish closed removes t ok pf p))"
proof -
  have "counted (delete_source removes t (report t OutCopied (p\<lparr>pl_copied := pl_copied p + 1\<rparr>)))"
    using assms by (auto simp: counted_def)
  moreover have "counted (report t OutSkipped (p\<lparr>pl_skip := False\<rparr>))"
    using assms by (auto simp: counted_def)
  moreover have "counted (report t OutFailed (p\<lparr>pl_error := Some (tt_name t @ '': transfer failed'')\<rparr>))"
    using assms by (auto simp: counted_def)
  ultimately show ?thesis using assms by (simp add: worker_finish_def counted_closed)
qed

lemma set_worker_pool [simp]: "jb_pool (set_worker w r j) = snd r"
  by (simp add: set_worker_def)

text \<open>Every event either leaves the pool alone or is one of these steps.\<close>

lemma job_step_pool:
  obtains "jb_pool (job_step ev j) = jb_pool j"
  | pf w ex ans where "ev = Take w ex ans" "jb_workers j w = Ready pf"
      "jb_pool (job_step ev j) = snd (worker_take ex ans pf (jb_pool j))"
  | w closed mk opens closes t fh where "ev = OpenTarget w closed mk opens closes"
      "jb_workers j w = Holding t fh"
      "jb_pool (job_step ev j) = snd (worker_open closed mk opens closes t fh (jb_pool j))"
  | w ex ans mk opens t h where "ev = Prefetch w ex ans mk opens" "jb_workers j w = Running t h None"
      "jb_pool (job_step ev j) = snd (prefetch ex ans mk opens (jb_pool j))"
  | w env closed removes t h pf ok p where "ev = Finish w env closed removes"
      "jb_workers j w = Running t h (Some pf)" "run_file_transfer env t h (jb_pool j) = Some (ok, p)"
      "jb_pool (job_step ev j) = snd (worker_finish closed removes t ok pf p)"
  | f where "f \<in> {pl_skip_update (\<lambda>_. True), pl_cancel_update (\<lambda>_. True), pl_dead_update (\<lambda>_. True)}
      \<union> range (\<lambda>v. pl_policy_update (\<lambda>_. v))" "jb_pool (job_step ev j) = f (jb_pool j)"
proof (cases ev)
  case (Take w ex ans)
  show thesis by (cases "jb_workers j w") (use Take that(1,2) in auto)
next
  case (OpenTarget w closed mk opens closes)
  show thesis by (cases "jb_workers j w") (use OpenTarget that(1,3) in auto)
next
  case (Prefetch w ex ans mk opens)
  show thesis
  proof (cases "\<exists>t h. jb_workers j w = Running t h None")
    case True
    then obtain t h where r: "jb_workers j w = Running t h None" by blast
    obtain pf p where "prefetch ex ans mk opens (jb_pool j) = (pf, p)" by (metis prod.exhaust)
    with r that(4) [OF Prefetch r] Prefetch show thesis by simp
  next
    case False
    then have "job_step ev j = j" using Prefetch by (cases "jb_workers j w") (auto split: option.splits)
    with that(1) show thesis by simp
  qed
next
  case (Finish w env closed removes)
  show thesis
  proof (cases "\<exists>t h pf ok p. jb_workers j w = Running t h (Some pf)
      \<and> run_file_transfer env t h (jb_pool j) = Some (ok, p)")
    case True
    then obtain t h pf ok p where r: "jb_workers j w = Running t h (Some pf)"
      "run_file_transfer env t h (jb_pool j) = Some (ok, p)" by blast
    with that(5) [OF Finish r] Finish show thesis by simp
  next
    case False
    then have "job_step ev j = j" using Finish by (cases "jb_workers j w") (auto split: option.splits)
    with that(1) show thesis by simp
  qed
next
  case UserSkip
  with that(6) [of "pl_skip_update (\<lambda>_. True)"] show thesis by simp
next
  case UserCancel
  with that(6) [of "pl_cancel_update (\<lambda>_. True)"] show thesis by simp
next
  case (UserPolicy v)
  with that(6) [of "pl_policy_update (\<lambda>_. v)"] show thesis by simp
next
  case HeartbeatDead
  with that(6) [of "pl_dead_update (\<lambda>_. True)"] show thesis by simp
qed

lemma job_step_counted:
  assumes "counted (jb_pool j)"
  shows "counted (jb_pool (job_step ev j))"
proof (cases rule: job_step_pool [where ev = ev and j = j])
  case (5 w env closed removes t h pf ok p)
  have "counted p" using counted_same [OF assms] run_file_transfer_sel [OF 5(3)] by blast
  with 5(4) worker_finish_counted show ?thesis by simp
next
  case (4 w ex ans mk opens t h)
  with prefetch_counted [OF assms] show ?thesis by (metis prod.collapse)
next
  case (6 f)
  with assms show ?thesis by (auto simp: counted_def)
qed (use assms worker_take_counted worker_open_counted in simp_all)

lemma job_run_counted: "counted (jb_pool j) \<Longrightarrow> counted (jb_pool (job_run evs j))"
  by (induction evs arbitrary: j) (auto intro: job_step_counted)

text \<open>A small job for the witnesses: one worker skips a file of the queue and copies the other.\<close>

definition quiet_env :: transfer_env where
  "quiet_env = \<lparr>xe_chunk = 1, xe_replies = [], xe_faults = [], xe_acks = [], xe_reads = [],
     xe_parent_ok = True, xe_create_ok = True, xe_rename_ok = True\<rparr>"

definition small_targets :: "transfer_target list" where
  "small_targets =
     [\<lparr>tt_src = ''/r/a'', tt_dst = ''/l/a'', tt_name = ''a'', tt_size = 0, tt_is_dir = False\<rparr>,
      \<lparr>tt_src = ''/r/b'', tt_dst = ''/l/b'', tt_name = ''b'', tt_size = 7, tt_is_dir = False\<rparr>]"

definition small_events :: "job_event list" where
  "small_events =
     [Take 0 True (Some SkipOne), Take 0 False (Some CancelAll),
      OpenTarget 0 False (\<lambda>_. True) True False, Prefetch 0 False (Some CancelAll) (\<lambda>_. True) True,
      Finish 0 quiet_env False True, Take 0 False (Some CancelAll)]"

definition small_job :: "bool \<Rightarrow> job" where
  "small_job move = job_run small_events
     (job_start RemoteToLocal move 0 small_targets Map.empty [''/r/a'' \<mapsto> [], ''/r/b'' \<mapsto> [1, 2, 3, 4, 5, 6, 7]])"

lemma small_targets_files: "file_targets small_targets = rev small_targets"
  by (simp add: file_targets_def small_targets_def)

text \<open>Jobs from remote to local in which nothing goes wrong, step by step.\<close>

definition quiet_job ::
  "bool \<Rightarrow> nat \<Rightarrow> bool \<Rightarrow> transfer_target list \<Rightarrow> nat \<Rightarrow> (transfer_target \<times> outcome) list \<Rightarrow> files \<Rightarrow> files
     \<Rightarrow> (nat \<Rightarrow> worker) \<Rightarrow> job" where
  "quiet_job move pol c ts n outs loc rem ws =
     \<lparr>jb_pool = \<lparr>pl_direction = RemoteToLocal, pl_is_move = move, pl_queue = ts,
        pl_cancel = c, pl_skip = False, pl_dead = False, pl_policy = pol, pl_copied = n,
        pl_error = None, pl_dirs = {}, pl_local = loc, pl_remote = rem, pl_outcomes = outs\<rparr>,
      jb_workers = ws\<rparr>"

lemma quiet_start:
  "job_start RemoteToLocal move pol ts loc rem
     = quiet_job move pol False (file_targets ts) 0 [] loc rem (\<lambda>_. Ready None)"
  by (simp add: job_start_def quiet_job_def)

lemma quiet_steps:
  "ws w = Ready None \<Longrightarrow>
     job_step (Take w True (Some SkipOne)) (quiet_job m 0 False (t # ts) n outs loc rem ws)
       = quiet_job m 0 False ts n (outs @ [(t, OutSkipped)]) loc rem (ws(w := Ready None))"
  "ws w = Ready None \<Longrightarrow>
     job_step (Take w False ans) (quiet_job m pol False (t # ts) n outs loc rem ws)
       = quiet_job m pol False ts n outs loc rem (ws(w := Holding t None))"
  "ws w = Ready (Some (t, h)) \<Longrightarrow>
     job_step (Take w ex ans) (quiet_job m pol c ts n outs loc rem ws)
       = quiet_job m pol c ts n outs loc rem (ws(w := Holding t (Some h)))"
  "ws w = Ready None \<Longrightarrow>
     job_step (Take w ex ans) (quiet_job m pol c [] n outs loc rem ws)
       = quiet_job m pol c [] n outs loc rem (ws(w := Ended))"
  "ws w = Holding t None \<Longrightarrow>
     job_step (OpenTarget w False mk True closes) (quiet_job m pol False ts n outs loc rem ws)
       = quiet_job m pol False ts n outs loc rem (ws(w := Running t (Some (tt_src t)) None))"
  "ws w = Holding t (Some h) \<Longrightarrow>
     job_step (OpenTarget w False mk opens closes) (quiet_job m pol False ts n outs loc rem ws)
       = quiet_job m pol False ts n outs loc rem (ws(w := Running t h None))"
  "ws w = Holding t fh \<Longrightarrow>
     job_step (OpenTarget w closed mk opens closes) (quiet_job m pol True ts n outs loc rem ws)
       = quiet_job m pol True ts n outs loc rem (ws(w := Ended))"
  "ws w = Running t h None \<Longrightarrow>
     job_step (Prefetch w ex ans mk opens) (quiet_job m pol False [] n outs loc rem ws)
       = quiet_job m pol False [] n outs loc rem (ws(w := Running t h (Some None)))"
  "ws w = Running t h None \<Longrightarrow>
     job_step (Prefetch w True ans mk opens) (quiet_job m 2 False (u # ts) n outs loc rem ws)
       = quiet_job m 2 False ts n (outs @ [(u, OutSkipped)]) loc rem
           (ws(w := Running t h (Some (Some (u, None)))))"
  "job_step UserCancel (quiet_job m pol c ts n outs loc rem ws) = quiet_job m pol True ts n outs loc rem ws"
  by (simp_all add: quiet_job_def set_worker_def worker_take_def recv_next_target_def report_def
      worker_open_def open_target_handle_def prefetch_def Let_def)

lemma quiet_finish:
  assumes "ws w = Running t h (Some pf)" "tt_size t = 0"
  shows "job_step (Finish w quiet_env False True) (quiet_job m pol c ts n outs loc rem ws)
     = quiet_job m pol c ts (n + 1) (outs @ [(t, OutCopied)]) (loc(part_path (tt_dst t) := None, tt_dst t \<mapsto> []))
         (if m then rem(tt_src t := None) else rem) (ws(w := Ready pf))"
proof -
  have "start_offset True 0 loc (tt_dst t) = 0" "part_content True 0 loc (tt_dst t) = []"
    by (simp_all add: start_offset_def part_content_def split: option.split)
  with assms show ?thesis
    by (simp add: quiet_job_def set_worker_def run_file_transfer_def run_download_def Let_def
        download_from_handle_def quiet_env_def worker_finish_def delete_source_def report_def)
qed

lemma small_job_end:
  "small_job move = quiet_job move 0 False [] 1 [(small_targets ! 1, OutSkipped), (small_targets ! 0, OutCopied)]
     (Map.empty(part_path ''/l/a'' := None, ''/l/a'' \<mapsto> []))
     (if move then [''/r/a'' \<mapsto> [], ''/r/b'' \<mapsto> [1, 2, 3, 4, 5, 6, 7]](''/r/a'' := None) else [''/r/a'' \<mapsto> [], ''/r/b'' \<mapsto> [1, 2, 3, 4, 5, 6, 7]])
     ((\<lambda>_. Ready None)(0 := Ended))"
proof -
  have ts: "rev small_targets = [small_targets ! 1, small_targets ! 0]"
    "tt_size (small_targets ! 0) = 0" "tt_src (small_targets ! 0) = ''/r/a''"
    "tt_dst (small_targets ! 0) = ''/l/a''"
    by (simp_all add: small_targets_def)
  show ?thesis
    unfolding small_job_def small_events_def quiet_start small_targets_files ts(1) job_run_Cons job_run_Nil
    by (simp only: quiet_steps quiet_finish ts fun_upd_same fun_upd_upd append_Nil append_Cons) simp
qed

lemma small_job_run:
  "pl_queue (jb_pool (small_job move)) = []"
  "pl_outcomes (jb_pool (small_job move)) = [(small_targets ! 1, OutSkipped), (small_targets ! 0, OutCopied)]"
  "\<not> pl_cancel (jb_pool (small_job move))" "\<not> pl_dead (jb_pool (small_job move))"
  "pl_error (jb_pool (small_job move)) = None" "pl_copied (jb_pool (small_job move)) = 1"
  "pl_remote (jb_pool (small_job True)) ''/r/a'' = None"
  "pl_direction (jb_pool (small_job move)) = RemoteToLocal"
  "jb_workers (small_job move) 0 = Ended"
  by (simp_all add: small_job_end quiet_job_def)

lemma small_answered: "list_all answered small_events"
  by (simp add: small_events_def)

text \<open>An event changes the state of its own worker only.\<close>

fun event_worker :: "job_event \<Rightarrow> nat option" where
  "event_worker (Take w ex ans) = Some w"
| "event_worker (OpenTarget w closed mk opens closes) = Some w"
| "event_worker (Prefetch w ex ans mk opens) = Some w"
| "event_worker (Finish w env closed removes) = Some w"
| "event_worker ev = None"

lemma job_step_other: "event_worker ev \<noteq> Some w \<Longrightarrow> jb_workers (job_step ev j) w = jb_workers j w"
  by (cases ev) (auto simp: set_worker_def split: worker.split option.split prod.split)

lemma job_run_other:
  "\<forall>ev \<in> set evs. event_worker ev \<noteq> Some w \<Longrightarrow> jb_workers (job_run evs j) w = jb_workers j w"
  by (induction evs arbitrary: j) (simp_all add: job_step_other)

lemma hand_small: "hand (jb_workers (small_job move) w) = {}"
proof (cases "w = 0")
  case False
  then have "jb_workers (small_job move) w = Ready None"
    unfolding small_job_def by (subst job_run_other) (auto simp: small_events_def job_start_def)
  then show ?thesis by simp
qed (simp add: small_job_run)

section \<open>What a move deletes\<close>

text \<open>The side the files are copied from.\<close>

definition sources :: "pool \<Rightarrow> files" where
  "sources p = (case pl_direction p of RemoteToLocal \<Rightarrow> pl_remote p | LocalToRemote \<Rightarrow> pl_local p)"

definition copied_from :: "pool \<Rightarrow> string \<Rightarrow> bool" where
  "copied_from p path \<longleftrightarrow> pl_is_move p \<and> (\<exists>t. (t, OutCopied) \<in> set (pl_outcomes p) \<and> tt_src t = path)"

definition sources_kept :: "files \<Rightarrow> pool \<Rightarrow> bool" where
  "sources_kept src p \<longleftrightarrow> (\<forall>path. sources p path = src path \<or> sources p path = None \<and> copied_from p path)"

lemma sources_kept_same:
  assumes "sources_kept src p" "sources p' = sources p" "pl_is_move p' = pl_is_move p"
    "set (pl_outcomes p) \<subseteq> set (pl_outcomes p')"
  shows "sources_kept src p'"
  using assms by (auto simp: sources_kept_def copied_from_def)

lemma recv_sel:
  assumes "recv_next_target ex ans p = (res, p')"
  shows "sources p' = sources p" "pl_is_move p' = pl_is_move p" "pl_direction p' = pl_direction p"
    "set (pl_outcomes p) \<subseteq> set (pl_outcomes p')"
proof -
  have "sources p' = sources p \<and> pl_is_move p' = pl_is_move p \<and> pl_direction p' = pl_direction p
    \<and> set (pl_outcomes p) \<subseteq> set (pl_outcomes p')"
    using assms
  proof (cases rule: recv_next_target_cases)
    case (stop t ts)
    then obtain c where "p' = p\<lparr>pl_queue := ts, pl_cancel := c\<rparr>" by blast
    then show ?thesis by (simp add: sources_def split: direction.split)
  qed (auto simp: sources_def split: direction.split)
  then show "sources p' = sources p" "pl_is_move p' = pl_is_move p" "pl_direction p' = pl_direction p"
    "set (pl_outcomes p) \<subseteq> set (pl_outcomes p')" by auto
qed

lemma open_sources:
  assumes "open_target_handle mk opens t p = (h, p')"
  shows "sources p' = sources p"
  using open_target_handle_sel [OF assms] by (simp add: sources_def split: direction.split)

lemma run_sources:
  assumes "run_file_transfer env t h p = Some (ok, p')"
  shows "sources p' = sources p"
  using run_file_transfer_sel [OF assms] by (simp add: sources_def split: direction.split)

lemma delete_source_kept:
  assumes "sources_kept src p" "(t, OutCopied) \<in> set (pl_outcomes p)"
  shows "sources_kept src (delete_source removes t p)"
  using assms
  by (auto simp: sources_kept_def copied_from_def delete_source_def sources_def split: direction.splits)

lemma worker_take_sources:
  "sources_kept src p \<Longrightarrow> sources_kept src (snd (worker_take ex ans pf p))"
proof (cases pf)
  case None
  assume k: "sources_kept src p"
  obtain res p' where r: "recv_next_target ex ans p = (res, p')" by (metis prod.exhaust)
  note s = recv_sel [OF r]
  have "sources_kept src p'" by (rule sources_kept_same [OF k s(1,2,4)])
  with None r show ?thesis by (auto simp: worker_take_def split: option.splits bool.splits)
qed (auto simp: worker_take_def)

lemma worker_open_sources:
  assumes "sources_kept src p"
  shows "sources_kept src (snd (worker_open closed mk opens closes t fh p))"
proof -
  have c: "sources_kept src (session_closed q)" if "sources_kept src q" for q
    by (rule sources_kept_same [OF that]) (simp_all add: sources_def split: direction.split)
  show ?thesis
  proof (cases fh)
    case None
    obtain r p' where o: "open_target_handle mk opens t p = (r, p')" by (metis prod.exhaust)
    have k: "sources_kept src p'"
      by (rule sources_kept_same [OF assms]) (simp_all add: open_sources [OF o] open_target_handle_sel [OF o])
    have "sources_kept src (report t OutFailed (p'\<lparr>pl_error := Some (tt_name t @ '': open failed'')\<rparr>))"
      by (rule sources_kept_same [OF k]) (auto simp: sources_def split: direction.split)
    with None o k c assms show ?thesis by (cases r) (simp_all add: worker_open_def)
  qed (use assms c in \<open>simp add: worker_open_def\<close>)
qed

lemma prefetch_sources:
  assumes "sources_kept src p"
  shows "sources_kept src (snd (prefetch ex ans mk opens p))"
proof -
  obtain res p1 where r: "recv_next_target ex ans p = (res, p1)" by (metis prod.exhaust)
  note s = recv_sel [OF r]
  have k: "sources_kept src p1" by (rule sources_kept_same [OF assms s(1,2,4)])
  show ?thesis
  proof (cases "\<exists>u. res = Some (u, True)")
    case True
    then obtain u where u: "res = Some (u, True)" by blast
    obtain hh p2 where o: "open_target_handle mk opens u p1 = (hh, p2)" by (metis prod.exhaust)
    have "sources_kept src p2"
      by (rule sources_kept_same [OF k]) (simp_all add: open_sources [OF o] open_target_handle_sel [OF o])
    with k r u o show ?thesis by (auto simp: prefetch_def split: option.splits)
  next
    case False
    with r k show ?thesis by (auto simp: prefetch_def split: option.splits bool.splits)
  qed
qed

lemma worker_finish_sources:
  assumes "sources_kept src p"
  shows "sources_kept src (snd (worker_finish closed removes t ok pf p))"
proof -
  let ?p1 = "report t OutCopied (p\<lparr>pl_copied := pl_copied p + 1\<rparr>)"
  have "sources_kept src ?p1" by (rule sources_kept_same [OF assms]) (auto simp: sources_def split: direction.split)
  then have "sources_kept src (delete_source removes t ?p1)" by (rule delete_source_kept) simp
  moreover have "sources_kept src (report t OutSkipped (p\<lparr>pl_skip := False\<rparr>))"
    by (rule sources_kept_same [OF assms]) (auto simp: sources_def split: direction.split)
  moreover have "sources_kept src (session_closed p)"
    by (rule sources_kept_same [OF assms]) (auto simp: sources_def split: direction.split)
  moreover have "sources_kept src (report t OutFailed (p\<lparr>pl_error := Some (tt_name t @ '': transfer failed'')\<rparr>))"
    by (rule sources_kept_same [OF assms]) (auto simp: sources_def split: direction.split)
  ultimately show ?thesis using assms by (simp add: worker_finish_def)
qed

lemma job_step_sources:
  assumes "sources_kept src (jb_pool j)"
  shows "sources_kept src (jb_pool (job_step ev j))"
proof (cases rule: job_step_pool [where ev = ev and j = j])
  case (5 w env closed removes t h pf ok p)
  have "sources_kept src p"
    by (rule sources_kept_same [OF assms])
       (simp_all add: run_sources [OF 5(3)] run_file_transfer_sel [OF 5(3)])
  with 5(4) worker_finish_sources show ?thesis by simp
next
  case (6 f)
  have "sources_kept src (f (jb_pool j))"
    by (rule sources_kept_same [OF assms]) (use 6(1) in \<open>auto simp: sources_def split: direction.split\<close>)
  with 6(2) show ?thesis by simp
qed (use assms worker_take_sources worker_open_sources prefetch_sources in simp_all)

lemma job_run_sources:
  "sources_kept src (jb_pool j) \<Longrightarrow> sources_kept src (jb_pool (job_run evs j))"
  by (induction evs arbitrary: j) (auto intro: job_step_sources)

lemma prefetch_pool:
  assumes "recv_next_target ex ans p = (res, p1)"
  shows "snd (prefetch ex ans mk opens p) = p1
    \<or> (\<exists>u h. open_target_handle mk opens u p1 = (h, snd (prefetch ex ans mk opens p)))"
proof (cases "\<exists>u. res = Some (u, True)")
  case True
  then obtain u where u: "res = Some (u, True)" by blast
  obtain hh p2 where o: "open_target_handle mk opens u p1 = (hh, p2)" by (metis prod.exhaust)
  with assms u show ?thesis by (cases hh) (auto simp: prefetch_def)
next
  case False
  with assms show ?thesis by (auto simp: prefetch_def split: option.splits bool.splits)
qed

lemma steps_is_move:
  "pl_is_move (snd (worker_take ex ans pf p)) = pl_is_move p"
  "pl_is_move (snd (worker_open closed mk opens closes t fh p)) = pl_is_move p"
  "pl_is_move (snd (prefetch ex ans mk opens p)) = pl_is_move p"
  "pl_is_move (snd (worker_finish closed removes t ok pf p)) = pl_is_move p"
proof -
  obtain res p1 where r: "recv_next_target ex ans p = (res, p1)" by (metis prod.exhaust)
  note m = recv_sel(2) [OF r]
  show "pl_is_move (snd (worker_take ex ans pf p)) = pl_is_move p"
    using r m by (auto simp: worker_take_def split: option.splits bool.splits)
  show "pl_is_move (snd (worker_open closed mk opens closes t fh p)) = pl_is_move p"
  proof (cases fh)
    case None
    obtain h' p' where o: "open_target_handle mk opens t p = (h', p')" by (metis prod.exhaust)
    with None open_target_handle_sel(8) [OF o] show ?thesis
      by (cases h') (simp_all add: worker_open_def)
  qed (simp add: worker_open_def)
  show "pl_is_move (snd (prefetch ex ans mk opens p)) = pl_is_move p"
  proof (cases "snd (prefetch ex ans mk opens p) = p1")
    case False
    with prefetch_pool [OF r, of mk opens] obtain u h
      where "open_target_handle mk opens u p1 = (h, snd (prefetch ex ans mk opens p))" by blast
    from open_target_handle_sel(8) [OF this] m show ?thesis by simp
  qed (simp add: m)
  show "pl_is_move (snd (worker_finish closed removes t ok pf p)) = pl_is_move p"
    by (simp add: worker_finish_def)
qed

lemma job_step_is_move: "pl_is_move (jb_pool (job_step ev j)) = pl_is_move (jb_pool j)"
proof (cases rule: job_step_pool [where ev = ev and j = j])
  case (5 w env closed removes t h pf ok p)
  with run_file_transfer_sel(8) [OF 5(3)] show ?thesis by (simp add: steps_is_move)
qed (auto simp: steps_is_move)

lemma run_is_move: "pl_is_move (jb_pool (job_run evs j)) = pl_is_move (jb_pool j)"
proof (induction evs arbitrary: j)
  case (Cons ev evs)
  have "pl_is_move (jb_pool (job_step ev j)) = pl_is_move (jb_pool j)" by (rule job_step_is_move)
  with Cons show ?case by simp
qed simp

section \<open>The transfer of one file\<close>

lemma from_handle: "download_from_handle tot start chunk evs s = fst (download (Inr h) tot start chunk evs s)"
  by (auto simp: download_from_handle_def download_def split: transfer_outcome.split)

lemma download_result:
  assumes "(if a then Some x else if b then Some (if c then y else z)
      else case r of DlRan (Waiting st) \<Rightarrow> None | _ \<Rightarrow> Some z) = Some q"
  obtains "a" "q = x" | "b" "c" "q = y" | "q = z"
  using assms by (cases r) (auto split: if_splits transfer_outcome.splits)

lemma run_download_safe:
  assumes "0 < xe_chunk env" "list_all (honest_event remote) (xe_replies env)"
    and "not_cancelled (xe_replies env) \<or> list_all (\<lambda>f. f = None) (xe_faults env)"
    and "tt_size t = length remote" "part_ok remote (tt_dst t) (pl_local p)"
    and "run_download env t p = Some (ok, p')"
  shows "part_ok remote (tt_dst t) (pl_local p')
    \<and> (ok \<longrightarrow> pl_local p' (tt_dst t) = Some remote) \<and> (\<not> ok \<longrightarrow> pl_local p' (tt_dst t) = pl_local p (tt_dst t))
    \<and> (\<forall>q. q \<noteq> tt_dst t \<longrightarrow> q \<noteq> part_path (tt_dst t) \<longrightarrow> pl_local p' q = pl_local p q)"
proof -
  let ?tot = "length remote" and ?dst = "tt_dst t" and ?fs = "pl_local p"
  let ?off = "start_offset True ?tot ?fs ?dst"
  let ?s = "\<lparr>sink_data = part_content True ?tot ?fs ?dst, sink_faults = xe_faults env\<rparr>"
  let ?run = "download_from_handle ?tot ?off (xe_chunk env) (xe_replies env) ?s"
  let ?data = "sink_data (run_sink ?run)"
  note base = part_content_prefix [OF assms(5), of True ?tot]
  have off: "?off \<le> ?tot" by (auto simp: start_offset_def split: option.split)
  have "faultless ?s \<or> \<not> was_cancelled (download_inner ?tot ?off (xe_chunk env) (xe_replies env) ?s) TransferCancelled"
    using assms(3) download_not_cancelled by (auto simp: faultless_def)
  note l = download_leaves_prefix_gen [OF assms(1) off assms(2) this, of "Inr undefined",
      folded from_handle [where h = undefined]]
  from l obtain c where c: "?off \<le> c" "c \<le> ?tot" "?data = take c remote"
    using take_then_slice [of ?off _ remote] by (auto simp: left_prefix_def base)
  have ok: "?data = remote" if "run_ok ?run"
    using l that take_then_slice [OF off, of remote] by (simp add: base)
  have part: "part_ok remote ?dst (?fs(part_path ?dst \<mapsto> ?data))" using c by (auto simp: part_ok_def)
  consider "\<not> xe_parent_ok env \<or> \<not> xe_create_ok env" "ok = False" "p' = p"
    | "run_ok ?run" "ok" "p' = p\<lparr>pl_local := ?fs(part_path ?dst := None, ?dst \<mapsto> ?data)\<rparr>"
    | "ok = False" "p' = p\<lparr>pl_local := ?fs(part_path ?dst \<mapsto> ?data)\<rparr>"
  proof -
    have "(if \<not> xe_parent_ok env \<or> \<not> xe_create_ok env then Some (False, p)
         else if run_ok ?run then
           Some (if xe_rename_ok env then (True, p\<lparr>pl_local := ?fs(part_path ?dst := None, ?dst \<mapsto> ?data)\<rparr>)
                 else (False, p\<lparr>pl_local := ?fs(part_path ?dst \<mapsto> ?data)\<rparr>))
         else case ?run of DlRan (Waiting st) \<Rightarrow> None | _ \<Rightarrow> Some (False, p\<lparr>pl_local := ?fs(part_path ?dst \<mapsto> ?data)\<rparr>))
      = Some (ok, p')"
      using assms(6) unfolding run_download_def Let_def assms(4) .
    then show thesis
    proof (rule download_result)
      assume "\<not> xe_parent_ok env \<or> \<not> xe_create_ok env" "(ok, p') = (False, p)"
      then show thesis by (intro that(1)) simp_all
    next
      assume "run_ok ?run" "xe_rename_ok env"
        "(ok, p') = (True, p\<lparr>pl_local := ?fs(part_path ?dst := None, ?dst \<mapsto> ?data)\<rparr>)"
      then show thesis by (intro that(2)) simp_all
    next
      assume "(ok, p') = (False, p\<lparr>pl_local := ?fs(part_path ?dst \<mapsto> ?data)\<rparr>)"
      then show thesis by (intro that(3)) simp_all
    qed
  qed
  then show ?thesis
  proof cases
    case 1
    with assms(5) show ?thesis by simp
  next
    case 2
    with ok show ?thesis by (simp add: part_ok_def)
  next
    case 3
    with part show ?thesis by simp
  qed
qed

lemma run_upload_safe:
  assumes "0 < xe_chunk env" "pl_local p (tt_src t) = Some data" "pl_remote p dst = Some []"
    and "run_upload env t (Some dst) p = Some (ok, p')"
  shows "(ok \<longrightarrow> pl_remote p' dst = Some data) \<and> (\<forall>q. q \<noteq> dst \<longrightarrow> pl_remote p' q = pl_remote p q)"
proof -
  let ?up = "upload_inner (length data) (xe_chunk env) (xe_acks env) \<lparr>rd_left = data, rd_plan = xe_reads env\<rparr> []"
  note r = upload_inner_result [OF assms(1), of "length data" "xe_acks env"
      "\<lparr>rd_left = data, rd_plan = xe_reads env\<rparr>"]
  show ?thesis
  proof (cases ?up)
    case (Finished st)
    with r have "ul_remote st = data" by simp
    with Finished assms(2-4) show ?thesis by (auto simp: run_upload_def unwrap_or_def)
  qed (use assms(2-4) in \<open>auto simp: run_upload_def unwrap_or_def\<close>)
qed

text \<open>The side the files are copied to.\<close>

definition targets_side :: "pool \<Rightarrow> files" where
  "targets_side p = (case pl_direction p of RemoteToLocal \<Rightarrow> pl_local p | LocalToRemote \<Rightarrow> pl_remote p)"

lemma delete_source_sides:
  "targets_side (delete_source removes t p) = targets_side p"
  "sources (delete_source removes t p) path =
     (if pl_is_move p \<and> removes \<and> path = tt_src t then None else sources p path)"
proof -
  show "targets_side (delete_source removes t p) = targets_side p"
    by (cases "pl_direction p") (simp_all add: targets_side_def delete_source_def)
  show "sources (delete_source removes t p) path =
     (if pl_is_move p \<and> removes \<and> path = tt_src t then None else sources p path)"
    by (cases "pl_direction p") (simp_all add: sources_def delete_source_def)
qed

lemma same_sides:
  assumes "pl_direction q = pl_direction p" "pl_local q = pl_local p" "pl_remote q = pl_remote p"
  shows "targets_side q = targets_side p" "sources q = sources p"
  using assms by (simp_all add: targets_side_def sources_def split: direction.split)

lemma worker_finish_ok:
  "targets_side (snd (worker_finish closed removes t True pf p)) = targets_side p"
  "sources (snd (worker_finish closed removes t True pf p)) path
     = (if pl_is_move p \<and> removes \<and> path = tt_src t then None else sources p path)"
  by (simp_all add: worker_finish_def delete_source_sides same_sides [of "report t OutCopied _" p])

lemma worker_finish_failed:
  "targets_side (snd (worker_finish closed removes t False pf p)) = targets_side p"
  "sources (snd (worker_finish closed removes t False pf p)) = sources p"
  by (rule same_sides; simp add: worker_finish_def)+

section \<open>Where a job does not do what it reports\<close>

text \<open>
  A file that is skipped while it is prefetched is transferred all the same, with an empty
  handle: when it is empty, its destination is overwritten, it is reported as copied besides
  skipped, and a move deletes it.\<close>

lemma skipped_while_prefetching:
  assumes "tt_size t = 0" "tt_size u = 0" "\<not> tt_is_dir t" "\<not> tt_is_dir u"
    and "loc (tt_dst u) = Some old" "tt_dst u \<noteq> part_path (tt_dst u)"
  shows "\<exists>evs. (let j = job_run evs (job_start RemoteToLocal move 2 [t, u] loc rem) in
      list_all (\<lambda>ev. case ev of Take w ex ans \<Rightarrow> True | OpenTarget w cl mk op cs \<Rightarrow> True
        | Prefetch w ex ans mk op \<Rightarrow> True | Finish w env cl rm \<Rightarrow> True | _ \<Rightarrow> False) evs
      \<and> (u, OutSkipped) \<in> set (pl_outcomes (jb_pool j)) \<and> (u, OutCopied) \<in> set (pl_outcomes (jb_pool j))
      \<and> pl_local (jb_pool j) (tt_dst u) = Some [] \<and> (move \<longrightarrow> pl_remote (jb_pool j) (tt_src u) = None)
      \<and> tr_copied (job_result 2 j) = 2 \<and> tr_error (job_result 2 j) = None)"
proof -
  have files: "file_targets [t, u] = [t, u]" using assms(1-4) by (simp add: file_targets_def)
  let ?open = "OpenTarget 0 False (\<lambda>_. True) True False"
  let ?fetch = "Prefetch 0 True None (\<lambda>_. True) True"
  let ?evs = "[Take 0 False None, ?open, ?fetch, Finish 0 quiet_env False True,
     Take 0 False None, ?open, ?fetch, Finish 0 quiet_env False True]"
  let ?loc = "loc(part_path (tt_dst t) := None, tt_dst t \<mapsto> [], part_path (tt_dst u) := None, tt_dst u \<mapsto> [])"
  let ?rem = "if move then (if move then rem(tt_src t := None) else rem)(tt_src u := None)
    else (if move then rem(tt_src t := None) else rem)"
  have j: "job_run ?evs (job_start RemoteToLocal move 2 [t, u] loc rem)
    = quiet_job move 2 False [] 2 [(u, OutSkipped), (t, OutCopied), (u, OutCopied)] ?loc ?rem
        ((\<lambda>_. Ready None)(0 := Ready None))"
    unfolding quiet_start files job_run_Cons job_run_Nil
    by (simp only: quiet_steps quiet_finish assms(1,2) fun_upd_same fun_upd_upd append_Nil append_Cons)
       (simp add: numeral_2_eq_2)
  show ?thesis
    by (intro exI [of _ ?evs], unfold Let_def j) (simp add: quiet_job_def job_result_def)
qed

lemma skipped_while_prefetching_witness:
  "\<exists>evs. pl_local (jb_pool (job_run evs (job_start RemoteToLocal True 2
      [\<lparr>tt_src = ''/r/a'', tt_dst = ''/l/a'', tt_name = ''a'', tt_size = 0, tt_is_dir = False\<rparr>,
       \<lparr>tt_src = ''/r/b'', tt_dst = ''/l/b'', tt_name = ''b'', tt_size = 0, tt_is_dir = False\<rparr>]
      [''/l/b'' \<mapsto> [1, 2, 3]] [''/r/a'' \<mapsto> [], ''/r/b'' \<mapsto> []]))) ''/l/b'' = Some []"
  using skipped_while_prefetching
    [of "\<lparr>tt_src = ''/r/a'', tt_dst = ''/l/a'', tt_name = ''a'', tt_size = 0, tt_is_dir = False\<rparr>"
        "\<lparr>tt_src = ''/r/b'', tt_dst = ''/l/b'', tt_name = ''b'', tt_size = 0, tt_is_dir = False\<rparr>"
        "[''/l/b'' \<mapsto> [1, 2, 3]]" "[1, 2, 3]" True "[''/r/a'' \<mapsto> [], ''/r/b'' \<mapsto> []]"]
  unfolding Let_def transfer_target.simps by fastforce

lemma show_two: "show_nat 2 = ''2''"
  by code_simp

text \<open>
  Cancelling a move of directories after a first file has been copied removes the source
  directories with every file that was not copied, and reports success.\<close>

lemma cancelled_move_deletes_the_rest:
  assumes "tt_size u = 0" "\<not> tt_is_dir t" "\<not> tt_is_dir u" "below dir (tt_src t)"
    and "tt_dst t \<noteq> tt_dst u" "tt_dst t \<noteq> part_path (tt_dst u)"
  shows "\<exists>evs. (let j = job_run evs (job_start RemoteToLocal True 0 [t, u] loc rem);
        p = finish_move (Some [(dir, True)]) (job_result 2 j) (jb_pool j)
     in (\<forall>w. hand (jb_workers j w) = {}) \<and> UserCancel \<in> set evs
      \<and> pl_remote p (tt_src t) = None \<and> pl_local p (tt_dst t) = loc (tt_dst t)
      \<and> (\<forall>r. (t, r) \<notin> set (pl_outcomes p) \<or> t = u)
      \<and> format_transfer_result (job_result 2 j) what True = ''Moved 2 items'')"
proof -
  have files: "file_targets [t, u] = [t, u]" using assms(1-3) by (simp add: file_targets_def)
  let ?evs = "[Take 1 False None, Take 0 False None, OpenTarget 0 False (\<lambda>_. True) True False,
     Prefetch 0 True None (\<lambda>_. True) True, Finish 0 quiet_env False True, UserCancel,
     OpenTarget 1 False (\<lambda>_. True) True False, Take 0 False None]"
  let ?j = "job_run ?evs (job_start RemoteToLocal True 0 [t, u] loc rem)"
  have j: "?j = quiet_job True 0 True [] 1 [(u, OutCopied)] (loc(part_path (tt_dst u) := None, tt_dst u \<mapsto> []))
      (rem(tt_src u := None)) ((\<lambda>_. Ready None)(1 := Ended, 0 := Ended))"
    unfolding quiet_start files job_run_Cons job_run_Nil
    by (simp add: quiet_steps quiet_finish assms(1) fun_upd_twist del: job_step.simps)
  have "below dir (tt_src t) \<Longrightarrow> remove_tree dir fs (tt_src t) = None" for fs
    by (simp add: remove_tree_def)
  with assms(4-6) show ?thesis
    by (intro exI [of _ ?evs], unfold Let_def j)
       (simp add: quiet_job_def job_result_def finish_move_def format_transfer_result_def show_two)
qed

lemma cancelled_move_deletes_the_rest_witness:
  "\<exists>evs. pl_remote (finish_move (Some [(''/r'', True)])
      (job_result 2 (job_run evs (job_start RemoteToLocal True 0
        [\<lparr>tt_src = ''/r/a'', tt_dst = ''/l/a'', tt_name = ''a'', tt_size = 4, tt_is_dir = False\<rparr>,
         \<lparr>tt_src = ''/r/b'', tt_dst = ''/l/b'', tt_name = ''b'', tt_size = 0, tt_is_dir = False\<rparr>]
        Map.empty [''/r/a'' \<mapsto> [1, 2, 3, 4], ''/r/b'' \<mapsto> []])))
      (jb_pool (job_run evs (job_start RemoteToLocal True 0
        [\<lparr>tt_src = ''/r/a'', tt_dst = ''/l/a'', tt_name = ''a'', tt_size = 4, tt_is_dir = False\<rparr>,
         \<lparr>tt_src = ''/r/b'', tt_dst = ''/l/b'', tt_name = ''b'', tt_size = 0, tt_is_dir = False\<rparr>]
        Map.empty [''/r/a'' \<mapsto> [1, 2, 3, 4], ''/r/b'' \<mapsto> []])))) ''/r/a'' = None"
  using cancelled_move_deletes_the_rest
    [of "\<lparr>tt_src = ''/r/b'', tt_dst = ''/l/b'', tt_name = ''b'', tt_size = 0, tt_is_dir = False\<rparr>"
        "\<lparr>tt_src = ''/r/a'', tt_dst = ''/l/a'', tt_name = ''a'', tt_size = 4, tt_is_dir = False\<rparr>"
        "''/r''" Map.empty "[''/r/a'' \<mapsto> [1, 2, 3, 4], ''/r/b'' \<mapsto> []]"]
  unfolding Let_def transfer_target.simps by (fastforce simp: below_def trim_end_slashes_def
      trim_start_slashes_def starts_with_def part_path_def)

end
