(* ===== verification/Transfer_Run.thy ===== *)
theory Transfer_Run
  imports Transfer_Correct
begin

text \<open>
  Whole runs of a background transfer: any number of workers, any interleaving of their steps with
  the user and the heartbeat.  An invariant ties every file of the job to the queue, to the hand of
  one worker or to what was reported of it, and gives that what is reported as copied is stored,
  that nothing else is touched, and that a move deletes only what it has copied.\<close>

section \<open>A whole run\<close>

text \<open>
  A sound job: no two files share a source or a destination, every source is there, and for a
  download the size taken for a file is its size, no destination is the part file of another, and
  a part file that is there already is the beginning of its remote file.\<close>

definition sound_job :: "direction \<Rightarrow> transfer_target list \<Rightarrow> files \<Rightarrow> files \<Rightarrow> bool" where
  "sound_job dir ts src dst \<longleftrightarrow>
     distinct (map tt_src ts) \<and> distinct (map tt_dst ts)
   \<and> (\<forall>t\<in>set ts. src (tt_src t) \<noteq> None)
   \<and> (dir = RemoteToLocal \<longrightarrow>
        (\<forall>t\<in>set ts. tt_size t = length (the (src (tt_src t)))
           \<and> part_ok (the (src (tt_src t))) (tt_dst t) dst
           \<and> (\<forall>u\<in>set ts. tt_dst u \<noteq> part_path (tt_dst t))))"

text \<open>
  An honest server: it answers a read with the bytes of the file or an error, never more; a write
  it acknowledges is made; and it refuses every request under the empty handle.  A download is not
  cancelled while writes to the local disk fail (\<open>cancel_on_full_disk_leaves_gap\<close>).\<close>

fun refused :: "upload_event \<Rightarrow> bool" where
  "refused (Ack i srv) \<longleftrightarrow> (\<forall>q. srv q \<noteq> None)"
| "refused (AckCancelled i) \<longleftrightarrow> True"

definition honest_transfer :: "direction \<Rightarrow> bytes \<Rightarrow> handle \<Rightarrow> transfer_env \<Rightarrow> bool" where
  "honest_transfer dir data h env \<longleftrightarrow> 0 < xe_chunk env
     \<and> (case dir of
          RemoteToLocal \<Rightarrow> list_all (honest_event data) (xe_replies env)
            \<and> (not_cancelled (xe_replies env) \<or> list_all (\<lambda>f. f = None) (xe_faults env))
        | LocalToRemote \<Rightarrow> h = None \<longrightarrow> list_all refused (xe_acks env))"

fun honest_at :: "files \<Rightarrow> job_event \<Rightarrow> job \<Rightarrow> bool" where
  "honest_at src (Finish w env closed removes) j \<longleftrightarrow>
     (case jb_workers j w of
        Running t h (Some pf) \<Rightarrow>
          honest_transfer (pl_direction (jb_pool j)) (the (src (tt_src t))) h env
      | _ \<Rightarrow> True)"
| "honest_at src ev j \<longleftrightarrow> True"

fun honest_run :: "files \<Rightarrow> job_event list \<Rightarrow> job \<Rightarrow> bool" where
  "honest_run src [] j \<longleftrightarrow> True"
| "honest_run src (ev # evs) j \<longleftrightarrow> honest_at src ev j \<and> honest_run src evs (job_step ev j)"

text \<open>What is true of a file at every moment, given what both sides held at the start.\<close>

definition was_copied :: "pool \<Rightarrow> transfer_target \<Rightarrow> bool" where
  "was_copied p t \<longleftrightarrow> (t, OutCopied) \<in> set (pl_outcomes p)"

text \<open>
  A copied file is whole at its destination.  The exception is an empty file that is uploaded
  under the empty handle, after it was skipped or could not be opened while it was prefetched:
  there is nothing to write, so nothing is refused, and its destination is as it was.\<close>

definition stored :: "files \<Rightarrow> files \<Rightarrow> pool \<Rightarrow> transfer_target \<Rightarrow> bool" where
  "stored S D p t \<longleftrightarrow> targets_side p (tt_dst t) = S (tt_src t)
     \<or> (pl_direction p = LocalToRemote \<and> S (tt_src t) = Some []
          \<and> targets_side p (tt_dst t) = D (tt_dst t))"

definition copy_ok :: "files \<Rightarrow> files \<Rightarrow> pool \<Rightarrow> transfer_target \<Rightarrow> bool" where
  "copy_ok S D p t \<longleftrightarrow>
     (was_copied p t \<longrightarrow> stored S D p t
        \<and> (sources p (tt_src t) = S (tt_src t) \<or> sources p (tt_src t) = None \<and> pl_is_move p))
   \<and> (\<not> was_copied p t \<longrightarrow> sources p (tt_src t) = S (tt_src t)
        \<and> (pl_direction p = RemoteToLocal \<longrightarrow> targets_side p (tt_dst t) = D (tt_dst t)))
   \<and> (pl_direction p = RemoteToLocal \<longrightarrow> part_ok (the (S (tt_src t))) (tt_dst t) (targets_side p))"

text \<open>A file in the queue or in the hand of a worker, with the handle it was opened under.\<close>

definition pending_ok :: "files \<Rightarrow> pool \<Rightarrow> transfer_target \<Rightarrow> handle \<Rightarrow> bool" where
  "pending_ok D p t h \<longleftrightarrow> \<not> was_copied p t
     \<and> (pl_direction p = LocalToRemote \<longrightarrow>
          (case h of None \<Rightarrow> targets_side p (tt_dst t) = D (tt_dst t)
           | Some q \<Rightarrow> q = tt_dst t \<and> targets_side p (tt_dst t) = Some []))"

fun held :: "worker \<Rightarrow> (transfer_target \<times> handle) list" where
  "held (Ready pf) = (case pf of None \<Rightarrow> [] | Some x \<Rightarrow> [x])"
| "held (Holding t fh) = [(t, case fh of None \<Rightarrow> None | Some h \<Rightarrow> h)]"
| "held (Running t h pf) = (t, h) # (case pf of Some (Some x) \<Rightarrow> [x] | _ \<Rightarrow> [])"
| "held Ended = []"

lemma hand_held: "hand w = fst ` set (held w)"
proof (cases w)
  case (Running t h pf)
  then show ?thesis by (cases pf) (auto split: option.split)
qed (auto split: option.split)

text \<open>A pool that does not differ in what concerns a file.\<close>

definition agree :: "pool \<Rightarrow> pool \<Rightarrow> transfer_target \<Rightarrow> bool" where
  "agree p p' t \<longleftrightarrow> (was_copied p' t \<longleftrightarrow> was_copied p t)
     \<and> sources p' (tt_src t) = sources p (tt_src t)
     \<and> targets_side p' (tt_dst t) = targets_side p (tt_dst t)
     \<and> (pl_direction p = RemoteToLocal \<longrightarrow>
          targets_side p' (part_path (tt_dst t)) = targets_side p (part_path (tt_dst t)))"

definition same_kind :: "pool \<Rightarrow> pool \<Rightarrow> bool" where
  "same_kind p p' \<longleftrightarrow> pl_direction p' = pl_direction p \<and> pl_is_move p' = pl_is_move p"

lemma agree_ok:
  assumes "agree p p' t" "same_kind p p'"
  shows "copy_ok S D p t \<Longrightarrow> copy_ok S D p' t" "pending_ok D p t h \<Longrightarrow> pending_ok D p' t h"
  using assms
  by (auto simp: agree_def same_kind_def copy_ok_def pending_ok_def stored_def part_ok_def split: option.splits)

lemma agree_refl [simp]: "agree p p t" "same_kind p p"
  by (simp_all add: agree_def same_kind_def)

lemma agree_trans: "agree p q t \<Longrightarrow> agree q r t \<Longrightarrow> same_kind p q \<Longrightarrow> agree p r t"
  by (auto simp: agree_def same_kind_def)

lemma same_kind_trans: "same_kind p q \<Longrightarrow> same_kind q r \<Longrightarrow> same_kind p r"
  by (simp add: same_kind_def)

lemma agree_same:
  assumes "pl_direction q = pl_direction p" "pl_local q = pl_local p" "pl_remote q = pl_remote p"
    "\<And>t. was_copied q t \<longleftrightarrow> was_copied p t"
  shows "agree p q t"
  using same_sides [OF assms(1-3)] assms(4) by (simp add: agree_def)

text \<open>Everything about a job: its files, its queue and the hands of its workers.\<close>

definition apart :: "(nat \<Rightarrow> worker) \<Rightarrow> transfer_target list \<Rightarrow> bool" where
  "apart ws queue \<longleftrightarrow> distinct queue
     \<and> (\<forall>w. distinct (map fst (held (ws w))) \<and> hand (ws w) \<inter> set queue = {})
     \<and> (\<forall>v w. v \<noteq> w \<longrightarrow> hand (ws v) \<inter> hand (ws w) = {})"

definition job_ok :: "transfer_target set \<Rightarrow> files \<Rightarrow> files \<Rightarrow> job \<Rightarrow> bool" where
  "job_ok T S D j \<longleftrightarrow> apart (jb_workers j) (pl_queue (jb_pool j))
     \<and> set (pl_queue (jb_pool j)) \<subseteq> T \<and> (\<forall>w. hand (jb_workers j w) \<subseteq> T)
     \<and> (\<forall>t\<in>T. copy_ok S D (jb_pool j) t)
     \<and> (\<forall>t\<in>set (pl_queue (jb_pool j)). pending_ok D (jb_pool j) t None)
     \<and> (\<forall>w. \<forall>(t, h)\<in>set (held (jb_workers j w)). pending_ok D (jb_pool j) t h)"

text \<open>
  One step of a worker: it may take the first files of the queue, keeps what it has or drops it,
  and touches only files it holds.\<close>

definition proper_step :: "transfer_target set \<Rightarrow> files \<Rightarrow> files \<Rightarrow> worker \<times> pool \<Rightarrow> worker \<times> pool \<Rightarrow> bool"
where
  "proper_step T S D a b \<longleftrightarrow>
     (\<exists>us. pl_queue (snd a) = us @ pl_queue (snd b)
       \<and> distinct (map fst (held (fst b))) \<and> hand (fst b) \<subseteq> hand (fst a) \<union> set us
       \<and> same_kind (snd a) (snd b)
       \<and> (\<forall>t\<in>T. t \<notin> hand (fst a) \<union> set us \<longrightarrow> agree (snd a) (snd b) t)
       \<and> (\<forall>t\<in>hand (fst a) \<union> set us. copy_ok S D (snd b) t)
       \<and> (\<forall>(t, h)\<in>set (held (fst b)). pending_ok D (snd b) t h))"

lemma job_ok_step:
  assumes "job_ok T S D j" "proper_step T S D (jb_workers j w, jb_pool j) (wk, p)"
  shows "job_ok T S D (set_worker w (wk, p) j)"
proof -
  let ?p = "jb_pool j" and ?ws = "jb_workers j"
  let ?new = "?ws(w := wk)"
  from assms(2) obtain us where us: "pl_queue ?p = us @ pl_queue p"
    "distinct (map fst (held wk))" "hand wk \<subseteq> hand (?ws w) \<union> set us" "same_kind ?p p"
    "\<And>t. t \<in> T \<Longrightarrow> t \<notin> hand (?ws w) \<union> set us \<Longrightarrow> agree ?p p t"
    "\<And>t. t \<in> hand (?ws w) \<union> set us \<Longrightarrow> copy_ok S D p t"
    "\<forall>(t, h)\<in>set (held wk). pending_ok D p t h"
    unfolding proper_step_def by auto
  from assms(1) have ok: "distinct (us @ pl_queue p)" "set (us @ pl_queue p) \<subseteq> T"
    "\<And>v. distinct (map fst (held (?ws v)))" "\<And>v. hand (?ws v) \<inter> set (us @ pl_queue p) = {}"
    "\<And>v u. v \<noteq> u \<Longrightarrow> hand (?ws v) \<inter> hand (?ws u) = {}" "\<And>v. hand (?ws v) \<subseteq> T"
    "\<And>t. t \<in> T \<Longrightarrow> copy_ok S D ?p t"
    "\<And>t. t \<in> set (pl_queue p) \<Longrightarrow> pending_ok D ?p t None"
    "\<And>v. \<forall>(t, h)\<in>set (held (?ws v)). pending_ok D ?p t h"
    unfolding job_ok_def apart_def us(1) by auto
  have hands: "hand wk \<inter> set (pl_queue p) = {}" "\<And>v. v \<noteq> w \<Longrightarrow> hand (?ws v) \<inter> hand wk = {}"
    using us(3) ok(1) ok(4) [of w] ok(4) ok(5) [of _ w] by auto blast+
  have "hand (?new v) \<inter> hand (?new u) = {}" if "v \<noteq> u" for v u
    using that ok(5) [of v u] hands(2) [of v] hands(2) [of u] by (auto simp: Int_commute)
  moreover have "distinct (map fst (held (?new v))) \<and> hand (?new v) \<inter> set (pl_queue p) = {}" for v
    using ok(3) [of v] ok(4) [of v] us(2) hands(1) by auto
  ultimately have "apart ?new (pl_queue p)"
    using ok(1) unfolding apart_def by simp
  moreover have "set (pl_queue p) \<subseteq> T" "\<forall>v. hand (?new v) \<subseteq> T"
    using ok(2,6) us(3) by auto
  moreover have "\<forall>t\<in>T. copy_ok S D p t"
    using us(5,6) agree_ok(1) [OF _ us(4)] ok(7) by blast
  moreover have "\<forall>t\<in>set (pl_queue p). pending_ok D p t None"
  proof
    fix t
    assume t: "t \<in> set (pl_queue p)"
    with ok(1,2) ok(4) [of w] have "t \<in> T" "t \<notin> hand (?ws w) \<union> set us" by auto
    from agree_ok(2) [OF us(5) [OF this] us(4) ok(8) [OF t]] show "pending_ok D p t None" .
  qed
  moreover have "\<forall>(t, h)\<in>set (held (?new v)). pending_ok D p t h" for v
  proof (cases "v = w")
    case False
    have "pending_ok D p t h" if t: "(t, h) \<in> set (held (?ws v))" for t h
    proof -
      from t have "t \<in> hand (?ws v)" by (force simp: hand_held)
      with False ok(4) [of v] ok(5) [of v w] ok(6) [of v] have "t \<in> T" "t \<notin> hand (?ws w) \<union> set us" by auto
      from agree_ok(2) [OF us(5) [OF this] us(4)] ok(9) [of v] t show ?thesis by blast
    qed
    with False show ?thesis by auto
  qed (use us(7) in simp)
  ultimately show ?thesis by (simp add: job_ok_def set_worker_def)
qed


lemma recv_agree:
  assumes "recv_next_target ex ans p = (res, p')"
  obtains us where "pl_queue p = us @ pl_queue p'" "same_kind p p'" "\<And>t. agree p p' t"
    "\<And>t b. res = Some (t, b) \<Longrightarrow> us = [t]"
  using assms
proof (cases rule: recv_next_target_cases)
  case empty
  then show thesis by (intro that [of "[]"]) simp_all
next
  case (transfer t ts pol)
  then show thesis by (intro that [of "[t]"] agree_same) (auto simp: same_kind_def was_copied_def)
next
  case (skip t ts pol)
  then show thesis by (intro that [of "[t]"] agree_same) (auto simp: same_kind_def was_copied_def)
next
  case (stop t ts)
  from stop(4) obtain c where p': "p' = p\<lparr>pl_queue := ts, pl_cancel := c\<rparr>" by blast
  have "same_kind p p'" by (simp add: p' same_kind_def)
  moreover have "agree p p' t'" for t'
    unfolding p' by (rule agree_same) (simp_all add: was_copied_def)
  ultimately show thesis using stop(1,2) p' by (intro that [of "[t]"]) auto
qed

text \<open>Opening a file touches nothing but its own destination.\<close>

lemma open_agree:
  assumes "open_target_handle mk opens t p = (h, p')" "inj_on tt_dst T" "t \<in> T"
    and "copy_ok S D p t" "pending_ok D p t None"
  shows "pl_queue p' = pl_queue p" "same_kind p p'" "\<And>u. u \<in> T \<Longrightarrow> u \<noteq> t \<Longrightarrow> agree p p' u"
    "copy_ok S D p' t" "h = Some g \<Longrightarrow> pending_ok D p' t g" "h = None \<Longrightarrow> pending_ok D p' t None"
proof -
  note sel = open_target_handle_sel [OF assms(1)]
  have c: "was_copied p' u \<longleftrightarrow> was_copied p u" for u by (simp add: was_copied_def sel)
  have s: "sources p' = sources p" by (rule open_sources [OF assms(1)])
  show "pl_queue p' = pl_queue p" "same_kind p p'" using sel by (simp_all add: same_kind_def)
  have d: "targets_side p' q = (if pl_direction p = LocalToRemote \<and> h \<noteq> None \<and> q = tt_dst t then Some []
      else targets_side p q)" for q
    using assms(1) by (auto simp: open_target_handle_def Let_def targets_side_def
        split: direction.splits option.splits if_splits)
  show "agree p p' u" if "u \<in> T" "u \<noteq> t" for u
    using that assms(2,3) c s d by (auto simp: agree_def dest: inj_onD)
  show "copy_ok S D p' t"
    using assms(4,5) c s d by (simp add: copy_ok_def pending_ok_def sel part_ok_def)
  show "h = Some g \<Longrightarrow> pending_ok D p' t g"
    using assms(1,5) c d sel(7) by (auto simp: pending_ok_def open_target_handle_def Let_def split: direction.splits if_splits)
  show "h = None \<Longrightarrow> pending_ok D p' t None"
    using assms(5) c d by (simp add: pending_ok_def sel(7))
qed

text \<open>What a sound job gives about its files.\<close>

lemma job_ok_worker:
  assumes "job_ok T S D j"
  shows "set (pl_queue (jb_pool j)) \<subseteq> T" "hand (jb_workers j w) \<subseteq> T"
    "\<And>t. t \<in> T \<Longrightarrow> copy_ok S D (jb_pool j) t"
    "\<And>t. t \<in> set (pl_queue (jb_pool j)) \<Longrightarrow> pending_ok D (jb_pool j) t None"
    "\<And>t h. (t, h) \<in> set (held (jb_workers j w)) \<Longrightarrow> pending_ok D (jb_pool j) t h"
    "distinct (pl_queue (jb_pool j))" "distinct (map fst (held (jb_workers j w)))"
    "hand (jb_workers j w) \<inter> set (pl_queue (jb_pool j)) = {}"
  using assms unfolding job_ok_def apart_def by auto

text \<open>A step that takes from the queue or drops what it has, and touches no file.\<close>

lemma proper_step_agree:
  assumes "job_ok T S D j" "pl_queue (jb_pool j) = us @ pl_queue p" "same_kind (jb_pool j) p"
    "\<And>t. t \<in> T \<Longrightarrow> agree (jb_pool j) p t" "distinct (map fst (held wk))"
    "\<And>t h. (t, h) \<in> set (held wk) \<Longrightarrow> (t, h) \<in> set (held (jb_workers j w)) \<or> t \<in> set us \<and> h = None"
  shows "proper_step T S D (jb_workers j w, jb_pool j) (wk, p)"
proof -
  note ok = job_ok_worker [OF assms(1)]
  have us: "set us \<subseteq> T" using assms(2) ok(1) by auto
  have old: "pending_ok D (jb_pool j) t h \<and> t \<in> T \<and> t \<in> hand (jb_workers j w) \<union> set us"
    if t: "(t, h) \<in> set (held wk)" for t h
  proof (cases "(t, h) \<in> set (held (jb_workers j w))")
    case True
    then have "t \<in> hand (jb_workers j w)" by (force simp: hand_held)
    with True ok(2,5) show ?thesis by blast
  next
    case False
    with assms(6) [OF t] have "t \<in> set us" "h = None" by auto
    with us ok(4) [of t] assms(2) show ?thesis by auto
  qed
  have "hand wk \<subseteq> hand (jb_workers j w) \<union> set us"
  proof
    fix t
    assume "t \<in> hand wk"
    then obtain h where "(t, h) \<in> set (held wk)" by (auto simp: hand_held)
    from old [OF this] show "t \<in> hand (jb_workers j w) \<union> set us" by blast
  qed
  moreover have "\<forall>t\<in>hand (jb_workers j w) \<union> set us. copy_ok S D p t"
    using ok(2,3) us assms(3,4) agree_ok(1) by blast
  moreover have "\<forall>(t, h)\<in>set (held wk). pending_ok D p t h"
    using old assms(3,4) agree_ok(2) by blast
  ultimately show ?thesis
    using assms(2-5) unfolding proper_step_def fst_conv snd_conv by blast
qed

lemma worker_take_proper:
  assumes "job_ok T S D j" "jb_workers j w = Ready pf"
  shows "proper_step T S D (jb_workers j w, jb_pool j) (worker_take ex ans pf (jb_pool j))"
proof (cases pf)
  case None
  obtain res p' where r: "recv_next_target ex ans (jb_pool j) = (res, p')" by (metis prod.exhaust)
  from recv_agree [OF r] obtain us where us: "pl_queue (jb_pool j) = us @ pl_queue p'"
    "same_kind (jb_pool j) p'" "\<And>t. agree (jb_pool j) p' t" "\<And>t b. res = Some (t, b) \<Longrightarrow> us = [t]"
    by metis
  note step = proper_step_agree [OF assms(1) us(1,2,3), of _ w]
  have e: "worker_take ex ans pf (jb_pool j) = (case res of None \<Rightarrow> Ended
      | Some (t, True) \<Rightarrow> Holding t None | Some (t, False) \<Rightarrow> Ready None, p')"
    using None r by (auto simp: worker_take_def split: option.splits bool.splits)
  show ?thesis
    unfolding e by (rule step) (use us(4) in \<open>auto split: option.splits bool.splits\<close>)
next
  case (Some x)
  then obtain t h where x: "pf = Some (t, h)" by (cases x) auto
  have e: "worker_take ex ans pf (jb_pool j) = (Holding t (Some h), jb_pool j)"
    by (simp add: worker_take_def x)
  show ?thesis
    unfolding e by (rule proper_step_agree [OF assms(1), of "[]"]) (simp_all add: assms(2) x)
qed

lemma worker_open_proper:
  assumes "job_ok T S D j" "jb_workers j w = Holding t fh" "inj_on tt_dst T"
  shows "proper_step T S D (jb_workers j w, jb_pool j)
     (worker_open closed mk opens closes t fh (jb_pool j))"
proof -
  let ?p = "jb_pool j"
  note ok = job_ok_worker [OF assms(1)]
  have t: "t \<in> T" using ok(2) [of w] assms(2) by simp
  have closed: "agree q (session_closed q) u" "same_kind q (session_closed q)" for q u
    by (rule agree_same; simp add: was_copied_def) (simp add: same_kind_def session_closed_def)
  note quiet = proper_step_agree [OF assms(1), of "[]", simplified]
  show ?thesis
  proof (cases "pl_cancel ?p \<or> pl_dead ?p \<or> closed")
    case True
    then obtain q where q: "worker_open closed mk opens closes t fh ?p = (Ended, q)"
      "q = ?p \<or> q = session_closed ?p"
      by (cases "pl_cancel ?p \<or> pl_dead ?p") (simp_all add: worker_open_def)
    have "pl_queue q = pl_queue ?p" "same_kind ?p q" "agree ?p q u" for u
      using q(2) closed by auto
    then show ?thesis unfolding q(1) by (intro quiet) simp_all
  next
    case running: False
    show ?thesis
    proof (cases fh)
    case (Some h)
    with running have e: "worker_open closed mk opens closes t fh ?p = (Running t h None, ?p)"
      by (simp add: worker_open_def)
    show ?thesis unfolding e by (rule quiet) (use assms(2) Some in simp_all)
  next
    case opened: None
    obtain r p' where o: "open_target_handle mk opens t ?p = (r, p')" by (metis prod.exhaust)
    have "pending_ok D ?p t None" using ok(5) [of t None w] assms(2) opened by simp
    note op = open_agree [OF o assms(3) t ok(3) [OF t] this]
    define q where "q = (case r of Some h \<Rightarrow> p' | None \<Rightarrow> if closes then session_closed p'
      else report t OutFailed (p'\<lparr>pl_error := Some (tt_name t @ '': open failed'')\<rparr>))"
    define wk where "wk = (case r of Some h \<Rightarrow> Running t h None | None \<Rightarrow> if closes then Ended else Ready None)"
    have e: "worker_open closed mk opens closes t fh ?p = (wk, q)"
      using running opened o by (cases r) (simp_all add: worker_open_def q_def wk_def)
    have pq: "agree p' q u" "same_kind p' q" "pl_queue q = pl_queue p'" for u
    proof -
      have "q = p' \<or> q = session_closed p'
          \<or> q = report t OutFailed (p'\<lparr>pl_error := Some (tt_name t @ '': open failed'')\<rparr>)"
        by (cases r) (simp_all add: q_def)
      then show "agree p' q u" "same_kind p' q" "pl_queue q = pl_queue p'"
        using closed [of p'] by (auto intro!: agree_same simp: was_copied_def same_kind_def)
    qed
    have "\<forall>(u, h)\<in>set (held wk). pending_ok D q u h"
      using op(5) by (cases r; cases closes) (auto simp: wk_def q_def)
    moreover have "copy_ok S D q t" by (rule agree_ok(1) [OF pq(1,2) op(4)])
    moreover have "agree ?p q u" if "u \<in> T" "u \<noteq> t" for u
      using agree_trans [OF op(3) [OF that] pq(1) op(2)] .
    moreover have "distinct (map fst (held wk))" "hand wk \<subseteq> {t}"
      by (auto simp: wk_def hand_held split: option.splits)
    ultimately show ?thesis
      unfolding e proper_step_def fst_conv snd_conv assms(2)
      using same_kind_trans [OF op(2) pq(2)] pq(3) op(1) by (intro exI [of _ "[]"]) simp
    qed
  qed
qed


lemma prefetch_proper:
  assumes "job_ok T S D j" "jb_workers j w = Running t h None" "inj_on tt_dst T"
    and "prefetch ex ans mk opens (jb_pool j) = (pf, p')"
  shows "proper_step T S D (jb_workers j w, jb_pool j) (Running t h (Some pf), p')"
proof -
  let ?p = "jb_pool j"
  note ok = job_ok_worker [OF assms(1)]
  obtain res p1 where r: "recv_next_target ex ans ?p = (res, p1)" by (metis prod.exhaust)
  from recv_agree [OF r] obtain us where us: "pl_queue ?p = us @ pl_queue p1"
    "same_kind ?p p1" "\<And>t. agree ?p p1 t" "\<And>t b. res = Some (t, b) \<Longrightarrow> us = [t]"
    by metis
  have t: "t \<in> T" "t \<notin> set (pl_queue ?p)" "pending_ok D ?p t h"
    using ok(2,8) [of w] ok(5) [of t h w] assms(2) by auto
  consider (ended) "pf = None" "p' = p1"
    | (skipped) u where "res = Some (u, False)" "pf = Some (u, None)" "p' = p1"
    | (opened) u where "res = Some (u, True)" "\<exists>r. open_target_handle mk opens u p1 = (r, p')
        \<and> pf = Some (u, case r of None \<Rightarrow> None | Some g \<Rightarrow> g)"
    using assms(4) r by (auto simp: prefetch_def split: if_splits option.splits bool.splits prod.splits)
  then show ?thesis
  proof cases
    case ended
    have "proper_step T S D (jb_workers j w, jb_pool j) (Running t h (Some None), p1)"
      by (rule proper_step_agree [OF assms(1) us(1,2,3)]) (use assms(2) in auto)
    with ended show ?thesis by simp
  next
    case skipped
    have "u \<noteq> t" using t(2) us(1,4) skipped(1) by auto
    then have "proper_step T S D (jb_workers j w, jb_pool j) (Running t h (Some (Some (u, None))), p1)"
      by (intro proper_step_agree [OF assms(1) us(1,2,3)]) (use assms(2) us(4) skipped(1) in auto)
    with skipped show ?thesis by simp
  next
    case opened
    from opened(2) obtain r where o: "open_target_handle mk opens u p1 = (r, p')"
      and pf: "pf = Some (u, case r of None \<Rightarrow> None | Some g \<Rightarrow> g)" by blast
    have u: "us = [u]" "u \<in> T" "u \<noteq> t" "pending_ok D ?p u None"
      using us(1) us(4) [OF opened(1)] ok(1,4) t(2) by auto
    note op = open_agree [OF o assms(3) u(2) agree_ok(1) [OF us(3,2) ok(3) [OF u(2)]]
        agree_ok(2) [OF us(3,2) u(4)]]
    have far: "agree ?p p' v" if "v \<in> T" "v \<noteq> u" for v
      using agree_trans [OF us(3) op(3) [OF that] us(2)] .
    note kind = same_kind_trans [OF us(2) op(2)]
    have "pending_ok D p' u (case r of None \<Rightarrow> None | Some g \<Rightarrow> g)"
      using op(5,6) by (cases r) simp_all
    moreover have "pending_ok D p' t h"
      using agree_ok(2) [OF far kind t(3)] t(1) u(3) by blast
    moreover have "copy_ok S D p' t" using agree_ok(1) [OF far kind ok(3)] t(1) u(3) by blast
    ultimately show ?thesis
      using op(1,4) us(1) u far kind assms(2)
      unfolding proper_step_def fst_conv snd_conv pf by (intro exI [of _ us]) simp
  qed
qed

text \<open>An upload under the empty handle succeeds only if there is nothing to write.\<close>

lemma refused_loop:
  assumes "list_all refused evs" "ul_inflight st \<noteq> []"
  shows "upload_loop tot chunk evs st \<noteq> Finished s"
proof (cases evs)
  case (Cons ev evs')
  show ?thesis
  proof (cases ev)
    case (Ack i srv)
    with assms(1) Cons have "\<forall>q. srv q \<noteq> None" by simp
    then have "srv (pick i (ul_inflight st)) \<noteq> None" ..
    then obtain e where "srv (pick i (ul_inflight st)) = Some e" by blast
    with Ack Cons assms(2) show ?thesis by (simp add: handle_ack_def)
  qed (use Cons assms(2) in simp)
qed (use assms(2) in simp)

lemma refused_upload:
  assumes "0 < chunk" "list_all refused acks" "rd_left r \<noteq> []" "tot = length (rd_left r)"
  shows "upload_inner tot chunk acks r old \<noteq> Finished s"
proof -
  let ?st = "\<lparr>ul_offset = 0, ul_inflight = [], ul_reader = r, ul_remote = old, ul_progress = []\<rparr>"
  obtain n where n: "pipeline_depth tot chunk = Suc n"
    using pipeline_depth_pos [OF _ assms(1), of tot] assms(3,4) by (cases "pipeline_depth tot chunk") auto
  have grows: "ul_inflight st \<noteq> [] \<Longrightarrow> seed_writes m tot chunk st = (None, st') \<Longrightarrow> ul_inflight st' \<noteq> []"
    for m st st'
    by (induction m tot chunk st rule: seed_writes.induct)
       (auto simp: read_and_queue_def queue_write_def split: if_splits prod.splits sum.splits bool.splits)
  have "ul_inflight st \<noteq> []" if s: "seed_writes (Suc n) tot chunk ?st = (None, st)" for st
  proof -
    have pos: "0 < tot" using assms(3,4) by simp
    obtain res r' where rd: "read_chunk_into (min chunk tot) r = (res, r')" by (metis prod.exhaust)
    show ?thesis
    proof (cases res)
      case (Inr bs)
      with read_chunk_into_spec [OF rd [unfolded Inr]] assms pos have "bs \<noteq> []" by auto
      then have "seed_writes n tot chunk (queue_write 0 bs (?st\<lparr>ul_reader := r'\<rparr>)\<lparr>ul_offset := length bs\<rparr>)
          = (None, st)"
        using s pos rd Inr by (simp add: read_and_queue_def)
      from grows [OF _ this] show ?thesis by (simp add: queue_write_def)
    qed (use s pos rd in \<open>auto simp: read_and_queue_def\<close>)
  qed
  with refused_loop [OF assms(2)] n show ?thesis
    by (auto simp: upload_inner_def split: prod.splits option.splits)
qed

text \<open>What the transfer of one file of a sound job does, whatever its handle.\<close>

lemma run_upload_file:
  assumes "run_upload env t h p = Some (ok, p')" "pl_direction p = LocalToRemote"
    and "pl_local p (tt_src t) = Some data" "honest_transfer LocalToRemote data h env"
    and "pending_ok D p t h"
  shows "(ok \<longrightarrow> pl_remote p' (tt_dst t) = Some data \<or> data = [] \<and> pl_remote p' (tt_dst t) = D (tt_dst t))
    \<and> (\<forall>q. q \<noteq> tt_dst t \<longrightarrow> pl_remote p' q = pl_remote p q)"
proof (cases h)
  case (Some q)
  with assms(2,5) have "q = tt_dst t" "pl_remote p (tt_dst t) = Some []"
    by (simp_all add: pending_ok_def targets_side_def)
  with run_upload_safe [of env p t data "tt_dst t"] assms(1,3,4) Some show ?thesis
    by (auto simp: honest_transfer_def)
next
  case None
  then have "p' = p" using assms(1,3)
    by (auto simp: run_upload_def Let_def split: transfer_outcome.splits)
  moreover have "ok \<Longrightarrow> data = []"
    using assms(1,3,4) None refused_upload [of "xe_chunk env" "xe_acks env" "\<lparr>rd_left = data, rd_plan = xe_reads env\<rparr>"
        "length data" "[]"]
    by (auto simp: run_upload_def honest_transfer_def Let_def split: transfer_outcome.splits)
  moreover have "pl_remote p (tt_dst t) = D (tt_dst t)"
    using assms(2,5) None by (simp add: pending_ok_def targets_side_def)
  ultimately show ?thesis by auto
qed


text \<open>What distinct paths are good for: no file of a sound job is touched with another.\<close>

definition separate :: "direction \<Rightarrow> transfer_target set \<Rightarrow> files \<Rightarrow> bool" where
  "separate dir T S \<longleftrightarrow> inj_on tt_src T \<and> inj_on tt_dst T
     \<and> (\<forall>t\<in>T. S (tt_src t) \<noteq> None)
     \<and> (dir = RemoteToLocal \<longrightarrow>
          (\<forall>t\<in>T. tt_size t = length (the (S (tt_src t)))
             \<and> (\<forall>u\<in>T. tt_dst u \<noteq> part_path (tt_dst t))))"

lemma part_path_eq [simp]: "part_path a = part_path b \<longleftrightarrow> a = b"
  by (simp add: part_path_def)

text \<open>The transfer of a file that is held, before it is reported.\<close>

lemma run_file:
  assumes "run_file_transfer env t h p = Some (ok, p')" "separate (pl_direction p) T S" "t \<in> T"
    and "copy_ok S D p t" "pending_ok D p t h"
    and "honest_transfer (pl_direction p) (the (S (tt_src t))) h env"
  shows "(\<forall>u\<in>T. u \<noteq> t \<longrightarrow> agree p p' u)
    \<and> (ok \<longrightarrow> stored S D p' t) \<and> (\<not> ok \<longrightarrow> copy_ok S D p' t)
    \<and> (pl_direction p = RemoteToLocal \<longrightarrow> part_ok (the (S (tt_src t))) (tt_dst t) (targets_side p'))"
proof -
  note sel = run_file_transfer_sel [OF assms(1)]
  have c: "was_copied p' u \<longleftrightarrow> was_copied p u" for u by (simp add: was_copied_def sel)
  have s: "sources p' = sources p" by (rule run_sources [OF assms(1)])
  from assms(2,3) obtain data where data: "S (tt_src t) = Some data" by (auto simp: separate_def)
  with assms(4,5) have src: "sources p (tt_src t) = Some data" by (simp add: copy_ok_def pending_ok_def)
  have sep: "tt_dst u \<noteq> tt_dst t" if "u \<in> T" "u \<noteq> t" for u
    using that assms(2,3) by (auto simp: separate_def dest: inj_onD)
  show ?thesis
  proof (cases "pl_direction p")
    case RemoteToLocal
    have l: "targets_side p = pl_local p" "targets_side p' = pl_local p'"
      by (simp_all add: targets_side_def RemoteToLocal sel)
    have ok: "tt_size t = length data" "part_ok data (tt_dst t) (pl_local p)"
      "pl_local p (tt_dst t) = D (tt_dst t)" "\<not> was_copied p t"
      using assms(2-5) data l RemoteToLocal by (auto simp: separate_def copy_ok_def pending_ok_def)
    have r: "run_download env t p = Some (ok, p')"
      using assms(1) RemoteToLocal by (simp add: run_file_transfer_def)
    have "0 < xe_chunk env" "list_all (honest_event data) (xe_replies env)"
      "not_cancelled (xe_replies env) \<or> list_all (\<lambda>f. f = None) (xe_faults env)"
      using assms(6) data RemoteToLocal by (simp_all add: honest_transfer_def)
    note d = run_download_safe [OF this ok(1,2) r]
    have "agree p p' u" if "u \<in> T" "u \<noteq> t" for u
    proof -
      have "tt_dst u \<noteq> part_path (tt_dst t)" "tt_dst t \<noteq> part_path (tt_dst u)"
        using that assms(2,3) RemoteToLocal by (auto simp: separate_def)
      with d sep [OF that] show ?thesis by (auto simp: agree_def c s l)
    qed
    moreover have "\<not> ok \<longrightarrow> copy_ok S D p' t"
      using d ok data src by (simp add: copy_ok_def c s l sel(7) RemoteToLocal)
    ultimately show ?thesis using d data by (auto simp: stored_def l)
  next
    case LocalToRemote
    have l: "targets_side p = pl_remote p" "targets_side p' = pl_remote p'"
      by (simp_all add: targets_side_def LocalToRemote sel)
    have "run_upload env t h p = Some (ok, p')" "pl_local p (tt_src t) = Some data"
      "honest_transfer LocalToRemote data h env"
      using assms(1,6) LocalToRemote data src by (simp_all add: run_file_transfer_def sources_def)
    note u = run_upload_file [OF this(1) LocalToRemote this(2,3) assms(5)]
    have "agree p p' v" if "v \<in> T" "v \<noteq> t" for v
      using u sep [OF that] by (simp add: agree_def c s l LocalToRemote)
    moreover have "ok \<longrightarrow> stored S D p' t"
      using u data by (auto simp: stored_def l sel(7) LocalToRemote)
    moreover have "\<not> ok \<longrightarrow> copy_ok S D p' t"
      using assms(5) data src by (simp add: copy_ok_def pending_ok_def c s sel(7) LocalToRemote)
    ultimately show ?thesis by (simp add: LocalToRemote)
  qed
qed

lemma worker_finish_agree:
  assumes "separate (pl_direction p) T S" "t \<in> T" "u \<in> T" "u \<noteq> t"
  shows "agree p (snd (worker_finish closed removes t ok pf p)) u"
proof -
  let ?q = "snd (worker_finish closed removes t ok pf p)"
  have "tt_src u \<noteq> tt_src t" using assms by (auto simp: separate_def dest: inj_onD)
  moreover have "was_copied ?q u \<longleftrightarrow> was_copied p u"
    using assms(4) by (auto simp: was_copied_def worker_finish_def)
  ultimately show ?thesis
    by (cases ok) (simp_all add: agree_def worker_finish_ok worker_finish_failed)
qed

lemma worker_finish_kind: "same_kind p (snd (worker_finish closed removes t ok pf p))"
  by (simp add: same_kind_def worker_finish_def)

lemma worker_finish_queue: "pl_queue (snd (worker_finish closed removes t ok pf p)) = pl_queue p"
  by (simp add: worker_finish_def)

lemma worker_finish_file:
  assumes "ok \<Longrightarrow> stored S D p t \<and> S (tt_src t) \<noteq> None \<and> sources p (tt_src t) = S (tt_src t)"
    and "\<not> ok \<Longrightarrow> copy_ok S D p t"
    and "pl_direction p = RemoteToLocal \<Longrightarrow> part_ok (the (S (tt_src t))) (tt_dst t) (targets_side p)"
  shows "copy_ok S D (snd (worker_finish closed removes t ok pf p)) t"
proof (cases ok)
  case True
  let ?q = "snd (worker_finish closed removes t True pf p)"
  have "was_copied ?q t" by (simp add: worker_finish_def was_copied_def)
  moreover have "pl_direction ?q = pl_direction p" "pl_is_move ?q = pl_is_move p"
    using worker_finish_kind [of p closed removes t True pf] by (simp_all add: same_kind_def)
  ultimately show ?thesis
    using assms(1,3) True by (auto simp: copy_ok_def stored_def worker_finish_ok)
next
  case False
  let ?q = "snd (worker_finish closed removes t False pf p)"
  have "agree p ?q t"
    by (simp add: agree_def worker_finish_failed) (simp add: was_copied_def worker_finish_def)
  from agree_ok(1) [OF this worker_finish_kind] assms(2) False show ?thesis by simp
qed

lemma worker_finish_proper:
  assumes "job_ok T S D j" "jb_workers j w = Running t h (Some pf)"
    and "run_file_transfer env t h (jb_pool j) = Some (ok, p)"
    and "separate (pl_direction (jb_pool j)) T S"
    and "honest_transfer (pl_direction (jb_pool j)) (the (S (tt_src t))) h env"
  shows "proper_step T S D (jb_workers j w, jb_pool j) (worker_finish closed removes t ok pf p)"
proof -
  let ?p = "jb_pool j"
  let ?q = "snd (worker_finish closed removes t ok pf p)"
  note all_ok = job_ok_worker [OF assms(1)]
  note sel = run_file_transfer_sel [OF assms(3)]
  have t: "t \<in> T" "pending_ok D ?p t h" "copy_ok S D ?p t"
    using all_ok(2) [of w] all_ok(5) [of t h w] all_ok(3) [of t] assms(2) by auto
  note run = run_file [OF assms(3,4) t(1,3,2) assms(5)]
  have kind: "same_kind ?p p" using sel by (simp add: same_kind_def)
  have sep: "separate (pl_direction p) T S" using assms(4) sel by simp
  have far: "agree ?p ?q u" if u: "u \<in> T" "u \<noteq> t" for u
    using agree_trans [OF _ worker_finish_agree [OF sep t(1) u] kind] run u by blast
  note kind' = same_kind_trans [OF kind worker_finish_kind [of p closed removes t ok pf]]
  have "sources p (tt_src t) = S (tt_src t)"
    using t run_sources [OF assms(3)] by (simp add: copy_ok_def pending_ok_def)
  then have this_ok: "copy_ok S D ?q t"
    using run sep t(1) sel(7) by (intro worker_finish_file) (auto simp: separate_def)
  have rest: "u \<in> T" "u \<noteq> t" "pending_ok D ?p u g" if "pf = Some (u, g)" for u g
    using that all_ok(2) [of w] all_ok(7) [of w] all_ok(5) [of u g w] assms(2) by auto
  have next_ok: "copy_ok S D ?q u" "pending_ok D ?q u g" if "pf = Some (u, g)" for u g
    using agree_ok [OF far kind'] rest [OF that] all_ok(3) by blast+
  have new: "set (held (fst (worker_finish closed removes t ok pf p))) \<subseteq> set_option pf"
    "distinct (map fst (held (fst (worker_finish closed removes t ok pf p))))"
    by (cases pf; auto simp: worker_finish_def)+
  then have "\<forall>(u, g)\<in>set (held (fst (worker_finish closed removes t ok pf p))). pending_ok D ?q u g"
    using next_ok(2) by auto
  moreover have hand: "hand (Running t h (Some pf)) = insert t (fst ` set_option pf)" by simp
  moreover have "hand (fst (worker_finish closed removes t ok pf p)) \<subseteq> insert t (fst ` set_option pf)"
    using new(1) by (auto simp: hand_held)
  moreover have "\<forall>u\<in>insert t (fst ` set_option pf). copy_ok S D ?q u"
    using this_ok next_ok(1) by auto
  ultimately show ?thesis
    using far kind' new(2) worker_finish_queue [of closed removes t ok pf p] sel(1)
    unfolding proper_step_def fst_conv snd_conv assms(2)
    by (intro exI [of _ "[]"]) auto
qed

lemma job_ok_pool:
  assumes "job_ok T S D j" "f \<in> {pl_skip_update (\<lambda>_. True), pl_cancel_update (\<lambda>_. True),
      pl_dead_update (\<lambda>_. True)} \<union> range (\<lambda>v. pl_policy_update (\<lambda>_. v))"
  shows "job_ok T S D (j\<lparr>jb_pool := f (jb_pool j)\<rparr>)"
proof -
  let ?p = "jb_pool j" and ?q = "f (jb_pool j)"
  have s: "pl_queue ?q = pl_queue ?p" "same_kind ?p ?q"
    using assms(2) by (auto simp: same_kind_def)
  have "agree ?p ?q t" for t
    by (rule agree_same) (use assms(2) in \<open>auto simp: was_copied_def\<close>)
  note keep = agree_ok [OF this s(2)]
  show ?thesis
    using assms(1) keep s(1) unfolding job_ok_def by (simp add: case_prod_unfold)
qed

lemma job_step_ok:
  assumes "job_ok T S D j" "separate (pl_direction (jb_pool j)) T S" "honest_at S ev j"
  shows "job_ok T S D (job_step ev j)"
proof (cases ev)
  case (Take w ex ans)
  then show ?thesis
    using job_ok_step [OF assms(1)] worker_take_proper [OF assms(1)] assms(1)
    by (cases "jb_workers j w") (simp_all, metis prod.collapse)
next
  case (OpenTarget w closed mk opens closes)
  have "inj_on tt_dst T" using assms(2) by (simp add: separate_def)
  with OpenTarget show ?thesis
    using job_ok_step [OF assms(1)] worker_open_proper [OF assms(1)] assms(1)
    by (cases "jb_workers j w") (simp_all, metis prod.collapse)
next
  case (Prefetch w ex ans mk opens)
  have i: "inj_on tt_dst T" using assms(2) by (simp add: separate_def)
  show ?thesis
  proof (cases "\<exists>t h. jb_workers j w = Running t h None")
    case True
    then obtain t h where r: "jb_workers j w = Running t h None" by blast
    obtain pf p where p: "prefetch ex ans mk opens (jb_pool j) = (pf, p)" by (metis prod.exhaust)
    from job_ok_step [OF assms(1) prefetch_proper [OF assms(1) r i p]] r p Prefetch show ?thesis by simp
  next
    case False
    with assms(1) Prefetch show ?thesis by (cases "jb_workers j w") (auto split: option.splits)
  qed
next
  case (Finish w env closed removes)
  show ?thesis
  proof (cases "\<exists>t h pf ok p. jb_workers j w = Running t h (Some pf)
      \<and> run_file_transfer env t h (jb_pool j) = Some (ok, p)")
    case True
    then obtain t h pf ok p where r: "jb_workers j w = Running t h (Some pf)"
      "run_file_transfer env t h (jb_pool j) = Some (ok, p)" by blast
    have "honest_transfer (pl_direction (jb_pool j)) (the (S (tt_src t))) h env"
      using assms(3) Finish r(1) by simp
    from worker_finish_proper [OF assms(1) r assms(2) this]
    have "job_ok T S D (set_worker w (worker_finish closed removes t ok pf p) j)"
      using job_ok_step [OF assms(1)] by (metis prod.collapse)
    with r Finish show ?thesis by simp
  next
    case False
    with assms(1) Finish show ?thesis by (cases "jb_workers j w") (auto split: option.splits)
  qed
qed (use job_ok_pool [OF assms(1)] in simp_all)


text \<open>Only files of the job are reported.\<close>

lemma recv_reported:
  "recv_next_target ex ans p = (res, p') \<Longrightarrow> reported p' \<subseteq> reported p \<union> set (pl_queue p)"
proof (elim recv_next_target_cases, goal_cases)
  case (4 t ts)
  then have "pl_outcomes p' = pl_outcomes p" by (metis pool.select_convs(13) pool.surjective pool.update_convs(3,4))
  then show ?case by (simp add: reported_def)
qed (auto simp: reported_def)

lemma job_step_reported:
  "reported (jb_pool (job_step ev j))
     \<subseteq> reported (jb_pool j) \<union> set (pl_queue (jb_pool j)) \<union> (\<Union>w. hand (jb_workers j w))"
proof (cases rule: job_step_pool [where ev = ev and j = j])
  case (2 pf w ex ans)
  obtain res p' where r: "recv_next_target ex ans (jb_pool j) = (res, p')" by (metis prod.exhaust)
  have "snd (worker_take ex ans pf (jb_pool j)) \<in> {jb_pool j, p'}"
    using r by (auto simp: worker_take_def split: option.splits bool.splits)
  with recv_reported [OF r] 2(3) show ?thesis by auto
next
  case (3 w closed mk opens closes t fh)
  obtain h p' where o: "open_target_handle mk opens t (jb_pool j) = (h, p')" by (metis prod.exhaust)
  have "t \<in> hand (jb_workers j w)" using 3(2) by simp
  moreover have "set (pl_outcomes (snd (worker_open closed mk opens closes t fh (jb_pool j))))
      \<subseteq> insert (t, OutFailed) (set (pl_outcomes (jb_pool j)))"
    using open_target_handle_sel(4) [OF o] o
    by (auto simp: worker_open_def split: option.splits if_splits)
  ultimately show ?thesis using 3(3) unfolding reported_def by (auto dest!: subsetD)
next
  case (4 w ex ans mk opens t h)
  obtain res p1 where r: "recv_next_target ex ans (jb_pool j) = (res, p1)" by (metis prod.exhaust)
  have "reported (snd (prefetch ex ans mk opens (jb_pool j))) = reported p1"
    using prefetch_pool [OF r, of mk opens] open_target_handle_sel(4) unfolding reported_def by metis
  with recv_reported [OF r] 4(3) show ?thesis by auto
next
  case (5 w env closed removes t h pf ok p)
  have "t \<in> hand (jb_workers j w)" using 5(2) by simp
  moreover have "set (pl_outcomes (snd (worker_finish closed removes t ok pf p)))
      \<subseteq> {(t, OutCopied), (t, OutSkipped), (t, OutFailed)} \<union> set (pl_outcomes (jb_pool j))"
    using run_file_transfer_sel(4) [OF 5(3)] by (auto simp: worker_finish_def)
  ultimately show ?thesis using 5(4) unfolding reported_def by (auto dest!: subsetD)
qed (auto simp: reported_def)

lemma job_step_kind: "same_kind (jb_pool j) (jb_pool (job_step ev j))"
proof -
  have "pl_direction (jb_pool (job_step ev j)) = pl_direction (jb_pool j)"
  proof (cases rule: job_step_pool [where ev = ev and j = j])
    case (2 pf w ex ans)
    obtain res p' where r: "recv_next_target ex ans (jb_pool j) = (res, p')" by (metis prod.exhaust)
    have "snd (worker_take ex ans pf (jb_pool j)) \<in> {jb_pool j, p'}"
      using r by (auto simp: worker_take_def split: option.splits bool.splits)
    with recv_sel(3) [OF r] 2(3) show ?thesis by auto
  next
    case (3 w closed mk opens closes t fh)
    obtain h p' where o: "open_target_handle mk opens t (jb_pool j) = (h, p')" by (metis prod.exhaust)
    show ?thesis
      using open_target_handle_sel(7) [OF o] o 3(3) by (auto simp: worker_open_def split: option.splits)
  next
    case (4 w ex ans mk opens t h)
    obtain res p1 where r: "recv_next_target ex ans (jb_pool j) = (res, p1)" by (metis prod.exhaust)
    show ?thesis
      using prefetch_pool [OF r, of mk opens] open_target_handle_sel(7) recv_sel(3) [OF r] 4(3) by metis
  next
    case (5 w env closed removes t h pf ok p)
    with run_file_transfer_sel(7) [OF 5(3)] show ?thesis by (simp add: worker_finish_def)
  qed auto
  with job_step_is_move show ?thesis by (simp add: same_kind_def)
qed

text \<open>The invariant of a whole run.\<close>

lemma sound_job_start:
  assumes "sound_job dir (file_targets ts) S D" "start = job_start dir move policy ts loc rem"
    and "S = sources (jb_pool start)" "D = targets_side (jb_pool start)"
  shows "separate dir (set (file_targets ts)) S" "job_ok (set (file_targets ts)) S D start"
    "same_kind (jb_pool start) (jb_pool start)" "reported (jb_pool start) \<subseteq> set (file_targets ts)"
    "pl_direction (jb_pool start) = dir" "pl_is_move (jb_pool start) = move"
proof -
  show "separate dir (set (file_targets ts)) S"
    using assms(1) by (auto simp: sound_job_def separate_def distinct_map)
  have p: "pl_outcomes (jb_pool start) = []" "pl_queue (jb_pool start) = file_targets ts"
    "pl_direction (jb_pool start) = dir" "\<And>w. jb_workers start w = Ready None"
    by (simp_all add: assms(2) job_start_def)
  then show "pl_direction (jb_pool start) = dir" "reported (jb_pool start) \<subseteq> set (file_targets ts)"
    "pl_is_move (jb_pool start) = move" "same_kind (jb_pool start) (jb_pool start)"
    by (simp_all add: reported_def assms(2) job_start_def)
  have "copy_ok S D (jb_pool start) t" if "t \<in> set (file_targets ts)" for t
    using that assms(1,3,4) p by (auto simp: copy_ok_def was_copied_def sound_job_def)
  moreover have "pending_ok D (jb_pool start) t None" for t
    using p assms(4) by (simp add: pending_ok_def was_copied_def)
  moreover have "distinct (file_targets ts)"
    using assms(1) by (auto simp: sound_job_def distinct_map)
  ultimately show "job_ok (set (file_targets ts)) S D start"
    using p by (simp add: job_ok_def apart_def)
qed

lemma job_run_ok:
  "job_ok T S D j \<Longrightarrow> separate (pl_direction (jb_pool j)) T S \<Longrightarrow> reported (jb_pool j) \<subseteq> T \<Longrightarrow>
     honest_run S evs j \<Longrightarrow>
     job_ok T S D (job_run evs j) \<and> reported (jb_pool (job_run evs j)) \<subseteq> T
     \<and> same_kind (jb_pool j) (jb_pool (job_run evs j))"
proof (induction evs arbitrary: j)
  case (Cons ev evs)
  have ok: "job_ok T S D (job_step ev j)" using job_step_ok Cons.prems by simp
  note kind = job_step_kind [of j ev]
  have "separate (pl_direction (jb_pool (job_step ev j))) T S"
    using Cons.prems(2) kind by (simp add: same_kind_def)
  moreover have "reported (jb_pool (job_step ev j)) \<subseteq> T"
    using job_step_reported [of ev j] Cons.prems(1,3) unfolding job_ok_def by blast
  ultimately show ?case
    using Cons.IH [OF ok] Cons.prems(4) same_kind_trans [OF kind] by simp
qed simp

lemma sound_run:
  assumes "start = job_start dir move policy ts loc rem"
    and "S = sources (jb_pool start)" "D = targets_side (jb_pool start)"
    and "sound_job dir (file_targets ts) S D" "honest_run S evs start"
    and "p = jb_pool (job_run evs start)"
  shows "\<And>t. t \<in> set (file_targets ts) \<Longrightarrow> copy_ok S D p t" "reported p \<subseteq> set (file_targets ts)"
    "pl_direction p = dir" "pl_is_move p = move"
proof -
  note s = sound_job_start [OF assms(4,1,2,3)]
  have "separate (pl_direction (jb_pool start)) (set (file_targets ts)) S" using s(1,5) by simp
  from job_run_ok [OF s(2) this s(4) assms(5)] s(5,6)
  show "\<And>t. t \<in> set (file_targets ts) \<Longrightarrow> copy_ok S D p t" "reported p \<subseteq> set (file_targets ts)"
    "pl_direction p = dir" "pl_is_move p = move"
    by (auto simp: job_ok_def same_kind_def assms(6))
qed

text \<open>The small job and others in which nothing goes wrong are sound and honest.\<close>

fun quiet_event :: "job_event \<Rightarrow> bool" where
  "quiet_event (Finish w env closed removes) \<longleftrightarrow> env = quiet_env"
| "quiet_event ev \<longleftrightarrow> True"

lemma quiet_honest:
  "pl_direction (jb_pool j) = RemoteToLocal \<Longrightarrow> list_all quiet_event evs \<Longrightarrow> honest_run S evs j"
proof (induction evs arbitrary: j)
  case (Cons ev evs)
  have "honest_at S ev j"
  proof (cases ev)
    case (Finish w env closed removes)
    with Cons.prems show ?thesis
      by (auto simp: honest_transfer_def quiet_env_def not_cancelled_def split: worker.split option.split)
  qed simp_all
  with Cons job_step_kind [of j ev] show ?case by (simp add: same_kind_def)
qed simp

definition small_remote :: files where
  "small_remote = [''/r/a'' \<mapsto> [], ''/r/b'' \<mapsto> [1, 2, 3, 4, 5, 6, 7]]"

definition small_start :: "bool \<Rightarrow> job" where
  "small_start move = job_start RemoteToLocal move 0 small_targets Map.empty small_remote"

lemma small_sound:
  "sources (jb_pool (small_start move)) = small_remote"
  "targets_side (jb_pool (small_start move)) = Map.empty"
  "sound_job RemoteToLocal (file_targets small_targets) small_remote Map.empty"
  "honest_run S small_events (small_start move)"
  "small_job move = job_run small_events (small_start move)"
proof -
  show "sources (jb_pool (small_start move)) = small_remote"
    "targets_side (jb_pool (small_start move)) = Map.empty"
    by (simp_all add: small_start_def job_start_def sources_def targets_side_def)
  show "sound_job RemoteToLocal (file_targets small_targets) small_remote Map.empty"
    unfolding small_targets_files
    by (simp add: sound_job_def small_targets_def small_remote_def part_ok_def part_path_def)
  show "honest_run S small_events (small_start move)"
    by (rule quiet_honest) (simp_all add: small_start_def job_start_def small_events_def)
  show "small_job move = job_run small_events (small_start move)"
    by (simp add: small_job_def small_start_def small_remote_def)
qed

lemma small_files:
  "set (file_targets small_targets) = {small_targets ! 0, small_targets ! 1}"
  "tt_src (small_targets ! 0) = ''/r/a''" "tt_dst (small_targets ! 0) = ''/l/a''"
  "tt_src (small_targets ! 1) = ''/r/b''" "tt_dst (small_targets ! 1) = ''/l/b''"
  "small_targets ! 0 \<noteq> small_targets ! 1" "small_targets ! 1 \<noteq> small_targets ! 0"
proof -
  show "set (file_targets small_targets) = {small_targets ! 0, small_targets ! 1}"
    unfolding small_targets_files by (auto simp: small_targets_def)
qed (simp_all add: small_targets_def)

section \<open>Properties of a job\<close>







text \<open>
  The exception happens: an empty file whose opening fails while it is prefetched is reported as
  copied, a move deletes it, and nothing is stored.\<close>

lemma empty_upload: "\<exists>st. upload_inner 0 c [] r old = Finished st"
  by (cases "pipeline_depth 0 c") (simp_all add: upload_inner_def)

lemma empty_upload_run:
  assumes "pl_direction p = LocalToRemote" "pl_local p (tt_src t) = Some []"
  shows "run_file_transfer quiet_env t None p = Some (True, p)"
  using empty_upload [of 1 "\<lparr>rd_left = [], rd_plan = []\<rparr>" "[]"] assms
  by (auto simp: run_file_transfer_def run_upload_def quiet_env_def)

lemma empty_upload_file:
  assumes "pl_local p (tt_src t) = Some []" "pl_remote p q = Some []"
  shows "run_upload quiet_env t (Some q) p = Some (True, p)"
proof -
  obtain st where "upload_inner 0 1 [] \<lparr>rd_left = [], rd_plan = []\<rparr> [] = Finished st"
    using empty_upload by blast
  moreover from this have "ul_remote st = []"
    using upload_inner_result [of 1 0 "[]" "\<lparr>rd_left = [], rd_plan = []\<rparr>"] by simp
  moreover have "(pl_remote p)(q \<mapsto> []) = pl_remote p" using assms(2) by (auto simp: fun_eq_iff)
  ultimately show ?thesis
    using assms by (simp add: run_upload_def quiet_env_def unwrap_or_def)
qed

definition empty_target :: "string \<Rightarrow> transfer_target" where
  "empty_target n = \<lparr>tt_src = ''/l/'' @ n, tt_dst = ''/'' @ n, tt_name = n, tt_size = 0, tt_is_dir = False\<rparr>"

definition empty_events :: "job_event list" where
  "empty_events =
     [Take 0 False None, OpenTarget 0 False (\<lambda>_. True) True False,
      Prefetch 0 False None (\<lambda>_. True) False, Finish 0 quiet_env False True,
      Take 0 False None, OpenTarget 0 False (\<lambda>_. True) True False,
      Prefetch 0 False None (\<lambda>_. True) True, Finish 0 quiet_env False True]"

lemma empty_upload_not_stored:
  "let j = job_run empty_events (job_start LocalToRemote True 0 [empty_target ''a'', empty_target ''b'']
       [''/l/a'' \<mapsto> [], ''/l/b'' \<mapsto> []] Map.empty)
   in (empty_target ''b'', OutCopied) \<in> set (pl_outcomes (jb_pool j)) \<and> tr_copied (job_result 2 j) = 2
    \<and> tr_error (job_result 2 j) = None \<and> sources (jb_pool j) ''/l/b'' = None
    \<and> targets_side (jb_pool j) ''/b'' = None"
proof -
  have files: "file_targets [empty_target ''a'', empty_target ''b''] = [empty_target ''a'', empty_target ''b'']"
    by (simp add: file_targets_def empty_target_def)
  have parent: "path_parent ''/a'' = Some ''/''" "path_parent ''/b'' = Some ''/''"
    by code_simp+
  have dirs: "sftp_mkdir_all (\<lambda>_. True) ''/'' {} = (None, {''/''})"
    "sftp_mkdir_all (\<lambda>_. True) ''/'' {''/''} = (None, {''/''})"
    by code_simp+
  have finish: "run_file_transfer quiet_env t (Some q) p = Some (True, p)"
    if "pl_direction p = LocalToRemote" "pl_local p (tt_src t) = Some []" "pl_remote p q = Some []" for t q p
    using that empty_upload_file [of p t q] by (simp add: run_file_transfer_def)
  show ?thesis
    unfolding empty_events_def job_start_def files
    by (simp add: set_worker_def worker_take_def recv_next_target_def worker_open_def
        open_target_handle_def Let_def empty_target_def parent dirs prefetch_def finish empty_upload_run
        worker_finish_def report_def delete_source_def job_result_def sources_def targets_side_def)
qed

end
