(* ===== verification/Dir_Walk.thy ===== *)
theory Dir_Walk
  imports Transfer_Job "HOL-Library.Multiset"
begin

text \<open>
  What the walks of \<open>Transfer_Job\<close> list.  A directory tree is a datatype; a reader shows it below
  a path.  The locale \<open>directory_walk\<close> is the contract of a walk with a list of directories still
  to read, \<open>rooted_walk\<close> adds how paths are joined and made relative; both walks are
  interpretations.
\<close>

section \<open>Directory trees\<close>

datatype dtree = Leaf nat | Node nat "(string \<times> dtree) list"

fun node_is_dir :: "dtree \<Rightarrow> bool" where
  "node_is_dir (Leaf n) = False"
| "node_is_dir (Node n es) = True"

fun node_size :: "dtree \<Rightarrow> nat" where
  "node_size (Leaf n) = n"
| "node_size (Node n es) = n"

definition listing :: "(string \<times> dtree) list \<Rightarrow> (string \<times> bool \<times> nat) list" where
  "listing es = map (\<lambda>(name, t). (name, node_is_dir t, node_size t)) es"

lemma child_size [termination_simp]:
  "x \<in> set es \<Longrightarrow> size (snd x) < Suc (size_list (size_prod (\<lambda>_. 0) size) es)"
  by (induction es) auto

text \<open>A name that can stand in a path.\<close>

definition good_name :: "string \<Rightarrow> bool" where
  "good_name name \<longleftrightarrow> name \<noteq> [] \<and> name \<noteq> ''.'' \<and> name \<noteq> ''..'' \<and> CHR ''/'' \<notin> set name"

fun good_tree :: "dtree \<Rightarrow> bool" where
  "good_tree (Leaf n) = True"
| "good_tree (Node n es) = (\<forall>x \<in> set es. good_name (fst x) \<and> good_tree (snd x))"

fun shows_tree :: "dir_reader \<Rightarrow> (string \<Rightarrow> string \<Rightarrow> string) \<Rightarrow> string \<Rightarrow> dtree \<Rightarrow> bool" where
  "shows_tree rd join p (Leaf n) = True"
| "shows_tree rd join p (Node n es) =
     (rd p = Some (listing es) \<and> (\<forall>x \<in> set es. shows_tree rd join (join p (fst x)) (snd x)))"

fun dir_count :: "dtree \<Rightarrow> nat" where
  "dir_count (Leaf n) = 0"
| "dir_count (Node n es) = Suc (\<Sum>x\<leftarrow>es. dir_count (snd x))"

fun all_entries ::
  "(string \<Rightarrow> string \<Rightarrow> string) \<Rightarrow> (string \<Rightarrow> string \<times> bool \<times> nat \<Rightarrow> walk_entry) \<Rightarrow> string \<Rightarrow> dtree
     \<Rightarrow> walk_entry list" where
  "all_entries join entry p (Leaf n) = []"
| "all_entries join entry p (Node n es) =
     map (entry p) (listing es)
       @ concat (map (\<lambda>x. all_entries join entry (join p (fst x)) (snd x)) es)"

text \<open>The entries by their path below the root.\<close>

fun tree_paths :: "(bool \<Rightarrow> nat \<Rightarrow> nat) \<Rightarrow> string list \<Rightarrow> dtree \<Rightarrow> walk_entry list" where
  "tree_paths shown rp (Leaf n) = []"
| "tree_paths shown rp (Node n es) =
     map (\<lambda>(name, b, k). (join_with ''/'' (rp @ [name]), b, shown b k)) (listing es)
       @ concat (map (\<lambda>x. tree_paths shown (rp @ [fst x]) (snd x)) es)"

section \<open>Walks\<close>

lemma mset_map_order: "mset (map f xs) = mset ys \<Longrightarrow> \<exists>zs. mset zs = mset xs \<and> map f zs = ys"
proof (induction ys arbitrary: xs)
  case (Cons y ys)
  have "y \<in> set (map f xs)" using mset_eq_setD [OF Cons.prems] by simp
  then obtain x where x: "x \<in> set xs" "f x = y" by auto
  then obtain a b where xs: "xs = a @ x # b" by (meson split_list)
  with Cons.prems x(2) have "mset (map f (a @ b)) = mset ys" by simp
  from Cons.IH [OF this] obtain zs where zs: "mset zs = mset (a @ b)" "map f zs = ys" by blast
  have "mset (x # zs) = mset xs" unfolding xs by (simp add: zs(1))
  moreover have "map f (x # zs) = y # ys" by (simp add: zs(2) x(2))
  ultimately show ?case by (intro exI [of _ "x # zs"] conjI)
qed simp

lemma mset_sum_list: "mset xs = mset ys \<Longrightarrow> (\<Sum>x\<leftarrow>xs. f x :: nat) = (\<Sum>x\<leftarrow>ys. f x)"
proof -
  have "(\<Sum>x\<leftarrow>xs. f x) = (\<Sum>x\<in>#mset xs. f x)" for xs by (induction xs) simp_all
  then show "mset xs = mset ys \<Longrightarrow> ?thesis" by simp
qed

lemma mset_concat_map: "mset xs = mset ys \<Longrightarrow> mset (concat (map f xs)) = mset (concat (map f ys))"
proof -
  have "mset (concat (map f xs)) = (\<Sum>x\<in>#mset xs. mset (f x))" for xs by (induction xs) simp_all
  then show "mset xs = mset ys \<Longrightarrow> ?thesis" by simp
qed

locale directory_walk =
  fixes walk :: "nat \<Rightarrow> string list \<Rightarrow> walk_entry list \<Rightarrow> (string + walk_entry list) option"
    and join :: "string \<Rightarrow> string \<Rightarrow> string"
    and entry :: "string \<Rightarrow> string \<times> bool \<times> nat \<Rightarrow> walk_entry"
    and rd :: dir_reader
  assumes finished: "walk (Suc n) [] res = Some (Inr res)"
    and round: "dirs \<noteq> [] \<Longrightarrow> \<forall>d \<in> set dirs. \<exists>es. rd d = Some es \<and> list_all proper_entry es \<Longrightarrow>
      \<exists>batch rest dirs' res'. batch \<noteq> [] \<and> mset dirs = mset batch + mset rest
        \<and> walk (Suc n) dirs res = walk n dirs' res'
        \<and> mset dirs' = mset rest
            + mset (concat (map (\<lambda>d. map (join d \<circ> fst) (filter (fst \<circ> snd) (the (rd d)))) batch))
        \<and> mset res' = mset res + mset (concat (map (\<lambda>d. map (entry d) (the (rd d))) batch))"
begin

text \<open>The directories among the children of a node.\<close>

definition subdirs :: "string \<times> dtree \<Rightarrow> (string \<times> dtree) list" where
  "subdirs x = (case snd x of
     Leaf n \<Rightarrow> []
   | Node n es \<Rightarrow> map (\<lambda>(name, t). (join (fst x) name, t)) (filter (node_is_dir \<circ> snd) es))"

definition pending :: "string \<times> dtree \<Rightarrow> bool" where
  "pending x \<longleftrightarrow> node_is_dir (snd x) \<and> good_tree (snd x) \<and> shows_tree rd join (fst x) (snd x)"

definition here :: "string \<times> dtree \<Rightarrow> walk_entry list" where
  "here x = all_entries join entry (fst x) (snd x)"

lemma pending_subdirs: "pending x \<Longrightarrow> y \<in> set (subdirs x) \<Longrightarrow> pending y"
  by (cases "snd x") (auto simp: pending_def subdirs_def)

lemma pending_reads:
  assumes "pending x"
  shows "\<exists>es. rd (fst x) = Some es \<and> list_all proper_entry es"
    and "map (join (fst x) \<circ> fst) (filter (fst \<circ> snd) (the (rd (fst x)))) = map fst (subdirs x)"
proof -
  obtain n es where x: "snd x = Node n es" using assms by (cases "snd x") (auto simp: pending_def)
  with assms have r: "rd (fst x) = Some (listing es)" "\<forall>y \<in> set es. good_name (fst y)"
    by (auto simp: pending_def)
  then have "list_all proper_entry (listing es)"
    by (auto simp: list_all_iff listing_def proper_entry_def good_name_def)
  with r(1) show "\<exists>es. rd (fst x) = Some es \<and> list_all proper_entry es" by blast
  have "map (join (fst x) \<circ> fst) (filter (fst \<circ> snd) (listing es))
    = map fst (map (\<lambda>(name, t). (join (fst x) name, t)) (filter (node_is_dir \<circ> snd) es))"
    by (induction es) (auto simp: listing_def)
  with r(1) x show "map (join (fst x) \<circ> fst) (filter (fst \<circ> snd) (the (rd (fst x)))) = map fst (subdirs x)"
    by (simp add: subdirs_def)
qed

lemma pending_count: "pending x \<Longrightarrow> dir_count (snd x) = Suc (\<Sum>y\<leftarrow>subdirs x. dir_count (snd y))"
proof (cases "snd x")
  case (Node n es)
  have "(\<Sum>y\<leftarrow>es. dir_count (snd y))
    = (\<Sum>y\<leftarrow>map (\<lambda>(name, t). (join (fst x) name, t)) (filter (node_is_dir \<circ> snd) es). dir_count (snd y))"
  proof (induction es)
    case (Cons y es)
    then show ?case by (cases "snd y") (auto simp: split_beta)
  qed simp
  with Node show ?thesis by (simp add: subdirs_def)
qed (simp add: pending_def)

lemma pending_here:
  assumes "pending x"
  shows "here x = map (entry (fst x)) (the (rd (fst x))) @ concat (map here (subdirs x))"
proof (cases "snd x")
  case (Node n es)
  have "concat (map (\<lambda>y. all_entries join entry (join (fst x) (fst y)) (snd y)) es)
    = concat (map here (map (\<lambda>(name, t). (join (fst x) name, t)) (filter (node_is_dir \<circ> snd) es)))"
  proof (induction es)
    case (Cons y es)
    then show ?case by (cases "snd y") (auto simp: here_def split_beta)
  qed simp
  with Node assms show ?thesis by (simp add: here_def subdirs_def pending_def)
qed (use assms in \<open>simp add: pending_def\<close>)

lemma all_listed:
  assumes "\<forall>x \<in> set ns. pending x" "mset dirs = mset (map fst ns)"
    and "(\<Sum>x\<leftarrow>ns. dir_count (snd x)) < fuel"
  shows "\<exists>res'. walk fuel dirs res = Some (Inr res') \<and> mset res' = mset res + mset (concat (map here ns))"
  using assms
proof (induction fuel arbitrary: ns dirs res)
  case (Suc fuel)
  show ?case
  proof (cases "dirs = []")
    case True
    with Suc.prems(2) finished show ?thesis by simp
  next
    case False
    have "\<exists>es. rd d = Some es \<and> list_all proper_entry es" if "d \<in> set dirs" for d
    proof -
      from that Suc.prems(2) have "d \<in> fst ` set ns" by (metis set_map mset_eq_setD)
      with Suc.prems(1) pending_reads(1) show ?thesis by auto
    qed
    with round [OF False, of fuel res] obtain batch rest dirs' res' where r:
      "batch \<noteq> []" "mset dirs = mset batch + mset rest" "walk (Suc fuel) dirs res = walk fuel dirs' res'"
      "mset dirs' = mset rest
            + mset (concat (map (\<lambda>d. map (join d \<circ> fst) (filter (fst \<circ> snd) (the (rd d)))) batch))"
      "mset res' = mset res + mset (concat (map (\<lambda>d. map (entry d) (the (rd d))) batch))" by blast
    from r(2) Suc.prems(2) have "mset (map fst ns) = mset (batch @ rest)" by simp
    then obtain zs where zs: "mset zs = mset ns" "map fst zs = batch @ rest" using mset_map_order by metis
    define bs rs where "bs = take (length batch) zs" and "rs = drop (length batch) zs"
    have b: "map fst bs = batch" "map fst rs = rest" "zs = bs @ rs"
      unfolding bs_def rs_def by (simp_all add: take_map [symmetric] drop_map [symmetric] zs(2))
    have p: "\<forall>x \<in> set bs. pending x" "\<forall>x \<in> set rs. pending x"
      using Suc.prems(1) mset_eq_setD [OF zs(1)] b(3) by auto
    let ?ns = "rs @ concat (map subdirs bs)"
    have subs: "concat (map (\<lambda>d. map (join d \<circ> fst) (filter (fst \<circ> snd) (the (rd d)))) (map fst bs))
        = map fst (concat (map subdirs bs))"
      using p(1) by (induction bs) (simp_all add: pending_reads(2))
    have cnt: "(\<Sum>x\<leftarrow>bs. dir_count (snd x)) = length bs + (\<Sum>x\<leftarrow>concat (map subdirs bs). dir_count (snd x))"
      using p(1) by (induction bs) (simp_all add: pending_count)
    have ents: "mset (concat (map here bs))
        = mset (concat (map (\<lambda>d. map (entry d) (the (rd d))) (map fst bs))) + mset (concat (map here (concat (map subdirs bs))))"
      using p(1) by (induction bs) (simp_all add: pending_here ac_simps)
    have "(\<Sum>x\<leftarrow>ns. dir_count (snd x)) = (\<Sum>x\<leftarrow>zs. dir_count (snd x))"
      using mset_sum_list [OF zs(1), of "\<lambda>x. dir_count (snd x)"] by simp
    moreover have "0 < length bs" using b(1) r(1) by auto
    moreover have "(\<Sum>x\<leftarrow>zs. dir_count (snd x)) = (\<Sum>x\<leftarrow>bs. dir_count (snd x)) + (\<Sum>x\<leftarrow>rs. dir_count (snd x))"
      unfolding b(3) by simp
    moreover have "(\<Sum>x\<leftarrow>?ns. dir_count (snd x)) = (\<Sum>x\<leftarrow>rs. dir_count (snd x))
        + (\<Sum>x\<leftarrow>concat (map subdirs bs). dir_count (snd x))" by simp
    ultimately have fuel: "(\<Sum>x\<leftarrow>?ns. dir_count (snd x)) < fuel"
      using Suc.prems(3) cnt by linarith
    have "mset dirs' = mset (map fst ?ns)" using r(4) subs b(1,2) by simp
    moreover have "\<forall>x \<in> set ?ns. pending x" using p pending_subdirs by auto
    ultimately obtain res'' where res'': "walk fuel dirs' res' = Some (Inr res'')"
      "mset res'' = mset res' + mset (concat (map here ?ns))" using Suc.IH [OF _ _ fuel] by blast
    have "mset (concat (map here ns)) = mset (concat (map here zs))"
      by (rule mset_concat_map [OF zs(1) [symmetric]])
    with res''(2) r(5) ents b have "mset res'' = mset res + mset (concat (map here ns))"
      by (simp add: ac_simps)
    with res''(1) r(3) show ?thesis by simp
  qed
qed simp

end

text \<open>A walk from a root whose entries are given by their path below it.\<close>

locale rooted_walk = directory_walk +
  fixes node :: "string list \<Rightarrow> string" and shown :: "bool \<Rightarrow> nat \<Rightarrow> nat"
  assumes join_node: "good_name name \<Longrightarrow> list_all good_name rp \<Longrightarrow> join (node rp) name = node (rp @ [name])"
    and entry_node: "good_name name \<Longrightarrow> list_all good_name rp \<Longrightarrow>
      entry (node rp) (name, b, k) = (join_with ''/'' (rp @ [name]), b, shown b k)"
begin

lemma entries_are_paths:
  "good_tree t \<Longrightarrow> list_all good_name rp \<Longrightarrow> all_entries join entry (node rp) t = tree_paths shown rp t"
proof (induction t arbitrary: rp)
  case (Node n es)
  have "map (entry (node rp)) (listing es)
      = map (\<lambda>(name, b, k). (join_with ''/'' (rp @ [name]), b, shown b k)) (listing es)"
    using Node.prems by (auto simp: listing_def entry_node)
  moreover have "map (\<lambda>x. all_entries join entry (join (node rp) (fst x)) (snd x)) es
      = map (\<lambda>x. tree_paths shown (rp @ [fst x]) (snd x)) es"
  proof (rule map_cong [OF refl])
    fix x assume x: "x \<in> set es"
    with Node.prems have "good_name (fst x)" "good_tree (snd x)" by auto
    with Node.IH [of x "snd x" "rp @ [fst x]"] x Node.prems(2)
    show "all_entries join entry (join (node rp) (fst x)) (snd x) = tree_paths shown (rp @ [fst x]) (snd x)"
      by (simp add: join_node snds.simps)
  qed
  ultimately show ?case by (simp only: all_entries.simps tree_paths.simps)
qed simp

lemma lists_tree:
  assumes "good_tree (Node n es)" "shows_tree rd join (node []) (Node n es)" "dir_count (Node n es) < fuel"
  shows "\<exists>res. walk fuel [node []] [] = Some (Inr res) \<and> mset res = mset (tree_paths shown [] (Node n es))"
proof -
  have e: "concat (map here [(node [], Node n es)]) = tree_paths shown [] (Node n es)"
    using entries_are_paths [OF assms(1), of "[]"] by (simp add: here_def del: all_entries.simps)
  show ?thesis
    using all_listed [of "[(node [], Node n es)]" "[node []]" fuel "[]"] assms unfolding e
    by (simp add: pending_def)
qed

end

section \<open>The remote walk\<close>

definition remote_node :: "string \<Rightarrow> string list \<Rightarrow> string" where
  "remote_node base rp = (if rp = [] then base else trim_end_slashes base @ concat (map ((#) CHR ''/'') rp))"

lemma trim_end_slashes_append [simp]: "last s \<noteq> CHR ''/'' \<Longrightarrow> s \<noteq> [] \<Longrightarrow> trim_end_slashes (p @ s) = p @ s"
  by (cases s rule: rev_cases) (simp_all add: trim_end_slashes_def trim_start_slashes_def)

lemma good_last: "good_name n \<Longrightarrow> last n \<noteq> CHR ''/''"
  using last_in_set [of n] by (auto simp: good_name_def simp del: last_in_set)

lemma remote_join_node:
  assumes "good_name name" "list_all good_name rp"
  shows "remote_join (remote_node base rp) name = remote_node base (rp @ [name])"
proof (cases rp rule: rev_cases)
  case (snoc ys y)
  with assms(2) have "good_name y" by simp
  then have "last (''/'' @ y) \<noteq> CHR ''/''" using good_last by (auto simp: good_name_def)
  with snoc trim_end_slashes_append [of "''/'' @ y" "trim_end_slashes base @ concat (map ((#) CHR ''/'') ys)"]
  show ?thesis by (simp add: remote_join_def remote_node_def)
qed (simp add: remote_join_def remote_node_def)

lemma concat_slashes: "xs \<noteq> [] \<Longrightarrow> concat (map ((#) CHR ''/'') xs) = ''/'' @ join_with ''/'' xs"
proof (induction xs)
  case (Cons x xs)
  then show ?case by (cases xs) auto
qed simp

lemma join_with_hd:
  "xs \<noteq> [] \<Longrightarrow> hd xs \<noteq> [] \<Longrightarrow> join_with sep xs \<noteq> [] \<and> hd (join_with sep xs) = hd (hd xs)"
  by (cases xs; cases "tl xs") auto

lemma remote_entry_node:
  assumes "good_name name" "list_all good_name rp"
  shows "remote_entry base (remote_node base rp) (name, b, k) = (join_with ''/'' (rp @ [name]), b, k)"
proof -
  have "remote_join (remote_node base rp) name = trim_end_slashes base @ ''/'' @ join_with ''/'' (rp @ [name])"
    using remote_join_node [OF assms] concat_slashes [of "rp @ [name]"] by (simp add: remote_node_def)
  moreover have "good_name (hd (rp @ [name]))" using assms by (cases rp) auto
  then have "hd (join_with ''/'' (rp @ [name])) \<noteq> CHR ''/'' \<and> join_with ''/'' (rp @ [name]) \<noteq> []"
    using join_with_hd [of "rp @ [name]" "''/''"] hd_in_set [of "hd (rp @ [name])"]
    by (auto simp: good_name_def simp del: hd_in_set)
  ultimately show ?thesis
    by (cases "join_with ''/'' (rp @ [name])")
       (auto simp: remote_entry_def strip_prefix_Some_iff [THEN iffD2] trim_start_slashes_def)
qed

lemma read_batch_ok:
  assumes "\<forall>d \<in> set ds. \<exists>es. rd d = Some es \<and> list_all proper_entry es"
  shows "read_batch rd base ds = Inr (concat (map (\<lambda>d. map (remote_entry base d) (the (rd d))) ds),
    concat (map (\<lambda>d. map (remote_join d \<circ> fst) (filter (fst \<circ> snd) (the (rd d)))) ds))"
  using assms
proof (induction ds)
  case (Cons d ds)
  then obtain es where es: "rd d = Some es" "list_all proper_entry es" by auto
  then have "filter proper_entry es = es" by (simp add: list_all_iff)
  with es Cons show ?case by (simp add: Let_def comp_def split_beta)
qed simp

interpretation remote: rooted_walk "\<lambda>n. walk_remote_dir n rd base" remote_join "remote_entry base" rd
    "remote_node base" "\<lambda>b k. k" for rd base
proof
  fix n dirs and res :: "walk_entry list"
  assume "dirs \<noteq> []" and d: "\<forall>d \<in> set dirs. \<exists>es. rd d = Some es \<and> list_all proper_entry es"
  let ?b = "take SFTP_SCAN_CONCURRENCY dirs" and ?r = "drop SFTP_SCAN_CONCURRENCY dirs"
  have "\<forall>d \<in> set ?b. \<exists>es. rd d = Some es \<and> list_all proper_entry es" using d in_set_takeD by fast
  note b = read_batch_ok [OF this, of base]
  show "\<exists>batch rest dirs' res'. batch \<noteq> [] \<and> mset dirs = mset batch + mset rest
        \<and> walk_remote_dir (Suc n) rd base dirs res = walk_remote_dir n rd base dirs' res'
        \<and> mset dirs' = mset rest
            + mset (concat (map (\<lambda>d. map (remote_join d \<circ> fst) (filter (fst \<circ> snd) (the (rd d)))) batch))
        \<and> mset res' = mset res + mset (concat (map (\<lambda>d. map (remote_entry base d) (the (rd d))) batch))"
    by (rule exI [of _ ?b], rule exI [of _ ?r])
       (use \<open>dirs \<noteq> []\<close> b in \<open>auto simp: SFTP_SCAN_CONCURRENCY_def mset_append [symmetric] simp del: mset_append\<close>)
qed (simp_all add: remote_join_node remote_entry_node)

section \<open>The local walk\<close>

text \<open>An absolute path from its components; those that are no names are left out.\<close>

definition local_root :: "string list \<Rightarrow> string" where
  "local_root cs = ''/'' @ join_with ''/'' (filter good_name cs)"

definition local_node :: "string list \<Rightarrow> string list \<Rightarrow> string" where
  "local_node cs rp = local_root (cs @ rp)"

lemma join_with_snoc: "join_with sep (xs @ [x]) = (if xs = [] then x else join_with sep xs @ sep @ x)"
proof (induction xs)
  case (Cons y ys)
  then show ?case by (cases ys) auto
qed simp

lemma ends_with_char: "ends_with [c] s \<longleftrightarrow> s \<noteq> [] \<and> last s = c"
proof (cases s rule: rev_cases)
  case (snoc ys y)
  then show ?thesis by (auto simp: ends_with_def strip_suffix_def)
qed (simp add: ends_with_def strip_suffix_def)

lemma join_with_last:
  "xs \<noteq> [] \<Longrightarrow> last xs \<noteq> [] \<Longrightarrow> join_with sep xs \<noteq> [] \<and> last (join_with sep xs) = last (last xs)"
  by (cases xs rule: rev_cases) (auto simp: join_with_snoc)

lemma local_join_node:
  assumes "good_name name" "list_all good_name rp"
  shows "path_join (local_node cs rp) name = local_node cs (rp @ [name])"
proof -
  let ?gs = "filter good_name (cs @ rp)"
  have n: "local_node cs (rp @ [name]) = ''/'' @ join_with ''/'' (?gs @ [name])"
    using assms(1) by (simp add: local_node_def local_root_def)
  show ?thesis
  proof (cases "?gs = []")
    case True
    with n show ?thesis by (simp add: path_join_def local_node_def local_root_def ends_with_char)
  next
    case False
    then have g: "good_name (last ?gs)" using last_in_set [OF False] by auto
    with False join_with_last [of ?gs "''/''"] good_last
    have "last (join_with ''/'' ?gs) \<noteq> CHR ''/''" "join_with ''/'' ?gs \<noteq> []" by (auto simp: good_name_def)
    moreover have r: "local_node cs rp = ''/'' @ join_with ''/'' ?gs" by (simp only: local_node_def local_root_def)
    ultimately have "\<not> ends_with ''/'' (local_node cs rp)" unfolding r ends_with_char by simp
    moreover have "join_with ''/'' (?gs @ [name]) = join_with ''/'' ?gs @ ''/'' @ name"
      using False by (simp only: join_with_snoc if_False)
    ultimately show ?thesis unfolding path_join_def n by (simp only: r if_False append_assoc)
  qed
qed

lemma split_on_append: "d \<notin> set w \<Longrightarrow> split_on d (w @ d # s) = w # split_on d s"
  by (induction w) (auto simp: split_on_def)

lemma split_on_word: "d \<notin> set w \<Longrightarrow> split_on d w = [w]"
  by (induction w) (auto simp: split_on_def)

lemma split_on_join: "xs \<noteq> [] \<Longrightarrow> \<forall>x \<in> set xs. d \<notin> set x \<Longrightarrow> split_on d (join_with [d] xs) = xs"
proof (induction xs)
  case (Cons x xs)
  then show ?case by (cases xs) (auto simp: split_on_append split_on_word)
qed simp

lemma components_of_root: "path_components (local_root cs) = filter good_name cs"
proof -
  let ?gs = "filter good_name cs"
  have s: "split_on CHR ''/'' (local_root cs) = [] # split_on CHR ''/'' (join_with ''/'' ?gs)"
    using split_on_append [of "CHR ''/''" "[]"] by (simp add: local_root_def)
  have keep: "filter (\<lambda>c. c \<noteq> [] \<and> c \<noteq> ''.'') ?gs = ?gs"
    by (rule filter_True) (auto simp: good_name_def)
  show ?thesis
  proof (cases "?gs = []")
    case False
    then have "split_on CHR ''/'' (join_with ''/'' ?gs) = ?gs"
      by (intro split_on_join) (auto simp: good_name_def)
    with s keep show ?thesis by (simp only: path_components_def filter.simps) simp
  qed (use s in \<open>simp add: path_components_def split_on_def\<close>)
qed

lemma local_entry_node:
  assumes "good_name name" "list_all good_name rp"
  shows "local_entry (local_root cs) (local_node cs rp) (name, b, k)
    = (join_with ''/'' (rp @ [name]), b, if b then 0 else k)"
proof -
  have "path_components (local_node cs (rp @ [name])) = filter good_name cs @ (rp @ [name])"
    using assms by (simp add: local_node_def components_of_root list_all_iff)
  then show ?thesis
    by (simp add: local_entry_def local_join_node [OF assms] path_strip_prefix_def Let_def components_of_root)
qed

lemma mset_last: "dirs \<noteq> [] \<Longrightarrow> mset dirs = add_mset (last dirs) (mset (butlast dirs))"
  by (cases dirs rule: rev_cases) simp_all

interpretation local: rooted_walk "\<lambda>n. walk_local_dir n rd (local_root cs)" path_join
    "local_entry (local_root cs)" rd "local_node cs" "\<lambda>b k. if b then 0 else k" for rd cs
proof
  fix n dirs and res :: "walk_entry list"
  assume d: "dirs \<noteq> []" "\<forall>d \<in> set dirs. \<exists>es. rd d = Some es \<and> list_all proper_entry es"
  then obtain es where "rd (last dirs) = Some es" by (meson last_in_set)
  then show "\<exists>batch rest dirs' res'. batch \<noteq> [] \<and> mset dirs = mset batch + mset rest
        \<and> walk_local_dir (Suc n) rd (local_root cs) dirs res = walk_local_dir n rd (local_root cs) dirs' res'
        \<and> mset dirs' = mset rest
            + mset (concat (map (\<lambda>d. map (path_join d \<circ> fst) (filter (fst \<circ> snd) (the (rd d)))) batch))
        \<and> mset res' = mset res
            + mset (concat (map (\<lambda>d. map (local_entry (local_root cs) d) (the (rd d))) batch))"
    using d(1)
    by - (rule exI [of _ "[last dirs]"], rule exI [of _ "butlast dirs"],
        rule exI [of _ "butlast dirs @ map (\<lambda>(name, _). path_join (last dirs) name) (filter (fst \<circ> snd) es)"],
        rule exI [of _ "res @ map (local_entry (local_root cs) (last dirs)) es"],
        auto simp: Let_def comp_def split_beta mset_last intro: image_mset_cong)
qed (simp_all add: local_join_node local_entry_node)

section \<open>Properties\<close>

text \<open>C4:
  Both walks list every file and directory of a tree exactly once, by its path below the root,
  and end after at most as many rounds as the tree has directories, and one more; whatever order
  the two take, they list the same.\<close>

theorem walks_list_the_tree:
  assumes "good_tree (Node n es)" "dir_count (Node n es) < fuel"
  shows "(shows_tree rd remote_join base (Node n es) \<longrightarrow>
      (\<exists>res. walk_remote_dir fuel rd base [base] [] = Some (Inr res)
        \<and> mset res = mset (tree_paths (\<lambda>b k. k) [] (Node n es))))
    \<and> (shows_tree rd path_join (local_root cs) (Node n es) \<longrightarrow>
      (\<exists>res. walk_local_dir fuel rd (local_root cs) [local_root cs] [] = Some (Inr res)
        \<and> mset res = mset (tree_paths (\<lambda>b k. if b then 0 else k) [] (Node n es))))"
  using remote.lists_tree [OF assms(1) _ assms(2), of rd base]
    local.lists_tree [OF assms(1) _ assms(2), of rd cs]
  by (simp add: remote_node_def local_node_def)

theorem walks_list_the_tree_witness:
  "\<exists>res. walk_remote_dir 3
      (\<lambda>p. if p = ''/t'' then Some [(''a'', False, 5), (''d'', True, 9)]
           else if p = ''/t/d'' then Some [(''b'', False, 7)] else None) ''/t'' [''/t''] [] = Some (Inr res)
    \<and> mset res = {#(''a'', False, 5), (''d'', True, 9), (''d/b'', False, 7)#}"
  using walks_list_the_tree [of 1 "[(''a'', Leaf 5), (''d'', Node 9 [(''b'', Leaf 7)])]" 3
      "\<lambda>p. if p = ''/t'' then Some [(''a'', False, 5), (''d'', True, 9)]
           else if p = ''/t/d'' then Some [(''b'', False, 7)] else None" "''/t''" "[]"]
  by (simp add: good_name_def listing_def remote_join_def trim_end_slashes_def trim_start_slashes_def)

end
