(* ===== verification/Storage.thy ===== *)
theory Storage
  imports Dir_Walk File_Attrs
begin

text \<open>
  The storage backends of the file browser (\<open>storage/mod.rs\<close>, \<open>storage/local_backend.rs\<close>,
  \<open>storage/sftp_backend.rs\<close>): listings, changing the directory, recursive deletion.  The disk
  and the server are arguments; names and paths are texts.
\<close>

section \<open>Entries\<close>

record file_entry =
  fe_name :: string
  fe_path :: string
  fe_is_dir :: bool
  fe_size :: nat
  fe_modified :: "int option"
  fe_permissions :: "string option"

text \<open>\<open>format_mode\<close> and \<open>format_sftp_permissions\<close>, which are the same loop over nine flags.\<close>

definition mode_flags :: "(u32 \<times> char) list" where
  "mode_flags =
     [(0x100, CHR ''r''), (0x80, CHR ''w''), (0x40, CHR ''x''), (0x20, CHR ''r''), (0x10, CHR ''w''),
      (0x8, CHR ''x''), (0x4, CHR ''r''), (0x2, CHR ''w''), (0x1, CHR ''x'')]"

definition format_mode :: "u32 \<Rightarrow> string" where
  "format_mode m = map (\<lambda>(bit, ch). if m AND bit \<noteq> 0 then ch else CHR ''-'') mode_flags"

section \<open>The remote backend\<close>

definition ensure_absolute :: "string \<Rightarrow> string" where
  "ensure_absolute path = (if starts_with ''/'' path then path else ''/'' @ path)"

type_synonym attr_listing = "(string \<times> file_attributes) list"

definition sftp_entry :: "string \<Rightarrow> string \<times> file_attributes \<Rightarrow> file_entry" where
  "sftp_entry path e =
     \<lparr>fe_name = fst e, fe_path = trim_end_slashes path @ ''/'' @ fst e, fe_is_dir = is_dir (snd e),
      fe_size = unat (unwrap_or (fa_size (snd e)) 0),
      fe_modified = map_option uint (fa_mtime (snd e)),
      fe_permissions = map_option format_mode (fa_permissions (snd e))\<rparr>"

definition sftp_list :: "string \<Rightarrow> attr_listing option \<Rightarrow> string + file_entry list" where
  "sftp_list path answer =
     (case answer of
        None \<Rightarrow> Inl (''Failed to list: '' @ path)
      | Some es \<Rightarrow>
          Inr (map (sftp_entry path) (filter (\<lambda>e. fst e \<noteq> ''.'' \<and> fst e \<noteq> ''..'') es)))"

definition sftp_cd :: "(string \<Rightarrow> string option) \<Rightarrow> string \<Rightarrow> string \<Rightarrow> string + string" where
  "sftp_cd canon path cwd =
     (let new_path =
        (if path = ''..'' then unwrap_or (path_parent cwd) ''/''
         else if starts_with ''/'' path then path
         else trim_end_slashes cwd @ ''/'' @ path)
      in case canon new_path of
           None \<Rightarrow> Inl (''Path not found: '' @ new_path)
         | Some c \<Rightarrow> Inr c)"

text \<open>
  \<open>rmdir_recursive\<close>.  The state \<open>'s\<close> is that of the server; \<open>rd\<close> reads a directory, \<open>op\<close>
  carries out one removal.  \<open>None\<close> means that the directories are nested deeper than the fuel.
\<close>

datatype rm_op = RmFile string | RmDir string

type_synonym 's rm_server = "rm_op \<Rightarrow> 's \<Rightarrow> bool \<times> 's"

function rmdir_recursive ::
    "nat \<Rightarrow> (string \<Rightarrow> 's \<Rightarrow> attr_listing option) \<Rightarrow> 's rm_server \<Rightarrow> string \<Rightarrow> 's
       \<Rightarrow> ((string + unit) \<times> 's) option"
  and remove_entries ::
    "nat \<Rightarrow> (string \<Rightarrow> 's \<Rightarrow> attr_listing option) \<Rightarrow> 's rm_server \<Rightarrow> string \<Rightarrow> attr_listing \<Rightarrow> 's
       \<Rightarrow> ((string + unit) \<times> 's) option" where
  "rmdir_recursive 0 rd op path s = None"
| "rmdir_recursive (Suc n) rd op path s =
     (case rd path s of
        None \<Rightarrow> Some (Inl (''Failed to list for delete: '' @ path), s)
      | Some es \<Rightarrow>
          (case remove_entries n rd op path es s of
             Some (Inr _, s') \<Rightarrow>
               (case op (RmDir path) s' of
                  (True, s'') \<Rightarrow> Some (Inr (), s'')
                | (False, s'') \<Rightarrow> Some (Inl (''Failed to remove directory: '' @ path), s''))
           | r \<Rightarrow> r))"
| "remove_entries n rd op path [] s = Some (Inr (), s)"
| "remove_entries n rd op path (e # es) s =
     (if fst e = ''.'' \<or> fst e = ''..'' then remove_entries n rd op path es s
      else
        let full = remote_join path (fst e) in
        case (if is_dir (snd e) then rmdir_recursive n rd op full s
              else case op (RmFile full) s of
                  (True, s') \<Rightarrow> Some (Inr (), s')
                | (False, s') \<Rightarrow> Some (Inl (''Failed to delete: '' @ full), s')) of
          Some (Inr _, s') \<Rightarrow> remove_entries n rd op path es s'
        | r \<Rightarrow> r)"
  by pat_completeness auto
termination
  by (relation "measures [\<lambda>x. case x of Inl (n, _) \<Rightarrow> 2 * n | Inr (n, _) \<Rightarrow> Suc (2 * n),
      \<lambda>x. case x of Inl _ \<Rightarrow> 0 | Inr (n, rd, op, path, es, s) \<Rightarrow> length es]") auto

section \<open>The local backend\<close>

definition local_cd ::
  "(string \<Rightarrow> string option) \<Rightarrow> (string \<Rightarrow> bool) \<Rightarrow> string \<Rightarrow> string \<Rightarrow> string + string" where
  "local_cd canon dirs path cwd =
     (let new_dir =
        (if path = ''..'' then unwrap_or (path_parent cwd) cwd
         else if starts_with ''/'' path then path
         else path_join cwd path)
      in case canon new_dir of
           None \<Rightarrow> Inl (''Invalid path: '' @ new_dir)
         | Some c \<Rightarrow> if dirs c then Inr c else Inl (''Not a directory: '' @ c))"

section \<open>The common interface\<close>

text \<open>
  What the browser calls of \<open>Backend\<close>.  A backend works on a state \<open>'s\<close>: the disk, or the
  server.
\<close>

record 's backend_ops =
  bo_list :: "string \<Rightarrow> 's \<Rightarrow> string + file_entry list"
  bo_cd :: "string \<Rightarrow> string \<Rightarrow> 's \<Rightarrow> string + string"
  bo_delete :: "string \<Rightarrow> 's \<Rightarrow> (string + unit) \<times> 's"
  bo_rmdir :: "string \<Rightarrow> 's \<Rightarrow> (string + unit) \<times> 's"
  bo_mkdir :: "string \<Rightarrow> 's \<Rightarrow> (string + unit) \<times> 's"
  bo_rename :: "string \<Rightarrow> string \<Rightarrow> 's \<Rightarrow> (string + unit) \<times> 's"

text \<open>The calls of the operating system, and of the SFTP session.\<close>

record 's disk =
  dk_canonicalize :: "string \<Rightarrow> 's \<Rightarrow> string option"
  dk_is_dir :: "string \<Rightarrow> 's \<Rightarrow> bool"
  dk_entries :: "string \<Rightarrow> 's \<Rightarrow> (string \<times> bool \<times> nat \<times> int option \<times> u32) list option"
  dk_remove_file :: "string \<Rightarrow> 's \<Rightarrow> bool \<times> 's"
  dk_remove_dir_all :: "string \<Rightarrow> 's \<Rightarrow> bool \<times> 's"
  dk_create_dir_all :: "string \<Rightarrow> 's \<Rightarrow> bool \<times> 's"
  dk_rename :: "string \<Rightarrow> string \<Rightarrow> 's \<Rightarrow> bool \<times> 's"

record 's sftp_calls =
  sc_canonicalize :: "string \<Rightarrow> 's \<Rightarrow> string option"
  sc_read_dir :: "string \<Rightarrow> 's \<Rightarrow> attr_listing option"
  sc_remove :: "'s rm_server"
  sc_create_dir :: "string \<Rightarrow> 's \<Rightarrow> bool \<times> 's"
  sc_rename :: "string \<Rightarrow> string \<Rightarrow> 's \<Rightarrow> bool \<times> 's"

definition with_context :: "string \<Rightarrow> bool \<times> 's \<Rightarrow> (string + unit) \<times> 's" where
  "with_context msg r = (if fst r then Inr () else Inl msg, snd r)"

definition local_list ::
  "string \<Rightarrow> (string \<times> bool \<times> nat \<times> int option \<times> u32) list option \<Rightarrow> string + file_entry list" where
  "local_list path answer =
     (case answer of
        None \<Rightarrow> Inl (''Failed to read directory: '' @ path)
      | Some es \<Rightarrow>
          Inr (map (\<lambda>(name, isdir, n, modified, mode).
            \<lparr>fe_name = name, fe_path = path_join path name, fe_is_dir = isdir, fe_size = n,
             fe_modified = modified, fe_permissions = Some (format_mode mode)\<rparr>) es))"

definition local_ops :: "'s disk \<Rightarrow> 's backend_ops" where
  "local_ops d =
     \<lparr>bo_list = (\<lambda>path s. local_list path (dk_entries d path s)),
      bo_cd = (\<lambda>path cwd s. local_cd (\<lambda>p. dk_canonicalize d p s) (\<lambda>p. dk_is_dir d p s) path cwd),
      bo_delete = (\<lambda>path s. with_context (''Failed to delete: '' @ path) (dk_remove_file d path s)),
      bo_rmdir = (\<lambda>path s. with_context (''Failed to remove directory: '' @ path) (dk_remove_dir_all d path s)),
      bo_mkdir = (\<lambda>path s. with_context (''Failed to create directory: '' @ path) (dk_create_dir_all d path s)),
      bo_rename = (\<lambda>from to s. with_context (''Failed to rename '' @ from @ '' to '' @ to) (dk_rename d from to s))\<rparr>"

text \<open>The argument \<open>depth\<close> bounds how deep the directories of the server are nested.\<close>

definition sftp_ops :: "nat \<Rightarrow> 's sftp_calls \<Rightarrow> 's backend_ops" where
  "sftp_ops depth c =
     \<lparr>bo_list = (\<lambda>path s. sftp_list path (sc_read_dir c path s)),
      bo_cd = (\<lambda>path cwd s. sftp_cd (\<lambda>p. sc_canonicalize c p s) path cwd),
      bo_delete = (\<lambda>path s. with_context (''Failed to delete: '' @ path) (sc_remove c (RmFile path) s)),
      bo_rmdir = (\<lambda>path s. unwrap_or (rmdir_recursive depth (sc_read_dir c) (sc_remove c) path s) (Inl [], s)),
      bo_mkdir = (\<lambda>path s. with_context (''Failed to create directory: '' @ path) (sc_create_dir c path s)),
      bo_rename = (\<lambda>from to s. with_context (''Failed to rename '' @ from @ '' to '' @ to) (sc_rename c from to s))\<rparr>"

section \<open>Permissions\<close>

lemma and_power_eq: "(m :: u32) AND 2 ^ k = 2 ^ k \<longleftrightarrow> bit m k" if "k < 32"
proof -
  have "m AND 2 ^ k = (if bit m k then 2 ^ k else 0)"
    by (rule bit_word_eqI) (auto simp: bit_and_iff bit_exp_iff)
  moreover have "(2 :: u32) ^ k \<noteq> 0"
    using that by (simp add: exp_eq_zero_iff)
  ultimately show ?thesis by auto
qed

lemma contains_perm: "k < 9 \<Longrightarrow> contains (from_bits_truncate perm_all m) (2 ^ k) \<longleftrightarrow> m AND 2 ^ k \<noteq> 0"
proof -
  assume k: "k < 9"
  have p: "perm_all = mask 9" by (simp add: perm_all_def mask_eq_exp_minus_1)
  have "bit (from_bits_truncate perm_all m) k = bit m k"
    using k unfolding from_bits_truncate_def p bit_and_iff bit_mask_iff by simp
  with k show ?thesis
    unfolding contains_def and_exp_eq_0_iff_not_bit by (simp add: and_power_eq)
qed

lemma format_mode_permissions: "format_mode m = show_permissions (permissions_of_bits m)"
  using contains_perm [of 8 m] contains_perm [of 7 m] contains_perm [of 6 m] contains_perm [of 5 m]
    contains_perm [of 4 m] contains_perm [of 3 m] contains_perm [of 2 m] contains_perm [of 1 m]
    contains_perm [of 0 m]
  unfolding format_mode_def mode_flags_def show_permissions_def permissions_of_bits_def permissions_of_flags_def
  by (simp add: perm_char_def)

section \<open>What is removed\<close>

text \<open>A server whose directories stay as read and that records the removals it is asked for.\<close>

definition recorder :: "(rm_op \<Rightarrow> bool) \<Rightarrow> rm_op list rm_server" where
  "recorder ok x l = (ok x, l @ [x])"

definition attr_reader :: "(string \<Rightarrow> attr_listing option) \<Rightarrow> dir_reader" where
  "attr_reader rd p = map_option (map (\<lambda>(n, a). (n, is_dir a, unat (unwrap_or (fa_size a) 0)))) (rd p)"

text \<open>The removals for a tree: what a directory holds comes before the directory.\<close>

fun removal :: "string \<Rightarrow> dtree \<Rightarrow> rm_op list" where
  "removal p (Leaf n) = [RmFile p]"
| "removal p (Node n es) = concat (map (\<lambda>x. removal (remote_join p (fst x)) (snd x)) es) @ [RmDir p]"

fun depth :: "dtree \<Rightarrow> nat" where
  "depth (Leaf n) = 0"
| "depth (Node n es) = Suc (Max (insert 0 ((\<lambda>x. depth (snd x)) ` set es)))"

definition removed :: "(rm_op \<Rightarrow> bool) \<Rightarrow> rm_op list \<Rightarrow> rm_op list \<Rightarrow> ((string + unit) \<times> rm_op list) option \<Rightarrow> bool" where
  "removed ok ops l r \<longleftrightarrow>
     (if list_all ok ops then r = Some (Inr (), l @ ops)
      else \<exists>e. r = Some (Inl e, l @ takeWhile ok ops @ [hd (dropWhile ok ops)]))"

lemma removed_append_ok:
  assumes "list_all ok a" "removed ok b (l @ a) r"
  shows "removed ok (a @ b) l r"
proof -
  have "takeWhile ok (a @ b) = a @ takeWhile ok b" "dropWhile ok (a @ b) = dropWhile ok b"
    "list_all ok (a @ b) = list_all ok b"
    using assms(1) by (induction a) auto
  with assms(2) show ?thesis unfolding removed_def by (cases "list_all ok b") auto
qed

lemma removed_append_fails:
  assumes "\<not> list_all ok a" "removed ok a l r"
  shows "removed ok (a @ b) l r"
proof -
  have "takeWhile ok (a @ b) = takeWhile ok a" "dropWhile ok (a @ b) = dropWhile ok a @ b"
    "dropWhile ok a \<noteq> []" "\<not> list_all ok (a @ b)"
    using assms(1) by (induction a) auto
  with assms show ?thesis unfolding removed_def by simp
qed

lemma removed_single:
  "removed ok [x] l (Some (if ok x then (Inr (), l @ [x]) else (Inl e, l @ [x])))"
  by (simp add: removed_def)

lemma depth_child: "x \<in> set es \<Longrightarrow> depth (Node n es) \<le> Suc k \<Longrightarrow> depth (snd x) \<le> k"
  by (auto simp: Max_le_iff)

lemma remove_entries_removes:
  assumes "map (\<lambda>(n, a). (n, is_dir a, unat (unwrap_or (fa_size a) 0))) as = listing es"
    and "\<forall>x \<in> set es. good_name (fst x)"
    and "\<And>x l. x \<in> set es \<Longrightarrow> node_is_dir (snd x) \<Longrightarrow>
      removed ok (removal (remote_join p (fst x)) (snd x)) l
        (rmdir_recursive n (\<lambda>p l. rd p) (recorder ok) (remote_join p (fst x)) l)"
  shows "removed ok (concat (map (\<lambda>x. removal (remote_join p (fst x)) (snd x)) es)) l
    (remove_entries n (\<lambda>p l. rd p) (recorder ok) p as l)"
  using assms
proof (induction es arbitrary: as l)
  case Nil
  then show ?case by (simp add: listing_def removed_def)
next
  case (Cons x es)
  obtain name t where x: "x = (name, t)" by (cases x)
  from Cons.prems(1) x obtain a as' where as: "as = (name, a) # as'" "is_dir a = node_is_dir t"
    "map (\<lambda>(n, a). (n, is_dir a, unat (unwrap_or (fa_size a) 0))) as' = listing es"
    by (cases as) (auto simp: listing_def)
  let ?full = "remote_join p name" and ?rm = "recorder ok"
  define first where "first = (if is_dir a then rmdir_recursive n (\<lambda>p l. rd p) ?rm ?full l
              else case ?rm (RmFile ?full) l of
                  (True, s') \<Rightarrow> Some (Inr (), s')
                | (False, s') \<Rightarrow> Some (Inl (''Failed to delete: '' @ ?full), s'))"
  have f: "removed ok (removal ?full t) l first"
  proof (cases "node_is_dir t")
    case True
    with Cons.prems(3) [of x l] x as(2) show ?thesis by (simp add: first_def)
  next
    case False
    then obtain k where "t = Leaf k" by (cases t) auto
    with False as(2) show ?thesis by (simp add: first_def recorder_def removed_def)
  qed
  have "good_name name" using Cons.prems(2) x by simp
  then have step: "remove_entries n (\<lambda>p l. rd p) ?rm p as l =
      (case first of Some (Inr _, s') \<Rightarrow> remove_entries n (\<lambda>p l. rd p) ?rm p as' s' | r \<Rightarrow> r)"
    unfolding as(1) first_def by (simp add: good_name_def Let_def)
  show ?case
  proof (cases "list_all ok (removal ?full t)")
    case True
    with f have "first = Some (Inr (), l @ removal ?full t)" by (simp add: removed_def)
    moreover have "removed ok (concat (map (\<lambda>x. removal (remote_join p (fst x)) (snd x)) es))
        (l @ removal ?full t) (remove_entries n (\<lambda>p l. rd p) ?rm p as' (l @ removal ?full t))"
      using Cons.IH [OF as(3)] Cons.prems(2,3) by simp
    ultimately show ?thesis using removed_append_ok [OF True] step x by simp
  next
    case False
    with f obtain e q where "first = Some (Inl e, q)" by (auto simp: removed_def)
    with step f removed_append_fails [OF False] x show ?thesis by simp
  qed
qed

lemma rmdir_removes:
  assumes "good_tree t" "node_is_dir t" "shows_tree (attr_reader rd) remote_join p t" "depth t \<le> n"
  shows "removed ok (removal p t) l (rmdir_recursive n (\<lambda>p l. rd p) (recorder ok) p l)"
  using assms
proof (induction n arbitrary: p t l)
  case 0
  then show ?case by (cases t) auto
next
  case (Suc n)
  then obtain k es where t: "t = Node k es" by (cases t) auto
  with Suc.prems(3) obtain as where as: "rd p = Some as"
    "map (\<lambda>(n, a). (n, is_dir a, unat (unwrap_or (fa_size a) 0))) as = listing es"
    by (auto simp: attr_reader_def)
  let ?ops = "concat (map (\<lambda>x. removal (remote_join p (fst x)) (snd x)) es)"
  have r: "removed ok ?ops l (remove_entries n (\<lambda>p l. rd p) (recorder ok) p as l)"
  proof (rule remove_entries_removes [OF as(2)])
    fix x l assume x: "x \<in> set es" "node_is_dir (snd x)"
    have "depth (snd x) \<le> n" using depth_child [OF x(1)] Suc.prems(4) t by blast
    with Suc x t show "removed ok (removal (remote_join p (fst x)) (snd x)) l
        (rmdir_recursive n (\<lambda>p l. rd p) (recorder ok) (remote_join p (fst x)) l)" by auto
  qed (use Suc.prems(1) t in auto)
  show ?case
  proof (cases "list_all ok ?ops")
    case True
    with r have e: "remove_entries n (\<lambda>p l. rd p) (recorder ok) p as l = Some (Inr (), l @ ?ops)"
      by (simp add: removed_def)
    have "recorder ok (RmDir p) s = (ok (RmDir p), s @ [RmDir p])" for s by (simp add: recorder_def)
    with as(1) e have run: "rmdir_recursive (Suc n) (\<lambda>p l. rd p) (recorder ok) p l =
        Some (if ok (RmDir p) then (Inr (), (l @ ?ops) @ [RmDir p])
              else (Inl (''Failed to remove directory: '' @ p), (l @ ?ops) @ [RmDir p]))"
      by simp
    show ?thesis unfolding t removal.simps run by (rule removed_append_ok [OF True removed_single])
  next
    case False
    with r obtain e q where "remove_entries n (\<lambda>p l. rd p) (recorder ok) p as l = Some (Inl e, q)"
      by (auto simp: removed_def)
    with r as(1) t removed_append_fails [OF False] show ?thesis by simp
  qed
qed

section \<open>Properties\<close>

text \<open>C8:
  Deleting a remote directory removes exactly the files and directories of its tree, each
  directory after all it holds; a removal that fails is the last one made, so what is left is
  still a tree.\<close>

theorem rmdir_deletes_exactly_the_tree:
  assumes "good_tree (Node k es)" "shows_tree (attr_reader rd) remote_join path (Node k es)"
    and "depth (Node k es) \<le> n"
  shows "let ops = removal path (Node k es); r = rmdir_recursive n (\<lambda>p l. rd p) (recorder ok) path []
    in (list_all ok ops \<longrightarrow> r = Some (Inr (), ops))
     \<and> (\<not> list_all ok ops \<longrightarrow> (\<exists>e. r = Some (Inl e, takeWhile ok ops @ [hd (dropWhile ok ops)])))"
  using rmdir_removes [OF assms(1) _ assms(2,3), of ok "[]"]
  unfolding Let_def removed_def append_Nil by (simp del: removal.simps split: if_splits)

theorem rmdir_deletes_exactly_the_tree_witness:
  "rmdir_recursive 2
     (\<lambda>p l. if p = ''/t'' then Some [(''a'', empty_attrs), (''d'', default_attrs)]
           else if p = ''/t/d'' then Some [(''b'', empty_attrs)] else None)
     (recorder (\<lambda>_. True)) ''/t'' []
   = Some (Inr (), [RmFile ''/t/a'', RmFile ''/t/d/b'', RmDir ''/t/d'', RmDir ''/t''])"
proof -
  have m: "is_dir default_attrs" "\<not> is_dir empty_attrs"
    using is_dir_of_device_witness by (simp_all add: empty_attrs_def has_mode_def)
  have z: "fa_size empty_attrs = None" "unat (unwrap_or (fa_size default_attrs) 0) = 0"
    by (simp_all add: empty_attrs_def default_attrs_def)
  show ?thesis
    using rmdir_deletes_exactly_the_tree [of 0 "[(''a'', Leaf 0), (''d'', Node 0 [(''b'', Leaf 0)])]"
      "\<lambda>p. if p = ''/t'' then Some [(''a'', empty_attrs), (''d'', default_attrs)]
           else if p = ''/t/d'' then Some [(''b'', empty_attrs)] else None" "''/t''" 2 "\<lambda>_. True"]
    by (simp add: good_name_def listing_def attr_reader_def m z remote_join_def trim_end_slashes_def
        trim_start_slashes_def)
qed

text \<open>
  The directory bit is also set in the mode of sockets and block devices, so they are read as
  directories: one of them makes the deletion of its directory fail.
\<close>

lemma socket_blocks_deletion:
  assumes "rd path s = Some [(name, a\<lparr>fa_permissions := Some MODE_SOCK\<rparr>)]" "good_name name"
    and "rd (remote_join path name) s = None"
  shows "rmdir_recursive (Suc (Suc n)) rd op path s
    = Some (Inl (''Failed to list for delete: '' @ remote_join path name), s)"
proof -
  have "is_dir (a\<lparr>fa_permissions := Some MODE_SOCK\<rparr>)"
    by (simp add: has_mode_def contains_def from_bits_truncate_def mode_all_eq MODE_SOCK_def MODE_DIR_def)
  with assms show ?thesis by (simp add: Let_def good_name_def)
qed

text \<open>A remote backend can change into a file, which a local one refuses.\<close>

lemma sftp_cd_accepts_files:
  "sftp_cd (\<lambda>p. Some p) ''/f'' cwd = Inr ''/f''"
  "local_cd (\<lambda>p. Some p) (\<lambda>p. False) ''/f'' cwd = Inl ''Not a directory: /f''"
  by (simp_all add: sftp_cd_def local_cd_def starts_with_def)

text \<open>
  The names that a server lists are used as they are: one with slashes or dots leaves the directory
  that a download was meant for.
\<close>

lemma listed_name_leaves_directory:
  "map_sum id (map fe_name) (sftp_list ''/pub'' (Some [(''../../x'', a)])) = Inr [''../../x'']"
  "map tt_dst (transfer_targets ''/home/me'' [(''/pub/../../x'', ''../../x'', False, n)]) = [''/home/me/../../x'']"
  by (simp_all add: sftp_list_def sftp_entry_def transfer_targets_def absolute_base_def
      trim_end_slashes_def trim_start_slashes_def starts_with_def)

end
