(* ===== verification/Stable_Sort.thy ===== *)
theory Stable_Sort
  imports Main "HOL-Library.Multiset"
begin

text \<open>
  Sorting with a comparison, as Rust's \<open>slice::sort_by\<close>: insertion sort stands for it, since a
  stable sort has only one result.  The locale is the contract of a comparison.
\<close>

text \<open>\<open>slice::sort_by\<close>, which is stable.\<close>

fun insert_by :: "('a \<Rightarrow> 'a \<Rightarrow> bool) \<Rightarrow> 'a \<Rightarrow> 'a list \<Rightarrow> 'a list" where
  "insert_by le x [] = [x]"
| "insert_by le x (y # ys) = (if le x y then x # y # ys else y # insert_by le x ys)"

definition sort_by :: "('a \<Rightarrow> 'a \<Rightarrow> bool) \<Rightarrow> 'a list \<Rightarrow> 'a list" where
  "sort_by le xs = foldr (insert_by le) xs []"

locale total_preorder =
  fixes le :: "'a \<Rightarrow> 'a \<Rightarrow> bool"
  assumes total: "le a b \<or> le b a"
    and trans: "le a b \<Longrightarrow> le b c \<Longrightarrow> le a c"
begin

lemma refl: "le a a"
  using total by blast

lemma mset_insert_by: "mset (insert_by le x ys) = add_mset x (mset ys)"
  by (induction ys) auto

lemma set_insert_by: "set (insert_by le x ys) = insert x (set ys)"
  by (induction ys) auto

lemma sorted_insert_by: "sorted_wrt le ys \<Longrightarrow> sorted_wrt le (insert_by le x ys)"
proof (induction ys)
  case (Cons y ys)
  show ?case
  proof (cases "le x y")
    case True
    with Cons.prems trans show ?thesis by auto
  next
    case False
    with total have "le y x" by blast
    with False Cons show ?thesis by (auto simp: set_insert_by)
  qed
qed simp

lemma sort_by_permutation: "mset (sort_by le xs) = mset xs"
  by (induction xs) (simp_all add: sort_by_def mset_insert_by)

lemma sort_by_set: "set (sort_by le xs) = set xs"
  using sort_by_permutation mset_eq_setD by blast

lemma sort_by_sorted: "sorted_wrt le (sort_by le xs)"
  by (induction xs) (simp_all add: sort_by_def sorted_insert_by)

text \<open>Elements that compare as equal keep their order.\<close>

definition same :: "'a \<Rightarrow> 'a \<Rightarrow> bool" where
  "same a b \<longleftrightarrow> le a b \<and> le b a"

lemma filter_insert_by:
  "filter (same a) (insert_by le x ys) = (if same a x then x # filter (same a) ys else filter (same a) ys)"
  if "sorted_wrt le ys"
  using that
proof (induction ys)
  case (Cons y ys)
  show ?case
  proof (cases "le x y")
    case False
    then have "\<not> (same a x \<and> same a y)" using trans by (auto simp: same_def)
    with False Cons show ?thesis by auto
  qed simp
qed simp

lemma sort_by_stable: "filter (same a) (sort_by le xs) = filter (same a) xs"
proof (induction xs)
  case (Cons x xs)
  have "sorted_wrt le (sort_by le xs)" by (rule sort_by_sorted)
  with Cons show ?case by (simp add: sort_by_def filter_insert_by)
qed (simp add: sort_by_def)

lemma sort_by_id: "sorted_wrt le xs \<Longrightarrow> sort_by le xs = xs"
proof (induction xs)
  case (Cons x xs)
  then have "sort_by le (x # xs) = insert_by le x xs" by (simp add: sort_by_def)
  with Cons.prems show ?case by (cases xs) auto
qed (simp add: sort_by_def)

lemma sort_by_filter: "sort_by le (filter P (sort_by le xs)) = filter P (sort_by le xs)"
  by (rule sort_by_id) (simp add: sort_by_sorted sorted_wrt_filter)

end

end
