(* ===== verification/Browser_Pane.thy ===== *)
theory Browser_Pane
  imports Storage Stable_Sort "HOL-Library.Char_ord"
begin

text \<open>
  One pane of the file browser (\<open>tui/views/browser.rs\<close>): selection, marks, sorting, the live
  filter, refreshing, the entries an operation applies to, and the patterns of the select
  dialog.
\<close>

section \<open>The pane\<close>

record pane =
  pn_entries :: "file_entry list"
  pn_all :: "file_entry list"
  pn_selected :: nat
  pn_cwd :: string
  pn_marked :: "nat set"
  pn_list :: "nat option"

definition pane_new :: "string \<Rightarrow> pane" where
  "pane_new cwd =
     \<lparr>pn_entries = [], pn_all = [], pn_selected = 0, pn_cwd = cwd, pn_marked = {}, pn_list = Some 0\<rparr>"

definition select_at :: "nat \<Rightarrow> pane \<Rightarrow> pane" where
  "select_at i p = p\<lparr>pn_selected := i, pn_list := Some i\<rparr>"

definition last_index :: "pane \<Rightarrow> nat" where
  "last_index p = (if pn_entries p = [] then 0 else length (pn_entries p) - 1)"

definition move_up :: "pane \<Rightarrow> pane" where
  "move_up p = (if 0 < pn_selected p then select_at (pn_selected p - 1) p else p)"

definition move_down :: "pane \<Rightarrow> pane" where
  "move_down p = (if pn_selected p < last_index p then select_at (pn_selected p + 1) p else p)"

definition page_up :: "pane \<Rightarrow> pane" where
  "page_up p = select_at (pn_selected p - 10) p"

definition page_down :: "pane \<Rightarrow> pane" where
  "page_down p = select_at (min (pn_selected p + 10) (last_index p)) p"

definition move_home :: "pane \<Rightarrow> pane" where
  "move_home p = (if pn_entries p = [] then p else select_at 0 p)"

definition move_end :: "pane \<Rightarrow> pane" where
  "move_end p = (if pn_entries p = [] then p else select_at (length (pn_entries p) - 1) p)"

definition toggle_mark :: "pane \<Rightarrow> pane" where
  "toggle_mark p =
     (if pn_entries p = [] then p
      else if pn_selected p \<in> pn_marked p then p\<lparr>pn_marked := pn_marked p - {pn_selected p}\<rparr>
      else p\<lparr>pn_marked := insert (pn_selected p) (pn_marked p)\<rparr>)"

text \<open>\<open>Vec::get\<close>.\<close>

definition selected_entry :: "pane \<Rightarrow> file_entry option" where
  "selected_entry p = nth_opt (pn_entries p) (pn_selected p)"

definition select_entry_by_name :: "string \<Rightarrow> pane \<Rightarrow> pane" where
  "select_entry_by_name name p =
     (case position (\<lambda>e. fe_name e = name) (pn_entries p) of
        Some i \<Rightarrow> select_at i p
      | None \<Rightarrow> p)"

section \<open>Sorting\<close>

datatype sort_field = Name | Size | Modified

fun option_le :: "int option \<Rightarrow> int option \<Rightarrow> bool" where
  "option_le None y = True"
| "option_le (Some a) None = False"
| "option_le (Some a) (Some b) = (a \<le> b)"

fun field_le :: "sort_field \<Rightarrow> file_entry \<Rightarrow> file_entry \<Rightarrow> bool" where
  "field_le Name a b = (to_lowercase (fe_name a) \<le> to_lowercase (fe_name b))"
| "field_le Size a b = (fe_size a \<le> fe_size b)"
| "field_le Modified a b = option_le (fe_modified a) (fe_modified b)"

text \<open>The comparison: not \<open>Ordering::Greater\<close>.\<close>

definition entry_le :: "sort_field \<Rightarrow> bool \<Rightarrow> file_entry \<Rightarrow> file_entry \<Rightarrow> bool" where
  "entry_le by asc a b =
     (if fe_is_dir a \<noteq> fe_is_dir b then fe_is_dir a
      else if asc then field_le by a b else field_le by b a)"

definition sort_entries :: "sort_field \<Rightarrow> bool \<Rightarrow> file_entry list \<Rightarrow> file_entry list" where
  "sort_entries by asc es = sort_by (entry_le by asc) es"

section \<open>Filtering and refreshing\<close>

definition str_contains :: "string \<Rightarrow> string \<Rightarrow> bool" where
  "str_contains q s \<longleftrightarrow> list_ex (\<lambda>i. starts_with q (drop i s)) [0..<Suc (length s)]"

definition dot_dot :: file_entry where
  "dot_dot = \<lparr>fe_name = ''..'', fe_path = ''..'', fe_is_dir = True, fe_size = 0,
     fe_modified = None, fe_permissions = None\<rparr>"

definition matches_filter :: "string option \<Rightarrow> file_entry \<Rightarrow> bool" where
  "matches_filter flt e =
     (case flt of
        None \<Rightarrow> True
      | Some q \<Rightarrow> fe_name e = ''..'' \<or> str_contains (to_lowercase q) (to_lowercase (fe_name e)))"

definition refilter_pane :: "string option \<Rightarrow> pane \<Rightarrow> pane" where
  "refilter_pane flt p =
     (let es = filter (matches_filter flt) (pn_all p);
          es' = (if list_ex (\<lambda>e. fe_name e = ''..'') es then es else dot_dot # es);
          sel = min (pn_selected p) (length es' - 1)
      in p\<lparr>pn_entries := es', pn_selected := sel, pn_list := Some sel, pn_marked := {}\<rparr>)"

text \<open>The settings of the browser that \<open>refresh_pane\<close> looks at.\<close>

record view =
  vw_show_hidden :: bool
  vw_sort_by :: sort_field
  vw_sort_asc :: bool
  vw_filter :: "string option"

definition refresh_entries :: "view \<Rightarrow> file_entry list \<Rightarrow> pane \<Rightarrow> pane" where
  "refresh_entries v listed p =
     (let es = (if vw_show_hidden v then listed
                else filter (\<lambda>e. \<not> starts_with ''.'' (fe_name e)) listed);
          es1 = sort_entries (vw_sort_by v) (vw_sort_asc v) es;
          es2 = dot_dot # sort_entries (vw_sort_by v) (vw_sort_asc v) (filter (matches_filter (vw_filter v)) es1);
          sel = (if length es2 \<le> pn_selected p then length es2 - 1 else pn_selected p)
      in p\<lparr>pn_all := es1, pn_entries := es2, pn_marked := {}, pn_selected := sel, pn_list := Some sel\<rparr>)"

text \<open>\<open>cwd\<close> is the working directory of the backend; \<open>listing\<close> its answer.\<close>

definition refresh_pane :: "view \<Rightarrow> string \<Rightarrow> string + file_entry list \<Rightarrow> pane \<Rightarrow> string + pane" where
  "refresh_pane v cwd answer p =
     result_bind answer (\<lambda>listed. Inr (refresh_entries v listed (p\<lparr>pn_cwd := cwd\<rparr>)))"

section \<open>Targets and patterns\<close>

text \<open>\<open>order\<close> is the order in which the hash set of marks is iterated.\<close>

definition batch_item_of :: "file_entry \<Rightarrow> batch_item" where
  "batch_item_of e = (fe_path e, fe_name e, fe_is_dir e, fe_size e)"

definition collect_batch_targets :: "(nat set \<Rightarrow> nat list) \<Rightarrow> pane \<Rightarrow> batch_item list" where
  "collect_batch_targets order p =
     (if pn_marked p \<noteq> {} then
        map batch_item_of
          (filter (\<lambda>e. fe_name e \<noteq> ''..'') (List.map_filter (nth_opt (pn_entries p)) (order (pn_marked p))))
      else case selected_entry p of
          Some e \<Rightarrow> if fe_name e \<noteq> ''..'' then [batch_item_of e] else []
        | None \<Rightarrow> [])"

text \<open>
  \<open>glob_match_opts\<close>; \<open>escape\<close> and \<open>is_match\<close> are those of the \<open>regex\<close> crate, \<open>None\<close> for an
  expression that does not compile.
\<close>

definition glob_regex :: "(string \<Rightarrow> string) \<Rightarrow> string \<Rightarrow> bool \<Rightarrow> string" where
  "glob_regex escape pattern case_sensitive =
     (let e = escape pattern
      in (if case_sensitive then [] else ''(?i)'') @ ''^'' @ str_replace (length e) [CHR 0x5C, CHR ''*''] ''.*'' e @ ''$'')"

definition glob_match_opts ::
  "(string \<Rightarrow> string) \<Rightarrow> (string \<Rightarrow> string \<Rightarrow> bool option) \<Rightarrow> string \<Rightarrow> string \<Rightarrow> bool \<Rightarrow> bool" where
  "glob_match_opts escape is_match pattern s case_sensitive =
     unwrap_or (is_match (glob_regex escape pattern case_sensitive) s) False"

text \<open>Committing the select dialog: every entry whose name matches is marked or unmarked.\<close>

definition select_matching ::
  "(string \<Rightarrow> string \<Rightarrow> bool \<Rightarrow> bool) \<Rightarrow> string \<Rightarrow> bool \<Rightarrow> bool \<Rightarrow> bool \<Rightarrow> pane \<Rightarrow> pane" where
  "select_matching glob pattern selecting files_only case_sensitive p =
     (let hits = {i. i < length (pn_entries p) \<and> fe_name (pn_entries p ! i) \<noteq> ''..''
                     \<and> \<not> (files_only \<and> fe_is_dir (pn_entries p ! i))
                     \<and> glob pattern (fe_name (pn_entries p ! i)) case_sensitive}
      in p\<lparr>pn_marked := (if selecting then pn_marked p \<union> hits else pn_marked p - hits)\<rparr>)"

section \<open>Sorting is stable\<close>

text \<open>A total preorder, as \<open>sort_by\<close> asks of its comparison.\<close>

lemma option_le_total: "option_le x y \<or> option_le y x"
  by (cases x; cases y) auto

lemma option_le_trans: "option_le x y \<Longrightarrow> option_le y z \<Longrightarrow> option_le x z"
  by (cases x; cases y; cases z) auto

lemma field_le_total: "field_le by a b \<or> field_le by b a"
  by (cases "by") (auto simp: option_le_total)

lemma field_le_trans: "field_le by a b \<Longrightarrow> field_le by b c \<Longrightarrow> field_le by a c"
  by (cases "by") (auto intro: option_le_trans)

interpretation entries: total_preorder "entry_le by asc" for "by" asc
proof
  show "entry_le by asc a b \<or> entry_le by asc b a" for a b
    using field_le_total [of "by" a b] by (auto simp: entry_le_def)
  show "entry_le by asc a b \<Longrightarrow> entry_le by asc b c \<Longrightarrow> entry_le by asc a c" for a b c
    using field_le_trans [of "by"] by (auto simp: entry_le_def split: if_splits)
qed

section \<open>The invariant of a pane\<close>

text \<open>
  Once a pane is loaded it shows the parent entry, its selection is in the list and the same as
  the one displayed, and every mark is the index of an entry.
\<close>

definition pane_ok :: "pane \<Rightarrow> bool" where
  "pane_ok p \<longleftrightarrow>
     list_ex (\<lambda>e. fe_name e = ''..'') (pn_entries p)
     \<and> pn_selected p < length (pn_entries p) \<and> pn_list p = Some (pn_selected p)
     \<and> pn_marked p \<subseteq> {..<length (pn_entries p)}"

lemma has_parent_nonempty: "list_ex (\<lambda>e. fe_name e = ''..'') es \<Longrightarrow> 0 < length es"
  by (cases es) auto

lemma select_at_ok: "pane_ok p \<Longrightarrow> i < length (pn_entries p) \<Longrightarrow> pane_ok (select_at i p)"
  by (simp add: pane_ok_def select_at_def)

lemma last_index_lt: "pane_ok p \<Longrightarrow> i \<le> last_index p \<Longrightarrow> i < length (pn_entries p)"
  by (auto simp: pane_ok_def last_index_def dest: has_parent_nonempty split: if_splits)

lemma pane_ok_lt: "pane_ok p \<Longrightarrow> pn_selected p < length (pn_entries p)"
  by (simp add: pane_ok_def)

lemma moves_ok [inv_intros]:
  assumes "pane_ok p"
  shows "pane_ok (move_up p)" "pane_ok (move_down p)" "pane_ok (page_up p)" "pane_ok (page_down p)"
    "pane_ok (move_home p)" "pane_ok (move_end p)" "pane_ok (toggle_mark p)"
    "pane_ok (select_entry_by_name name p)"
proof -
  note lt = pane_ok_lt [OF assms]
  show "pane_ok (move_up p)" "pane_ok (move_down p)" "pane_ok (page_up p)" "pane_ok (page_down p)"
    "pane_ok (move_home p)" "pane_ok (move_end p)"
    using assms lt last_index_lt [OF assms]
    by (simp_all add: move_up_def move_down_def page_up_def page_down_def move_home_def move_end_def
        select_at_ok)
  show "pane_ok (toggle_mark p)"
    using assms lt by (auto simp: toggle_mark_def pane_ok_def)
  show "pane_ok (select_entry_by_name name p)"
    using assms position_SomeD [of "\<lambda>e. fe_name e = name" "pn_entries p"]
    by (auto simp: select_entry_by_name_def select_at_ok split: option.split)
qed

lemma refresh_entries_ok [inv_intros]: "pane_ok (refresh_entries v listed p)"
  by (auto simp: refresh_entries_def pane_ok_def Let_def dot_dot_def)

lemma refilter_pane_ok [inv_intros]: "pane_ok (refilter_pane flt p)"
proof -
  let ?es = "filter (matches_filter flt) (pn_all p)"
  let ?es' = "if list_ex (\<lambda>e. fe_name e = ''..'') ?es then ?es else dot_dot # ?es"
  have "list_ex (\<lambda>e. fe_name e = ''..'') ?es'" by (simp add: dot_dot_def)
  moreover from has_parent_nonempty [OF this] have "min k (length ?es' - 1) < length ?es'" for k
    by linarith
  ultimately show ?thesis
    unfolding refilter_pane_def pane_ok_def Let_def by simp
qed

lemma sorted_pane_ok [inv_intros]:
  "pane_ok p \<Longrightarrow> pane_ok (p\<lparr>pn_entries := sort_entries by asc (pn_entries p)\<rparr>)"
proof -
  have "length (sort_entries by asc es) = length es" for es
    using entries.sort_by_permutation [of "by" asc es]
    by (simp add: sort_entries_def) (metis size_mset)
  moreover have "list_ex P (sort_entries by asc es) = list_ex P es" for es and P :: "file_entry \<Rightarrow> bool"
    by (simp add: sort_entries_def list_ex_iff entries.sort_by_set)
  ultimately show "pane_ok p \<Longrightarrow> ?thesis" by (simp add: pane_ok_def)
qed

lemma select_matching_ok [inv_intros]: "pane_ok p \<Longrightarrow> pane_ok (select_matching g pat sel fo cs p)"
  by (auto simp: select_matching_def pane_ok_def Let_def)

lemma unmarked_ok [inv_intros]: "pane_ok p \<Longrightarrow> pane_ok (p\<lparr>pn_marked := {}\<rparr>)"
  by (simp add: pane_ok_def)

section \<open>Properties\<close>

text \<open>
  A sorted listing is a permutation of the entries with directories first, in the order of the
  chosen field, and entries that compare as equal keep their order, ascending and descending.\<close>

lemma sorted_listing:
  "mset (sort_entries by asc es) = mset es
   \<and> sorted_wrt (entry_le by asc) (sort_entries by asc es)
   \<and> (\<forall>i j. i < j \<and> j < length es \<and> fe_is_dir (sort_entries by asc es ! j)
        \<longrightarrow> fe_is_dir (sort_entries by asc es ! i))
   \<and> filter (\<lambda>e. entry_le by asc a e \<and> entry_le by asc e a) (sort_entries by asc es)
       = filter (\<lambda>e. entry_le by asc a e \<and> entry_le by asc e a) es"
proof -
  let ?s = "sort_entries by asc es"
  have l: "length ?s = length es"
    using entries.sort_by_permutation [of "by" asc es] by (simp add: sort_entries_def) (metis size_mset)
  have s: "sorted_wrt (entry_le by asc) ?s" by (simp add: sort_entries_def entries.sort_by_sorted)
  have "fe_is_dir (?s ! i)" if "i < j" "j < length es" "fe_is_dir (?s ! j)" for i j
    using sorted_wrt_nth_less [OF s, of i j] that l by (auto simp: entry_le_def split: if_splits)
  moreover have "entries.same by asc a = (\<lambda>e. entry_le by asc a e \<and> entry_le by asc e a)"
    by (simp add: fun_eq_iff entries.same_def)
  ultimately show ?thesis
    using s entries.sort_by_permutation [of "by" asc es] entries.sort_by_stable [of "by" asc a es]
    unfolding sort_entries_def by auto
qed

lemma sorted_listing_witness:
  "fe_is_dir (sort_entries Size False [dot_dot\<lparr>fe_size := 7\<rparr>, dot_dot] ! 0)"
proof -
  have "fe_is_dir (sort_entries Size False [dot_dot\<lparr>fe_size := 7\<rparr>, dot_dot] ! 1)" by code_simp
  moreover have "\<forall>i j. i < j \<and> j < length [dot_dot\<lparr>fe_size := 7\<rparr>, dot_dot]
      \<and> fe_is_dir (sort_entries Size False [dot_dot\<lparr>fe_size := 7\<rparr>, dot_dot] ! j)
        \<longrightarrow> fe_is_dir (sort_entries Size False [dot_dot\<lparr>fe_size := 7\<rparr>, dot_dot] ! i)"
    by (rule sorted_listing [THEN conjunct2, THEN conjunct2, THEN conjunct1])
  from this [rule_format, of 0 1] have "fe_is_dir (sort_entries Size False [dot_dot\<lparr>fe_size := 7\<rparr>, dot_dot] ! 1)
      \<Longrightarrow> ?thesis" by simp
  ultimately show ?thesis by simp
qed

text \<open>C22:
  The live filter works on the entries kept from the last time the directory was read.  Whatever
  has been done since to what is shown (earlier filters, marks, moves of the selection, sorting
  by \<open>s\<close> or \<open>S\<close>), it shows what reading the same directory again with that filter would show in
  the sort order of that last time, and taking the filter back shows all of it again; the
  selection stays in the list and the marks are forgotten.  A sort order chosen since is dropped
  from what is shown (\<open>filter_drops_new_order\<close>).\<close>

theorem live_filter_is_refresh:
  assumes "\<forall>e \<in> set listed. fe_name e \<noteq> ''..''"
    and "pn_all q = pn_all (refresh_entries v listed p)"
  shows "pn_entries (refilter_pane flt q) = pn_entries (refresh_entries (v\<lparr>vw_filter := flt\<rparr>) listed p)
    \<and> pn_entries (refilter_pane None (refilter_pane flt q))
      = pn_entries (refresh_entries (v\<lparr>vw_filter := None\<rparr>) listed p)
    \<and> pane_ok (refilter_pane flt q) \<and> pn_marked (refilter_pane flt q) = {}"
proof -
  let ?es = "if vw_show_hidden v then listed else filter (\<lambda>e. \<not> starts_with ''.'' (fe_name e)) listed"
  let ?s = "sort_entries (vw_sort_by v) (vw_sort_asc v)"
  have none: "\<not> list_ex (\<lambda>e. fe_name e = ''..'') (filter P (?s ?es))" for P
    using assms by (auto simp: list_ex_iff sort_entries_def entries.sort_by_set)
  have "pn_entries (refilter_pane f r) = dot_dot # filter (matches_filter f) (?s ?es)"
    if "pn_all r = ?s ?es" for f r
    using none that by (simp add: refilter_pane_def Let_def)
  moreover have "pn_entries (refresh_entries (v\<lparr>vw_filter := f\<rparr>) listed p)
      = dot_dot # filter (matches_filter f) (?s ?es)" for f
    by (simp add: refresh_entries_def Let_def sort_entries_def entries.sort_by_filter)
  moreover have "pn_all q = ?s ?es" "pn_all (refilter_pane flt q) = ?s ?es"
    using assms(2) by (simp_all add: refresh_entries_def refilter_pane_def Let_def)
  ultimately show ?thesis by (simp add: refilter_pane_ok) (simp add: refilter_pane_def Let_def)
qed

definition by_name :: view where
  "by_name = \<lparr>vw_show_hidden = False, vw_sort_by = Name, vw_sort_asc = True, vw_filter = None\<rparr>"

definition two_files :: "file_entry list" where
  "two_files = [dot_dot\<lparr>fe_name := ''a'', fe_is_dir := False, fe_size := 9\<rparr>,
     dot_dot\<lparr>fe_name := ''ab'', fe_is_dir := False, fe_size := 1\<rparr>]"

theorem live_filter_is_refresh_witness:
  "pn_entries (refilter_pane (Some ''B'') ((refresh_entries by_name two_files (pane_new ''/''))
      \<lparr>pn_entries := [], pn_marked := {1}\<rparr>)) = [dot_dot, two_files ! 1]"
proof -
  have "pn_entries (refresh_entries (by_name\<lparr>vw_filter := Some ''B''\<rparr>) two_files (pane_new ''/''))
    = [dot_dot, two_files ! 1]" by code_simp
  moreover have "\<forall>e \<in> set two_files. fe_name e \<noteq> ''..''" by (simp add: two_files_def)
  ultimately show ?thesis
    using live_filter_is_refresh [of two_files "(refresh_entries by_name two_files (pane_new ''/''))
      \<lparr>pn_entries := [], pn_marked := {1}\<rparr>" by_name "pane_new ''/''" "Some ''B''"]
    by simp
qed

text \<open>
  The keys that change the sort order sort what is shown and not the entries that are kept: the
  next filter, here one that keeps everything, shows them in the old order.
\<close>

lemma filter_drops_new_order:
  "let p = refresh_entries by_name two_files (pane_new ''/'');
       p' = p\<lparr>pn_entries := sort_entries Size True (pn_entries p)\<rparr>
   in map fe_name (pn_entries p') = [''..'', ''ab'', ''a'']
    \<and> map fe_name (pn_entries (refilter_pane None p')) = [''..'', ''a'', ''ab'']
    \<and> map fe_name (pn_entries (refresh_entries (by_name\<lparr>vw_sort_by := Size\<rparr>) two_files p'))
        = [''..'', ''ab'', ''a'']"
  unfolding Let_def by (intro conjI; code_simp)

text \<open>An operation applies to the marked entries, or else to the selected one, never to the parent.\<close>

lemma batch_targets:
  assumes "pane_ok p" "set (order (pn_marked p)) = pn_marked p"
  shows "set (collect_batch_targets order p) = batch_item_of ` {e. fe_name e \<noteq> ''..'' \<and>
      (\<exists>i < length (pn_entries p). e = pn_entries p ! i
        \<and> (if pn_marked p = {} then i = pn_selected p else i \<in> pn_marked p))}"
proof (cases "pn_marked p = {}")
  case True
  with pane_ok_lt [OF assms(1)] show ?thesis
    by (auto simp: collect_batch_targets_def selected_entry_def nth_opt_def)
next
  case False
  have "set (List.map_filter (nth_opt (pn_entries p)) (order (pn_marked p)))
      = {e. \<exists>i < length (pn_entries p). e = pn_entries p ! i \<and> i \<in> pn_marked p}"
    using assms(2) by (force simp: List.map_filter_def nth_opt_def)
  with False show ?thesis by (auto simp: collect_batch_targets_def)
qed

text \<open>
  The key for the next sort field sorts the entries again but leaves the marks, which are
  indices: the next deletion or copy applies to other entries than those marked.
\<close>

lemma resort_moves_marks:
  "let a = dot_dot\<lparr>fe_name := ''a'', fe_is_dir := False, fe_size := 9\<rparr>;
       b = dot_dot\<lparr>fe_name := ''b'', fe_is_dir := False, fe_size := 1\<rparr>;
       p = (pane_new ''/'')\<lparr>pn_entries := [dot_dot, a, b], pn_marked := {1}\<rparr>;
       q = p\<lparr>pn_entries := sort_entries Size True (pn_entries p)\<rparr>
   in map (fst \<circ> snd) (collect_batch_targets sorted_list_of_set p) = [''a'']
    \<and> map (fst \<circ> snd) (collect_batch_targets sorted_list_of_set q) = [''b'']"
  by code_simp

end
