(* ===== verification/Terminal_Keys.thy ===== *)
theory Terminal_Keys
  imports Main
begin

text \<open>Key events of the terminal, with the keys that the program tells apart.\<close>

datatype key_code =
    KChar char | KEsc | KEnter | KTab | KBackTab | KUp | KDown | KLeft | KRight | KPageUp
  | KPageDown | KHome | KEnd | KInsert | KBackspace | KDelete | KF nat | KUnknown

record key_event =
  ke_code :: key_code
  ke_ctrl :: bool
  ke_shift :: bool

end
