(* ===== verification/Browser.thy ===== *)
theory Browser
  imports Browser_Pane Terminal_Keys
begin

text \<open>
  The dual-pane browser (\<open>tui/views/browser.rs\<close>): its state, every key in every input mode, and
  the polling of background transfers in its main loop.  Drawing is left out; a background
  transfer is what the browser keeps of it, its workers are modelled in \<open>Transfer_Job\<close>.
\<close>

section \<open>State\<close>

datatype side = LeftSide | RightSide

fun other_side :: "side \<Rightarrow> side" where
  "other_side LeftSide = RightSide"
| "other_side RightSide = LeftSide"

datatype pane_label = LocalPane | RemotePane

record retry_info =
  ri_targets :: "batch_item list"
  ri_direction :: direction
  ri_source :: side
  ri_dst_cwd :: string
  ri_is_move :: bool

datatype input_mode =
    Normal
  | Filter string
  | MkdirPrompt string
  | RenamePrompt string file_entry
  | ConfirmDelete "batch_item list"
  | SelectPattern string bool bool bool
  | CopyConfirm "batch_item list" direction side string bool
  | TransferPopup
  | OverwriteConfirm string string nat
  | TransferComplete string "retry_info option"
  | HelpOverlay
  | GotoPrompt string

text \<open>A question of a worker; the number stands for the channel of its answer.\<close>

record query =
  qu_id :: nat
  qu_name :: string
  qu_dst :: string
  qu_size :: nat

record transfer =
  bt_cancel :: bool
  bt_skip :: bool
  bt_queries :: "query list"
  bt_dest :: side
  bt_source :: side
  bt_direction :: direction
  bt_description :: string
  bt_delete_sources :: "(string \<times> bool) list option"
  bt_retry_targets :: "batch_item list"
  bt_retry_dst_cwd :: string
  bt_retry_is_move :: bool

text \<open>
  \<open>BrowserState\<close> with the panes and backends that the functions are passed besides it.
  \<open>br_answers\<close> are the answers sent to workers so far.
\<close>

record 's browser =
  br_active :: side
  br_view :: view
  br_mode :: input_mode
  br_status :: "string option"
  br_env :: string
  br_label :: "side \<Rightarrow> pane_label"
  br_transfers :: "transfer list"
  br_focus :: nat
  br_popup_index :: nat
  br_response :: "nat option"
  br_redraw :: bool
  br_policy :: nat
  br_help_scroll :: nat
  br_pane :: "side \<Rightarrow> pane"
  br_cwd :: "side \<Rightarrow> string"
  br_store :: "side \<Rightarrow> 's"
  br_answers :: "(nat \<times> overwrite_answer) list"

text \<open>\<open>Exit\<close> is an error that leaves the browser.\<close>

datatype action = Continue | Quit | Exit string

type_synonym 's result = "action \<times> 's browser"

definition and_then :: "'s result \<Rightarrow> ('s browser \<Rightarrow> 's result) \<Rightarrow> 's result" where
  "and_then r f = (case fst r of Continue \<Rightarrow> f (snd r) | _ \<Rightarrow> r)"

text \<open>
  What the environment answers during one key: the backends, the order of the hash set of
  marks, the pattern matcher, whether the channels of a transfer open, and how viewing a file
  ends.
\<close>

datatype setup_answer = NoHandle | SftpFailed string | WorkerFailed string | Opened

record 's key_env =
  ev_ops :: "side \<Rightarrow> 's backend_ops"
  ev_order :: "nat set \<Rightarrow> nat list"
  ev_glob :: "string \<Rightarrow> string \<Rightarrow> bool \<Rightarrow> bool"
  ev_setup :: setup_answer
  ev_download :: "string + unit"

section \<open>Panes and backends\<close>

definition active_pane :: "'s browser \<Rightarrow> pane" where
  "active_pane b = br_pane b (br_active b)"

definition on_pane :: "side \<Rightarrow> (pane \<Rightarrow> pane) \<Rightarrow> 's browser \<Rightarrow> 's browser" where
  "on_pane sd f b = b\<lparr>br_pane := (br_pane b)(sd := f (br_pane b sd))\<rparr>"

definition on_active :: "(pane \<Rightarrow> pane) \<Rightarrow> 's browser \<Rightarrow> 's browser" where
  "on_active f b = on_pane (br_active b) f b"

definition set_filter :: "string option \<Rightarrow> 's browser \<Rightarrow> 's browser" where
  "set_filter flt b = b\<lparr>br_view := (br_view b)\<lparr>vw_filter := flt\<rparr>\<rparr>"

definition refresh_side :: "'s key_env \<Rightarrow> side \<Rightarrow> 's browser \<Rightarrow> 's result" where
  "refresh_side env sd b =
     (case refresh_pane (br_view b) (br_cwd b sd) (bo_list (ev_ops env sd) (br_cwd b sd) (br_store b sd))
             (br_pane b sd) of
        Inl e \<Rightarrow> (Exit e, b)
      | Inr p \<Rightarrow> (Continue, on_pane sd (\<lambda>_. p) b))"

definition refresh_both :: "'s key_env \<Rightarrow> 's browser \<Rightarrow> 's result" where
  "refresh_both env b = and_then (refresh_side env LeftSide b) (refresh_side env RightSide)"

definition marked_message :: "pane \<Rightarrow> string option" where
  "marked_message p =
     (if 0 < card (pn_marked p) then Some (show_nat (card (pn_marked p)) @ '' files marked'') else None)"

text \<open>The pane shows another directory; it is loaded by the refresh that follows.\<close>

definition moved_pane :: "string \<Rightarrow> pane \<Rightarrow> pane" where
  "moved_pane cwd p = p\<lparr>pn_cwd := cwd, pn_selected := 0, pn_list := Some 0, pn_marked := {}\<rparr>"

definition moved_to :: "string \<Rightarrow> 's browser \<Rightarrow> 's browser" where
  "moved_to cwd b =
     set_filter None (on_active (moved_pane cwd) (b\<lparr>br_cwd := (br_cwd b)(br_active b := cwd)\<rparr>))"

text \<open>Entering a directory, and going up.\<close>

definition open_directory :: "'s key_env \<Rightarrow> string \<Rightarrow> 's browser \<Rightarrow> 's result" where
  "open_directory env name b =
     (let sd = br_active b;
          prev = (if name = ''..'' then path_file_name (pn_cwd (active_pane b)) else None)
      in case bo_cd (ev_ops env sd) name (br_cwd b sd) (br_store b sd) of
           Inl e \<Rightarrow> (Exit e, b)
         | Inr cwd \<Rightarrow>
             and_then (refresh_side env sd ((moved_to cwd b)\<lparr>br_status := None\<rparr>)) (\<lambda>b'.
               (Continue, (case prev of
                  None \<Rightarrow> b'
                | Some n \<Rightarrow> on_pane sd (select_entry_by_name n) b'))))"

section \<open>Keys of the normal mode\<close>

definition cancel_all :: "'s browser \<Rightarrow> 's browser" where
  "cancel_all b =
     b\<lparr>br_transfers := map (\<lambda>t. t\<lparr>bt_cancel := True\<rparr>) (br_transfers b),
       br_status := Some ''Cancelling transfers...''\<rparr>"

definition request_copy :: "'s key_env \<Rightarrow> bool \<Rightarrow> 's browser \<Rightarrow> 's browser" where
  "request_copy env is_move b =
     (let targets = collect_batch_targets (ev_order env) (active_pane b);
          src = br_active b; dst = other_side src
      in if targets = [] then b
         else if br_label b src = br_label b dst then
           b\<lparr>br_status := Some ((if is_move then ''Move'' else ''Copy'')
                @ '' requires one local and one remote pane'')\<rparr>
         else
           b\<lparr>br_focus := 0,
             br_mode := CopyConfirm targets
               (if br_label b src = LocalPane then LocalToRemote else RemoteToLocal)
               src (pn_cwd (br_pane b dst)) is_move\<rparr>)"

definition open_entry :: "'s key_env \<Rightarrow> bool \<Rightarrow> 's browser \<Rightarrow> 's result" where
  "open_entry env view b =
     (case selected_entry (active_pane b) of
        None \<Rightarrow> (Continue, b)
      | Some e \<Rightarrow>
          if fe_is_dir e then open_directory env (fe_name e) b
          else if \<not> view then (Continue, b)
          else case ev_download env of
              Inr _ \<Rightarrow> (Continue, b\<lparr>br_status := None, br_redraw := True\<rparr>)
            | Inl e \<Rightarrow> (Continue, b\<lparr>br_status := Some (''Download error: '' @ e)\<rparr>))"

definition sort_active :: "'s browser \<Rightarrow> 's browser" where
  "sort_active b =
     on_active (\<lambda>p. p\<lparr>pn_entries :=
       sort_entries (vw_sort_by (br_view b)) (vw_sort_asc (br_view b)) (pn_entries p)\<rparr>) b"

fun next_field :: "sort_field \<Rightarrow> sort_field" where
  "next_field Name = Size"
| "next_field Size = Modified"
| "next_field Modified = Name"

definition mark_and_move :: "'s browser \<Rightarrow> 's browser" where
  "mark_and_move b =
     (let b' = on_active (\<lambda>p. move_down (toggle_mark p)) b
      in b'\<lparr>br_status := marked_message (active_pane b')\<rparr>)"

definition toggle_hidden :: "'s key_env \<Rightarrow> 's browser \<Rightarrow> 's result" where
  "toggle_hidden env b =
     (let shown = \<not> vw_show_hidden (br_view b)
      in refresh_both env (b\<lparr>br_view := (br_view b)\<lparr>vw_show_hidden := shown\<rparr>,
           br_status := Some (''Hidden files: '' @ (if shown then ''shown'' else ''hidden''))\<rparr>))"

definition ask :: "input_mode \<Rightarrow> 's browser \<Rightarrow> 's browser" where
  "ask m b = b\<lparr>br_focus := 0, br_mode := m\<rparr>"

definition escape_key :: "'s browser \<Rightarrow> 's result" where
  "escape_key b =
     (if br_transfers b \<noteq> [] then (Continue, cancel_all b)
      else if vw_filter (br_view b) \<noteq> None then
        (Continue, on_active (refilter_pane None) (set_filter None b))
      else (Quit, b))"

definition char_key :: "'s key_env \<Rightarrow> char \<Rightarrow> bool \<Rightarrow> bool \<Rightarrow> 's browser \<Rightarrow> 's result" where
  "char_key env c ctrl shift b =
     (if c = CHR ''q'' then (Quit, b)
      else if c = CHR ''?'' then (Continue, b\<lparr>br_help_scroll := 0, br_mode := HelpOverlay\<rparr>)
      else if c = CHR ''c'' \<and> ctrl then (Continue, if br_transfers b = [] then b else cancel_all b)
      else if c = CHR ''p'' \<and> br_transfers b \<noteq> [] then
        (Continue, b\<lparr>br_popup_index := length (br_transfers b) - 1, br_mode := TransferPopup\<rparr>)
      else if c = CHR ''r'' \<and> ctrl then
        and_then (refresh_both env b) (\<lambda>b'. (Continue, b'\<lparr>br_status := Some ''Refreshed''\<rparr>))
      else if c = CHR ''k'' then (Continue, on_active move_up b)
      else if c = CHR ''j'' then (Continue, on_active move_down b)
      else if c = CHR ''g'' \<and> \<not> shift \<and> \<not> ctrl then (Continue, on_active move_home b)
      else if c = CHR ''G'' then (Continue, on_active move_end b)
      else if c = CHR '' '' then (Continue, request_copy env False b)
      else if c = CHR ''v'' then (Continue, mark_and_move b)
      else if c = CHR ''.'' then toggle_hidden env b
      else if c = CHR ''/'' then (Continue, b\<lparr>br_mode := Filter []\<rparr>)
      else if c = CHR ''g'' \<and> ctrl then (Continue, ask (GotoPrompt (pn_cwd (active_pane b))) b)
      else if c = CHR ''s'' then
        (Continue, sort_active (b\<lparr>br_view := (br_view b)\<lparr>vw_sort_by := next_field (vw_sort_by (br_view b))\<rparr>\<rparr>))
      else if c = CHR ''S'' then
        (Continue, sort_active (b\<lparr>br_view := (br_view b)\<lparr>vw_sort_asc := \<not> vw_sort_asc (br_view b)\<rparr>\<rparr>))
      else if c = CHR ''d'' then
        (Continue, case collect_batch_targets (ev_order env) (active_pane b) of
                     [] \<Rightarrow> b
                   | t # ts \<Rightarrow> ask (ConfirmDelete (t # ts)) b)
      else if c = CHR ''r'' then
        (Continue, case selected_entry (active_pane b) of
                     None \<Rightarrow> b
                   | Some e \<Rightarrow> if fe_name e = ''..'' then b else ask (RenamePrompt (fe_name e) e) b)
      else if c = CHR ''*'' \<or> c = CHR ''+'' then (Continue, ask (SelectPattern ''*'' True False True) b)
      else if c = CHR ''-'' then (Continue, ask (SelectPattern ''*'' False False True) b)
      else (Continue, b))"

definition handle_key :: "'s key_env \<Rightarrow> key_event \<Rightarrow> 's browser \<Rightarrow> 's result" where
  "handle_key env k b =
     (case ke_code k of
        KChar c \<Rightarrow> char_key env c (ke_ctrl k) (ke_shift k) b
      | KEsc \<Rightarrow> escape_key b
      | KTab \<Rightarrow> (Continue, b\<lparr>br_active := other_side (br_active b)\<rparr>)
      | KUp \<Rightarrow> (Continue, on_active move_up b)
      | KDown \<Rightarrow> (Continue, on_active move_down b)
      | KPageUp \<Rightarrow> (Continue, on_active page_up b)
      | KPageDown \<Rightarrow> (Continue, on_active page_down b)
      | KHome \<Rightarrow> (Continue, if ke_shift k \<or> ke_ctrl k then b else on_active move_home b)
      | KEnd \<Rightarrow> (Continue, on_active move_end b)
      | KEnter \<Rightarrow> open_entry env False b
      | KInsert \<Rightarrow> (Continue, mark_and_move b)
      | KBackspace \<Rightarrow> open_directory env ''..'' b
      | KF n \<Rightarrow>
          (if n = 10 then (Quit, b)
           else if n = 1 then (Continue, b\<lparr>br_help_scroll := 0, br_mode := HelpOverlay\<rparr>)
           else if n = 5 then (Continue, request_copy env False b)
           else if n = 3 then open_entry env True b
           else if n = 8 then
             (Continue, case collect_batch_targets (ev_order env) (active_pane b) of
                          [] \<Rightarrow> b
                        | t # ts \<Rightarrow> ask (ConfirmDelete (t # ts)) b)
           else if n = 7 then (Continue, ask (MkdirPrompt []) b)
           else if n = 6 then (Continue, request_copy env True b)
           else (Continue, b))
      | _ \<Rightarrow> (Continue, b))"

section \<open>Starting a transfer\<close>

definition transfer_label :: "transfer list \<Rightarrow> nat \<Rightarrow> string" where
  "transfer_label ts i =
     (if i < length ts then bt_description (ts ! i) else ''#'' @ show_nat (i + 1))"

definition new_transfer :: "batch_item list \<Rightarrow> direction \<Rightarrow> side \<Rightarrow> string \<Rightarrow> bool \<Rightarrow> transfer" where
  "new_transfer items dir src dst_cwd is_move =
     \<lparr>bt_cancel = False, bt_skip = False, bt_queries = [], bt_dest = other_side src, bt_source = src,
      bt_direction = dir,
      bt_description = (case transfer_targets dst_cwd items of
          [t] \<Rightarrow> tt_name t
        | ts \<Rightarrow> show_nat (length ts) @ '' files''),
      bt_delete_sources = (if is_move then Some (map (\<lambda>(path, _, isdir, _). (path, isdir)) items) else None),
      bt_retry_targets = items, bt_retry_dst_cwd = dst_cwd, bt_retry_is_move = is_move\<rparr>"

definition start_copy_transfer ::
  "'s key_env \<Rightarrow> batch_item list \<Rightarrow> direction \<Rightarrow> side \<Rightarrow> string \<Rightarrow> bool \<Rightarrow> bool \<Rightarrow> 's browser \<Rightarrow> 's browser" where
  "start_copy_transfer env items dir src dst_cwd background is_move b =
     (case ev_setup env of
        NoHandle \<Rightarrow> b\<lparr>br_status := Some ''No SSH handle available for transfer'', br_mode := Normal\<rparr>
      | SftpFailed e \<Rightarrow> b\<lparr>br_status := Some (''Failed to open SFTP session: '' @ e), br_mode := Normal\<rparr>
      | WorkerFailed e \<Rightarrow> b\<lparr>br_status := Some (''Failed to open pipelined SFTP: '' @ e), br_mode := Normal\<rparr>
      | Opened \<Rightarrow>
          (let ts = br_transfers b @ [new_transfer items dir src dst_cwd is_move]
           in on_pane src (\<lambda>p. p\<lparr>pn_marked := {}\<rparr>)
                (b\<lparr>br_transfers := ts, br_popup_index := length ts - 1,
                  br_mode := (if background then Normal else TransferPopup)\<rparr>)))"

section \<open>Overlays and the progress popup\<close>

definition help_key :: "key_code \<Rightarrow> 's browser \<Rightarrow> 's browser" where
  "help_key k b =
     (if k \<in> {KEsc, KF 1, KChar CHR ''?'', KChar CHR ''q''} then b\<lparr>br_mode := Normal\<rparr>
      else if k \<in> {KUp, KChar CHR ''k''} then b\<lparr>br_help_scroll := br_help_scroll b - 1\<rparr>
      else if k \<in> {KDown, KChar CHR ''j''} then b\<lparr>br_help_scroll := min 65535 (br_help_scroll b + 1)\<rparr>
      else if k = KPageUp then b\<lparr>br_help_scroll := br_help_scroll b - 10\<rparr>
      else if k = KPageDown then b\<lparr>br_help_scroll := min 65535 (br_help_scroll b + 10)\<rparr>
      else if k = KHome then b\<lparr>br_help_scroll := 0\<rparr>
      else b)"

definition close_and_refresh :: "'s key_env \<Rightarrow> 's browser \<Rightarrow> 's result" where
  "close_and_refresh env b = refresh_both env (b\<lparr>br_mode := Normal\<rparr>)"

definition complete_key :: "'s key_env \<Rightarrow> key_code \<Rightarrow> retry_info option \<Rightarrow> 's browser \<Rightarrow> 's result" where
  "complete_key env k retry b =
     (case retry of
        None \<Rightarrow> close_and_refresh env b
      | Some info \<Rightarrow>
          if k \<in> {KTab, KLeft, KRight, KBackTab} then
            (Continue, b\<lparr>br_focus := (if br_focus b = 0 then 1 else 0)\<rparr>)
          else if k = KEsc then close_and_refresh env b
          else if k = KEnter then
            (if br_focus b = 0 then
               (Continue, start_copy_transfer env (ri_targets info) (ri_direction info) (ri_source info)
                  (ri_dst_cwd info) False (ri_is_move info) (b\<lparr>br_mode := Normal\<rparr>))
             else close_and_refresh env b)
          else (Continue, b))"

definition clamp_popup :: "'s browser \<Rightarrow> 's browser" where
  "clamp_popup b =
     (if length (br_transfers b) \<le> br_popup_index b \<and> br_transfers b \<noteq> []
      then b\<lparr>br_popup_index := length (br_transfers b) - 1\<rparr> else b)"

definition popup_key :: "'s key_env \<Rightarrow> key_code \<Rightarrow> 's browser \<Rightarrow> 's result" where
  "popup_key env k b =
     (let ts = br_transfers b; i = min (br_popup_index b) (length ts - 1)
      in if k = KChar CHR ''s'' then
           (Continue, if i < length ts then b\<lparr>br_transfers := ts[i := (ts ! i)\<lparr>bt_skip := True\<rparr>]\<rparr> else b)
         else if k = KTab \<and> 1 < length ts then
           (Continue, b\<lparr>br_popup_index := (br_popup_index b + 1) mod length ts\<rparr>)
         else if k = KChar CHR ''b'' then close_and_refresh env b
         else if k = KEsc then
           and_then
             (if i < length ts then
                refresh_both env
                  (clamp_popup (b\<lparr>br_transfers := remove_at i ts,
                     br_status := Some (''Cancelled transfer '' @ transfer_label ts i)\<rparr>))
              else (Continue, b))
             (\<lambda>b'. (Continue, if br_transfers b' = [] then b'\<lparr>br_mode := Normal\<rparr> else b'))
         else (Continue, b))"

section \<open>Questions of the workers\<close>

fun answer_of_focus :: "nat \<Rightarrow> overwrite_answer" where
  "answer_of_focus n =
     (if n = 0 then Overwrite else if n = 1 then OverwriteAll else if n = 2 then SkipOne
      else if n = 3 then SkipAll else CancelAll)"

definition answer_queries :: "overwrite_answer \<Rightarrow> transfer \<Rightarrow> (nat \<times> overwrite_answer) list \<times> transfer" where
  "answer_queries a t = (map (\<lambda>q. (qu_id q, a)) (bt_queries t), t\<lparr>bt_queries := []\<rparr>)"

definition respond :: "overwrite_answer \<Rightarrow> 's browser \<Rightarrow> 's browser" where
  "respond a b =
     (case br_response b of
        None \<Rightarrow> b
      | Some i \<Rightarrow> b\<lparr>br_response := None, br_answers := br_answers b @ [(i, a)]\<rparr>)"

definition answer_all :: "overwrite_answer \<Rightarrow> 's browser \<Rightarrow> 's browser" where
  "answer_all a b =
     b\<lparr>br_policy := (if br_transfers b = [] then br_policy b else if a = OverwriteAll then 1 else 2),
       br_answers := br_answers b @ concat (map (fst \<circ> answer_queries a) (br_transfers b)),
       br_transfers := map (snd \<circ> answer_queries a) (br_transfers b)\<rparr>"

definition overwrite_key :: "key_code \<Rightarrow> 's browser \<Rightarrow> 's browser" where
  "overwrite_key k b =
     (if k \<in> {KTab, KRight} then b\<lparr>br_focus := (br_focus b + 1) mod 5\<rparr>
      else if k \<in> {KBackTab, KLeft} then b\<lparr>br_focus := (br_focus b + 4) mod 5\<rparr>
      else if k = KEnter then
        (let a = answer_of_focus (br_focus b);
             b' = (if a = OverwriteAll \<or> a = SkipAll then answer_all a b else b)
         in (respond a b')\<lparr>br_mode := TransferPopup\<rparr>)
      else if k = KEsc then (respond CancelAll b)\<lparr>br_mode := Normal\<rparr>
      else b)"

section \<open>Confirmations and prompts\<close>

definition confirm_copy_key :: "'s key_env \<Rightarrow> key_code \<Rightarrow> batch_item list \<Rightarrow> direction \<Rightarrow> side \<Rightarrow> string \<Rightarrow> bool
    \<Rightarrow> 's browser \<Rightarrow> 's browser" where
  "confirm_copy_key env k items dir src dst_cwd is_move b =
     (let start = (\<lambda>background.
        start_copy_transfer env items dir src dst_cwd background is_move (b\<lparr>br_mode := Normal\<rparr>))
      in if k = KEnter then
           (if br_focus b = 0 then start False else if br_focus b = 1 then start True
            else b\<lparr>br_mode := Normal\<rparr>)
         else if k = KChar CHR ''b'' then start True
         else if k = KEsc then b\<lparr>br_mode := Normal\<rparr>
         else b)"

definition edit_input :: "key_code \<Rightarrow> string \<Rightarrow> string" where
  "edit_input k s = (case k of KChar c \<Rightarrow> s @ [c] | KBackspace \<Rightarrow> butlast s | _ \<Rightarrow> s)"

definition is_edit :: "key_code \<Rightarrow> bool" where
  "is_edit k = (case k of KChar c \<Rightarrow> True | KBackspace \<Rightarrow> True | _ \<Rightarrow> False)"

definition filter_key :: "key_code \<Rightarrow> string \<Rightarrow> 's browser \<Rightarrow> 's browser" where
  "filter_key k s b =
     (let s' = edit_input k s; flt = (if s' = [] then None else Some s')
      in on_active (refilter_pane flt) (set_filter flt (b\<lparr>br_mode := Filter s'\<rparr>)))"

text \<open>The entries are deleted in order; the first failure leaves the browser.\<close>

fun delete_entries :: "'s backend_ops \<Rightarrow> batch_item list \<Rightarrow> 's \<Rightarrow> string option \<times> 's" where
  "delete_entries ops [] s = (None, s)"
| "delete_entries ops ((path, name, isdir, n) # es) s =
     (case (if isdir then bo_rmdir ops path s else bo_delete ops path s) of
        (Inl e, s') \<Rightarrow> (Some e, s')
      | (Inr _, s') \<Rightarrow> delete_entries ops es s')"

definition set_store :: "side \<Rightarrow> 's \<Rightarrow> 's browser \<Rightarrow> 's browser" where
  "set_store sd s b = b\<lparr>br_store := (br_store b)(sd := s)\<rparr>"

definition perform_delete :: "'s key_env \<Rightarrow> batch_item list \<Rightarrow> 's browser \<Rightarrow> 's result" where
  "perform_delete env es b =
     (let sd = br_active b
      in case delete_entries (ev_ops env sd) es (br_store b sd) of
           (Some e, s) \<Rightarrow> (Exit e, set_store sd s b)
         | (None, s) \<Rightarrow>
             refresh_side env sd ((set_store sd s b)\<lparr>br_status := Some (case es of
                [(path, name, isdir, n)] \<Rightarrow> ''Deleted: '' @ name
              | _ \<Rightarrow> ''Deleted '' @ show_nat (length es) @ '' items'')\<rparr>))"

definition confirm_delete_key :: "'s key_env \<Rightarrow> key_code \<Rightarrow> batch_item list \<Rightarrow> 's browser \<Rightarrow> 's result" where
  "confirm_delete_key env k es b =
     (let b' = b\<lparr>br_mode := Normal\<rparr>; cancelled = b'\<lparr>br_status := Some ''Delete cancelled.''\<rparr>
      in if k \<in> {KChar CHR ''y'', KChar CHR ''Y''} then perform_delete env es b'
         else if k = KEnter then
           (if br_focus b = 0 then perform_delete env es b' else (Continue, cancelled))
         else if k \<in> {KEsc, KChar CHR ''n'', KChar CHR ''N''} then (Continue, cancelled)
         else (Continue, b))"

definition bad_name :: "string \<Rightarrow> bool" where
  "bad_name n \<longleftrightarrow> n = [] \<or> n = ''.'' \<or> n = ''..'' \<or> CHR ''/'' \<in> set n"

definition in_directory :: "'s browser \<Rightarrow> string \<Rightarrow> string" where
  "in_directory b name = trim_end_slashes (pn_cwd (active_pane b)) @ ''/'' @ name"

definition commit_mkdir :: "'s key_env \<Rightarrow> string \<Rightarrow> 's browser \<Rightarrow> 's result" where
  "commit_mkdir env input b =
     (let sd = br_active b; name = trim input
      in if bad_name name then (Continue, b\<lparr>br_status := Some ''Invalid directory name''\<rparr>)
         else case bo_mkdir (ev_ops env sd) (in_directory b name) (br_store b sd) of
             (Inr _, s) \<Rightarrow>
               refresh_side env sd ((set_store sd s b)\<lparr>br_status := Some (''Created: '' @ name)\<rparr>)
           | (Inl e, s) \<Rightarrow> (Continue, (set_store sd s b)\<lparr>br_status := Some (''Mkdir error: '' @ e)\<rparr>))"

definition commit_goto :: "'s key_env \<Rightarrow> string \<Rightarrow> 's browser \<Rightarrow> 's result" where
  "commit_goto env input b =
     (let sd = br_active b; path = trim input
      in if path = [] then (Continue, b\<lparr>br_status := Some ''Empty path''\<rparr>)
         else case bo_cd (ev_ops env sd) path (br_cwd b sd) (br_store b sd) of
             Inr cwd \<Rightarrow>
               and_then (refresh_side env sd (moved_to cwd b)) (\<lambda>b'. (Continue, b'\<lparr>br_status := None\<rparr>))
           | Inl e \<Rightarrow> (Continue, b\<lparr>br_status := Some (''Go to error: '' @ e)\<rparr>))"

text \<open>The arrow of the message is not among the characters modelled; it is written in ASCII.\<close>

definition commit_rename :: "'s key_env \<Rightarrow> string \<Rightarrow> file_entry \<Rightarrow> 's browser \<Rightarrow> 's result" where
  "commit_rename env input source b =
     (let sd = br_active b; name = trim input
      in if bad_name name then (Continue, b\<lparr>br_status := Some ''Invalid name''\<rparr>)
         else case bo_rename (ev_ops env sd) (fe_path source) (in_directory b name) (br_store b sd) of
             (Inr _, s) \<Rightarrow>
               refresh_side env sd ((set_store sd s b)\<lparr>br_status := Some (''Renamed -> '' @ name)\<rparr>)
           | (Inl e, s) \<Rightarrow> (Continue, (set_store sd s b)\<lparr>br_status := Some (''Rename error: '' @ e)\<rparr>))"

definition commit_select :: "'s key_env \<Rightarrow> string \<Rightarrow> bool \<Rightarrow> bool \<Rightarrow> bool \<Rightarrow> 's browser \<Rightarrow> 's browser" where
  "commit_select env input selecting files_only case_sensitive b =
     (if br_focus b = 4 \<or> trim input = [] then b
      else let b' = on_active (select_matching (ev_glob env) (trim input) selecting files_only case_sensitive) b
           in b'\<lparr>br_status := marked_message (active_pane b')\<rparr>)"

text \<open>Enter; the focus on anything but the first button of a prompt cancels it.\<close>

definition commit_input :: "'s key_env \<Rightarrow> 's browser \<Rightarrow> 's result" where
  "commit_input env b =
     (let b' = b\<lparr>br_mode := Normal\<rparr>; confirmed = (br_focus b = 0)
      in case br_mode b of
           MkdirPrompt s \<Rightarrow> if confirmed then commit_mkdir env s b' else (Continue, b')
         | GotoPrompt s \<Rightarrow> if confirmed then commit_goto env s b' else (Continue, b')
         | RenamePrompt s e \<Rightarrow> if confirmed then commit_rename env s e b' else (Continue, b')
         | SelectPattern s sel fo cs \<Rightarrow> (Continue, commit_select env s sel fo cs b')
         | _ \<Rightarrow> (Continue, b'))"

text \<open>The focus moves over five items of the select dialog and over the buttons of the others.\<close>

definition focus_key :: "key_code \<Rightarrow> 's browser \<Rightarrow> 's browser option" where
  "focus_key k b =
     (let step = (\<lambda>d n. Some (b\<lparr>br_focus := (br_focus b + d) mod n\<rparr>))
      in case br_mode b of
           SelectPattern s sel fo cs \<Rightarrow>
             (if k = KTab then step 1 5
              else if k = KBackTab then step 4 5
              else if k = KChar CHR '' '' \<and> br_focus b = 1 then Some (b\<lparr>br_mode := SelectPattern s sel (\<not> fo) cs\<rparr>)
              else if k = KChar CHR '' '' \<and> br_focus b = 2 then Some (b\<lparr>br_mode := SelectPattern s sel fo (\<not> cs)\<rparr>)
              else None)
         | CopyConfirm its dir src cwd mv \<Rightarrow>
             if k \<in> {KTab, KRight} then step 1 3 else if k \<in> {KLeft, KBackTab} then step 2 3 else None
         | m \<Rightarrow>
             if (case m of MkdirPrompt _ \<Rightarrow> True | GotoPrompt _ \<Rightarrow> True | RenamePrompt _ _ \<Rightarrow> True
                  | ConfirmDelete _ \<Rightarrow> True | _ \<Rightarrow> False)
             then if k \<in> {KTab, KRight} then step 1 2 else if k \<in> {KLeft, KBackTab} then step 1 2 else None
             else None)"

definition edit_mode :: "key_code \<Rightarrow> input_mode \<Rightarrow> input_mode option" where
  "edit_mode k m =
     (if \<not> is_edit k then None
      else case m of
          MkdirPrompt s \<Rightarrow> Some (MkdirPrompt (edit_input k s))
        | GotoPrompt s \<Rightarrow> Some (GotoPrompt (edit_input k s))
        | SelectPattern s sel fo cs \<Rightarrow> Some (SelectPattern (edit_input k s) sel fo cs)
        | RenamePrompt s e \<Rightarrow> Some (RenamePrompt (edit_input k s) e)
        | _ \<Rightarrow> None)"

definition prompt_key :: "'s key_env \<Rightarrow> key_code \<Rightarrow> 's browser \<Rightarrow> 's result" where
  "prompt_key env k b =
     (case edit_mode k (br_mode b) of
        Some m \<Rightarrow> (Continue, b\<lparr>br_mode := m\<rparr>)
      | None \<Rightarrow>
          (case br_mode b of
             ConfirmDelete es \<Rightarrow> confirm_delete_key env k es b
           | m \<Rightarrow>
               if k = KEsc then
                 (Continue, case m of
                    Filter s \<Rightarrow> on_active (refilter_pane None) (set_filter None (b\<lparr>br_mode := Normal\<rparr>))
                  | _ \<Rightarrow> b\<lparr>br_mode := Normal\<rparr>)
               else if k = KEnter then commit_input env b
               else (Continue, b)))"

definition handle_input_mode :: "'s key_env \<Rightarrow> key_event \<Rightarrow> 's browser \<Rightarrow> 's result" where
  "handle_input_mode env ev b =
     (let k = ke_code ev
      in case br_mode b of
           HelpOverlay \<Rightarrow> (Continue, help_key k b)
         | TransferComplete msg retry \<Rightarrow> complete_key env k retry b
         | TransferPopup \<Rightarrow> popup_key env k b
         | OverwriteConfirm name dst n \<Rightarrow> (Continue, overwrite_key k b)
         | _ \<Rightarrow>
             (case focus_key k b of
                Some b' \<Rightarrow> (Continue, b')
              | None \<Rightarrow>
                  (case br_mode b of
                     CopyConfirm its dir src cwd mv \<Rightarrow>
                       (Continue, confirm_copy_key env k its dir src cwd mv b)
                   | Filter s \<Rightarrow> if is_edit k then (Continue, filter_key k s b) else prompt_key env k b
                   | _ \<Rightarrow> prompt_key env k b)))"

section \<open>The main loop\<close>

text \<open>A transfer has ended; \<open>msg\<close> is the summary with its times and speeds.\<close>

fun remove_sources :: "'s backend_ops \<Rightarrow> (string \<times> bool) list \<Rightarrow> 's \<Rightarrow> 's" where
  "remove_sources ops [] s = s"
| "remove_sources ops ((path, isdir) # rest) s =
     remove_sources ops rest (if isdir then snd (bo_rmdir ops path s) else s)"

definition retry_of :: "transfer \<Rightarrow> retry_info" where
  "retry_of t = \<lparr>ri_targets = bt_retry_targets t, ri_direction = bt_direction t, ri_source = bt_source t,
     ri_dst_cwd = bt_retry_dst_cwd t, ri_is_move = bt_retry_is_move t\<rparr>"

definition show_completion :: "transfer \<Rightarrow> transfer_result \<Rightarrow> string \<Rightarrow> 's browser \<Rightarrow> 's browser" where
  "show_completion t r msg b =
     (if br_mode b = TransferPopup \<and> br_transfers b = [] then
        b\<lparr>br_focus := 0,
          br_mode := TransferComplete msg (if tr_error r = None then None else Some (retry_of t))\<rparr>
      else b)"

definition finish_transfer :: "'s key_env \<Rightarrow> nat \<Rightarrow> transfer_result \<Rightarrow> string \<Rightarrow> 's browser \<Rightarrow> 's result" where
  "finish_transfer env i r msg b =
     (if length (br_transfers b) \<le> i then (Continue, b)
      else
        let t = br_transfers b ! i; is_move = (bt_delete_sources t \<noteq> None); src = bt_source t;
            b1 = clamp_popup (show_completion t r msg (b\<lparr>br_transfers := remove_at i (br_transfers b)\<rparr>));
            b2 = (case bt_delete_sources t of
                    Some sources \<Rightarrow>
                      if 0 < tr_copied r \<and> tr_error r = None then
                        set_store src (remove_sources (ev_ops env src) (rev sources) (br_store b1 src)) b1
                      else b1
                  | None \<Rightarrow> b1);
            b3 = b2\<lparr>br_status := Some (format_transfer_result r (bt_description t) is_move)\<rparr>
        in and_then (refresh_side env (bt_dest t) b3) (\<lambda>b'.
             if is_move then refresh_side env src b' else (Continue, b')))"

fun scan_transfers ::
  "nat \<Rightarrow> transfer list \<Rightarrow> (nat \<times> overwrite_answer) list \<times> transfer list \<times> query option" where
  "scan_transfers policy [] = ([], [], None)"
| "scan_transfers policy (t # ts) =
     (if bt_cancel t \<or> policy \<noteq> 0 then
        (let a = (if bt_cancel t then CancelAll else if policy = 1 then OverwriteAll else SkipAll)
         in case (answer_queries a t, scan_transfers policy ts) of
              ((as, t'), (bs, ts', q)) \<Rightarrow> (as @ bs, t' # ts', q))
      else case bt_queries t of
          q # qs \<Rightarrow> ([], t\<lparr>bt_queries := qs\<rparr> # ts, Some q)
        | [] \<Rightarrow> (case scan_transfers policy ts of (bs, ts', q) \<Rightarrow> (bs, t # ts', q)))"

definition is_question :: "input_mode \<Rightarrow> bool" where
  "is_question m = (case m of OverwriteConfirm _ _ _ \<Rightarrow> True | _ \<Rightarrow> False)"

definition poll_queries :: "'s browser \<Rightarrow> 's browser" where
  "poll_queries b =
     (if is_question (br_mode b) then b
      else case scan_transfers (br_policy b) (br_transfers b) of
          (as, ts, q) \<Rightarrow>
            (let b' = b\<lparr>br_transfers := ts, br_answers := br_answers b @ as\<rparr>
             in case q of
                  None \<Rightarrow> b'
                | Some x \<Rightarrow> b'\<lparr>br_response := Some (qu_id x), br_focus := 0,
                    br_mode := OverwriteConfirm (qu_name x) (qu_dst x) (qu_size x)\<rparr>))"

definition auto_refresh :: "'s key_env \<Rightarrow> 's browser \<Rightarrow> 's result" where
  "auto_refresh env b =
     (if br_transfers b = [] then (Continue, b)
      else refresh_side env (if br_label b LeftSide = LocalPane then LeftSide else RightSide) b)"

text \<open>The status line shows the progress of the transfers; \<open>msg\<close> is its text with speeds.\<close>

definition poll :: "string \<Rightarrow> 's browser \<Rightarrow> 's browser" where
  "poll msg b = (let b' = poll_queries b
     in if br_transfers b' = [] then b' else b'\<lparr>br_status := Some msg\<rparr>)"

text \<open>Everything that happens to the browser: keys, the ends and questions of transfers, polling.\<close>

datatype 's browser_event =
    Key "'s key_env" key_event
  | Done "'s key_env" nat transfer_result string
  | Asked nat query
  | Poll string
  | Timer "'s key_env"

fun browser_step :: "'s browser_event \<Rightarrow> 's browser \<Rightarrow> 's result" where
  "browser_step (Key env k) b =
     (if br_mode b = Normal then handle_key env k b else handle_input_mode env k b)"
| "browser_step (Done env i r msg) b = finish_transfer env i r msg b"
| "browser_step (Asked i q) b =
     (Continue, if i < length (br_transfers b)
        then b\<lparr>br_transfers := (br_transfers b)
               [i := (br_transfers b ! i)\<lparr>bt_queries := bt_queries (br_transfers b ! i) @ [q]\<rparr>]\<rparr>
        else b)"
| "browser_step (Poll msg) b = (Continue, poll msg b)"
| "browser_step (Timer env) b = auto_refresh env b"

fun browser_run :: "'s browser_event list \<Rightarrow> 's browser \<Rightarrow> 's result" where
  "browser_run [] b = (Continue, b)"
| "browser_run (ev # evs) b = and_then (browser_step ev b) (browser_run evs)"

definition browser_new ::
  "(side \<Rightarrow> pane_label) \<Rightarrow> (side \<Rightarrow> string) \<Rightarrow> (side \<Rightarrow> 's) \<Rightarrow> string \<Rightarrow> bool \<Rightarrow> 's browser" where
  "browser_new labels cwds stores envname show_hidden =
     \<lparr>br_active = LeftSide,
      br_view = \<lparr>vw_show_hidden = show_hidden, vw_sort_by = Name, vw_sort_asc = True, vw_filter = None\<rparr>,
      br_mode = Normal, br_status = None, br_env = envname, br_label = labels, br_transfers = [],
      br_focus = 0, br_popup_index = 0, br_response = None, br_redraw = False, br_policy = 0,
      br_help_scroll = 0, br_pane = (\<lambda>sd. pane_new (cwds sd)), br_cwd = cwds, br_store = stores,
      br_answers = []\<rparr>"

definition browser_start :: "'s key_env \<Rightarrow> 's browser \<Rightarrow> 's result" where
  "browser_start env b = refresh_both env b"

text \<open>\<open>is_production_remote\<close>, which only changes how dialogs are drawn.\<close>

definition is_production_remote :: "'s browser \<Rightarrow> bool" where
  "is_production_remote b \<longleftrightarrow>
     eq_ignore_ascii_case (br_env b) ''production'' \<and> br_label b (br_active b) = RemotePane"

end
