(* ===== verification/Browser_Correct.thy ===== *)
theory Browser_Correct
  imports Browser
begin

text \<open>
  Properties of the browser: the invariant of its panes and of the overwrite dialog, when it
  changes a disk or a server, and what a deletion removes.
\<close>

section \<open>The invariant\<close>

definition browser_ok :: "'s browser \<Rightarrow> bool" where
  "browser_ok b \<longleftrightarrow> (\<forall>sd. pane_ok (br_pane b sd)) \<and> (br_response b \<noteq> None \<longleftrightarrow> is_question (br_mode b))"

text \<open>The same, but for a pane that is about to be loaded.\<close>

definition ok_but :: "side \<Rightarrow> 's browser \<Rightarrow> bool" where
  "ok_but sd b \<longleftrightarrow> (\<forall>sd'. sd' \<noteq> sd \<longrightarrow> pane_ok (br_pane b sd'))
     \<and> (br_response b \<noteq> None \<longleftrightarrow> is_question (br_mode b))"

definition keeps_going :: "('s browser \<Rightarrow> bool) \<Rightarrow> 's result \<Rightarrow> bool" where
  "keeps_going P r \<longleftrightarrow> (fst r = Continue \<longrightarrow> P (snd r))"

lemma keeps_going_simps [simp]:
  "keeps_going P (Continue, b) = P b" "keeps_going P (Quit, b)" "keeps_going P (Exit e, b)"
  by (simp_all add: keeps_going_def)

lemma keeps_going_then:
  "keeps_going P r \<Longrightarrow> (\<And>b. P b \<Longrightarrow> keeps_going Q (f b)) \<Longrightarrow> keeps_going Q (and_then r f)"
  by (cases r; cases "fst r") (auto simp: and_then_def keeps_going_def)

lemma ok_but_any: "browser_ok b \<Longrightarrow> ok_but sd b"
  by (simp add: browser_ok_def ok_but_def)

lemma on_pane_sel [simp]:
  "br_pane (on_pane sd f b) = (br_pane b)(sd := f (br_pane b sd))" "br_mode (on_pane sd f b) = br_mode b"
  "br_response (on_pane sd f b) = br_response b" "br_store (on_pane sd f b) = br_store b"
  "br_transfers (on_pane sd f b) = br_transfers b" "br_answers (on_pane sd f b) = br_answers b"
  "br_active (on_pane sd f b) = br_active b" "br_cwd (on_pane sd f b) = br_cwd b"
  "br_label (on_pane sd f b) = br_label b" "br_focus (on_pane sd f b) = br_focus b"
  by (simp_all add: on_pane_def)

lemma on_active_sel [simp]:
  "br_mode (on_active f b) = br_mode b" "br_response (on_active f b) = br_response b"
  "br_store (on_active f b) = br_store b" "br_transfers (on_active f b) = br_transfers b"
  "br_answers (on_active f b) = br_answers b" "br_active (on_active f b) = br_active b"
  by (simp_all add: on_active_def)

lemma set_filter_sel [simp]:
  "br_mode (set_filter f b) = br_mode b" "br_response (set_filter f b) = br_response b"
  "br_store (set_filter f b) = br_store b" "br_transfers (set_filter f b) = br_transfers b"
  "br_answers (set_filter f b) = br_answers b" "br_active (set_filter f b) = br_active b"
  "br_pane (set_filter f b) = br_pane b"
  by (simp_all add: set_filter_def)

lemma on_active_ok: "browser_ok b \<Longrightarrow> (\<And>p. pane_ok p \<Longrightarrow> pane_ok (f p)) \<Longrightarrow> browser_ok (on_active f b)"
  by (simp add: browser_ok_def on_active_def)

lemma ok_same:
  assumes "browser_ok b" "br_pane b' = br_pane b" "br_response b' = br_response b"
    "is_question (br_mode b') = is_question (br_mode b)"
  shows "browser_ok b'"
  using assms by (simp add: browser_ok_def)

lemma refresh_side_ok: "ok_but sd b \<Longrightarrow> keeps_going browser_ok (refresh_side env sd b)"
  by (auto simp: refresh_side_def refresh_pane_def ok_but_def browser_ok_def refresh_entries_ok
      result_bind_eq_Inr split: sum.split)

lemma refresh_both_ok:
  assumes "br_response b \<noteq> None \<longleftrightarrow> is_question (br_mode b)"
  shows "keeps_going browser_ok (refresh_both env b)"
proof -
  have "keeps_going (ok_but RightSide) (refresh_side env LeftSide b)"
    using assms by (auto simp: refresh_side_def refresh_pane_def ok_but_def refresh_entries_ok
      result_bind_eq_Inr split: sum.split) (metis side.exhaust)+
  then show ?thesis
    unfolding refresh_both_def by (rule keeps_going_then) (auto intro: refresh_side_ok)
qed

lemma moved_to_ok: "browser_ok b \<Longrightarrow> ok_but (br_active b) (moved_to cwd b)"
  by (simp add: browser_ok_def ok_but_def moved_to_def on_active_def)

lemma open_directory_ok:
  assumes "browser_ok b"
  shows "keeps_going browser_ok (open_directory env name b)"
proof (cases "bo_cd (ev_ops env (br_active b)) name (br_cwd b (br_active b)) (br_store b (br_active b))")
  case (Inr cwd)
  let ?prev = "if name = ''..'' then path_file_name (pn_cwd (active_pane b)) else None"
  have "keeps_going browser_ok (refresh_side env (br_active b) ((moved_to cwd b)\<lparr>br_status := None\<rparr>))"
    by (rule refresh_side_ok) (use moved_to_ok [OF assms, of cwd] in \<open>simp add: ok_but_def\<close>)
  then have "keeps_going browser_ok
      (and_then (refresh_side env (br_active b) ((moved_to cwd b)\<lparr>br_status := None\<rparr>)) (\<lambda>b'.
        (Continue, (case ?prev of None \<Rightarrow> b' | Some n \<Rightarrow> on_pane (br_active b) (select_entry_by_name n) b'))))"
  proof (rule keeps_going_then)
    fix b' :: "'a browser" assume "browser_ok b'"
    then show "keeps_going browser_ok (Continue, (case ?prev of None \<Rightarrow> b'
        | Some n \<Rightarrow> on_pane (br_active b) (select_entry_by_name n) b'))"
      by (simp add: browser_ok_def moves_ok split: option.split)
  qed
  with Inr show ?thesis by (simp add: open_directory_def Let_def)
qed (simp add: open_directory_def Let_def)

lemma ask_ok: "browser_ok b \<Longrightarrow> br_mode b = Normal \<Longrightarrow> \<not> is_question m \<Longrightarrow> browser_ok (ask m b)"
  by (simp add: browser_ok_def ask_def is_question_def)

lemma not_question [simp]:
  "\<not> is_question Normal" "\<not> is_question (Filter s)" "\<not> is_question (MkdirPrompt s)"
  "\<not> is_question (RenamePrompt s e)" "\<not> is_question (ConfirmDelete es)"
  "\<not> is_question (SelectPattern s sel fo cs)" "\<not> is_question (CopyConfirm es dir sd cwd mv)"
  "\<not> is_question TransferPopup" "is_question (OverwriteConfirm s dst n)"
  "\<not> is_question (TransferComplete s r)" "\<not> is_question HelpOverlay" "\<not> is_question (GotoPrompt s)"
  by (simp_all add: is_question_def)

text \<open>A key of the normal mode: what it may change besides loading a pane.\<close>

lemma request_copy_ok: "browser_ok b \<Longrightarrow> br_mode b = Normal \<Longrightarrow> browser_ok (request_copy env mv b)"
  by (auto simp: request_copy_def browser_ok_def Let_def)

lemma open_entry_ok: "browser_ok b \<Longrightarrow> keeps_going browser_ok (open_entry env view b)"
  using open_directory_ok [of b env]
  by (auto simp: open_entry_def browser_ok_def split: option.split sum.split)

lemma mark_and_move_ok: "browser_ok b \<Longrightarrow> browser_ok (mark_and_move b)"
  using on_active_ok [of b "\<lambda>p. move_down (toggle_mark p)"]
  by (simp add: mark_and_move_def browser_ok_def moves_ok Let_def)

lemma sort_active_ok: "browser_ok b \<Longrightarrow> browser_ok (sort_active b)"
  unfolding sort_active_def by (rule on_active_ok) (auto intro: sorted_pane_ok)

lemma escape_key_ok: "browser_ok b \<Longrightarrow> keeps_going browser_ok (escape_key b)"
  by (auto simp: escape_key_def cancel_all_def browser_ok_def on_active_def refilter_pane_ok)

lemma toggle_hidden_ok: "browser_ok b \<Longrightarrow> keeps_going browser_ok (toggle_hidden env b)"
  unfolding toggle_hidden_def Let_def by (rule refresh_both_ok) (simp add: browser_ok_def)

lemma on_active_moves_ok:
  "browser_ok b \<Longrightarrow> browser_ok (on_active move_up b)" "browser_ok b \<Longrightarrow> browser_ok (on_active move_down b)"
  "browser_ok b \<Longrightarrow> browser_ok (on_active page_up b)" "browser_ok b \<Longrightarrow> browser_ok (on_active page_down b)"
  "browser_ok b \<Longrightarrow> browser_ok (on_active move_home b)" "browser_ok b \<Longrightarrow> browser_ok (on_active move_end b)"
  by (rule on_active_ok; simp add: moves_ok)+

lemma ask_delete_ok:
  "browser_ok b \<Longrightarrow> br_mode b = Normal \<Longrightarrow>
   browser_ok (case ts of [] \<Rightarrow> b | t # ts \<Rightarrow> ask (ConfirmDelete (t # ts)) b)"
  by (cases ts) (simp_all add: ask_ok)

lemma char_key_ok:
  assumes "browser_ok b" "br_mode b = Normal"
  shows "keeps_going browser_ok (char_key env c ctrl shift b)"
proof -
  have r: "keeps_going browser_ok (and_then (refresh_both env b) (\<lambda>b'. (Continue, b'\<lparr>br_status := Some ''Refreshed''\<rparr>)))"
    by (rule keeps_going_then [OF refresh_both_ok]) (use assms in \<open>auto simp: browser_ok_def\<close>)
  have s: "browser_ok (sort_active (b\<lparr>br_view := v\<rparr>))" for v
    by (rule sort_active_ok) (use assms in \<open>simp add: browser_ok_def\<close>)
  have m: "browser_ok (b\<lparr>br_mode := m\<rparr>)" "browser_ok (b\<lparr>br_popup_index := i, br_mode := m\<rparr>)"
    "browser_ok (b\<lparr>br_help_scroll := i, br_mode := m\<rparr>)" if "\<not> is_question m" for m i
    using assms that by (simp_all add: browser_ok_def)
  have q: "browser_ok (case selected_entry (active_pane b) of
                     None \<Rightarrow> b
                   | Some e \<Rightarrow> if fe_name e = ''..'' then b else ask (RenamePrompt (fe_name e) e) b)"
    using assms by (simp add: ask_ok split: option.split)
  have c: "browser_ok (cancel_all b)" using assms by (simp add: browser_ok_def cancel_all_def)
  show ?thesis
    unfolding char_key_def
    using r s m q c assms
    by (simp add: on_active_moves_ok request_copy_ok mark_and_move_ok toggle_hidden_ok ask_ok ask_delete_ok)
qed

lemma handle_key_ok:
  assumes "browser_ok b" "br_mode b = Normal"
  shows "keeps_going browser_ok (handle_key env k b)"
proof -
  have m: "browser_ok (b\<lparr>br_help_scroll := 0, br_mode := HelpOverlay\<rparr>)" "browser_ok (b\<lparr>br_active := x\<rparr>)" for x
    using assms by (simp_all add: browser_ok_def)
  show ?thesis
    unfolding handle_key_def
    using m assms
    by (cases "ke_code k")
       (simp_all add: char_key_ok on_active_moves_ok request_copy_ok mark_and_move_ok ask_ok ask_delete_ok
          escape_key_ok open_entry_ok open_directory_ok)
qed

section \<open>The other input modes\<close>

text \<open>Outside the overwrite dialog no question is pending.\<close>

lemma no_question_mode:
  "browser_ok b \<Longrightarrow> \<not> is_question (br_mode b) \<Longrightarrow> \<not> is_question m \<Longrightarrow> browser_ok (b\<lparr>br_mode := m\<rparr>)"
  by (simp add: browser_ok_def)

lemma start_copy_transfer_ok:
  "browser_ok b \<Longrightarrow> \<not> is_question (br_mode b) \<Longrightarrow>
   browser_ok (start_copy_transfer env items dir src dst bkg mv b)"
  by (auto simp: start_copy_transfer_def browser_ok_def Let_def unmarked_ok split: setup_answer.split)

lemma help_key_ok: "browser_ok b \<Longrightarrow> br_mode b = HelpOverlay \<Longrightarrow> browser_ok (help_key k b)"
  by (simp add: help_key_def browser_ok_def)

lemma close_and_refresh_ok:
  "browser_ok b \<Longrightarrow> \<not> is_question (br_mode b) \<Longrightarrow> keeps_going browser_ok (close_and_refresh env b)"
  unfolding close_and_refresh_def by (rule refresh_both_ok) (simp add: browser_ok_def)

lemma complete_key_ok:
  assumes "browser_ok b" "\<not> is_question (br_mode b)"
  shows "keeps_going browser_ok (complete_key env k retry b)"
proof -
  have "browser_ok (b\<lparr>br_focus := n\<rparr>)" for n using assms by (simp add: browser_ok_def)
  moreover have "browser_ok (start_copy_transfer env i d s c False mv (b\<lparr>br_mode := Normal\<rparr>))" for i d s c mv
    by (rule start_copy_transfer_ok) (use assms in \<open>simp_all add: browser_ok_def\<close>)
  ultimately show ?thesis
    using close_and_refresh_ok [OF assms] assms(1)
    by (simp add: complete_key_def split: option.split)
qed

lemma clamp_popup_sel [simp]:
  "br_pane (clamp_popup b) = br_pane b" "br_mode (clamp_popup b) = br_mode b"
  "br_response (clamp_popup b) = br_response b" "br_transfers (clamp_popup b) = br_transfers b"
  "br_store (clamp_popup b) = br_store b" "br_answers (clamp_popup b) = br_answers b"
  by (simp_all add: clamp_popup_def)

lemma popup_key_ok:
  assumes "browser_ok b" "br_mode b = TransferPopup"
  shows "keeps_going browser_ok (popup_key env k b)"
proof -
  let ?ts = "br_transfers b"
  let ?i = "min (br_popup_index b) (length ?ts - 1)"
  let ?b = "clamp_popup (b\<lparr>br_transfers := remove_at ?i ?ts,
    br_status := Some (''Cancelled transfer '' @ transfer_label ?ts ?i)\<rparr>)"
  have q: "br_response b = None" using assms by (simp add: browser_ok_def)
  have r: "keeps_going browser_ok (if ?i < length ?ts then refresh_both env ?b else (Continue, b))"
    using refresh_both_ok [of ?b env] q assms by (auto simp: is_question_def)
  have e: "keeps_going browser_ok (and_then (if ?i < length ?ts then refresh_both env ?b else (Continue, b))
      (\<lambda>b'. (Continue, if br_transfers b' = [] then b'\<lparr>br_mode := Normal\<rparr> else b')))"
    if "keeps_going (\<lambda>b'. browser_ok b' \<and> \<not> is_question (br_mode b'))
      (if ?i < length ?ts then refresh_both env ?b else (Continue, b))"
    by (rule keeps_going_then [OF that]) (auto simp: browser_ok_def)
  have m: "br_mode (snd (refresh_both env c)) = br_mode c" for c :: "'a browser"
    by (auto simp: refresh_both_def refresh_side_def and_then_def split: sum.split)
  have "keeps_going (\<lambda>b'. browser_ok b' \<and> \<not> is_question (br_mode b'))
      (if ?i < length ?ts then refresh_both env ?b else (Continue, b))"
    using r m [of ?b] assms(2) by (auto simp: keeps_going_def)
  note e = e [OF this]
  have o: "browser_ok (b\<lparr>br_transfers := x\<rparr>)" "browser_ok (b\<lparr>br_popup_index := n\<rparr>)" for x n
    using assms(1) by (simp_all add: browser_ok_def)
  show ?thesis
    unfolding popup_key_def Let_def
    using e o assms close_and_refresh_ok [OF assms(1)] by simp
qed

lemma overwrite_key_ok:
  "browser_ok b \<Longrightarrow> br_mode b = OverwriteConfirm name dst n \<Longrightarrow> browser_ok (overwrite_key k b)"
  by (auto simp: overwrite_key_def browser_ok_def respond_def answer_all_def Let_def split: option.split)

lemma confirm_copy_key_ok:
  assumes "browser_ok b" "\<not> is_question (br_mode b)"
  shows "browser_ok (confirm_copy_key env k items dir src dst mv b)"
proof -
  have "browser_ok (start_copy_transfer env items dir src dst bkg mv (b\<lparr>br_mode := Normal\<rparr>))" for bkg
    by (rule start_copy_transfer_ok) (use assms in \<open>simp_all add: browser_ok_def\<close>)
  moreover have "browser_ok (b\<lparr>br_mode := Normal\<rparr>)" using assms by (simp add: browser_ok_def)
  ultimately show ?thesis using assms(1) by (simp add: confirm_copy_key_def Let_def)
qed

lemma perform_delete_ok: "browser_ok b \<Longrightarrow> keeps_going browser_ok (perform_delete env es b)"
  unfolding perform_delete_def Let_def
  by (auto simp: browser_ok_def ok_but_def set_store_def intro!: refresh_side_ok split: prod.split option.split)

lemma confirm_delete_key_ok:
  assumes "browser_ok b" "\<not> is_question (br_mode b)"
  shows "keeps_going browser_ok (confirm_delete_key env k es b)"
proof -
  have n: "browser_ok (b\<lparr>br_mode := Normal\<rparr>)" "browser_ok (b\<lparr>br_mode := Normal, br_status := x\<rparr>)" for x
    using assms by (simp_all add: browser_ok_def)
  with assms perform_delete_ok [OF n(1)] show ?thesis by (simp add: confirm_delete_key_def Let_def)
qed

lemma commit_mkdir_ok: "browser_ok b \<Longrightarrow> keeps_going browser_ok (commit_mkdir env s b)"
  unfolding commit_mkdir_def Let_def
  by (auto simp: browser_ok_def ok_but_def set_store_def intro!: refresh_side_ok split: prod.split sum.split)

lemma commit_rename_ok: "browser_ok b \<Longrightarrow> keeps_going browser_ok (commit_rename env s e b)"
  unfolding commit_rename_def Let_def
  by (auto simp: browser_ok_def ok_but_def set_store_def intro!: refresh_side_ok split: prod.split sum.split)

lemma commit_goto_ok:
  assumes "browser_ok b"
  shows "keeps_going browser_ok (commit_goto env s b)"
proof -
  have "keeps_going browser_ok (and_then (refresh_side env (br_active b) (moved_to cwd b))
      (\<lambda>b'. (Continue, b'\<lparr>br_status := None\<rparr>)))" for cwd
    by (rule keeps_going_then [OF refresh_side_ok [OF moved_to_ok [OF assms]]]) (simp add: browser_ok_def)
  moreover have "browser_ok (b\<lparr>br_status := x\<rparr>)" for x using assms by (simp add: browser_ok_def)
  ultimately show ?thesis by (simp add: commit_goto_def Let_def split: sum.split)
qed

lemma commit_select_ok: "browser_ok b \<Longrightarrow> browser_ok (commit_select env s sel fo cs b)"
  by (auto simp: commit_select_def Let_def browser_ok_def on_active_def select_matching_ok)

lemma commit_input_ok:
  assumes "browser_ok b" "\<not> is_question (br_mode b)"
  shows "keeps_going browser_ok (commit_input env b)"
proof -
  have n: "browser_ok (b\<lparr>br_mode := Normal\<rparr>)" using assms by (simp add: browser_ok_def)
  show ?thesis
    using n commit_mkdir_ok [OF n] commit_goto_ok [OF n] commit_rename_ok [OF n] commit_select_ok [OF n]
    by (simp add: commit_input_def Let_def split: input_mode.split)
qed

lemma filter_key_ok: "browser_ok b \<Longrightarrow> br_mode b = Filter s \<Longrightarrow> browser_ok (filter_key k s b)"
  by (auto simp: filter_key_def browser_ok_def on_active_def refilter_pane_ok Let_def)

lemma edit_mode_question: "edit_mode k m = Some m' \<Longrightarrow> \<not> is_question m'"
  by (auto simp: edit_mode_def split: if_splits input_mode.splits)

lemma prompt_key_ok:
  assumes "browser_ok b" "\<not> is_question (br_mode b)"
  shows "keeps_going browser_ok (prompt_key env k b)"
proof (cases "edit_mode k (br_mode b)")
  case None
  have n: "browser_ok (b\<lparr>br_mode := Normal\<rparr>)" using assms by (simp add: browser_ok_def)
  have f: "browser_ok (on_active (refilter_pane None) (set_filter None (b\<lparr>br_mode := Normal\<rparr>)))"
    using assms by (simp add: browser_ok_def on_active_def refilter_pane_ok)
  show ?thesis
    using None n f assms(1) confirm_delete_key_ok [OF assms] commit_input_ok [OF assms]
    by (auto simp: prompt_key_def split: input_mode.split)
next
  case (Some m)
  with no_question_mode [OF assms edit_mode_question [OF Some]] show ?thesis by (simp add: prompt_key_def)
qed

lemma focus_key_ok:
  assumes "browser_ok b" "\<not> is_question (br_mode b)" "focus_key k b = Some b'"
  shows "browser_ok b'"
proof -
  have "(\<exists>n. b' = b\<lparr>br_focus := n\<rparr>) \<or> (\<exists>s a c d. b' = b\<lparr>br_mode := SelectPattern s a c d\<rparr>)"
    using assms(3) by (cases "br_mode b", auto simp: focus_key_def Let_def split: if_splits) blast+
  then show ?thesis using assms(1,2) by (auto simp: browser_ok_def)
qed

lemma handle_input_mode_ok:
  assumes "browser_ok b"
  shows "keeps_going browser_ok (handle_input_mode env ev b)"
proof (cases "focus_key (ke_code ev) b")
  case None
  show ?thesis
  proof (cases "br_mode b")
    case (TransferComplete msg retry)
    with complete_key_ok [OF assms] show ?thesis by (simp add: handle_input_mode_def Let_def)
  next
    case (CopyConfirm its dir src cwd mv)
    with None confirm_copy_key_ok [OF assms] show ?thesis by (simp add: handle_input_mode_def Let_def)
  qed (use None assms help_key_ok [OF assms] popup_key_ok [OF assms] overwrite_key_ok [OF assms]
      filter_key_ok [OF assms] prompt_key_ok [OF assms] in \<open>simp_all add: handle_input_mode_def Let_def\<close>)
next
  case (Some b')
  have "\<not> is_question (br_mode b) \<Longrightarrow> browser_ok b'" using focus_key_ok [OF assms _ Some] .
  with Some assms help_key_ok [OF assms] popup_key_ok [OF assms] overwrite_key_ok [OF assms]
    complete_key_ok [OF assms]
  show ?thesis by (cases "br_mode b") (simp_all add: handle_input_mode_def Let_def)
qed

section \<open>The main loop\<close>

lemma set_store_sel [simp]:
  "br_pane (set_store sd s b) = br_pane b" "br_mode (set_store sd s b) = br_mode b"
  "br_response (set_store sd s b) = br_response b" "br_transfers (set_store sd s b) = br_transfers b"
  "br_answers (set_store sd s b) = br_answers b" "br_store (set_store sd s b) = (br_store b)(sd := s)"
  by (simp_all add: set_store_def)

lemma show_completion_ok: "browser_ok b \<Longrightarrow> browser_ok (show_completion t r msg b)"
  by (simp add: show_completion_def browser_ok_def)

lemma finish_transfer_ok:
  assumes "browser_ok b"
  shows "keeps_going browser_ok (finish_transfer env i r msg b)"
proof (cases "length (br_transfers b) \<le> i")
  case False
  let ?t = "br_transfers b ! i"
  define b1 where "b1 = clamp_popup (show_completion ?t r msg (b\<lparr>br_transfers := remove_at i (br_transfers b)\<rparr>))"
  define b3 where "b3 = (case bt_delete_sources ?t of
                    Some sources \<Rightarrow>
                      if 0 < tr_copied r \<and> tr_error r = None then
                        set_store (bt_source ?t) (remove_sources (ev_ops env (bt_source ?t)) (rev sources) (br_store b1 (bt_source ?t))) b1
                      else b1
                  | None \<Rightarrow> b1)\<lparr>br_status := Some (format_transfer_result r (bt_description ?t) (bt_delete_sources ?t \<noteq> None))\<rparr>"
  have "browser_ok (show_completion ?t r msg (b\<lparr>br_transfers := remove_at i (br_transfers b)\<rparr>))"
    by (rule show_completion_ok) (use assms in \<open>simp add: browser_ok_def\<close>)
  then have "browser_ok b1" by (simp add: b1_def browser_ok_def)
  then have "browser_ok b3" by (simp add: b3_def browser_ok_def split: option.split)
  then have "keeps_going browser_ok (and_then (refresh_side env (bt_dest ?t) b3) (\<lambda>b'.
             if bt_delete_sources ?t \<noteq> None then refresh_side env (bt_source ?t) b' else (Continue, b')))"
    by (intro keeps_going_then [OF refresh_side_ok [OF ok_but_any]]) (auto intro: refresh_side_ok ok_but_any)
  moreover have "finish_transfer env i r msg b = and_then (refresh_side env (bt_dest ?t) b3) (\<lambda>b'.
             if bt_delete_sources ?t \<noteq> None then refresh_side env (bt_source ?t) b' else (Continue, b'))"
    using False unfolding finish_transfer_def Let_def b3_def b1_def by (simp only: if_False)
  ultimately show ?thesis by simp
qed (use assms in \<open>simp add: finish_transfer_def\<close>)

lemma poll_queries_ok: "browser_ok b \<Longrightarrow> browser_ok (poll_queries b)"
  by (auto simp: poll_queries_def browser_ok_def Let_def split: prod.split option.split)

lemma poll_ok: "browser_ok b \<Longrightarrow> browser_ok (poll msg b)"
  using poll_queries_ok [of b] by (simp add: poll_def Let_def browser_ok_def)

lemma browser_step_ok:
  assumes "browser_ok b"
  shows "keeps_going browser_ok (browser_step ev b)"
proof (cases ev)
  case (Timer env)
  with assms show ?thesis by (auto simp: auto_refresh_def intro: refresh_side_ok ok_but_any)
next
  case (Asked i q)
  with assms show ?thesis by (simp add: browser_ok_def)
qed (use assms handle_key_ok [OF assms] handle_input_mode_ok [OF assms] finish_transfer_ok [OF assms]
    poll_ok [OF assms] in auto)

lemma browser_run_ok: "browser_ok b \<Longrightarrow> keeps_going browser_ok (browser_run evs b)"
proof (induction evs arbitrary: b)
  case (Cons ev evs)
  show ?case
    unfolding browser_run.simps by (rule keeps_going_then [OF browser_step_ok [OF Cons.prems] Cons.IH])
qed simp

text \<open>C7:
  Whatever keys are pressed and whatever the transfers do, as long as the browser runs: in both
  panes the parent entry is in the list, the selection is inside it and the marks are on entries
  of it; and the overwrite dialog is open exactly while a worker waits for its answer.\<close>

theorem browser_invariant:
  assumes "browser_start env (browser_new labels cwds stores envname hidden) = (Continue, b0)"
    and "browser_run evs b0 = (Continue, b)"
  shows "pane_ok (br_pane b sd) \<and> (br_response b \<noteq> None \<longleftrightarrow> is_question (br_mode b))"
proof -
  have "browser_ok b0"
    using refresh_both_ok [of "browser_new labels cwds stores envname hidden" env] assms(1)
    by (simp add: browser_start_def browser_new_def)
  from browser_run_ok [OF this, of evs] assms(2) show ?thesis by (simp add: browser_ok_def)
qed

text \<open>A backend without entries, for the witnesses.\<close>

definition empty_ops :: "unit backend_ops" where
  "empty_ops = \<lparr>bo_list = (\<lambda>p s. Inr []), bo_cd = (\<lambda>p c s. Inr p), bo_delete = (\<lambda>p s. (Inr (), s)),
     bo_rmdir = (\<lambda>p s. (Inr (), s)), bo_mkdir = (\<lambda>p s. (Inr (), s)), bo_rename = (\<lambda>p q s. (Inr (), s))\<rparr>"

definition empty_env :: "unit key_env" where
  "empty_env = \<lparr>ev_ops = (\<lambda>sd. empty_ops), ev_order = sorted_list_of_set, ev_glob = (\<lambda>p n cs. True),
     ev_setup = Opened, ev_download = Inr ()\<rparr>"

definition empty_browser :: "unit browser" where
  "empty_browser = snd (browser_start empty_env (browser_new
     (\<lambda>sd. if sd = LeftSide then LocalPane else RemotePane) (\<lambda>sd. ''/'') (\<lambda>sd. ()) [] False))"

lemma empty_refresh:
  "refresh_side empty_env sd b = (Continue, on_pane sd (\<lambda>_. refresh_entries (br_view b) []
      (br_pane b sd\<lparr>pn_cwd := br_cwd b sd\<rparr>)) b)"
  by (simp add: refresh_side_def refresh_pane_def empty_env_def empty_ops_def)

lemma empty_start:
  "browser_start empty_env (browser_new (\<lambda>sd. if sd = LeftSide then LocalPane else RemotePane)
      (\<lambda>sd. ''/'') (\<lambda>sd. ()) [] False) = (Continue, empty_browser)"
  by (simp add: empty_browser_def browser_start_def refresh_both_def and_then_def empty_refresh)

theorem browser_invariant_witness:
  "pane_ok (br_pane (snd (browser_run
     [Key empty_env \<lparr>ke_code = KDown, ke_ctrl = False, ke_shift = False\<rparr>,
      Key empty_env \<lparr>ke_code = KChar CHR ''v'', ke_ctrl = False, ke_shift = False\<rparr>, Poll []] empty_browser)) LeftSide)"
proof -
  have "br_mode empty_browser = Normal"
    by (simp add: empty_browser_def browser_start_def refresh_both_def and_then_def empty_refresh browser_new_def)
  then have "fst (browser_run
     [Key empty_env \<lparr>ke_code = KDown, ke_ctrl = False, ke_shift = False\<rparr>,
      Key empty_env \<lparr>ke_code = KChar CHR ''v'', ke_ctrl = False, ke_shift = False\<rparr>, Poll []] empty_browser) = Continue"
    by (simp add: and_then_def handle_key_def char_key_def)
  then show ?thesis
    using browser_invariant [OF empty_start, of _ "snd (browser_run
     [Key empty_env \<lparr>ke_code = KDown, ke_ctrl = False, ke_shift = False\<rparr>,
      Key empty_env \<lparr>ke_code = KChar CHR ''v'', ke_ctrl = False, ke_shift = False\<rparr>, Poll []] empty_browser)" LeftSide]
    by (metis prod.collapse)
qed

section \<open>When a disk or a server is changed\<close>

lemma and_then_store: "(\<And>c. br_store (snd (f c)) = br_store c) \<Longrightarrow> br_store (snd (and_then r f)) = br_store (snd r)"
  by (cases r; cases "fst r") (auto simp: and_then_def)

lemma refresh_store [simp]:
  "br_store (snd (refresh_side env sd b)) = br_store b"
  "br_store (snd (refresh_both env b)) = br_store b"
  "br_store (snd (close_and_refresh env b)) = br_store b"
proof -
  show s: "br_store (snd (refresh_side env sd b)) = br_store b" for sd and b :: "'a browser"
    by (simp add: refresh_side_def split: sum.split)
  show r: "br_store (snd (refresh_both env b)) = br_store b" for b :: "'a browser"
    unfolding refresh_both_def by (subst and_then_store) (simp_all add: s)
  show "br_store (snd (close_and_refresh env b)) = br_store b"
    by (simp add: close_and_refresh_def r)
qed

lemma open_directory_store: "br_store (snd (open_directory env name b)) = br_store b"
proof -
  have m: "br_store (moved_to cwd b) = br_store b" for cwd by (simp add: moved_to_def)
  show ?thesis
    unfolding open_directory_def Let_def
    by (cases "bo_cd (ev_ops env (br_active b)) name (br_cwd b (br_active b)) (br_store b (br_active b))")
       (simp_all add: and_then_store m split: option.split)
qed

lemma simple_store [simp]:
  "br_store (request_copy env mv b) = br_store b" "br_store (mark_and_move b) = br_store b"
  "br_store (sort_active b) = br_store b" "br_store (cancel_all b) = br_store b"
  "br_store (ask m b) = br_store b" "br_store (start_copy_transfer env i d sd c bkg mv b) = br_store b"
  "br_store (help_key k b) = br_store b" "br_store (overwrite_key k b) = br_store b"
  "br_store (filter_key k s b) = br_store b" "br_store (confirm_copy_key env k i d sd c mv b) = br_store b"
  "br_store (commit_select env s a x y b) = br_store b" "br_store (poll msg b) = br_store b"
  by (auto simp: request_copy_def mark_and_move_def sort_active_def cancel_all_def ask_def start_copy_transfer_def
      help_key_def overwrite_key_def filter_key_def confirm_copy_key_def commit_select_def poll_def poll_queries_def
      respond_def answer_all_def Let_def split: setup_answer.split option.split prod.split)

lemma handle_key_store: "br_store (snd (handle_key env k b)) = br_store b"
proof -
  have e: "br_store (snd (open_entry env v b)) = br_store b" for v
    by (auto simp: open_entry_def open_directory_store split: option.split sum.split)
  have t: "br_store (snd (toggle_hidden env b)) = br_store b" by (simp add: toggle_hidden_def Let_def)
  have d: "br_store (case ts of [] \<Rightarrow> b | t # ts \<Rightarrow> ask (m t ts) b) = br_store b" for ts m by (cases ts) simp_all
  have r: "br_store (case x of None \<Rightarrow> b | Some e \<Rightarrow> if P e then b else ask (f e) b) = br_store b" for x P f
    by (simp split: option.split)
  have "br_store (snd (char_key env c ctrl shift b)) = br_store b" for c ctrl shift
    by (simp add: char_key_def and_then_store t d r)
  then show ?thesis
    by (cases "ke_code k") (simp_all add: handle_key_def e d escape_key_def open_directory_store)
qed

text \<open>The keys that confirm a change.\<close>

definition confirms :: "key_code \<Rightarrow> 's browser \<Rightarrow> bool" where
  "confirms k b \<longleftrightarrow>
     (case br_mode b of
        ConfirmDelete es \<Rightarrow> k \<in> {KChar CHR ''y'', KChar CHR ''Y''} \<or> k = KEnter \<and> br_focus b = 0
      | MkdirPrompt s \<Rightarrow> k = KEnter \<and> br_focus b = 0 \<and> \<not> bad_name (trim s)
      | RenamePrompt s e \<Rightarrow> k = KEnter \<and> br_focus b = 0 \<and> \<not> bad_name (trim s)
      | _ \<Rightarrow> False)"

lemma perform_store:
  "sd \<noteq> br_active b \<Longrightarrow> br_store (snd (perform_delete env es b)) sd = br_store b sd"
  "sd \<noteq> br_active b \<Longrightarrow> br_store (snd (commit_mkdir env s b)) sd = br_store b sd"
  "sd \<noteq> br_active b \<Longrightarrow> br_store (snd (commit_rename env s e b)) sd = br_store b sd"
  "bad_name (trim s) \<Longrightarrow> br_store (snd (commit_mkdir env s b)) = br_store b"
  "bad_name (trim s) \<Longrightarrow> br_store (snd (commit_rename env s e b)) = br_store b"
  by (auto simp: perform_delete_def commit_mkdir_def commit_rename_def Let_def
      split: prod.split option.split sum.split)

lemma commit_goto_store: "br_store (snd (commit_goto env s b)) = br_store b"
proof -
  have m: "br_store (moved_to cwd b) = br_store b" for cwd by (simp add: moved_to_def)
  show ?thesis by (simp add: commit_goto_def Let_def and_then_store m split: sum.split)
qed

lemma commit_input_store:
  assumes "br_store (snd (commit_input env b)) sd \<noteq> br_store b sd"
  shows "confirms KEnter b \<and> sd = br_active b"
proof -
  let ?b = "b\<lparr>br_mode := Normal\<rparr>"
  have p: "sd \<noteq> br_active ?b \<Longrightarrow> br_store (snd (commit_mkdir env s ?b)) sd = br_store ?b sd"
    "sd \<noteq> br_active ?b \<Longrightarrow> br_store (snd (commit_rename env s e ?b)) sd = br_store ?b sd"
    "bad_name (trim s) \<Longrightarrow> br_store (snd (commit_mkdir env s ?b)) = br_store ?b"
    "bad_name (trim s) \<Longrightarrow> br_store (snd (commit_rename env s e ?b)) = br_store ?b" for s e
    by (rule perform_store; assumption)+
  show ?thesis
    using assms p by (cases "br_mode b")
      (auto simp: commit_input_def confirms_def Let_def commit_goto_store split: if_splits)
qed

lemma confirm_delete_store:
  assumes "br_store (snd (confirm_delete_key env k es b)) sd \<noteq> br_store b sd" "br_mode b = ConfirmDelete es"
  shows "confirms k b \<and> sd = br_active b"
  using assms perform_store(1) [of sd "b\<lparr>br_mode := Normal\<rparr>" env es]
  by (auto simp: confirm_delete_key_def confirms_def Let_def split: if_splits)

lemma prompt_key_store:
  assumes "br_store (snd (prompt_key env k b)) sd \<noteq> br_store b sd"
  shows "confirms k b \<and> sd = br_active b"
proof (cases "edit_mode k (br_mode b)")
  case None
  show ?thesis
  proof (cases "\<exists>es. br_mode b = ConfirmDelete es")
    case True
    then obtain es where es: "br_mode b = ConfirmDelete es" by blast
    with None assms have "br_store (snd (confirm_delete_key env k es b)) sd \<noteq> br_store b sd"
      by (simp add: prompt_key_def)
    from confirm_delete_store [OF this es] show ?thesis .
  next
    case False
    with None assms have "k = KEnter \<and> br_store (snd (commit_input env b)) sd \<noteq> br_store b sd"
      by (cases "br_mode b") (auto simp: prompt_key_def split: if_splits)
    with commit_input_store show ?thesis by blast
  qed
qed (use assms in \<open>simp add: prompt_key_def\<close>)

lemma focus_key_store: "focus_key k b = Some b' \<Longrightarrow> br_store b' = br_store b"
  by (cases "br_mode b") (auto simp: focus_key_def Let_def split: if_splits)

lemma complete_key_store: "br_store (snd (complete_key env k retry b)) = br_store b"
  by (simp add: complete_key_def split: option.split)

lemma popup_key_store: "br_store (snd (popup_key env k b)) = br_store b"
  by (simp add: popup_key_def Let_def and_then_store)

lemma handle_input_mode_store:
  assumes "br_store (snd (handle_input_mode env ev b)) sd \<noteq> br_store b sd"
  shows "confirms (ke_code ev) b \<and> sd = br_active b"
proof -
  have "br_store (snd (handle_input_mode env ev b)) = br_store b
      \<or> handle_input_mode env ev b = prompt_key env (ke_code ev) b"
  proof (cases "focus_key (ke_code ev) b")
    case None
    then show ?thesis
      by (cases "br_mode b") (simp_all add: handle_input_mode_def Let_def complete_key_store popup_key_store)
  next
    case (Some b')
    from focus_key_store [OF this] Some show ?thesis
      by (cases "br_mode b") (simp_all add: handle_input_mode_def Let_def complete_key_store popup_key_store)
  qed
  with assms have "br_store (snd (prompt_key env (ke_code ev) b)) sd \<noteq> br_store b sd" by auto
  then show ?thesis by (rule prompt_key_store)
qed

lemma finish_transfer_store:
  assumes "br_store (snd (finish_transfer env i r msg b)) sd \<noteq> br_store b sd"
  shows "i < length (br_transfers b) \<and> bt_delete_sources (br_transfers b ! i) \<noteq> None
    \<and> sd = bt_source (br_transfers b ! i) \<and> 0 < tr_copied r \<and> tr_error r = None"
proof -
  let ?t = "br_transfers b ! i"
  have i: "i < length (br_transfers b)" using assms by (rule_tac ccontr) (simp add: finish_transfer_def)
  have s: "br_store (show_completion t r msg c) = br_store c" for t and c :: "'a browser"
    by (simp add: show_completion_def)
  have "br_store (snd (finish_transfer env i r msg b)) sd = br_store b sd"
    if "bt_delete_sources ?t = None \<or> \<not> (0 < tr_copied r \<and> tr_error r = None)"
    using that i unfolding finish_transfer_def Let_def
    by (subst and_then_store | auto simp: and_then_store s split: option.split)+
  moreover have "br_store (snd (finish_transfer env i r msg b)) sd = br_store b sd"
    if "sd \<noteq> bt_source ?t"
    using that i unfolding finish_transfer_def Let_def
    by (auto simp: and_then_store s split: option.split)
  ultimately show ?thesis
    using assms i
    by (cases "bt_delete_sources ?t = None \<or> \<not> (0 < tr_copied r \<and> tr_error r = None)"; cases "sd = bt_source ?t") auto
qed


text \<open>A backend that records removals, for the next property and the witnesses.\<close>

definition item_op :: "batch_item \<Rightarrow> rm_op" where
  "item_op t = (case t of (path, name, isdir, n) \<Rightarrow> if isdir then RmDir path else RmFile path)"

definition logs_removals :: "rm_op list backend_ops \<Rightarrow> bool" where
  "logs_removals ops \<longleftrightarrow> (\<forall>p s. bo_delete ops p s = (Inr (), s @ [RmFile p]) \<and> bo_rmdir ops p s = (Inr (), s @ [RmDir p]))"

definition log_env :: "file_entry list \<Rightarrow> rm_op list key_env" where
  "log_env es =
     \<lparr>ev_ops = (\<lambda>sd. \<lparr>bo_list = (\<lambda>p s. Inr es), bo_cd = (\<lambda>p c s. Inr p),
        bo_delete = (\<lambda>p s. (Inr (), s @ [RmFile p])), bo_rmdir = (\<lambda>p s. (Inr (), s @ [RmDir p])),
        bo_mkdir = (\<lambda>p s. (Inr (), s)), bo_rename = (\<lambda>p q s. (Inr (), s))\<rparr>),
      ev_order = sorted_list_of_set, ev_glob = (\<lambda>p n cs. True), ev_setup = Opened, ev_download = Inr ()\<rparr>"

definition log_browser :: "file_entry list \<Rightarrow> rm_op list browser" where
  "log_browser es = snd (browser_start (log_env es) (browser_new
     (\<lambda>sd. if sd = LeftSide then LocalPane else RemotePane) (\<lambda>sd. ''/'') (\<lambda>sd. []) [] False))"

definition plain_key :: "key_code \<Rightarrow> key_event" where
  "plain_key k = \<lparr>ke_code = k, ke_ctrl = False, ke_shift = False\<rparr>"

lemma log_refresh:
  "refresh_side (log_env es) sd b = (Continue, on_pane sd (\<lambda>_. refresh_entries (br_view b) es
      (br_pane b sd\<lparr>pn_cwd := br_cwd b sd\<rparr>)) b)"
  by (simp add: refresh_side_def refresh_pane_def log_env_def)

lemma log_browser_sel:
  "br_mode (log_browser es) = Normal" "br_active (log_browser es) = LeftSide"
  "br_store (log_browser es) = (\<lambda>sd. [])" "browser_ok (log_browser es)" "br_transfers (log_browser es) = []"
  "br_pane (log_browser es) LeftSide = refresh_entries
     \<lparr>vw_show_hidden = False, vw_sort_by = Name, vw_sort_asc = True, vw_filter = None\<rparr> es (pane_new ''/'')"
proof -
  have "browser_ok (snd (refresh_both (log_env es) (browser_new
     (\<lambda>sd. if sd = LeftSide then LocalPane else RemotePane) (\<lambda>sd. ''/'') (\<lambda>sd. [] :: rm_op list) [] False)))"
    using refresh_both_ok [of "browser_new
     (\<lambda>sd. if sd = LeftSide then LocalPane else RemotePane) (\<lambda>sd. ''/'') (\<lambda>sd. [] :: rm_op list) [] False" "log_env es"]
    by (simp add: refresh_both_def and_then_def log_refresh browser_new_def)
  then show "browser_ok (log_browser es)" by (simp add: log_browser_def browser_start_def)
qed (simp_all add: log_browser_def browser_start_def refresh_both_def and_then_def log_refresh browser_new_def
      pane_new_def on_pane_def)

lemma delete_entries_log:
  "logs_removals ops \<Longrightarrow> delete_entries ops ts s = (None, s @ map item_op ts)"
  by (induction ts arbitrary: s) (auto simp: logs_removals_def item_op_def)

lemma press_y:
  assumes "br_mode b = ConfirmDelete ts" "logs_removals (ev_ops env (br_active b))"
  shows "br_store (snd (browser_run [Key env (plain_key (KChar CHR ''y''))] b)) (br_active b)
    = br_store b (br_active b) @ map item_op ts"
proof -
  have "browser_step (Key env (plain_key (KChar CHR ''y''))) b = perform_delete env ts (b\<lparr>br_mode := Normal\<rparr>)"
    using assms(1) by (simp add: plain_key_def handle_input_mode_def focus_key_def prompt_key_def
        edit_mode_def is_edit_def confirm_delete_key_def Let_def)
  moreover have "br_store (snd (perform_delete env ts (b\<lparr>br_mode := Normal\<rparr>))) (br_active b)
      = br_store b (br_active b) @ map item_op ts"
    using delete_entries_log [OF assms(2)] by (simp add: perform_delete_def Let_def)
  ultimately show ?thesis by (simp add: and_then_store)
qed


text \<open>
  Pressing d and then y in a pane removes exactly its marked entries, or else the selected one,
  each once if the marks are listed once, and never the parent entry; directories are removed
  as directories.\<close>

lemma delete_removes_marked:
  assumes "browser_ok b" "br_mode b = Normal" "logs_removals (ev_ops env (br_active b))"
    and "set (ev_order env (pn_marked (active_pane b))) = pn_marked (active_pane b)"
    and "r = browser_run [Key env (plain_key (KChar CHR ''d'')), Key env (plain_key (KChar CHR ''y''))] b"
  shows "\<exists>ops. br_store (snd r) (br_active b) = br_store b (br_active b) @ ops
    \<and> set ops = (\<lambda>e. if fe_is_dir e then RmDir (fe_path e) else RmFile (fe_path e)) ` {e. fe_name e \<noteq> ''..'' \<and>
      (\<exists>i < length (pn_entries (active_pane b)). e = pn_entries (active_pane b) ! i
        \<and> (if pn_marked (active_pane b) = {} then i = pn_selected (active_pane b) else i \<in> pn_marked (active_pane b)))}"
proof -
  let ?ts = "collect_batch_targets (ev_order env) (active_pane b)"
  have ok: "pane_ok (active_pane b)" using assms(1) by (simp add: browser_ok_def active_pane_def)
  have i: "item_op (batch_item_of e) = (if fe_is_dir e then RmDir (fe_path e) else RmFile (fe_path e))" for e
    by (simp add: item_op_def batch_item_of_def)
  have s: "set (map item_op ?ts) = (\<lambda>e. if fe_is_dir e then RmDir (fe_path e) else RmFile (fe_path e)) ` {e. fe_name e \<noteq> ''..'' \<and>
      (\<exists>i < length (pn_entries (active_pane b)). e = pn_entries (active_pane b) ! i
        \<and> (if pn_marked (active_pane b) = {} then i = pn_selected (active_pane b) else i \<in> pn_marked (active_pane b)))}"
    unfolding set_map batch_targets [of "active_pane b" "ev_order env", OF ok assms(4)] image_image i ..
  have "br_store (snd r) (br_active b) = br_store b (br_active b) @ map item_op ?ts"
  proof (cases ?ts)
    case Nil
    then have "browser_step (Key env (plain_key (KChar CHR ''d''))) b = (Continue, b)"
      using assms(2) by (simp add: plain_key_def handle_key_def char_key_def)
    moreover have "browser_step (Key env (plain_key (KChar CHR ''y''))) b = (Continue, b)"
      using assms(2) by (simp add: plain_key_def handle_key_def char_key_def)
    ultimately show ?thesis using assms(5) Nil by (simp add: and_then_def)
  next
    case (Cons t ts)
    let ?b = "ask (ConfirmDelete ?ts) b"
    from Cons have "browser_step (Key env (plain_key (KChar CHR ''d''))) b = (Continue, ?b)"
      using assms(2) by (simp add: plain_key_def handle_key_def char_key_def)
    then have "r = browser_run [Key env (plain_key (KChar CHR ''y''))] ?b"
      using assms(5) by (simp add: and_then_def)
    moreover have "br_mode ?b = ConfirmDelete ?ts" "br_active ?b = br_active b" "br_store ?b = br_store b"
      by (simp_all add: ask_def)
    ultimately show ?thesis using press_y [of ?b ?ts env] assms(3) by simp
  qed
  with s show ?thesis by blast
qed

lemma delete_removes_marked_witness:
  "set (br_store (snd (browser_run [Key (log_env [dot_dot\<lparr>fe_name := ''a'', fe_path := ''/a''\<rparr>]) (plain_key (KChar CHR ''d'')),
      Key (log_env [dot_dot\<lparr>fe_name := ''a'', fe_path := ''/a''\<rparr>]) (plain_key (KChar CHR ''y''))]
      (on_active move_down (log_browser [dot_dot\<lparr>fe_name := ''a'', fe_path := ''/a''\<rparr>])))) LeftSide) = {RmDir ''/a''}"
proof -
  let ?e = "dot_dot\<lparr>fe_name := ''a'', fe_path := ''/a''\<rparr>"
  let ?b = "on_active move_down (log_browser [?e])" and ?env = "log_env [?e]"
  have n: "fe_name ?e = ''a''" "fe_path ?e = ''/a''" "fe_is_dir ?e" "fe_name dot_dot = ''..''"
    by (simp_all add: dot_dot_def)
  have p: "active_pane ?b = move_down (refresh_entries
     \<lparr>vw_show_hidden = False, vw_sort_by = Name, vw_sort_asc = True, vw_filter = None\<rparr> [?e] (pane_new ''/''))"
    by (simp add: active_pane_def on_active_def log_browser_sel)
  have m: "pn_marked (active_pane ?b) = {}" "pn_selected (active_pane ?b) = 1"
    "pn_entries (active_pane ?b) = [dot_dot, ?e]"
    unfolding p by (simp_all add: refresh_entries_def Let_def sort_entries_def sort_by_def pane_new_def
        move_down_def select_at_def last_index_def starts_with_def matches_filter_def)
  have b: "browser_ok ?b" "br_mode ?b = Normal" "br_store ?b LeftSide = []" "br_active ?b = LeftSide"
    by (simp_all add: on_active_moves_ok log_browser_sel)
  have l: "logs_removals (ev_ops ?env (br_active ?b))" by (simp add: logs_removals_def log_env_def)
  have o: "set (ev_order ?env (pn_marked (active_pane ?b))) = pn_marked (active_pane ?b)"
    unfolding m by (simp add: log_env_def)
  have t: "{e. fe_name e \<noteq> ''..'' \<and> (\<exists>i < length [dot_dot, ?e]. e = [dot_dot, ?e] ! i
        \<and> (if {} = {} then i = 1 else i \<in> {}))} = {?e}"
    using n by auto
  obtain ops where r: "br_store (snd (browser_run [Key ?env (plain_key (KChar CHR ''d'')),
      Key ?env (plain_key (KChar CHR ''y''))] ?b)) (br_active ?b) = br_store ?b (br_active ?b) @ ops"
    and q: "set ops = (\<lambda>e. if fe_is_dir e then RmDir (fe_path e) else RmFile (fe_path e)) ` {e. fe_name e \<noteq> ''..'' \<and>
      (\<exists>i < length (pn_entries (active_pane ?b)). e = pn_entries (active_pane ?b) ! i
        \<and> (if pn_marked (active_pane ?b) = {} then i = pn_selected (active_pane ?b) else i \<in> pn_marked (active_pane ?b)))}"
    using delete_removes_marked [OF b(1,2) l o refl] by (elim exE conjE)
  show ?thesis
    unfolding r [unfolded b(4), unfolded b(3) append_Nil] q m t using n by simp
qed

text \<open>
  The first removal that fails leaves the browser, with what was removed before it gone; a failed
  \<open>mkdir\<close> or rename only shows a message.
\<close>

lemma failed_delete_exits:
  assumes "bo_delete (ev_ops env (br_active b)) path (br_store b (br_active b)) = (Inl e, s)"
  shows "perform_delete env ((path, name, False, n) # ts) b = (Exit e, set_store (br_active b) s b)"
  using assms by (simp add: perform_delete_def Let_def)

lemma failed_cd_exits:
  assumes "bo_cd (ev_ops env (br_active b)) name (br_cwd b (br_active b)) (br_store b (br_active b)) = Inl e"
  shows "open_directory env name b = (Exit e, b)"
  using assms by (simp add: open_directory_def Let_def)

end
