(* ===== verification/Browser_Questions.thy ===== *)
theory Browser_Questions
  imports Browser_Correct
begin

text \<open>
  The questions workers ask before they overwrite a file: how they travel from the channel of a
  transfer to the prompt and to their answer, over every event of the browser.
\<close>

section \<open>Questions of the workers\<close>

text \<open>The questions that wait, in a channel or on the screen, and those answered.\<close>

definition waiting :: "'s browser \<Rightarrow> nat multiset" where
  "waiting b = mset (concat (map (map qu_id \<circ> bt_queries) (br_transfers b)))
     + (case br_response b of None \<Rightarrow> {#} | Some i \<Rightarrow> {#i#})"

definition tally :: "'s browser \<Rightarrow> nat multiset" where
  "tally b = mset (map fst (br_answers b)) + waiting b"

lemma tally_same:
  assumes "map bt_queries (br_transfers b') = map bt_queries (br_transfers b)"
    "br_response b' = br_response b" "br_answers b' = br_answers b"
  shows "tally b' = tally b"
proof -
  have m: "map (map qu_id \<circ> bt_queries) ts = map (map qu_id) (map bt_queries ts)" for ts by simp
  show ?thesis unfolding tally_def waiting_def m assms ..
qed

lemma tally_remove: "tally (b\<lparr>br_transfers := remove_at i (br_transfers b)\<rparr>) \<subseteq># tally b"
proof -
  have "mset (concat (map f (remove_at i xs))) \<subseteq># mset (concat (map f xs))" for f :: "transfer \<Rightarrow> nat list" and xs
  proof (cases "i < length xs")
    case True
    then have "xs = take i xs @ xs ! i # drop (Suc i) xs" by (rule id_take_nth_drop)
    then have "mset (concat (map f xs)) = mset (concat (map f (take i xs @ xs ! i # drop (Suc i) xs)))" by simp
    then show ?thesis by (simp add: remove_at_def)
  qed (simp add: remove_at_def)
  then show ?thesis by (simp add: tally_def waiting_def)
qed

lemma and_then_tally:
  assumes "tally (snd r) \<subseteq># T" "\<And>c. tally (snd (f c)) \<subseteq># tally c"
  shows "tally (snd (and_then r f)) \<subseteq># T"
proof (cases "fst r = Continue")
  case True
  then have "and_then r f = f (snd r)" by (simp add: and_then_def)
  with assms(1) assms(2) [of "snd r"] show ?thesis using subset_mset.order_trans by metis
next
  case False
  then have "and_then r f = r" by (cases "fst r") (simp_all add: and_then_def)
  with assms(1) show ?thesis by simp
qed

lemma refresh_side_tally: "tally (snd (refresh_side env sd b)) = tally b"
  unfolding refresh_side_def by (auto intro!: tally_same split: sum.split)

lemma refresh_both_tally: "tally (snd (refresh_both env b)) \<subseteq># tally b"
  unfolding refresh_both_def by (rule and_then_tally) (simp_all add: refresh_side_tally)

lemma tally_updates [simp]:
  "tally (b\<lparr>br_mode := m\<rparr>) = tally b" "tally (b\<lparr>br_status := st\<rparr>) = tally b" "tally (b\<lparr>br_focus := n\<rparr>) = tally b"
  "tally (b\<lparr>br_view := v\<rparr>) = tally b" "tally (b\<lparr>br_popup_index := n\<rparr>) = tally b"
  "tally (b\<lparr>br_redraw := r\<rparr>) = tally b" "tally (b\<lparr>br_help_scroll := n\<rparr>) = tally b"
  "tally (b\<lparr>br_active := sd\<rparr>) = tally b" "tally (on_pane sd f b) = tally b" "tally (on_active f b) = tally b"
  "tally (set_filter flt b) = tally b" "tally (set_store sd st' b) = tally b" "tally (clamp_popup b) = tally b"
  "tally (moved_to cwd b) = tally b" "tally (ask m b) = tally b" "tally (sort_active b) = tally b"
  by (rule tally_same; simp add: moved_to_def ask_def sort_active_def)+

lemma tally_simple [simp]:
  "tally (request_copy env mv b) = tally b" "tally (mark_and_move b) = tally b" "tally (cancel_all b) = tally b"
  "tally (help_key k b) = tally b" "tally (filter_key k s b) = tally b"
  "tally (commit_select env s a x y b) = tally b" "tally (show_completion t r msg b) = tally b"
  by (rule tally_same; auto simp: request_copy_def mark_and_move_def cancel_all_def help_key_def filter_key_def
      commit_select_def show_completion_def Let_def)+

lemma start_copy_tally [simp]: "tally (start_copy_transfer env i d sd c bkg mv b) = tally b"
proof (cases "ev_setup env")
  case Opened
  have "bt_queries (new_transfer i d sd c mv) = []" by (simp add: new_transfer_def)
  with Opened show ?thesis
    by (simp add: start_copy_transfer_def tally_def waiting_def Let_def)
qed (simp_all add: start_copy_transfer_def)

lemma refresh_tally [simp]:
  "tally (snd (refresh_side env sd b)) \<subseteq># tally b" "tally (snd (refresh_both env b)) \<subseteq># tally b"
  "tally (snd (close_and_refresh env b)) \<subseteq># tally b"
  using refresh_both_tally [of env "b\<lparr>br_mode := Normal\<rparr>"]
  by (simp_all add: refresh_side_tally refresh_both_tally close_and_refresh_def)

lemma open_directory_tally: "tally (snd (open_directory env name b)) \<subseteq># tally b"
proof (cases "bo_cd (ev_ops env (br_active b)) name (br_cwd b (br_active b)) (br_store b (br_active b))")
  case (Inr cwd)
  have "tally (snd (refresh_side env (br_active b) ((moved_to cwd b)\<lparr>br_status := None\<rparr>))) \<subseteq># tally b"
    by (simp add: refresh_side_tally)
  with Inr show ?thesis
    unfolding open_directory_def Let_def by (auto intro!: and_then_tally split: option.split)
qed (simp add: open_directory_def Let_def)

lemma handle_key_tally: "tally (snd (handle_key env k b)) \<subseteq># tally b"
proof -
  have e: "tally (snd (open_entry env v b)) \<subseteq># tally b" for v
    by (auto simp: open_entry_def open_directory_tally split: option.split sum.split)
  have t: "tally (snd (toggle_hidden env b)) \<subseteq># tally b"
    using refresh_both_tally [of env "b\<lparr>br_view := x, br_status := y\<rparr>" for x y]
    by (simp add: toggle_hidden_def Let_def)
  have d: "tally (case ts of [] \<Rightarrow> b | t # ts \<Rightarrow> ask (m t ts) b) = tally b" for ts m by (cases ts) simp_all
  have r: "tally (case x of None \<Rightarrow> b | Some e \<Rightarrow> if P e then b else ask (f e) b) = tally b" for x P f
    by (simp split: option.split)
  have f: "tally (snd (and_then (refresh_both env b) (\<lambda>b'. (Continue, b'\<lparr>br_status := Some ''Refreshed''\<rparr>)))) \<subseteq># tally b"
    by (rule and_then_tally) simp_all
  have "tally (snd (char_key env c ctrl shift b)) \<subseteq># tally b" for c ctrl shift
    by (simp add: char_key_def t d r f)
  then show ?thesis
    by (cases "ke_code k") (simp_all add: handle_key_def e d escape_key_def open_directory_tally)
qed

lemma respond_tally: "tally (respond a b) = tally b"
  by (simp add: respond_def tally_def waiting_def split: option.split)

lemma answer_all_tally: "tally (answer_all a b) = tally b"
proof -
  have "map fst (concat (map (fst \<circ> answer_queries a) ts)) = concat (map (map qu_id \<circ> bt_queries) ts)" for ts
    by (induction ts) (simp_all add: answer_queries_def comp_def)
  moreover have "concat (map (map qu_id \<circ> bt_queries) (map (snd \<circ> answer_queries a) ts)) = []" for ts
    by (simp add: answer_queries_def)
  ultimately show ?thesis unfolding tally_def waiting_def answer_all_def by simp
qed

lemma overwrite_key_tally: "tally (overwrite_key k b) = tally b"
  by (simp add: overwrite_key_def Let_def respond_tally answer_all_tally)

lemma remove_tally:
  "tally (b\<lparr>br_transfers := remove_at i (br_transfers b), br_status := st\<rparr>) \<subseteq># tally b"
  using tally_remove [of i b] by simp

lemma remove_clamped_tally:
  "tally (clamp_popup (b\<lparr>br_transfers := remove_at i (br_transfers b), br_status := st\<rparr>)) \<subseteq># tally b"
  using remove_tally by (simp add: remove_tally)

lemma map_update_same: "f y = f (xs ! i) \<Longrightarrow> map f (xs[i := y]) = map f xs"
  by (rule nth_equalityI) (simp_all, metis nth_list_update_eq nth_list_update_neq)

lemma popup_key_tally: "tally (snd (popup_key env k b)) \<subseteq># tally b"
proof -
  have s: "tally (b\<lparr>br_transfers := (br_transfers b)[i := (br_transfers b ! i)\<lparr>bt_skip := True\<rparr>]\<rparr>) = tally b" for i
    by (rule tally_same) (simp_all add: map_update_same)
  have r: "tally (snd (refresh_both env (clamp_popup
      (b\<lparr>br_transfers := remove_at i (br_transfers b), br_status := st\<rparr>)))) \<subseteq># tally b" for i st
    by (rule subset_mset.order_trans [OF refresh_tally(2) remove_clamped_tally])
  have a: "tally (snd (and_then (if P then refresh_both env (clamp_popup
        (b\<lparr>br_transfers := remove_at i (br_transfers b), br_status := st\<rparr>)) else (Continue, b))
      (\<lambda>b'. (Continue, if br_transfers b' = [] then b'\<lparr>br_mode := Normal\<rparr> else b')))) \<subseteq># tally b" for P i st
    by (rule and_then_tally) (simp_all add: r)
  show ?thesis
    unfolding popup_key_def Let_def using a by (simp add: s del: append.simps)
qed

lemma complete_key_tally: "tally (snd (complete_key env k retry b)) \<subseteq># tally b"
  by (simp add: complete_key_def split: option.split)

lemma confirm_copy_tally [simp]: "tally (confirm_copy_key env k its d sd c mv b) = tally b"
  by (simp add: confirm_copy_key_def Let_def)

lemma refreshed_update_tally:
  "tally b' = tally b \<Longrightarrow> tally (snd (refresh_side env sd b')) \<subseteq># tally b"
  by (simp add: refresh_side_tally)

lemma perform_delete_tally: "tally (snd (perform_delete env es b)) \<subseteq># tally b"
  unfolding perform_delete_def Let_def
  by (auto intro!: refreshed_update_tally split: prod.split option.split)

lemma confirm_delete_tally: "tally (snd (confirm_delete_key env k es b)) \<subseteq># tally b"
  using perform_delete_tally [of env es "b\<lparr>br_mode := Normal\<rparr>"]
  by (simp add: confirm_delete_key_def Let_def)

lemma commit_tally:
  "tally (snd (commit_mkdir env s b)) \<subseteq># tally b" "tally (snd (commit_rename env s e b)) \<subseteq># tally b"
  "tally (snd (commit_goto env s b)) \<subseteq># tally b"
proof -
  show "tally (snd (commit_mkdir env s b)) \<subseteq># tally b" "tally (snd (commit_rename env s e b)) \<subseteq># tally b"
    unfolding commit_mkdir_def commit_rename_def Let_def
    by (auto intro!: refreshed_update_tally split: prod.split sum.split)
  show "tally (snd (commit_goto env s b)) \<subseteq># tally b"
    unfolding commit_goto_def Let_def
    by (auto intro!: refreshed_update_tally and_then_tally split: sum.split)
qed

lemma commit_input_tally: "tally (snd (commit_input env b)) \<subseteq># tally b"
proof -
  have n: "tally b' \<subseteq># tally (b\<lparr>br_mode := Normal\<rparr>) \<Longrightarrow> tally b' \<subseteq># tally b" for b' by simp
  show ?thesis
    unfolding commit_input_def Let_def
    by (cases "br_mode b"; simp only: input_mode.simps; rule n)
      (auto intro: commit_tally simp del: tally_updates(1))
qed

lemma prompt_key_tally: "tally (snd (prompt_key env k b)) \<subseteq># tally b"
proof -
  have e: "tally (snd (if k = KEsc then (Continue, b') else if k = KEnter then commit_input env b
      else (Continue, b))) \<subseteq># tally b" if "tally b' = tally b" for b'
    using that by (simp add: commit_input_tally)
  show ?thesis
  proof (cases "edit_mode k (br_mode b)")
    case None
    show ?thesis unfolding prompt_key_def None option.simps
      by (cases "br_mode b"; simp only: input_mode.simps; (rule confirm_delete_tally | rule e); simp)
  qed (simp add: prompt_key_def)
qed

lemma focus_key_tally: "focus_key k b = Some b' \<Longrightarrow> tally b' = tally b"
  unfolding focus_key_def Let_def by (cases "br_mode b") (auto split: if_splits)

lemma input_mode_tally: "tally (snd (handle_input_mode env k b)) \<subseteq># tally b"
proof (cases "focus_key (ke_code k) b")
  case (Some b')
  then show ?thesis
    using focus_key_tally [OF Some]
    by (cases "br_mode b") (simp_all add: handle_input_mode_def Let_def complete_key_tally popup_key_tally
        overwrite_key_tally)
next
  case None
  then show ?thesis
    by (cases "br_mode b") (simp_all add: handle_input_mode_def Let_def complete_key_tally popup_key_tally
        overwrite_key_tally prompt_key_tally)
qed

definition after_move :: "'s key_env \<Rightarrow> transfer \<Rightarrow> transfer_result \<Rightarrow> 's browser \<Rightarrow> 's browser" where
  "after_move env t r b =
     (case bt_delete_sources t of
        Some sources \<Rightarrow>
          if 0 < tr_copied r \<and> tr_error r = None then
            set_store (bt_source t)
              (remove_sources (ev_ops env (bt_source t)) (rev sources) (br_store b (bt_source t))) b
          else b
      | None \<Rightarrow> b)"

lemma after_move_tally [simp]: "tally (after_move env t r b) = tally b"
  by (simp add: after_move_def split: option.split)

lemma finish_tally: "tally (snd (finish_transfer env i r msg b)) \<subseteq># tally b"
proof (cases "length (br_transfers b) \<le> i")
  case False
  let ?t = "br_transfers b ! i"
  let ?b = "clamp_popup (show_completion ?t r msg (b\<lparr>br_transfers := remove_at i (br_transfers b)\<rparr>))"
  let ?b' = "(after_move env ?t r ?b)
      \<lparr>br_status := Some (format_transfer_result r (bt_description ?t) (bt_delete_sources ?t \<noteq> None))\<rparr>"
  have f: "finish_transfer env i r msg b = and_then (refresh_side env (bt_dest ?t) ?b')
      (\<lambda>b'. if bt_delete_sources ?t \<noteq> None then refresh_side env (bt_source ?t) b' else (Continue, b'))"
    using False by (simp only: finish_transfer_def after_move_def Let_def if_False)
  have "tally ?b' \<subseteq># tally b" by (simp add: tally_remove)
  then have "tally (snd (refresh_side env (bt_dest ?t) ?b')) \<subseteq># tally b" by (simp only: refresh_side_tally)
  then show ?thesis unfolding f by (rule and_then_tally) simp
qed (simp add: finish_transfer_def)

lemma scan_tally:
  "scan_transfers policy ts = (as, ts', q) \<Longrightarrow>
     mset (concat (map (map qu_id \<circ> bt_queries) ts)) =
       mset (map fst as) + mset (concat (map (map qu_id \<circ> bt_queries) ts'))
         + (case q of None \<Rightarrow> {#} | Some x \<Rightarrow> {#qu_id x#})"
proof (induction ts arbitrary: as ts' q)
  case (Cons t ts)
  then show ?case
    by (auto simp: answer_queries_def Let_def comp_def multiset.map_comp split: if_splits prod.splits list.splits)
qed simp

lemma poll_tally: "tally (poll_queries b) \<subseteq># tally b"
proof (cases "is_question (br_mode b)")
  case False
  obtain as ts q where s: "scan_transfers (br_policy b) (br_transfers b) = (as, ts, q)" by (rule prod_cases3)
  show ?thesis
    using False s scan_tally [OF s]
    by (auto simp: poll_queries_def Let_def tally_def waiting_def split: option.split)
qed (simp add: poll_queries_def)

lemma poll_status_tally: "tally (poll msg b) \<subseteq># tally b"
  using poll_tally [of b] by (simp add: poll_def Let_def)

text \<open>The questions that arrive; one for a transfer that is gone is never seen.\<close>

fun asked :: "'s browser_event list \<Rightarrow> nat list" where
  "asked [] = []"
| "asked (Asked i q # evs) = qu_id q # asked evs"
| "asked (_ # evs) = asked evs"

lemma asked_tally: "tally (snd (browser_step (Asked i q) b)) \<subseteq># tally b + {#qu_id q#}"
proof (cases "i < length (br_transfers b)")
  case True
  let ?ts = "br_transfers b" and ?f = "map qu_id \<circ> bt_queries"
  let ?t = "(?ts ! i)\<lparr>bt_queries := bt_queries (?ts ! i) @ [q]\<rparr>"
  have split: "?ts = take i ?ts @ ?ts ! i # drop (Suc i) ?ts" "?ts[i := ?t] = take i ?ts @ ?t # drop (Suc i) ?ts"
    using True by (rule id_take_nth_drop, simp add: True upd_conv_take_nth_drop)
  have "mset (concat (map ?f (?ts[i := ?t]))) =
      mset (concat (map ?f (take i ?ts @ ?ts ! i # drop (Suc i) ?ts))) + {#qu_id q#}"
    unfolding split(2) by (simp add: comp_def)
  also have "take i ?ts @ ?ts ! i # drop (Suc i) ?ts = ?ts" using split(1) by (rule sym)
  finally have "mset (concat (map ?f (?ts[i := ?t]))) = mset (concat (map ?f ?ts)) + {#qu_id q#}" .
  with True show ?thesis
    by (simp only: browser_step.simps snd_conv if_True tally_def waiting_def browser.simps) (simp add: ac_simps)
qed simp

lemma step_tally: "tally (snd (browser_step ev b)) \<subseteq># tally b + mset (asked [ev])"
proof (cases ev)
  case (Asked i q)
  then show ?thesis using asked_tally [of i q b] by simp
qed (simp_all add: handle_key_tally input_mode_tally finish_tally poll_status_tally auto_refresh_def)

lemma asked_Cons: "asked (ev # evs) = asked [ev] @ asked evs"
  by (cases ev) simp_all

lemma run_tally: "tally (snd (browser_run evs b)) \<subseteq># tally b + mset (asked evs)"
proof (induction evs arbitrary: b)
  case (Cons ev evs)
  let ?b = "snd (browser_step ev b)"
  have T: "tally ?b + mset (asked evs) \<subseteq># tally b + mset (asked (ev # evs))"
    unfolding asked_Cons [of ev evs] using step_tally [of ev b] by (simp add: ac_simps)
  show ?case
  proof (cases "fst (browser_step ev b) = Continue")
    case True
    then have "browser_run (ev # evs) b = browser_run evs ?b" by (simp add: and_then_def)
    with Cons.IH [of ?b] T show ?thesis using subset_mset.order_trans by metis
  next
    case False
    then have "browser_run (ev # evs) b = browser_step ev b"
      by (cases "fst (browser_step ev b)") (simp_all add: and_then_def)
    with T show ?thesis by (metis mset_subset_eq_add_left subset_mset.order_trans)
  qed
qed simp

lemma distinct_of_count: "(\<And>x. count (mset xs) x \<le> 1) \<Longrightarrow> distinct xs"
proof (induction xs)
  case (Cons a xs)
  have "count (mset xs) x \<le> 1" for x by (rule order_trans [OF mset_subset_eq_count Cons.prems]) simp
  moreover have "a \<notin> set xs" using Cons.prems [of a] by simp
  ultimately show ?case using Cons.IH by simp
qed simp

text \<open>
  C5:  However keys, answers to all, cancellations, the ends of transfers and polls interleave, a
  question of a worker is answered at most once, and only if it was asked; one that is answered
  waits no longer, neither in its channel nor on the screen.
\<close>

theorem questions_answered_at_most_once:
  assumes "browser_run evs b0 = (r, b)" "distinct (asked evs)" "br_answers b0 = []" "waiting b0 = {#}"
  shows "distinct (map fst (br_answers b)) \<and> set (map fst (br_answers b)) \<subseteq> set (asked evs)
    \<and> (\<forall>(i, a) \<in> set (br_answers b). i \<notin># waiting b)"
proof -
  have "tally b0 = {#}" using assms(3,4) by (simp add: tally_def)
  with run_tally [of evs b0] assms(1) have sub: "mset (map fst (br_answers b)) + waiting b \<subseteq># mset (asked evs)"
    by (simp add: tally_def)
  have one: "count (mset (asked evs)) i \<le> 1" for i
    using assms(2) by (simp only: distinct_count_atmost_1 count_mset_0_iff split: if_splits) simp
  have le: "count (mset (map fst (br_answers b))) i + count (waiting b) i \<le> 1" for i
    using mset_subset_eq_count [OF sub, of i] one [of i] by simp
  have "distinct (map fst (br_answers b))"
  proof (rule distinct_of_count)
    show "count (mset (map fst (br_answers b))) i \<le> 1" for i using le [of i] by linarith
  qed
  moreover have "set (map fst (br_answers b)) \<subseteq> set (asked evs)"
    using set_mset_mono [OF subset_mset.order_trans [OF mset_subset_eq_add_left sub]] by simp
  moreover have "i \<notin># waiting b" if "(i, a) \<in> set (br_answers b)" for i a
  proof -
    from that have "i \<in># mset (map fst (br_answers b))" by force
    then have "1 \<le> count (mset (map fst (br_answers b))) i" by (simp only: Suc_le_eq One_nat_def count_greater_zero_iff)
    with le [of i] have "count (waiting b) i = 0" by linarith
    then show ?thesis by (simp only: not_in_iff)
  qed
  ultimately show ?thesis by auto
qed

definition asking_browser :: "rm_op list browser" where
  "asking_browser = (log_browser [])\<lparr>br_transfers := [new_transfer [] LocalToRemote LeftSide ''/'' False]\<rparr>"

lemma log_browser_quiet: "br_policy (log_browser es) = 0" "br_answers (log_browser es) = []" "br_response (log_browser es) = None"
  by (simp_all add: log_browser_def browser_start_def refresh_both_def and_then_def log_refresh browser_new_def
      on_pane_def)

theorem questions_answered_at_most_once_witness:
  "\<exists>b :: rm_op list browser. br_answers b = [(7, Overwrite)] \<and> 7 \<notin># waiting b"
proof -
  let ?evs = "[Asked 0 \<lparr>qu_id = 7, qu_name = ''a'', qu_dst = ''/a'', qu_size = 1\<rparr>, Poll [],
    Key (log_env []) (plain_key KEnter)]"
  let ?b = "snd (browser_run ?evs asking_browser)"
  have "br_answers ?b = [(7, Overwrite)]"
    by (simp add: asking_browser_def new_transfer_def poll_def poll_queries_def is_question_def Let_def and_then_def
        plain_key_def handle_input_mode_def overwrite_key_def respond_def log_browser_sel log_browser_quiet)
  moreover have "\<forall>(i, a) \<in> set (br_answers ?b). i \<notin># waiting ?b"
    using questions_answered_at_most_once [OF surjective_pairing, of ?evs asking_browser]
    by (simp add: asking_browser_def new_transfer_def waiting_def log_browser_quiet)
  ultimately show ?thesis by - (rule exI [of _ ?b], auto)
qed

text \<open>
    A question does not wait for a prompt to be closed.  It replaces whatever is on the screen,
  the name being typed included, and takes the focus with its first button; the Enter that was
  meant for the prompt then lets the worker overwrite the file, and the prompt is not carried out.
\<close>

lemma question_replaces_prompt:
  assumes "\<not> is_question (br_mode b)" "br_transfers b = t # ts" "bt_queries t = q # qs"
    and "\<not> bt_cancel t" "br_policy b = 0"
    and "r = browser_run [Poll msg, Key env (plain_key KEnter)] b"
  shows "fst r = Continue \<and> br_mode (snd r) = TransferPopup \<and> br_store (snd r) = br_store b
    \<and> br_answers (snd r) = br_answers b @ [(qu_id q, Overwrite)]"
proof -
  have "poll_queries b = b\<lparr>br_transfers := t\<lparr>bt_queries := qs\<rparr> # ts, br_answers := br_answers b @ [],
      br_response := Some (qu_id q), br_focus := 0, br_mode := OverwriteConfirm (qu_name q) (qu_dst q) (qu_size q)\<rparr>"
    using assms(1-5) by (simp add: poll_queries_def Let_def)
  then show ?thesis
    unfolding assms(6)
    by (simp add: and_then_def poll_def Let_def plain_key_def handle_input_mode_def overwrite_key_def respond_def)
qed

definition waiting_browser :: "rm_op list browser" where
  "waiting_browser = (log_browser [])\<lparr>br_mode := MkdirPrompt ''new'',
     br_transfers := [(new_transfer [] LocalToRemote LeftSide ''/'' False)
       \<lparr>bt_queries := [\<lparr>qu_id = 3, qu_name = ''a'', qu_dst = ''/a'', qu_size = 1\<rparr>]\<rparr>]\<rparr>"

lemma question_replaces_prompt_witness:
  "br_answers (snd (browser_run [Poll [], Key (log_env []) (plain_key KEnter)] waiting_browser))
     = br_answers waiting_browser @ [(3, Overwrite)]"
  using question_replaces_prompt [of waiting_browser _ "[]" _ "[]", OF _ _ _ _ _ refl]
  by (simp add: waiting_browser_def is_question_def new_transfer_def log_browser_quiet)

end
