(* ===== verification/Bookmark_Form.thy ===== *)
theory Bookmark_Form
  imports Config_Store Env_Detect Ssh_Target
begin

text \<open>
  The form for bookmarks and groups (\<open>tui/views/form.rs\<close>): text fields with a cursor, the two
  selectors, the lines of sessions, and the validation that builds an entry.  An operation whose
  indexing can panic returns an option.
\<close>

section \<open>Text fields\<close>

text \<open>
  Cursors are byte offsets.  \<open>split_bytes\<close> is slicing at an offset, which panics outside of a
  character boundary.
\<close>

fun split_bytes :: "nat \<Rightarrow> string \<Rightarrow> (string \<times> string) option" where
  "split_bytes n [] = (if n = 0 then Some ([], []) else None)"
| "split_bytes n (c # cs) =
     (if n = 0 then Some ([], c # cs)
      else if utf8_len c \<le> n then map_option (\<lambda>(a, b). (c # a, b)) (split_bytes (n - utf8_len c) cs)
      else None)"

definition prev_char_boundary :: "string \<Rightarrow> nat \<Rightarrow> nat option" where
  "prev_char_boundary s pos = map_option (\<lambda>(a, b). str_len (butlast a)) (split_bytes pos s)"

definition next_char_boundary :: "string \<Rightarrow> nat \<Rightarrow> nat option" where
  "next_char_boundary s pos =
     map_option (\<lambda>(a, b). case b of c # d # cs \<Rightarrow> pos + utf8_len c | _ \<Rightarrow> str_len s) (split_bytes pos s)"

text \<open>\<open>String::drain\<close>, and \<open>String::insert\<close>.\<close>

definition drain :: "nat \<Rightarrow> nat \<Rightarrow> string \<Rightarrow> string option" where
  "drain i j s = Option.bind (split_bytes i s) (\<lambda>(a, _). map_option (\<lambda>(_, b). a @ b) (split_bytes j s))"

definition insert_str :: "nat \<Rightarrow> char \<Rightarrow> string \<Rightarrow> string option" where
  "insert_str pos c s = map_option (\<lambda>(a, b). a @ c # b) (split_bytes pos s)"

definition clamped :: "string list \<Rightarrow> nat list \<Rightarrow> nat \<Rightarrow> nat" where
  "clamped texts cursors i = min (cursors ! i) (str_len (texts ! i))"

definition insert_at_cursor :: "nat \<Rightarrow> char \<Rightarrow> string list \<times> nat list \<Rightarrow> (string list \<times> nat list) option" where
  "insert_at_cursor i c x =
     (case x of (texts, cursors) \<Rightarrow>
        let pos = clamped texts cursors i
        in map_option (\<lambda>s. (texts[i := s], cursors[i := pos + utf8_len c])) (insert_str pos c (texts ! i)))"

definition delete_before_cursor :: "nat \<Rightarrow> string list \<times> nat list \<Rightarrow> (string list \<times> nat list) option" where
  "delete_before_cursor i x =
     (case x of (texts, cursors) \<Rightarrow>
        let pos = clamped texts cursors i
        in if pos = 0 then Some x
           else Option.bind (prev_char_boundary (texts ! i) pos) (\<lambda>prev.
             map_option (\<lambda>s. (texts[i := s], cursors[i := prev])) (drain prev pos (texts ! i))))"

definition delete_at_cursor :: "nat \<Rightarrow> string list \<times> nat list \<Rightarrow> (string list \<times> nat list) option" where
  "delete_at_cursor i x =
     (case x of (texts, cursors) \<Rightarrow>
        let pos = clamped texts cursors i
        in if pos = str_len (texts ! i) then Some x
           else Option.bind (next_char_boundary (texts ! i) pos) (\<lambda>next.
             map_option (\<lambda>s. (texts[i := s], cursors)) (drain pos next (texts ! i))))"

section \<open>The form\<close>

definition FIELD_COUNT :: nat where "FIELD_COUNT = 12"

definition ENV_OPTIONS :: "string list" where
  "ENV_OPTIONS = ['''', ''production'', ''staging'', ''development'', ''local'', ''testing'']"

abbreviation (input) "FIELD_NAME \<equiv> 0 :: nat"
abbreviation (input) "FIELD_HOST \<equiv> 1 :: nat"
abbreviation (input) "FIELD_USER \<equiv> 2 :: nat"
abbreviation (input) "FIELD_PORT \<equiv> 3 :: nat"
abbreviation (input) "FIELD_ENV \<equiv> 4 :: nat"
abbreviation (input) "FIELD_TAGS \<equiv> 5 :: nat"
abbreviation (input) "FIELD_IDENTITY \<equiv> 6 :: nat"
abbreviation (input) "FIELD_PROXY \<equiv> 7 :: nat"
abbreviation (input) "FIELD_NOTES \<equiv> 8 :: nat"
abbreviation (input) "FIELD_ON_CONNECT \<equiv> 9 :: nat"
abbreviation (input) "FIELD_PASSWORD \<equiv> 10 :: nat"
abbreviation (input) "FIELD_PROFILE \<equiv> 11 :: nat"

record form =
  fm_fields :: "string list"
  fm_cursors :: "nat list"
  fm_focused :: nat
  fm_env :: nat
  fm_profile :: nat
  fm_profiles :: "string list"
  fm_is_edit :: bool
  fm_original :: "string option"
  fm_error :: "string option"
  fm_has_stored :: bool
  fm_password_modified :: bool
  fm_sessions :: "session list"
  fm_cursor :: nat
  fm_collapsed :: bool

definition build_profile_options :: "string list \<Rightarrow> string list" where
  "build_profile_options names = ''(none)'' # names"

definition non_empty_option :: "string \<Rightarrow> string option" where
  "non_empty_option s = (if trim s = [] then None else Some (trim s))"

definition session_default :: session where
  "session_default =
     \<lparr>s_name = [], s_on_connect = None, s_on_connect_prompt_pattern = None, s_snippets = [],
      s_connect_timeout_secs = None, s_ssh_options = Map.empty, s_user = None, s_identity_file = None,
      s_proxy_jump = None\<rparr>"

definition cursors_at_end :: "string list \<Rightarrow> nat list" where
  "cursors_at_end texts = map str_len texts"

definition form_of_fields :: "string list \<Rightarrow> string list \<Rightarrow> form" where
  "form_of_fields texts names =
     \<lparr>fm_fields = texts, fm_cursors = cursors_at_end texts, fm_focused = FIELD_NAME, fm_env = 0,
      fm_profile = 0, fm_profiles = build_profile_options names, fm_is_edit = False, fm_original = None,
      fm_error = None, fm_has_stored = False, fm_password_modified = False, fm_sessions = [],
      fm_cursor = 0, fm_collapsed = True\<rparr>"

definition form_new_add :: "string option \<Rightarrow> string list \<Rightarrow> form" where
  "form_new_add user names =
     form_of_fields [[], [], unwrap_or user [], ''22'', [], [], [], [], [], [], [], []] names"

definition env_index_of :: "string \<Rightarrow> nat" where
  "env_index_of env = unwrap_or (position (\<lambda>e. e = env) ENV_OPTIONS) 0"

definition profile_index_of :: "string option \<Rightarrow> string list \<Rightarrow> nat" where
  "profile_index_of p names =
     unwrap_or (Option.bind p (\<lambda>n. position (\<lambda>e. e = n) (build_profile_options names))) 0"

definition form_new_edit_bookmark :: "keychain \<Rightarrow> bookmark \<Rightarrow> string list \<Rightarrow> form" where
  "form_new_edit_bookmark kc b names =
     (form_of_fields
        [b_name b, b_host b, unwrap_or (b_user b) [], show_nat (unat (b_port b)), [], join_with '', '' (b_tags b),
         unwrap_or (b_identity_file b) [], unwrap_or (b_proxy_jump b) [], unwrap_or (b_notes b) [],
         unwrap_or (b_on_connect b) [], [], []] names)
     \<lparr>fm_env := env_index_of (b_env b), fm_profile := profile_index_of (b_profile b) names,
      fm_is_edit := True, fm_original := Some (b_name b), fm_has_stored := get_password kc (b_name b) \<noteq> None\<rparr>"

definition form_new_edit_group :: "bookmark_group \<Rightarrow> string list \<Rightarrow> form" where
  "form_new_edit_group g names =
     (form_of_fields
        [g_name g, g_host g, unwrap_or (g_user g) [], show_nat (unat (g_port g)), [], join_with '', '' (g_tags g),
         unwrap_or (g_identity_file g) [], unwrap_or (g_proxy_jump g) [], unwrap_or (g_notes g) [],
         unwrap_or (g_on_connect g) [], [], []] names)
     \<lparr>fm_env := env_index_of (g_env g), fm_profile := profile_index_of (g_profile g) names,
      fm_is_edit := True, fm_original := Some (g_name g),
      fm_sessions := (if g_sessions g = [] then [session_default] else g_sessions g), fm_collapsed := False\<rparr>"

section \<open>Moving between fields\<close>

text \<open>
  \<open>FIELD_COUNT\<close> and \<open>FIELD_COUNT + 1\<close> stand for the name and the command of the session at
  \<open>fm_cursor\<close>.
\<close>

definition shows_sessions :: "form \<Rightarrow> bool" where
  "shows_sessions f \<longleftrightarrow> fm_sessions f \<noteq> [] \<and> \<not> fm_collapsed f"

definition form_next_field :: "form \<Rightarrow> form" where
  "form_next_field f =
     (if shows_sessions f \<and> fm_focused f = FIELD_COUNT - 1 then f\<lparr>fm_cursor := 0, fm_focused := FIELD_COUNT\<rparr>
      else if shows_sessions f \<and> fm_focused f = FIELD_COUNT then f\<lparr>fm_focused := FIELD_COUNT + 1\<rparr>
      else if shows_sessions f \<and> fm_focused f = FIELD_COUNT + 1 then
        (if fm_cursor f < length (fm_sessions f) - 1
         then f\<lparr>fm_cursor := fm_cursor f + 1, fm_focused := FIELD_COUNT\<rparr>
         else f\<lparr>fm_cursor := 0, fm_focused := 0\<rparr>)
      else if fm_focused f < FIELD_COUNT - 1 then f\<lparr>fm_focused := fm_focused f + 1\<rparr>
      else f)"

definition form_prev_field :: "form \<Rightarrow> form" where
  "form_prev_field f =
     (if shows_sessions f \<and> fm_focused f = FIELD_COUNT + 1 then f\<lparr>fm_focused := FIELD_COUNT\<rparr>
      else if shows_sessions f \<and> fm_focused f = FIELD_COUNT then
        (if 0 < fm_cursor f then f\<lparr>fm_cursor := fm_cursor f - 1, fm_focused := FIELD_COUNT + 1\<rparr>
         else f\<lparr>fm_focused := FIELD_COUNT - 1\<rparr>)
      else if shows_sessions f \<and> fm_focused f = 0 then
        f\<lparr>fm_cursor := length (fm_sessions f) - 1, fm_focused := FIELD_COUNT + 1\<rparr>
      else if 0 < fm_focused f then f\<lparr>fm_focused := fm_focused f - 1\<rparr>
      else f)"

section \<open>Selectors\<close>

definition cycle_env_right :: "form \<Rightarrow> form" where
  "cycle_env_right f = f\<lparr>fm_env := (fm_env f + 1) mod length ENV_OPTIONS\<rparr>"

definition cycle_env_left :: "form \<Rightarrow> form" where
  "cycle_env_left f = f\<lparr>fm_env := (if fm_env f = 0 then length ENV_OPTIONS - 1 else fm_env f - 1)\<rparr>"

definition cycle_profile_right :: "form \<Rightarrow> form" where
  "cycle_profile_right f =
     (if fm_profiles f = [] then f else f\<lparr>fm_profile := (fm_profile f + 1) mod length (fm_profiles f)\<rparr>)"

definition cycle_profile_left :: "form \<Rightarrow> form" where
  "cycle_profile_left f =
     (if fm_profiles f = [] then f
      else f\<lparr>fm_profile := (if fm_profile f = 0 then length (fm_profiles f) - 1 else fm_profile f - 1)\<rparr>)"

definition selected_profile :: "form \<Rightarrow> string option" where
  "selected_profile f = (if fm_profile f = 0 then None else Some (fm_profiles f ! fm_profile f))"

definition selected_env :: "form \<Rightarrow> string" where
  "selected_env f = ENV_OPTIONS ! fm_env f"

definition auto_detect_env :: "form \<Rightarrow> form" where
  "auto_detect_env f =
     (case position (\<lambda>e. e = detect_env (fm_fields f ! FIELD_NAME) (fm_fields f ! FIELD_HOST)) ENV_OPTIONS of
        Some i \<Rightarrow> f\<lparr>fm_env := i\<rparr>
      | None \<Rightarrow> f)"

section \<open>Editing\<close>

definition is_selector :: "form \<Rightarrow> bool" where
  "is_selector f \<longleftrightarrow> fm_focused f = FIELD_ENV \<or> fm_focused f = FIELD_PROFILE"

text \<open>After a change of a text field.\<close>

definition field_changed :: "form \<Rightarrow> form" where
  "field_changed f =
     (let f1 = f\<lparr>fm_error := None\<rparr>;
          f2 = (if fm_focused f = FIELD_PASSWORD then f1\<lparr>fm_password_modified := True\<rparr> else f1)
      in if fm_focused f = FIELD_NAME \<or> fm_focused f = FIELD_HOST then auto_detect_env f2 else f2)"

definition with_fields :: "form \<Rightarrow> (string list \<times> nat list) option \<Rightarrow> form option" where
  "with_fields f x =
     map_option (\<lambda>(texts, cursors). field_changed (f\<lparr>fm_fields := texts, fm_cursors := cursors\<rparr>)) x"

definition edit_session :: "(session \<Rightarrow> session) \<Rightarrow> form \<Rightarrow> form" where
  "edit_session h f =
     (if fm_cursor f < length (fm_sessions f)
      then f\<lparr>fm_sessions := (fm_sessions f)[fm_cursor f := h (fm_sessions f ! fm_cursor f)], fm_error := None\<rparr>
      else f\<lparr>fm_error := None\<rparr>)"

definition insert_char :: "char \<Rightarrow> form \<Rightarrow> form option" where
  "insert_char c f =
     (if is_selector f then Some f
      else if FIELD_COUNT \<le> fm_focused f then
        Some (edit_session (\<lambda>s.
          if fm_focused f = FIELD_COUNT then s\<lparr>s_name := s_name s @ [c]\<rparr>
          else if fm_focused f = FIELD_COUNT + 1 then
            s\<lparr>s_on_connect := Some (unwrap_or (s_on_connect s) [] @ [c])\<rparr>
          else s) f)
      else with_fields f (insert_at_cursor (fm_focused f) c (fm_fields f, fm_cursors f)))"

definition delete_char :: "form \<Rightarrow> form option" where
  "delete_char f =
     (if is_selector f then Some f
      else if FIELD_COUNT \<le> fm_focused f then
        Some (edit_session (\<lambda>s.
          if fm_focused f = FIELD_COUNT then s\<lparr>s_name := butlast (s_name s)\<rparr>
          else if fm_focused f = FIELD_COUNT + 1 then s\<lparr>s_on_connect := map_option butlast (s_on_connect s)\<rparr>
          else s) f)
      else with_fields f (delete_before_cursor (fm_focused f) (fm_fields f, fm_cursors f)))"

definition delete_char_forward :: "form \<Rightarrow> form option" where
  "delete_char_forward f =
     (if is_selector f \<or> FIELD_COUNT \<le> fm_focused f then Some f
      else with_fields f (delete_at_cursor (fm_focused f) (fm_fields f, fm_cursors f)))"

definition move_cursor :: "(string \<Rightarrow> nat \<Rightarrow> nat option) \<Rightarrow> form \<Rightarrow> form option" where
  "move_cursor boundary f =
     (let i = fm_focused f
      in if is_selector f \<or> FIELD_COUNT \<le> i then Some f
         else map_option (\<lambda>p. f\<lparr>fm_cursors := (fm_cursors f)[i := p]\<rparr>)
                (boundary (fm_fields f ! i) (clamped (fm_fields f) (fm_cursors f) i)))"

definition move_cursor_left :: "form \<Rightarrow> form option" where
  "move_cursor_left = move_cursor prev_char_boundary"

definition move_cursor_right :: "form \<Rightarrow> form option" where
  "move_cursor_right = move_cursor next_char_boundary"

section \<open>Lines of sessions\<close>

definition add_session_line :: "form \<Rightarrow> form" where
  "add_session_line f =
     (let at = fm_cursor f + 1; n = min at (length (fm_sessions f));
          ss = take n (fm_sessions f) @ session_default # drop n (fm_sessions f)
      in f\<lparr>fm_sessions := ss, fm_cursor := min at (length ss - 1), fm_collapsed := False\<rparr>)"

text \<open>\<open>Vec::remove\<close> panics outside of the list.\<close>

definition remove_session_line :: "form \<Rightarrow> form option" where
  "remove_session_line f =
     (if fm_sessions f = [] then Some f
      else if length (fm_sessions f) \<le> fm_cursor f then None
      else
        let ss = take (fm_cursor f) (fm_sessions f) @ drop (Suc (fm_cursor f)) (fm_sessions f)
        in Some (f\<lparr>fm_sessions := ss,
             fm_cursor := (if length ss \<le> fm_cursor f then length ss - 1 else fm_cursor f),
             fm_collapsed := (fm_collapsed f \<or> ss = [])\<rparr>))"

definition is_group :: "form \<Rightarrow> bool" where
  "is_group f \<longleftrightarrow> fm_sessions f \<noteq> []"

section \<open>Validation\<close>

datatype form_error =
    Bad_name name_error
  | Bookmark_exists string
  | Group_exists string
  | Bad_host name_error
  | Port_not_a_number
  | Port_zero
  | Session_name_empty
  | Session_name_duplicate string
  | Bad_command config_error

definition map_error :: "('e \<Rightarrow> 'f) \<Rightarrow> 'e + 'a \<Rightarrow> 'f + 'a" where
  "map_error g r = map_sum g id r"

text \<open>\<open>shellexpand::tilde\<close>, and whether a path exists.\<close>

record form_files =
  fl_tilde :: "string \<Rightarrow> string"
  fl_exists :: "string \<Rightarrow> bool"

definition is_rename :: "form \<Rightarrow> string \<Rightarrow> bool" where
  "is_rename f name \<longleftrightarrow> (case fm_original f of None \<Rightarrow> False | Some orig \<Rightarrow> orig \<noteq> name)"

definition checks_name :: "form \<Rightarrow> string \<Rightarrow> bool" where
  "checks_name f name \<longleftrightarrow> \<not> fm_is_edit f \<or> is_rename f name"

definition form_port :: "string \<Rightarrow> form_error + u16" where
  "form_port s =
     result_bind (ok_or (parse_u16 (trim s)) Port_not_a_number) (\<lambda>p.
       if p = 0 then Inl Port_zero else Inr p)"

definition parse_tags :: "string \<Rightarrow> string list" where
  "parse_tags s = filter (\<lambda>t. t \<noteq> []) (map trim (split_on CHR '','' s))"

text \<open>The checks that end the validation early; the first name list is that of the kind built.\<close>

definition check_bookmark_fields :: "app_config \<Rightarrow> form \<Rightarrow> form_error + u16" where
  "check_bookmark_fields config f =
     (let name = trim (fm_fields f ! FIELD_NAME); host = trim (fm_fields f ! FIELD_HOST)
      in result_bind (map_error Bad_name (validate_bookmark_name name)) (\<lambda>_.
         if checks_name f name \<and> list_ex (\<lambda>b. b_name b = name) (bookmarks config) then Inl (Bookmark_exists name)
         else if checks_name f name \<and> list_ex (\<lambda>g. g_name g = name) (groups config) then Inl (Group_exists name)
         else result_bind (map_error Bad_host (validate_hostname host)) (\<lambda>_. form_port (fm_fields f ! FIELD_PORT))))"

definition identity_warning :: "form_files \<Rightarrow> string option \<Rightarrow> string option" where
  "identity_warning fls identity =
     (case identity of
        None \<Rightarrow> None
      | Some p \<Rightarrow> if fl_exists fls (fl_tilde fls p) then None
          else Some (''Warning: identity file not found: '' @ fl_tilde fls p))"

definition build_bookmark :: "form \<Rightarrow> u16 \<Rightarrow> bookmark" where
  "build_bookmark f port =
     (let field = (\<lambda>i. fm_fields f ! i)
      in \<lparr>b_name = trim (field FIELD_NAME), b_host = trim (field FIELD_HOST),
          b_user = non_empty_option (field FIELD_USER), b_port = port, b_env = selected_env f,
          b_tags = parse_tags (field FIELD_TAGS), b_identity_file = non_empty_option (field FIELD_IDENTITY),
          b_proxy_jump = non_empty_option (field FIELD_PROXY), b_notes = non_empty_option (field FIELD_NOTES),
          b_last_connected = None, b_connect_count = 0,
          b_on_connect = non_empty_option (field FIELD_ON_CONNECT), b_on_connect_prompt_pattern = None,
          b_snippets = [], b_connect_timeout_secs = None, b_ssh_options = Map.empty,
          b_profile = selected_profile f\<rparr>)"

definition validate_and_build_bookmark ::
  "form_files \<Rightarrow> app_config \<Rightarrow> form \<Rightarrow> (form_error + bookmark) \<times> form" where
  "validate_and_build_bookmark fls config f =
     (case check_bookmark_fields config f of
        Inl e \<Rightarrow> (Inl e, f\<lparr>fm_error := None\<rparr>)
      | Inr port \<Rightarrow> (Inr (build_bookmark f port),
          f\<lparr>fm_error := identity_warning fls (non_empty_option (fm_fields f ! FIELD_IDENTITY))\<rparr>))"

fun check_sessions :: "string set \<Rightarrow> string \<Rightarrow> session list \<Rightarrow> form_error + unit" where
  "check_sessions seen grp [] = Inr ()"
| "check_sessions seen grp (s # ss) =
     (let name = trim (s_name s)
      in if name = [] then Inl Session_name_empty
         else if name \<in> seen then Inl (Session_name_duplicate name)
         else result_bind
                (map_error Bad_command (validate_command (s_on_connect s)
                   (''Session '' @ [CHR 0x27] @ name @ [CHR 0x27] @ '' in group '' @ [CHR 0x27] @ grp @ [CHR 0x27])))
                (\<lambda>_. check_sessions (insert name seen) grp ss))"

definition check_group_fields :: "app_config \<Rightarrow> form \<Rightarrow> form_error + u16" where
  "check_group_fields config f =
     (let name = trim (fm_fields f ! FIELD_NAME); host = trim (fm_fields f ! FIELD_HOST)
      in result_bind (map_error Bad_name (validate_bookmark_name name)) (\<lambda>_.
         if checks_name f name \<and> list_ex (\<lambda>g. g_name g = name) (groups config) then Inl (Group_exists name)
         else if checks_name f name \<and> list_ex (\<lambda>b. b_name b = name) (bookmarks config) then Inl (Bookmark_exists name)
         else result_bind (map_error Bad_host (validate_hostname host)) (\<lambda>_.
           result_bind (form_port (fm_fields f ! FIELD_PORT)) (\<lambda>port.
           result_bind (check_sessions {} name (fm_sessions f)) (\<lambda>_. Inr port)))))"

definition build_group :: "form \<Rightarrow> u16 \<Rightarrow> bookmark_group" where
  "build_group f port =
     (let field = (\<lambda>i. fm_fields f ! i)
      in \<lparr>g_name = trim (field FIELD_NAME), g_host = trim (field FIELD_HOST),
          g_user = non_empty_option (field FIELD_USER), g_port = port, g_env = selected_env f,
          g_tags = parse_tags (field FIELD_TAGS), g_identity_file = non_empty_option (field FIELD_IDENTITY),
          g_proxy_jump = non_empty_option (field FIELD_PROXY), g_notes = non_empty_option (field FIELD_NOTES),
          g_profile = selected_profile f, g_connect_timeout_secs = None, g_ssh_options = Map.empty,
          g_on_connect = non_empty_option (field FIELD_ON_CONNECT), g_on_connect_prompt_pattern = None,
          g_snippets = [], g_sessions = fm_sessions f\<rparr>)"

definition validate_and_build_group :: "app_config \<Rightarrow> form \<Rightarrow> (form_error + bookmark_group) \<times> form" where
  "validate_and_build_group config f =
     (map_sum id (build_group f) (check_group_fields config f), f\<lparr>fm_error := None\<rparr>)"

datatype unified_entry = Entry_bookmark bookmark | Entry_group bookmark_group

definition validate_and_build :: "form_files \<Rightarrow> app_config \<Rightarrow> form \<Rightarrow> (form_error + unified_entry) \<times> form" where
  "validate_and_build fls config f =
     (if is_group f then apfst (map_sum id Entry_group) (validate_and_build_group config f)
      else apfst (map_sum id Entry_bookmark) (validate_and_build_bookmark fls config f))"

section \<open>Adding and editing\<close>

datatype edit_target = Target_bookmark | Target_group

datatype form_state = Form_add form | Form_edit nat edit_target form

fun inner :: "form_state \<Rightarrow> form" where
  "inner (Form_add f) = f"
| "inner (Form_edit i t f) = f"

fun set_inner :: "form \<Rightarrow> form_state \<Rightarrow> form_state" where
  "set_inner f (Form_add _) = Form_add f"
| "set_inner f (Form_edit i t _) = Form_edit i t f"

end
