(* ===== verification/App.thy ===== *)
theory App
  imports Bookmark_Form Connect_Flow Stable_Sort Terminal_Keys
begin

text \<open>
  The main screen (\<open>tui/mod.rs\<close>, with \<open>tui/views/confirm.rs\<close> and \<open>tui/widgets/search_bar.rs\<close>):
  the list of bookmarks and groups with its filters, the forms, the confirmation of a deletion, the
  persistent shells of a group, the event loop and the loop around it that connects.

  An index that is out of range panics: a handler returns an option.  The configuration file and the
  OS keychain are part of the state.  The fuzzy matcher, the files and the outcome of a save are the
  record \<open>app_env\<close>; a shell is a value of an arbitrary type.
\<close>

section \<open>The state\<close>

datatype mux_state = Mux_idle | Mux_connecting | Mux_ready | Mux_running | Mux_error string

record 'c mux_connection =
  mc_output :: "string list"
  mc_state :: mux_state
  mc_channel :: "'c option"

definition mux_append_line :: "string \<Rightarrow> 'c mux_connection \<Rightarrow> 'c mux_connection" where
  "mux_append_line line conn = conn\<lparr>mc_output := mc_output conn @ [line]\<rparr>"

definition lines_capped :: "nat \<Rightarrow> 'c mux_connection \<Rightarrow> string list" where
  "lines_capped max_lines conn =
     (if length (mc_output conn) \<le> max_lines then mc_output conn
      else drop (length (mc_output conn) - max_lines) (mc_output conn))"

datatype screen =
    List_screen
  | Add_form
  | Edit_form edit_target nat
  | Delete_confirm nat
  | Help_screen
  | Group_mux nat

definition ENV_FILTER_MAP :: "string list" where
  "ENV_FILTER_MAP = ['''', ''production'', ''staging'', ''development'', ''local'', ''testing'']"

datatype mux_action = Open_shell nat nat | Send_command nat string | Mux_close nat

datatype 'c mux_result =
    Shell_opened nat 'c
  | Shell_error nat string
  | Command_sent nat
  | Command_error nat string
  | Connection_closed nat

datatype loop_action = Quit | Connect nat | Browse nat

definition GROUP_INDEX_MARKER :: nat where "GROUP_INDEX_MARKER = 100000"

definition PAGE_JUMP :: int where "PAGE_JUMP = 10"

text \<open>\<open>ConfirmState\<close> with its target.\<close>

record confirm =
  cf_name :: string
  cf_host :: string
  cf_env :: string
  cf_session_count :: nat
  cf_is_group :: bool
  cf_is_production :: bool
  cf_input :: string

definition confirm_new :: "bookmark \<Rightarrow> confirm" where
  "confirm_new b =
     \<lparr>cf_name = b_name b, cf_host = b_host b, cf_env = b_env b, cf_session_count = 0, cf_is_group = False,
      cf_is_production = (b_env b = ''production''), cf_input = []\<rparr>"

definition confirm_new_group :: "bookmark_group \<Rightarrow> confirm" where
  "confirm_new_group g =
     \<lparr>cf_name = g_name g, cf_host = g_host g, cf_env = g_env g, cf_session_count = length (g_sessions g),
      cf_is_group = True, cf_is_production = (g_env g = ''production''), cf_input = []\<rparr>"

definition is_confirmed :: "confirm \<Rightarrow> bool" where
  "is_confirmed c \<longleftrightarrow>
     (if cf_is_production c then eq_ignore_ascii_case (trim (cf_input c)) ''yes'' else True)"

text \<open>The messages of the status line.\<close>

datatype app_status =
    Save_failed config_error
  | Bookmark_saved string
  | Group_saved string
  | Bookmark_deleted string
  | Group_deleted string
  | Password_not_migrated
  | Old_password_kept
  | Password_not_saved
  | Password_not_removed
  | Deleted_but_password_kept
  | Form_rejected form_error
  | Unexpected_group

record ('t, 'c) app =
  ap_config :: app_config
  ap_screen :: screen
  ap_query :: string
  ap_search :: bool
  ap_filtered :: "nat list"
  ap_selected :: nat
  ap_env_filter :: "string option"
  ap_quit :: bool
  ap_status :: "(app_status \<times> nat) option"
  ap_form :: "form_state option"
  ap_confirm :: "confirm option"
  ap_connect :: "nat option"
  ap_browse :: "nat option"
  ap_help_scroll :: u16
  ap_help_source :: "screen option"
  ap_mux_session :: "nat option"
  ap_mux_conns :: "nat \<rightharpoonup> 'c mux_connection"
  ap_mux_rx :: "nat \<rightharpoonup> 'c"
  ap_mux_action :: "mux_action option"
  ap_mux_return :: "nat option"
  ap_store :: "'t store"
  ap_keychain :: keychain

text \<open>The score of a query in a text, a save, the files, and the time in milliseconds.\<close>

type_synonym matcher = "string \<Rightarrow> string \<Rightarrow> int option"

record 't app_env =
  ae_match :: matcher
  ae_io :: "'t io_env"
  ae_files :: form_files
  ae_now :: nat

section \<open>What the list shows\<close>

definition fuzzy_match_bookmark :: "matcher \<Rightarrow> bookmark \<Rightarrow> string \<Rightarrow> int option" where
  "fuzzy_match_bookmark m b query =
     (if query = [] then Some 0
      else m (b_name b @ '' '' @ b_host b @ '' '' @ unwrap_or (b_user b) [] @ '' ''
              @ join_with '' '' (b_tags b) @ '' '' @ b_env b) query)"

definition bookmark_in_env :: "string option \<Rightarrow> bookmark \<Rightarrow> bool" where
  "bookmark_in_env env_filter b \<longleftrightarrow>
     (case env_filter of None \<Rightarrow> True | Some env \<Rightarrow> eq_ignore_ascii_case (b_env b) env)"

text \<open>Best score first, then the lower index.\<close>

fun better :: "nat \<times> int \<Rightarrow> nat \<times> int \<Rightarrow> bool" where
  "better (i, s) (j, t) \<longleftrightarrow> t < s \<or> (s = t \<and> i \<le> j)"

definition filter_bookmarks :: "matcher \<Rightarrow> bookmark list \<Rightarrow> string \<Rightarrow> string option \<Rightarrow> nat list" where
  "filter_bookmarks m bs query env_filter =
     map fst (sort_by better
       (List.map_filter (\<lambda>(i, b). map_option (Pair i) (fuzzy_match_bookmark m b query))
         (filter (\<lambda>(i, b). bookmark_in_env env_filter b) (enumerate 0 bs))))"

definition group_matches :: "matcher \<Rightarrow> string \<Rightarrow> string option \<Rightarrow> bookmark_group \<Rightarrow> bool" where
  "group_matches m query env_filter g \<longleftrightarrow>
     (query = [] \<or> m (g_name g) query \<noteq> None)
     \<and> (case env_filter of None \<Rightarrow> True | Some f \<Rightarrow> f = [] \<or> g_env g = f)"

definition filtered_groups :: "matcher \<Rightarrow> bookmark_group list \<Rightarrow> string \<Rightarrow> string option \<Rightarrow> nat list" where
  "filtered_groups m gs query env_filter =
     map (\<lambda>(i, g). GROUP_INDEX_MARKER + i) (filter (\<lambda>(i, g). group_matches m query env_filter g) (enumerate 0 gs))"

definition visible :: "matcher \<Rightarrow> app_config \<Rightarrow> string \<Rightarrow> string option \<Rightarrow> nat list" where
  "visible m config query env_filter =
     filter_bookmarks m (bookmarks config) query env_filter @ filtered_groups m (groups config) query env_filter"

definition refilter :: "'t app_env \<Rightarrow> ('t, 'c) app \<Rightarrow> ('t, 'c) app" where
  "refilter env a =
     (let indices = visible (ae_match env) (ap_config a) (ap_query a) (ap_env_filter a)
      in a\<lparr>ap_filtered := indices,
           ap_selected := (if indices = [] then 0 else if length indices \<le> ap_selected a then length indices - 1
                           else ap_selected a)\<rparr>)"

definition new_app :: "'t app_env \<Rightarrow> app_config \<Rightarrow> 't store \<Rightarrow> keychain \<Rightarrow> ('t, 'c) app" where
  "new_app env config st kc =
     \<lparr>ap_config = config, ap_screen = List_screen, ap_query = [], ap_search = False,
      ap_filtered = filter_bookmarks (ae_match env) (bookmarks config) [] None
        @ map (\<lambda>(i, g). GROUP_INDEX_MARKER + i) (enumerate 0 (groups config)),
      ap_selected = 0, ap_env_filter = None, ap_quit = False, ap_status = None, ap_form = None,
      ap_confirm = None, ap_connect = None, ap_browse = None, ap_help_scroll = 0, ap_help_source = None,
      ap_mux_session = None, ap_mux_conns = Map.empty, ap_mux_rx = Map.empty, ap_mux_action = None,
      ap_mux_return = None, ap_store = st, ap_keychain = kc\<rparr>"

definition set_status :: "'t app_env \<Rightarrow> app_status \<Rightarrow> ('t, 'c) app \<Rightarrow> ('t, 'c) app" where
  "set_status env s a = a\<lparr>ap_status := Some (s, ae_now env)\<rparr>"

definition STATUS_MESSAGE_TIMEOUT :: nat where "STATUS_MESSAGE_TIMEOUT = 5000"

definition app_tick :: "'t app_env \<Rightarrow> ('t, 'c) app \<Rightarrow> ('t, 'c) app" where
  "app_tick env a =
     (case ap_status a of
        Some (_, since) \<Rightarrow>
          if STATUS_MESSAGE_TIMEOUT < ae_now env - since then a\<lparr>ap_status := None\<rparr> else a
      | None \<Rightarrow> a)"

definition move_selection :: "int \<Rightarrow> ('t, 'c) app \<Rightarrow> ('t, 'c) app" where
  "move_selection delta a =
     (if ap_filtered a = [] then a
      else a\<lparr>ap_selected :=
        nat (max 0 (min (int (ap_selected a) + delta) (int (length (ap_filtered a) - 1))))\<rparr>)"

definition jump_to_end :: "('t, 'c) app \<Rightarrow> ('t, 'c) app" where
  "jump_to_end a = (if ap_filtered a = [] then a else a\<lparr>ap_selected := length (ap_filtered a) - 1\<rparr>)"

text \<open>\<open>selected_bookmark_index\<close>, or else \<open>selected_group_index\<close>.\<close>

definition on_selected ::
    "(nat \<Rightarrow> ('t, 'c) app \<Rightarrow> ('t, 'c) app option) \<Rightarrow> (nat \<Rightarrow> ('t, 'c) app \<Rightarrow> ('t, 'c) app option)
      \<Rightarrow> ('t, 'c) app \<Rightarrow> ('t, 'c) app option" where
  "on_selected on_bookmark on_group a =
     (if ap_filtered a = [] then Some a
      else Option.bind (nth_opt (ap_filtered a) (ap_selected a)) (\<lambda>idx.
        if GROUP_INDEX_MARKER \<le> idx then on_group (idx - GROUP_INDEX_MARKER) a else on_bookmark idx a))"

definition save_config :: "'t app_env \<Rightarrow> app_status \<Rightarrow> ('t, 'c) app \<Rightarrow> ('t, 'c) app" where
  "save_config env ok a =
     (let (r, st) = save_to (ae_io env) (ap_config a) (ap_store a)
      in set_status env (case r of Inl e \<Rightarrow> Save_failed e | Inr _ \<Rightarrow> ok) (a\<lparr>ap_store := st\<rparr>))"

text \<open>To the list, from a form or a dialog.\<close>

definition back_to_list :: "('t, 'c) app \<Rightarrow> ('t, 'c) app" where
  "back_to_list a = a\<lparr>ap_screen := List_screen\<rparr>"

definition open_help :: "screen \<Rightarrow> ('t, 'c) app \<Rightarrow> ('t, 'c) app" where
  "open_help src a = a\<lparr>ap_help_scroll := 0, ap_help_source := Some src, ap_screen := Help_screen\<rparr>"

section \<open>The list\<close>

definition profile_names :: "('t, 'c) app \<Rightarrow> string list" where
  "profile_names a = map p_name (profiles (ap_config a))"

definition open_add_form :: "(form \<Rightarrow> form) \<Rightarrow> ('t, 'c) app \<Rightarrow> ('t, 'c) app" where
  "open_add_form prepare a =
     a\<lparr>ap_form := Some (Form_add (prepare (form_new_add (default_user (settings_of (ap_config a))) (profile_names a)))),
       ap_screen := Add_form\<rparr>"

definition edit_bookmark :: "nat \<Rightarrow> ('t, 'c) app \<Rightarrow> ('t, 'c) app option" where
  "edit_bookmark idx a =
     map_option (\<lambda>b. a\<lparr>ap_form := Some (Form_edit idx Target_bookmark
           (form_new_edit_bookmark (ap_keychain a) b (profile_names a))),
         ap_screen := Edit_form Target_bookmark idx\<rparr>)
       (nth_opt (bookmarks (ap_config a)) idx)"

definition edit_group :: "nat \<Rightarrow> ('t, 'c) app \<Rightarrow> ('t, 'c) app option" where
  "edit_group gi a =
     map_option (\<lambda>g. a\<lparr>ap_form := Some (Form_edit gi Target_group (form_new_edit_group g (profile_names a))),
         ap_screen := Edit_form Target_group gi\<rparr>)
       (nth_opt (groups (ap_config a)) gi)"

definition ask_delete_bookmark :: "nat \<Rightarrow> ('t, 'c) app \<Rightarrow> ('t, 'c) app option" where
  "ask_delete_bookmark idx a =
     map_option (\<lambda>b. a\<lparr>ap_confirm := Some (confirm_new b), ap_screen := Delete_confirm idx\<rparr>)
       (nth_opt (bookmarks (ap_config a)) idx)"

definition ask_delete_group :: "nat \<Rightarrow> ('t, 'c) app \<Rightarrow> ('t, 'c) app option" where
  "ask_delete_group gi a =
     map_option (\<lambda>g. a\<lparr>ap_confirm := Some (confirm_new_group g),
         ap_screen := Delete_confirm (GROUP_INDEX_MARKER + gi)\<rparr>)
       (nth_opt (groups (ap_config a)) gi)"

definition filter_by_env :: "'t app_env \<Rightarrow> nat \<Rightarrow> ('t, 'c) app \<Rightarrow> ('t, 'c) app" where
  "filter_by_env env i a =
     refilter env (a\<lparr>ap_env_filter := (if i = 0 then None else Some (ENV_FILTER_MAP ! i)),
       ap_search := False, ap_query := []\<rparr>)"

definition handle_list_char :: "'t app_env \<Rightarrow> char \<Rightarrow> bool \<Rightarrow> ('t, 'c) app \<Rightarrow> ('t, 'c) app option" where
  "handle_list_char env c ctrl a =
     (if c = CHR ''q'' then Some (a\<lparr>ap_quit := True\<rparr>)
      else if c = CHR ''k'' then Some (move_selection (- 1) a)
      else if c = CHR ''j'' then Some (move_selection 1 a)
      else if c = CHR ''g'' then Some (a\<lparr>ap_selected := 0\<rparr>)
      else if c = CHR ''G'' then Some (jump_to_end a)
      else if c = CHR ''p'' \<and> ctrl then Some (move_selection (- 1) a)
      else if c = CHR ''n'' \<and> ctrl then Some (move_selection 1 a)
      else if c = CHR ''/'' then Some (a\<lparr>ap_search := True\<rparr>)
      else if 48 \<le> code c \<and> code c \<le> 53 then Some (filter_by_env env (code c - 48) a)
      else if c = CHR ''a'' then Some (open_add_form id a)
      else if c = CHR ''A'' then Some (open_add_form add_session_line a)
      else if c = CHR ''e'' then on_selected edit_bookmark edit_group a
      else if c = CHR ''d'' then on_selected ask_delete_bookmark ask_delete_group a
      else if c = CHR ''f'' then
        on_selected (\<lambda>idx a. Some (a\<lparr>ap_browse := Some idx\<rparr>))
          (\<lambda>gi a. Some (a\<lparr>ap_browse := Some (GROUP_INDEX_MARKER + gi)\<rparr>)) a
      else if c = CHR ''?'' then Some (open_help List_screen a)
      else Some a)"

definition handle_list_key :: "'t app_env \<Rightarrow> key_event \<Rightarrow> ('t, 'c) app \<Rightarrow> ('t, 'c) app option" where
  "handle_list_key env key a =
     (case ke_code key of
        KChar c \<Rightarrow> handle_list_char env c (ke_ctrl key) a
      | KUp \<Rightarrow> Some (move_selection (- 1) a)
      | KDown \<Rightarrow> Some (move_selection 1 a)
      | KHome \<Rightarrow> Some (a\<lparr>ap_selected := 0\<rparr>)
      | KEnd \<Rightarrow> Some (jump_to_end a)
      | KPageUp \<Rightarrow> Some (move_selection (- PAGE_JUMP) a)
      | KPageDown \<Rightarrow> Some (move_selection PAGE_JUMP a)
      | KEnter \<Rightarrow> on_selected (\<lambda>idx a. Some (a\<lparr>ap_connect := Some idx\<rparr>))
          (\<lambda>gi a. Some (a\<lparr>ap_mux_session := Some 0, ap_screen := Group_mux gi\<rparr>)) a
      | _ \<Rightarrow> Some a)"

definition handle_search_key :: "'t app_env \<Rightarrow> key_event \<Rightarrow> ('t, 'c) app \<Rightarrow> ('t, 'c) app" where
  "handle_search_key env key a =
     (case ke_code key of
        KEsc \<Rightarrow> refilter env (a\<lparr>ap_query := [], ap_search := False\<rparr>)
      | KEnter \<Rightarrow> a\<lparr>ap_search := False\<rparr>
      | KBackspace \<Rightarrow> refilter env (a\<lparr>ap_query := butlast (ap_query a)\<rparr>)
      | KUp \<Rightarrow> move_selection (- 1) a
      | KDown \<Rightarrow> move_selection 1 a
      | KChar c \<Rightarrow>
          if c = CHR ''?'' then open_help List_screen a
          else if is_control c then a
          else refilter env (a\<lparr>ap_query := ap_query a @ [c]\<rparr>)
      | _ \<Rightarrow> a)"

definition close_help :: "('t, 'c) app \<Rightarrow> ('t, 'c) app" where
  "close_help a =
     a\<lparr>ap_screen := unwrap_or (ap_help_source a) List_screen, ap_help_source := None, ap_help_scroll := 0\<rparr>"

text \<open>The scroll offset saturates at both ends.\<close>

definition scroll_help :: "bool \<Rightarrow> ('t, 'c) app \<Rightarrow> ('t, 'c) app" where
  "scroll_help down a =
     a\<lparr>ap_help_scroll :=
       (if down then if ap_help_scroll a = 0xFFFF then 0xFFFF else ap_help_scroll a + 1
        else if ap_help_scroll a = 0 then 0 else ap_help_scroll a - 1)\<rparr>"

definition handle_help_key :: "key_event \<Rightarrow> ('t, 'c) app \<Rightarrow> ('t, 'c) app" where
  "handle_help_key key a =
     (case ke_code key of
        KEsc \<Rightarrow> close_help a
      | KDown \<Rightarrow> scroll_help True a
      | KUp \<Rightarrow> scroll_help False a
      | KChar c \<Rightarrow>
          if c = CHR ''?'' \<or> c = CHR ''q'' then close_help a
          else if c = CHR ''j'' then scroll_help True a
          else if c = CHR ''k'' then scroll_help False a
          else a
      | _ \<Rightarrow> a)"

section \<open>Deleting\<close>

definition delete_group :: "'t app_env \<Rightarrow> nat \<Rightarrow> ('t, 'c) app \<Rightarrow> ('t, 'c) app option" where
  "delete_group env idx a =
     map_option (\<lambda>g. save_config env (Group_deleted (g_name g))
         (a\<lparr>ap_config := (ap_config a)\<lparr>groups := remove_at idx (groups (ap_config a))\<rparr>\<rparr>))
       (nth_opt (groups (ap_config a)) idx)"

definition delete_bookmark :: "'t app_env \<Rightarrow> nat \<Rightarrow> ('t, 'c) app \<Rightarrow> ('t, 'c) app option" where
  "delete_bookmark env idx a =
     map_option (\<lambda>b.
         let a1 = save_config env (Bookmark_deleted (b_name b))
               (a\<lparr>ap_config := (ap_config a)\<lparr>bookmarks := remove_at idx (bookmarks (ap_config a))\<rparr>\<rparr>);
             a2 = a1\<lparr>ap_keychain := delete_password (b_name b) (ap_keychain a1)\<rparr>
         in if kc_writable (ap_keychain a1) then a2 else set_status env Deleted_but_password_kept a2)
       (nth_opt (bookmarks (ap_config a)) idx)"

definition confirm_enter :: "'t app_env \<Rightarrow> confirm \<Rightarrow> ('t, 'c) app \<Rightarrow> ('t, 'c) app option" where
  "confirm_enter env c a =
     (case ap_screen a of
        Delete_confirm idx \<Rightarrow>
          if is_confirmed c
          then map_option (\<lambda>a. refilter env (back_to_list (a\<lparr>ap_confirm := None\<rparr>)))
                 (if cf_is_group c then delete_group env idx a else delete_bookmark env idx a)
          else Some a
      | _ \<Rightarrow> Some a)"

definition handle_confirm_key :: "'t app_env \<Rightarrow> key_event \<Rightarrow> ('t, 'c) app \<Rightarrow> ('t, 'c) app option" where
  "handle_confirm_key env key a =
     (case ap_confirm a of
        None \<Rightarrow> Some (back_to_list a)
      | Some c \<Rightarrow>
          (case ke_code key of
             KEsc \<Rightarrow> Some (back_to_list (a\<lparr>ap_confirm := None\<rparr>))
           | KEnter \<Rightarrow> confirm_enter env c a
           | KBackspace \<Rightarrow>
               Some (if cf_is_production c then a\<lparr>ap_confirm := Some (c\<lparr>cf_input := butlast (cf_input c)\<rparr>)\<rparr> else a)
           | KChar ch \<Rightarrow>
               Some (if ch = CHR ''?'' then open_help (ap_screen a) a
                     else if cf_is_production c \<and> \<not> is_control ch
                     then a\<lparr>ap_confirm := Some (c\<lparr>cf_input := cf_input c @ [ch]\<rparr>)\<rparr> else a)
           | _ \<Rightarrow> Some a))"

section \<open>Saving a form\<close>

text \<open>The stored password follows a name that changed.\<close>

definition migrate_password :: "'t app_env \<Rightarrow> string \<Rightarrow> string \<Rightarrow> ('t, 'c) app \<Rightarrow> ('t, 'c) app" where
  "migrate_password env old new a =
     (if old = new then a
      else case get_password (ap_keychain a) old of
          None \<Rightarrow> a
        | Some pw \<Rightarrow>
            if kc_writable (ap_keychain a)
            then a\<lparr>ap_keychain := delete_password old (set_password new pw (ap_keychain a))\<rparr>
            else set_status env Old_password_kept (set_status env Password_not_migrated a))"

definition close_form :: "'t app_env \<Rightarrow> ('t, 'c) app \<Rightarrow> ('t, 'c) app" where
  "close_form env a = refilter env (back_to_list (a\<lparr>ap_form := None\<rparr>))"

definition store_group :: "'t app_env \<Rightarrow> bookmark_group \<Rightarrow> ('t, 'c) app \<Rightarrow> ('t, 'c) app option" where
  "store_group env g a =
     (let config = ap_config a in
      case ap_screen a of
        Add_form \<Rightarrow> Some (a\<lparr>ap_config := config\<lparr>groups := groups config @ [g]\<rparr>\<rparr>)
      | Edit_form Target_group idx \<Rightarrow>
          map_option (\<lambda>_. a\<lparr>ap_config := config\<lparr>groups := (groups config)[idx := g]\<rparr>\<rparr>) (nth_opt (groups config) idx)
      | Edit_form Target_bookmark idx \<Rightarrow>
          map_option (\<lambda>orig. (migrate_password env (b_name orig) (g_name g) a)
              \<lparr>ap_config := config\<lparr>bookmarks := remove_at idx (bookmarks config), groups := groups config @ [g]\<rparr>\<rparr>)
            (nth_opt (bookmarks config) idx)
      | _ \<Rightarrow> Some a)"

definition store_bookmark :: "'t app_env \<Rightarrow> bookmark \<Rightarrow> ('t, 'c) app \<Rightarrow> ('t, 'c) app option" where
  "store_bookmark env b a =
     (let config = ap_config a in
      case ap_screen a of
        Add_form \<Rightarrow> Some (a\<lparr>ap_config := config\<lparr>bookmarks := bookmarks config @ [b]\<rparr>\<rparr>)
      | Edit_form Target_bookmark idx \<Rightarrow>
          map_option (\<lambda>orig. a\<lparr>ap_config := config\<lparr>bookmarks := (bookmarks config)
                [idx := b\<lparr>b_last_connected := b_last_connected orig, b_connect_count := b_connect_count orig\<rparr>]\<rparr>\<rparr>)
            (nth_opt (bookmarks config) idx)
      | Edit_form Target_group idx \<Rightarrow>
          map_option (\<lambda>orig. (migrate_password env (g_name orig) (b_name b) a)
              \<lparr>ap_config := config\<lparr>bookmarks := bookmarks config @ [b], groups := remove_at idx (groups config)\<rparr>\<rparr>)
            (nth_opt (groups config) idx)
      | _ \<Rightarrow> Some a)"

definition save_typed_password :: "'t app_env \<Rightarrow> form \<Rightarrow> string \<Rightarrow> ('t, 'c) app \<Rightarrow> ('t, 'c) app" where
  "save_typed_password env f name a =
     (let kc = ap_keychain a; pw = fm_fields f ! FIELD_PASSWORD
      in if \<not> fm_password_modified f then a
         else if pw \<noteq> [] then
           (if kc_writable kc then a\<lparr>ap_keychain := set_password name pw kc\<rparr> else set_status env Password_not_saved a)
         else if fm_has_stored f then
           (if kc_writable kc then a\<lparr>ap_keychain := delete_password name kc\<rparr> else set_status env Password_not_removed a)
         else a)"

text \<open>The name under which a bookmark that is edited was stored.\<close>

definition old_bookmark_name :: "('t, 'c) app \<Rightarrow> string \<Rightarrow> string option" where
  "old_bookmark_name a name =
     (case ap_screen a of
        Edit_form Target_bookmark idx \<Rightarrow> map_option b_name (nth_opt (bookmarks (ap_config a)) idx)
      | _ \<Rightarrow> Some name)"

definition save_group :: "'t app_env \<Rightarrow> bookmark_group \<Rightarrow> ('t, 'c) app \<Rightarrow> ('t, 'c) app option" where
  "save_group env g a =
     map_option (close_form env \<circ> save_config env (Group_saved (g_name g))) (store_group env g a)"

definition save_bookmark :: "'t app_env \<Rightarrow> form \<Rightarrow> bookmark \<Rightarrow> ('t, 'c) app \<Rightarrow> ('t, 'c) app option" where
  "save_bookmark env f b a =
     Option.bind (old_bookmark_name a (b_name b)) (\<lambda>old.
       map_option (close_form env \<circ> save_typed_password env f (b_name b) \<circ> migrate_password env old (b_name b)
           \<circ> save_config env (Bookmark_saved (b_name b)))
         (store_bookmark env b a))"

definition reject_form :: "'t app_env \<Rightarrow> app_status \<Rightarrow> form \<Rightarrow> form_state \<Rightarrow> ('t, 'c) app \<Rightarrow> ('t, 'c) app" where
  "reject_form env s f fs a = set_status env s (a\<lparr>ap_form := Some (set_inner f fs)\<rparr>)"

definition try_save_unified_form :: "'t app_env \<Rightarrow> ('t, 'c) app \<Rightarrow> ('t, 'c) app option" where
  "try_save_unified_form env a =
     (case ap_form a of
        None \<Rightarrow> Some a
      | Some fs \<Rightarrow>
          if is_group (inner fs) then
            (case validate_and_build_group (ap_config a) (inner fs) of
               (Inr g, f) \<Rightarrow> save_group env g a
             | (Inl e, f) \<Rightarrow> Some (reject_form env (Form_rejected e) f fs a))
          else
            (case validate_and_build (ae_files env) (ap_config a) (inner fs) of
               (Inr (Entry_bookmark b), f) \<Rightarrow> save_bookmark env f b a
             | (Inr (Entry_group g), f) \<Rightarrow> Some (reject_form env Unexpected_group f fs a)
             | (Inl e, f) \<Rightarrow> Some (reject_form env (Form_rejected e) f fs a)))"

definition with_form :: "(form \<Rightarrow> form option) \<Rightarrow> form_state \<Rightarrow> ('t, 'c) app \<Rightarrow> ('t, 'c) app option" where
  "with_form h fs a = map_option (\<lambda>f. a\<lparr>ap_form := Some (set_inner f fs)\<rparr>) (h (inner fs))"

definition handle_form_char ::
    "char \<Rightarrow> bool \<Rightarrow> form_state \<Rightarrow> ('t, 'c) app \<Rightarrow> ('t, 'c) app option" where
  "handle_form_char c ctrl fs a =
     (if c = CHR ''o'' \<and> ctrl \<or> c = CHR 0x0F then with_form (Some \<circ> add_session_line) fs a
      else if c = CHR ''-'' \<and> FIELD_COUNT \<le> fm_focused (inner fs) then with_form remove_session_line fs a
      else if c = CHR ''?'' then Some (open_help (ap_screen a) a)
      else if is_control c then Some a
      else with_form (insert_char c) fs a)"

text \<open>What a key other than a character, Escape and Enter does to the form.\<close>

definition edit_key :: "key_code \<Rightarrow> form \<Rightarrow> form option" where
  "edit_key k f =
     (case k of
        KTab \<Rightarrow> Some (form_next_field f)
      | KDown \<Rightarrow> Some (form_next_field f)
      | KBackTab \<Rightarrow> Some (form_prev_field f)
      | KUp \<Rightarrow> Some (form_prev_field f)
      | KLeft \<Rightarrow>
          if fm_focused f = FIELD_ENV then Some (cycle_env_left f)
          else if fm_focused f = FIELD_PROFILE then Some (cycle_profile_left f) else move_cursor_left f
      | KRight \<Rightarrow>
          if fm_focused f = FIELD_ENV then Some (cycle_env_right f)
          else if fm_focused f = FIELD_PROFILE then Some (cycle_profile_right f) else move_cursor_right f
      | KBackspace \<Rightarrow> delete_char f
      | KDelete \<Rightarrow> delete_char_forward f
      | KF n \<Rightarrow> Some (if n = 2 then add_session_line f else f)
      | _ \<Rightarrow> Some f)"

definition handle_unified_form_key :: "'t app_env \<Rightarrow> key_event \<Rightarrow> ('t, 'c) app \<Rightarrow> ('t, 'c) app option" where
  "handle_unified_form_key env key a =
     (case ap_form a of
        None \<Rightarrow> Some (back_to_list a)
      | Some fs \<Rightarrow>
          (case ke_code key of
             KEsc \<Rightarrow> Some (back_to_list (a\<lparr>ap_form := None\<rparr>))
           | KEnter \<Rightarrow> try_save_unified_form env a
           | KChar c \<Rightarrow> handle_form_char c (ke_ctrl key) fs a
           | k \<Rightarrow> with_form (edit_key k) fs a))"

section \<open>The shells of a group\<close>

definition leave_mux :: "nat \<Rightarrow> ('t, 'c) app \<Rightarrow> ('t, 'c) app" where
  "leave_mux gi a =
     a\<lparr>ap_mux_action := (if ap_mux_conns a gi = None then ap_mux_action a else Some (Mux_close gi)),
       ap_screen := List_screen, ap_mux_session := None\<rparr>"

definition mux_previous :: "nat \<Rightarrow> ('t, 'c) app \<Rightarrow> ('t, 'c) app" where
  "mux_previous n a =
     (let current = unwrap_or (ap_mux_session a) 0
      in a\<lparr>ap_mux_session := Some (if current = 0 then n - 1 else current - 1)\<rparr>)"

definition mux_next :: "nat \<Rightarrow> ('t, 'c) app \<Rightarrow> ('t, 'c) app" where
  "mux_next n a =
     (let current = unwrap_or (ap_mux_session a) 0
      in a\<lparr>ap_mux_session := Some (if n - 1 \<le> current then 0 else current + 1)\<rparr>)"

text \<open>After a failure a session is connected interactively.\<close>

definition mux_interactive :: "nat \<Rightarrow> nat \<Rightarrow> ('t, 'c) app \<Rightarrow> ('t, 'c) app" where
  "mux_interactive gi si a =
     a\<lparr>ap_mux_return := Some gi, ap_mux_conns := (ap_mux_conns a)(gi := None),
       ap_mux_rx := (ap_mux_rx a)(gi := None), ap_connect := Some (encode_session gi si)\<rparr>"

definition mux_run :: "nat \<Rightarrow> nat \<Rightarrow> bookmark_group \<Rightarrow> bool \<Rightarrow> ('t, 'c) app \<Rightarrow> ('t, 'c) app option" where
  "mux_run gi si g ready a =
     map_option (\<lambda>s.
         if ready then
           (case session_effective_on_connect s g (profiles (ap_config a)) of
              Some cmd \<Rightarrow> a\<lparr>ap_mux_action := Some (Send_command gi cmd)\<rparr>
            | None \<Rightarrow> a)
         else a\<lparr>ap_mux_action := Some (Open_shell gi si)\<rparr>)
       (nth_opt (g_sessions g) si)"

definition mux_enter :: "nat \<Rightarrow> bookmark_group \<Rightarrow> ('t, 'c) app \<Rightarrow> ('t, 'c) app option" where
  "mux_enter gi g a =
     (let si = unwrap_or (ap_mux_session a) 0
      in case map_option mc_state (ap_mux_conns a gi) of
           Some Mux_running \<Rightarrow> Some a
         | Some Mux_connecting \<Rightarrow> Some a
         | Some (Mux_error _) \<Rightarrow> Some (mux_interactive gi si a)
         | st \<Rightarrow> mux_run gi si g (st = Some Mux_ready) a)"

definition handle_mux_key :: "key_event \<Rightarrow> ('t, 'c) app \<Rightarrow> ('t, 'c) app option" where
  "handle_mux_key key a =
     (case ap_screen a of
        Group_mux gi \<Rightarrow>
          (case nth_opt (groups (ap_config a)) gi of
             None \<Rightarrow> Some (a\<lparr>ap_screen := List_screen, ap_mux_session := None\<rparr>)
           | Some g \<Rightarrow>
               let k = ke_code key; n = length (g_sessions g)
               in if k = KEsc \<or> k = KChar CHR ''q'' then Some (leave_mux gi a)
                  else if n = 0 then Some a
                  else if k = KUp \<or> k = KChar CHR ''k'' then Some (mux_previous n a)
                  else if k = KDown \<or> k = KChar CHR ''j'' then Some (mux_next n a)
                  else if k = KEnter then mux_enter gi g a
                  else Some a)
      | _ \<Rightarrow> Some a)"

section \<open>Keys\<close>

definition handle_key_event :: "'t app_env \<Rightarrow> key_event \<Rightarrow> ('t, 'c) app \<Rightarrow> ('t, 'c) app option" where
  "handle_key_event env key a =
     (if ke_ctrl key \<and> ke_code key = KChar CHR ''c'' then Some (a\<lparr>ap_quit := True\<rparr>)
      else case ap_screen a of
          Help_screen \<Rightarrow> Some (handle_help_key key a)
        | List_screen \<Rightarrow> if ap_search a then Some (handle_search_key env key a) else handle_list_key env key a
        | Add_form \<Rightarrow> handle_unified_form_key env key a
        | Edit_form _ _ \<Rightarrow> handle_unified_form_key env key a
        | Delete_confirm _ \<Rightarrow> handle_confirm_key env key a
        | Group_mux _ \<Rightarrow> handle_mux_key key a)"

section \<open>The event loop\<close>

text \<open>The tasks that are spawned: open the shell of a session, send a command to a shell.\<close>

datatype 'c mux_task = Task_open nat nat | Task_send nat 'c string

definition set_mux_state :: "nat \<Rightarrow> mux_state \<Rightarrow> ('t, 'c) app \<Rightarrow> ('t, 'c) app" where
  "set_mux_state gi s a =
     a\<lparr>ap_mux_conns := (ap_mux_conns a)(gi := map_option (mc_state_update (\<lambda>_. s)) (ap_mux_conns a gi))\<rparr>"

definition drop_mux :: "nat \<Rightarrow> ('t, 'c) app \<Rightarrow> ('t, 'c) app" where
  "drop_mux gi a = a\<lparr>ap_mux_conns := (ap_mux_conns a)(gi := None), ap_mux_rx := (ap_mux_rx a)(gi := None)\<rparr>"

fun start_mux_action :: "mux_action \<Rightarrow> ('t, 'c) app \<Rightarrow> ('t, 'c) app \<times> 'c mux_task list" where
  "start_mux_action (Open_shell gi si) a =
     (a\<lparr>ap_mux_conns := (ap_mux_conns a)(gi \<mapsto> \<lparr>mc_output = [], mc_state = Mux_connecting, mc_channel = None\<rparr>)\<rparr>,
      [Task_open gi si])"
| "start_mux_action (Send_command gi cmd) a =
     (set_mux_state gi Mux_running a,
      case Option.bind (ap_mux_conns a gi) mc_channel of Some ch \<Rightarrow> [Task_send gi ch cmd] | None \<Rightarrow> [])"
| "start_mux_action (Mux_close gi) a = (drop_mux gi a, [])"

definition perform_mux_action :: "('t, 'c) app \<Rightarrow> ('t, 'c) app \<times> 'c mux_task list" where
  "perform_mux_action a =
     (case ap_mux_action a of
        None \<Rightarrow> (a, [])
      | Some act \<Rightarrow> start_mux_action act (a\<lparr>ap_mux_action := None\<rparr>))"

fun handle_mux_result :: "'c mux_result \<Rightarrow> ('t, 'c) app \<Rightarrow> ('t, 'c) app" where
  "handle_mux_result (Shell_opened gi ch) a =
     a\<lparr>ap_mux_rx := (ap_mux_rx a)(gi \<mapsto> ch),
       ap_mux_conns := (ap_mux_conns a)
         (gi := map_option (\<lambda>conn. conn\<lparr>mc_state := Mux_ready, mc_channel := Some ch\<rparr>) (ap_mux_conns a gi))\<rparr>"
| "handle_mux_result (Shell_error gi e) a = set_mux_state gi (Mux_error e) a"
| "handle_mux_result (Command_sent gi) a = set_mux_state gi Mux_ready a"
| "handle_mux_result (Command_error gi e) a = set_mux_state gi (Mux_error e) a"
| "handle_mux_result (Connection_closed gi) a = drop_mux gi a"

text \<open>Every receiver gives the lines that have arrived on its shell.\<close>

definition drain_output :: "('c \<Rightarrow> string list) \<Rightarrow> ('t, 'c) app \<Rightarrow> ('t, 'c) app" where
  "drain_output lines a =
     a\<lparr>ap_mux_conns := (\<lambda>gi.
       case ap_mux_rx a gi of
         Some ch \<Rightarrow> map_option (fold mux_append_line (lines ch)) (ap_mux_conns a gi)
       | None \<Rightarrow> ap_mux_conns a gi)\<rparr>"

text \<open>
  What one round of the loop meets: the terminal that is gone or a shutdown at its start, a key if
  one was pressed, a shutdown after it, and what the tasks have sent.
\<close>

record ('t, 'c) round =
  rd_env :: "'t app_env"
  rd_gone :: bool
  rd_key :: "key_event option"
  rd_shutdown :: bool
  rd_results :: "'c mux_result list"
  rd_lines :: "'c \<Rightarrow> string list"

definition take_loop_request :: "('t, 'c) app \<Rightarrow> loop_action option \<times> ('t, 'c) app" where
  "take_loop_request a =
     (case ap_connect a of
        Some i \<Rightarrow> (Some (Connect i), a\<lparr>ap_connect := None\<rparr>)
      | None \<Rightarrow>
          (case ap_browse a of
             Some i \<Rightarrow> (Some (Browse i), a\<lparr>ap_browse := None\<rparr>)
           | None \<Rightarrow> (None, a)))"

definition after_key :: "('t, 'c) round \<Rightarrow> ('t, 'c) app \<Rightarrow> loop_action option \<times> 'c mux_task list \<times> ('t, 'c) app" where
  "after_key r a =
     (let a1 = app_tick (rd_env r) a
      in if ap_quit a1 \<or> rd_shutdown r then (Some Quit, [], a1)
         else
           let (a2, tasks) = perform_mux_action a1;
               a3 = drain_output (rd_lines r) (fold handle_mux_result (rd_results r) a2);
               (act, a4) = take_loop_request a3
           in (act, tasks, a4))"

definition loop_round ::
    "('t, 'c) round \<Rightarrow> ('t, 'c) app \<Rightarrow> (loop_action option \<times> 'c mux_task list \<times> ('t, 'c) app) option" where
  "loop_round r a =
     (if rd_gone r then Some (Some Quit, [], a)
      else map_option (after_key r)
        (case rd_key r of Some key \<Rightarrow> handle_key_event (rd_env r) key a | None \<Rightarrow> Some a))"

section \<open>The loop around it\<close>

text \<open>
  What follows an action other than \<open>Quit\<close>: a connection, with the outcome of \<open>Connect_Flow\<close>, or
  the file browser, which works on neither the configuration nor the state here.  The next event
  loop resets the requests.
\<close>

definition return_to_mux :: "('t, 'c) app \<Rightarrow> ('t, 'c) app" where
  "return_to_mux a =
     (let a1 = (case ap_mux_return a of
          Some gi \<Rightarrow> a\<lparr>ap_mux_return := None, ap_screen := Group_mux gi, ap_mux_session := Some 0\<rparr>
        | None \<Rightarrow> a)
      in a1\<lparr>ap_connect := None, ap_browse := None\<rparr>)"

definition after_connect :: "'t connect_outcome \<Rightarrow> ('t, 'c) app \<Rightarrow> ('t, 'c) app option" where
  "after_connect out a =
     (case out of
        (Inl Index_panic, _, _) \<Rightarrow> None
      | (_, config, st) \<Rightarrow> Some (return_to_mux (a\<lparr>ap_config := config, ap_store := st\<rparr>)))"

fun perform_action :: "'t connect_env \<Rightarrow> loop_action \<Rightarrow> ('t, 'c) app \<Rightarrow> ('t, 'c) app option" where
  "perform_action ce Quit a = Some a"
| "perform_action ce (Connect index) a =
     after_connect ((if 10000 \<le> index then connect_session else connect) ce (ap_config a) index (ap_store a)) a"
| "perform_action ce (Browse index) a =
     map_option (\<lambda>_. return_to_mux a) (nth_opt (bookmarks (ap_config a)) index)"

end
