(* ===== verification/Form_Correct.thy ===== *)
theory Form_Correct
  imports Bookmark_Form
begin

text \<open>
  What the form guarantees: cursors stay on character boundaries, so that no slicing panics; the
  editing of a field refines a text with a gap at the cursor; what is built is valid; and what
  opening and saving an entry keeps.
\<close>

section \<open>Slicing\<close>

lemma utf8_len_pos [simp]: "0 < utf8_len c" "utf8_len c \<noteq> 0"
  by (simp_all add: utf8_len_def)

lemma str_len_simps [simp]:
  "str_len [] = 0" "str_len (c # s) = utf8_len c + str_len s" "str_len (s @ t) = str_len s + str_len t"
  by (simp_all add: str_len_def)

lemma str_len_0 [simp]: "str_len s = 0 \<longleftrightarrow> s = []"
  by (cases s) auto

lemma split_bytes_append [simp]: "split_bytes (str_len a) (a @ b) = Some (a, b)"
proof (induction a)
  case Nil
  then show ?case by (cases b) simp_all
qed simp

lemma split_bytes_SomeD: "split_bytes n s = Some (a, b) \<Longrightarrow> s = a @ b \<and> n = str_len a"
proof (induction n s arbitrary: a b rule: split_bytes.induct)
  case (2 n c cs)
  then show ?case by (auto split: if_splits)
qed (auto split: if_splits)

lemma split_bytes_iff: "split_bytes n s = Some (a, b) \<longleftrightarrow> s = a @ b \<and> n = str_len a"
  using split_bytes_SomeD by auto

lemma split_bytes_all: "split_bytes (str_len s) s = Some (s, [])"
  using split_bytes_append [of s "[]"] by simp

section \<open>A text with a gap\<close>

text \<open>The abstract editor: what stands before the cursor and what after it.\<close>

datatype edit = Type char | Backspace | Delete | Left | Right

fun edit_gap :: "edit \<Rightarrow> string \<times> string \<Rightarrow> string \<times> string" where
  "edit_gap (Type c) (a, b) = (a @ [c], b)"
| "edit_gap Backspace (a, b) = (butlast a, b)"
| "edit_gap Delete (a, b) = (a, tl b)"
| "edit_gap Left (a, b) = (if a = [] then (a, b) else (butlast a, last a # b))"
| "edit_gap Right (a, b) = (if b = [] then (a, b) else (a @ [hd b], tl b))"

fun edit_form :: "edit \<Rightarrow> form \<Rightarrow> form option" where
  "edit_form (Type c) f = insert_char c f"
| "edit_form Backspace f = delete_char f"
| "edit_form Delete f = delete_char_forward f"
| "edit_form Left f = move_cursor_left f"
| "edit_form Right f = move_cursor_right f"

definition gap :: "form \<Rightarrow> nat \<Rightarrow> (string \<times> string) option" where
  "gap f i = split_bytes (fm_cursors f ! i) (fm_fields f ! i)"

text \<open>The four ways in which a field or its cursor changes.\<close>

lemma insert_at_gap:
  assumes "split_bytes (cs ! i) (ts ! i) = Some (a, b)"
  shows "insert_at_cursor i c (ts, cs) = Some (ts[i := a @ c # b], cs[i := str_len (a @ [c])])"
  using assms by (auto simp: insert_at_cursor_def insert_str_def clamped_def split_bytes_iff Let_def)

lemma drain_gap: "drain (str_len a) (str_len a + str_len b) (a @ b @ c) = Some (a @ c)"
  using split_bytes_append [of a "b @ c"] split_bytes_append [of "a @ b" c] by (simp add: drain_def)

lemma delete_before_gap:
  assumes "split_bytes (cs ! i) (ts ! i) = Some (a, b)" "a \<noteq> []"
  shows "delete_before_cursor i (ts, cs) = Some (ts[i := butlast a @ b], cs[i := str_len (butlast a)])"
proof -
  from assms(1) have s: "ts ! i = a @ b" "cs ! i = str_len a" by (auto simp: split_bytes_iff)
  obtain a' c where a: "a = a' @ [c]" using assms(2) by (cases a rule: rev_cases) auto
  have "drain (str_len a') (str_len a) (a @ b) = Some (a' @ b)"
    using drain_gap [of a' "[c]" b] a by simp
  moreover have "prev_char_boundary (a @ b) (str_len a) = Some (str_len (butlast a))"
    by (simp add: prev_char_boundary_def)
  ultimately show ?thesis
    using a by (simp add: delete_before_cursor_def clamped_def s Let_def del: append_assoc)
qed

lemma next_boundary_gap: "next_char_boundary (a @ c # b) (str_len a) = Some (str_len a + utf8_len c)"
  by (cases b) (simp_all add: next_char_boundary_def)

lemma delete_at_gap:
  assumes "split_bytes (cs ! i) (ts ! i) = Some (a, c # b)"
  shows "delete_at_cursor i (ts, cs) = Some (ts[i := a @ b], cs)"
proof -
  from assms have s: "ts ! i = a @ c # b" "cs ! i = str_len a" by (auto simp: split_bytes_iff)
  have "drain (str_len a) (str_len a + utf8_len c) (a @ c # b) = Some (a @ b)"
    using drain_gap [of a "[c]" b] by simp
  then show ?thesis
    by (simp add: delete_at_cursor_def clamped_def s Let_def next_boundary_gap)
qed

section \<open>The invariant of the form\<close>

definition entry_form_ok :: "form \<Rightarrow> bool" where
  "entry_form_ok f \<longleftrightarrow> length (fm_fields f) = FIELD_COUNT \<and> length (fm_cursors f) = FIELD_COUNT
     \<and> (\<forall>i < FIELD_COUNT. gap f i \<noteq> None)
     \<and> fm_focused f \<le> FIELD_COUNT + 1 \<and> fm_env f < length ENV_OPTIONS
     \<and> fm_profile f < length (fm_profiles f)
     \<and> (fm_sessions f = [] \<or> fm_cursor f < length (fm_sessions f))"

lemma position_less: "position P xs = Some i \<Longrightarrow> i < length xs"
  using position_SomeD by blast

lemma auto_detect_simps [simp]:
  "fm_fields (auto_detect_env f) = fm_fields f" "fm_cursors (auto_detect_env f) = fm_cursors f"
  "fm_focused (auto_detect_env f) = fm_focused f" "fm_profile (auto_detect_env f) = fm_profile f"
  "fm_profiles (auto_detect_env f) = fm_profiles f" "fm_sessions (auto_detect_env f) = fm_sessions f"
  "fm_cursor (auto_detect_env f) = fm_cursor f" "fm_original (auto_detect_env f) = fm_original f"
  "fm_is_edit (auto_detect_env f) = fm_is_edit f"
  by (simp_all add: auto_detect_env_def split: option.split)

lemma auto_detect_env_less: "fm_env f < length ENV_OPTIONS \<Longrightarrow> fm_env (auto_detect_env f) < length ENV_OPTIONS"
  by (auto simp: auto_detect_env_def dest: position_less split: option.split)

lemma field_changed_simps [simp]:
  "fm_fields (field_changed f) = fm_fields f" "fm_cursors (field_changed f) = fm_cursors f"
  "fm_focused (field_changed f) = fm_focused f" "fm_profile (field_changed f) = fm_profile f"
  "fm_profiles (field_changed f) = fm_profiles f" "fm_sessions (field_changed f) = fm_sessions f"
  "fm_cursor (field_changed f) = fm_cursor f" "fm_original (field_changed f) = fm_original f"
  "fm_is_edit (field_changed f) = fm_is_edit f"
  by (simp_all add: field_changed_def Let_def)

lemma field_changed_env: "fm_env f < length ENV_OPTIONS \<Longrightarrow> fm_env (field_changed f) < length ENV_OPTIONS"
  by (simp add: field_changed_def Let_def auto_detect_env_less)

lemma gap_update: "gap (field_changed f) i = gap f i"
  by (simp add: gap_def)

lemma entry_form_ok_update:
  assumes "entry_form_ok f" "i < FIELD_COUNT" "split_bytes p s \<noteq> None"
  shows "entry_form_ok (field_changed (f\<lparr>fm_fields := (fm_fields f)[i := s], fm_cursors := (fm_cursors f)[i := p]\<rparr>))"
    and "entry_form_ok (f\<lparr>fm_fields := (fm_fields f)[i := s], fm_cursors := (fm_cursors f)[i := p]\<rparr>)"
  using assms by (auto simp: entry_form_ok_def gap_def nth_list_update field_changed_env)

text \<open>One edit of a text field, seen through the gap.\<close>

lemma edit_step:
  assumes f: "entry_form_ok f" and i: "fm_focused f = i" "i < FIELD_COUNT" "\<not> is_selector f" and g: "gap f i = Some (a, b)"
  shows "\<exists>f'. edit_form e f = Some f' \<and> entry_form_ok f' \<and> gap f' i = Some (edit_gap e (a, b)) \<and> fm_focused f' = i
    \<and> (\<forall>j. j \<noteq> i \<longrightarrow> gap f' j = gap f j) \<and> \<not> is_selector f'"
proof -
  let ?ts = "fm_fields f" and ?cs = "fm_cursors f"
  from g have s: "split_bytes (?cs ! i) (?ts ! i) = Some (a, b)" by (simp add: gap_def)
  then have ab: "?ts ! i = a @ b" "?cs ! i = str_len a" by (auto simp: split_bytes_iff)
  from f i have len: "i < length ?ts" "i < length ?cs" by (simp_all add: entry_form_ok_def)
  have upd: "\<exists>f'. (if ch then with_fields f (Some (?ts[i := a' @ b'], ?cs[i := str_len a']))
        else Some (f\<lparr>fm_fields := ?ts[i := a' @ b'], fm_cursors := ?cs[i := str_len a']\<rparr>)) = Some f'
      \<and> entry_form_ok f' \<and> gap f' i = Some (a', b') \<and> fm_focused f' = i \<and> (\<forall>j. j \<noteq> i \<longrightarrow> gap f' j = gap f j) \<and> \<not> is_selector f'"
    for ch a' b'
    using entry_form_ok_update [OF f i(2), of "str_len a'" "a' @ b'"] i len
    by (auto simp: with_fields_def gap_def is_selector_def)
  have same: "with_fields f (Some (?ts, ?cs)) = with_fields f (Some (?ts[i := a @ b], ?cs[i := str_len a]))"
    "f = f\<lparr>fm_fields := ?ts[i := a @ b], fm_cursors := ?cs[i := str_len a]\<rparr>"
    by (simp_all add: ab(1) [symmetric] ab(2) [symmetric])
  have m: "f\<lparr>fm_cursors := ?cs[i := p]\<rparr> = f\<lparr>fm_fields := ?ts[i := a @ b], fm_cursors := ?cs[i := p]\<rparr>" for p
    by (simp add: ab(1) [symmetric])
  have n: "\<not> FIELD_COUNT \<le> fm_focused f" using i by simp
  show ?thesis
  proof (cases e)
    case (Type c)
    then show ?thesis using upd [of True "a @ [c]" b] insert_at_gap [OF s, of c] i n
      by (simp add: insert_char_def)
  next
    case Backspace
    show ?thesis
    proof (cases "a = []")
      case True
      with s ab have "delete_before_cursor i (?ts, ?cs) = Some (?ts, ?cs)"
        by (simp add: delete_before_cursor_def clamped_def)
      with Backspace upd [of True a b] same True i n show ?thesis by (simp add: delete_char_def)
    next
      case False
      with Backspace upd [of True "butlast a" b] delete_before_gap [OF s False] i n
      show ?thesis by (simp add: delete_char_def)
    qed
  next
    case Delete
    show ?thesis
    proof (cases b)
      case Nil
      with ab have "delete_at_cursor i (?ts, ?cs) = Some (?ts, ?cs)"
        by (simp add: delete_at_cursor_def clamped_def)
      with Delete upd [of True a b] same Nil i n show ?thesis by (simp add: delete_char_forward_def)
    next
      case (Cons c b')
      with s have s': "split_bytes (?cs ! i) (?ts ! i) = Some (a, c # b')" by simp
      have "?cs = ?cs[i := str_len a]" using ab(2) by (metis list_update_id)
      with Delete Cons upd [of True a b'] delete_at_gap [OF s'] i n
      show ?thesis by (simp add: delete_char_forward_def)
    qed
  next
    case Left
    have "prev_char_boundary (?ts ! i) (clamped ?ts ?cs i) = Some (str_len (butlast a))"
      using ab by (simp add: prev_char_boundary_def clamped_def)
    with Left i n have "edit_form e f = Some (f\<lparr>fm_cursors := ?cs[i := str_len (butlast a)]\<rparr>)"
      by (simp add: move_cursor_left_def move_cursor_def Let_def)
    then show ?thesis
    proof (cases a rule: rev_cases)
      case Nil
      with \<open>edit_form e f = _\<close> upd [of False "[]" b] Left m show ?thesis by simp
    next
      case (snoc a' c)
      with \<open>edit_form e f = _\<close> upd [of False a' "c # b"] Left m show ?thesis by simp
    qed
  next
    case Right
    have "next_char_boundary (?ts ! i) (clamped ?ts ?cs i) = Some (str_len (a @ take 1 b))"
      using ab by (cases b) (simp_all add: clamped_def next_char_boundary_def split_bytes_all split: list.split)
    with Right i n have "edit_form e f = Some (f\<lparr>fm_cursors := ?cs[i := str_len (a @ take 1 b)]\<rparr>)"
      by (simp add: move_cursor_right_def move_cursor_def Let_def)
    then show ?thesis
      using upd [of False "a @ take 1 b" "drop 1 b"] Right m by (cases b) simp_all
  qed
qed

section \<open>Every operation keeps the invariant\<close>

lemma edit_other_ok:
  assumes "entry_form_ok f" "is_selector f \<or> FIELD_COUNT \<le> fm_focused f"
  shows "\<exists>f'. edit_form e f = Some f' \<and> entry_form_ok f'"
proof (cases e)
  case (Type c)
  with assms show ?thesis by (auto simp: insert_char_def edit_session_def entry_form_ok_def gap_def)
next
  case Backspace
  with assms show ?thesis by (auto simp: delete_char_def edit_session_def entry_form_ok_def gap_def)
qed (use assms in \<open>auto simp: delete_char_forward_def move_cursor_left_def move_cursor_right_def move_cursor_def
      Let_def\<close>)

lemma edit_ok: "entry_form_ok f \<Longrightarrow> \<exists>f'. edit_form e f = Some f' \<and> entry_form_ok f'"
proof (cases "is_selector f \<or> FIELD_COUNT \<le> fm_focused f")
  case False
  assume f: "entry_form_ok f"
  from False have "fm_focused f < FIELD_COUNT" by simp
  with f obtain a b where "gap f (fm_focused f) = Some (a, b)" unfolding entry_form_ok_def by fast
  with edit_step [OF f refl, of a b e] False show ?thesis by auto
qed (simp add: edit_other_ok)

lemma navigation_ok:
  assumes "entry_form_ok f"
  shows "entry_form_ok (form_next_field f)" "entry_form_ok (form_prev_field f)"
    "entry_form_ok (cycle_env_right f)" "entry_form_ok (cycle_env_left f)"
    "entry_form_ok (cycle_profile_right f)" "entry_form_ok (cycle_profile_left f)"
  using assms
  by (auto simp: entry_form_ok_def gap_def form_next_field_def form_prev_field_def shows_sessions_def FIELD_COUNT_def
      cycle_env_right_def cycle_env_left_def cycle_profile_right_def cycle_profile_left_def ENV_OPTIONS_def)

lemma session_lines_ok:
  assumes "entry_form_ok f"
  shows "entry_form_ok (add_session_line f)" "\<exists>f'. remove_session_line f = Some f' \<and> entry_form_ok f'"
  using assms by (auto simp: entry_form_ok_def gap_def add_session_line_def remove_session_line_def Let_def)

lemma form_of_fields_ok: "length ts = FIELD_COUNT \<Longrightarrow> entry_form_ok (form_of_fields ts names)"
  by (simp add: entry_form_ok_def form_of_fields_def gap_def cursors_at_end_def split_bytes_all
      build_profile_options_def ENV_OPTIONS_def)

lemma new_forms_ok:
  "entry_form_ok (form_new_add user names)" "entry_form_ok (form_new_edit_bookmark kc b names)"
  "entry_form_ok (form_new_edit_group g names)"
proof -
  have e: "unwrap_or (position p xs) 0 < length xs" if "xs \<noteq> []" for p and xs :: "string list"
    using that by (cases "position p xs") (auto dest: position_less)
  have p: "profile_index_of p names < Suc (length names)" for p
  proof (cases p)
    case (Some a)
    then show ?thesis
      using e [of "build_profile_options names" "\<lambda>e. e = a"] by (simp add: profile_index_of_def build_profile_options_def)
  qed (simp add: profile_index_of_def)
  have v: "env_index_of env < length ENV_OPTIONS" for env
    unfolding env_index_of_def by (rule e) (simp add: ENV_OPTIONS_def)
  note f = form_of_fields_ok [of _ names]
  show "entry_form_ok (form_new_add user names)"
    unfolding form_new_add_def by (rule f) (simp add: FIELD_COUNT_def)
  have g: "entry_form_ok ((form_of_fields ts names)\<lparr>fm_env := env_index_of env, fm_profile := profile_index_of pr names,
      fm_is_edit := ed, fm_original := og, fm_has_stored := st\<rparr>)" if "length ts = FIELD_COUNT" for ts env pr ed og st
    using f [OF that] v p by (simp add: entry_form_ok_def gap_def form_of_fields_def build_profile_options_def)
  show "entry_form_ok (form_new_edit_bookmark kc b names)"
    unfolding form_new_edit_bookmark_def by (rule g) (simp add: FIELD_COUNT_def)
  have h: "entry_form_ok ((form_of_fields ts names)\<lparr>fm_env := env_index_of env, fm_profile := profile_index_of pr names,
      fm_is_edit := ed, fm_original := og, fm_sessions := ss, fm_collapsed := cl\<rparr>)"
    if "length ts = FIELD_COUNT" "ss \<noteq> []" for ts env pr ed og ss cl
    using f [OF that(1)] v p that(2) by (simp add: entry_form_ok_def gap_def form_of_fields_def build_profile_options_def)
  show "entry_form_ok (form_new_edit_group g names)"
    unfolding form_new_edit_group_def by (rule h) (simp_all add: FIELD_COUNT_def)
qed

section \<open>Properties\<close>

fun edit_all :: "edit list \<Rightarrow> form \<Rightarrow> form option" where
  "edit_all [] f = Some f"
| "edit_all (e # es) f = Option.bind (edit_form e f) (edit_all es)"

text \<open>C14:
  Typing, deleting in both directions and moving in a text field never panics, whatever
  characters of one or two bytes it holds, and does to it what the same keys do to a text with a
  gap at the cursor; the other fields keep their text and cursor.\<close>

theorem editing_refines_gap:
  assumes "entry_form_ok f" "fm_focused f < FIELD_COUNT" "\<not> is_selector f"
    and "gap f (fm_focused f) = Some (a, b)" "(a', b') = foldl (\<lambda>x e. edit_gap e x) (a, b) es"
  shows "\<exists>f'. edit_all es f = Some f' \<and> fm_fields f' ! fm_focused f = a' @ b'
    \<and> fm_cursors f' ! fm_focused f = str_len a'
    \<and> (\<forall>j. j \<noteq> fm_focused f \<longrightarrow> gap f' j = gap f j)"
  using assms
proof (induction es arbitrary: f a b)
  case Nil
  then show ?case by (auto simp: gap_def split_bytes_iff)
next
  case (Cons e es)
  obtain f' where f': "edit_form e f = Some f'" "entry_form_ok f'" "gap f' (fm_focused f) = Some (edit_gap e (a, b))"
    "fm_focused f' = fm_focused f" "\<forall>j. j \<noteq> fm_focused f \<longrightarrow> gap f' j = gap f j" "\<not> is_selector f'"
    using edit_step [OF Cons.prems(1) refl Cons.prems(2,3,4), of e] by blast
  obtain a1 b1 where ab: "edit_gap e (a, b) = (a1, b1)" by (cases "edit_gap e (a, b)")
  have "\<exists>f''. edit_all es f' = Some f'' \<and> fm_fields f'' ! fm_focused f' = a' @ b'
      \<and> fm_cursors f'' ! fm_focused f' = str_len a' \<and> (\<forall>j. j \<noteq> fm_focused f' \<longrightarrow> gap f'' j = gap f' j)"
    by (rule Cons.IH [OF f'(2)]) (use Cons.prems f' ab in auto)
  with f' show ?case by auto
qed

theorem editing_refines_gap_witness:
  "\<exists>f'. edit_all [Type CHR ''a'', Type (CHR 0xE9), Left, Backspace, Delete] (form_new_add None []) = Some f'
     \<and> fm_fields f' ! 0 = []"
proof -
  let ?f = "form_new_add None []" and ?es = "[Type CHR ''a'', Type (CHR 0xE9), Left, Backspace, Delete]"
  have f: "fm_focused ?f = 0" "gap ?f 0 = Some ([], [])"
    by (simp_all add: form_new_add_def form_of_fields_def gap_def cursors_at_end_def)
  have "\<exists>f'. edit_all ?es ?f = Some f' \<and> fm_fields f' ! fm_focused ?f = [] @ []
    \<and> fm_cursors f' ! fm_focused ?f = str_len [] \<and> (\<forall>j. j \<noteq> fm_focused ?f \<longrightarrow> gap f' j = gap ?f j)"
    by (rule editing_refines_gap [of _ "[]" "[]"]) (simp_all add: new_forms_ok f FIELD_COUNT_def is_selector_def)
  with f show ?thesis by auto
qed

section \<open>Trimmed text\<close>

lemma trim_ends: "trim s = [] \<or> \<not> is_whitespace (hd (trim s)) \<and> \<not> is_whitespace (last (trim s))"
proof -
  let ?t = "trim_start s"
  have h: "?t = [] \<or> \<not> is_whitespace (hd ?t)"
    unfolding trim_start_def using hd_dropWhile by blast
  have "trim_end ?t = [] \<or> \<not> is_whitespace (last (trim_end ?t))"
    using hd_dropWhile [of is_whitespace "rev ?t"] unfolding trim_end_def by (auto simp: last_rev)
  moreover have "hd (trim_end ?t) = hd ?t" if "trim_end ?t \<noteq> []"
  proof -
    obtain z where "rev ?t = z @ dropWhile is_whitespace (rev ?t)" by (metis takeWhile_dropWhile_id)
    then have "?t = trim_end ?t @ rev z" by (metis rev_append rev_rev_ident trim_end_def)
    with that show ?thesis by (metis hd_append2)
  qed
  moreover have "trim_end ?t = [] " if "?t = []" using that by (simp add: trim_end_def)
  ultimately show ?thesis using h unfolding trim_def by auto
qed

lemma trim_trim [simp]: "trim (trim s) = trim s"
  using trim_ends [of s] by (auto intro: trim_id)

lemma non_empty_option_trimmed:
  "trim s = s \<Longrightarrow> s \<noteq> [] \<Longrightarrow> non_empty_option s = Some s" "non_empty_option [] = None"
  by (simp_all add: non_empty_option_def trim_def trim_start_def trim_end_def)

section \<open>What is built\<close>

lemma form_port_Inr: "form_port s = Inr p \<Longrightarrow> p \<noteq> 0 \<and> parse_u16 (trim s) = Some p"
  by (auto simp: form_port_def ok_or_def result_bind_eq_Inr split: option.splits if_splits)

lemma tag_no_comma: "t \<in> set (parse_tags s) \<Longrightarrow> t \<noteq> [] \<and> CHR '','' \<notin> set t \<and> trim t = t"
proof -
  assume "t \<in> set (parse_tags s)"
  then obtain u where u: "u \<in> set (split_on CHR '','' s)" "t = trim u" "t \<noteq> []" by (auto simp: parse_tags_def)
  then have "CHR '','' \<notin> set u" using split_by_pieces [of u] by (auto simp: split_on_def list_all_iff)
  with u set_trim_subset [of u] show ?thesis by auto
qed

definition entry_names :: "app_config \<Rightarrow> string set" where
  "entry_names c = b_name ` set (bookmarks c) \<union> g_name ` set (groups c)"

lemma names_ex:
  "list_ex (\<lambda>b. b_name b = name) (bookmarks c) \<or> list_ex (\<lambda>g. g_name g = name) (groups c)
    \<longleftrightarrow> name \<in> entry_names c"
  by (auto simp: entry_names_def list_ex_iff)

lemma unchecked_name: "\<not> checks_name f name \<longleftrightarrow> fm_is_edit f \<and> (\<forall>orig. fm_original f = Some orig \<longrightarrow> orig = name)"
  by (auto simp: checks_name_def is_rename_def split: option.splits)

lemma map_error_Inr [simp]: "map_error g r = Inr x \<longleftrightarrow> r = Inr x"
  by (cases r) (simp_all add: map_error_def)

lemma selected_env_option: "entry_form_ok f \<Longrightarrow> selected_env f \<in> set ENV_OPTIONS"
  by (simp add: entry_form_ok_def selected_env_def)

lemma checked_fields:
  assumes "check_bookmark_fields c f = Inr port \<or> check_group_fields c f = Inr port"
  shows "validate_bookmark_name (trim (fm_fields f ! FIELD_NAME)) = Inr ()
    \<and> (checks_name f (trim (fm_fields f ! FIELD_NAME)) \<longrightarrow> trim (fm_fields f ! FIELD_NAME) \<notin> entry_names c)
    \<and> validate_hostname (trim (fm_fields f ! FIELD_HOST)) = Inr () \<and> form_port (fm_fields f ! FIELD_PORT) = Inr port"
  using assms names_ex [of "trim (fm_fields f ! FIELD_NAME)" c]
  by (auto simp: check_bookmark_fields_def check_group_fields_def Let_def result_bind_eq_Inr split: if_splits)

lemma built_bookmark:
  "validate_and_build_bookmark fls c f = (Inr b, f') \<Longrightarrow>
     \<exists>port. check_bookmark_fields c f = Inr port \<and> b = build_bookmark f port"
  by (auto simp: validate_and_build_bookmark_def split: sum.splits)

lemma built_group:
  "validate_and_build_group c f = (Inr g, f') \<Longrightarrow>
     \<exists>port. check_group_fields c f = Inr port \<and> g = build_group f port"
  by (cases "check_group_fields c f") (auto simp: validate_and_build_group_def)

text \<open>C17:
  A bookmark that the form builds has a valid name and host, a port that is not 0, an environment
  of the selector and clean tags; its name is new among bookmarks and groups, or that of the
  entry being edited.\<close>

theorem built_bookmark_valid:
  assumes "validate_and_build_bookmark fls c f = (Inr b, f')" "entry_form_ok f"
  shows "validate_bookmark_name (b_name b) = Inr () \<and> trim (b_name b) = b_name b
    \<and> validate_hostname (b_host b) = Inr () \<and> b_port b \<noteq> 0 \<and> b_env b \<in> set ENV_OPTIONS
    \<and> (\<forall>t \<in> set (b_tags b). t \<noteq> [] \<and> CHR '','' \<notin> set t)
    \<and> (b_name b \<in> entry_names c \<longrightarrow> fm_is_edit f \<and> (\<forall>orig. fm_original f = Some orig \<longrightarrow> orig = b_name b))"
proof -
  obtain port where p: "check_bookmark_fields c f = Inr port" "b = build_bookmark f port"
    using built_bookmark [OF assms(1)] by blast
  note ch = checked_fields [OF disjI1, OF p(1)]
  have "port \<noteq> 0" using ch form_port_Inr by blast
  then show ?thesis
    using ch tag_no_comma selected_env_option [OF assms(2)] unchecked_name
    unfolding p(2) by (simp add: build_bookmark_def Let_def) blast
qed

definition typed_form :: form where
  "typed_form = form_of_fields [''web'', ''10.0.0.1'', [], ''22'', [], ''a, b'', [], [], [], [], [], []] []"

definition no_entries :: app_config where
  "no_entries = \<lparr>settings_of = default_settings [] id, profiles = [], bookmarks = [], groups = []\<rparr>"

lemma typed_form_ok: "entry_form_ok typed_form"
  unfolding typed_form_def by (rule form_of_fields_ok) (simp add: FIELD_COUNT_def)

lemma typed_form_checked: "check_bookmark_fields no_entries typed_form = Inr 22"
proof -
  have n: "validate_bookmark_name ''web'' = Inr ()" and h: "validate_hostname ''10.0.0.1'' = Inr ()" by code_simp+
  have t: "trim ''web'' = ''web''" "trim ''10.0.0.1'' = ''10.0.0.1''" "trim ''22'' = ''22''" by code_simp+
  have "show_nat 22 = ''22''" by code_simp
  then have "form_port ''22'' = Inr 22" using parse_u16_show [of 22] t by (simp add: form_port_def)
  then show ?thesis
    by (simp add: check_bookmark_fields_def typed_form_def form_of_fields_def no_entries_def Let_def t n h map_error_def)
qed

theorem built_bookmark_valid_witness:
  "\<exists>b f'. validate_and_build_bookmark \<lparr>fl_tilde = id, fl_exists = (\<lambda>_. True)\<rparr> no_entries typed_form = (Inr b, f')
     \<and> b_port b \<noteq> 0 \<and> validate_bookmark_name (b_name b) = Inr ()"
proof -
  obtain b f' where b: "validate_and_build_bookmark \<lparr>fl_tilde = id, fl_exists = (\<lambda>_. True)\<rparr> no_entries typed_form
      = (Inr b, f')"
    by (simp add: validate_and_build_bookmark_def typed_form_checked)
  with built_bookmark_valid [OF b typed_form_ok] show ?thesis by blast
qed

section \<open>Opening and saving\<close>

text \<open>What the text fields of the form can show without loss.\<close>

definition plain_option :: "string option \<Rightarrow> bool" where
  "plain_option x \<longleftrightarrow> (case x of None \<Rightarrow> True | Some s \<Rightarrow> s \<noteq> [] \<and> trim s = s)"

lemma plain_option_shown: "plain_option x \<Longrightarrow> non_empty_option (unwrap_or x []) = x"
  by (cases x) (auto simp: plain_option_def non_empty_option_trimmed)

lemma split_on_comma_join:
  assumes "\<forall>t \<in> set ts. CHR '','' \<notin> set t" "ts \<noteq> []"
  shows "split_on CHR '','' (join_with '', '' ts) = hd ts # map (\<lambda>t. CHR '' '' # t) (tl ts)"
  using assms
proof (induction ts rule: induct_list012)
  case (3 s t ts)
  have s: "split_on CHR '','' (s @ CHR '','' # r) = s # split_on CHR '','' r" for r
    unfolding split_on_def by (rule split_by_append_sep) (use 3(3) in \<open>auto simp: list_all_iff\<close>)
  have t: "split_on CHR '','' (CHR '' '' # r) = (CHR '' '' # hd (split_on CHR '','' r)) # tl (split_on CHR '','' r)" for r
    by (simp add: split_on_def split: list.split)
  from 3 show ?case by (simp add: s t)
next
  case (2 s)
  then have "split_on CHR '','' s = [s]" unfolding split_on_def by (intro split_by_none) (auto simp: list_all_iff)
  then show ?case by simp
qed simp

lemma trim_space: "trim (CHR '' '' # t) = trim t"
  by (simp add: trim_def trim_start_def is_whitespace_def code_def)

lemma parse_tags_join:
  assumes "\<forall>t \<in> set ts. CHR '','' \<notin> set t \<and> t \<noteq> [] \<and> trim t = t"
  shows "parse_tags (join_with '', '' ts) = ts"
proof (cases ts)
  case Nil
  then show ?thesis by (simp add: parse_tags_def split_on_def trim_def trim_start_def trim_end_def)
next
  case (Cons t us)
  with assms have "parse_tags (join_with '', '' ts) = filter (\<lambda>t. t \<noteq> []) (t # map trim us)"
    by (simp add: parse_tags_def split_on_comma_join comp_def trim_space)
  also have "map trim us = us" using assms Cons by (induction us arbitrary: t ts) auto
  finally show ?thesis using assms Cons by (auto simp: filter_id_conv)
qed

definition plain_bookmark :: "string list \<Rightarrow> bookmark \<Rightarrow> bool" where
  "plain_bookmark names b \<longleftrightarrow> trim (b_name b) = b_name b \<and> validate_bookmark_name (b_name b) = Inr ()
     \<and> trim (b_host b) = b_host b \<and> validate_hostname (b_host b) = Inr () \<and> b_port b \<noteq> 0
     \<and> b_env b \<in> set ENV_OPTIONS
     \<and> (\<forall>t \<in> set (b_tags b). CHR '','' \<notin> set t \<and> t \<noteq> [] \<and> trim t = t)
     \<and> list_all plain_option [b_user b, b_identity_file b, b_proxy_jump b, b_notes b, b_on_connect b]
     \<and> (case b_profile b of None \<Rightarrow> True | Some p \<Rightarrow> p \<in> set names \<and> p \<noteq> ''(none)'')"

lemma position_of_member: "x \<in> set xs \<Longrightarrow> \<exists>i. position (\<lambda>e. e = x) xs = Some i \<and> xs ! i = x"
proof (cases "position (\<lambda>e. e = x) xs")
  case (Some i)
  then show ?thesis using position_SomeD [OF Some] by auto
qed (auto simp: position_None_iff)

lemma env_index_selects: "env \<in> set ENV_OPTIONS \<Longrightarrow> ENV_OPTIONS ! env_index_of env = env"
  using position_of_member [of env ENV_OPTIONS] by (auto simp: env_index_of_def)

text \<open>
  What the form builds when it is validated as it was opened for a bookmark: the bookmark, if its
  text is plain, its environment one of the selector and its profile still there, without what the
  form has no fields for.\<close>

lemma edit_form_rebuilds:
  assumes "plain_bookmark names b"
  shows "fst (validate_and_build_bookmark fls c (form_new_edit_bookmark kc b names))
    = Inr (b\<lparr>b_last_connected := None, b_connect_count := 0, b_on_connect_prompt_pattern := None,
        b_snippets := [], b_connect_timeout_secs := None, b_ssh_options := Map.empty\<rparr>)"
proof -
  let ?f = "form_new_edit_bookmark kc b names"
  have f: "fm_fields ?f = [b_name b, b_host b, unwrap_or (b_user b) [], show_nat (unat (b_port b)), [],
      join_with '', '' (b_tags b), unwrap_or (b_identity_file b) [], unwrap_or (b_proxy_jump b) [],
      unwrap_or (b_notes b) [], unwrap_or (b_on_connect b) [], [], []]" "fm_env ?f = env_index_of (b_env b)"
    "fm_profile ?f = profile_index_of (b_profile b) names" "fm_profiles ?f = build_profile_options names"
    "fm_is_edit ?f" "fm_original ?f = Some (b_name b)"
    by (simp_all add: form_new_edit_bookmark_def form_of_fields_def)
  have digits: "trim (show_nat n) = show_nat n" for n
    using show_nat_digits [of n] by (intro trim_no_ws) (auto simp: list_all_iff is_ascii_digit_def is_whitespace_def code_def)
  have port: "form_port (show_nat (unat (b_port b))) = Inr (b_port b)"
    using assms by (simp add: form_port_def digits parse_u16_show plain_bookmark_def)
  have "\<not> checks_name ?f (b_name b)" by (simp add: unchecked_name f)
  with assms port have c: "check_bookmark_fields c ?f = Inr (b_port b)"
    by (simp add: check_bookmark_fields_def f plain_bookmark_def Let_def map_error_def)
  have "selected_profile ?f = b_profile b"
  proof (cases "b_profile b")
    case (Some p)
    with assms have "p \<in> set names" "p \<noteq> ''(none)''" by (simp_all add: plain_bookmark_def)
    then obtain i where "position (\<lambda>e. e = p) names = Some i" "names ! i = p"
      using position_of_member by metis
    then show ?thesis
      using Some \<open>p \<noteq> _\<close> by (simp add: selected_profile_def f profile_index_of_def build_profile_options_def)
  qed (simp add: selected_profile_def f profile_index_of_def)
  with assms have "build_bookmark ?f (b_port b)
    = b\<lparr>b_last_connected := None, b_connect_count := 0, b_on_connect_prompt_pattern := None,
        b_snippets := [], b_connect_timeout_secs := None, b_ssh_options := Map.empty\<rparr>"
    by (intro bookmark.equality)
      (simp_all add: build_bookmark_def Let_def f plain_bookmark_def plain_option_shown parse_tags_join
        selected_env_def env_index_selects)
  with c show ?thesis by (simp add: validate_and_build_bookmark_def)
qed

lemma typed_bookmark_plain: "plain_bookmark [] (build_bookmark typed_form 22)"
proof -
  have t: "trim ''web'' = ''web''" "trim ''10.0.0.1'' = ''10.0.0.1''" "trim [] = []"
    "parse_tags ''a, b'' = [''a'', ''b'']" "trim ''a'' = ''a''" "trim ''b'' = ''b''" by code_simp+
  have "validate_bookmark_name ''web'' = Inr ()" and "validate_hostname ''10.0.0.1'' = Inr ()" by code_simp+
  with t show ?thesis
    by (simp add: plain_bookmark_def build_bookmark_def typed_form_def form_of_fields_def Let_def selected_env_def
        selected_profile_def ENV_OPTIONS_def plain_option_def non_empty_option_def)
qed

section \<open>Where the validation ends\<close>

lemma check_sessions_ok:
  "check_sessions seen grp ss = Inr () \<longleftrightarrow>
     distinct (map (trim \<circ> s_name) ss) \<and> (trim \<circ> s_name) ` set ss \<inter> seen = {}
     \<and> (\<forall>s \<in> set ss. trim (s_name s) \<noteq> [] \<and> clean_command (s_on_connect s))"
  by (induction seen grp ss rule: check_sessions.induct)
    (auto simp: Let_def validate_command_ok)

text \<open>
  The sessions of a built group are as the check of a loaded configuration asks; the command of
  the group itself, like that of a bookmark, is not looked at.
\<close>

lemma only_own_command_unchecked:
  assumes "validate_and_build_group c f = (Inr g, f')"
  shows "valid_group g \<longleftrightarrow> clean_command (g_on_connect g)"
proof -
  obtain port where p: "check_group_fields c f = Inr port" "g = build_group f port"
    using built_group [OF assms] by blast
  then have ch: "check_sessions {} (trim (fm_fields f ! FIELD_NAME)) (fm_sessions f) = Inr ()"
    by (auto simp: check_group_fields_def Let_def result_bind_eq_Inr split: if_splits)
  then have "distinct (map (trim \<circ> s_name) (fm_sessions f))" unfolding check_sessions_ok by blast
  then have "distinct (map s_name (fm_sessions f))" by (metis distinct_map map_map)
  with ch show ?thesis
    unfolding check_sessions_ok by (auto simp: valid_group_def p(2) build_group_def Let_def)
qed

text \<open>
  Typing or deleting in the name or the host sets the environment to the detected one, whatever
  was selected before.
\<close>

lemma detect_env_option: "detect_env name host \<in> set ENV_OPTIONS"
  by (simp add: detect_env_def Let_def ENV_OPTIONS_def)

lemma typing_sets_environment:
  assumes "entry_form_ok f" "fm_focused f = FIELD_NAME \<or> fm_focused f = FIELD_HOST" "insert_char c f = Some f'"
  shows "selected_env f' = detect_env (fm_fields f' ! FIELD_NAME) (fm_fields f' ! FIELD_HOST)"
proof -
  from assms(2,3) obtain ts cs where f': "f' = field_changed (f\<lparr>fm_fields := ts, fm_cursors := cs\<rparr>)"
    by (auto simp: insert_char_def is_selector_def FIELD_COUNT_def with_fields_def)
  obtain i where i: "position (\<lambda>e. e = detect_env (ts ! FIELD_NAME) (ts ! FIELD_HOST)) ENV_OPTIONS = Some i"
    "ENV_OPTIONS ! i = detect_env (ts ! FIELD_NAME) (ts ! FIELD_HOST)"
    using position_of_member [OF detect_env_option] by blast
  show ?thesis
    using assms(2) i unfolding f'
    by (auto simp: field_changed_def Let_def auto_detect_env_def selected_env_def simp del: One_nat_def)
qed

end
