(* ===== verification/App_Correct.thy ===== *)
theory App_Correct
  imports App Form_Correct
begin

text \<open>
  What the main screen guarantees: the list shows exactly the entries that match, no key panics but
  the one that confirms the deletion of a group, names stay unique, what is deleted was asked for,
  and a command is sent to a shell only while it is ready.
\<close>

section \<open>What the list shows\<close>

interpretation best_first: total_preorder better
  by unfold_locales auto

lemma scored_set:
  "set (map fst (List.map_filter (\<lambda>(i, b). map_option (Pair i) (s b)) (filter (\<lambda>(i, b). P b) (enumerate 0 bs))))
     = {i. i < length bs \<and> P (bs ! i) \<and> s (bs ! i) \<noteq> None}"
  by (force simp: List.map_filter_def in_set_enumerate_eq image_iff)

lemma scored_distinct:
  "distinct (map fst xs) \<Longrightarrow>
     distinct (map fst (List.map_filter (\<lambda>(i, b). map_option (Pair i) (s b)) (filter (\<lambda>(i, b). P b) xs)))"
proof (induction xs)
  case (Cons x xs)
  have "fst ` set (List.map_filter (\<lambda>(i, b). map_option (Pair i) (s b)) (filter (\<lambda>(i, b). P b) xs)) \<subseteq> fst ` set xs"
    by (force simp: List.map_filter_def)
  with Cons show ?case by (cases x) (auto simp: List.map_filter_simps split: option.split)
qed (simp add: List.map_filter_simps)

lemma filter_bookmarks_set:
  "set (filter_bookmarks m bs q e) = {i. i < length bs \<and> bookmark_in_env e (bs ! i) \<and> fuzzy_match_bookmark m (bs ! i) q \<noteq> None}"
  unfolding filter_bookmarks_def set_map best_first.sort_by_set by (simp only: set_map [symmetric] scored_set)

lemma filter_bookmarks_distinct: "distinct (filter_bookmarks m bs q e)"
proof -
  let ?xs = "List.map_filter (\<lambda>(i, b). map_option (Pair i) (fuzzy_match_bookmark m b q))
    (filter (\<lambda>(i, b). bookmark_in_env e b) (enumerate 0 bs))"
  have "mset (map fst (sort_by better ?xs)) = mset (map fst ?xs)"
    by (simp add: best_first.sort_by_permutation)
  moreover have "distinct (map fst ?xs)" by (rule scored_distinct) simp
  ultimately show ?thesis unfolding filter_bookmarks_def by (metis mset_eq_imp_distinct_iff)
qed

lemma filtered_groups_set:
  "set (filtered_groups m gs q e) = {GROUP_INDEX_MARKER + i | i. i < length gs \<and> group_matches m q e (gs ! i)}"
  by (force simp: filtered_groups_def in_set_enumerate_eq image_iff)

lemma filtered_groups_distinct: "distinct (filtered_groups m gs q e)"
proof -
  have "distinct (map fst (filter (\<lambda>(i, g). group_matches m q e g) (enumerate 0 gs)))"
    by (rule distinct_map_filter) simp
  then have "distinct (map ((+) GROUP_INDEX_MARKER) (map fst (filter (\<lambda>(i, g). group_matches m q e g) (enumerate 0 gs))))"
    by (simp add: distinct_map inj_on_def)
  then show ?thesis by (simp add: filtered_groups_def comp_def split_def)
qed

lemma visible_set:
  "set (visible m c q e) = {i. i < length (bookmarks c) \<and> bookmark_in_env e (bookmarks c ! i)
       \<and> fuzzy_match_bookmark m (bookmarks c ! i) q \<noteq> None}
    \<union> {GROUP_INDEX_MARKER + i | i. i < length (groups c) \<and> group_matches m q e (groups c ! i)}"
  by (simp only: visible_def set_append filter_bookmarks_set filtered_groups_set)

lemma visible_distinct: "length (bookmarks c) \<le> GROUP_INDEX_MARKER \<Longrightarrow> distinct (visible m c q e)"
  by (auto simp: visible_def filter_bookmarks_distinct filtered_groups_distinct filter_bookmarks_set filtered_groups_set)

text \<open>Connection statistics do not matter.\<close>

lemma scrubbed_same:
  "fuzzy_match_bookmark m (scrub b) q = fuzzy_match_bookmark m b q" "bookmark_in_env e (scrub b) = bookmark_in_env e b"
  by (simp_all add: fuzzy_match_bookmark_def bookmark_in_env_def scrub_def split: option.split)

lemma scored_map:
  assumes "\<And>b. s (h b) = s b" "\<And>b. P (h b) = P b"
  shows "List.map_filter (\<lambda>(i, b). map_option (Pair i) (s b)) (filter (\<lambda>(i, b). P b) (enumerate k (map h bs)))
    = List.map_filter (\<lambda>(i, b). map_option (Pair i) (s b)) (filter (\<lambda>(i, b). P b) (enumerate k bs))"
  by (induction bs arbitrary: k) (auto simp: assms List.map_filter_simps split: option.split)

lemma filter_bookmarks_scrub: "filter_bookmarks m (map scrub bs) q e = filter_bookmarks m bs q e"
  unfolding filter_bookmarks_def by (subst scored_map) (simp_all add: scrubbed_same)

definition same_entries :: "app_config \<Rightarrow> app_config \<Rightarrow> bool" where
  "same_entries c c' \<longleftrightarrow> map scrub (bookmarks c') = map scrub (bookmarks c) \<and> groups c' = groups c \<and> profiles c' = profiles c"

lemma visible_same: "same_entries c c' \<Longrightarrow> visible m c' q e = visible m c q e"
  unfolding visible_def by (metis same_entries_def filter_bookmarks_scrub)

lemma connect_same_entries: "connect ce c i st = (r, c', st') \<Longrightarrow> same_entries c c'"
proof (cases r)
  case (Inr u)
  assume "connect ce c i st = (r, c', st')"
  with Inr have "connect ce c i st = (Inr (), c', st')" by simp
  from connect_Inr [OF this]
  have c': "bookmarks c' = (bookmarks c)[i := record_connection (ce_now ce) (bookmarks c ! i)]"
    "groups c' = groups c" "profiles c' = profiles c" and i: "i < length (bookmarks c)" by simp_all
  have "scrub (record_connection n b) = scrub b" for n b by (simp add: scrub_def record_connection_def)
  then have "map scrub (bookmarks c') = map scrub (bookmarks c)"
    unfolding c'(1) by (intro nth_equalityI) (use i in \<open>auto simp: nth_list_update\<close>)
  with c' show ?thesis by (simp add: same_entries_def)
qed (auto simp: same_entries_def dest: connect_Inl)

lemma connect_session_same: "connect_session ce c i st = (r, c', st') \<Longrightarrow> c' = c"
  by (auto simp: connect_session_def Let_def dest: connect_temporary_memory split: option.splits if_splits)

section \<open>The invariant\<close>

definition selection_ok :: "nat list \<Rightarrow> nat \<Rightarrow> bool" where
  "selection_ok shown i \<longleftrightarrow> i = 0 \<or> i < length shown"

fun entry_name_at :: "app_config \<Rightarrow> edit_target \<Rightarrow> nat \<Rightarrow> string option" where
  "entry_name_at c Target_bookmark i = map_option b_name (nth_opt (bookmarks c) i)"
| "entry_name_at c Target_group i = map_option g_name (nth_opt (groups c) i)"

text \<open>The dialog describes the entry that its screen names; a group is named with its marker.\<close>

definition dialog_matches :: "app_config \<Rightarrow> confirm \<Rightarrow> nat \<Rightarrow> bool" where
  "dialog_matches config c idx \<longleftrightarrow>
     (if cf_is_group c
      then \<exists>gi g. idx = GROUP_INDEX_MARKER + gi \<and> nth_opt (groups config) gi = Some g \<and> cf_name c = g_name g
        \<and> cf_is_production c = (g_env g = ''production'')
      else \<exists>b. nth_opt (bookmarks config) idx = Some b \<and> cf_name c = b_name b
        \<and> cf_is_production c = (b_env b = ''production''))"

fun screen_ok :: "app_config \<Rightarrow> form_state option \<Rightarrow> confirm option \<Rightarrow> nat option \<Rightarrow> screen \<Rightarrow> bool" where
  "screen_ok config fs cf ms List_screen = True"
| "screen_ok config fs cf ms Help_screen = True"
| "screen_ok config fs cf ms Add_form = (\<exists>f. fs = Some (Form_add f) \<and> entry_form_ok f \<and> \<not> fm_is_edit f)"
| "screen_ok config fs cf ms (Edit_form t i) =
     (\<exists>f n. fs = Some (Form_edit i t f) \<and> entry_form_ok f \<and> fm_is_edit f \<and> entry_name_at config t i = Some n
        \<and> fm_original f = Some n)"
| "screen_ok config fs cf ms (Delete_confirm i) = (\<exists>c. cf = Some c \<and> dialog_matches config c i)"
| "screen_ok config fs cf ms (Group_mux gi) =
     (gi < length (groups config) \<and> unwrap_or ms 0 < max 1 (length (g_sessions (groups config ! gi))))"

text \<open>Help remembers the screen that it covers.\<close>

definition screens_ok :: "('t, 'c) app \<Rightarrow> bool" where
  "screens_ok a \<longleftrightarrow>
     (case ap_screen a of
        Help_screen \<Rightarrow> screen_ok (ap_config a) (ap_form a) (ap_confirm a) (ap_mux_session a)
          (unwrap_or (ap_help_source a) List_screen) \<and> ap_help_source a \<noteq> Some Help_screen
      | s \<Rightarrow> ap_help_source a = None \<and> screen_ok (ap_config a) (ap_form a) (ap_confirm a) (ap_mux_session a) s)"

definition view_ok :: "matcher \<Rightarrow> ('t, 'c) app \<Rightarrow> bool" where
  "view_ok m a \<longleftrightarrow> ap_filtered a = visible m (ap_config a) (ap_query a) (ap_env_filter a)
     \<and> selection_ok (visible m (ap_config a) (ap_query a) (ap_env_filter a)) (ap_selected a) \<and> screens_ok a"

text \<open>A request names a bookmark or a session that exists, or a group that is to be browsed.\<close>

definition requests_ok :: "('t, 'c) app \<Rightarrow> bool" where
  "requests_ok a \<longleftrightarrow>
     (\<forall>i. ap_connect a = Some i \<longrightarrow> i < length (bookmarks (ap_config a))
        \<or> (\<exists>gi si. i = encode_session gi si \<and> gi < length (groups (ap_config a))
             \<and> si < length (g_sessions (groups (ap_config a) ! gi))))
     \<and> (\<forall>i. ap_browse a = Some i \<longrightarrow> i < length (bookmarks (ap_config a)) \<or> GROUP_INDEX_MARKER \<le> i)
     \<and> (\<forall>gi. ap_mux_return a = Some gi \<longrightarrow> gi < length (groups (ap_config a)) \<and> ap_connect a \<noteq> None \<and> ap_help_source a = None)"

definition idle :: "('t, 'c) app \<Rightarrow> bool" where
  "idle a \<longleftrightarrow> ap_connect a = None \<and> ap_browse a = None \<and> ap_mux_return a = None"

lemma idle_requests: "idle a \<Longrightarrow> requests_ok a"
  by (simp add: idle_def requests_ok_def)

definition app_ok :: "matcher \<Rightarrow> ('t, 'c) app \<Rightarrow> bool" where
  "app_ok m a \<longleftrightarrow> view_ok m a \<and> idle a"

text \<open>After a key: the same, with requests that the round takes.\<close>

definition key_ok :: "matcher \<Rightarrow> ('t, 'c) app \<Rightarrow> bool" where
  "key_ok m a \<longleftrightarrow> view_ok m a \<and> requests_ok a"

lemma app_ok_key: "app_ok m a \<Longrightarrow> key_ok m a"
  by (simp add: app_ok_def key_ok_def idle_requests)

text \<open>The bounds of the coding of list items and sessions as numbers.\<close>

definition small :: "app_config \<Rightarrow> bool" where
  "small c \<longleftrightarrow> length (bookmarks c) \<le> 10000 \<and> length (groups c) \<le> GROUP_INDEX_MARKER
     \<and> (\<forall>g \<in> set (groups c). length (g_sessions g) < 9999)"

named_theorems app_simps "one step of the main screen"

lemma view_intro:
  assumes "app_ok m a" "ap_config a' = ap_config a" "ap_query a' = ap_query a" "ap_env_filter a' = ap_env_filter a"
    and "ap_filtered a' = ap_filtered a" "selection_ok (ap_filtered a) (ap_selected a')" "screens_ok a'" "requests_ok a'"
  shows "key_ok m a'"
  using assms by (simp add: app_ok_def key_ok_def view_ok_def)

lemma refilter_ok:
  assumes "ae_match env = m" "screens_ok a" "requests_ok a"
  shows "key_ok m (refilter env a)"
  using assms by (auto simp: key_ok_def view_ok_def refilter_def Let_def selection_ok_def screens_ok_def requests_ok_def
      split: screen.split)

lemma move_selection_ok: "app_ok m a \<Longrightarrow> key_ok m (move_selection d a)"
  by (rule view_intro [of m a])
    (auto simp: move_selection_def app_ok_def view_ok_def idle_def selection_ok_def screens_ok_def requests_ok_def
      split: screen.split)

lemma jump_to_end_ok: "app_ok m a \<Longrightarrow> key_ok m (jump_to_end a)"
  by (rule view_intro [of m a])
    (auto simp: jump_to_end_def app_ok_def view_ok_def idle_def selection_ok_def screens_ok_def requests_ok_def
      split: screen.split)

text \<open>What is selected exists.\<close>

lemma on_selected_ok:
  assumes a: "app_ok m a" and small: "length (bookmarks (ap_config a)) \<le> GROUP_INDEX_MARKER"
    and b: "\<And>i. i < length (bookmarks (ap_config a)) \<Longrightarrow> \<exists>a'. fm i a = Some a' \<and> P a'"
    and g: "\<And>gi. gi < length (groups (ap_config a)) \<Longrightarrow> \<exists>a'. fn gi a = Some a' \<and> P a'"
    and "P a"
  shows "\<exists>a'. on_selected fm fn a = Some a' \<and> P a'"
proof (cases "ap_filtered a = []")
  case False
  from a have f: "ap_filtered a = visible m (ap_config a) (ap_query a) (ap_env_filter a)"
    and s: "ap_selected a = 0 \<or> ap_selected a < length (ap_filtered a)"
    by (auto simp: app_ok_def view_ok_def selection_ok_def)
  from s False have s: "ap_selected a < length (ap_filtered a)" by auto
  then have "ap_filtered a ! ap_selected a \<in> set (visible m (ap_config a) (ap_query a) (ap_env_filter a))"
    unfolding f [symmetric] by (rule nth_mem)
  then consider (bookmark) "ap_filtered a ! ap_selected a < length (bookmarks (ap_config a))"
    | (grp) gi where "ap_filtered a ! ap_selected a = GROUP_INDEX_MARKER + gi" "gi < length (groups (ap_config a))"
    unfolding visible_set by blast
  then show ?thesis
  proof cases
    case bookmark
    with small b s False show ?thesis by (auto simp: on_selected_def)
  next
    case grp
    with g s False show ?thesis by (auto simp: on_selected_def)
  qed
qed (simp add: on_selected_def assms(5))

section \<open>Forms keep what they edit\<close>

definition keeps_entry :: "form \<Rightarrow> form \<Rightarrow> bool" where
  "keeps_entry f f' \<longleftrightarrow> entry_form_ok f' \<and> fm_is_edit f' = fm_is_edit f \<and> fm_original f' = fm_original f"

lemma edit_form_keeps_entry:
  "edit_form e f = Some f' \<Longrightarrow> fm_is_edit f' = fm_is_edit f \<and> fm_original f' = fm_original f"
  by (cases e) (auto simp: insert_char_def delete_char_def delete_char_forward_def move_cursor_left_def
      move_cursor_right_def move_cursor_def with_fields_def edit_session_def Let_def split: if_splits)

lemma edit_keeps: "entry_form_ok f \<Longrightarrow> \<exists>f'. edit_form e f = Some f' \<and> keeps_entry f f'"
  using edit_ok [of f e] edit_form_keeps_entry [of e f] by (auto simp: keeps_entry_def)

lemma moves_keep:
  "entry_form_ok f \<Longrightarrow> keeps_entry f (form_next_field f)" "entry_form_ok f \<Longrightarrow> keeps_entry f (form_prev_field f)"
  "entry_form_ok f \<Longrightarrow> keeps_entry f (cycle_env_right f)" "entry_form_ok f \<Longrightarrow> keeps_entry f (cycle_env_left f)"
  "entry_form_ok f \<Longrightarrow> keeps_entry f (cycle_profile_right f)" "entry_form_ok f \<Longrightarrow> keeps_entry f (cycle_profile_left f)"
  "entry_form_ok f \<Longrightarrow> keeps_entry f (add_session_line f)" "entry_form_ok f \<Longrightarrow> keeps_entry f f"
  unfolding keeps_entry_def
  by (simp_all add: navigation_ok session_lines_ok)
    (simp_all add: form_next_field_def form_prev_field_def cycle_env_right_def cycle_env_left_def cycle_profile_right_def
      cycle_profile_left_def add_session_line_def Let_def)

lemma remove_line_keeps: "entry_form_ok f \<Longrightarrow> \<exists>f'. remove_session_line f = Some f' \<and> keeps_entry f f'"
  using session_lines_ok(2) [of f] by (auto simp: keeps_entry_def remove_session_line_def Let_def split: if_splits)

lemma edit_key_keeps: "entry_form_ok f \<Longrightarrow> \<exists>f'. edit_key k f = Some f' \<and> keeps_entry f f'"
  using edit_keeps [of f Left] edit_keeps [of f Right] edit_keeps [of f Backspace] edit_keeps [of f Delete] moves_keep [of f]
  by (cases k) (simp_all add: edit_key_def)

lemma new_form_entry:
  "fm_is_edit (form_new_add u ns) = False"
  "fm_is_edit (form_new_edit_bookmark kc b ns)" "fm_original (form_new_edit_bookmark kc b ns) = Some (b_name b)"
  "fm_is_edit (form_new_edit_group g ns)" "fm_original (form_new_edit_group g ns) = Some (g_name g)"
  by (simp_all add: form_new_add_def form_new_edit_bookmark_def form_new_edit_group_def form_of_fields_def)

section \<open>Keys keep the invariant\<close>

lemmas app_defs = app_ok_def key_ok_def view_ok_def idle_def requests_ok_def screens_ok_def

lemma back_to_list_ok:
  "app_ok m a \<Longrightarrow> ap_screen a \<noteq> Help_screen \<Longrightarrow> key_ok m (back_to_list (a\<lparr>ap_form := f\<rparr>))"
  "app_ok m a \<Longrightarrow> ap_screen a \<noteq> Help_screen \<Longrightarrow> key_ok m (back_to_list (a\<lparr>ap_confirm := c\<rparr>))"
  by (auto simp: app_defs back_to_list_def split: screen.splits)

lemma open_help_ok:
  "app_ok m a \<Longrightarrow> ap_screen a \<noteq> Help_screen \<Longrightarrow> key_ok m (open_help (ap_screen a) a)"
  by (auto simp: app_defs open_help_def split: screen.splits)

lemma handle_help_key_ok:
  "app_ok m a \<Longrightarrow> ap_screen a = Help_screen \<Longrightarrow> key_ok m (handle_help_key key a)"
  by (auto simp: app_defs handle_help_key_def close_help_def scroll_help_def
      split: key_code.split screen.split option.splits)

lemma refiltered_list_ok:
  assumes "app_ok m a" "ap_screen a = List_screen" "ae_match env = m"
  shows "key_ok m (refilter env (a\<lparr>ap_query := q, ap_search := s\<rparr>))" "key_ok m (refilter env (a\<lparr>ap_query := q\<rparr>))"
    "key_ok m (refilter env (a\<lparr>ap_env_filter := e, ap_search := s, ap_query := q\<rparr>))"
  by (rule refilter_ok; use assms in \<open>simp add: app_defs\<close>)+

lemma handle_search_key_ok:
  assumes "app_ok m a" "ap_screen a = List_screen" "ae_match env = m"
  shows "key_ok m (handle_search_key env key a)"
proof -
  have "key_ok m (open_help List_screen a)" using open_help_ok [OF assms(1)] assms(2) by simp
  moreover have "key_ok m (a\<lparr>ap_search := False\<rparr>)" using assms by (simp add: app_defs)
  ultimately show ?thesis
    using refiltered_list_ok [OF assms] move_selection_ok [OF assms(1)] app_ok_key [OF assms(1)]
    by (simp add: handle_search_key_def split: key_code.split)
qed

lemma list_actions_ok:
  assumes "app_ok m a" "ap_screen a = List_screen"
  shows "f = id \<or> f = add_session_line \<Longrightarrow> key_ok m (open_add_form f a)"
    and "i < length (bookmarks (ap_config a)) \<Longrightarrow> \<exists>a'. edit_bookmark i a = Some a' \<and> key_ok m a'"
    and "i < length (groups (ap_config a)) \<Longrightarrow> \<exists>a'. edit_group i a = Some a' \<and> key_ok m a'"
    and "i < length (bookmarks (ap_config a)) \<Longrightarrow> \<exists>a'. ask_delete_bookmark i a = Some a' \<and> key_ok m a'"
    and "i < length (groups (ap_config a)) \<Longrightarrow> \<exists>a'. ask_delete_group i a = Some a' \<and> key_ok m a'"
    and "i < length (bookmarks (ap_config a)) \<Longrightarrow> key_ok m (a\<lparr>ap_browse := Some i\<rparr>)"
    and "key_ok m (a\<lparr>ap_browse := Some (GROUP_INDEX_MARKER + i)\<rparr>)"
    and "i < length (bookmarks (ap_config a)) \<Longrightarrow> key_ok m (a\<lparr>ap_connect := Some i\<rparr>)"
    and "i < length (groups (ap_config a)) \<Longrightarrow> key_ok m (a\<lparr>ap_mux_session := Some 0, ap_screen := Group_mux i\<rparr>)"
proof -
  show "key_ok m (open_add_form f a)" if "f = id \<or> f = add_session_line"
    using that assms new_forms_ok moves_keep(7) [OF new_forms_ok(1)]
    by (auto simp: app_defs open_add_form_def new_form_entry keeps_entry_def)
qed (use assms in \<open>simp add: app_defs edit_bookmark_def edit_group_def new_forms_ok new_form_entry
      ask_delete_bookmark_def ask_delete_group_def dialog_matches_def confirm_new_def confirm_new_group_def\<close>)+

lemma handle_list_key_ok:
  assumes a: "app_ok m a" "ap_screen a = List_screen" "ae_match env = m"
    and small: "length (bookmarks (ap_config a)) \<le> GROUP_INDEX_MARKER"
  shows "\<exists>a'. handle_list_key env key a = Some a' \<and> key_ok m a'"
proof -
  note sel = on_selected_ok [where P = "key_ok m", OF a(1) small _ _ app_ok_key [OF a(1)]]
  note acts = list_actions_ok [OF a(1,2)]
  have move: "\<exists>a'. on_selected edit_bookmark edit_group a = Some a' \<and> key_ok m a'"
    "\<exists>a'. on_selected ask_delete_bookmark ask_delete_group a = Some a' \<and> key_ok m a'"
    "\<exists>a'. on_selected (\<lambda>idx a. Some (a\<lparr>ap_browse := Some idx\<rparr>))
       (\<lambda>gi a. Some (a\<lparr>ap_browse := Some (GROUP_INDEX_MARKER + gi)\<rparr>)) a = Some a' \<and> key_ok m a'"
    "\<exists>a'. on_selected (\<lambda>idx a. Some (a\<lparr>ap_connect := Some idx\<rparr>))
       (\<lambda>gi a. Some (a\<lparr>ap_mux_session := Some 0, ap_screen := Group_mux gi\<rparr>)) a = Some a' \<and> key_ok m a'"
    by (rule sel; use acts in \<open>simp; fail\<close>)+
  have h: "key_ok m (open_help List_screen a)" using open_help_ok [OF a(1)] a(2) by simp
  have s: "key_ok m (a\<lparr>ap_selected := 0\<rparr>)" "key_ok m (a\<lparr>ap_search := True\<rparr>)" "key_ok m (a\<lparr>ap_quit := True\<rparr>)"
    using a by (simp_all add: app_defs selection_ok_def)
  have f: "key_ok m (filter_by_env env i a)" for i
    unfolding filter_by_env_def by (rule refiltered_list_ok [OF a])
  note simple = f s h move_selection_ok [OF a(1)] jump_to_end_ok [OF a(1)] app_ok_key [OF a(1)] acts(1)
  have "\<exists>a'. handle_list_char env c ctrl a = Some a' \<and> key_ok m a'" for c ctrl
    unfolding handle_list_char_def using move(1-3) simple by (simp split: if_split)
  then show ?thesis
    unfolding handle_list_key_def using move(4) simple by (simp split: key_code.split)
qed

lemma handle_mux_key_ok:
  assumes a: "app_ok m a" "ap_screen a = Group_mux gi"
  shows "\<exists>a'. handle_mux_key key a = Some a' \<and> key_ok m a'"
proof -
  from a have gi: "gi < length (groups (ap_config a))"
    and si: "unwrap_or (ap_mux_session a) 0 < max 1 (length (g_sessions (groups (ap_config a) ! gi)))"
    by (simp_all add: app_defs)
  let ?n = "length (g_sessions (groups (ap_config a) ! gi))"
  have "key_ok m (leave_mux gi a)" using a by (simp add: app_defs leave_mux_def)
  moreover have "key_ok m (mux_previous ?n a)" "key_ok m (mux_next ?n a)" if "?n \<noteq> 0"
    using that a si by (auto simp: app_defs mux_previous_def mux_next_def Let_def)
  moreover have "\<exists>a'. mux_enter gi (groups (ap_config a) ! gi) a = Some a' \<and> key_ok m a'" if "?n \<noteq> 0"
  proof -
    from that si have s: "unwrap_or (ap_mux_session a) 0 < ?n" by (auto simp: max_def split: if_splits)
    have "key_ok m (mux_interactive gi (unwrap_or (ap_mux_session a) 0) a)"
      using a gi s by (auto simp: app_defs mux_interactive_def)
    moreover have "\<exists>a'. mux_run gi (unwrap_or (ap_mux_session a) 0) (groups (ap_config a) ! gi) r a = Some a' \<and> key_ok m a'" for r
      using a gi s by (simp add: app_defs mux_run_def split: option.split)
    ultimately show ?thesis
      using app_ok_key [OF a(1)] by (simp add: mux_enter_def Let_def split: option.split mux_state.split)
  qed
  ultimately show ?thesis
    using a gi app_ok_key [OF a(1)] by (simp add: handle_mux_key_def Let_def)
qed

section \<open>Saving and deleting\<close>

lemma save_config_simps [simp]:
  "ap_config (save_config env s a) = ap_config a" "ap_screen (save_config env s a) = ap_screen a"
  "ap_form (save_config env s a) = ap_form a" "ap_confirm (save_config env s a) = ap_confirm a"
  "ap_connect (save_config env s a) = ap_connect a" "ap_browse (save_config env s a) = ap_browse a"
  "ap_help_source (save_config env s a) = ap_help_source a" "ap_mux_return (save_config env s a) = ap_mux_return a"
  "ap_mux_session (save_config env s a) = ap_mux_session a" "ap_keychain (save_config env s a) = ap_keychain a"
  "ap_mux_action (save_config env s a) = ap_mux_action a" "ap_mux_conns (save_config env s a) = ap_mux_conns a"
  by (simp_all add: save_config_def set_status_def split: prod.split)

lemma set_status_simps [simp]:
  "ap_config (set_status env s a) = ap_config a" "ap_screen (set_status env s a) = ap_screen a"
  "ap_form (set_status env s a) = ap_form a" "ap_confirm (set_status env s a) = ap_confirm a"
  "ap_connect (set_status env s a) = ap_connect a" "ap_browse (set_status env s a) = ap_browse a"
  "ap_help_source (set_status env s a) = ap_help_source a" "ap_mux_return (set_status env s a) = ap_mux_return a"
  "ap_mux_session (set_status env s a) = ap_mux_session a" "ap_keychain (set_status env s a) = ap_keychain a"
  "ap_mux_action (set_status env s a) = ap_mux_action a" "ap_mux_conns (set_status env s a) = ap_mux_conns a"
  "ap_query (set_status env s a) = ap_query a" "ap_env_filter (set_status env s a) = ap_env_filter a"
  "ap_filtered (set_status env s a) = ap_filtered a" "ap_selected (set_status env s a) = ap_selected a"
  by (simp_all add: set_status_def)

lemma migrate_simps [simp]:
  "ap_config (migrate_password env old new a) = ap_config a" "ap_screen (migrate_password env old new a) = ap_screen a"
  "ap_connect (migrate_password env old new a) = ap_connect a" "ap_browse (migrate_password env old new a) = ap_browse a"
  "ap_help_source (migrate_password env old new a) = ap_help_source a"
  "ap_mux_return (migrate_password env old new a) = ap_mux_return a"
  "ap_mux_action (migrate_password env old new a) = ap_mux_action a"
  "ap_mux_conns (migrate_password env old new a) = ap_mux_conns a"
  by (simp_all add: migrate_password_def split: option.split)

lemma save_typed_simps [simp]:
  "ap_config (save_typed_password env f n a) = ap_config a"
  "ap_connect (save_typed_password env f n a) = ap_connect a" "ap_browse (save_typed_password env f n a) = ap_browse a"
  "ap_help_source (save_typed_password env f n a) = ap_help_source a"
  "ap_mux_return (save_typed_password env f n a) = ap_mux_return a"
  "ap_mux_action (save_typed_password env f n a) = ap_mux_action a"
  "ap_mux_conns (save_typed_password env f n a) = ap_mux_conns a"
  by (simp_all add: save_typed_password_def Let_def)

lemma refilter_simps [simp]:
  "ap_config (refilter env a) = ap_config a" "ap_screen (refilter env a) = ap_screen a"
  "ap_keychain (refilter env a) = ap_keychain a" "ap_mux_action (refilter env a) = ap_mux_action a"
  "ap_mux_conns (refilter env a) = ap_mux_conns a"
  by (simp_all add: refilter_def Let_def)

text \<open>Back to the list, whatever has happened to the entries.\<close>

definition settled :: "('t, 'c) app \<Rightarrow> bool" where
  "settled a \<longleftrightarrow> idle a \<and> ap_help_source a = None"

lemma settled_list_ok:
  assumes "settled a" "ae_match env = m"
  shows "key_ok m (refilter env (back_to_list (a\<lparr>ap_confirm := c\<rparr>)))" "key_ok m (close_form env a)"
  unfolding close_form_def
  by (rule refilter_ok; use assms in \<open>simp add: settled_def idle_def screens_ok_def requests_ok_def back_to_list_def\<close>)+

lemma app_ok_settled: "app_ok m a \<Longrightarrow> ap_screen a \<noteq> Help_screen \<Longrightarrow> settled a"
  by (auto simp: app_ok_def settled_def view_ok_def screens_ok_def split: screen.splits)

lemma settled_simps [simp]:
  "settled (save_config env s a) = settled a" "settled (set_status env s a) = settled a"
  "settled (migrate_password env old new a) = settled a" "settled (save_typed_password env f n a) = settled a"
  by (simp_all add: settled_def idle_def)

lemma confirm_enter_cases:
  assumes a: "app_ok m a" "ap_screen a = Delete_confirm idx" "ae_match env = m" "ap_confirm a = Some c"
    and small: "small (ap_config a)"
  shows "confirm_enter env c a = None \<longleftrightarrow> is_confirmed c \<and> cf_is_group c"
    and "confirm_enter env c a = Some a' \<Longrightarrow> key_ok m a'"
    and "is_confirmed c \<Longrightarrow> \<not> cf_is_group c \<Longrightarrow> confirm_enter env c a = Some a' \<Longrightarrow>
      ap_config a' = (ap_config a)\<lparr>bookmarks := remove_at idx (bookmarks (ap_config a))\<rparr>
      \<and> ap_keychain a' = delete_password (cf_name c) (ap_keychain a)"
proof -
  note s = app_ok_settled [OF a(1)]
  from a have conf: "dialog_matches (ap_config a) c idx" by (simp add: app_defs)
  have grp: "delete_group env idx a = None" if "cf_is_group c"
  proof -
    from conf that obtain gi where "idx = GROUP_INDEX_MARKER + gi" by (auto simp: dialog_matches_def)
    then show ?thesis using small by (simp add: delete_group_def small_def)
  qed
  obtain b where b: "\<not> cf_is_group c \<Longrightarrow> nth_opt (bookmarks (ap_config a)) idx = Some b \<and> cf_name c = b_name b"
    using conf unfolding dialog_matches_def by (cases "cf_is_group c") auto
  have del: "\<exists>a'. delete_bookmark env idx a = Some a' \<and> settled a'
      \<and> ap_config a' = (ap_config a)\<lparr>bookmarks := remove_at idx (bookmarks (ap_config a))\<rparr>
      \<and> ap_keychain a' = delete_password (cf_name c) (ap_keychain a)" if "\<not> cf_is_group c"
    using b [OF that] s a(2) by (simp add: delete_bookmark_def Let_def settled_def idle_def)
  show "confirm_enter env c a = None \<longleftrightarrow> is_confirmed c \<and> cf_is_group c"
    using grp del a(2) by (auto simp: confirm_enter_def)
  show "key_ok m a'" if "confirm_enter env c a = Some a'"
    using that grp del a settled_list_ok(1) [OF _ a(3)] app_ok_key [OF a(1)]
    by (auto simp: confirm_enter_def split: if_splits)
  show "ap_config a' = (ap_config a)\<lparr>bookmarks := remove_at idx (bookmarks (ap_config a))\<rparr>
      \<and> ap_keychain a' = delete_password (cf_name c) (ap_keychain a)"
    if "is_confirmed c" "\<not> cf_is_group c" "confirm_enter env c a = Some a'"
    using that del a(2) by (auto simp: confirm_enter_def back_to_list_def)
qed

lemma handle_confirm_key_cases:
  assumes a: "app_ok m a" "ap_screen a = Delete_confirm idx" "ae_match env = m" "small (ap_config a)"
  shows "handle_confirm_key env key a = None \<longleftrightarrow>
      ke_code key = KEnter \<and> (\<exists>c. ap_confirm a = Some c \<and> is_confirmed c \<and> cf_is_group c)"
    and "handle_confirm_key env key a = Some a' \<Longrightarrow> key_ok m a'"
    and "handle_confirm_key env key a = Some a' \<Longrightarrow> ap_config a' \<noteq> ap_config a \<Longrightarrow> ke_code key = KEnter"
proof -
  from a obtain c where c: "ap_confirm a = Some c" "dialog_matches (ap_config a) c idx" by (auto simp: app_defs)
  note enter = confirm_enter_cases [OF a(1,2,3) c(1) a(4)]
  show "handle_confirm_key env key a = None \<longleftrightarrow>
      ke_code key = KEnter \<and> (\<exists>c. ap_confirm a = Some c \<and> is_confirmed c \<and> cf_is_group c)"
    using enter(1) c by (auto simp: handle_confirm_key_def split: key_code.split)
  have inp: "key_ok m (a\<lparr>ap_confirm := Some (c\<lparr>cf_input := t\<rparr>)\<rparr>)" for t
    using a c by (auto simp: app_defs dialog_matches_def)
  have h: "key_ok m (open_help (ap_screen a) a)" using open_help_ok [OF a(1)] a(2) by simp
  have esc: "key_ok m (back_to_list (a\<lparr>ap_confirm := None\<rparr>))" using back_to_list_ok(2) [OF a(1)] a(2) by simp
  show "key_ok m a'" if "handle_confirm_key env key a = Some a'"
    using that enter(2) c inp h esc app_ok_key [OF a(1)]
    by (auto simp: handle_confirm_key_def split: key_code.splits if_splits)
  show "ke_code key = KEnter" if "handle_confirm_key env key a = Some a'" "ap_config a' \<noteq> ap_config a"
    using that c by (auto simp: handle_confirm_key_def back_to_list_def open_help_def split: key_code.splits if_splits)
qed

section \<open>Entries\<close>

text \<open>The abstract view: how the entries can change.\<close>

definition name_free :: "app_config \<Rightarrow> string \<Rightarrow> string \<Rightarrow> bool" where
  "name_free c old name \<longleftrightarrow> name = old \<or> name \<notin> entry_names c"

inductive entry_change :: "app_config \<Rightarrow> app_config \<Rightarrow> bool" for c where
  bookmark_added: "b_name b \<notin> entry_names c \<Longrightarrow> entry_change c (c\<lparr>bookmarks := bookmarks c @ [b]\<rparr>)"
| group_added: "g_name g \<notin> entry_names c \<Longrightarrow> entry_change c (c\<lparr>groups := groups c @ [g]\<rparr>)"
| bookmark_replaced: "i < length (bookmarks c) \<Longrightarrow> name_free c (b_name (bookmarks c ! i)) (b_name b) \<Longrightarrow>
    entry_change c (c\<lparr>bookmarks := (bookmarks c)[i := b]\<rparr>)"
| group_replaced: "i < length (groups c) \<Longrightarrow> name_free c (g_name (groups c ! i)) (g_name g) \<Longrightarrow>
    entry_change c (c\<lparr>groups := (groups c)[i := g]\<rparr>)"
| became_group: "i < length (bookmarks c) \<Longrightarrow> name_free c (b_name (bookmarks c ! i)) (g_name g) \<Longrightarrow>
    entry_change c (c\<lparr>bookmarks := remove_at i (bookmarks c), groups := groups c @ [g]\<rparr>)"
| became_bookmark: "i < length (groups c) \<Longrightarrow> name_free c (g_name (groups c ! i)) (b_name b) \<Longrightarrow>
    entry_change c (c\<lparr>bookmarks := bookmarks c @ [b], groups := remove_at i (groups c)\<rparr>)"
| bookmark_deleted: "i < length (bookmarks c) \<Longrightarrow>
    entry_change c (c\<lparr>bookmarks := remove_at i (bookmarks c)\<rparr>)"

definition unique_names :: "app_config \<Rightarrow> bool" where
  "unique_names c \<longleftrightarrow> distinct (map b_name (bookmarks c) @ map g_name (groups c))"

lemma remove_at_split:
  assumes "i < length xs"
  shows "xs = take i xs @ xs ! i # drop (Suc i) xs" "remove_at i xs = take i xs @ drop (Suc i) xs"
    "xs[i := y] = take i xs @ y # drop (Suc i) xs"
  using assms by (simp_all add: id_take_nth_drop remove_at_def upd_conv_take_nth_drop)

lemma names_replaced:
  assumes "distinct (map f xs @ ns)" "i < length xs" "f y = f (xs ! i) \<or> f y \<notin> f ` set xs \<union> set ns"
  shows "distinct (map f (xs[i := y]) @ ns)" "distinct (map f (remove_at i xs) @ ns)"
    "n = f (xs ! i) \<or> n \<notin> f ` set xs \<union> set ns \<Longrightarrow> n \<notin> f ` set (remove_at i xs) \<union> set ns"
proof -
  define p q x where "p = take i xs" and "q = drop (Suc i) xs" and "x = xs ! i"
  have e: "xs = p @ x # q" "remove_at i xs = p @ q" "xs[i := y] = p @ y # q"
    using remove_at_split [OF assms(2)] by (simp_all add: p_def q_def x_def)
  have d: "distinct (map f (p @ x # q) @ ns)" "f y = f x \<or> f y \<notin> f ` set (p @ x # q) \<union> set ns"
    using assms(1,3) unfolding x_def [symmetric] e(1) [symmetric] by simp_all
  show "distinct (map f (xs[i := y]) @ ns)" "distinct (map f (remove_at i xs) @ ns)"
    using d unfolding e(2,3) by (auto, (metis image_eqI)+)
  show "n \<notin> f ` set (remove_at i xs) \<union> set ns" if "n = f (xs ! i) \<or> n \<notin> f ` set xs \<union> set ns"
  proof -
    from that have "n = f x \<or> n \<notin> f ` set (p @ x # q) \<union> set ns" unfolding x_def [symmetric] e(1) [symmetric] .
    with d show ?thesis unfolding e(2) by auto
  qed
qed

lemma entry_change_unique: "entry_change c c' \<Longrightarrow> unique_names c \<Longrightarrow> unique_names c'"
proof (induction rule: entry_change.induct)
  case (bookmark_replaced i b)
  then show ?case using names_replaced(1) [of b_name "bookmarks c" "map g_name (groups c)" i b]
    by (auto simp: unique_names_def name_free_def entry_names_def)
next
  case (group_replaced i g)
  have "distinct (map g_name (groups c) @ map b_name (bookmarks c))"
    using group_replaced(3) by (auto simp: unique_names_def)
  then show ?case using names_replaced(1) [of g_name "groups c" "map b_name (bookmarks c)" i g] group_replaced
    by (auto simp: unique_names_def name_free_def entry_names_def)
next
  case (became_group i g)
  then show ?case
    using names_replaced(2) [of b_name "bookmarks c" "map g_name (groups c)" i "bookmarks c ! i"]
      names_replaced(3) [of b_name "bookmarks c" "map g_name (groups c)" i "bookmarks c ! i" "g_name g"]
    by (auto simp: unique_names_def name_free_def entry_names_def)
next
  case (became_bookmark i b)
  have "distinct (map g_name (groups c) @ map b_name (bookmarks c))"
    using became_bookmark(3) by (auto simp: unique_names_def)
  then show ?case
    using names_replaced(2) [of g_name "groups c" "map b_name (bookmarks c)" i "groups c ! i"]
      names_replaced(3) [of g_name "groups c" "map b_name (bookmarks c)" i "groups c ! i" "b_name b"] became_bookmark
    by (auto simp: unique_names_def name_free_def entry_names_def)
next
  case (bookmark_deleted i)
  then show ?case using names_replaced(2) [of b_name "bookmarks c" "map g_name (groups c)" i "bookmarks c ! i"]
    by (auto simp: unique_names_def)
qed (auto simp: unique_names_def entry_names_def)

section \<open>Saving a form\<close>

lemma group_name_free:
  assumes "validate_and_build_group c f = (Inr g, f')"
  shows "(\<not> fm_is_edit f \<longrightarrow> g_name g \<notin> entry_names c)
    \<and> (\<forall>n. fm_is_edit f \<longrightarrow> fm_original f = Some n \<longrightarrow> name_free c n (g_name g))"
proof -
  obtain port where p: "check_group_fields c f = Inr port" "g = build_group f port" using built_group [OF assms] by blast
  from checked_fields [OF disjI2, OF p(1)] unchecked_name [of f "g_name g"] show ?thesis
    by (auto simp: p(2) build_group_def Let_def name_free_def)
qed

lemma bookmark_name_free:
  assumes "validate_and_build_bookmark fls c f = (Inr b, f')"
  shows "(\<not> fm_is_edit f \<longrightarrow> b_name b \<notin> entry_names c)
    \<and> (\<forall>n. fm_is_edit f \<longrightarrow> fm_original f = Some n \<longrightarrow> name_free c n (b_name b))"
proof -
  obtain port where p: "check_bookmark_fields c f = Inr port" "b = build_bookmark f port" using built_bookmark [OF assms] by blast
  from checked_fields [OF disjI1, OF p(1)] unchecked_name [of f "b_name b"] show ?thesis
    by (auto simp: p(2) build_bookmark_def Let_def name_free_def)
qed

text \<open>The form on screen, and the entry it is for.\<close>

definition form_screen :: "('t, 'c) app \<Rightarrow> form \<Rightarrow> bool" where
  "form_screen a f \<longleftrightarrow> entry_form_ok f \<and>
     (case ap_screen a of
        Add_form \<Rightarrow> \<not> fm_is_edit f
      | Edit_form t i \<Rightarrow> fm_is_edit f \<and> (\<exists>n. entry_name_at (ap_config a) t i = Some n \<and> fm_original f = Some n)
      | _ \<Rightarrow> False)"

lemma store_group_change:
  assumes f: "form_screen a f" and g: "validate_and_build_group (ap_config a) f = (Inr g, f')"
  shows "\<exists>a'. store_group env g a = Some a' \<and> entry_change (ap_config a) (ap_config a') \<and> settled a' = settled a"
proof (cases "ap_screen a")
  case Add_form
  with f have "\<not> fm_is_edit f" by (simp add: form_screen_def)
  with group_name_free [OF g] have "entry_change (ap_config a) ((ap_config a)\<lparr>groups := groups (ap_config a) @ [g]\<rparr>)"
    by (intro group_added) blast
  with Add_form show ?thesis by (simp add: store_group_def Let_def settled_def idle_def)
next
  case (Edit_form t i)
  from f Edit_form obtain n where n: "fm_is_edit f" "entry_name_at (ap_config a) t i = Some n" "fm_original f = Some n"
    by (auto simp: form_screen_def)
  with group_name_free [OF g] have free: "name_free (ap_config a) n (g_name g)" by blast
  show ?thesis
  proof (cases t)
    case Target_bookmark
    with n(2) have i: "i < length (bookmarks (ap_config a))" "n = b_name (bookmarks (ap_config a) ! i)"
      by (auto simp: nth_opt_def split: if_splits)
    with Edit_form Target_bookmark became_group [OF i(1)] free show ?thesis
      by (simp add: store_group_def Let_def settled_def idle_def)
  next
    case Target_group
    with n(2) have i: "i < length (groups (ap_config a))" "n = g_name (groups (ap_config a) ! i)"
      by (auto simp: nth_opt_def split: if_splits)
    with Edit_form Target_group group_replaced [OF i(1)] free show ?thesis
      by (simp add: store_group_def Let_def settled_def idle_def)
  qed
qed (use f in \<open>simp_all add: form_screen_def\<close>)

lemma store_bookmark_change:
  assumes f: "form_screen a f" and b: "validate_and_build_bookmark fls (ap_config a) f = (Inr b, f')"
  shows "\<exists>a'. store_bookmark env b a = Some a' \<and> entry_change (ap_config a) (ap_config a') \<and> settled a' = settled a
    \<and> old_bookmark_name a (b_name b) \<noteq> None"
proof (cases "ap_screen a")
  case Add_form
  with f have "\<not> fm_is_edit f" by (simp add: form_screen_def)
  with bookmark_name_free [OF b] have "entry_change (ap_config a) ((ap_config a)\<lparr>bookmarks := bookmarks (ap_config a) @ [b]\<rparr>)"
    by (intro bookmark_added) blast
  with Add_form show ?thesis by (simp add: store_bookmark_def Let_def settled_def idle_def old_bookmark_name_def)
next
  case (Edit_form t i)
  from f Edit_form obtain n where n: "fm_is_edit f" "entry_name_at (ap_config a) t i = Some n" "fm_original f = Some n"
    by (auto simp: form_screen_def)
  with bookmark_name_free [OF b] have free: "name_free (ap_config a) n (b_name b)" by blast
  show ?thesis
  proof (cases t)
    case Target_bookmark
    with n(2) have i: "i < length (bookmarks (ap_config a))" "n = b_name (bookmarks (ap_config a) ! i)"
      by (auto simp: nth_opt_def split: if_splits)
    let ?o = "bookmarks (ap_config a) ! i"
    have "entry_change (ap_config a) ((ap_config a)\<lparr>bookmarks := (bookmarks (ap_config a))
        [i := b\<lparr>b_last_connected := b_last_connected ?o, b_connect_count := b_connect_count ?o\<rparr>]\<rparr>)"
      by (rule bookmark_replaced [OF i(1)]) (use free i(2) in simp)
    with Edit_form Target_bookmark i show ?thesis
      by (simp add: store_bookmark_def Let_def settled_def idle_def old_bookmark_name_def)
  next
    case Target_group
    with n(2) have i: "i < length (groups (ap_config a))" "n = g_name (groups (ap_config a) ! i)"
      by (auto simp: nth_opt_def split: if_splits)
    with Edit_form Target_group became_bookmark [OF i(1)] free show ?thesis
      by (simp add: store_bookmark_def Let_def settled_def idle_def old_bookmark_name_def)
  qed
qed (use f in \<open>simp_all add: form_screen_def\<close>)

lemma close_form_config [simp]: "ap_config (close_form env a) = ap_config a"
  by (simp add: close_form_def back_to_list_def)

lemma validate_keeps:
  "entry_form_ok f \<Longrightarrow> validate_and_build_group c f = (r, f') \<Longrightarrow> keeps_entry f f'"
  "entry_form_ok f \<Longrightarrow> validate_and_build fls c f = (r', f') \<Longrightarrow> keeps_entry f f'"
  by (auto simp: keeps_entry_def validate_and_build_group_def validate_and_build_def validate_and_build_bookmark_def
      entry_form_ok_def gap_def split: sum.splits if_splits)

text \<open>Replacing the form on screen by one for the same entry.\<close>

lemma form_on_screen:
  assumes "app_ok m a" "ap_screen a = Add_form \<or> (\<exists>t i. ap_screen a = Edit_form t i)"
  obtains fs where "ap_form a = Some fs" "form_screen a (inner fs)"
    "\<And>f'. keeps_entry (inner fs) f' \<Longrightarrow> key_ok m (a\<lparr>ap_form := Some (set_inner f' fs)\<rparr>)"
proof -
  from assms obtain fs where fs: "ap_form a = Some fs" "form_screen a (inner fs)"
    by (auto simp: app_defs form_screen_def)
  have "key_ok m (a\<lparr>ap_form := Some (set_inner f' fs)\<rparr>)" if "keeps_entry (inner fs) f'" for f'
    using that assms fs by (auto simp: app_defs keeps_entry_def)
  with fs that show thesis by blast
qed

lemma set_status_ok: "key_ok m (set_status env s a) = key_ok m a"
  by (simp add: set_status_def key_ok_def view_ok_def screens_ok_def requests_ok_def split: screen.split)

lemma try_save_cases:
  assumes a: "app_ok m a" "ap_screen a = Add_form \<or> (\<exists>t i. ap_screen a = Edit_form t i)" "ae_match env = m"
  shows "\<exists>a'. try_save_unified_form env a = Some a' \<and> key_ok m a'
    \<and> (ap_config a' = ap_config a \<or> entry_change (ap_config a) (ap_config a'))"
proof -
  obtain fs where fs: "ap_form a = Some fs" "form_screen a (inner fs)"
    "\<And>f'. keeps_entry (inner fs) f' \<Longrightarrow> key_ok m (a\<lparr>ap_form := Some (set_inner f' fs)\<rparr>)"
    using form_on_screen [OF a(1,2)] by blast
  have ok: "entry_form_ok (inner fs)" and s: "settled a"
    using fs(2) app_ok_settled [OF a(1)] a(2) by (auto simp: form_screen_def)
  have rej: "key_ok m (reject_form env st f' fs a)" if "keeps_entry (inner fs) f'" for st f'
    using fs(3) [OF that] by (simp add: reject_form_def set_status_ok)
  have rejc: "ap_config (reject_form env st f' fs a) = ap_config a" for st f' by (simp add: reject_form_def)
  show ?thesis
  proof (cases "is_group (inner fs)")
    case True
    obtain r f' where v: "validate_and_build_group (ap_config a) (inner fs) = (r, f')" by fastforce
    show ?thesis
    proof (cases r)
      case (Inl e)
      with v True fs(1) rej [OF validate_keeps(1) [OF ok v]] rejc show ?thesis by (simp add: try_save_unified_form_def)
    next
      case (Inr g)
      with v store_group_change [OF fs(2)] obtain a1 where "store_group env g a = Some a1"
        "entry_change (ap_config a) (ap_config a1)" "settled a1 = settled a" by blast
      with Inr v True fs(1) s show ?thesis
        by (simp add: try_save_unified_form_def save_group_def settled_list_ok(2) [OF _ a(3)])
    qed
  next
    case False
    obtain r f' where v: "validate_and_build_bookmark (ae_files env) (ap_config a) (inner fs) = (r, f')" by fastforce
    then have w: "validate_and_build (ae_files env) (ap_config a) (inner fs) = (map_sum id Entry_bookmark r, f')"
      using False by (simp add: validate_and_build_def)
    show ?thesis
    proof (cases r)
      case (Inl e)
      with w False fs(1) rej [OF validate_keeps(2) [OF ok w]] rejc show ?thesis by (simp add: try_save_unified_form_def)
    next
      case (Inr b)
      with v store_bookmark_change [OF fs(2)] obtain a1 where "store_bookmark env b a = Some a1"
        "entry_change (ap_config a) (ap_config a1)" "settled a1 = settled a" "old_bookmark_name a (b_name b) \<noteq> None"
        by blast
      with Inr w False fs(1) s show ?thesis
        by (auto simp: try_save_unified_form_def save_bookmark_def settled_list_ok(2) [OF _ a(3)])
    qed
  qed
qed

lemma handle_form_key_cases:
  assumes a: "app_ok m a" "ap_screen a = Add_form \<or> (\<exists>t i. ap_screen a = Edit_form t i)" "ae_match env = m"
  shows "\<exists>a'. handle_unified_form_key env key a = Some a' \<and> key_ok m a'
    \<and> (ap_config a' = ap_config a \<or> ke_code key = KEnter \<and> entry_change (ap_config a) (ap_config a'))"
proof -
  obtain fs where fs: "ap_form a = Some fs" "form_screen a (inner fs)"
    "\<And>f'. keeps_entry (inner fs) f' \<Longrightarrow> key_ok m (a\<lparr>ap_form := Some (set_inner f' fs)\<rparr>)"
    using form_on_screen [OF a(1,2)] by blast
  have ok: "entry_form_ok (inner fs)" using fs(2) by (auto simp: form_screen_def)
  have w: "\<exists>a'. with_form h fs a = Some a' \<and> key_ok m a' \<and> ap_config a' = ap_config a"
    if "\<exists>f'. h (inner fs) = Some f' \<and> keeps_entry (inner fs) f'" for h
    using that fs(3) by (auto simp: with_form_def)
  have ty: "\<exists>a'. with_form (insert_char c) fs a = Some a' \<and> key_ok m a' \<and> ap_config a' = ap_config a" for c
    by (rule w) (use edit_keeps [OF ok, of "Type c"] in simp)
  have ch: "\<exists>a'. handle_form_char c ctrl fs a = Some a' \<and> key_ok m a' \<and> ap_config a' = ap_config a" for c ctrl
    using ty w [of "Some \<circ> add_session_line"] moves_keep(7) [OF ok] w [of remove_session_line, OF remove_line_keeps [OF ok]]
      open_help_ok [OF a(1)] app_ok_key [OF a(1)] a(2)
    by (auto simp: handle_form_char_def open_help_def)
  have ky: "\<exists>a'. with_form (edit_key k) fs a = Some a' \<and> key_ok m a' \<and> ap_config a' = ap_config a" for k
    by (rule w) (rule edit_key_keeps [OF ok])
  have esc: "key_ok m (back_to_list (a\<lparr>ap_form := None\<rparr>))" using back_to_list_ok(1) [OF a(1)] a(2) by auto
  show ?thesis
    using try_save_cases [OF a] ch ky esc fs(1)
    by (cases "ke_code key") (auto simp: handle_unified_form_key_def back_to_list_def)
qed

end
