(* ===== verification/App_Reach.thy ===== *)
theory App_Reach
  imports App_Correct
begin

text \<open>
  The states that the main screen reaches, round by round and connection by connection, and what
  holds in all of them.
\<close>

section \<open>One key\<close>

text \<open>Enter in the confirmed dialog for the deletion of a group.\<close>

definition deletes_group :: "('t, 'c) app \<Rightarrow> key_event \<Rightarrow> bool" where
  "deletes_group a key \<longleftrightarrow> ke_code key = KEnter
     \<and> (\<exists>idx c. ap_screen a = Delete_confirm idx \<and> GROUP_INDEX_MARKER \<le> idx \<and> ap_confirm a = Some c \<and> is_confirmed c)"

lemma dialog_matches_group:
  "small config \<Longrightarrow> dialog_matches config c idx \<Longrightarrow> cf_is_group c \<longleftrightarrow> GROUP_INDEX_MARKER \<le> idx"
  by (auto simp: dialog_matches_def small_def nth_opt_def GROUP_INDEX_MARKER_def split: if_splits)

lemma key_ok_cong:
  assumes "ap_config a' = ap_config a" "ap_query a' = ap_query a" "ap_env_filter a' = ap_env_filter a"
    "ap_filtered a' = ap_filtered a" "ap_selected a' = ap_selected a" "ap_screen a' = ap_screen a"
    "ap_help_source a' = ap_help_source a" "ap_form a' = ap_form a" "ap_confirm a' = ap_confirm a"
    "ap_mux_session a' = ap_mux_session a" "ap_connect a' = ap_connect a" "ap_browse a' = ap_browse a"
    "ap_mux_return a' = ap_mux_return a"
  shows "key_ok m a' \<longleftrightarrow> key_ok m a"
  unfolding key_ok_def view_ok_def screens_ok_def requests_ok_def assms by (rule refl)

lemma list_keys_keep_config:
  "handle_list_key env key a = Some a' \<Longrightarrow> ap_config a' = ap_config a"
  by (auto simp: handle_list_key_def handle_list_char_def on_selected_def move_selection_def jump_to_end_def
      filter_by_env_def open_add_form_def edit_bookmark_def edit_group_def ask_delete_bookmark_def ask_delete_group_def
      open_help_def Let_def split: key_code.splits if_splits option.splits bind_splits)

lemma other_keys_keep_config:
  "ap_config (handle_search_key env key a) = ap_config a"
  "ap_config (handle_help_key key a) = ap_config a"
  "handle_mux_key key a = Some a' \<Longrightarrow> ap_config a' = ap_config a"
  by (auto simp: handle_search_key_def move_selection_def open_help_def handle_help_key_def close_help_def scroll_help_def
      handle_mux_key_def Let_def leave_mux_def mux_previous_def mux_next_def mux_enter_def mux_interactive_def mux_run_def
      split: key_code.splits screen.splits option.splits if_splits mux_state.splits)

lemma handle_key_cases:
  assumes a: "app_ok m a" "ae_match env = m" "small (ap_config a)"
  shows "handle_key_event env key a = None \<longleftrightarrow> deletes_group a key"
    and "handle_key_event env key a = Some a' \<Longrightarrow> key_ok m a'"
    and "handle_key_event env key a = Some a' \<Longrightarrow> ap_config a' \<noteq> ap_config a \<Longrightarrow>
      ke_code key = KEnter \<and> entry_change (ap_config a) (ap_config a')"
proof -
  let ?goal = "(handle_key_event env key a = None \<longleftrightarrow> deletes_group a key)
    \<and> (\<forall>a'. handle_key_event env key a = Some a' \<longrightarrow> key_ok m a' \<and> (ap_config a' \<noteq> ap_config a \<longrightarrow>
         ke_code key = KEnter \<and> entry_change (ap_config a) (ap_config a')))"
  have other: ?goal if "handle_key_event env key a = Some a1" "key_ok m a1" "\<not> deletes_group a key"
      "ap_config a1 = ap_config a \<or> ke_code key = KEnter \<and> entry_change (ap_config a) (ap_config a1)" for a1
    using that by auto
  have ?goal
  proof (cases "ke_ctrl key \<and> ke_code key = KChar CHR ''c''")
    case True
    have "key_ok m (a\<lparr>ap_quit := True\<rparr>)" using app_ok_key [OF a(1)] by (rule key_ok_cong [THEN iffD2, rotated -1]) simp_all
    with True show ?thesis by (intro other [of "a\<lparr>ap_quit := True\<rparr>"]) (simp_all add: handle_key_event_def deletes_group_def)
  next
    case False
    then have ev: "handle_key_event env key a = (case ap_screen a of
          Help_screen \<Rightarrow> Some (handle_help_key key a)
        | List_screen \<Rightarrow> if ap_search a then Some (handle_search_key env key a) else handle_list_key env key a
        | Add_form \<Rightarrow> handle_unified_form_key env key a
        | Edit_form _ _ \<Rightarrow> handle_unified_form_key env key a
        | Delete_confirm _ \<Rightarrow> handle_confirm_key env key a
        | Group_mux _ \<Rightarrow> handle_mux_key key a)"
      by (auto simp: handle_key_event_def)
    show ?thesis
    proof (cases "ap_screen a")
      case List_screen
      have "length (bookmarks (ap_config a)) \<le> GROUP_INDEX_MARKER"
        using a(3) by (simp add: small_def GROUP_INDEX_MARKER_def)
      then obtain a1 where a1: "handle_list_key env key a = Some a1" "key_ok m a1"
        using handle_list_key_ok [OF a(1) List_screen a(2)] by blast
      show ?thesis
      proof (cases "ap_search a")
        case True
        show ?thesis
          by (rule other [of "handle_search_key env key a"])
            (use True List_screen ev handle_search_key_ok [OF a(1) List_screen a(2)] in
              \<open>simp_all add: deletes_group_def other_keys_keep_config\<close>)
      next
        case False
        show ?thesis
          by (rule other [OF _ a1(2)])
            (use False List_screen ev a1 list_keys_keep_config [OF a1(1)] in \<open>simp_all add: deletes_group_def\<close>)
      qed
    next
      case Add_form
      then obtain a1 where a1: "handle_unified_form_key env key a = Some a1" "key_ok m a1"
        "ap_config a1 = ap_config a \<or> ke_code key = KEnter \<and> entry_change (ap_config a) (ap_config a1)"
        using handle_form_key_cases [OF a(1) _ a(2), of key] by blast
      show ?thesis by (rule other [OF _ a1(2) _ a1(3)]) (use Add_form ev a1 in \<open>simp_all add: deletes_group_def\<close>)
    next
      case (Edit_form t i)
      then obtain a1 where a1: "handle_unified_form_key env key a = Some a1" "key_ok m a1"
        "ap_config a1 = ap_config a \<or> ke_code key = KEnter \<and> entry_change (ap_config a) (ap_config a1)"
        using handle_form_key_cases [OF a(1) _ a(2), of key] by blast
      show ?thesis by (rule other [OF _ a1(2) _ a1(3)]) (use Edit_form ev a1 in \<open>simp_all add: deletes_group_def\<close>)
    next
      case (Delete_confirm idx)
      with a obtain c where c: "ap_confirm a = Some c" "dialog_matches (ap_config a) c idx" by (auto simp: app_defs)
      note conf = handle_confirm_key_cases [OF a(1) Delete_confirm a(2,3), of key]
      have "entry_change (ap_config a) (ap_config a')"
        if h: "handle_confirm_key env key a = Some a'" "ap_config a' \<noteq> ap_config a" for a'
      proof -
        from conf(3) [OF h] h c have e: "confirm_enter env c a = Some a'" by (simp add: handle_confirm_key_def)
        with h(2) Delete_confirm have i: "is_confirmed c" by (auto simp: confirm_enter_def split: if_splits)
        with e confirm_enter_cases(1) [OF a(1) Delete_confirm a(2) c(1) a(3)] have g: "\<not> cf_is_group c" by auto
        with c(2) have "idx < length (bookmarks (ap_config a))"
          by (auto simp: dialog_matches_def nth_opt_def split: if_splits)
        with confirm_enter_cases(3) [OF a(1) Delete_confirm a(2) c(1) a(3) i g e] show ?thesis
          by (simp add: bookmark_deleted)
      qed
      moreover have "handle_key_event env key a = handle_confirm_key env key a" using ev Delete_confirm by simp
      moreover have "handle_confirm_key env key a = None \<longleftrightarrow> deletes_group a key"
        unfolding conf(1) using Delete_confirm c dialog_matches_group [OF a(3) c(2)] by (auto simp: deletes_group_def)
      ultimately show ?thesis using conf(2,3) by auto
    next
      case Help_screen
      show ?thesis
        by (rule other [of "handle_help_key key a"])
          (use Help_screen ev handle_help_key_ok [OF a(1)] in \<open>simp_all add: deletes_group_def other_keys_keep_config\<close>)
    next
      case (Group_mux gi)
      then obtain a1 where a1: "handle_mux_key key a = Some a1" "key_ok m a1" using handle_mux_key_ok [OF a(1)] by blast
      show ?thesis
        by (rule other [OF _ a1(2)])
          (use Group_mux ev a1 other_keys_keep_config(3) [OF a1(1)] in \<open>simp_all add: deletes_group_def\<close>)
    qed
  qed
  then show "handle_key_event env key a = None \<longleftrightarrow> deletes_group a key"
    "handle_key_event env key a = Some a' \<Longrightarrow> key_ok m a'"
    "handle_key_event env key a = Some a' \<Longrightarrow> ap_config a' \<noteq> ap_config a \<Longrightarrow>
      ke_code key = KEnter \<and> entry_change (ap_config a) (ap_config a')"
    by blast+
qed

section \<open>One round\<close>

text \<open>The rest of a round works on the shells, the status line and the requests only.\<close>

lemma app_tick_ok [simp]:
  "key_ok m (app_tick env a) = key_ok m a" "ap_config (app_tick env a) = ap_config a"
  "ap_mux_conns (app_tick env a) = ap_mux_conns a" "ap_mux_action (app_tick env a) = ap_mux_action a"
  by (simp_all add: app_tick_def key_ok_def view_ok_def screens_ok_def requests_ok_def split: option.split screen.split)

definition mux_only :: "('t, 'c) app \<Rightarrow> ('t, 'c) app \<Rightarrow> bool" where
  "mux_only a a' \<longleftrightarrow> (\<exists>conns rx. a' = a\<lparr>ap_mux_conns := conns, ap_mux_rx := rx\<rparr>)"

lemma mux_only_refl: "mux_only a a"
  unfolding mux_only_def by (rule exI [of _ "ap_mux_conns a"], rule exI [of _ "ap_mux_rx a"]) simp

lemma mux_only_trans: "mux_only a b \<Longrightarrow> mux_only b c \<Longrightarrow> mux_only a c"
proof -
  assume "mux_only a b" "mux_only b c"
  then obtain x y x' y' where "b = a\<lparr>ap_mux_conns := x, ap_mux_rx := y\<rparr>" "c = b\<lparr>ap_mux_conns := x', ap_mux_rx := y'\<rparr>"
    unfolding mux_only_def by blast
  then have "c = a\<lparr>ap_mux_conns := x', ap_mux_rx := y'\<rparr>" by simp
  then show ?thesis unfolding mux_only_def by blast
qed

lemma mux_only_conns: "mux_only a (a\<lparr>ap_mux_conns := conns\<rparr>)"
  unfolding mux_only_def by (rule exI [of _ conns], rule exI [of _ "ap_mux_rx a"]) simp

lemma mux_only_both: "mux_only a (a\<lparr>ap_mux_conns := conns, ap_mux_rx := rx\<rparr>)"
  by (auto simp: mux_only_def)

lemma mux_only_swapped: "mux_only a (a\<lparr>ap_mux_rx := rx, ap_mux_conns := conns\<rparr>)"
  unfolding mux_only_def by (rule exI [of _ conns], rule exI [of _ rx]) simp

lemma start_mux_action_only: "mux_only a (fst (start_mux_action act a))"
  by (cases act) (simp_all add: mux_only_conns set_mux_state_def drop_mux_def mux_only_both)

lemma handle_mux_result_only: "mux_only a (handle_mux_result r a)"
  by (cases r) (simp_all add: mux_only_conns set_mux_state_def drop_mux_def mux_only_both mux_only_swapped)

lemma handle_mux_results_only: "mux_only a (fold handle_mux_result rs a)"
  by (induction rs arbitrary: a) (auto intro: mux_only_refl mux_only_trans handle_mux_result_only)

lemma drain_output_only: "mux_only a (drain_output ls a)"
  by (simp add: drain_output_def mux_only_conns)

lemma mux_only_keeps:
  "mux_only a a' \<Longrightarrow> key_ok m a' = key_ok m a \<and> ap_config a' = ap_config a \<and> ap_mux_action a' = ap_mux_action a"
proof -
  assume "mux_only a a'"
  then obtain x y where a': "a' = a\<lparr>ap_mux_conns := x, ap_mux_rx := y\<rparr>" unfolding mux_only_def by blast
  have "key_ok m a' = key_ok m a" by (rule key_ok_cong) (simp_all add: a')
  then show ?thesis by (simp add: a')
qed

lemma action_taken_ok: "key_ok m (a\<lparr>ap_mux_action := x\<rparr>) = key_ok m a"
  by (rule key_ok_cong) simp_all

text \<open>The state in which a request is looked for.\<close>

lemma after_key_worked:
  assumes "after_key r a = (act, tasks, a')" "act \<noteq> Some Quit"
  obtains a3 where "take_loop_request a3 = (act, a')" "key_ok m a3 = key_ok m a" "ap_config a3 = ap_config a"
    "ap_mux_action a3 = None" "tasks = snd (perform_mux_action (app_tick (rd_env r) a))"
proof -
  let ?a1 = "app_tick (rd_env r) a"
  obtain a2 ts where p: "perform_mux_action ?a1 = (a2, ts)" by fastforce
  have "mux_only (?a1\<lparr>ap_mux_action := None\<rparr>) a2"
  proof (cases "ap_mux_action ?a1")
    case None
    then have "?a1\<lparr>ap_mux_action := None\<rparr> = ?a1" by simp
    with None p mux_only_refl [of ?a1] show ?thesis by (simp add: perform_mux_action_def)
  next
    case (Some x)
    with p start_mux_action_only [of "?a1\<lparr>ap_mux_action := None\<rparr>" x] show ?thesis by (simp add: perform_mux_action_def)
  qed
  moreover have "mux_only a2 (drain_output (rd_lines r) (fold handle_mux_result (rd_results r) a2))"
    by (rule mux_only_trans [OF handle_mux_results_only drain_output_only])
  ultimately have w: "mux_only (?a1\<lparr>ap_mux_action := None\<rparr>)
      (drain_output (rd_lines r) (fold handle_mux_result (rd_results r) a2))" by (rule mux_only_trans)
  let ?a3 = "drain_output (rd_lines r) (fold handle_mux_result (rd_results r) a2)"
  from assms have "\<not> (ap_quit ?a1 \<or> rd_shutdown r)" by (auto simp: after_key_def Let_def)
  with assms(1) p have t: "take_loop_request ?a3 = (act, a')" "tasks = ts"
    by (simp_all add: after_key_def Let_def split: prod.splits)
  note k = mux_only_keeps [OF w, of m]
  have k1: "key_ok m ?a3 = key_ok m a" using k action_taken_ok [of m None ?a1] by (simp only: app_tick_ok)
  have k2: "ap_config ?a3 = ap_config a" "ap_mux_action ?a3 = None" using k by simp_all
  show thesis by (rule that [OF t(1) k1 k2]) (simp add: t(2) p)
qed

definition round_ok :: "matcher \<Rightarrow> ('t, 'c) app \<Rightarrow> bool" where
  "round_ok m a \<longleftrightarrow> app_ok m a \<and> ap_mux_action a = None"

lemma take_loop_request_ok:
  assumes "take_loop_request a = (act, a')" "key_ok m a" "ap_mux_action a = None"
  shows "act = None \<Longrightarrow> round_ok m a'" and "view_ok m a'" and "ap_config a' = ap_config a"
    and "act = Some (Connect i) \<Longrightarrow> i < length (bookmarks (ap_config a))
      \<or> (\<exists>gi si. i = encode_session gi si \<and> gi < length (groups (ap_config a)) \<and> si < length (g_sessions (groups (ap_config a) ! gi)))"
    and "act = Some (Browse i) \<Longrightarrow> i < length (bookmarks (ap_config a)) \<or> GROUP_INDEX_MARKER \<le> i"
    and "ap_mux_return a' = Some gi \<Longrightarrow> gi < length (groups (ap_config a')) \<and> ap_help_source a' = None" and "ap_mux_action a' = None"
proof -
  have v: "view_ok m a" "requests_ok a" using assms(2) by (simp_all add: key_ok_def)
  have w: "view_ok m (a\<lparr>ap_connect := x\<rparr>)" "view_ok m (a\<lparr>ap_browse := x\<rparr>)" for x
    using v(1) by (simp_all add: view_ok_def screens_ok_def cong: screen.case_cong)
  note t = assms(1) [unfolded take_loop_request_def]
  show "act = None \<Longrightarrow> round_ok m a'"
    using t v assms(3) by (auto simp: round_ok_def app_ok_def idle_def requests_ok_def split: option.splits)
  show "view_ok m a'" "ap_config a' = ap_config a" "ap_mux_action a' = None"
    using t v(1) w assms(3) by (auto split: option.splits)
  show "act = Some (Connect i) \<Longrightarrow> i < length (bookmarks (ap_config a))
      \<or> (\<exists>gi si. i = encode_session gi si \<and> gi < length (groups (ap_config a)) \<and> si < length (g_sessions (groups (ap_config a) ! gi)))"
    "act = Some (Browse i) \<Longrightarrow> i < length (bookmarks (ap_config a)) \<or> GROUP_INDEX_MARKER \<le> i"
    using t v(2) by (auto simp: requests_ok_def split: option.splits)
  show "ap_mux_return a' = Some gi \<Longrightarrow> gi < length (groups (ap_config a')) \<and> ap_help_source a' = None"
    using t v(2) by (auto simp: requests_ok_def split: option.splits)
qed

section \<open>Connecting\<close>

lemma same_entries_refl: "same_entries c c"
  by (simp add: same_entries_def)

lemma same_bookmark:
  assumes "same_entries c c'"
  shows "length (bookmarks c') = length (bookmarks c)"
    and "i < length (bookmarks c) \<Longrightarrow> b_name (bookmarks c' ! i) = b_name (bookmarks c ! i)
      \<and> b_env (bookmarks c' ! i) = b_env (bookmarks c ! i)"
proof -
  from assms have m: "map scrub (bookmarks c') = map scrub (bookmarks c)" by (simp add: same_entries_def)
  then show l: "length (bookmarks c') = length (bookmarks c)" by (metis length_map)
  assume i: "i < length (bookmarks c)"
  with m l have "scrub (bookmarks c' ! i) = scrub (bookmarks c ! i)" by (metis nth_map)
  then have "b_name (scrub (bookmarks c' ! i)) = b_name (scrub (bookmarks c ! i))"
    "b_env (scrub (bookmarks c' ! i)) = b_env (scrub (bookmarks c ! i))" by simp_all
  then show "b_name (bookmarks c' ! i) = b_name (bookmarks c ! i) \<and> b_env (bookmarks c' ! i) = b_env (bookmarks c ! i)"
    by (simp add: scrub_def)
qed

lemma entry_name_same: "same_entries c c' \<Longrightarrow> entry_name_at c' t i = entry_name_at c t i"
  using same_bookmark(1) [of c c'] same_bookmark(2) [of c c' i] by (cases t) (auto simp: nth_opt_def same_entries_def)

lemma screen_ok_same:
  assumes "same_entries c c'" "screen_ok c fs cf ms s"
  shows "screen_ok c' fs cf ms s"
proof (cases s)
  case (Edit_form t i)
  with assms entry_name_same [OF assms(1), of t i] show ?thesis by simp
next
  case (Delete_confirm idx)
  from assms(2) Delete_confirm obtain d where d: "cf = Some d" "dialog_matches c d idx" by auto
  have "dialog_matches c' d idx"
    using d(2) same_bookmark(1) [OF assms(1)] same_bookmark(2) [OF assms(1), of idx] assms(1)
    by (cases "cf_is_group d") (auto simp: dialog_matches_def same_entries_def nth_opt_def split: if_splits)
  with d Delete_confirm show ?thesis by simp
qed (use assms in \<open>simp_all add: same_entries_def\<close>)

lemma view_ok_config:
  assumes "same_entries (ap_config a) c" "view_ok m a"
  shows "view_ok m (a\<lparr>ap_config := c, ap_store := st\<rparr>)"
proof -
  note v = assms(2) [unfolded view_ok_def]
  have "screens_ok (a\<lparr>ap_config := c, ap_store := st\<rparr>)"
    using v screen_ok_same [OF assms(1)]
    by (cases "ap_screen a") (simp_all add: screens_ok_def del: screen_ok.simps)
  with v show ?thesis by (simp add: view_ok_def visible_same [OF assms(1)])
qed

lemma return_to_mux_ok:
  assumes "view_ok m a" "\<And>gi. ap_mux_return a = Some gi \<Longrightarrow> gi < length (groups (ap_config a)) \<and> ap_help_source a = None"
    "ap_mux_action a = None"
  shows "round_ok m (return_to_mux a)"
proof (cases "ap_mux_return a")
  case None
  with assms(1,3) show ?thesis
    by (simp add: return_to_mux_def round_ok_def app_ok_def idle_def view_ok_def screens_ok_def cong: screen.case_cong)
next
  case (Some gi)
  with assms(1,3) assms(2) [OF Some] show ?thesis
    by (simp add: return_to_mux_def round_ok_def app_ok_def idle_def view_ok_def screens_ok_def)
qed

text \<open>The number of a session is at least 10000, and is decoded as what it was made of.\<close>

lemma encode_session_ge: "10000 \<le> encode_session gi si"
  by (simp add: encode_session_def)

lemma connect_no_panic: "i < length (bookmarks c) \<Longrightarrow> fst (connect ce c i st) \<noteq> Inl Index_panic"
  by (simp add: connect_def Let_def)

lemma connect_session_no_panic:
  assumes "gi < length (groups c)" "si < length (g_sessions (groups c ! gi))" "si < 9999"
  shows "fst (connect_session ce c (encode_session gi si) st) \<noteq> Inl Index_panic"
proof -
  have "fst (connect_temporary ce c b st) \<noteq> Inl Index_panic" for b
  proof -
    let ?c = "c\<lparr>bookmarks := bookmarks c @ [b]\<rparr>"
    obtain r c' st' where "connect ce ?c (length (bookmarks c)) st = (r, c', st')" by (metis surj_pair)
    with connect_no_panic [of "length (bookmarks c)" ?c ce st] show ?thesis
      by (simp add: connect_temporary_def Let_def)
  qed
  with assms show ?thesis by (simp add: connect_session_def decode_encode_session Let_def)
qed

lemma perform_action_ok:
  assumes t: "take_loop_request a0 = (Some act, a)" "key_ok m a0" "ap_mux_action a0 = None"
    and small: "small (ap_config a0)"
  shows "perform_action ce act a = None \<longleftrightarrow> (\<exists>gi. act = Browse (GROUP_INDEX_MARKER + gi))"
    and "perform_action ce act a = Some a' \<Longrightarrow> act \<noteq> Quit \<Longrightarrow> round_ok m a' \<and> same_entries (ap_config a) (ap_config a')"
proof -
  note tr = take_loop_request_ok [OF t]
  have v: "view_ok m a" and c: "ap_config a = ap_config a0" and x: "ap_mux_action a = None"
    and ret: "\<And>gi. ap_mux_return a = Some gi \<Longrightarrow> gi < length (groups (ap_config a)) \<and> ap_help_source a = None"
    using tr(2,3,6,7) by auto
  have "(perform_action ce act a = None \<longleftrightarrow> (\<exists>gi. act = Browse (GROUP_INDEX_MARKER + gi)))
    \<and> (\<forall>a'. perform_action ce act a = Some a' \<longrightarrow> act \<noteq> Quit \<longrightarrow> round_ok m a' \<and> same_entries (ap_config a) (ap_config a'))"
  proof (cases act)
    case Quit
    then show ?thesis by simp
  next
    case (Browse i)
    have i: "nth_opt (bookmarks (ap_config a)) i = None \<longleftrightarrow> GROUP_INDEX_MARKER \<le> i"
      using tr(5) [of i] Browse c small by (auto simp: small_def nth_opt_def GROUP_INDEX_MARKER_def)
    have g: "GROUP_INDEX_MARKER \<le> i \<longleftrightarrow> (\<exists>gi. i = GROUP_INDEX_MARKER + gi)" by (simp add: le_iff_add)
    have "ap_config (return_to_mux a) = ap_config a" by (simp add: return_to_mux_def split: option.split)
    then have same: "same_entries (ap_config a) (ap_config (return_to_mux a))" by (simp add: same_entries_refl)
    show ?thesis
    proof (cases "nth_opt (bookmarks (ap_config a)) i")
      case None
      then have "perform_action ce act a = None" using Browse by simp
      moreover from None i g Browse have "\<exists>gi. act = Browse (GROUP_INDEX_MARKER + gi)" by blast
      ultimately show ?thesis by simp
    next
      case (Some b)
      then have p: "perform_action ce act a = Some (return_to_mux a)" using Browse by simp
      have "\<nexists>gi. act = Browse (GROUP_INDEX_MARKER + gi)" using Some i g Browse by auto
      with p return_to_mux_ok [OF v ret x] same show ?thesis by simp
    qed
  next
    case (Connect i)
    let ?f = "if 10000 \<le> i then connect_session else connect"
    obtain r config st where out: "?f ce (ap_config a) i (ap_store a) = (r, config, st)" by (metis surj_pair)
    have same: "same_entries (ap_config a) config"
    proof (cases "10000 \<le> i")
      case True
      with out have "config = ap_config a" by (intro connect_session_same) simp
      then show ?thesis by (simp add: same_entries_refl)
    next
      case False
      with out show ?thesis by (intro connect_same_entries) simp
    qed
    have r: "r \<noteq> Inl Index_panic"
    proof (cases "10000 \<le> i")
      case True
      then have "\<not> i < length (bookmarks (ap_config a0))" using small by (simp add: small_def)
      with tr(4) [of i] Connect obtain gi si where s: "i = encode_session gi si" "gi < length (groups (ap_config a))"
        "si < length (g_sessions (groups (ap_config a) ! gi))"
        unfolding c by blast
      have "length (g_sessions (groups (ap_config a) ! gi)) < 9999"
        using small s(2) nth_mem [OF s(2)] unfolding c small_def by blast
      with s(3) have "si < 9999" by simp
      from connect_session_no_panic [OF s(2,3) this, of ce "ap_store a"] out True s(1) show ?thesis by simp
    next
      case False
      with tr(4) [of i] Connect have "i < length (bookmarks (ap_config a))"
        using encode_session_ge unfolding c by blast
      from connect_no_panic [OF this, of ce "ap_store a"] out False show ?thesis by simp
    qed
    let ?b = "a\<lparr>ap_config := config, ap_store := st\<rparr>"
    have "after_connect (r, config, st) a = Some (return_to_mux ?b)"
      using r by (simp add: after_connect_def split: sum.split connect_error.split)
    then have p: "perform_action ce act a = Some (return_to_mux ?b)" using Connect out by simp
    have "gi < length (groups (ap_config ?b)) \<and> ap_help_source ?b = None" if "ap_mux_return ?b = Some gi" for gi
      using ret [of gi] that same by (simp add: same_entries_def)
    then have "round_ok m (return_to_mux ?b)" by (rule return_to_mux_ok [OF view_ok_config [OF same v]]) (simp_all add: x)
    moreover have "ap_config (return_to_mux ?b) = config" by (simp add: return_to_mux_def split: option.split)
    ultimately show ?thesis using p Connect same by simp
  qed
  note both = this
  show "perform_action ce act a = None \<longleftrightarrow> (\<exists>gi. act = Browse (GROUP_INDEX_MARKER + gi))"
    by (rule both [THEN conjunct1])
  show "perform_action ce act a = Some a' \<Longrightarrow> act \<noteq> Quit \<Longrightarrow> round_ok m a' \<and> same_entries (ap_config a) (ap_config a')"
    by (rule both [THEN conjunct2, rule_format])
qed

section \<open>Reachable states\<close>

text \<open>
  From a new screen: rounds of the event loop, and rounds that end it for a connection or the file
  browser.  The steps are taken while the lists are small enough for the coding as numbers.
\<close>

inductive reach :: "matcher \<Rightarrow> app_config \<Rightarrow> ('t, 'c) app \<Rightarrow> bool" for m c0 where
  reach_start: "ae_match env = m \<Longrightarrow> reach m c0 (new_app env c0 st kc)"
| reach_round: "reach m c0 a \<Longrightarrow> small (ap_config a) \<Longrightarrow> ae_match (rd_env r) = m \<Longrightarrow>
    loop_round r a = Some (None, tasks, a') \<Longrightarrow> reach m c0 a'"
| reach_action: "reach m c0 a \<Longrightarrow> small (ap_config a) \<Longrightarrow> ae_match (rd_env r) = m \<Longrightarrow>
    loop_round r a = Some (Some act, tasks, a1) \<Longrightarrow> act \<noteq> Quit \<Longrightarrow> small (ap_config a1) \<Longrightarrow>
    perform_action ce act a1 = Some a' \<Longrightarrow> reach m c0 a'"

text \<open>The key of a round that goes on.\<close>

lemma loop_round_key:
  assumes "loop_round r a = Some (act, tasks, a')" "act \<noteq> Some Quit"
  obtains a1 where "after_key r a1 = (act, tasks, a')"
    "case rd_key r of None \<Rightarrow> a1 = a | Some key \<Rightarrow> handle_key_event (rd_env r) key a = Some a1"
  using assms by (auto simp: loop_round_def split: if_splits option.splits)

lemma key_step_ok:
  assumes "round_ok m a" "ae_match env = m" "small (ap_config a)"
    and "case k of None \<Rightarrow> a1 = a | Some key \<Rightarrow> handle_key_event env key a = Some a1"
  shows "key_ok m a1 \<and> (ap_config a1 = ap_config a \<or> entry_change (ap_config a) (ap_config a1))"
  using assms handle_key_cases(2,3) [of m a env _ a1] app_ok_key [of m a]
  by (cases k) (auto simp: round_ok_def)

lemma take_loop_request_act: "take_loop_request a = (act, a') \<Longrightarrow> act \<noteq> Some Quit"
  by (auto simp: take_loop_request_def split: option.splits)

lemma round_step:
  assumes a: "round_ok m a" "ae_match (rd_env r) = m" "small (ap_config a)"
    and run: "loop_round r a = Some (act, tasks, a')" "act \<noteq> Some Quit"
  obtains a3 where "take_loop_request a3 = (act, a')" "key_ok m a3" "ap_mux_action a3 = None"
    "ap_config a' = ap_config a3" "ap_config a3 = ap_config a \<or> entry_change (ap_config a) (ap_config a3)"
proof -
  obtain a1 where a1: "after_key r a1 = (act, tasks, a')"
    "case rd_key r of None \<Rightarrow> a1 = a | Some key \<Rightarrow> handle_key_event (rd_env r) key a = Some a1"
    using loop_round_key [OF run] by blast
  note k = key_step_ok [OF a a1(2)]
  obtain a3 where a3: "take_loop_request a3 = (act, a')" "key_ok m a3 = key_ok m a1" "ap_config a3 = ap_config a1"
    "ap_mux_action a3 = None"
    using after_key_worked [OF a1(1) run(2)] by metis
  have ok: "key_ok m a3" using k a3(2) by simp
  from take_loop_request_ok(3) [OF a3(1) ok a3(4)] that ok a3 k show thesis by simp
qed

lemma new_app_ok:
  assumes "ae_match env = m"
  shows "round_ok m (new_app env c st kc)"
proof -
  have "group_matches m [] None = (\<lambda>g. True)" by (rule ext) (simp add: group_matches_def)
  then show ?thesis
    using assms by (simp add: round_ok_def app_ok_def view_ok_def idle_def screens_ok_def new_app_def visible_def
        filtered_groups_def selection_ok_def)
qed

lemma reach_ok: "reach m c0 a \<Longrightarrow> round_ok m a"
proof (induction rule: reach.induct)
  case (reach_start env st kc)
  then show ?case by (rule new_app_ok)
next
  case (reach_round a r tasks a')
  show ?case
    by (rule round_step [OF reach_round.IH reach_round.hyps(3,2,4)]) (simp_all add: take_loop_request_ok(1))
next
  case (reach_action a r act tasks a1 ce a')
  from reach_action.hyps(5) have "Some act \<noteq> Some Quit" by simp
  then obtain a3 where a3: "take_loop_request a3 = (Some act, a1)" "key_ok m a3" "ap_mux_action a3 = None" "ap_config a1 = ap_config a3"
    using round_step [OF reach_action.IH reach_action.hyps(3,2,4)] by metis
  from perform_action_ok(2) [OF a3(1-3) _ reach_action.hyps(7,5)] reach_action.hyps(6) a3(4) show ?case by simp
qed

lemma same_entries_unique: "same_entries c c' \<Longrightarrow> unique_names c \<Longrightarrow> unique_names c'"
proof -
  assume "same_entries c c'" "unique_names c"
  then have "map b_name (map scrub (bookmarks c')) = map b_name (map scrub (bookmarks c))" "groups c' = groups c"
    by (simp_all add: same_entries_def)
  moreover have "map b_name (map scrub bs) = map b_name bs" for bs by (simp add: scrub_def)
  ultimately have "map b_name (bookmarks c') = map b_name (bookmarks c)" "groups c' = groups c" by metis+
  then show "unique_names c'" using \<open>unique_names c\<close> by (simp only: unique_names_def)
qed

end
