(* ===== verification/App_Safe.thy ===== *)
theory App_Safe
  imports App_Reach
begin

text \<open>
  The properties of the main screen over its reachable states: where it panics, what the list
  shows, that names stay unique, what a confirmed deletion removes, where a stored password goes,
  and which shell receives a command.
\<close>

section \<open>A sample\<close>

definition sample_app_env :: "app_config app_env" where
  "sample_app_env = \<lparr>ae_match = (\<lambda>_ _. None), ae_io = sample_io,
     ae_files = \<lparr>fl_tilde = id, fl_exists = (\<lambda>_. True)\<rparr>, ae_now = 0\<rparr>"

definition stored_keychain :: keychain where
  "stored_keychain = \<lparr>kc_entries = [''old'' \<mapsto> ''pw''], kc_readable = True, kc_writable = True\<rparr>"

definition sample_round :: "key_code option \<Rightarrow> nat mux_result list \<Rightarrow> (app_config, nat) round" where
  "sample_round k rs = \<lparr>rd_env = sample_app_env, rd_gone = False,
     rd_key = map_option (\<lambda>k. \<lparr>ke_code = k, ke_ctrl = False, ke_shift = False\<rparr>) k, rd_shutdown = False,
     rd_results = rs, rd_lines = (\<lambda>_. [])\<rparr>"

text \<open>One group, or one bookmark, selected in the list.\<close>

definition group_app :: "(app_config, nat) app" where
  "group_app = new_app sample_app_env sample_config sample_store stored_keychain"

definition one_bookmark :: app_config where
  "one_bookmark = no_entries\<lparr>bookmarks := [(build_bookmark typed_form 22)\<lparr>b_name := ''old''\<rparr>]\<rparr>"

definition bookmark_app :: "(app_config, nat) app" where
  "bookmark_app = new_app sample_app_env one_bookmark sample_store stored_keychain"

lemma sample_lists:
  "bookmarks sample_config = []" "groups sample_config = [sample_group]" "profiles sample_config = []"
  "g_sessions sample_group = [sample_session]"
  "bookmarks one_bookmark = [(build_bookmark typed_form 22)\<lparr>b_name := ''old''\<rparr>]" "groups one_bookmark = []"
  by (simp_all add: sample_config_def default_config_def sample_group_def one_bookmark_def no_entries_def)

lemma sample_small: "small sample_config" "small one_bookmark"
  by (simp_all add: small_def sample_lists GROUP_INDEX_MARKER_def)

lemma sample_filtered: "ap_filtered group_app = [GROUP_INDEX_MARKER]" "ap_filtered bookmark_app = [0]"
proof -
  show "ap_filtered group_app = [GROUP_INDEX_MARKER]"
    by (simp add: group_app_def new_app_def sample_lists filter_bookmarks_def sort_by_def List.map_filter_simps)
  show "ap_filtered bookmark_app = [0]"
    by (simp add: bookmark_app_def new_app_def sample_lists filter_bookmarks_def sort_by_def List.map_filter_simps
        fuzzy_match_bookmark_def bookmark_in_env_def)
qed

lemmas round_simps = loop_round_def after_key_def handle_key_event_def app_tick_def perform_mux_action_def
  drain_output_def take_loop_request_def sample_round_def handle_list_key_def handle_list_char_def on_selected_def Let_def

text \<open>After d on a group, and on a bookmark.\<close>

definition asked_group :: "(app_config, nat) app" where
  "asked_group = group_app\<lparr>ap_confirm := Some (confirm_new_group sample_group), ap_screen := Delete_confirm GROUP_INDEX_MARKER\<rparr>"

definition asked_bookmark :: "(app_config, nat) app" where
  "asked_bookmark = bookmark_app\<lparr>ap_confirm := Some (confirm_new (bookmarks one_bookmark ! 0)), ap_screen := Delete_confirm 0\<rparr>"

lemma sample_app_simps:
  "ap_config group_app = sample_config" "ap_screen group_app = List_screen" "ap_search group_app = False"
  "ap_quit group_app = False" "ap_status group_app = None" "ap_mux_action group_app = None" "ap_mux_conns group_app = Map.empty"
  "ap_mux_rx group_app = Map.empty" "ap_connect group_app = None" "ap_browse group_app = None" "ap_selected group_app = 0"
  "ap_config bookmark_app = one_bookmark" "ap_screen bookmark_app = List_screen" "ap_search bookmark_app = False"
  "ap_quit bookmark_app = False" "ap_status bookmark_app = None" "ap_mux_action bookmark_app = None"
  "ap_mux_conns bookmark_app = Map.empty" "ap_mux_rx bookmark_app = Map.empty" "ap_connect bookmark_app = None"
  "ap_browse bookmark_app = None" "ap_selected bookmark_app = 0" "ap_keychain bookmark_app = stored_keychain"
  by (simp_all add: group_app_def bookmark_app_def new_app_def)

lemma unchanged_conns: "ap_mux_conns a = m \<Longrightarrow> a\<lparr>ap_mux_conns := m\<rparr> = a"
  by auto

lemma ask_rounds:
  "loop_round (sample_round (Some (KChar CHR ''d'')) []) group_app = Some (None, [], asked_group)"
  "loop_round (sample_round (Some (KChar CHR ''d'')) []) bookmark_app = Some (None, [], asked_bookmark)"
proof -
  have d: "code CHR ''d'' = 100" by (simp add: code_def)
  show "loop_round (sample_round (Some (KChar CHR ''d'')) []) group_app = Some (None, [], asked_group)"
    by (simp add: round_simps d sample_app_simps sample_filtered ask_delete_group_def sample_lists nth_opt_def asked_group_def
        unchanged_conns)
  show "loop_round (sample_round (Some (KChar CHR ''d'')) []) bookmark_app = Some (None, [], asked_bookmark)"
    by (simp add: round_simps d sample_app_simps sample_filtered ask_delete_bookmark_def sample_lists nth_opt_def
        asked_bookmark_def GROUP_INDEX_MARKER_def unchanged_conns)
qed

abbreviation "sample_match \<equiv> ae_match sample_app_env"

lemma sample_reach:
  "reach sample_match sample_config group_app" "reach sample_match one_bookmark bookmark_app"
  "reach sample_match sample_config asked_group" "reach sample_match one_bookmark asked_bookmark"
proof -
  show r: "reach sample_match sample_config group_app" "reach sample_match one_bookmark bookmark_app"
    unfolding group_app_def bookmark_app_def by (rule reach_start; simp)+
  show "reach sample_match sample_config asked_group"
    by (rule reach_round [OF r(1) _ _ ask_rounds(1)]) (simp_all add: sample_app_simps sample_small sample_round_def)
  show "reach sample_match one_bookmark asked_bookmark"
    by (rule reach_round [OF r(2) _ _ ask_rounds(2)]) (simp_all add: sample_app_simps sample_small sample_round_def)
qed

section \<open>Panics\<close>

text \<open>C9:
  Starting from any configuration, and while the lists are small enough for the coding as numbers,
  a round panics exactly when Enter is pressed in the confirmed dialog for a group, and the action
  that ends an event loop exactly when a group is to be browsed: the index of a group is used with
  its marker.\<close>

theorem panics_only_on_groups:
  assumes "reach m c0 a" "small (ap_config a)" "ae_match (rd_env r) = m"
  shows "(loop_round r a = None \<longleftrightarrow> \<not> rd_gone r \<and> (\<exists>key. rd_key r = Some key \<and> deletes_group a key))
    \<and> (\<forall>act tasks a1 ce. loop_round r a = Some (Some act, tasks, a1) \<longrightarrow> act \<noteq> Quit \<longrightarrow> small (ap_config a1) \<longrightarrow>
         (perform_action ce act a1 = None \<longleftrightarrow> (\<exists>gi. act = Browse (GROUP_INDEX_MARKER + gi))))"
proof (intro conjI allI impI)
  note ok = reach_ok [OF assms(1)]
  then have app: "app_ok m a" by (simp add: round_ok_def)
  show "loop_round r a = None \<longleftrightarrow> \<not> rd_gone r \<and> (\<exists>key. rd_key r = Some key \<and> deletes_group a key)"
    using handle_key_cases(1) [OF app assms(3,2)] by (simp add: loop_round_def split: option.split)
  fix act tasks a1 ce
  assume run: "loop_round r a = Some (Some act, tasks, a1)" and act: "act \<noteq> Quit" and small: "small (ap_config a1)"
  then obtain a3 where a3: "take_loop_request a3 = (Some act, a1)" "key_ok m a3" "ap_mux_action a3 = None" "ap_config a1 = ap_config a3"
    using round_step [OF ok assms(3,2) run] by auto
  with small perform_action_ok(1) [OF a3(1-3)]
  show "perform_action ce act a1 = None \<longleftrightarrow> (\<exists>gi. act = Browse (GROUP_INDEX_MARKER + gi))" by simp
qed

theorem panics_only_on_groups_witness:
  "loop_round (sample_round (Some KEnter) []) asked_group = None"
proof -
  have "small (ap_config asked_group)" "ae_match (rd_env (sample_round (Some KEnter) [])) = sample_match"
    by (simp_all add: asked_group_def sample_app_simps sample_small sample_round_def)
  note p = panics_only_on_groups [OF sample_reach(3) this]
  have "\<not> rd_gone (sample_round (Some KEnter) [])
    \<and> (\<exists>key. rd_key (sample_round (Some KEnter) []) = Some key \<and> deletes_group asked_group key)"
    by (simp add: sample_round_def deletes_group_def asked_group_def is_confirmed_def confirm_new_group_def sample_group_def)
  with p show ?thesis by blast
qed

section \<open>Names\<close>

lemma round_unique:
  assumes "round_ok m a" "ae_match (rd_env r) = m" "small (ap_config a)"
    and "loop_round r a = Some (act, tasks, a')" "act \<noteq> Some Quit" "unique_names (ap_config a)"
  shows "unique_names (ap_config a')"
  using round_step [OF assms(1-5)] entry_change_unique assms(6) by metis

text \<open>C10:
  If the names of all bookmarks and groups are different at the start, they are in every state
  that the main screen reaches, whatever is added, edited, converted, deleted or connected to.\<close>

theorem names_stay_unique:
  assumes "reach m c0 a" "unique_names c0"
  shows "unique_names (ap_config a)"
  using assms
proof (induction rule: reach.induct)
  case (reach_start env st kc)
  then show ?case by (simp add: new_app_def)
next
  case (reach_round a r tasks a')
  show ?case
    by (rule round_unique [OF reach_ok [OF reach_round.hyps(1)] reach_round.hyps(3,2,4)])
      (simp_all add: reach_round.IH reach_round.prems)
next
  case (reach_action a r act tasks a1 ce a')
  note ok = reach_ok [OF reach_action.hyps(1)]
  from reach_action.hyps(5) have n: "Some act \<noteq> Some Quit" by simp
  have u: "unique_names (ap_config a1)"
    by (rule round_unique [OF ok reach_action.hyps(3,2,4) n]) (simp add: reach_action.IH reach_action.prems)
  obtain a3 where a3: "take_loop_request a3 = (Some act, a1)" "key_ok m a3" "ap_mux_action a3 = None" "ap_config a1 = ap_config a3"
    using round_step [OF ok reach_action.hyps(3,2,4) n] by metis
  from perform_action_ok(2) [OF a3(1-3) _ reach_action.hyps(7,5)] reach_action.hyps(6) a3(4)
  have "same_entries (ap_config a1) (ap_config a')" by simp
  with u show ?case by (rule same_entries_unique [rotated])
qed

theorem names_stay_unique_witness: "unique_names (ap_config asked_bookmark)"
  by (rule names_stay_unique [OF sample_reach(4)]) (simp add: unique_names_def sample_lists)

section \<open>The list\<close>

text \<open>The bookmarks in the list are ordered by their score.\<close>

lemma filter_bookmarks_sorted:
  "sorted_wrt (\<lambda>i j. the (fuzzy_match_bookmark m (bs ! j) q) \<le> the (fuzzy_match_bookmark m (bs ! i) q))
     (filter_bookmarks m bs q e)"
proof -
  let ?xs = "List.map_filter (\<lambda>(i, b). map_option (Pair i) (fuzzy_match_bookmark m b q))
    (filter (\<lambda>(i, b). bookmark_in_env e b) (enumerate 0 bs))"
  have score: "fuzzy_match_bookmark m (bs ! i) q = Some s" if "(i, s) \<in> set (sort_by better ?xs)" for i s
    using that unfolding best_first.sort_by_set by (auto simp: List.map_filter_def in_set_enumerate_eq)
  have "sorted_wrt (\<lambda>x y. the (fuzzy_match_bookmark m (bs ! fst y) q) \<le> the (fuzzy_match_bookmark m (bs ! fst x) q))
      (sort_by better ?xs)"
  proof (rule sorted_wrt_mono_rel [OF _ best_first.sort_by_sorted])
    fix x y assume "x \<in> set (sort_by better ?xs)" "y \<in> set (sort_by better ?xs)" "better x y"
    then have "fuzzy_match_bookmark m (bs ! fst x) q = Some (snd x)" "fuzzy_match_bookmark m (bs ! fst y) q = Some (snd y)"
      using score by simp_all
    moreover have "snd y \<le> snd x" using \<open>better x y\<close> by (cases x; cases y) auto
    ultimately show "the (fuzzy_match_bookmark m (bs ! fst y) q) \<le> the (fuzzy_match_bookmark m (bs ! fst x) q)" by simp
  qed
  then show ?thesis unfolding filter_bookmarks_def by (simp add: sorted_wrt_map)
qed

text \<open>C13:
  In every reachable state the list shows each bookmark that is in the chosen environment and
  matches the query exactly once, best match first, then each such group; and what is selected is
  in the list unless that is empty.\<close>

theorem list_shows_matches:
  assumes "reach m c0 a"
  shows "\<exists>bs gs. ap_filtered a = bs @ gs \<and> distinct bs \<and> distinct gs
    \<and> set bs = {i. i < length (bookmarks (ap_config a)) \<and> bookmark_in_env (ap_env_filter a) (bookmarks (ap_config a) ! i)
         \<and> fuzzy_match_bookmark m (bookmarks (ap_config a) ! i) (ap_query a) \<noteq> None}
    \<and> set gs = {GROUP_INDEX_MARKER + i | i. i < length (groups (ap_config a))
         \<and> group_matches m (ap_query a) (ap_env_filter a) (groups (ap_config a) ! i)}
    \<and> sorted_wrt (\<lambda>i j. the (fuzzy_match_bookmark m (bookmarks (ap_config a) ! j) (ap_query a))
         \<le> the (fuzzy_match_bookmark m (bookmarks (ap_config a) ! i) (ap_query a))) bs
    \<and> (ap_filtered a = [] \<or> ap_selected a < length (ap_filtered a))"
proof -
  have v: "view_ok m a" using reach_ok [OF assms] by (simp add: round_ok_def app_ok_def)
  let ?bs = "filter_bookmarks m (bookmarks (ap_config a)) (ap_query a) (ap_env_filter a)"
    and ?gs = "filtered_groups m (groups (ap_config a)) (ap_query a) (ap_env_filter a)"
  have f: "ap_filtered a = ?bs @ ?gs" "selection_ok (ap_filtered a) (ap_selected a)"
    using v by (auto simp: view_ok_def visible_def)
  have sel: "ap_filtered a = [] \<or> ap_selected a < length (ap_filtered a)"
    using f(2) unfolding selection_ok_def by auto
  show ?thesis
    by (rule exI [of _ ?bs], rule exI [of _ ?gs], intro conjI)
      (rule f(1) filter_bookmarks_distinct filtered_groups_distinct filter_bookmarks_set filtered_groups_set
        filter_bookmarks_sorted sel)+
qed

theorem list_shows_matches_witness:
  "\<exists>bs gs. ap_filtered group_app = bs @ gs \<and> set bs = {} \<and> GROUP_INDEX_MARKER \<in> set gs"
proof -
  obtain bs gs where l: "ap_filtered group_app = bs @ gs"
    "set bs = {i. i < length (bookmarks (ap_config group_app)) \<and> bookmark_in_env (ap_env_filter group_app) (bookmarks (ap_config group_app) ! i)
         \<and> fuzzy_match_bookmark sample_match (bookmarks (ap_config group_app) ! i) (ap_query group_app) \<noteq> None}"
    "set gs = {GROUP_INDEX_MARKER + i | i. i < length (groups (ap_config group_app))
         \<and> group_matches sample_match (ap_query group_app) (ap_env_filter group_app) (groups (ap_config group_app) ! i)}"
    using list_shows_matches [OF sample_reach(1)] by blast
  have "set bs = {}" "GROUP_INDEX_MARKER \<in> set gs"
    unfolding l(2,3) by (simp_all add: sample_app_simps sample_lists group_matches_def group_app_def new_app_def)
  with l(1) show ?thesis by blast
qed

section \<open>Deleting\<close>

text \<open>C11:
  When a key in the dialog for a deletion changes the entries, it is Enter, the bookmark that the
  dialog names is removed and no other, its stored password with it; and if it is a production
  bookmark, yes was typed.\<close>

theorem deletion_was_confirmed:
  assumes "reach m c0 a" "small (ap_config a)" "ae_match env = m" "ap_screen a = Delete_confirm idx"
    and "handle_key_event env key a = Some a'" "ap_config a' \<noteq> ap_config a"
  shows "ke_code key = KEnter \<and> (\<exists>b c. nth_opt (bookmarks (ap_config a)) idx = Some b \<and> ap_confirm a = Some c
      \<and> cf_name c = b_name b
      \<and> (b_env b = ''production'' \<longrightarrow> eq_ignore_ascii_case (trim (cf_input c)) ''yes'')
      \<and> ap_config a' = (ap_config a)\<lparr>bookmarks := remove_at idx (bookmarks (ap_config a))\<rparr>
      \<and> ap_keychain a' = delete_password (b_name b) (ap_keychain a))"
proof -
  have app: "app_ok m a" using reach_ok [OF assms(1)] by (simp add: round_ok_def)
  from app assms(4) obtain c where c: "ap_confirm a = Some c" "dialog_matches (ap_config a) c idx" by (auto simp: app_defs)
  have enter: "ke_code key = KEnter" using handle_key_cases(3) [OF app assms(3,2,5,6)] by blast
  with assms(4,5) c have e: "confirm_enter env c a = Some a'"
    by (simp add: handle_key_event_def handle_confirm_key_def)
  with assms(4,6) have i: "is_confirmed c" by (auto simp: confirm_enter_def split: if_splits)
  note cases = confirm_enter_cases [OF app assms(4,3) c(1) assms(2)]
  from cases(1) e i have g: "\<not> cf_is_group c" by auto
  from c(2) g obtain b where b: "nth_opt (bookmarks (ap_config a)) idx = Some b" "cf_name c = b_name b"
    "cf_is_production c = (b_env b = ''production'')" by (auto simp: dialog_matches_def)
  from cases(3) [OF i g e] b i c(1) enter show ?thesis by (auto simp: is_confirmed_def)
qed

theorem deletion_was_confirmed_witness:
  "\<exists>a'. handle_key_event sample_app_env \<lparr>ke_code = KEnter, ke_ctrl = False, ke_shift = False\<rparr> asked_bookmark = Some a'
     \<and> bookmarks (ap_config a') = [] \<and> kc_entries (ap_keychain a') = Map.empty"
proof -
  let ?key = "\<lparr>ke_code = KEnter, ke_ctrl = False, ke_shift = False\<rparr>"
  have small: "small (ap_config asked_bookmark)" by (simp add: asked_bookmark_def sample_app_simps sample_small)
  have ok: "app_ok sample_match asked_bookmark" using reach_ok [OF sample_reach(4)] by (simp add: round_ok_def)
  have "\<not> deletes_group asked_bookmark ?key" by (simp add: deletes_group_def asked_bookmark_def GROUP_INDEX_MARKER_def)
  with handle_key_cases(1) [OF ok refl small] obtain a' where a': "handle_key_event sample_app_env ?key asked_bookmark = Some a'"
    by blast
  have e: "b_env (bookmarks one_bookmark ! 0) = []" "b_name (bookmarks one_bookmark ! 0) = ''old''"
    by (simp_all add: sample_lists build_bookmark_def Let_def selected_env_def typed_form_def form_of_fields_def ENV_OPTIONS_def)
  have "ap_config a' \<noteq> ap_config asked_bookmark"
  proof -
    let ?c = "confirm_new (bookmarks one_bookmark ! 0)"
    have c: "ap_confirm asked_bookmark = Some ?c" "ap_screen asked_bookmark = Delete_confirm 0"
      "is_confirmed ?c" "\<not> cf_is_group ?c"
      by (simp_all add: asked_bookmark_def is_confirmed_def confirm_new_def e)
    with a' have "confirm_enter sample_app_env ?c asked_bookmark = Some a'"
      by (simp add: handle_key_event_def handle_confirm_key_def)
    from confirm_enter_cases(3) [OF ok c(2) refl c(1) small c(3,4) this]
    have "bookmarks (ap_config a') = []" by (simp add: asked_bookmark_def sample_app_simps sample_lists remove_at_def)
    then show ?thesis by (auto simp: asked_bookmark_def sample_app_simps sample_lists)
  qed
  from deletion_was_confirmed [OF sample_reach(4) small refl _ a' this, of 0] a' show ?thesis
    by (auto simp: asked_bookmark_def sample_app_simps sample_lists remove_at_def nth_opt_def delete_password_def
        stored_keychain_def)
qed

section \<open>Stored passwords\<close>

lemma migrate_password_keychain:
  assumes "kc_readable (ap_keychain a)" "kc_writable (ap_keychain a)"
  shows "kc_entries (ap_keychain (migrate_password env old new a)) =
    (case kc_entries (ap_keychain a) old of
       Some pw \<Rightarrow> if old = new then kc_entries (ap_keychain a) else (kc_entries (ap_keychain a))(new \<mapsto> pw, old := None)
     | None \<Rightarrow> kc_entries (ap_keychain a))"
  using assms
  by (simp add: migrate_password_def get_password_def delete_password_def set_password_def split: option.split)

lemma close_form_keychain: "ap_keychain (close_form env a) = ap_keychain a"
  by (simp add: close_form_def back_to_list_def)

text \<open>C15:
  Saving a bookmark under a new name, with the password field untouched and a keychain that works,
  moves the stored password to the new name, and leaves all others alone; under the same name
  nothing changes.\<close>

theorem rename_moves_password:
  assumes "ap_form a = Some fs" "\<not> is_group (inner fs)" "ap_screen a = Edit_form Target_bookmark i"
    and "nth_opt (bookmarks (ap_config a)) i = Some orig"
    and "validate_and_build_bookmark (ae_files env) (ap_config a) (inner fs) = (Inr b, f)"
    and "\<not> fm_password_modified (inner fs)" "kc_readable (ap_keychain a)" "kc_writable (ap_keychain a)"
  shows "\<exists>a'. try_save_unified_form env a = Some a' \<and> kc_entries (ap_keychain a') =
    (case kc_entries (ap_keychain a) (b_name orig) of
       Some pw \<Rightarrow> if b_name orig = b_name b then kc_entries (ap_keychain a)
         else (kc_entries (ap_keychain a))(b_name b \<mapsto> pw, b_name orig := None)
     | None \<Rightarrow> kc_entries (ap_keychain a))"
proof -
  have f: "\<not> fm_password_modified f"
    using assms(5,6) by (auto simp: validate_and_build_bookmark_def split: sum.splits)
  have v: "validate_and_build (ae_files env) (ap_config a) (inner fs) = (Inr (Entry_bookmark b), f)"
    using assms(2,5) by (simp add: validate_and_build_def)
  obtain a1 where a1: "store_bookmark env b a = Some a1" "ap_keychain a1 = ap_keychain a"
    using assms(3,4) by (simp add: store_bookmark_def Let_def)
  have old: "old_bookmark_name a (b_name b) = Some (b_name orig)" using assms(3,4) by (simp add: old_bookmark_name_def)
  let ?a' = "close_form env (migrate_password env (b_name orig) (b_name b) (save_config env (Bookmark_saved (b_name b)) a1))"
  have "try_save_unified_form env a = Some ?a'"
    using assms(1,2) v old a1 f by (simp add: try_save_unified_form_def save_bookmark_def save_typed_password_def)
  then show ?thesis
    using migrate_password_keychain [of "save_config env (Bookmark_saved (b_name b)) a1" env "b_name orig" "b_name b"]
      a1(2) assms(7,8) by (simp add: close_form_keychain split: option.splits)
qed

definition renamed_form :: form where
  "renamed_form = typed_form\<lparr>fm_is_edit := True, fm_original := Some ''old''\<rparr>"

lemma renamed_form_checked: "check_bookmark_fields one_bookmark renamed_form = Inr 22"
proof -
  have "check_bookmark_fields no_entries typed_form = Inr 22" by (rule typed_form_checked)
  moreover have "trim ''web'' = ''web''" by code_simp
  ultimately show ?thesis
    by (simp add: check_bookmark_fields_def renamed_form_def Let_def one_bookmark_def no_entries_def typed_form_def
        form_of_fields_def)
qed

theorem rename_moves_password_witness:
  "\<exists>a'. try_save_unified_form sample_app_env (bookmark_app\<lparr>ap_screen := Edit_form Target_bookmark 0,
       ap_form := Some (Form_edit 0 Target_bookmark renamed_form)\<rparr>) = Some a'
     \<and> kc_entries (ap_keychain a') = [''web'' \<mapsto> ''pw'']"
proof -
  let ?a = "bookmark_app\<lparr>ap_screen := Edit_form Target_bookmark 0, ap_form := Some (Form_edit 0 Target_bookmark renamed_form)\<rparr>"
  have w: "trim ''web'' = ''web''" by code_simp
  have n: "b_name (build_bookmark renamed_form 22) = ''web''"
    by (simp add: build_bookmark_def Let_def renamed_form_def typed_form_def form_of_fields_def w)
  have "validate_and_build_bookmark (ae_files sample_app_env) (ap_config ?a) (inner (Form_edit 0 Target_bookmark renamed_form))
    = (Inr (build_bookmark renamed_form 22), renamed_form\<lparr>fm_error := identity_warning (ae_files sample_app_env)
        (non_empty_option (fm_fields renamed_form ! FIELD_IDENTITY))\<rparr>)"
    by (simp add: validate_and_build_bookmark_def sample_app_simps renamed_form_checked)
  note v = this
  have p: "ap_form ?a = Some (Form_edit 0 Target_bookmark renamed_form)" "ap_screen ?a = Edit_form Target_bookmark 0"
    "\<not> is_group (inner (Form_edit 0 Target_bookmark renamed_form))"
    "nth_opt (bookmarks (ap_config ?a)) 0 = Some ((build_bookmark typed_form 22)\<lparr>b_name := ''old''\<rparr>)"
    "\<not> fm_password_modified (inner (Form_edit 0 Target_bookmark renamed_form))"
    "kc_readable (ap_keychain ?a)" "kc_writable (ap_keychain ?a)"
    by (simp_all add: is_group_def renamed_form_def typed_form_def form_of_fields_def sample_app_simps sample_lists
        stored_keychain_def)
  obtain a' where a': "try_save_unified_form sample_app_env ?a = Some a'"
    "kc_entries (ap_keychain a') = (case kc_entries (ap_keychain ?a) (b_name ((build_bookmark typed_form 22)\<lparr>b_name := ''old''\<rparr>)) of
       Some pw \<Rightarrow> if b_name ((build_bookmark typed_form 22)\<lparr>b_name := ''old''\<rparr>) = b_name (build_bookmark renamed_form 22)
         then kc_entries (ap_keychain ?a)
         else (kc_entries (ap_keychain ?a))(b_name (build_bookmark renamed_form 22) \<mapsto> pw,
           b_name ((build_bookmark typed_form 22)\<lparr>b_name := ''old''\<rparr>) := None)
     | None \<Rightarrow> kc_entries (ap_keychain ?a))"
    using rename_moves_password [OF p(1,3,2,4) v p(5-7)] by blast
  have "kc_entries (ap_keychain a') = [''old'' \<mapsto> ''pw''](''web'' \<mapsto> ''pw'', ''old'' := None)"
    unfolding a'(2) n by (simp add: sample_app_simps stored_keychain_def)
  moreover have "[''old'' \<mapsto> ''pw''](''web'' \<mapsto> ''pw'', ''old'' := None) = [''web'' \<mapsto> ''pw'']" by (rule ext) simp
  ultimately show ?thesis using a'(1) by metis
qed

section \<open>Editing without a change\<close>

lemma migrate_same: "migrate_password env n n a = a"
  by (simp add: migrate_password_def)

lemma fresh_edit_form:
  "fm_sessions (form_new_edit_bookmark kc b names) = []"
  "\<not> fm_password_modified (form_new_edit_bookmark kc b names)"
  by (simp_all add: form_new_edit_bookmark_def form_of_fields_def)

text \<open>C16:
  Opening a bookmark in the edit form and pressing Enter at once stores the bookmark as it was,
  with the record of its use, but always without its snippets, SSH options, timeout and password
  prompt pattern, for which the form has no fields.  The other entries of the configuration and
  the stored passwords stay as they were, and the changed configuration is what is written.  The
  bookmark has to be plain (\<open>plain_bookmark\<close>): name and host valid, its texts and tags trimmed and
  not empty, no comma in a tag, a port, an environment of the selector, and a profile that exists.\<close>

theorem edit_form_roundtrip:
  assumes "edit_bookmark idx a = Some a1" "nth_opt (bookmarks (ap_config a)) idx = Some b"
    and "plain_bookmark (profile_names a) b" "ke_code key = KEnter"
  shows "\<exists>a' res. handle_unified_form_key env key a1 = Some a'
    \<and> ap_config a' = (ap_config a)\<lparr>bookmarks := (bookmarks (ap_config a))
        [idx := b\<lparr>b_on_connect_prompt_pattern := None, b_snippets := [], b_connect_timeout_secs := None,
                  b_ssh_options := Map.empty\<rparr>]\<rparr>
    \<and> ap_keychain a' = ap_keychain a
    \<and> save_to (ae_io env) (ap_config a') (ap_store a) = (res, ap_store a')
    \<and> ap_form a' = None \<and> ap_screen a' = List_screen"
proof -
  let ?f = "form_new_edit_bookmark (ap_keychain a) b (profile_names a)"
  let ?b = "b\<lparr>b_last_connected := None, b_connect_count := 0, b_on_connect_prompt_pattern := None,
        b_snippets := [], b_connect_timeout_secs := None, b_ssh_options := Map.empty\<rparr>"
  let ?c = "(ap_config a)\<lparr>bookmarks := (bookmarks (ap_config a))
        [idx := b\<lparr>b_on_connect_prompt_pattern := None, b_snippets := [], b_connect_timeout_secs := None,
                  b_ssh_options := Map.empty\<rparr>]\<rparr>"
  have a1: "a1 = a\<lparr>ap_form := Some (Form_edit idx Target_bookmark ?f), ap_screen := Edit_form Target_bookmark idx\<rparr>"
    using assms(1,2) by (simp add: edit_bookmark_def)
  obtain g where g: "validate_and_build_bookmark (ae_files env) (ap_config a) ?f = (Inr ?b, g)"
    using edit_form_rebuilds [OF assms(3), of "ae_files env" "ap_config a" "ap_keychain a"]
    by (metis prod.collapse)
  then have pw: "\<not> fm_password_modified g"
    using fresh_edit_form(2) by (auto simp: validate_and_build_bookmark_def split: sum.splits)
  have v: "validate_and_build (ae_files env) (ap_config a1) ?f = (Inr (Entry_bookmark ?b), g)"
    using g by (simp add: validate_and_build_def is_group_def fresh_edit_form a1)
  have st: "store_bookmark env ?b a1 = Some (a1\<lparr>ap_config := ?c\<rparr>)"
    using assms(2) by (simp add: store_bookmark_def Let_def a1)
  have old: "old_bookmark_name a1 (b_name ?b) = Some (b_name ?b)"
    using assms(2) by (simp add: old_bookmark_name_def a1)
  let ?a' = "close_form env (save_config env (Bookmark_saved (b_name b)) (a1\<lparr>ap_config := ?c\<rparr>))"
  have "try_save_unified_form env a1 = Some ?a'"
    using v st old pw
    by (simp add: try_save_unified_form_def save_bookmark_def save_typed_password_def a1 is_group_def
        fresh_edit_form migrate_same)
  then have "handle_unified_form_key env key a1 = Some ?a'"
    using assms(4) by (simp add: handle_unified_form_key_def a1)
  moreover have "ap_config ?a' = ?c" "ap_keychain ?a' = ap_keychain a" "ap_form ?a' = None"
    "ap_screen ?a' = List_screen" "save_to (ae_io env) ?c (ap_store a)
      = (fst (save_to (ae_io env) ?c (ap_store a)), ap_store ?a')"
    by (simp_all add: close_form_def refilter_def back_to_list_def save_config_def Let_def case_prod_unfold
        set_status_def a1)
  ultimately show ?thesis by metis
qed

theorem edit_form_roundtrip_witness:
  "\<exists>a1 a'. edit_bookmark 0 bookmark_app = Some a1
    \<and> handle_unified_form_key sample_app_env \<lparr>ke_code = KEnter, ke_ctrl = False, ke_shift = False\<rparr> a1 = Some a'
    \<and> bookmarks (ap_config a') = [(build_bookmark typed_form 22)\<lparr>b_name := ''old''\<rparr>]"
proof -
  let ?b = "(build_bookmark typed_form 22)\<lparr>b_name := ''old''\<rparr>"
  have b: "nth_opt (bookmarks (ap_config bookmark_app)) 0 = Some ?b" "profile_names bookmark_app = []"
    "bookmarks (ap_config bookmark_app) = [?b]"
    by (simp_all add: sample_app_simps sample_lists profile_names_def one_bookmark_def no_entries_def)
  have "trim ''old'' = ''old''" "validate_bookmark_name ''old'' = Inr ()" by code_simp+
  then have p: "plain_bookmark (profile_names bookmark_app) ?b"
    using typed_bookmark_plain by (simp add: plain_bookmark_def b(2))
  have "?b\<lparr>b_on_connect_prompt_pattern := None, b_snippets := [], b_connect_timeout_secs := None,
      b_ssh_options := Map.empty\<rparr> = ?b"
    by (simp add: build_bookmark_def Let_def)
  moreover obtain a1 where a1: "edit_bookmark 0 bookmark_app = Some a1"
    using b(1) by (simp add: edit_bookmark_def)
  ultimately show ?thesis
    using edit_form_roundtrip [OF a1 b(1) p, of "\<lparr>ke_code = KEnter, ke_ctrl = False, ke_shift = False\<rparr>" sample_app_env] b(3)
    by force
qed

section \<open>Commands\<close>

text \<open>Only the keys of the group screen ask for something to be done with a shell.\<close>

lemma list_keys_keep_mux: "handle_list_key env key a = Some a' \<Longrightarrow> ap_mux_action a' = ap_mux_action a"
  by (auto simp: handle_list_key_def handle_list_char_def on_selected_def move_selection_def jump_to_end_def
      filter_by_env_def open_add_form_def edit_bookmark_def edit_group_def ask_delete_bookmark_def ask_delete_group_def
      open_help_def Let_def split: key_code.splits if_splits option.splits bind_splits)

lemma other_keys_keep_mux:
  "ap_mux_action (handle_search_key env key a) = ap_mux_action a"
  "ap_mux_action (handle_help_key key a) = ap_mux_action a"
  by (auto simp: handle_search_key_def move_selection_def open_help_def handle_help_key_def close_help_def scroll_help_def
      split: key_code.splits)

lemma confirm_keys_keep_mux: "handle_confirm_key env key a = Some a' \<Longrightarrow> ap_mux_action a' = ap_mux_action a"
  by (auto simp: handle_confirm_key_def confirm_enter_def delete_group_def delete_bookmark_def Let_def back_to_list_def
      open_help_def split: option.splits key_code.splits screen.splits if_splits)

lemma close_form_mux: "ap_mux_action (close_form env a) = ap_mux_action a"
  by (simp add: close_form_def back_to_list_def)

lemma store_keeps_mux:
  "store_group env g a = Some a' \<Longrightarrow> ap_mux_action a' = ap_mux_action a"
  "store_bookmark env b a = Some a' \<Longrightarrow> ap_mux_action a' = ap_mux_action a"
  by (auto simp: store_group_def store_bookmark_def Let_def split: screen.splits edit_target.splits)

lemma save_keeps_mux: "try_save_unified_form env a = Some a' \<Longrightarrow> ap_mux_action a' = ap_mux_action a"
  by (auto simp: try_save_unified_form_def save_group_def save_bookmark_def reject_form_def close_form_mux
      split: option.splits if_splits sum.splits prod.splits unified_entry.splits bind_splits dest: store_keeps_mux)

lemma form_keys_keep_mux: "handle_unified_form_key env key a = Some a' \<Longrightarrow> ap_mux_action a' = ap_mux_action a"
  by (auto simp: handle_unified_form_key_def handle_form_char_def with_form_def back_to_list_def open_help_def
      split: option.splits key_code.splits if_splits dest: save_keeps_mux)

lemma command_requested:
  assumes "handle_key_event env key a = Some a'" "ap_mux_action a = None" "ap_mux_action a' = Some (Send_command gi cmd)"
  shows "ap_screen a = Group_mux gi \<and> ke_code key = KEnter \<and> ap_mux_conns a' = ap_mux_conns a
    \<and> map_option mc_state (ap_mux_conns a gi) = Some Mux_ready
    \<and> session_effective_on_connect (g_sessions (groups (ap_config a) ! gi) ! unwrap_or (ap_mux_session a) 0)
        (groups (ap_config a) ! gi) (profiles (ap_config a)) = Some cmd"
proof (cases "ke_ctrl key \<and> ke_code key = KChar CHR ''c''")
  case True
  with assms show ?thesis by (auto simp: handle_key_event_def)
next
  case ev: False
  show ?thesis
  proof (cases "ap_screen a")
    case (Group_mux g)
    with assms(1) ev have h: "handle_mux_key key a = Some a'" by (auto simp: handle_key_event_def)
    obtain G where G: "nth_opt (groups (ap_config a)) g = Some G"
      using h Group_mux assms(2,3) by (cases "nth_opt (groups (ap_config a)) g") (auto simp: handle_mux_key_def)
    then have G': "groups (ap_config a) ! g = G" by (auto simp: nth_opt_def split: if_splits)
    have e: "ke_code key = KEnter \<and> mux_enter g G a = Some a'"
      using h Group_mux G assms(2,3)
      by (auto simp: handle_mux_key_def Let_def leave_mux_def mux_previous_def mux_next_def split: if_splits)
    let ?si = "unwrap_or (ap_mux_session a) 0"
    from e assms(2,3) have r: "mux_run g ?si G (map_option mc_state (ap_mux_conns a g) = Some Mux_ready) a = Some a'"
      by (auto simp: mux_enter_def mux_interactive_def Let_def split: option.splits mux_state.splits)
    then obtain x where x: "nth_opt (g_sessions G) ?si = Some x" by (auto simp: mux_run_def)
    then have x': "g_sessions G ! ?si = x" by (auto simp: nth_opt_def split: if_splits)
    from r x assms(2,3) have "map_option mc_state (ap_mux_conns a g) = Some Mux_ready" "g = gi"
      "session_effective_on_connect x G (profiles (ap_config a)) = Some cmd" "ap_mux_conns a' = ap_mux_conns a"
      by (auto simp: mux_run_def split: if_splits option.splits)
    with e Group_mux G' x' show ?thesis by simp
  qed (use assms ev list_keys_keep_mux [of env key a a'] confirm_keys_keep_mux [of env key a a'] form_keys_keep_mux [of env key a a']
      in \<open>auto simp: handle_key_event_def other_keys_keep_mux split: if_splits\<close>)
qed

text \<open>C12:
  A command is sent to a shell only in a round in which Enter is pressed on the screen of its
  group, while the connection of the group is ready; it goes to the shell of that connection, and
  is the command of the selected session.\<close>

theorem commands_reach_ready_shell:
  assumes "reach m c0 a" "small (ap_config a)" "ae_match (rd_env r) = m"
    and "loop_round r a = Some (act, tasks, a')" "Task_send gi ch cmd \<in> set tasks"
  shows "ap_screen a = Group_mux gi \<and> (\<exists>key. rd_key r = Some key \<and> ke_code key = KEnter)
    \<and> (\<exists>conn. ap_mux_conns a gi = Some conn \<and> mc_state conn = Mux_ready \<and> mc_channel conn = Some ch)
    \<and> session_effective_on_connect (g_sessions (groups (ap_config a) ! gi) ! unwrap_or (ap_mux_session a) 0)
        (groups (ap_config a) ! gi) (profiles (ap_config a)) = Some cmd"
proof -
  have none: "ap_mux_action a = None" using reach_ok [OF assms(1)] by (simp add: round_ok_def)
  from assms(4,5) obtain a1 where a1: "after_key r a1 = (act, tasks, a')"
    "case rd_key r of None \<Rightarrow> a1 = a | Some key \<Rightarrow> handle_key_event (rd_env r) key a = Some a1"
    by (auto simp: loop_round_def split: if_splits option.splits)
  have "act \<noteq> Some Quit"
  proof
    assume "act = Some Quit"
    with a1(1) take_loop_request_act have "tasks = []" by (auto simp: after_key_def Let_def split: if_splits prod.splits)
    with assms(5) show False by simp
  qed
  with a1(1) have "tasks = snd (perform_mux_action (app_tick (rd_env r) a1))"
    by (rule after_key_worked)
  with assms(5) obtain x where x: "ap_mux_action a1 = Some x"
    "Task_send gi ch cmd \<in> set (snd (start_mux_action x (app_tick (rd_env r) a1\<lparr>ap_mux_action := None\<rparr>)))"
    by (auto simp: perform_mux_action_def split: option.splits)
  then have m: "ap_mux_action a1 = Some (Send_command gi cmd)" "Option.bind (ap_mux_conns a1 gi) mc_channel = Some ch"
    by (cases x; auto split: option.splits)+
  with a1(2) none obtain key where key: "rd_key r = Some key" "handle_key_event (rd_env r) key a = Some a1"
    by (cases "rd_key r") auto
  from command_requested [OF key(2) none m(1)] m(2) key(1) show ?thesis
    by (auto split: bind_splits)
qed

definition in_group :: "(app_config, nat) app" where
  "in_group = group_app\<lparr>ap_mux_session := Some 0, ap_screen := Group_mux 0\<rparr>"

definition opening_shell :: "(app_config, nat) app" where
  "opening_shell = in_group\<lparr>ap_mux_conns := [0 \<mapsto> \<lparr>mc_output = [], mc_state = Mux_connecting, mc_channel = None\<rparr>]\<rparr>"

definition ready_shell :: "(app_config, nat) app" where
  "ready_shell = in_group\<lparr>ap_mux_conns := [0 \<mapsto> \<lparr>mc_output = [], mc_state = Mux_ready, mc_channel = Some 7\<rparr>], ap_mux_rx := [0 \<mapsto> 7]\<rparr>"

lemma shell_rounds:
  "loop_round (sample_round (Some KEnter) []) group_app = Some (None, [], in_group)"
  "loop_round (sample_round (Some KEnter) []) in_group = Some (None, [Task_open 0 0], opening_shell)"
  "loop_round (sample_round None [Shell_opened 0 7]) opening_shell = Some (None, [], ready_shell)"
proof -
  note mux = handle_mux_key_def nth_opt_def mux_enter_def mux_run_def in_group_def opening_shell_def ready_shell_def
  show "loop_round (sample_round (Some KEnter) []) group_app = Some (None, [], in_group)"
    by (simp add: round_simps mux sample_app_simps sample_filtered sample_lists unchanged_conns)
  show "loop_round (sample_round (Some KEnter) []) in_group = Some (None, [Task_open 0 0], opening_shell)"
    by (simp add: round_simps mux sample_app_simps sample_lists) (simp add: group_app_def new_app_def fun_eq_iff)
  show "loop_round (sample_round None [Shell_opened 0 7]) opening_shell = Some (None, [], ready_shell)"
    by (simp add: round_simps mux sample_app_simps sample_lists) (simp add: group_app_def new_app_def fun_eq_iff)
qed

lemma ready_reach: "reach sample_match sample_config ready_shell"
proof -
  have "reach sample_match sample_config in_group"
    by (rule reach_round [OF sample_reach(1) _ _ shell_rounds(1)]) (simp_all add: sample_app_simps sample_small sample_round_def)
  then have "reach sample_match sample_config opening_shell"
    by (rule reach_round [OF _ _ _ shell_rounds(2)]) (simp_all add: in_group_def sample_app_simps sample_small sample_round_def)
  then show ?thesis
    by (rule reach_round [OF _ _ _ shell_rounds(3)])
      (simp_all add: opening_shell_def in_group_def sample_app_simps sample_small sample_round_def)
qed

theorem commands_reach_ready_shell_witness:
  "\<exists>act tasks a' cmd. loop_round (sample_round (Some KEnter) []) ready_shell = Some (act, tasks, a')
     \<and> Task_send 0 7 cmd \<in> set tasks \<and> session_effective_on_connect sample_session sample_group [] = Some cmd"
proof -
  obtain cmd where cmd: "session_effective_on_connect sample_session sample_group [] = Some cmd"
    by (simp add: session_effective_on_connect_def sample_group_def sample_session_def option_or_def)
  have g: "groups sample_config ! 0 = sample_group" "g_sessions sample_group ! 0 = sample_session" by (simp_all add: sample_lists)
  have "\<exists>act a'. loop_round (sample_round (Some KEnter) []) ready_shell = Some (act, [Task_send 0 7 cmd], a')"
    using cmd by (simp add: round_simps handle_mux_key_def nth_opt_def mux_enter_def mux_run_def ready_shell_def in_group_def
        sample_app_simps sample_lists g set_mux_state_def)
  then obtain act a' where r: "loop_round (sample_round (Some KEnter) []) ready_shell = Some (act, [Task_send 0 7 cmd], a')"
    by blast
  have "small (ap_config ready_shell)" "ae_match (rd_env (sample_round (Some KEnter) [])) = sample_match"
    by (simp_all add: ready_shell_def in_group_def sample_app_simps sample_small sample_round_def)
  from commands_reach_ready_shell [OF ready_reach this r, of 0 7 cmd] r cmd show ?thesis
    by (auto simp: ready_shell_def in_group_def sample_app_simps sample_lists g)
qed

section \<open>Results that arrive late\<close>

text \<open>
  The result of a command of a connection that was closed makes the next connection of the group
  ready before its shell is there; the command that Enter then asks for is sent to no shell, and
  the connection waits for its result.
\<close>

lemma late_result_loses_command:
  "loop_round (sample_round None [Command_sent 0]) opening_shell
     = Some (None, [], in_group\<lparr>ap_mux_conns := [0 \<mapsto> \<lparr>mc_output = [], mc_state = Mux_ready, mc_channel = None\<rparr>]\<rparr>)"
  "\<exists>act a'. loop_round (sample_round (Some KEnter) [])
       (in_group\<lparr>ap_mux_conns := [0 \<mapsto> \<lparr>mc_output = [], mc_state = Mux_ready, mc_channel = None\<rparr>]\<rparr>) = Some (act, [], a')
     \<and> map_option mc_state (ap_mux_conns a' 0) = Some Mux_running"
proof -
  show "loop_round (sample_round None [Command_sent 0]) opening_shell
     = Some (None, [], in_group\<lparr>ap_mux_conns := [0 \<mapsto> \<lparr>mc_output = [], mc_state = Mux_ready, mc_channel = None\<rparr>]\<rparr>)"
    by (simp add: round_simps opening_shell_def in_group_def sample_app_simps set_mux_state_def) (auto simp: fun_eq_iff)
  obtain cmd where "session_effective_on_connect sample_session sample_group [] = Some cmd"
    by (simp add: session_effective_on_connect_def sample_group_def sample_session_def option_or_def)
  moreover have "groups sample_config ! 0 = sample_group" "g_sessions sample_group ! 0 = sample_session"
    by (simp_all add: sample_lists)
  ultimately show "\<exists>act a'. loop_round (sample_round (Some KEnter) [])
       (in_group\<lparr>ap_mux_conns := [0 \<mapsto> \<lparr>mc_output = [], mc_state = Mux_ready, mc_channel = None\<rparr>]\<rparr>) = Some (act, [], a')
     \<and> map_option mc_state (ap_mux_conns a' 0) = Some Mux_running"
    by (simp add: round_simps handle_mux_key_def nth_opt_def mux_enter_def mux_run_def in_group_def
        sample_app_simps sample_lists set_mux_state_def)
qed

end
