(* ===== verification/Importers.thy ===== *)
theory Importers
  imports Ssh_Import Config_Store
begin

text \<open>
  The importers of other clients' sessions (\<open>src/config/import_*.rs\<close>), the dispatch of
  \<open>config::import_from_source\<close>, and the import command of \<open>src/main.rs\<close>.

  PuTTY registry files and MobaXterm session files are parsed here from their text.  SecureCRT's
  file is a sequence of XML events, which the importer folds with a small state machine.  CSV,
  JSON and Tabby's YAML arrive as parsed records.  The parsers of other crates (percent decoding,
  XML, CSV, JSON, YAML, TOML) and the reading of a file are fields of the record \<open>parsers\<close>.
\<close>

section \<open>What the importers share\<close>

datatype source_error =
    File_unreadable string
  | Ssh_failed import_error
  | Toml_failed
  | Xml_failed
  | Text_not_unescaped
  | Nothing_to_import
  | No_name_column
  | No_host_column
  | Csv_failed
  | Csv_row_failed nat
  | Json_failed
  | Json_shape
  | Yaml_failed

abbreviation backslash :: char where "backslash \<equiv> CHR 0x5C"
abbreviation dquote :: char where "dquote \<equiv> CHR 0x22"
abbreviation hash_char :: char where "hash_char \<equiv> CHR 0x23"

definition non_empty :: "string \<Rightarrow> string option" where
  "non_empty s = (if s = [] then None else Some s)"

definition valid_host :: "string \<Rightarrow> bool" where
  "valid_host host \<longleftrightarrow> is_ok (validate_hostname host)"

text \<open>The bookmark every importer builds; the fields that it leaves at their defaults.\<close>

definition imported_bookmark ::
    "string \<Rightarrow> string \<Rightarrow> string option \<Rightarrow> u16 \<Rightarrow> string \<Rightarrow> string list \<Rightarrow> string option
      \<Rightarrow> string option \<Rightarrow> string option \<Rightarrow> bookmark" where
  "imported_bookmark name host user port env tags identity proxy notes =
     \<lparr>b_name = name, b_host = host, b_user = user, b_port = port, b_env = env, b_tags = tags,
      b_identity_file = identity, b_proxy_jump = proxy, b_notes = notes,
      b_last_connected = None, b_connect_count = 0, b_on_connect = None,
      b_on_connect_prompt_pattern = None, b_snippets = [], b_connect_timeout_secs = None,
      b_ssh_options = Map.empty, b_profile = None\<rparr>"

text \<open>\<open>u32::from_str_radix(_, 16)\<close>.\<close>

definition hex_digit_value :: "char \<Rightarrow> nat option" where
  "hex_digit_value c =
     (if is_ascii_digit c then Some (code c - 48)
      else if 97 \<le> code c \<and> code c \<le> 102 then Some (code c - 87)
      else if 65 \<le> code c \<and> code c \<le> 70 then Some (code c - 55)
      else None)"

fun hex_value :: "nat \<Rightarrow> string \<Rightarrow> nat option" where
  "hex_value n [] = Some n"
| "hex_value n (c # cs) =
     (case hex_digit_value c of None \<Rightarrow> None | Some d \<Rightarrow> hex_value (n * 16 + d) cs)"

definition parse_hex_u32 :: "string \<Rightarrow> u32 option" where
  "parse_hex_u32 s =
     (let ds = (case s of c # cs \<Rightarrow> if c = CHR ''+'' then cs else s | [] \<Rightarrow> s) in
      if ds = [] then None
      else case hex_value 0 ds of
          Some n \<Rightarrow> if n < 2 ^ 32 then Some (word_of_nat n) else None
        | None \<Rightarrow> None)"

section \<open>PuTTY\<close>

record putty_session =
  pu_name :: string
  pu_hostname :: string
  pu_port :: u16
  pu_username :: "string option"
  pu_protocol :: string
  pu_proxy_host :: "string option"
  pu_proxy_port :: "u16 option"
  pu_proxy_username :: "string option"
  pu_identity_file :: "string option"

definition new_putty_session :: "string \<Rightarrow> putty_session" where
  "new_putty_session name =
     \<lparr>pu_name = name, pu_hostname = [], pu_port = 22, pu_username = None, pu_protocol = ''ssh'',
      pu_proxy_host = None, pu_proxy_port = None, pu_proxy_username = None,
      pu_identity_file = None\<rparr>"

definition is_valid_ssh_session :: "putty_session \<Rightarrow> bool" where
  "is_valid_ssh_session s \<longleftrightarrow> pu_hostname s \<noteq> [] \<and> pu_protocol s = ''ssh''"

definition parse_dword :: "string \<Rightarrow> u32 option" where
  "parse_dword s = Option.bind (strip_prefix ''dword:'' s) parse_hex_u32"

text \<open>\<open>parse_reg_line\<close>: the value part keeps a dword as it is and unquotes a text.\<close>

definition reg_value :: "string \<Rightarrow> string" where
  "reg_value v =
     (if starts_with ''dword:'' v then v
      else if starts_with [dquote] v \<and> ends_with [dquote] v \<and> 2 \<le> str_len v
      then str_replace (length v) [backslash, backslash] [backslash] (butlast (tl v))
      else v)"

definition parse_reg_line :: "string \<Rightarrow> (string \<times> string) option" where
  "parse_reg_line line =
     Option.bind (strip_prefix [dquote] line) (\<lambda>rest.
     Option.bind (split_once dquote rest) (\<lambda>(key, after).
       map_option (\<lambda>v. (key, reg_value v)) (strip_prefix ''='' after)))"

definition set_putty :: "string \<Rightarrow> string \<Rightarrow> putty_session \<Rightarrow> putty_session" where
  "set_putty key value s =
     (if key = ''HostName'' then s\<lparr>pu_hostname := value\<rparr>
      else if key = ''PortNumber'' then s\<lparr>pu_port := ucast (unwrap_or (parse_dword value) 22)\<rparr>
      else if key = ''UserName'' then s\<lparr>pu_username := non_empty value\<rparr>
      else if key = ''Protocol'' then s\<lparr>pu_protocol := value\<rparr>
      else if key = ''ProxyHost'' then s\<lparr>pu_proxy_host := non_empty value\<rparr>
      else if key = ''ProxyPort'' then s\<lparr>pu_proxy_port := map_option ucast (parse_dword value)\<rparr>
      else if key = ''ProxyUsername'' then s\<lparr>pu_proxy_username := non_empty value\<rparr>
      else if key = ''PublicKeyFile'' then
        s\<lparr>pu_identity_file :=
            map_option (map (\<lambda>c. if c = backslash then CHR ''/'' else c)) (non_empty value)\<rparr>
      else s)"

text \<open>What follows the last occurrence of a text (\<open>str::rfind\<close>).\<close>

fun after_last :: "string \<Rightarrow> string \<Rightarrow> string option" where
  "after_last pat [] = None"
| "after_last pat (c # cs) =
     (case after_last pat cs of Some r \<Rightarrow> Some r | None \<Rightarrow> strip_prefix pat (c # cs))"

definition SESSIONS_KEY :: string where
  "SESSIONS_KEY = [backslash] @ ''Sessions'' @ [backslash]"

definition finish_putty :: "putty_session option \<Rightarrow> putty_session list" where
  "finish_putty cur =
     (case cur of Some s \<Rightarrow> if is_valid_ssh_session s then [s] else [] | None \<Rightarrow> [])"

text \<open>
  The loop of \<open>parse_sessions\<close> over the lines; \<open>decode\<close> is \<open>url_decode\<close>, the percent decoding
  of another crate.
\<close>

fun putty_lines ::
    "(string \<Rightarrow> string) \<Rightarrow> string list \<Rightarrow> putty_session list \<Rightarrow> putty_session option
      \<Rightarrow> putty_session list" where
  "putty_lines decode [] acc cur = acc @ finish_putty cur"
| "putty_lines decode (l # ls) acc cur =
     (let line = trim l in
      if line = [] \<or> starts_with ''Windows Registry Editor'' line \<or> starts_with ''REGEDIT'' line
         \<or> starts_with '';'' line
      then (if line = [] then putty_lines decode ls (acc @ finish_putty cur) None
            else putty_lines decode ls acc cur)
      else if starts_with ''['' line \<and> ends_with '']'' line
      then putty_lines decode ls (acc @ finish_putty cur)
             (map_option (new_putty_session \<circ> decode) (after_last SESSIONS_KEY (butlast (tl line))))
      else putty_lines decode ls acc
             (case (cur, parse_reg_line line) of
                (Some s, Some (key, value)) \<Rightarrow> Some (set_putty key value s)
              | _ \<Rightarrow> cur))"

definition putty_sessions :: "(string \<Rightarrow> string) \<Rightarrow> string \<Rightarrow> putty_session list" where
  "putty_sessions decode content = putty_lines decode (str_lines content) [] None"

definition putty_proxy_jump :: "putty_session \<Rightarrow> string option" where
  "putty_proxy_jump s =
     map_option (\<lambda>host.
       (case pu_proxy_username s of Some user \<Rightarrow> user @ ''@'' | None \<Rightarrow> [])
       @ host
       @ (case pu_proxy_port s of
            Some port \<Rightarrow> if port \<noteq> 22 then '':'' @ show_nat (unat port) else []
          | None \<Rightarrow> [])) (pu_proxy_host s)"

definition putty_bookmark ::
    "string option \<Rightarrow> string list \<Rightarrow> putty_session \<Rightarrow> bookmark" where
  "putty_bookmark env_override extra_tags s =
     (let name = sanitize_bookmark_name (pu_name s) in
      imported_bookmark name (pu_hostname s) (pu_username s) (pu_port s)
        (unwrap_or env_override (detect_env name (pu_hostname s)))
        (add_tags [''putty-import''] extra_tags) (pu_identity_file s) (putty_proxy_jump s)
        (Some (''Imported from PuTTY session: '' @ pu_name s)))"

definition parse_putty_reg ::
    "(string \<Rightarrow> string) \<Rightarrow> string \<Rightarrow> string option \<Rightarrow> string list \<Rightarrow> source_error + bookmark list" where
  "parse_putty_reg decode content env_override extra_tags =
     Inr (map (putty_bookmark env_override extra_tags)
       (filter (\<lambda>s. valid_host (pu_hostname s)) (putty_sessions decode content)))"

section \<open>MobaXterm\<close>

record moba_session =
  mo_name :: string
  mo_folder :: string
  mo_host :: string
  mo_port :: u16
  mo_username :: "string option"

definition MOBA_SSH_TYPE :: u16 where "MOBA_SSH_TYPE = 109"

text \<open>\<open>str::splitn\<close> on a character, and \<open>str::split_once\<close> on a text.\<close>

fun splitn :: "nat \<Rightarrow> char \<Rightarrow> string \<Rightarrow> string list" where
  "splitn 0 d s = []"
| "splitn (Suc n) d s =
     (if n = 0 then [s]
      else case split_once d s of None \<Rightarrow> [s] | Some (a, b) \<Rightarrow> a # splitn n d b)"

fun split_once_str :: "string \<Rightarrow> string \<Rightarrow> (string \<times> string) option" where
  "split_once_str pat [] = map_option (\<lambda>r. ([], r)) (strip_prefix pat [])"
| "split_once_str pat (c # cs) =
     (case strip_prefix pat (c # cs) of
        Some r \<Rightarrow> Some ([], r)
      | None \<Rightarrow> map_option (\<lambda>(a, b). (c # a, b)) (split_once_str pat cs))"

definition parse_moba_packed :: "string \<Rightarrow> string \<Rightarrow> string \<Rightarrow> moba_session option" where
  "parse_moba_packed name packed folder =
     (let parts = splitn 3 hash_char packed in
      if length parts < 2 then None
      else if unwrap_or (parse_u16 (parts ! 0)) 0 \<noteq> MOBA_SSH_TYPE then None
      else
        let fs = split_on (CHR ''%'') (parts ! 1);
            host = unwrap_or (nth_opt fs 1) [];
            port = unwrap_or (Option.bind (nth_opt fs 2) parse_u16) 22;
            username = Option.bind (nth_opt fs 5) non_empty
        in if host = [] then None
           else Some \<lparr>mo_name = name, mo_folder = folder, mo_host = host, mo_port = port,
                      mo_username = username\<rparr>)"

fun moba_lines :: "string list \<Rightarrow> string \<Rightarrow> moba_session list" where
  "moba_lines [] folder = []"
| "moba_lines (l # ls) folder =
     (let line = trim l in
      if starts_with ''['' line \<and> ends_with '']'' line then moba_lines ls []
      else case strip_prefix ''SubRep='' line of
          Some f \<Rightarrow> moba_lines ls (trim f)
        | None \<Rightarrow>
            if starts_with ''ImgNum='' line \<or> line = [] then moba_lines ls folder
            else case split_once_str (CHR ''='' # [hash_char]) line of
                None \<Rightarrow> moba_lines ls folder
              | Some (name, packed) \<Rightarrow>
                  (case parse_moba_packed (trim name) packed folder of
                     Some s \<Rightarrow> s # moba_lines ls folder
                   | None \<Rightarrow> moba_lines ls folder))"

definition in_folder :: "string \<Rightarrow> string \<Rightarrow> string" where
  "in_folder name folder = (if folder = [] then name else name @ '' '' @ folder)"

definition moba_bookmark :: "string option \<Rightarrow> string list \<Rightarrow> moba_session \<Rightarrow> bookmark" where
  "moba_bookmark env_override extra_tags s =
     (let name = sanitize_bookmark_name (mo_name s); folder = mo_folder s in
      imported_bookmark name (mo_host s) (mo_username s) (mo_port s)
        (unwrap_or env_override (detect_env (in_folder name folder) (mo_host s)))
        (add_tags [''mobaxterm-import'']
          (if folder = [] then extra_tags else add_tags [folder] extra_tags))
        None None
        (Some (''Imported from MobaXterm''
           @ (if folder = [] then [] else '' (folder: '' @ folder @ '')''))))"

definition parse_mxtsessions ::
    "string \<Rightarrow> string option \<Rightarrow> string list \<Rightarrow> source_error + bookmark list" where
  "parse_mxtsessions content env_override extra_tags =
     Inr (map (moba_bookmark env_override extra_tags)
       (filter (\<lambda>s. valid_host (mo_host s)) (moba_lines (str_lines content) [])))"

section \<open>SecureCRT\<close>

text \<open>
  The events of the XML reader.  An attribute list has \<open>None\<close> for an attribute that is not well
  formed, a text is \<open>None\<close> when its entities cannot be replaced.
\<close>

type_synonym xml_attrs = "(string \<times> string) option list"

datatype xml_event =
    Xml_start string xml_attrs
  | Xml_text "string option"
  | Xml_end string
  | Xml_empty string xml_attrs
  | Xml_eof
  | Xml_error
  | Xml_other

record scrt_session =
  sc_name :: string
  sc_hostname :: string
  sc_port :: u16
  sc_username :: "string option"
  sc_identity_file :: "string option"
  sc_firewall :: "string option"
  sc_folder_path :: "string list"

definition new_scrt_session :: "string list \<Rightarrow> string \<Rightarrow> scrt_session" where
  "new_scrt_session path name =
     \<lparr>sc_name = name, sc_hostname = [], sc_port = 22, sc_username = None,
      sc_identity_file = None, sc_firewall = None, sc_folder_path = path\<rparr>"

definition extract_name_attr :: "xml_attrs \<Rightarrow> string option" where
  "extract_name_attr attrs = map_of (List.map_filter id attrs) ''name''"

definition parse_hex_or_decimal :: "string \<Rightarrow> u32 option" where
  "parse_hex_or_decimal s =
     (case strip_prefix ''0x'' s of
        Some hex \<Rightarrow> parse_hex_u32 hex
      | None \<Rightarrow> map_option word_of_nat (parse_unsigned (2 ^ 32) s))"

definition set_scrt :: "string \<Rightarrow> string \<Rightarrow> scrt_session \<Rightarrow> scrt_session" where
  "set_scrt attr txt s =
     (if attr = ''Hostname'' then s\<lparr>sc_hostname := txt\<rparr>
      else if attr = ''[SSH2] Port'' then
        s\<lparr>sc_port := ucast (unwrap_or (parse_hex_or_decimal txt) 22)\<rparr>
      else if attr = ''Username'' then s\<lparr>sc_username := non_empty txt\<rparr>
      else if attr = ''Identity Filename V2'' then s\<lparr>sc_identity_file := non_empty txt\<rparr>
      else if attr = ''Firewall Name'' then s\<lparr>sc_firewall := non_empty txt\<rparr>
      else s)"

record scrt_state =
  st_sessions :: "scrt_session list"
  st_stack :: "string list"
  st_in_sessions :: bool
  st_current :: "scrt_session option"
  st_attr_name :: string
  st_tag_type :: string

definition scrt_start :: scrt_state where
  "scrt_start = \<lparr>st_sessions = [], st_stack = [], st_in_sessions = False, st_current = None,
     st_attr_name = [], st_tag_type = []\<rparr>"

definition finish_scrt :: "scrt_session option \<Rightarrow> scrt_session list" where
  "finish_scrt cur = (case cur of Some s \<Rightarrow> if sc_hostname s \<noteq> [] then [s] else [] | None \<Rightarrow> [])"

definition close_current :: "scrt_state \<Rightarrow> scrt_state" where
  "close_current st =
     st\<lparr>st_sessions := st_sessions st @ finish_scrt (st_current st), st_current := None\<rparr>"

definition on_start :: "string \<Rightarrow> xml_attrs \<Rightarrow> scrt_state \<Rightarrow> scrt_state" where
  "on_start tag attrs st =
     (if tag = ''key'' then
        (if \<not> st_in_sessions st then
           (if extract_name_attr attrs = Some ''Sessions'' then st\<lparr>st_in_sessions := True\<rparr> else st)
         else case extract_name_attr attrs of
             Some name \<Rightarrow>
               (close_current st)\<lparr>st_stack := st_stack st @ [name],
                  st_current := Some (new_scrt_session (st_stack st) name)\<rparr>
           | None \<Rightarrow> st)
      else if st_in_sessions st \<and> (tag = ''string'' \<or> tag = ''dword'') then
        st\<lparr>st_tag_type := tag, st_attr_name := unwrap_or (extract_name_attr attrs) []\<rparr>
      else st)"

definition on_text :: "string option \<Rightarrow> scrt_state \<Rightarrow> source_error + scrt_state" where
  "on_text txt st =
     (case st_current st of
        None \<Rightarrow> Inr st
      | Some s \<Rightarrow>
          (case txt of
             None \<Rightarrow> Inl Text_not_unescaped
           | Some t \<Rightarrow> Inr (st\<lparr>st_current := Some (set_scrt (st_attr_name st) t s)\<rparr>)))"

definition on_end :: "string \<Rightarrow> scrt_state \<Rightarrow> scrt_state" where
  "on_end tag st =
     (let st = (if tag = ''key'' \<and> st_in_sessions st then
                  (if st_stack st = [] then close_current (st\<lparr>st_in_sessions := False\<rparr>)
                   else (close_current st)\<lparr>st_stack := butlast (st_stack st)\<rparr>)
                else st)
      in if tag = ''string'' \<or> tag = ''dword'' then st\<lparr>st_attr_name := [], st_tag_type := []\<rparr>
         else st)"

text \<open>A self-closing element: a key is pushed and popped at once, which leaves the stack.\<close>

definition on_empty :: "string \<Rightarrow> xml_attrs \<Rightarrow> scrt_state \<Rightarrow> scrt_state" where
  "on_empty tag attrs st =
     (if tag = ''key'' \<and> st_in_sessions st then
        (case extract_name_attr attrs of
           Some name \<Rightarrow> st\<lparr>st_stack := butlast (st_stack st @ [name])\<rparr>
         | None \<Rightarrow> st)
      else st)"

fun scrt_loop :: "xml_event list \<Rightarrow> scrt_state \<Rightarrow> source_error + scrt_state" where
  "scrt_loop [] st = Inr st"
| "scrt_loop (Xml_eof # es) st = Inr st"
| "scrt_loop (Xml_error # es) st = Inl Xml_failed"
| "scrt_loop (Xml_other # es) st = scrt_loop es st"
| "scrt_loop (Xml_start tag attrs # es) st = scrt_loop es (on_start tag attrs st)"
| "scrt_loop (Xml_text txt # es) st = result_bind (on_text txt st) (scrt_loop es)"
| "scrt_loop (Xml_end tag # es) st = scrt_loop es (on_end tag st)"
| "scrt_loop (Xml_empty tag attrs # es) st = scrt_loop es (on_empty tag attrs st)"

definition scrt_sessions :: "xml_event list \<Rightarrow> source_error + scrt_session list" where
  "scrt_sessions es =
     result_bind (scrt_loop es scrt_start)
       (\<lambda>st. Inr (st_sessions st @ finish_scrt (st_current st)))"

definition scrt_bookmark :: "string option \<Rightarrow> string list \<Rightarrow> scrt_session \<Rightarrow> bookmark" where
  "scrt_bookmark env_override extra_tags s =
     (let name = sanitize_bookmark_name (sc_name s) in
      imported_bookmark name (sc_hostname s) (sc_username s) (sc_port s)
        (unwrap_or env_override
           (detect_env (in_folder name (join_with '' '' (sc_folder_path s))) (sc_hostname s)))
        (add_tags [''securecrt-import'']
          (add_tags (filter (\<lambda>f. f \<noteq> []) (sc_folder_path s)) extra_tags))
        (sc_identity_file s) (sc_firewall s)
        (Some (''Imported from SecureCRT session: '' @ sc_name s)))"

definition parse_securecrt_xml ::
    "(string \<Rightarrow> xml_event list) \<Rightarrow> string \<Rightarrow> string option \<Rightarrow> string list
      \<Rightarrow> source_error + bookmark list" where
  "parse_securecrt_xml reader content env_override extra_tags =
     result_bind (scrt_sessions (reader content)) (\<lambda>ss.
       Inr (map (scrt_bookmark env_override extra_tags)
         (filter (\<lambda>s. valid_host (sc_hostname s))
           (filter (\<lambda>s. sc_hostname s \<noteq> []) ss))))"

section \<open>CSV\<close>

text \<open>
  The CSV reader gives the header and, row by row, a record or a failure.  A byte order mark is no
  character of the model, so there is none to strip.
\<close>

type_synonym csv_reader = "string \<Rightarrow> (string list \<times> string list option list) option"

fun csv_col :: "string list \<Rightarrow> string list \<Rightarrow> nat option" where
  "csv_col headers [] = None"
| "csv_col headers (n # ns) =
     (case position (\<lambda>h. eq_ignore_ascii_case h n) headers of
        Some i \<Rightarrow> Some i
      | None \<Rightarrow> csv_col headers ns)"

definition csv_get :: "string list \<Rightarrow> nat option \<Rightarrow> string option" where
  "csv_get row idx = Option.bind (Option.bind idx (nth_opt row)) (\<lambda>s. non_empty (trim s))"

definition split_tags :: "string \<Rightarrow> string list" where
  "split_tags t = filter (\<lambda>s. s \<noteq> []) (map trim (split_on (CHR '','') t))"

definition csv_bookmark ::
    "string list \<Rightarrow> string option \<Rightarrow> string list \<Rightarrow> string list \<Rightarrow> string \<Rightarrow> string \<Rightarrow> bookmark" where
  "csv_bookmark headers env_override extra_tags row name host =
     (let field = (\<lambda>names. csv_get row (csv_col headers names));
          tags = (case field [''tags'', ''labels'', ''groups''] of
                    Some t \<Rightarrow> split_tags t | None \<Rightarrow> []) @ extra_tags
      in imported_bookmark name host (field [''user'', ''username'', ''login''])
           (case field [''port''] of Some p \<Rightarrow> unwrap_or (parse_u16 p) 22 | None \<Rightarrow> 22)
           (unwrap_or (option_or env_override (field [''env'', ''environment'', ''tier'']))
              (detect_env name host))
           (add_tags [''csv-import''] tags)
           (field [''identity_file'', ''key'', ''ssh_key'', ''keyfile''])
           (field [''proxy_jump'', ''jump_host'', ''bastion'', ''proxy''])
           (field [''notes'', ''description'', ''comment'']))"

text \<open>The body of the loop over the rows: \<open>None\<close> where it continues with the next row.\<close>

definition csv_row ::
    "string list \<Rightarrow> nat \<Rightarrow> nat \<Rightarrow> string option \<Rightarrow> string list \<Rightarrow> string list \<Rightarrow> bookmark option" where
  "csv_row headers name_col host_col env_override extra_tags row =
     (case (csv_get row (Some name_col), csv_get row (Some host_col)) of
        (Some n, Some host) \<Rightarrow>
          if valid_host host
          then Some (csv_bookmark headers env_override extra_tags row (sanitize_bookmark_name n) host)
          else None
      | _ \<Rightarrow> None)"

fun csv_rows ::
    "(string list \<Rightarrow> bookmark option) \<Rightarrow> nat \<Rightarrow> string list option list
      \<Rightarrow> source_error + bookmark list" where
  "csv_rows f i [] = Inr []"
| "csv_rows f i (None # rows) = Inl (Csv_row_failed (i + 2))"
| "csv_rows f i (Some row # rows) =
     result_bind (csv_rows f (i + 1) rows)
       (\<lambda>bs. Inr (case f row of Some b \<Rightarrow> b # bs | None \<Rightarrow> bs))"

definition parse_csv ::
    "csv_reader \<Rightarrow> string \<Rightarrow> string option \<Rightarrow> string list \<Rightarrow> source_error + bookmark list" where
  "parse_csv reader content env_override extra_tags =
     (if trim content = [] then Inl Nothing_to_import
      else case reader content of
          None \<Rightarrow> Inl Csv_failed
        | Some (headers, rows) \<Rightarrow>
            (case csv_col headers [''name''] of
               None \<Rightarrow> Inl No_name_column
             | Some name_col \<Rightarrow>
                 (case csv_col headers [''host'', ''hostname'', ''address'', ''ip''] of
                    None \<Rightarrow> Inl No_host_column
                  | Some host_col \<Rightarrow>
                      csv_rows (csv_row headers name_col host_col env_override extra_tags) 0 rows)))"

section \<open>JSON\<close>

record json_bookmark =
  jb_name :: string
  jb_host :: "string option"
  jb_hostname_alias :: "string option"
  jb_user :: "string option"
  jb_port :: "u16 option"
  jb_env :: "string option"
  jb_tags :: "string list"
  jb_identity_file :: "string option"
  jb_proxy_jump :: "string option"
  jb_notes :: "string option"

definition json_to_bookmark ::
    "string option \<Rightarrow> string list \<Rightarrow> json_bookmark \<Rightarrow> bookmark option" where
  "json_to_bookmark env_override extra_tags jb =
     (let name = sanitize_bookmark_name (jb_name jb) in
      if name = [] then None
      else case option_or (jb_host jb) (jb_hostname_alias jb) of
          None \<Rightarrow> None
        | Some host \<Rightarrow>
            if host = [] then None
            else if \<not> valid_host host then None
            else Some (imported_bookmark name host (jb_user jb) (unwrap_or (jb_port jb) 22)
                   (unwrap_or (option_or env_override (jb_env jb)) (detect_env name host))
                   (add_tags [''json-import''] (jb_tags jb @ extra_tags))
                   (jb_identity_file jb) (jb_proxy_jump jb) (jb_notes jb)))"

definition parse_json_bookmarks ::
    "(string \<Rightarrow> json_bookmark list option) \<Rightarrow> (string \<Rightarrow> json_bookmark list option) \<Rightarrow> string
      \<Rightarrow> string option \<Rightarrow> string list \<Rightarrow> source_error + bookmark list" where
  "parse_json_bookmarks from_array from_wrapper content env_override extra_tags =
     (let content = trim content in
      if content = [] then Inl Nothing_to_import
      else if starts_with ''['' content \<or> starts_with ''{'' content then
        result_bind (ok_or ((if starts_with ''['' content then from_array else from_wrapper) content)
            Json_failed)
          (\<lambda>jbs. Inr (List.map_filter (json_to_bookmark env_override extra_tags) jbs))
      else Inl Json_shape)"

section \<open>Tabby\<close>

record tabby_group =
  tg_id :: "string option"
  tg_name :: "string option"

record tabby_profile =
  tp_type :: "string option"
  tp_name :: "string option"
  tp_group :: "string option"
  tp_host :: "string option"
  tp_port :: "u16 option"
  tp_user :: "string option"
  tp_private_keys :: "string list option"
  tp_jump_host :: "string option"
  tp_id :: "string option"

record tabby_config =
  tc_profiles :: "tabby_profile list"
  tc_groups :: "tabby_group list"

text \<open>Collecting pairs into a \<open>HashMap\<close>: a later pair replaces an earlier one of its key.\<close>

definition collect_map :: "('a \<times> 'b) list \<Rightarrow> 'a \<rightharpoonup> 'b" where
  "collect_map ps = map_of (rev ps)"

definition tabby_group_entry :: "tabby_group \<Rightarrow> (string \<times> string) option" where
  "tabby_group_entry g =
     (case (tg_id g, tg_name g) of
        (Some i, Some n) \<Rightarrow> if n \<noteq> [] then Some (i, n) else None
      | _ \<Rightarrow> None)"

definition tabby_is_ssh :: "tabby_profile \<Rightarrow> bool" where
  "tabby_is_ssh p \<longleftrightarrow> tp_type p = Some ''ssh''
     \<and> (case tp_host p of Some host \<Rightarrow> valid_host host | None \<Rightarrow> False)"

definition tabby_id_entry :: "tabby_profile \<Rightarrow> (string \<times> string) option" where
  "tabby_id_entry p =
     (case (tp_id p, tp_name p) of (Some i, Some n) \<Rightarrow> Some (i, n) | _ \<Rightarrow> None)"

definition tabby_jump_entry :: "(string \<rightharpoonup> string) \<Rightarrow> tabby_profile \<Rightarrow> (string \<times> string) option" where
  "tabby_jump_entry id_to_name p =
     (case (tp_id p, tp_jump_host p) of
        (Some i, Some jump_id) \<Rightarrow>
          map_option (\<lambda>jump_name. (i, sanitize_bookmark_name jump_name)) (id_to_name jump_id)
      | _ \<Rightarrow> None)"

definition resolve_jump_hosts :: "tabby_profile list \<Rightarrow> string \<rightharpoonup> string" where
  "resolve_jump_hosts ps =
     collect_map (List.map_filter
       (tabby_jump_entry (collect_map (List.map_filter tabby_id_entry ps))) ps)"

definition strip_file_uri :: "string \<Rightarrow> string" where
  "strip_file_uri path =
     (case strip_prefix ''file:///'' path of
        Some rest \<Rightarrow>
          if starts_with ''/'' rest \<or> nth_opt rest 1 = Some (CHR '':'') then rest else ''/'' @ rest
      | None \<Rightarrow>
          (case strip_prefix ''file://'' path of Some rest \<Rightarrow> rest | None \<Rightarrow> path))"

definition tabby_bookmark ::
    "(string \<rightharpoonup> string) \<Rightarrow> (string \<rightharpoonup> string) \<Rightarrow> string option \<Rightarrow> string list \<Rightarrow> tabby_profile \<Rightarrow> bookmark"
    where
  "tabby_bookmark jump_map group_map env_override extra_tags p =
     (let raw_name = unwrap_or (tp_name p) ''unnamed'';
          name = sanitize_bookmark_name raw_name;
          host = unwrap_or (tp_host p) [];
          resolved_group = map_option (\<lambda>g. unwrap_or (group_map g) g) (tp_group p);
          detect_input = (case resolved_group of Some g \<Rightarrow> name @ '' '' @ g | None \<Rightarrow> name)
      in imported_bookmark name host (tp_user p) (unwrap_or (tp_port p) 22)
           (unwrap_or env_override (detect_env detect_input host))
           (add_tags [''tabby-import'']
             (case resolved_group of
                Some g \<Rightarrow> if g = [] then extra_tags else add_tags [g] extra_tags
              | None \<Rightarrow> extra_tags))
           (map_option strip_file_uri
             (Option.bind (tp_private_keys p) (\<lambda>ks. case ks of [] \<Rightarrow> None | k # _ \<Rightarrow> Some k)))
           (Option.bind (tp_id p) jump_map)
           (Some (''Imported from Tabby profile: '' @ raw_name)))"

definition parse_tabby_config ::
    "(string \<Rightarrow> tabby_config option) \<Rightarrow> string \<Rightarrow> string option \<Rightarrow> string list
      \<Rightarrow> source_error + bookmark list" where
  "parse_tabby_config from_yaml content env_override extra_tags =
     result_bind (ok_or (from_yaml content) Yaml_failed) (\<lambda>config.
       let group_map = collect_map (List.map_filter tabby_group_entry (tc_groups config));
           ssh_profiles = filter tabby_is_ssh (tc_profiles config)
       in if ssh_profiles = [] then Inr []
          else Inr (map (tabby_bookmark (resolve_jump_hosts ssh_profiles) group_map
                      env_override extra_tags) ssh_profiles))"

section \<open>The dispatch\<close>

datatype source_kind =
    Auto | Ssh_config | Sshore | Putty | Mobaxterm | Tabby | Securecrt | Csv | Json

record parsers =
  pa_files :: ssh_files
  pa_percent_decode :: "string \<Rightarrow> string"
  pa_toml :: "string \<Rightarrow> app_config option"
  pa_xml :: "string \<Rightarrow> xml_event list"
  pa_csv :: csv_reader
  pa_json_array :: "string \<Rightarrow> json_bookmark list option"
  pa_json_wrapper :: "string \<Rightarrow> json_bookmark list option"
  pa_yaml :: "string \<Rightarrow> tabby_config option"

definition read_file :: "parsers \<Rightarrow> string \<Rightarrow> source_error + string" where
  "read_file pa path = ok_or (map_of (sf_contents (pa_files pa)) path) (File_unreadable path)"

definition import_ssh :: "parsers \<Rightarrow> string \<Rightarrow> source_error + bookmark list" where
  "import_ssh pa path =
     (case parse_ssh_config (pa_files pa) path of Inl e \<Rightarrow> Inl (Ssh_failed e) | Inr bs \<Rightarrow> Inr bs)"

definition import_from_toml :: "parsers \<Rightarrow> string \<Rightarrow> source_error + bookmark list" where
  "import_from_toml pa content =
     result_bind (ok_or (pa_toml pa content) Toml_failed) (\<lambda>config. Inr (bookmarks config))"

definition is_sshore_toml :: "string \<Rightarrow> bool" where
  "is_sshore_toml content \<longleftrightarrow> split_once_str ''[[bookmarks]]'' content \<noteq> None"

definition import_from_file :: "parsers \<Rightarrow> string \<Rightarrow> source_error + bookmark list" where
  "import_from_file pa path =
     result_bind (read_file pa path) (\<lambda>content.
       if is_sshore_toml content then import_from_toml pa content else import_ssh pa path)"

text \<open>The parsers of the sources that read the whole file first.\<close>

definition parse_source ::
    "parsers \<Rightarrow> source_kind \<Rightarrow> string \<Rightarrow> string option \<Rightarrow> string list \<Rightarrow> source_error + bookmark list" where
  "parse_source pa kind content env_override extra_tags =
     (case kind of
        Putty \<Rightarrow> parse_putty_reg (pa_percent_decode pa) content env_override extra_tags
      | Mobaxterm \<Rightarrow> parse_mxtsessions content env_override extra_tags
      | Tabby \<Rightarrow> parse_tabby_config (pa_yaml pa) content env_override extra_tags
      | Securecrt \<Rightarrow> parse_securecrt_xml (pa_xml pa) content env_override extra_tags
      | Csv \<Rightarrow> parse_csv (pa_csv pa) content env_override extra_tags
      | Json \<Rightarrow> parse_json_bookmarks (pa_json_array pa) (pa_json_wrapper pa) content env_override extra_tags
      | _ \<Rightarrow> import_from_toml pa content)"

definition import_from_source ::
    "parsers \<Rightarrow> string \<Rightarrow> source_kind \<Rightarrow> string option \<Rightarrow> string list \<Rightarrow> source_error + bookmark list" where
  "import_from_source pa path kind env_override extra_tags =
     (if kind = Auto then import_from_file pa path
      else if kind = Ssh_config then import_ssh pa path
      else result_bind (read_file pa path)
             (\<lambda>content. parse_source pa kind content env_override extra_tags))"

section \<open>The import command\<close>

text \<open>
  \<open>cmd_import\<close> with a file, and \<open>finish_import\<close>: \<open>Inl\<close> an error, otherwise the imported
  bookmarks.  A dry run reads the configuration and writes nothing.
\<close>

datatype import_failure = Source_failed source_error | Config_failed config_error

definition is_passthrough :: "source_kind \<Rightarrow> bool" where
  "is_passthrough kind \<longleftrightarrow> kind = Auto \<or> kind = Ssh_config \<or> kind = Sshore"

definition finish_import ::
    "'t io_env \<Rightarrow> bookmark list \<Rightarrow> bool \<Rightarrow> bool \<Rightarrow> 't store
      \<Rightarrow> (import_failure + bookmark list) \<times> 't store" where
  "finish_import env imported overwrite dry_run st =
     (case load_from env st of
        (Inl e, st') \<Rightarrow> (Inl (Config_failed e), st')
      | (Inr c, st') \<Rightarrow>
          if dry_run then (Inr [], st')
          else
            let (bs, r) = merge_imports (bookmarks c) imported overwrite in
            (case save_to env (c\<lparr>bookmarks := bs\<rparr>) st' of
               (Inl e, st'') \<Rightarrow> (Inl (Config_failed e), st'')
             | (Inr _, st'') \<Rightarrow> (Inr (ir_imported r), st'')))"

definition cmd_import ::
    "parsers \<Rightarrow> 't io_env \<Rightarrow> string \<Rightarrow> source_kind \<Rightarrow> string option \<Rightarrow> string list \<Rightarrow> bool \<Rightarrow> bool
      \<Rightarrow> 't store \<Rightarrow> (import_failure + bookmark list) \<times> 't store" where
  "cmd_import pa env path kind env_override extra_tags overwrite dry_run st =
     (case import_from_source pa path kind env_override extra_tags of
        Inl e \<Rightarrow> (Inl (Source_failed e), st)
      | Inr bs \<Rightarrow>
          finish_import env (apply_overrides env_override extra_tags (is_passthrough kind) bs)
            overwrite dry_run st)"

end
