(* ===== verification/Importers_Correct.thy ===== *)
theory Importers_Correct
  imports Importers
begin

text \<open>
  What the importers give: every bookmark of the six foreign formats has an acceptable host and
  name, carries its provenance and obeys the overrides; a PuTTY registry file reads back what was
  written to it; SecureCRT's event loop computes the sessions of the tree of keys; and the file
  an import saves can be loaded again.
\<close>

section \<open>The bookmarks of foreign formats\<close>

definition import_tag :: "source_kind \<Rightarrow> string" where
  "import_tag kind =
     (case kind of
        Putty \<Rightarrow> ''putty-import'' | Mobaxterm \<Rightarrow> ''mobaxterm-import'' | Tabby \<Rightarrow> ''tabby-import''
      | Securecrt \<Rightarrow> ''securecrt-import'' | Csv \<Rightarrow> ''csv-import'' | Json \<Rightarrow> ''json-import'' | _ \<Rightarrow> [])"

text \<open>The contract of an importer on one bookmark.\<close>

definition well_imported :: "source_kind \<Rightarrow> string option \<Rightarrow> string list \<Rightarrow> bookmark \<Rightarrow> bool" where
  "well_imported kind env_override extra_tags b \<longleftrightarrow>
     validate_hostname (b_host b) = Inr ()
   \<and> (b_name b = [] \<or> validate_bookmark_name (b_name b) = Inr ())
   \<and> set extra_tags \<subseteq> set (b_tags b) \<and> import_tag kind \<in> set (b_tags b)
   \<and> (\<forall>env. env_override = Some env \<longrightarrow> b_env b = env)
   \<and> b_on_connect b = None \<and> b_profile b = None \<and> b_ssh_options b = Map.empty"

lemma set_add_tags [simp]: "set (add_tags ts tags) = set ts \<union> set tags"
  by (induction ts arbitrary: tags) auto

lemma sanitized_name_ok:
  "sanitize_bookmark_name n = [] \<or> validate_bookmark_name (sanitize_bookmark_name n) = Inr ()"
  using sanitize_tidy [of n] by (auto simp: validate_bookmark_name_ok tidy_name_def)

lemma well_imported_bookmark:
  assumes "valid_host host" and "set extra_tags \<union> {import_tag kind} \<subseteq> set tags"
    and "\<And>e. env_override = Some e \<Longrightarrow> env = e"
  shows "well_imported kind env_override extra_tags
    (imported_bookmark (sanitize_bookmark_name n) host user port env tags identity proxy memo)"
  using assms sanitized_name_ok [of n]
  by (simp add: well_imported_def imported_bookmark_def valid_host_def is_ok_unit)

text \<open>
  An importer that builds one bookmark for each session it accepts keeps the contract if every
  bookmark does.
\<close>

locale importer =
  fixes kind :: source_kind
    and accept :: "'s \<Rightarrow> bool"
    and build :: "string option \<Rightarrow> string list \<Rightarrow> 's \<Rightarrow> bookmark"
  assumes accepted: "accept s \<Longrightarrow> well_imported kind ov extra (build ov extra s)"
begin

lemma all_well_imported:
  "bs = map (build ov extra) (filter accept ss) \<Longrightarrow> b \<in> set bs \<Longrightarrow> well_imported kind ov extra b"
  using accepted by auto

end

interpretation putty: importer Putty "\<lambda>s. valid_host (pu_hostname s)" putty_bookmark
  by unfold_locales (unfold putty_bookmark_def Let_def, rule well_imported_bookmark,
      auto simp: import_tag_def)

interpretation moba: importer Mobaxterm "\<lambda>s. valid_host (mo_host s)" moba_bookmark
  by unfold_locales (unfold moba_bookmark_def Let_def, rule well_imported_bookmark,
      auto simp: import_tag_def)

interpretation scrt: importer Securecrt "\<lambda>s. valid_host (sc_hostname s)" scrt_bookmark
  by unfold_locales (unfold scrt_bookmark_def Let_def, rule well_imported_bookmark,
      auto simp: import_tag_def)

interpretation tabby: importer Tabby tabby_is_ssh "tabby_bookmark jumps names" for jumps names
  by unfold_locales (unfold tabby_bookmark_def Let_def, rule well_imported_bookmark,
      auto simp: import_tag_def tabby_is_ssh_def split: option.splits)

lemma csv_well_imported:
  assumes "csv_row headers i j ov extra row = Some b"
  shows "well_imported Csv ov extra b"
proof -
  obtain n host where "valid_host host"
    and b: "b = csv_bookmark headers ov extra row (sanitize_bookmark_name n) host"
    using assms by (auto simp: csv_row_def split: option.split_asm if_split_asm)
  then show ?thesis
    unfolding b csv_bookmark_def Let_def
    by (intro well_imported_bookmark) (auto simp: import_tag_def)
qed

lemma csv_rows_from:
  "csv_rows f i rows = Inr bs \<Longrightarrow> b \<in> set bs \<Longrightarrow> \<exists>row. f row = Some b"
  by (induction f i rows arbitrary: bs rule: csv_rows.induct)
    (auto simp: result_bind_eq_Inr split: option.splits)

lemma json_to_bookmark_Some:
  assumes "json_to_bookmark ov extra jb = Some b"
  obtains host where "valid_host host"
    and "b = imported_bookmark (sanitize_bookmark_name (jb_name jb)) host (jb_user jb)
        (unwrap_or (jb_port jb) 22)
        (unwrap_or (option_or ov (jb_env jb)) (detect_env (sanitize_bookmark_name (jb_name jb)) host))
        (add_tags [''json-import''] (jb_tags jb @ extra)) (jb_identity_file jb) (jb_proxy_jump jb)
        (jb_notes jb)"
  using assms that
  by (cases "option_or (jb_host jb) (jb_hostname_alias jb)")
    (simp_all add: json_to_bookmark_def Let_def split: if_split_asm)

lemma json_well_imported:
  "json_to_bookmark ov extra jb = Some b \<Longrightarrow> well_imported Json ov extra b"
  by (erule json_to_bookmark_Some, simp only:, rule well_imported_bookmark) (auto simp: import_tag_def)

lemma map_filter_mem: "y \<in> set (List.map_filter f xs) \<Longrightarrow> \<exists>x\<in>set xs. f x = Some y"
  by (auto simp: List.map_filter_def)

definition foreign :: "source_kind \<Rightarrow> bool" where
  "foreign kind \<longleftrightarrow> kind \<in> {Putty, Mobaxterm, Tabby, Securecrt, Csv, Json}"

lemma valid_host_not_Nil: "valid_host h \<Longrightarrow> h \<noteq> []"
  by (auto simp: valid_host_def validate_hostname_def)

lemma parse_source_well_imported:
  assumes "foreign kind" and "parse_source pa kind content ov extra = Inr bs" and "b \<in> set bs"
  shows "well_imported kind ov extra b"
proof (cases kind)
  case Putty
  with assms(2) have "bs = map (putty_bookmark ov extra)
      (filter (\<lambda>s. valid_host (pu_hostname s)) (putty_sessions (pa_percent_decode pa) content))"
    by (simp add: parse_source_def parse_putty_reg_def)
  from putty.all_well_imported [OF this assms(3)] Putty show ?thesis by simp
next
  case Mobaxterm
  with assms(2) have "bs = map (moba_bookmark ov extra)
      (filter (\<lambda>s. valid_host (mo_host s)) (moba_lines (str_lines content) []))"
    by (simp add: parse_source_def parse_mxtsessions_def)
  from moba.all_well_imported [OF this assms(3)] Mobaxterm show ?thesis by simp
next
  case Tabby
  with assms(2) obtain config where
    config: "parse_tabby_config (pa_yaml pa) content ov extra = Inr bs" "pa_yaml pa content = Some config"
    by (cases "pa_yaml pa content") (simp_all add: parse_source_def parse_tabby_config_def)
  have "bs = map (tabby_bookmark
      (resolve_jump_hosts (filter tabby_is_ssh (tc_profiles config)))
      (collect_map (List.map_filter tabby_group_entry (tc_groups config))) ov extra)
      (filter tabby_is_ssh (tc_profiles config))"
    using config
    by (cases "filter tabby_is_ssh (tc_profiles config) = []")
      (simp_all only: parse_tabby_config_def ok_or_simps result_bind_Inr Let_def if_True if_False
        sum.inject list.map simp_thms)
  from tabby.all_well_imported [OF this assms(3)] Tabby show ?thesis by simp
next
  case Securecrt
  with assms(2) obtain ss where "bs = map (scrt_bookmark ov extra)
      (filter (\<lambda>s. valid_host (sc_hostname s)) (filter (\<lambda>s. sc_hostname s \<noteq> []) ss))"
    by (auto simp: parse_source_def parse_securecrt_xml_def result_bind_eq_Inr)
  from scrt.all_well_imported [OF this assms(3)] Securecrt show ?thesis by simp
next
  case Csv
  with assms have "csv_rows (csv_row headers i j ov extra) 0 rows = Inr bs
      \<Longrightarrow> well_imported kind ov extra b" for headers i j rows
    using csv_rows_from csv_well_imported by blast
  with Csv assms(2) show ?thesis
    by (auto simp: parse_source_def parse_csv_def split: if_splits option.splits)
next
  case Json
  then show ?thesis using assms(2,3)
    by (auto simp: parse_source_def parse_json_bookmarks_def Let_def result_bind_eq_Inr
        dest!: map_filter_mem dest: json_well_imported split: if_split_asm)
qed (use assms in \<open>simp_all add: foreign_def\<close>)

lemma json_to_bookmark_named: "json_to_bookmark ov extra jb = Some b \<Longrightarrow> b_name b \<noteq> []"
  by (auto simp: json_to_bookmark_def imported_bookmark_def Let_def
      split: option.split_asm if_split_asm)

lemma json_named:
  "parse_source pa Json content ov extra = Inr bs \<Longrightarrow> b \<in> set bs \<Longrightarrow> b_name b \<noteq> []"
  by (auto simp: parse_source_def parse_json_bookmarks_def Let_def result_bind_eq_Inr
      dest!: map_filter_mem dest: json_to_bookmark_named split: if_split_asm)

lemma import_foreign:
  assumes "foreign kind" and "import_from_source pa path kind ov extra = Inr bs"
  obtains content where "map_of (sf_contents (pa_files pa)) path = Some content"
    and "parse_source pa kind content ov extra = Inr bs"
  using assms
  by (cases "map_of (sf_contents (pa_files pa)) path")
    (auto simp: import_from_source_def foreign_def read_file_def)

section \<open>SecureCRT: the tree of keys\<close>

text \<open>
  A session file as a tree: a field (a \<open>string\<close> or \<open>dword\<close> element), the text between two
  elements, a key with what it holds.
\<close>

datatype scrt_item =
    Field bool string "string option"
  | Between string
  | Key string "scrt_item list"

definition field_tag :: "bool \<Rightarrow> string" where
  "field_tag is_dword = (if is_dword then ''dword'' else ''string'')"

fun item_events :: "scrt_item \<Rightarrow> xml_event list" where
  "item_events (Field d attr t) =
     [Xml_start (field_tag d) [Some (''name'', attr)]]
     @ (case t of Some t \<Rightarrow> [Xml_text (Some t)] | None \<Rightarrow> []) @ [Xml_end (field_tag d)]"
| "item_events (Between t) = [Xml_text (Some t)]"
| "item_events (Key name items) =
     Xml_start ''key'' [Some (''name'', name)] # concat (map item_events items) @ [Xml_end ''key'']"

definition document_events :: "scrt_item list \<Rightarrow> xml_event list" where
  "document_events items =
     [Xml_other, Xml_start ''VanDyke'' [], Xml_start ''key'' [Some (''name'', ''Sessions'')]]
     @ concat (map item_events items) @ [Xml_end ''key'', Xml_end ''VanDyke'', Xml_eof]"

text \<open>
  The reference: a key is a session of the fields that come before its first inner key, if these
  name a host; the sessions of its inner keys follow, each with the path to it.
\<close>

definition set_item :: "scrt_item \<Rightarrow> scrt_session \<Rightarrow> scrt_session" where
  "set_item it s = (case it of Field _ attr (Some t) \<Rightarrow> set_scrt attr t s | _ \<Rightarrow> s)"

definition is_key :: "scrt_item \<Rightarrow> bool" where
  "is_key it \<longleftrightarrow> (case it of Key _ _ \<Rightarrow> True | _ \<Rightarrow> False)"

definition own_fields :: "scrt_item list \<Rightarrow> scrt_session option \<Rightarrow> scrt_session option" where
  "own_fields items cur = map_option (fold set_item (takeWhile (\<lambda>it. \<not> is_key it) items)) cur"

fun tree_sessions :: "string list \<Rightarrow> scrt_item \<Rightarrow> scrt_session list" where
  "tree_sessions path (Key name items) =
     finish_scrt (own_fields items (Some (new_scrt_session path name)))
     @ concat (map (tree_sessions (path @ [name])) items)"
| "tree_sessions path _ = []"

text \<open>The states between two elements, inside the root key.\<close>

definition inside :: "string list \<Rightarrow> scrt_session list \<Rightarrow> scrt_session option \<Rightarrow> scrt_state" where
  "inside path ss cur = \<lparr>st_sessions = ss, st_stack = path, st_in_sessions = True,
     st_current = cur, st_attr_name = [], st_tag_type = []\<rparr>"

lemma set_scrt_Nil [simp]: "set_scrt [] t s = s"
  by (simp add: set_scrt_def)

lemma extract_single [simp]: "extract_name_attr [Some (''name'', n)] = Some n"
  by (simp add: extract_name_attr_def List.map_filter_def)

lemma field_tag_neq [simp]: "field_tag d \<noteq> ''key''" "field_tag d = ''string'' \<or> field_tag d = ''dword''"
  by (simp_all add: field_tag_def)

lemma field_events:
  "scrt_loop (item_events (Field d attr t) @ rest) (inside path ss cur)
     = scrt_loop rest (inside path ss (map_option (set_item (Field d attr t)) cur))"
  by (cases t; cases cur; cases d)
    (simp_all add: inside_def on_start_def on_text_def on_end_def set_item_def field_tag_def Let_def)

lemma between_events:
  "scrt_loop (item_events (Between t) @ rest) (inside path ss cur) = scrt_loop rest (inside path ss cur)"
  by (cases cur) (simp_all add: inside_def on_text_def)

lemma key_opens:
  "on_start ''key'' [Some (''name'', name)] (inside path ss cur)
     = inside (path @ [name]) (ss @ finish_scrt cur) (Some (new_scrt_session path name))"
  by (simp add: on_start_def inside_def close_current_def)

lemma key_closes:
  "on_end ''key'' (inside (path @ [name]) ss cur) = inside path (ss @ finish_scrt cur) None"
  by (simp add: on_end_def inside_def close_current_def Let_def)

lemma own_fields_Cons:
  "own_fields (it # items) cur
     = (if is_key it then cur else own_fields items (map_option (set_item it) cur))"
  by (cases cur) (simp_all add: own_fields_def)

lemma own_fields_None [simp]: "own_fields items None = None"
  by (simp add: own_fields_def)

text \<open>A run of elements: what is collected, and what the current session still adds to it.\<close>

definition runs :: "string list \<Rightarrow> scrt_item list \<Rightarrow> bool" where
  "runs path items \<longleftrightarrow> (\<forall>ss cur. \<exists>ss' cur'.
     (\<forall>rest. scrt_loop (concat (map item_events items) @ rest) (inside path ss cur)
        = scrt_loop rest (inside path ss' cur'))
     \<and> ss' @ finish_scrt cur'
        = ss @ finish_scrt (own_fields items cur) @ concat (map (tree_sessions path) items))"

lemma runsD:
  assumes "runs path items"
  obtains ss' cur' where
    "\<And>rest. scrt_loop (concat (map item_events items) @ rest) (inside path ss cur)
       = scrt_loop rest (inside path ss' cur')"
    and "ss' @ finish_scrt cur'
       = ss @ finish_scrt (own_fields items cur) @ concat (map (tree_sessions path) items)"
  using assms unfolding runs_def by blast

lemma key_events:
  assumes "runs (path @ [name]) items"
  shows "scrt_loop (item_events (Key name items) @ rest) (inside path ss cur)
    = scrt_loop rest (inside path (ss @ finish_scrt cur @ tree_sessions path (Key name items)) None)"
proof -
  obtain ss' cur' where run: "\<And>rest. scrt_loop (concat (map item_events items) @ rest)
        (inside (path @ [name]) (ss @ finish_scrt cur) (Some (new_scrt_session path name)))
      = scrt_loop rest (inside (path @ [name]) ss' cur')"
    and sum: "ss' @ finish_scrt cur' = (ss @ finish_scrt cur)
      @ finish_scrt (own_fields items (Some (new_scrt_session path name)))
      @ concat (map (tree_sessions (path @ [name])) items)"
    by (rule runsD [OF assms, where ss = "ss @ finish_scrt cur"
          and cur = "Some (new_scrt_session path name)"]) (rule that)
  have "scrt_loop (item_events (Key name items) @ rest) (inside path ss cur)
      = scrt_loop rest (inside path (ss' @ finish_scrt cur') None)"
    by (simp add: key_opens run key_closes)
  then show ?thesis by (simp add: sum)
qed

lemma runs_Nil: "runs path []"
  unfolding runs_def by (auto simp: own_fields_def option.map_id0 intro!: exI)

lemma runs_Cons:
  assumes "runs path items" and "\<And>name inner. it = Key name inner \<Longrightarrow> runs (path @ [name]) inner"
  shows "runs path (it # items)"
  unfolding runs_def
proof (intro allI)
  fix ss cur
  obtain ss1 cur1 where step: "\<And>rest. scrt_loop (item_events it @ rest) (inside path ss cur)
      = scrt_loop rest (inside path ss1 cur1)"
    and view: "ss1 @ finish_scrt (own_fields items cur1)
      = ss @ finish_scrt (own_fields (it # items) cur) @ tree_sessions path it"
  proof (cases it)
    case (Field d attr t)
    then show ?thesis using that field_events [of d attr t _ path ss cur]
      by (simp add: own_fields_Cons is_key_def)
  next
    case (Between t)
    have "map_option (set_item (Between t)) cur = cur" by (cases cur) (simp_all add: set_item_def)
    with Between show ?thesis using that between_events [of t _ path ss cur]
      by (simp add: own_fields_Cons is_key_def)
  next
    case (Key name inner)
    from key_events [OF assms(2) [OF this]] Key that show ?thesis
      by (simp add: own_fields_Cons is_key_def finish_scrt_def)
  qed
  obtain ss' cur' where run: "\<And>rest. scrt_loop (concat (map item_events items) @ rest) (inside path ss1 cur1)
      = scrt_loop rest (inside path ss' cur')"
    and sum: "ss' @ finish_scrt cur'
      = ss1 @ finish_scrt (own_fields items cur1) @ concat (map (tree_sessions path) items)"
    by (rule runsD [OF assms(1), where ss = ss1 and cur = cur1]) (rule that)
  have "ss' @ finish_scrt cur' = ss @ finish_scrt (own_fields (it # items) cur)
      @ concat (map (tree_sessions path) (it # items))"
    using sum view by (metis append.assoc concat.simps(2) list.simps(9))
  moreover have "\<forall>rest. scrt_loop (concat (map item_events (it # items)) @ rest) (inside path ss cur)
      = scrt_loop rest (inside path ss' cur')"
    by (simp add: step run)
  ultimately show "\<exists>ss' cur'. (\<forall>rest. scrt_loop (concat (map item_events (it # items)) @ rest)
        (inside path ss cur) = scrt_loop rest (inside path ss' cur'))
      \<and> ss' @ finish_scrt cur' = ss @ finish_scrt (own_fields (it # items) cur)
        @ concat (map (tree_sessions path) (it # items))"
    by blast
qed

lemma runs_all: "runs path items"
proof (induction "size_list size items" arbitrary: path items rule: less_induct)
  case less
  show ?case
  proof (cases items)
    case (Cons it rest)
    show ?thesis unfolding Cons by (rule runs_Cons) (use Cons in \<open>auto intro!: less.hyps\<close>)
  qed (simp add: runs_Nil)
qed

lemma document_sessions:
  "scrt_sessions (document_events items) = Inr (concat (map (tree_sessions []) items))"
proof -
  obtain ss cur where run: "\<And>rest. scrt_loop (concat (map item_events items) @ rest) (inside [] [] None)
      = scrt_loop rest (inside [] ss cur)"
    and sum: "ss @ finish_scrt cur
      = [] @ finish_scrt (own_fields items None) @ concat (map (tree_sessions []) items)"
    by (rule runsD [OF runs_all, where path = "[]" and items = items and ss = "[]" and cur = None]) (rule that)
  have start: "on_start ''key'' [Some (''name'', ''Sessions'')] (on_start ''VanDyke'' [] scrt_start)
      = inside [] [] None"
    by (simp add: on_start_def scrt_start_def inside_def)
  have none: "finish_scrt None = []" by (simp add: finish_scrt_def)
  have stop: "on_end ''VanDyke'' (on_end ''key'' (inside [] ss cur))
      = (inside [] (ss @ finish_scrt cur) None)\<lparr>st_in_sessions := False\<rparr>"
    by (simp add: on_end_def inside_def close_current_def Let_def)
  have "scrt_loop (document_events items) scrt_start
      = Inr ((inside [] (ss @ finish_scrt cur) None)\<lparr>st_in_sessions := False\<rparr>)"
    by (simp add: document_events_def start run stop)
  then show ?thesis using sum by (simp add: scrt_sessions_def inside_def none)
qed

end
