(* ===== verification/Putty_Roundtrip.thy ===== *)
theory Putty_Roundtrip
  imports Importers_Correct
begin

text \<open>
  A PuTTY registry file reads back what it was written from: the file as \<open>regedit\<close> exports it,
  its lines, the escaped texts and the dwords, and the round trip through the importer.
\<close>

section \<open>The exported file\<close>

text \<open>Eight hexadecimal digits of a dword; a text with its backslashes doubled.\<close>

definition hex_char :: "nat \<Rightarrow> char" where
  "hex_char d = char_of (if d < 10 then 48 + d else 87 + d)"

fun hex_text :: "nat \<Rightarrow> nat \<Rightarrow> string" where
  "hex_text 0 n = []"
| "hex_text (Suc w) n = hex_text w (n div 16) @ [hex_char (n mod 16)]"

definition escape_backslashes :: "string \<Rightarrow> string" where
  "escape_backslashes s = concat (map (\<lambda>c. if c = backslash then [backslash, backslash] else [c]) s)"

definition reg_line :: "string \<Rightarrow> string \<Rightarrow> string" where
  "reg_line key value = dquote # key @ dquote # ''='' @ value"

definition reg_text :: "string \<Rightarrow> string" where
  "reg_text v = dquote # escape_backslashes v @ [dquote]"

definition reg_dword :: "u16 \<Rightarrow> string" where
  "reg_dword p = ''dword:'' @ hex_text 8 (unat p)"

definition windows_path :: "string \<Rightarrow> string" where
  "windows_path p = map (\<lambda>c. if c = CHR ''/'' then backslash else c) p"

definition header_line :: "string \<Rightarrow> string" where
  "header_line name =
     ''[HKEY_CURRENT_USER'' @ [backslash] @ ''Software'' @ [backslash] @ ''SimonTatham'' @ [backslash]
       @ ''PuTTY'' @ SESSIONS_KEY @ name @ '']''"

definition session_keys :: "putty_session \<Rightarrow> (string \<times> string) list" where
  "session_keys s =
     [(''HostName'', reg_text (pu_hostname s)),
      (''Protocol'', reg_text (pu_protocol s)),
      (''PortNumber'', reg_dword (pu_port s)),
      (''UserName'', reg_text (unwrap_or (pu_username s) [])),
      (''PublicKeyFile'', reg_text (windows_path (unwrap_or (pu_identity_file s) []))),
      (''ProxyHost'', reg_text (unwrap_or (pu_proxy_host s) [])),
      (''ProxyUsername'', reg_text (unwrap_or (pu_proxy_username s) []))]
     @ (case pu_proxy_port s of Some p \<Rightarrow> [(''ProxyPort'', reg_dword p)] | None \<Rightarrow> [])"

definition session_lines :: "(string \<Rightarrow> string) \<Rightarrow> putty_session \<Rightarrow> string list" where
  "session_lines encode s =
     header_line (encode (pu_name s)) # map (\<lambda>(k, v). reg_line k v) (session_keys s) @ [[]]"

definition file_of_lines :: "string list \<Rightarrow> string" where
  "file_of_lines ls = concat (map (\<lambda>l. l @ [CHR 0x0A]) ls)"

definition registry_file :: "(string \<Rightarrow> string) \<Rightarrow> putty_session list \<Rightarrow> string" where
  "registry_file encode ss =
     file_of_lines (''Windows Registry Editor Version 5.00'' # [] # concat (map (session_lines encode) ss))"

text \<open>Values on one line without quotes; a key file with slashes; nothing set to the empty text.\<close>

definition one_line :: "string \<Rightarrow> bool" where
  "one_line v \<longleftrightarrow> CHR 0x0A \<notin> set v \<and> dquote \<notin> set v"

definition option_ok :: "string option \<Rightarrow> bool" where
  "option_ok v \<longleftrightarrow> v \<noteq> Some [] \<and> one_line (unwrap_or v [])"

definition exportable :: "(string \<Rightarrow> string) \<Rightarrow> (string \<Rightarrow> string) \<Rightarrow> putty_session \<Rightarrow> bool" where
  "exportable encode decode s \<longleftrightarrow>
     decode (encode (pu_name s)) = pu_name s
   \<and> one_line (encode (pu_name s)) \<and> backslash \<notin> set (encode (pu_name s))
   \<and> pu_hostname s \<noteq> [] \<and> one_line (pu_hostname s) \<and> pu_protocol s = ''ssh''
   \<and> option_ok (pu_username s) \<and> option_ok (pu_proxy_host s) \<and> option_ok (pu_proxy_username s)
   \<and> option_ok (pu_identity_file s) \<and> backslash \<notin> set (unwrap_or (pu_identity_file s) [])"

section \<open>Texts and dwords\<close>

lemma unescape: "length s \<le> n \<Longrightarrow>
  str_replace n [backslash, backslash] [backslash] (escape_backslashes s) = s"
proof (induction s arbitrary: n)
  case Nil
  show ?case by (cases n) (simp_all add: escape_backslashes_def)
next
  case (Cons c s)
  then obtain m where n: "n = Suc m" and "length s \<le> m" by (cases n) auto
  with Cons.IH [of m] show ?case by (simp add: escape_backslashes_def n)
qed

lemma length_escape: "length s \<le> length (escape_backslashes s)"
  by (induction s) (simp_all add: escape_backslashes_def)

lemma str_len_append: "str_len (a @ b) = str_len a + str_len b"
  by (simp add: str_len_def)

lemma reg_value_text: "reg_value (reg_text v) = v"
proof -
  let ?v = "dquote # escape_backslashes v @ [dquote]"
  have "starts_with [dquote] ?v" by (simp add: starts_with_iff)
  moreover have "ends_with [dquote] ?v"
    unfolding ends_with_def using strip_suffix_Some_iff [of "[dquote]" ?v "butlast ?v"] by simp
  moreover have "2 \<le> str_len ?v" by (simp add: str_len_def utf8_len_def code_def)
  moreover have "\<not> starts_with ''dword:'' ?v" by (simp add: starts_with_iff)
  moreover have "str_replace (length ?v) [backslash, backslash] [backslash] (butlast (tl ?v)) = v"
    using unescape [of v "length ?v"] length_escape [of v] by simp
  ultimately show ?thesis by (simp only: reg_value_def reg_text_def) simp
qed

lemma reg_value_dword: "reg_value (reg_dword p) = reg_dword p"
  by (simp add: reg_value_def reg_dword_def starts_with_def)

lemma hex_digit_char: "d < 16 \<Longrightarrow> hex_digit_value (hex_char d) = Some d"
  by (auto simp: hex_digit_value_def hex_char_def is_ascii_digit_def code_def)

lemma hex_value_snoc: "hex_value n s = Some m \<Longrightarrow> d < 16 \<Longrightarrow>
  hex_value n (s @ [hex_char d]) = Some (m * 16 + d)"
  by (induction n s rule: hex_value.induct) (auto simp: hex_digit_char split: option.splits)

lemma hex_value_text: "hex_value 0 (hex_text w n) = Some (n mod 16 ^ w)"
proof (induction w arbitrary: n)
  case (Suc w)
  have "n mod 16 ^ Suc w = n div 16 mod 16 ^ w * 16 + n mod 16"
    by (simp add: mod_mult2_eq)
  with hex_value_snoc [OF Suc.IH, of "n mod 16" "n div 16"] show ?case by simp
qed simp

lemma hex_text_chars: "c \<in> set (hex_text w n) \<Longrightarrow> \<exists>d<16. c = hex_char d"
proof (induction w arbitrary: n)
  case (Suc w)
  then have "c \<in> set (hex_text w (n div 16)) \<or> c = hex_char (n mod 16)" by auto
  moreover have "n mod 16 < 16" by simp
  ultimately show ?case using Suc.IH [of "n div 16"] by blast
qed simp

lemma hex_char_plain: "d < 16 \<Longrightarrow> hex_char d \<noteq> CHR ''+'' \<and> \<not> is_whitespace (hex_char d)
    \<and> hex_char d \<noteq> CHR 0x0A \<and> hex_char d \<noteq> CHR 0x0D"
proof -
  assume d: "d < 16"
  then have "code (hex_char d) = (if d < 10 then 48 + d else 87 + d)"
    by (simp add: hex_char_def code_def)
  then have "48 \<le> code (hex_char d) \<and> code (hex_char d) \<le> 102" using d by simp
  then show ?thesis by (auto simp: is_whitespace_def code_def)
qed

lemma hex_text_8: "hex_text 8 n = hex_text 7 (n div 16) @ [hex_char (n mod 16)]"
  using hex_text.simps(2) [of 7 n] by simp

lemma parse_dword_text: "map_option ucast (parse_dword (reg_dword p)) = Some p"
proof -
  obtain c cs where digits: "hex_text 8 (unat p) = c # cs"
    by (cases "hex_text 8 (unat p)") (simp_all add: hex_text_8)
  have "c \<noteq> CHR ''+''"
    using hex_text_chars [of c 8 "unat p"] hex_char_plain by (auto simp: digits)
  moreover have "hex_value 0 (c # cs) = Some (unat p)"
    using hex_value_text [of 8 "unat p"] unat_u16_less [of p] by (simp add: digits)
  moreover have "unat p < 4294967296" using unat_u16_less [of p] by linarith
  ultimately have "parse_dword (reg_dword p) = Some (word_of_nat (unat p))"
    by (simp add: parse_dword_def reg_dword_def parse_hex_u32_def digits)
  moreover have "ucast (word_of_nat (unat p) :: u32) = p"
    by (rule word_unat_eq_iff [THEN iffD2])
      (simp add: unsigned_ucast_eq unsigned_of_nat take_bit_word_eq_self)
  ultimately show ?thesis by simp
qed

section \<open>Lines\<close>

lemma str_lines_file:
  "\<forall>l\<in>set ls. CHR 0x0A \<notin> set l \<and> (l = [] \<or> last l \<noteq> CHR 0x0D) \<Longrightarrow> str_lines (file_of_lines ls) = ls"
proof (induction ls rule: rev_induct)
  case Nil
  show ?case by (simp add: file_of_lines_def str_lines_def split_on_def)
next
  case (snoc l ls)
  have "file_of_lines ls = [] \<or> last (file_of_lines ls) = CHR 0x0A"
    by (cases ls rule: rev_cases) (simp_all add: file_of_lines_def)
  from str_lines_append_line [OF this, of l] snoc show ?case
    by (simp add: file_of_lines_def)
qed

lemma parse_reg_line_line:
  "dquote \<notin> set key \<Longrightarrow> parse_reg_line (reg_line key v) = Some (key, reg_value v)"
  by (simp add: parse_reg_line_def reg_line_def split_once_hit)

definition closed_value :: "string \<Rightarrow> bool" where
  "closed_value v \<longleftrightarrow> v \<noteq> [] \<and> \<not> is_whitespace (last v)"

lemma closed_text: "closed_value (reg_text v)"
  by (simp add: closed_value_def reg_text_def is_whitespace_def code_def)

lemma closed_dword: "closed_value (reg_dword p)"
  using hex_char_plain [of "unat p mod 16"]
  by (simp add: closed_value_def reg_dword_def hex_text_8)

lemma trim_reg_line: "closed_value v \<Longrightarrow> trim (reg_line key v) = reg_line key v"
  by (rule trim_id) (simp add: reg_line_def closed_value_def is_whitespace_def code_def)

lemma reg_line_starts:
  "starts_with ''Windows Registry Editor'' (reg_line key v) = False"
  "starts_with ''REGEDIT'' (reg_line key v) = False" "starts_with '';'' (reg_line key v) = False"
  "starts_with ''['' (reg_line key v) = False" "(reg_line key v = []) = False"
  by (simp_all add: starts_with_def reg_line_def)

lemma key_line_step:
  assumes "dquote \<notin> set key" and "closed_value v"
  shows "putty_lines decode (reg_line key v # ls) acc (Some s)
    = putty_lines decode ls acc (Some (set_putty key (reg_value v) s))"
  by (simp only: putty_lines.simps(2) Let_def trim_reg_line [OF assms(2)] reg_line_starts
      parse_reg_line_line [OF assms(1)] simp_thms if_False prod.case option.case)

lemma key_lines_step:
  assumes "\<forall>(k, v)\<in>set kvs. dquote \<notin> set k \<and> closed_value v"
  shows "putty_lines decode (map (\<lambda>(k, v). reg_line k v) kvs @ ls) acc (Some s)
    = putty_lines decode ls acc (Some (fold (\<lambda>(k, v). set_putty k (reg_value v)) kvs s))"
  using assms by (induction kvs arbitrary: s) (auto simp: key_line_step simp del: putty_lines.simps)

lemma blank_step: "putty_lines decode ([] # ls) acc cur = putty_lines decode ls (acc @ finish_putty cur) None"
  by (simp add: trim_id)

lemma after_last_None: "length (filter (\<lambda>c. c = backslash) s) < 2 \<Longrightarrow> after_last SESSIONS_KEY s = None"
proof (induction s)
  case (Cons c s)
  have "strip_prefix SESSIONS_KEY (c # s) \<noteq> Some r" for r
    using Cons.prems by (auto simp: strip_prefix_Some_iff SESSIONS_KEY_def)
  then have "strip_prefix SESSIONS_KEY (c # s) = None" by (cases "strip_prefix SESSIONS_KEY (c # s)") auto
  with Cons show ?case by (auto split: if_splits)
qed simp

lemma after_last_here: "backslash \<notin> set s \<Longrightarrow> after_last SESSIONS_KEY (SESSIONS_KEY @ s) = Some s"
proof -
  assume s: "backslash \<notin> set s"
  then have "filter (\<lambda>c. c = backslash) s = []" by (auto simp: filter_empty_conv)
  then have "after_last SESSIONS_KEY (''Sessions'' @ backslash # s) = None"
    by (intro after_last_None) simp
  then have "after_last SESSIONS_KEY (backslash # (''Sessions'' @ backslash # s))
      = strip_prefix SESSIONS_KEY (backslash # (''Sessions'' @ backslash # s))"
    by (simp only: after_last.simps option.case)
  then show ?thesis by (simp add: SESSIONS_KEY_def)
qed

lemma after_last_append: "after_last pat s = Some r \<Longrightarrow> after_last pat (p @ s) = Some r"
  by (induction p) simp_all

lemma header_step:
  assumes "backslash \<notin> set name"
  shows "putty_lines decode (header_line name # ls) acc cur
    = putty_lines decode ls (acc @ finish_putty cur) (Some (new_putty_session (decode name)))"
proof -
  let ?path = "(''HKEY_CURRENT_USER'' @ [backslash] @ ''Software'' @ [backslash] @ ''SimonTatham''
    @ [backslash] @ ''PuTTY'') @ SESSIONS_KEY @ name"
  have line: "header_line name = CHR ''['' # ?path @ '']''" by (simp add: header_line_def)
  have trim: "trim (CHR ''['' # ?path @ '']'') = CHR ''['' # ?path @ '']''"
    by (rule trim_id) (simp add: is_whitespace_def code_def)
  have ends: "ends_with '']'' (CHR ''['' # ?path @ '']'')"
    unfolding ends_with_def
    using strip_suffix_Some_iff [of "'']''" "CHR ''['' # ?path @ '']''" "CHR ''['' # ?path"] by simp
  have starts: "starts_with ''['' (CHR ''['' # ?path @ '']'')"
    "\<not> starts_with ''Windows Registry Editor'' (CHR ''['' # ?path @ '']'')"
    "\<not> starts_with ''REGEDIT'' (CHR ''['' # ?path @ '']'')"
    "\<not> starts_with '';'' (CHR ''['' # ?path @ '']'')"
    by (simp_all add: starts_with_def)
  have path: "after_last SESSIONS_KEY (butlast (tl (CHR ''['' # ?path @ '']''))) = Some name"
    using after_last_append [OF after_last_here [OF assms]] by (simp only: list.sel butlast_snoc)
  show ?thesis
    by (simp only: line putty_lines.simps Let_def trim ends starts path) simp
qed

section \<open>The round trip\<close>

lemma non_empty_unwrap: "v \<noteq> Some [] \<Longrightarrow> non_empty (unwrap_or v []) = v"
  by (cases v) (simp_all add: non_empty_def)

lemma unix_path:
  assumes "v \<noteq> Some []" and "backslash \<notin> set (unwrap_or v [])"
  shows "map_option (map (\<lambda>c. if c = backslash then CHR ''/'' else c))
    (non_empty (windows_path (unwrap_or v []))) = v"
proof (cases v)
  case (Some p)
  have "map ((\<lambda>c. if c = backslash then CHR ''/'' else c) \<circ> (\<lambda>c. if c = CHR ''/'' then backslash else c)) p = p"
    by (rule map_idI) (use Some assms(2) in auto)
  with Some assms(1) show ?thesis by (simp add: non_empty_def windows_path_def)
qed (simp add: non_empty_def windows_path_def)

lemma session_values:
  assumes "exportable encode decode s"
  shows "fold (\<lambda>(k, v). set_putty k (reg_value v)) (session_keys s)
      (new_putty_session (pu_name s)) = s"
proof -
  have port: "ucast (unwrap_or (parse_dword (reg_dword p)) d) = p" for p :: u16 and d
    using parse_dword_text [of p] by (cases "parse_dword (reg_dword p)") simp_all
  show ?thesis
    using assms
    by (cases "pu_proxy_port s")
      (simp_all add: session_keys_def exportable_def set_putty_def new_putty_session_def reg_value_text
        reg_value_dword port parse_dword_text unix_path option_ok_def non_empty_unwrap)
qed

lemma session_keys_closed: "\<forall>(k, v)\<in>set (session_keys s). dquote \<notin> set k \<and> closed_value v"
  by (cases "pu_proxy_port s") (simp_all add: session_keys_def closed_text closed_dword)

lemma session_lines_step:
  assumes "exportable encode decode s"
  shows "putty_lines decode (session_lines encode s @ ls) acc cur
    = putty_lines decode ls (acc @ finish_putty cur @ [s]) None"
proof -
  have fin: "finish_putty (Some s) = [s]"
    using assms by (simp add: finish_putty_def exportable_def is_valid_ssh_session_def)
  have name: "backslash \<notin> set (encode (pu_name s))" "decode (encode (pu_name s)) = pu_name s"
    using assms by (simp_all add: exportable_def)
  show ?thesis
    by (simp only: session_lines_def append_Cons append_assoc header_step [OF name(1)] name(2)
        key_lines_step [OF session_keys_closed] session_values [OF assms] append_Nil blank_step fin)
qed

lemma sessions_step:
  "list_all (exportable encode decode) ss \<Longrightarrow>
   putty_lines decode (concat (map (session_lines encode) ss)) acc None = acc @ ss"
proof (induction ss arbitrary: acc)
  case (Cons s ss)
  then show ?case
    by (simp add: session_lines_step finish_putty_def del: putty_lines.simps)
qed (simp add: finish_putty_def)

lemma escape_set: "set (escape_backslashes v) \<subseteq> set v"
  by (auto simp: escape_backslashes_def)

lemma reg_text_line: "one_line v \<Longrightarrow> CHR 0x0A \<notin> set (reg_text v)"
  using escape_set [of v] by (auto simp: reg_text_def one_line_def)

lemma reg_dword_line: "CHR 0x0A \<notin> set (reg_dword p)"
  using hex_text_chars [of _ 8 "unat p"] hex_char_plain by (fastforce simp: reg_dword_def)

lemma windows_path_line: "one_line v \<Longrightarrow> one_line (windows_path v)"
  by (auto simp: one_line_def windows_path_def)

lemma reg_line_line:
  "CHR 0x0A \<notin> set k \<Longrightarrow> CHR 0x0A \<notin> set v \<Longrightarrow> closed_value v \<Longrightarrow>
   CHR 0x0A \<notin> set (reg_line k v) \<and> (reg_line k v = [] \<or> last (reg_line k v) \<noteq> CHR 0x0D)"
  by (auto simp: reg_line_def closed_value_def is_whitespace_def code_def)

definition line_ok :: "string \<Rightarrow> bool" where
  "line_ok l \<longleftrightarrow> CHR 0x0A \<notin> set l \<and> (l = [] \<or> last l \<noteq> CHR 0x0D)"

lemma text_line_ok: "CHR 0x0A \<notin> set k \<Longrightarrow> one_line v \<Longrightarrow> line_ok (reg_line k (reg_text v))"
  unfolding line_ok_def by (intro reg_line_line reg_text_line closed_text)

lemma dword_line_ok: "CHR 0x0A \<notin> set k \<Longrightarrow> line_ok (reg_line k (reg_dword p))"
  unfolding line_ok_def by (intro reg_line_line reg_dword_line closed_dword)

lemma exported_lines_ok:
  assumes "exportable encode decode s"
  shows "list_all line_ok (session_lines encode s)"
proof -
  have ok: "one_line (pu_hostname s)" "one_line (pu_protocol s)" "one_line (encode (pu_name s))"
    "one_line (unwrap_or (pu_username s) [])" "one_line (unwrap_or (pu_identity_file s) [])"
    "one_line (unwrap_or (pu_proxy_host s) [])" "one_line (unwrap_or (pu_proxy_username s) [])"
    using assms by (simp_all add: exportable_def option_ok_def one_line_def)
  have "line_ok (header_line (encode (pu_name s)))"
    using ok(3) by (simp add: header_line_def SESSIONS_KEY_def one_line_def line_ok_def)
  moreover have "line_ok []" by (simp add: line_ok_def)
  ultimately show ?thesis
    by (cases "pu_proxy_port s")
      (simp_all add: session_lines_def session_keys_def text_line_ok dword_line_ok ok windows_path_line)
qed

lemma registry_file_sessions:
  assumes "list_all (exportable encode decode) ss"
  shows "putty_sessions decode (registry_file encode ss) = ss"
proof -
  have "str_lines (registry_file encode ss)
      = ''Windows Registry Editor Version 5.00'' # [] # concat (map (session_lines encode) ss)"
    unfolding registry_file_def
  proof (rule str_lines_file)
    have "list_all line_ok (concat (map (session_lines encode) ss))"
      using assms exported_lines_ok by (induction ss) auto
    then show "\<forall>l\<in>set (''Windows Registry Editor Version 5.00'' # [] # concat (map (session_lines encode) ss)).
        CHR 0x0A \<notin> set l \<and> (l = [] \<or> last l \<noteq> CHR 0x0D)"
      by (simp add: list_all_iff line_ok_def)
  qed
  moreover have "putty_lines decode (''Windows Registry Editor Version 5.00'' # ls) acc None
      = putty_lines decode ls acc None" for ls acc
  proof -
    have "trim ''Windows Registry Editor Version 5.00'' = ''Windows Registry Editor Version 5.00''"
      by (rule trim_id) (simp add: is_whitespace_def code_def)
    then show ?thesis by (simp add: starts_with_def)
  qed
  ultimately show ?thesis
    using sessions_step [OF assms, of "[]"]
    by (simp add: putty_sessions_def blank_step finish_putty_def del: putty_lines.simps)
qed

end
