(* ===== verification/Import_Safe.thy ===== *)
theory Import_Safe
  imports Putty_Roundtrip
begin

text \<open>
  The properties of the importers and of the import command, with their witnesses: the contract
  on the imported bookmarks, the two file formats read against a reference, and the configuration
  that an import saves.
\<close>

section \<open>The saved configuration\<close>

lemma merge_loop_set: "set (fst (merge_loop N ov ex bs r)) \<subseteq> set ex \<union> set bs"
  by (induction N ov ex bs r rule: merge_loop.induct) (auto split: if_splits)

lemma merge_loop_names:
  "N \<subseteq> b_name ` set ex \<Longrightarrow>
   b_name ` set (fst (merge_loop N ov ex bs r)) = b_name ` set ex \<union> b_name ` set bs"
proof (induction N ov ex bs r rule: merge_loop.induct)
  case (2 N ov ex b bs r)
  have names: "b_name ` set (filter (\<lambda>x. b_name x \<noteq> b_name b) ex @ [b]) = b_name ` set ex \<union> {b_name b}"
    by auto
  show ?case
  proof (cases "b_name b \<in> N")
    case True
    then show ?thesis
      using "2.IH"(1,2) "2.prems" names by (cases ov) (auto simp del: set_append set_filter)
  next
    case False
    then show ?thesis using "2.IH"(3) "2.prems" by auto
  qed
qed simp

lemma merge_imports_set: "set (fst (merge_imports ex bs ov)) \<subseteq> set ex \<union> set bs"
  by (simp add: merge_imports_def merge_loop_set)

lemma merge_imports_names:
  "b_name ` set (fst (merge_imports ex bs ov)) = b_name ` set ex \<union> b_name ` set bs"
  by (simp add: merge_imports_def merge_loop_names)

lemma save_then_load:
  assumes "save_to env c st = (Inr (), st')" and "can_read env"
    and "\<And>t. to_toml env c = Some t \<Longrightarrow> from_toml env t = Some c"
  shows "load_from env st'
    = (case validate_config c of Inl e \<Rightarrow> (Inl e, st') | Inr _ \<Rightarrow> (Inr c, st'))"
proof -
  obtain t where "to_toml env c = Some t" "main_file st' = Some t"
    using assms(1) atomic_write_outcome [of env c st] by (auto simp: save_to_def)
  then show ?thesis using assms(2,3) by (simp add: load_from_def)
qed

text \<open>What a finished import wrote: the loaded configuration with the merged bookmarks.\<close>

lemma cmd_import_saves:
  assumes "cmd_import pa env path kind ov extra overwrite False st = (Inr new, st')"
  obtains bs old st1 where "import_from_source pa path kind ov extra = Inr bs"
    and "load_from env st = (Inr old, st1)"
    and "save_to env (old\<lparr>bookmarks := fst (merge_imports (bookmarks old)
        (apply_overrides ov extra (is_passthrough kind) bs) overwrite)\<rparr>) st1 = (Inr (), st')"
  using assms
  by (auto simp: cmd_import_def finish_import_def split: sum.splits prod.splits)

lemma merged_config_valid:
  assumes "valid_config old" and "\<forall>b\<in>set bs. b_on_connect b = None"
  shows "valid_config (old\<lparr>bookmarks := fst (merge_imports (bookmarks old) bs overwrite)\<rparr>)"
proof -
  have "clean_command (b_on_connect b)"
    if "b \<in> set (fst (merge_imports (bookmarks old) bs overwrite))" for b
    using that merge_imports_set [of "bookmarks old" bs overwrite] assms
    by (auto simp: valid_config_def clean_command_def)
  with assms(1) show ?thesis by (simp add: valid_config_def)
qed

lemma foreign_bookmarks:
  assumes "foreign kind" and "import_from_source pa path kind ov extra = Inr bs" and "b \<in> set bs"
  shows "well_imported kind ov extra b"
  using import_foreign [OF assms(1,2)] parse_source_well_imported [OF assms(1) _ assms(3)] by metis

lemma foreign_not_passthrough: "foreign kind \<Longrightarrow> \<not> is_passthrough kind"
  by (auto simp: foreign_def is_passthrough_def)

text \<open>
  A bookmark of an OpenSSH or TOML file whose command the loader refuses is saved all the same;
  from then on the configuration does not load.
\<close>

lemma unclean_import_locks_out:
  assumes "cmd_import pa env path kind ov extra False False st = (Inr new, st')"
    and "load_from env st = (Inr old, st1)"
    and "import_from_source pa path kind ov extra = Inr bs"
    and "b \<in> set (apply_overrides ov extra (is_passthrough kind) bs)"
    and "b_name b \<notin> b_name ` set (bookmarks old)" and "\<not> clean_command (b_on_connect b)"
    and "can_read env" and "\<And>c t. to_toml env c = Some t \<Longrightarrow> from_toml env t = Some c"
  shows "\<exists>e. load_from env st' = (Inl e, st')"
proof -
  let ?bs = "apply_overrides ov extra (is_passthrough kind) bs"
  let ?c = "old\<lparr>bookmarks := fst (merge_imports (bookmarks old) ?bs False)\<rparr>"
  have save: "save_to env ?c st1 = (Inr (), st')"
    using cmd_import_saves [OF assms(1)] assms(2,3) by auto
  have "b \<in> set (bookmarks ?c)" using assms(4,5) by (simp add: merge_imports_def merge_loop_skip)
  then have "\<not> valid_config ?c" using assms(6) by (auto simp: valid_config_def)
  then obtain e where "validate_config ?c = Inl e"
    using validate_config_ok [of ?c] by (cases "validate_config ?c") auto
  with save_then_load [OF save assms(7,8)] show ?thesis by simp
qed

text \<open>A dword beyond sixteen bits is cut to a port that the session never had.\<close>

lemma putty_port_is_truncated:
  "pu_port (set_putty ''PortNumber'' ''dword:00010016'' s) = 22"
proof -
  have "parse_dword ''dword:00010016'' = Some 0x10016"
    by (simp add: parse_dword_def parse_hex_u32_def hex_digit_value_def is_ascii_digit_def code_def)
  then show ?thesis by (simp add: set_putty_def)
qed

text \<open>The proxy host is taken whatever the proxy method of the session says.\<close>

lemma putty_ignores_proxy_method:
  "set_putty ''ProxyMethod'' v s = s"
  by (simp add: set_putty_def)

text \<open>A session whose name is nothing but forbidden characters becomes a bookmark without a name.\<close>

lemma putty_name_can_vanish: "b_name (putty_bookmark ov extra (new_putty_session ''##'')) = []"
proof -
  have "sanitize_bookmark_name ''##'' = []" by code_simp
  then show ?thesis
    by (simp add: putty_bookmark_def new_putty_session_def imported_bookmark_def Let_def)
qed

text \<open>Tabby's jump hosts become names of imported bookmarks, not addresses.\<close>

lemma collect_map_mem: "collect_map ps k = Some v \<Longrightarrow> (k, v) \<in> set ps"
  by (auto simp: collect_map_def dest: map_of_SomeD)

lemma tabby_jump_names_a_bookmark:
  assumes "parse_tabby_config from_yaml content ov extra = Inr bs" and "b \<in> set bs"
    and "b_proxy_jump b = Some j"
  shows "j \<in> b_name ` set bs"
proof -
  obtain config where "from_yaml content = Some config"
    using assms(1) by (cases "from_yaml content") (simp_all add: parse_tabby_config_def)
  define ps where "ps = filter tabby_is_ssh (tc_profiles config)"
  define f where "f = tabby_bookmark (resolve_jump_hosts ps)
      (collect_map (List.map_filter tabby_group_entry (tc_groups config))) ov extra"
  have bs: "bs = map f ps"
    using assms(1) \<open>from_yaml content = Some config\<close>
    by (cases "ps = []") (simp_all add: parse_tabby_config_def Let_def ps_def f_def)
  obtain p where p: "p \<in> set ps" "b = f p" using assms(2) bs by auto
  then obtain i where "resolve_jump_hosts ps i = Some j"
    using assms(3)
    by (auto simp: f_def tabby_bookmark_def Let_def imported_bookmark_def bind_eq_Some_conv)
  then obtain q where "q \<in> set ps"
    and "tabby_jump_entry (collect_map (List.map_filter tabby_id_entry ps)) q = Some (i, j)"
    unfolding resolve_jump_hosts_def by (blast dest: collect_map_mem map_filter_mem)
  then obtain jump_id name where "collect_map (List.map_filter tabby_id_entry ps) jump_id = Some name"
    and j: "j = sanitize_bookmark_name name"
    by (auto simp: tabby_jump_entry_def split: option.splits)
  then obtain t where "t \<in> set ps" "tabby_id_entry t = Some (jump_id, name)"
    by (blast dest: collect_map_mem map_filter_mem)
  then have "b_name (f t) = j"
    by (auto simp: j tabby_id_entry_def f_def tabby_bookmark_def imported_bookmark_def Let_def
        split: option.splits)
  with \<open>t \<in> set ps\<close> show ?thesis by (auto simp: bs)
qed

section \<open>A sample\<close>

definition sample_moba_text :: string where
  "sample_moba_text = ''[Bookmarks_1]'' @ [CHR 0x0A] @ ''SubRep=Production'' @ [CHR 0x0A]
     @ ''web=#109#0%10.0.0.5%2222%%%deploy'' @ [CHR 0x0A]"

definition sample_parsers :: parsers where
  "sample_parsers = \<lparr>pa_files = \<lparr>sf_contents = [(''m'', sample_moba_text)], sf_canonical = (\<lambda>p. p),
       sf_parent = (\<lambda>p. p), sf_include = (\<lambda>_ _. None)\<rparr>,
     pa_percent_decode = (\<lambda>s. s), pa_toml = (\<lambda>_. None), pa_xml = (\<lambda>_. []), pa_csv = (\<lambda>_. None),
     pa_json_array = (\<lambda>_. None), pa_json_wrapper = (\<lambda>_. None), pa_yaml = (\<lambda>_. None)\<rparr>"

definition sample_moba :: moba_session where
  "sample_moba = \<lparr>mo_name = ''web'', mo_folder = ''Production'', mo_host = ''10.0.0.5'',
     mo_port = 2222, mo_username = Some ''deploy''\<rparr>"

lemma sample_moba_packed:
  "parse_moba_packed ''web'' ''109#0%10.0.0.5%2222%%%deploy'' ''Production'' = Some sample_moba"
proof -
  have parts: "splitn 3 hash_char ''109#0%10.0.0.5%2222%%%deploy'' = [''109'', ''0%10.0.0.5%2222%%%deploy'']"
    "split_on CHR ''%'' ''0%10.0.0.5%2222%%%deploy''
      = [''0'', ''10.0.0.5'', ''2222'', [], [], ''deploy'']"
    by code_simp+
  have numbers: "parse_u16 ''109'' = Some 109" "parse_u16 ''2222'' = Some 2222"
    by (simp_all add: parse_u16_def parse_unsigned_def digits_value_def digit_value_def
        is_ascii_digit_def code_def)
  show ?thesis
    by (simp add: parse_moba_packed_def parts numbers MOBA_SSH_TYPE_def nth_opt_def non_empty_def
        sample_moba_def Let_def)
qed

lemma sample_moba_lines: "moba_lines (str_lines sample_moba_text) [] = [sample_moba]"
proof -
  have lines: "str_lines sample_moba_text
      = [''[Bookmarks_1]'', ''SubRep=Production'', ''web=#109#0%10.0.0.5%2222%%%deploy'']" by code_simp
  have trims: "trim ''[Bookmarks_1]'' = ''[Bookmarks_1]''"
    "trim ''SubRep=Production'' = ''SubRep=Production''" "trim ''Production'' = ''Production''"
    "trim ''web=#109#0%10.0.0.5%2222%%%deploy'' = ''web=#109#0%10.0.0.5%2222%%%deploy''"
    "trim ''web'' = ''web''" by code_simp+
  have tests: "starts_with ''['' ''[Bookmarks_1]''" "ends_with '']'' ''[Bookmarks_1]''"
    "\<not> starts_with ''['' ''SubRep=Production''" by code_simp+
  show ?thesis
    by (simp add: lines trims tests starts_with_def sample_moba_packed Let_def)
qed

lemma sample_moba_import:
  "import_from_source sample_parsers ''m'' Mobaxterm None [] = Inr [moba_bookmark None [] sample_moba]"
proof -
  have "valid_host ''10.0.0.5''" by code_simp
  then show ?thesis
    using sample_moba_lines
    by (simp add: import_from_source_def read_file_def sample_parsers_def parse_source_def
        parse_mxtsessions_def sample_moba_def)
qed

lemma sample_foreign: "foreign Mobaxterm"
  by (simp add: foreign_def)

section \<open>Properties\<close>

text \<open>
  C21: whatever a PuTTY, MobaXterm, Tabby, SecureCRT, CSV or JSON file holds, each bookmark of an
  import has a host without shell metacharacters, a valid name or none, all the tags asked for and
  the tag of its source, the environment of the override where there is one, and no command, no
  profile and no SSH options. A JSON bookmark always has a name.
\<close>

theorem foreign_bookmarks_are_safe:
  assumes "foreign kind" and "import_from_source pa path kind env_override extra_tags = Inr bs"
    and "b \<in> set bs"
  shows "well_imported kind env_override extra_tags b \<and> (kind = Json \<longrightarrow> b_name b \<noteq> [])"
proof -
  have "b_name b \<noteq> []" if "kind = Json"
    using import_foreign [OF assms(1,2)] assms(3) json_named that by (metis source_kind.simps)
  with foreign_bookmarks [OF assms] show ?thesis by blast
qed

theorem foreign_bookmarks_are_safe_witness:
  "foreign Mobaxterm
   \<and> import_from_source sample_parsers ''m'' Mobaxterm None [] = Inr [moba_bookmark None [] sample_moba]
   \<and> well_imported Mobaxterm None [] (moba_bookmark None [] sample_moba)"
  using foreign_bookmarks_are_safe [OF sample_foreign sample_moba_import] sample_foreign
    sample_moba_import by simp

text \<open>
  C18: the event loop of the SecureCRT importer reads the tree of keys: for every document of
  nested keys and fields, with any text between the elements, the bookmarks are those of the keys
  that name a valid host before their first inner key, in the order of the file, each with the
  path of the keys around it.
\<close>

theorem securecrt_reads_the_tree:
  "parse_securecrt_xml (\<lambda>_. document_events items) content env_override extra_tags
    = Inr (map (scrt_bookmark env_override extra_tags)
        (filter (\<lambda>s. valid_host (sc_hostname s)) (concat (map (tree_sessions []) items))))"
proof -
  have "filter (\<lambda>s. valid_host (sc_hostname s)) (filter (\<lambda>s. sc_hostname s \<noteq> []) ss)
      = filter (\<lambda>s. valid_host (sc_hostname s)) ss" for ss :: "scrt_session list"
    unfolding filter_filter by (rule filter_cong) (auto dest: valid_host_not_Nil)
  then show ?thesis
    by (simp only: parse_securecrt_xml_def document_sessions result_bind_Inr)
qed

text \<open>
  C19: a PuTTY registry file reads back. For sessions with a host and the protocol ssh, whose
  values stay on one line and whose names survive the percent encoding, the importer finds in the
  file as it is exported exactly these sessions, with every field, and makes one bookmark of each.
\<close>

theorem putty_file_roundtrip:
  assumes "list_all (exportable encode decode) ss"
    and "list_all (\<lambda>s. valid_host (pu_hostname s)) ss"
  shows "putty_sessions decode (registry_file encode ss) = ss
    \<and> parse_putty_reg decode (registry_file encode ss) env_override extra_tags
        = Inr (map (putty_bookmark env_override extra_tags) ss)"
proof -
  have "filter (\<lambda>s. valid_host (pu_hostname s)) ss = ss"
    using assms(2) by (simp add: list_all_iff)
  with registry_file_sessions [OF assms(1)] show ?thesis by (simp add: parse_putty_reg_def)
qed

definition sample_putty :: putty_session where
  "sample_putty = (new_putty_session ''web'')\<lparr>pu_hostname := ''10.0.0.5'', pu_port := 2222,
     pu_username := Some ''me'', pu_proxy_port := Some 1080, pu_identity_file := Some ''C:/k''\<rparr>"

theorem putty_file_roundtrip_witness:
  "exportable (\<lambda>n. n) (\<lambda>n. n) sample_putty
   \<and> putty_sessions (\<lambda>n. n) (registry_file (\<lambda>n. n) [sample_putty, sample_putty])
     = [sample_putty, sample_putty]"
proof -
  have "exportable (\<lambda>n. n) (\<lambda>n. n) sample_putty" by code_simp
  moreover have "valid_host (pu_hostname sample_putty)" by code_simp
  ultimately show ?thesis
    using putty_file_roundtrip [of "\<lambda>n. n" "\<lambda>n. n" "[sample_putty, sample_putty]" None "[]"] by simp
qed

text \<open>
  C20: an import from another client never locks the user out. After the command has saved, the
  configuration loads; it has the profiles and groups of before, every bookmark of it is an old or
  an imported one, and no name of either is lost. The serializer is assumed to give a text that
  parses to what it was made from.
\<close>

theorem saved_import_loads:
  assumes "cmd_import pa env path kind env_override extra_tags overwrite False st = (Inr new, st')"
    and "foreign kind" and "can_read env"
    and "\<And>c t. to_toml env c = Some t \<Longrightarrow> from_toml env t = Some c"
  shows "\<exists>old bs c. fst (load_from env st) = Inr old
    \<and> import_from_source pa path kind env_override extra_tags = Inr bs
    \<and> load_from env st' = (Inr c, st') \<and> profiles c = profiles old \<and> groups c = groups old
    \<and> set (bookmarks c) \<subseteq> set (bookmarks old) \<union> set bs
    \<and> b_name ` set (bookmarks c) = b_name ` set (bookmarks old) \<union> b_name ` set bs"
proof -
  obtain bs old st1 where bs: "import_from_source pa path kind env_override extra_tags = Inr bs"
    and old: "load_from env st = (Inr old, st1)"
    and save: "save_to env (old\<lparr>bookmarks := fst (merge_imports (bookmarks old)
        (apply_overrides env_override extra_tags (is_passthrough kind) bs) overwrite)\<rparr>) st1
      = (Inr (), st')"
    by (rule cmd_import_saves [OF assms(1)])
  let ?c = "old\<lparr>bookmarks := fst (merge_imports (bookmarks old) bs overwrite)\<rparr>"
  have "\<forall>b\<in>set bs. b_on_connect b = None"
    using foreign_bookmarks [OF assms(2) bs] by (simp add: well_imported_def)
  then have "validate_config ?c = Inr ()"
    using merged_config_valid load_from_Inr [OF old] validate_config_ok by blast
  moreover have "save_to env ?c st1 = (Inr (), st')"
    using save foreign_not_passthrough [OF assms(2)] by (simp add: apply_overrides_def)
  ultimately have "load_from env st' = (Inr ?c, st')"
    using save_then_load [OF _ assms(3,4)] by simp
  then show ?thesis
    using bs old merge_imports_set merge_imports_names
    by (intro exI [of _ old] exI [of _ bs] exI [of _ ?c]) simp
qed

theorem saved_import_loads_witness:
  "\<exists>st' c. cmd_import sample_parsers sample_io ''m'' Mobaxterm None [] False False
       \<lparr>main_file = Some sample_config, backup_file = None\<rparr>
     = (Inr [moba_bookmark None [] sample_moba], st')
   \<and> load_from sample_io st' = (Inr c, st')"
proof -
  let ?b = "moba_bookmark None [] sample_moba"
  have "\<exists>st'. cmd_import sample_parsers sample_io ''m'' Mobaxterm None [] False False
      \<lparr>main_file = Some sample_config, backup_file = None\<rparr> = (Inr [?b], st')"
  proof -
    have "merge_imports (bookmarks sample_config) [?b] False
        = ([?b], \<lparr>ir_imported = [?b], ir_already_existed = 0\<rparr>)"
      by (simp add: merge_imports_def sample_config_def default_config_def)
    then show ?thesis
      by (simp add: cmd_import_def sample_moba_import finish_import_def sample_config_load
          apply_overrides_def is_passthrough_def) (simp add: save_to_def atomic_write_def sample_io_def)
  qed
  then obtain st' where run: "cmd_import sample_parsers sample_io ''m'' Mobaxterm None [] False False
      \<lparr>main_file = Some sample_config, backup_file = None\<rparr> = (Inr [?b], st')" ..
  have "can_read sample_io" "\<And>c t. to_toml sample_io c = Some t \<Longrightarrow> from_toml sample_io t = Some c"
    by (simp_all add: sample_io_def)
  from saved_import_loads [OF run sample_foreign this] run show ?thesis by blast
qed

end
