(* ===== verification/Spec2Isabelle.thy ===== *)
theory Spec2Isabelle
  imports Sftp_Wire Session_Escape Osc_Strip Password Known_Hosts Connect_Flow Tunnel Ssh_Import
    Sftp_Session Sftp_Shell Transfer_Run Browser_Questions App_Safe Import_Safe
begin

text \<open>
  \<^bold>\<open>sshore\<close> is an SSH connection manager: bookmarks in a TOML file, interactive
  sessions with escape popups, SFTP commands, a dual-pane file browser with background transfers,
  tunnels that reconnect, and imports of SSH configurations and of other clients' sessions. It
  carries its own SFTP crate. This development models its logic; the paths below are relative to the
  root of the repository, those of the application to \<open>src/\<close> and those of the crate to
  \<open>crates/russh-sftp/src/\<close>.

  \<^bold>\<open>How the parts interact.\<close>  The configuration is loaded and validated (\<open>config/\<close>), a target is
  resolved and authenticated (\<open>ssh/mod.rs\<close>, \<open>ssh/client.rs\<close>), the host key is checked against
  \<open>known_hosts\<close>, and a session, a tunnel, an SFTP shell or the browser runs over the connection.
  Input of a session passes the escape detectors, its output the title stripper and the password
  detector.  SFTP requests are serialized, sent with an id, and their replies dispatched to the
  waiting call; the pipeline keeps many reads or writes in flight for a file; the browser's
  workers take files from a queue and run the pipeline on them.

  \<^bold>\<open>Theories.\<close>
  \<^item> \<open>Prelude\<close>, \<open>Utf8\<close>, \<open>Rust_Str\<close>, \<open>Stable_Sort\<close>, \<open>Terminal_Keys\<close>: results and their bind, machine
    integers, big-endian bytes, UTF-8 on bytes, the string functions of Rust's library that the
    sources call, sorting with a comparison, and key events.
  \<^item> SFTP crate: \<open>Sftp_Ser\<close> (\<open>ser.rs\<close>), \<open>Sftp_De\<close> (\<open>buf.rs\<close>, \<open>de.rs\<close>), \<open>File_Attrs\<close>
    (\<open>protocol/file_attrs.rs\<close>, \<open>open.rs\<close>), \<open>Sftp_Packet\<close> and \<open>Sftp_Wire\<close> (\<open>protocol/mod.rs\<close> and the
    reading of packets in \<open>utils.rs\<close>: the codec as a whole), \<open>Sftp_Client\<close> (\<open>client/rawsession.rs\<close>,
    \<open>client/mod.rs\<close>: ids, pending requests, limits), \<open>Sftp_Session\<close> (\<open>client/session.rs\<close>,
    \<open>client/fs/\<close>, \<open>server/\<close>: the operations of the client, the loop of the server, and both put
    together).
  \<^item> Transfers: \<open>Download\<close>, \<open>Download_Correct\<close>, \<open>Upload\<close> (\<open>sftp/pipeline.rs\<close>), \<open>Sftp_Shell\<close>
    (\<open>sftp/mod.rs\<close>, \<open>sftp/shortcuts.rs\<close>), \<open>Transfer_Job\<close>, \<open>Transfer_Correct\<close>, \<open>Transfer_Run\<close>,
    \<open>Dir_Walk\<close> (the background transfers, step by step and as whole runs, and the directory walks
    of \<open>tui/views/browser.rs\<close>).
  \<^item> Browser: \<open>Storage\<close> (\<open>storage/\<close>), \<open>Browser_Pane\<close>, \<open>Browser\<close>, \<open>Browser_Correct\<close>,
    \<open>Browser_Questions\<close> (\<open>tui/views/browser.rs\<close>: \<open>PaneState\<close>, \<open>BrowserState\<close>, every key in every
    input mode, and the polling in the main loop).
  \<^item> Main screen: \<open>Bookmark_Form\<close>, \<open>Form_Correct\<close> (\<open>tui/views/form.rs\<close>: the fields with their
    cursors, validation), \<open>App\<close> (\<open>tui/mod.rs\<close>, \<open>tui/views/confirm.rs\<close>, \<open>tui/widgets/search_bar.rs\<close>:
    the state \<open>App\<close>, every key on every screen, the rounds of the event loop, the loop around it),
    \<open>App_Correct\<close> (the invariant and every key), \<open>App_Reach\<close> (rounds and reachable states),
    \<open>App_Safe\<close> (the properties).
  \<^item> Configuration: \<open>Config_Model\<close> (\<open>config/model.rs\<close>), \<open>Config_Store\<close> (\<open>config/mod.rs\<close>, \<open>writer.rs\<close>),
    \<open>Env_Detect\<close> (\<open>config/env.rs\<close>), \<open>Ssh_Import\<close> (\<open>config/ssh_import.rs\<close>, merging and overrides).
  \<^item> Importers: \<open>Importers\<close> (\<open>config/import_*.rs\<close>, the dispatch of \<open>config/mod.rs\<close>, the import
    command of \<open>main.rs\<close>), \<open>Importers_Correct\<close> (the contract on imported bookmarks, the tree of
    SecureCRT's keys), \<open>Putty_Roundtrip\<close> (the registry file), \<open>Import_Safe\<close> (the properties).
  \<^item> Sessions: \<open>Escape\<close>, \<open>Session_Escape\<close>, \<open>Popups\<close> (\<open>ssh/snippet.rs\<close>), \<open>Osc_Strip\<close>
    (\<open>ssh/terminal_theme.rs\<close>), \<open>Password\<close> (\<open>ssh/password.rs\<close>), \<open>Known_Hosts\<close> (\<open>ssh/known_hosts.rs\<close>,
    \<open>ssh/client.rs\<close>), \<open>Ssh_Target\<close> and \<open>Connect_Flow\<close> (\<open>ssh/mod.rs\<close>, \<open>keychain.rs\<close>), \<open>Tunnel\<close>
    (\<open>ssh/tunnel.rs\<close>).

  \<^bold>\<open>How state and operations are written.\<close>  A struct is a record, an enum a datatype, a fallible
  function returns a sum with the error on the left, a mutable borrow is an argument and a
  result.  A handler is one definition with the branches of the code; where an asynchronous loop
  selects between sources, the model takes the list of what happened as its argument, so that a
  theorem for all lists covers every schedule.  The other side (server, disk, keychain, user,
  clock) is a function or a list of answers among the arguments.

  \<^bold>\<open>What the lemmas show.\<close>
  \<^item> Codec: what is encoded is read back, packets in a stream do not run together.  Client:
    overlapping calls are kept apart by their ids, and with the server's loop a call returns what
    the handler answered, as far as the encoding preserves it.
  \<^item> Pipeline: the invariant of the reorder buffer under every order of replies; completion with
    an honest server; a prefix of the file after any cancellation or fault of the server; the
    number of requests in flight.  Copies and background jobs build on it: part files; and for
    whole runs of a job with distinct paths against a truthful server that every file is accounted
    for, that what is reported as copied is stored, that the rest is untouched, and what a move may
    delete; with the one exception of empty files uploaded under an empty handle.  A deletion in
    the SFTP shell of a production host was asked for and confirmed where it stands in the input.
  \<^item> Browser: the invariant of panes and dialogs over all events; when the main loop (not the
    workers) changes a disk or a server;
    that a deletion removes what was marked; that a question is answered at most once; that both
    directory walks list the tree, and that deleting a directory removes it.
  \<^item> Main screen: the invariant of list, dialogs and forms over all rounds, and with it where a key
    can panic; that the list shows what matches, names stay unique, a deletion was confirmed, a
    stored password follows its bookmark, and a command goes to a ready shell.  Form: its editing
    refines a text with a gap, what it builds is valid, and what opening and saving it changes.
  \<^item> Sessions: typed bytes are neither lost nor invented, and stay in order where no escape
    byte comes in between; triggers need human speed; titles are
    stripped and nothing else; the password buffer.  Keys and secrets: which host keys are
    accepted, and which secrets are sent.
  \<^item> Configuration: what a loaded file guarantees, writing it whole and where its old text is then,
    precedence and merging,
    includes that end.  Importers: hosts and names they let through, a registry file read back,
    the XML event loop against the tree, and that the file an import saves loads again.
  Lemmas beside them record behaviour of the code that its comments do not promise; they are named
  in the findings of the manifest.

  \<^bold>\<open>Interfaces.\<close>  Locales state what several operations share: the codec of a field, the detector
  fed byte by byte, a total preorder with a stable sort, an importer, a directory walk (\<open>directory_walk\<close>, extended
  by \<open>rooted_walk\<close>), stores shared by processes.  Each is interpreted on the definitions of the model
  in the theory that provides them.

  \<^bold>\<open>Bounds and fuel.\<close>  Packets are limited to the 256 KiB of the code, the buffer of the password
  detector to its 256 bytes, a trigger to bytes 20 ms apart.  Loops that read until an end take
  fuel, and the lemmas show how much is enough: one more than the number of files for includes,
  one more than the length of the script for listings, one more than the number of directories
  for walks, the depth of the tree for a recursive deletion, the length of the text for
  replacements.  The loops of the pipeline recurse over the list of events.  Items of the main list
  and sessions are coded as numbers; the properties of the main screen hold for lists of at most
  10000 bookmarks and groups of fewer than 9999 sessions, for which the coding is unambiguous.

  \<^bold>\<open>Parameters.\<close>  Third-party code is an argument: SHA-2, HMAC and base64 of known hosts, the TOML
  parser, regular expressions, shell expansion, globbing, the fuzzy matcher, the parsers of XML, CSV, JSON and YAML, the keychain, the terminal, the SSH
  connection.  The order in which a hash set is iterated is one too.  Strings are lists of
  characters below code point 256; one arrow in a message is written in ASCII.

  \<^bold>\<open>Not modelled.\<close>  Drawing and themes (\<open>tui/theme.rs\<close>, widgets, the draw functions of the views),
  texts with speeds and times (floating point), argument parsing (\<open>cli.rs\<close>), threads and raw
  terminal input (\<open>ssh/mux.rs\<close>, \<open>ssh/stdin_reader.rs\<close>), the forwarding of tunnel data, and memory
  locking (\<open>russh-cryptovec\<close>): they are input and output, or calls of the operating system.  The
  import wizard, and the older forms and the session list of the main screen, which are no longer
  called.
\<close>

end
